(* ===== verification/Prelude.thy ===== *)
theory Prelude
  imports Main "HOL-Library.Word"
begin

text \<open>
  Shared vocabulary of the development: the machine types of \<open>include/types.h\<close>, the way a
  run of C code can go wrong (\<open>fault\<close>) and the result type built on it, the first-match loop
  that most tables of the kernel are searched with, physical memory as a total function
  on addresses together with the byte-wise \<open>fill\<close> and \<open>ncopy\<close> loops, and C strings.
  The collections \<open>res_simps\<close>, \<open>scan_simps\<close> and \<open>mem_simps\<close> carry the automation.
\<close>

section \<open>Machine types\<close>

type_synonym u8 = "8 word"
type_synonym u16 = "16 word"
type_synonym u32 = "32 word"
type_synonym u64 = "64 word"

text \<open>An address or a \<open>size_t\<close> is a number below \<open>2 ^ 32\<close>; where the C arithmetic on it can
  wrap around, the model writes \<open>wrap32\<close>. The null pointer is address 0.\<close>

type_synonym addr = nat

definition wrap32 :: "nat \<Rightarrow> nat" where
  "wrap32 n = n mod 2 ^ 32"

definition sub32 :: "nat \<Rightarrow> nat \<Rightarrow> nat" where
  "sub32 a b = (a + 2 ^ 32 - b) mod 2 ^ 32"

lemma wrap32_less [simp]: "wrap32 n < 4294967296"
  by (simp add: wrap32_def)

lemma wrap32_small [simp]: "n < 4294967296 \<Longrightarrow> wrap32 n = n"
  by (simp add: wrap32_def)

lemma power2_32: "(2::nat) ^ 32 = 4294967296"
  by simp

lemma mod_sub_small: "b \<le> a \<Longrightarrow> a < n \<Longrightarrow> (a + n - b) mod n = a - (b :: nat)"
proof -
  assume a: "b \<le> a" "a < n"
  then have "a + n - b = (a - b) + n" by linarith
  then have "(a + n - b) mod n = (a - b) mod n" by (simp only: mod_add_self2)
  also have "\<dots> = a - b" using a by (intro mod_less) linarith
  finally show ?thesis .
qed

lemma mod_sub_borrow: "a < b \<Longrightarrow> (a + n - b) mod n = a + n - (b :: nat)"
  by (cases "n = 0") simp_all

lemma sub32_small: "b \<le> a \<Longrightarrow> a < 4294967296 \<Longrightarrow> sub32 a b = a - b"
  unfolding sub32_def power2_32 by (rule mod_sub_small)

lemma sub32_borrow: "a < b \<Longrightarrow> sub32 a b = a + 4294967296 - b"
  unfolding sub32_def power2_32 by (rule mod_sub_borrow)

lemma sub32_less [simp]: "sub32 a b < 4294967296"
  by (simp add: sub32_def)

section \<open>Faults and results\<close>

text \<open>
  \<open>Panic\<close> is the kernel's own \<open>PANIC\<close> macro, which prints and halts for ever. The other
  constructors are runs the C standard gives no meaning to: an index outside the array
  it is applied to, a dereferenced null pointer, a division by zero, an object written past
  its end, a variadic argument that is missing or of another type. \<open>Diverges\<close> is a loop
  that does not come back.
\<close>

datatype fault = Panic string | OutOfBounds | NullDeref | DivByZero | Overrun | BadVarArg | Diverges

type_synonym 'a res = "fault + 'a"

definition bindR :: "'a res \<Rightarrow> ('a \<Rightarrow> 'b res) \<Rightarrow> 'b res" where
  "bindR m f = (case m of Inl e \<Rightarrow> Inl e | Inr x \<Rightarrow> f x)"

definition checkR :: "bool \<Rightarrow> fault \<Rightarrow> 'a res \<Rightarrow> 'a res" where
  "checkR b e m = (if b then m else Inl e)"

named_theorems res_simps

lemma bindR_Inl [simp, res_simps]: "bindR (Inl e) f = Inl e"
  by (simp add: bindR_def)

lemma bindR_Inr [simp, res_simps]: "bindR (Inr x) f = f x"
  by (simp add: bindR_def)

lemma bindR_eq_Inr [res_simps]: "bindR m f = Inr y \<longleftrightarrow> (\<exists>x. m = Inr x \<and> f x = Inr y)"
  by (cases m) auto

lemma bindR_assoc: "bindR (bindR m f) g = bindR m (\<lambda>x. bindR (f x) g)"
  by (cases m) auto

lemma bindR_cong [fundef_cong]:
  "m = m' \<Longrightarrow> (\<And>x. m' = Inr x \<Longrightarrow> f x = f' x) \<Longrightarrow> bindR m f = bindR m' f'"
  by (cases m') auto

lemma checkR_True [simp, res_simps]: "b \<Longrightarrow> checkR b e m = m"
  by (simp add: checkR_def)

lemma checkR_False [simp, res_simps]: "\<not> b \<Longrightarrow> checkR b e m = Inl e"
  by (simp add: checkR_def)

lemma checkR_eq_Inr [res_simps]: "checkR b e m = Inr y \<longleftrightarrow> b \<and> m = Inr y"
  by (simp add: checkR_def)

section \<open>The first-match loop\<close>

text \<open>
  \<open>for (int i = lo; i < hi; ++i) { if (P i) { found = i; break; } }\<close>: the search loop of the
  mount table, the entry table, the descriptor table and the process table.
\<close>

definition scan :: "(nat \<Rightarrow> bool) \<Rightarrow> nat \<Rightarrow> nat \<Rightarrow> nat option" where
  "scan P lo hi = find P [lo..<hi]"

named_theorems scan_simps

lemma scan_None_iff [scan_simps]: "scan P lo hi = None \<longleftrightarrow> (\<forall>i. lo \<le> i \<and> i < hi \<longrightarrow> \<not> P i)"
  by (auto simp: scan_def find_None_iff)

lemma find_upt_Some_iff:
  "find P [lo..<hi] = Some i \<longleftrightarrow> lo \<le> i \<and> i < hi \<and> P i \<and> (\<forall>j. lo \<le> j \<and> j < i \<longrightarrow> \<not> P j)"
proof (induction "hi - lo" arbitrary: lo)
  case 0
  then show ?case by auto
next
  case (Suc k)
  then have lt: "lo < hi" by simp
  have IH: "find P [Suc lo..<hi] = Some i \<longleftrightarrow>
      Suc lo \<le> i \<and> i < hi \<and> P i \<and> (\<forall>j. Suc lo \<le> j \<and> j < i \<longrightarrow> \<not> P j)"
    using Suc.hyps(2) by (intro Suc.hyps(1)) simp
  show ?case
  proof (cases "P lo")
    case True
    have "[lo..<hi] = lo # [Suc lo..<hi]" using lt by (rule upt_conv_Cons)
    with True have "find P [lo..<hi] = Some lo" by simp
    moreover have "i = lo" if "lo \<le> i" "\<forall>j. lo \<le> j \<and> j < i \<longrightarrow> \<not> P j"
      using that True by (cases "lo < i") auto
    ultimately show ?thesis using True lt by auto
  next
    case False
    have "[lo..<hi] = lo # [Suc lo..<hi]" using lt by (rule upt_conv_Cons)
    with False have "find P [lo..<hi] = find P [Suc lo..<hi]" by simp
    then have "find P [lo..<hi] = Some i \<longleftrightarrow>
        Suc lo \<le> i \<and> i < hi \<and> P i \<and> (\<forall>j. Suc lo \<le> j \<and> j < i \<longrightarrow> \<not> P j)"
      using IH by simp
    also have "\<dots> \<longleftrightarrow> lo \<le> i \<and> i < hi \<and> P i \<and> (\<forall>j. lo \<le> j \<and> j < i \<longrightarrow> \<not> P j)" (is "?l \<longleftrightarrow> ?r")
    proof
      assume l: ?l
      have "\<not> P j" if "lo \<le> j" "j < i" for j
        using l False that by (cases "j = lo") simp_all
      with l show ?r by simp
    next
      assume r: ?r
      then have "i \<noteq> lo" using False by blast
      with r show ?l by simp
    qed
    finally show ?thesis .
  qed
qed

lemma scan_Some_iff [scan_simps]:
  "scan P lo hi = Some i \<longleftrightarrow> lo \<le> i \<and> i < hi \<and> P i \<and> (\<forall>j. lo \<le> j \<and> j < i \<longrightarrow> \<not> P j)"
  unfolding scan_def by (rule find_upt_Some_iff)

lemma scan_limit:
  assumes "hi \<le> hi'" "\<And>i. hi \<le> i \<Longrightarrow> i < hi' \<Longrightarrow> \<not> P i"
  shows "scan P lo hi' = scan P lo hi"
proof (cases "scan P lo hi")
  case None
  then have "\<not> P i" if "lo \<le> i" "i < hi'" for i using that assms(2) by (cases "i < hi") (auto simp: scan_None_iff)
  then have "scan P lo hi' = None" by (simp add: scan_None_iff)
  then show ?thesis using None by simp
next
  case (Some i)
  then have "scan P lo hi' = Some i" using assms(1) by (auto simp: scan_Some_iff)
  then show ?thesis using Some by simp
qed

lemma scan_cong [fundef_cong]:
  "lo = lo' \<Longrightarrow> hi = hi' \<Longrightarrow> (\<And>i. lo' \<le> i \<Longrightarrow> i < hi' \<Longrightarrow> P i = Q i) \<Longrightarrow> scan P lo hi = scan Q lo' hi'"
  unfolding scan_def by (rule find_cong) auto

lemma scan_SomeI:
  "P i \<Longrightarrow> lo \<le> i \<Longrightarrow> i < hi \<Longrightarrow> (\<And>j. lo \<le> j \<Longrightarrow> j < i \<Longrightarrow> \<not> P j) \<Longrightarrow> scan P lo hi = Some i"
  by (simp add: scan_Some_iff)

lemma scan_unique:
  assumes "P i" "lo \<le> i" "i < hi" "\<And>j. lo \<le> j \<Longrightarrow> j < hi \<Longrightarrow> P j \<Longrightarrow> j = i"
  shows "scan P lo hi = Some i"
  using assms by (intro scan_SomeI) (assumption | metis less_trans nat_neq_iff)+

lemma scan_not_None: "P i \<Longrightarrow> lo \<le> i \<Longrightarrow> i < hi \<Longrightarrow> \<exists>k. scan P lo hi = Some k"
  by (cases "scan P lo hi") (auto simp: scan_None_iff)

section \<open>Physical memory\<close>

text \<open>The kernel runs without paging: every address can be read and written.\<close>

type_synonym mem = "addr \<Rightarrow> u8"

definition mread :: "mem \<Rightarrow> addr \<Rightarrow> nat \<Rightarrow> u8 list" where
  "mread m a n = map (\<lambda>i. m (a + i)) [0..<n]"

definition mwrite :: "mem \<Rightarrow> addr \<Rightarrow> u8 list \<Rightarrow> mem" where
  "mwrite m a bs = (\<lambda>x. if a \<le> x \<and> x < a + length bs then bs ! (x - a) else m x)"

text \<open>\<open>disj a n b k\<close>: the \<open>n\<close> bytes at \<open>a\<close> and the \<open>k\<close> bytes at \<open>b\<close> have no byte in common.\<close>

definition disj :: "addr \<Rightarrow> nat \<Rightarrow> addr \<Rightarrow> nat \<Rightarrow> bool" where
  "disj a n b k \<longleftrightarrow> a + n \<le> b \<or> b + k \<le> a \<or> n = 0 \<or> k = 0"

named_theorems mem_simps

lemma length_mread [simp]: "length (mread m a n) = n"
  by (simp add: mread_def)

lemma nth_mread [simp]: "i < n \<Longrightarrow> mread m a n ! i = m (a + i)"
  by (simp add: mread_def)

lemma mread_0 [simp]: "mread m a 0 = []"
  by (simp add: mread_def)

lemma mwrite_Nil [simp]: "mwrite m a [] = m"
  by (auto simp: mwrite_def intro!: ext)

lemma mread_Suc: "mread m a (Suc n) = m a # mread m (Suc a) n"
  by (rule nth_equalityI) (auto simp: nth_Cons split: nat.splits)

lemma mread_mwrite_same [simp]: "length bs = n \<Longrightarrow> mread (mwrite m a bs) a n = bs"
  by (rule nth_equalityI) (auto simp: mwrite_def)

lemma mread_mwrite_disj [mem_simps]:
  "disj a (length bs) b n \<Longrightarrow> mread (mwrite m a bs) b n = mread m b n"
  by (rule nth_equalityI) (auto simp: mwrite_def disj_def)

lemma mwrite_outside: "x < a \<or> a + length bs \<le> x \<Longrightarrow> mwrite m a bs x = m x"
  by (auto simp: mwrite_def)

lemma mread_cong: "(\<And>i. i < n \<Longrightarrow> m (a + i) = m' (a + i)) \<Longrightarrow> mread m a n = mread m' a n"
  by (simp add: mread_def)

lemma mread_take: "k \<le> n \<Longrightarrow> take k (mread m a n) = mread m a k"
  by (rule nth_equalityI) auto

lemma mwrite_append: "mwrite (mwrite m a xs) (a + length xs) ys = mwrite m a (xs @ ys)"
  by (rule ext) (auto simp: mwrite_def nth_append)

lemma mread_append: "mread m a (n + k) = mread m a n @ mread m (a + n) k"
  by (rule nth_equalityI) (auto simp: nth_append add.assoc)

lemma mread_drop: "j \<le> n \<Longrightarrow> drop j (mread m a n) = mread m (a + j) (n - j)"
  by (rule nth_equalityI) (auto simp: add.assoc)

lemma disj_commute: "disj a n b k = disj b k a n"
  by (auto simp: disj_def)

lemma disj_mono: "disj a n b k \<Longrightarrow> a \<le> a' \<Longrightarrow> a' + n' \<le> a + n \<Longrightarrow> b \<le> b' \<Longrightarrow> b' + k' \<le> b + k
    \<Longrightarrow> disj a' n' b' k'"
  by (auto simp: disj_def)

text \<open>\<open>fill\<close> and \<open>ncopy\<close> of \<open>utils.c\<close>, byte by byte from the lowest address up.\<close>

fun fill_loop :: "mem \<Rightarrow> addr \<Rightarrow> u8 \<Rightarrow> nat \<Rightarrow> nat \<Rightarrow> mem" where
  "fill_loop m p c i 0 = m"
| "fill_loop m p c i (Suc k) = fill_loop (m(p + i := c)) p c (Suc i) k"

definition fill :: "mem \<Rightarrow> addr \<Rightarrow> u8 \<Rightarrow> nat \<Rightarrow> mem" where
  "fill m p c len = fill_loop m p c 0 len"

fun ncopy_loop :: "mem \<Rightarrow> addr \<Rightarrow> addr \<Rightarrow> nat \<Rightarrow> nat \<Rightarrow> mem" where
  "ncopy_loop m d s i 0 = m"
| "ncopy_loop m d s i (Suc k) = ncopy_loop (m(d + i := m (s + i))) d s (Suc i) k"

definition ncopy :: "mem \<Rightarrow> addr \<Rightarrow> addr \<Rightarrow> nat \<Rightarrow> mem" where
  "ncopy m d s len = ncopy_loop m d s 0 len"

lemma fill_loop_eq:
  "fill_loop m p c i k = (\<lambda>x. if p + i \<le> x \<and> x < p + i + k then c else m x)"
  by (induction k arbitrary: m i) (auto intro!: ext)

lemma fill_eq: "fill m p c n = mwrite m p (replicate n c)"
  by (auto simp: fill_def fill_loop_eq mwrite_def intro!: ext)

text \<open>A forward copy agrees with a block move when the target starts at or before the source,
  or when the two ranges do not meet.\<close>

lemma ncopy_loop_eq:
  "d \<le> s \<or> s + (i + k) \<le> d \<Longrightarrow>
   ncopy_loop m d s i k = (\<lambda>x. if d + i \<le> x \<and> x < d + i + k then m (s + (x - d)) else m x)"
proof (induction k arbitrary: m i)
  case 0
  show ?case by (auto intro!: ext)
next
  case (Suc k)
  let ?m = "m(d + i := m (s + i))"
  have "ncopy_loop m d s i (Suc k) =
      (\<lambda>x. if d + Suc i \<le> x \<and> x < d + Suc i + k then ?m (s + (x - d)) else ?m x)"
    using Suc.prems by (simp add: Suc.IH del: fun_upd_apply)
  also have "\<dots> = (\<lambda>x. if d + i \<le> x \<and> x < d + i + Suc k then m (s + (x - d)) else m x)"
    using Suc.prems by (intro ext) auto
  finally show ?case .
qed

lemma ncopy_eq: "d \<le> s \<or> s + n \<le> d \<Longrightarrow> ncopy m d s n = mwrite m d (mread m s n)"
  by (auto simp: ncopy_def ncopy_loop_eq mwrite_def intro!: ext)

lemma ncopy_0 [simp]: "ncopy m d s 0 = m"
  by (simp add: ncopy_def)

lemma ncopy_loop_outside: "x < d + i \<or> d + i + k \<le> x \<Longrightarrow> ncopy_loop m d s i k x = m x"
  by (induction k arbitrary: m i) auto

lemma ncopy_outside: "x < d \<or> d + n \<le> x \<Longrightarrow> ncopy m d s n x = m x"
  by (auto simp: ncopy_def intro: ncopy_loop_outside)

lemma fill_outside: "x < p \<or> p + n \<le> x \<Longrightarrow> fill m p c n x = m x"
  by (auto simp: fill_eq mwrite_def)

lemma mread_fill_disj [mem_simps]: "disj p n b k \<Longrightarrow> mread (fill m p c n) b k = mread m b k"
  by (simp add: fill_eq mem_simps)

lemma mread_ncopy_disj [mem_simps]: "disj d n b k \<Longrightarrow> mread (ncopy m d s n) b k = mread m b k"
  by (rule mread_cong, rule ncopy_outside) (auto simp: disj_def)

text \<open>A little-endian 32-bit word in memory.\<close>

definition rd32 :: "mem \<Rightarrow> addr \<Rightarrow> nat" where
  "rd32 m a = unat (m a) + 256 * unat (m (a + 1)) + 65536 * unat (m (a + 2))
     + 16777216 * unat (m (a + 3))"

definition rd16 :: "mem \<Rightarrow> addr \<Rightarrow> nat" where
  "rd16 m a = unat (m a) + 256 * unat (m (a + 1))"

definition wr32 :: "mem \<Rightarrow> addr \<Rightarrow> nat \<Rightarrow> mem" where
  "wr32 m a n = mwrite m a [of_nat n, of_nat (n div 256), of_nat (n div 65536), of_nat (n div 16777216)]"

lemma unat_of_nat_u8: "unat (of_nat n :: u8) = n mod 256"
  by (simp add: unat_of_nat)

lemma nat_bytes4: "n < 4294967296 \<Longrightarrow>
   n mod 256 + 256 * (n div 256 mod 256) + 65536 * (n div 65536 mod 256)
     + 16777216 * (n div 16777216 mod 256) = (n::nat)"
proof -
  assume n: "n < 4294967296"
  have a: "n div 16777216 mod 256 = n div 16777216" using n by simp
  have b: "n div 65536 = 256 * (n div 16777216) + n div 65536 mod 256"
    using div_mult2_eq [of n 65536 256] by simp
  have c: "n div 256 = 256 * (n div 65536) + n div 256 mod 256"
    using div_mult2_eq [of n 256 256] by simp
  have d: "n = 256 * (n div 256) + n mod 256" by simp
  from a b c d show ?thesis by linarith
qed

lemma rd32_wr32 [simp]: "n < 4294967296 \<Longrightarrow> rd32 (wr32 m a n) a = n"
  using nat_bytes4 [of n] by (simp add: rd32_def wr32_def mwrite_def unat_of_nat_u8)

lemma unat_u8_less: "unat (b :: u8) < 256"
  using unsigned_less [of b, where ?'a = nat] by simp

lemma rd32_less: "rd32 m a < 4294967296"
  using unat_u8_less [of "m a"] unat_u8_less [of "m (a + 1)"] unat_u8_less [of "m (a + 2)"]
    unat_u8_less [of "m (a + 3)"]
  unfolding rd32_def by linarith

lemma rd32_cong: "(\<And>i. i < 4 \<Longrightarrow> m (a + i) = m' (a + i)) \<Longrightarrow> rd32 m a = rd32 m' a"
proof -
  assume h: "\<And>i. i < 4 \<Longrightarrow> m (a + i) = m' (a + i)"
  show ?thesis using h [of 0] h [of 1] h [of 2] h [of 3] by (simp add: rd32_def)
qed

lemma rd16_cong: "(\<And>i. i < 2 \<Longrightarrow> m (a + i) = m' (a + i)) \<Longrightarrow> rd16 m a = rd16 m' a"
proof -
  assume h: "\<And>i. i < 2 \<Longrightarrow> m (a + i) = m' (a + i)"
  show ?thesis using h [of 0] h [of 1] by (simp add: rd16_def)
qed

lemma rd16_less: "rd16 m a < 65536"
  using unat_u8_less [of "m a"] unat_u8_less [of "m (a + 1)"] unfolding rd16_def by linarith

section \<open>C strings\<close>

text \<open>A C string is the list of its bytes before the terminating NUL. \<open>cstr\<close> reads a literal.\<close>

type_synonym cstring = "u8 list"

definition cstr :: "string \<Rightarrow> cstring" where
  "cstr s = map of_char s"

definition is_cstr :: "cstring \<Rightarrow> bool" where
  "is_cstr s \<longleftrightarrow> 0 \<notin> set s"

text \<open>A string in memory is read up to its NUL, at most \<open>n\<close> bytes of it.\<close>

fun str_at :: "mem \<Rightarrow> addr \<Rightarrow> nat \<Rightarrow> cstring" where
  "str_at m a 0 = []"
| "str_at m a (Suc k) = (if m a = 0 then [] else m a # str_at m (a + 1) k)"

lemma str_at_cstr: "is_cstr (str_at m a n)"
  by (induction n arbitrary: a) (auto simp: is_cstr_def)

lemma str_at_cong: "0 \<in> set (mread m a n) \<Longrightarrow> mread m a n = mread m' a n \<Longrightarrow> n \<le> k \<Longrightarrow> n \<le> l \<Longrightarrow> str_at m a k = str_at m' a l"
proof (induction n arbitrary: a k l)
  case (Suc n)
  obtain k' l' where kl: "k = Suc k'" "l = Suc l'" "n \<le> k'" "n \<le> l'"
    using Suc.prems(3,4) by (metis Suc_le_D Suc_le_mono)
  have eq: "m a = m' a" "mread m (Suc a) n = mread m' (Suc a) n" using Suc.prems(2) by (simp_all add: mread_Suc)
  have "str_at m (Suc a) k' = str_at m' (Suc a) l'" if "m a \<noteq> 0"
    using that Suc.prems(1) eq kl by (intro Suc.IH) (auto simp: mread_Suc)
  then show ?case using eq(1) by (simp add: kl)
qed simp

text \<open>The byte at offset \<open>i\<close> of a string in memory, its terminator included.\<close>

definition char_at :: "cstring \<Rightarrow> nat \<Rightarrow> u8" where
  "char_at s i = (if i < length s then s ! i else 0)"

end
