(* ===== verification/Interfaces.thy ===== *)
theory Interfaces
  imports Prelude
begin

text \<open>
  The contracts between components, each a locale: its operations are the \<open>fixes\<close>, the laws
  the provider promises are the \<open>assumes\<close>, and what a client may conclude is proved once
  inside. The provider's theory interprets the locale on the model of the code.
  \<^item> \<open>allocator\<close>: \<open>malloc\<close> and \<open>free\<close> of the memory manager, used by the file system, the
    process table and the tables the kernel allocates at start-up.
  \<^item> \<open>slot_table\<close>: a table of slots searched from the front for the first free one: mounted
    data, file system entries, file descriptors and processes.
  \<^item> \<open>bounded_queue\<close>: the device files between the drivers, which send packets, and the programs
    that receive them.
  \<^item> \<open>block_device\<close>: an array of blocks behind a buffer, the RAM disk under the file system readers.
\<close>

section \<open>Allocators\<close>

locale allocator =
  fixes alloc :: "nat \<Rightarrow> 's \<Rightarrow> (addr \<times> 's) res"
    and release :: "addr \<Rightarrow> 's \<Rightarrow> 's res"
    and regions :: "'s \<Rightarrow> addr \<Rightarrow> nat option"
    and inv :: "'s \<Rightarrow> bool"
    and room :: "'s \<Rightarrow> nat \<Rightarrow> bool"
    and granted :: "nat \<Rightarrow> nat"
  assumes alloc_total: "inv s \<Longrightarrow> room s n \<Longrightarrow> \<exists>p s'. alloc n s = Inr (p, s')"
    and alloc_null: "inv s \<Longrightarrow> room s n \<Longrightarrow> alloc n s = Inr (0, s') \<Longrightarrow> s' = s"
    and alloc_some: "inv s \<Longrightarrow> room s n \<Longrightarrow> alloc n s = Inr (p, s') \<Longrightarrow> p \<noteq> 0 \<Longrightarrow>
        inv s' \<and> regions s p = None \<and> regions s' = (regions s)(p \<mapsto> granted n)"
    and alloc_room: "inv s \<Longrightarrow> room s n \<Longrightarrow> alloc n s = Inr (p, s') \<Longrightarrow> room s' k = room s k"
    and granted_enough: "room s n \<Longrightarrow> n \<le> granted n"
    and release_some: "inv s \<Longrightarrow> regions s p = Some k \<Longrightarrow>
        \<exists>s'. release p s = Inr s' \<and> inv s' \<and> regions s' = (regions s)(p := None)"
    and regions_disjoint: "inv s \<Longrightarrow> regions s p = Some k \<Longrightarrow> regions s q = Some j \<Longrightarrow> p \<noteq> q \<Longrightarrow>
        disj p k q j"
    and regions_not_null: "inv s \<Longrightarrow> regions s p = Some k \<Longrightarrow> p \<noteq> 0"
begin

lemma alloc_fresh:
  assumes "inv s" "room s n" "alloc n s = Inr (p, s')" "p \<noteq> 0" "regions s q = Some k"
  shows "q \<noteq> p" "regions s' q = Some k" "disj q k p n"
proof -
  from alloc_some [OF assms(1-4)] have s': "inv s'" "regions s p = None" "regions s' = (regions s)(p \<mapsto> granted n)"
    by auto
  show q: "q \<noteq> p" using s'(2) assms(5) by auto
  then show q': "regions s' q = Some k" using s'(3) assms(5) by simp
  have "disj q k p (granted n)" using regions_disjoint [OF s'(1) q' _ q] s'(3) by simp
  then show "disj q k p n" using granted_enough [OF assms(2)] by (auto simp: disj_def)
qed

lemma alloc_release:
  assumes "inv s" "room s n" "alloc n s = Inr (p, s')" "p \<noteq> 0"
  shows "\<exists>s''. release p s' = Inr s'' \<and> inv s'' \<and> regions s'' = regions s"
proof -
  from alloc_some [OF assms] have s': "inv s'" "regions s p = None" "regions s' = (regions s)(p \<mapsto> granted n)"
    by auto
  then have "regions s' p = Some (granted n)" by simp
  from release_some [OF s'(1) this] s'(2,3) show ?thesis by (auto simp: fun_upd_idem)
qed

lemma alloc_alloc_disjoint:
  assumes "inv s" "room s n" "alloc n s = Inr (p, s1)" "p \<noteq> 0"
    and "room s m" "alloc m s1 = Inr (q, s2)" "q \<noteq> 0"
  shows "disj p n q m"
proof -
  from alloc_some [OF assms(1-4)] have s1: "inv s1" "regions s1 p = Some (granted n)" by auto
  have "room s1 m" using alloc_room [OF assms(1-3)] assms(5) by simp
  from alloc_fresh(3) [OF s1(1) this assms(6,7) s1(2)] have "disj p (granted n) q m" .
  then show ?thesis using granted_enough [OF assms(2)] by (auto simp: disj_def)
qed

end

section \<open>Slot tables\<close>

locale slot_table =
  fixes take_slot :: "'v \<Rightarrow> 's \<Rightarrow> nat option \<times> 's"
    and slot :: "'s \<Rightarrow> nat \<Rightarrow> 'v option"
    and ready :: "'s \<Rightarrow> bool"
    and valid :: "'v \<Rightarrow> bool"
    and lo :: nat and hi :: nat
  assumes take_some: "ready s \<Longrightarrow> valid v \<Longrightarrow> take_slot v s = (Some i, s') \<Longrightarrow>
        lo \<le> i \<and> i < hi \<and> slot s i = None \<and> slot s' = (slot s)(i \<mapsto> v) \<and>
        (\<forall>j. lo \<le> j \<and> j < i \<longrightarrow> slot s j \<noteq> None)"
    and take_none: "ready s \<Longrightarrow> valid v \<Longrightarrow> take_slot v s = (None, s') \<Longrightarrow>
        slot s' = slot s \<and> (\<forall>j. lo \<le> j \<and> j < hi \<longrightarrow> slot s j \<noteq> None)"
begin

text \<open>The slots in use.\<close>

definition used :: "'s \<Rightarrow> nat set" where
  "used s = {i. lo \<le> i \<and> i < hi \<and> slot s i \<noteq> None}"

lemma used_finite: "finite (used s)"
  unfolding used_def by (rule finite_subset [of _ "{lo..<hi}"]) auto

lemma used_bound: "card (used s) \<le> hi - lo"
proof -
  have "card (used s) \<le> card {lo..<hi}" by (rule card_mono) (auto simp: used_def)
  then show ?thesis by simp
qed

lemma take_grows:
  "ready s \<Longrightarrow> valid v \<Longrightarrow> take_slot v s = (Some i, s') \<Longrightarrow> card (used s') = Suc (card (used s))"
proof -
  assume t: "ready s" "valid v" "take_slot v s = (Some i, s')"
  from take_some [OF t] have "used s' = insert i (used s)" "i \<notin> used s" by (auto simp: used_def)
  then show ?thesis using used_finite by simp
qed

lemma take_fails_iff_full:
  assumes "ready s" "valid v"
  shows "fst (take_slot v s) = None \<longleftrightarrow> card (used s) = hi - lo"
proof
  assume "fst (take_slot v s) = None"
  then have "take_slot v s = (None, snd (take_slot v s))" by (cases "take_slot v s") auto
  from take_none [OF assms this] have "used s = {lo..<hi}" by (auto simp: used_def)
  then show "card (used s) = hi - lo" by simp
next
  assume full: "card (used s) = hi - lo"
  show "fst (take_slot v s) = None"
  proof (rule ccontr)
    assume "fst (take_slot v s) \<noteq> None"
    then obtain i where "take_slot v s = (Some i, snd (take_slot v s))" by (cases "take_slot v s") auto
    from take_grows [OF assms this] used_bound [of "snd (take_slot v s)"] full show False by simp
  qed
qed

lemma take_keeps:
  "ready s \<Longrightarrow> valid v \<Longrightarrow> take_slot v s = (Some i, s') \<Longrightarrow> slot s j = Some w \<Longrightarrow> slot s' j = Some w"
  using take_some by fastforce

lemma take_lowest:
  "ready s \<Longrightarrow> valid v \<Longrightarrow> take_slot v s = (Some i, s') \<Longrightarrow> lo \<le> j \<Longrightarrow> j < hi \<Longrightarrow> slot s j = None \<Longrightarrow> i \<le> j"
  using take_some by (metis not_le)

end

section \<open>Queues of bytes\<close>

text \<open>A call for every element of a list, and a call repeated for its answers.\<close>

fun run_all :: "('x \<Rightarrow> 's \<Rightarrow> 's res) \<Rightarrow> 'x list \<Rightarrow> 's \<Rightarrow> 's res" where
  "run_all f [] s = Inr s"
| "run_all f (x # xs) s = bindR (f x s) (run_all f xs)"

fun gather :: "nat \<Rightarrow> ('s \<Rightarrow> ('x \<times> 's) res) \<Rightarrow> 's \<Rightarrow> ('x list \<times> 's) res" where
  "gather 0 f s = Inr ([], s)"
| "gather (Suc n) f s = bindR (f s) (\<lambda>(x, s1). bindR (gather n f s1) (\<lambda>(xs, s2). Inr (x # xs, s2)))"

text \<open>A queue takes what it has room for, and hands out its bytes from the front; \<open>packet\<close> bounds the bytes of
  one call.\<close>

locale bounded_queue =
  fixes ready :: "'s \<Rightarrow> bool" and contents :: "'s \<Rightarrow> 'b list" and capacity :: nat and packet :: nat
    and send :: "'b list \<Rightarrow> 's \<Rightarrow> 's res" and receive :: "nat \<Rightarrow> 's \<Rightarrow> ('b list \<times> 's) res"
  assumes send_law: "ready s \<Longrightarrow> length xs \<le> packet \<Longrightarrow>
      \<exists>s'. send xs s = Inr s' \<and> ready s' \<and> contents s' = contents s @ take (capacity - length (contents s)) xs"
    and receive_law: "ready s \<Longrightarrow> n \<le> packet \<Longrightarrow>
      \<exists>s'. receive n s = Inr (take n (contents s), s') \<and> ready s' \<and> contents s' = drop n (contents s)"
begin

lemma send_all:
  assumes "ready s" "length (contents s) + length (concat ps) \<le> capacity" "\<forall>p \<in> set ps. length p \<le> packet"
  shows "\<exists>s'. run_all send ps s = Inr s' \<and> ready s' \<and> contents s' = contents s @ concat ps"
  using assms
proof (induction ps arbitrary: s)
  case (Cons p ps)
  from send_law [of s p] Cons.prems obtain s1 where s1: "send p s = Inr s1" "ready s1" "contents s1 = contents s @ p" by auto
  then show ?case using Cons.IH [OF s1(2)] Cons.prems by simp
qed simp

lemma receive_all:
  assumes "ready s" "contents s = concat ps @ rest" "\<forall>p \<in> set ps. length p = k" "k \<le> packet"
  shows "\<exists>s'. gather (length ps) (receive k) s = Inr (ps, s') \<and> ready s' \<and> contents s' = rest"
  using assms
proof (induction ps arbitrary: s)
  case (Cons p ps)
  from receive_law [of s k] Cons.prems obtain s1 where s1: "receive k s = Inr (p, s1)" "ready s1" "contents s1 = concat ps @ rest" by auto
  then show ?case using Cons.IH [OF s1(2,3)] Cons.prems by auto
qed simp

text \<open>Packets of one size come out as they went in.\<close>

lemma in_order:
  assumes "ready s" "contents s = []" "\<forall>p \<in> set ps. length p = k" "k \<le> packet" "k * length ps \<le> capacity"
  shows "\<exists>s1 s2. run_all send ps s = Inr s1 \<and> gather (length ps) (receive k) s1 = Inr (ps, s2) \<and> ready s2 \<and> contents s2 = []"
proof -
  have "length (concat ps) = k * length ps" using assms(3) by (induction ps) auto
  then obtain s1 where s1: "run_all send ps s = Inr s1" "ready s1" "contents s1 = concat ps @ []"
    using send_all [OF assms(1), of ps] assms by auto
  show ?thesis using receive_all [OF s1(2,3) assms(3,4)] s1(1) by blast
qed

end

section \<open>Block devices\<close>

text \<open>An array of blocks of \<open>k\<close> elements with \<open>data\<close> put at block \<open>lba\<close>.\<close>

definition put_blocks :: "nat \<Rightarrow> nat \<Rightarrow> 'b list \<Rightarrow> (nat \<Rightarrow> 'b list) \<Rightarrow> nat \<Rightarrow> 'b list" where
  "put_blocks k lba data A i =
     (if lba \<le> i \<and> i < lba + length data div k then take k (drop ((i - lba) * k) data) else A i)"

text \<open>Requests of at most \<open>window\<close> blocks that stay on the device.\<close>

locale block_device =
  fixes ready :: "'s \<Rightarrow> bool" and block :: "'s \<Rightarrow> nat \<Rightarrow> 'b list" and limit size window :: nat
    and put :: "nat \<Rightarrow> 'b list \<Rightarrow> 's \<Rightarrow> 's res" and get :: "nat \<Rightarrow> nat \<Rightarrow> 's \<Rightarrow> ('b list \<times> 's) res"
  assumes put_law: "ready s \<Longrightarrow> length data = n * size \<Longrightarrow> n \<le> window \<Longrightarrow> lba + n \<le> limit \<Longrightarrow>
      \<exists>s'. put lba data s = Inr s' \<and> ready s' \<and> (\<forall>i < limit. block s' i = put_blocks size lba data (block s) i)"
    and get_law: "ready s \<Longrightarrow> n \<le> window \<Longrightarrow> lba + n \<le> limit \<Longrightarrow>
      \<exists>s'. get lba n s = Inr (concat (map (block s) [lba..<lba + n]), s') \<and> ready s' \<and> (\<forall>i < limit. block s' i = block s i)"
begin

text \<open>A history of writes, then one read: what the same writes leave in an array.\<close>

lemma put_all:
  assumes "ready s" "\<forall>(lba, data) \<in> set ws. \<exists>n. length data = n * size \<and> n \<le> window \<and> lba + n \<le> limit"
    "\<And>i. i < limit \<Longrightarrow> block s i = A i"
  shows "\<exists>s'. run_all (\<lambda>(lba, data). put lba data) ws s = Inr s' \<and> ready s' \<and>
    (\<forall>i < limit. block s' i = fold (\<lambda>(lba, data). put_blocks size lba data) ws A i)"
  using assms
proof (induction ws arbitrary: s A)
  case (Cons w ws)
  obtain lba data where w: "w = (lba, data)" by (cases w)
  from Cons.prems(2) obtain n where n: "length data = n * size" "n \<le> window" "lba + n \<le> limit" by (auto simp: w)
  obtain s1 where s1: "put lba data s = Inr s1" "ready s1" "\<forall>i < limit. block s1 i = put_blocks size lba data (block s) i"
    using put_law [OF Cons.prems(1) n] by blast
  have "block s1 i = put_blocks size lba data A i" if "i < limit" for i
    using s1(3) that Cons.prems(3) by (simp add: put_blocks_def)
  with Cons.IH [OF s1(2), of "put_blocks size lba data A"] Cons.prems(2) s1(1) show ?case by (simp add: w)
qed simp

lemma history:
  assumes "ready s" "\<forall>(lba, data) \<in> set ws. \<exists>n. length data = n * size \<and> n \<le> window \<and> lba + n \<le> limit"
    "n \<le> window" "lba + n \<le> limit"
  shows "\<exists>s1 s2. run_all (\<lambda>(lba, data). put lba data) ws s = Inr s1 \<and>
    get lba n s1 = Inr (concat (map (fold (\<lambda>(lba, data). put_blocks size lba data) ws (block s)) [lba..<lba + n]), s2) \<and> ready s2"
proof -
  obtain s1 where s1: "run_all (\<lambda>(lba, data). put lba data) ws s = Inr s1" "ready s1"
    "\<forall>i < limit. block s1 i = fold (\<lambda>(lba, data). put_blocks size lba data) ws (block s) i"
    using put_all [OF assms(1,2), of "block s"] by auto
  have eq: "map (block s1) [lba..<lba + n] = map (fold (\<lambda>(lba, data). put_blocks size lba data) ws (block s)) [lba..<lba + n]"
    using s1(3) assms(4) by auto
  obtain s2 where "get lba n s1 = Inr (concat (map (block s1) [lba..<lba + n]), s2)" "ready s2"
    using get_law [OF s1(2) assms(3,4)] by blast
  then show ?thesis using s1(1) unfolding eq by blast
qed

end

end
