(* ===== verification/Memory.thy ===== *)
theory Memory
  imports Interfaces
begin

text \<open>
  The memory manager, \<open>source/kernel/memory.c\<close>: a first-fit allocator of 4096-byte blocks
  over a table of block descriptors. The state is \<open>mm\<close>, the base of the record chain of the
  kernel's global variables; later components extend it, so \<open>malloc\<close> and \<open>free\<close> run
  unchanged on the state of the whole kernel. The abstract view \<open>live\<close> maps the address of
  an allocated region to its number of blocks; the operations are shown to refine the
  insertion and the removal of a region of that map.
\<close>

section \<open>State\<close>

record memory_Block_t =
  count :: nat
  allocated :: bool

text \<open>\<open>mem\<close> is the physical memory, \<open>rtc\<close> the CMOS clock registers at each reading of the
  clock, \<open>ticks\<close> the number of readings so far and \<open>tty\<close> the bytes printed so far.\<close>

record mm =
  mem :: mem
  rtc :: "nat \<Rightarrow> u8 \<Rightarrow> u8"
  ticks :: nat
  tty :: cstring
  memory_InitLock :: bool
  memory_Space :: addr
  memory_Limit :: addr
  memory_BlockV :: "memory_Block_t list"
  memory_BlockC :: nat

abbreviation MEMORY_BLKSIZE :: nat where "MEMORY_BLKSIZE \<equiv> 4096"

abbreviation sizeof_Block :: nat where "sizeof_Block \<equiv> 8"

section \<open>Operations\<close>

text \<open>The inner loop of \<open>malloc\<close>: are the blocks \<open>i + j\<close> to \<open>i + j + k - 1\<close> all free?\<close>

fun blocks_free :: "memory_Block_t list \<Rightarrow> nat \<Rightarrow> nat \<Rightarrow> nat \<Rightarrow> bool res" where
  "blocks_free V i j 0 = Inr True"
| "blocks_free V i j (Suc k) =
     checkR (i + j < length V) OutOfBounds
       (if allocated (V ! (i + j)) then Inr False else blocks_free V i (Suc j) k)"

text \<open>The outer loop: the first \<open>i\<close> up to \<open>till\<close> with \<open>n\<close> free blocks from \<open>i\<close> on.\<close>

function find_region :: "memory_Block_t list \<Rightarrow> nat \<Rightarrow> nat \<Rightarrow> nat \<Rightarrow> nat option res" where
  "find_region V n i till =
     (if i \<le> till then
        bindR (blocks_free V i 0 n)
          (\<lambda>ok. if ok then Inr (Some i) else find_region V n (Suc i) till)
      else Inr None)"
  by pat_completeness auto
termination
  by (relation "measure (\<lambda>(V, n, i, till). Suc till - i)") auto

declare find_region.simps [simp del]

fun mark_blocks :: "memory_Block_t list \<Rightarrow> nat \<Rightarrow> nat \<Rightarrow> bool \<Rightarrow> memory_Block_t list" where
  "mark_blocks V b 0 a = V"
| "mark_blocks V b (Suc k) a = mark_blocks (V[b := \<lparr>count = 0, allocated = a\<rparr>]) (Suc b) k a"

definition malloc :: "nat \<Rightarrow> 'a mm_scheme \<Rightarrow> (addr \<times> 'a mm_scheme) res" where
  "malloc sz s =
     (if \<not> memory_InitLock s then Inr (0, s)
      else if sz = 0 then Inr (0, s)
      else let n = wrap32 (sz + MEMORY_BLKSIZE - 1) div MEMORY_BLKSIZE in
        bindR (find_region (memory_BlockV s) n 0 (sub32 (memory_BlockC s) n))
          (\<lambda>r. case r of
               None \<Rightarrow> Inr (0, s)
             | Some base \<Rightarrow> checkR (base < length (memory_BlockV s)) OutOfBounds
                 (let V1 = mark_blocks (memory_BlockV s) base n True;
                      V2 = V1[base := (V1 ! base)\<lparr>count := n\<rparr>]
                  in Inr (wrap32 (memory_Space s + base * MEMORY_BLKSIZE), s\<lparr>memory_BlockV := V2\<rparr>))))"

definition calloc :: "nat \<Rightarrow> nat \<Rightarrow> 'a mm_scheme \<Rightarrow> (addr \<times> 'a mm_scheme) res" where
  "calloc nmemb sz s =
     (if \<not> memory_InitLock s then Inr (0, s)
      else let n = wrap32 (nmemb * sz) in
        if n > 4294967295 then Inr (0, s)
        else bindR (malloc n s)
          (\<lambda>(blk, s1). if blk = 0 then Inr (0, s1)
             else Inr (blk, s1\<lparr>mem := fill (mem s1) blk 0 n\<rparr>)))"

definition bad_pointer :: "addr \<Rightarrow> 'a mm_scheme \<Rightarrow> bool" where
  "bad_pointer blk s \<longleftrightarrow> \<not> memory_InitLock s \<or> blk = 0 \<or> blk < memory_Space s \<or> blk \<ge> memory_Limit s"

definition free :: "addr \<Rightarrow> 'a mm_scheme \<Rightarrow> 'a mm_scheme res" where
  "free blk s =
     (if bad_pointer blk s then Inr s
      else let num = (blk - memory_Space s) div MEMORY_BLKSIZE in
        checkR (num < length (memory_BlockV s)) OutOfBounds
          (let n = count (memory_BlockV s ! num) in
           if n = 0 then Inr s
           else checkR (num + n \<le> length (memory_BlockV s)) OutOfBounds
             (Inr (s\<lparr>memory_BlockV := mark_blocks (memory_BlockV s) num n False\<rparr>))))"

definition realloc :: "addr \<Rightarrow> nat \<Rightarrow> 'a mm_scheme \<Rightarrow> (addr \<times> 'a mm_scheme) res" where
  "realloc blk sz s =
     (if bad_pointer blk s then Inr (0, s)
      else bindR (malloc sz s)
        (\<lambda>(newblk, s1). if newblk = 0 then Inr (0, s1)
           else bindR (free blk (s1\<lparr>mem := ncopy (mem s1) newblk blk sz\<rparr>))
             (\<lambda>s2. Inr (newblk, s2))))"

fun mavail_loop :: "memory_Block_t list \<Rightarrow> nat \<Rightarrow> nat" where
  "mavail_loop [] result = result"
| "mavail_loop (b # V) result =
     mavail_loop V (if \<not> allocated b then wrap32 (result + MEMORY_BLKSIZE) else result)"

definition mavail :: "'a mm_scheme \<Rightarrow> nat" where
  "mavail s = (if \<not> memory_InitLock s then 0 else mavail_loop (take (memory_BlockC s) (memory_BlockV s)) 0)"

text \<open>\<open>x & ~(MEMORY_BLKSIZE - 1)\<close> clears the low twelve bits.\<close>

definition align_down :: "nat \<Rightarrow> nat" where
  "align_down x = x div MEMORY_BLKSIZE * MEMORY_BLKSIZE"

text \<open>\<open>memory_init\<close>; the linker symbol \<open>kernel_Limit\<close> and the variable \<open>kernel_OSModuleSize\<close>
  are arguments.\<close>

definition memory_init :: "addr \<Rightarrow> nat \<Rightarrow> nat \<Rightarrow> 'a mm_scheme \<Rightarrow> 'a mm_scheme res" where
  "memory_init kernel_Limit kernel_OSModuleSize sz s =
     (if memory_InitLock s then Inr s
      else if sz > 4294967295 then Inl (Panic ''64-bit addressing not supported'')
      else let c = sz div (MEMORY_BLKSIZE + sizeof_Block);
               supblkc = c - (if c \<noteq> 0 then 1 else 0) in
        if supblkc = 0 then Inl (Panic ''Not enough memory detected'')
        else let base = wrap32 (kernel_Limit + kernel_OSModuleSize);
                 space0 = wrap32 (base + supblkc * sizeof_Block);
                 space = align_down (wrap32 (space0 + MEMORY_BLKSIZE));
                 limit = wrap32 (space + supblkc * MEMORY_BLKSIZE)
             in Inr (s\<lparr>memory_InitLock := True, memory_Space := space, memory_Limit := limit,
                      memory_BlockV := replicate supblkc \<lparr>count = 0, allocated = False\<rparr>,
                      memory_BlockC := supblkc\<rparr>))"

section \<open>The block table\<close>

definition free_run :: "memory_Block_t list \<Rightarrow> nat \<Rightarrow> nat \<Rightarrow> bool" where
  "free_run V i n \<longleftrightarrow> i + n \<le> length V \<and> (\<forall>x. i \<le> x \<and> x < i + n \<longrightarrow> \<not> allocated (V ! x))"

definition heads :: "memory_Block_t list \<Rightarrow> nat \<Rightarrow> nat option" where
  "heads V i = (if i < length V \<and> count (V ! i) > 0 then Some (count (V ! i)) else None)"

text \<open>Every head owns the blocks from itself on, no head lies inside another's region, and every
  allocated block belongs to a region.\<close>

definition wf_blocks :: "memory_Block_t list \<Rightarrow> bool" where
  "wf_blocks V \<longleftrightarrow>
     (\<forall>i n. heads V i = Some n \<longrightarrow> i + n \<le> length V) \<and>
     (\<forall>i n j. heads V i = Some n \<longrightarrow> i \<le> j \<longrightarrow> j < i + n \<longrightarrow> allocated (V ! j)) \<and>
     (\<forall>i n j. heads V i = Some n \<longrightarrow> i < j \<longrightarrow> j < i + n \<longrightarrow> heads V j = None) \<and>
     (\<forall>j < length V. allocated (V ! j) \<longrightarrow> (\<exists>i n. heads V i = Some n \<and> i \<le> j \<and> j < i + n))"

lemma wf_blocks_bound: "wf_blocks V \<Longrightarrow> heads V i = Some n \<Longrightarrow> i + n \<le> length V"
  unfolding wf_blocks_def by blast

lemma wf_blocks_alloc:
  "wf_blocks V \<Longrightarrow> heads V i = Some n \<Longrightarrow> i \<le> j \<Longrightarrow> j < i + n \<Longrightarrow> allocated (V ! j)"
  unfolding wf_blocks_def by blast

lemma wf_blocks_inner:
  "wf_blocks V \<Longrightarrow> heads V i = Some n \<Longrightarrow> i < j \<Longrightarrow> j < i + n \<Longrightarrow> heads V j = None"
  unfolding wf_blocks_def by blast

lemma wf_blocks_owned:
  "wf_blocks V \<Longrightarrow> j < length V \<Longrightarrow> allocated (V ! j) \<Longrightarrow> \<exists>i n. heads V i = Some n \<and> i \<le> j \<and> j < i + n"
  unfolding wf_blocks_def by blast

lemma heads_pos: "heads V i = Some n \<Longrightarrow> 0 < n"
  by (auto simp: heads_def split: if_splits)

lemma heads_less: "heads V i = Some n \<Longrightarrow> i < length V"
  by (auto simp: heads_def split: if_splits)

lemma heads_disjoint:
  assumes "wf_blocks V" "heads V i = Some n" "heads V j = Some k" "i \<noteq> j"
  shows "i + n \<le> j \<or> j + k \<le> i"
proof (rule ccontr)
  assume "\<not> ?thesis"
  then consider "i < j" "j < i + n" | "j < i" "i < j + k" using assms(4) by linarith
  then show False
    using assms(1-3) wf_blocks_inner [OF assms(1,2)] wf_blocks_inner [OF assms(1,3)] by cases auto
qed

lemma length_mark_blocks [simp]: "length (mark_blocks V b k a) = length V"
  by (induction k arbitrary: V b) auto

lemma nth_mark_blocks:
  "b + k \<le> length V \<Longrightarrow> i < length V \<Longrightarrow>
   mark_blocks V b k a ! i = (if b \<le> i \<and> i < b + k then \<lparr>count = 0, allocated = a\<rparr> else V ! i)"
  by (induction k arbitrary: V b) (auto simp: nth_list_update)

lemma blocks_free_in:
  "i + j + k \<le> length V \<Longrightarrow>
   blocks_free V i j k = Inr (\<forall>x. i + j \<le> x \<and> x < i + j + k \<longrightarrow> \<not> allocated (V ! x))"
proof (induction k arbitrary: j)
  case 0
  show ?case by auto
next
  case (Suc k)
  have "(\<forall>x. i + j \<le> x \<and> x < i + j + Suc k \<longrightarrow> \<not> allocated (V ! x)) \<longleftrightarrow>
      \<not> allocated (V ! (i + j)) \<and> (\<forall>x. i + Suc j \<le> x \<and> x < i + Suc j + k \<longrightarrow> \<not> allocated (V ! x))"
    (is "?l \<longleftrightarrow> ?r")
  proof
    assume r: ?r
    show ?l
    proof (intro allI impI)
      fix x assume "i + j \<le> x \<and> x < i + j + Suc k"
      then show "\<not> allocated (V ! x)" using r by (cases "x = i + j") auto
    qed
  qed auto
  with Suc show ?case by simp
qed

lemma blocks_free_out:
  "length V < i + j + k \<Longrightarrow> i + j \<le> length V \<Longrightarrow> blocks_free V i j k = Inr False \<or> blocks_free V i j k = Inl OutOfBounds"
  by (induction k arbitrary: j) (auto simp: checkR_def)

lemma blocks_free_run: "i + n \<le> length V \<Longrightarrow> blocks_free V i 0 n = Inr (free_run V i n)"
  by (simp add: blocks_free_in free_run_def)

lemma find_region_scan:
  "till + n \<le> length V \<Longrightarrow> find_region V n i till = Inr (scan (\<lambda>i. free_run V i n) i (Suc till))"
proof (induction V n i till rule: find_region.induct)
  case (1 V n i till)
  show ?case
  proof (cases "i \<le> till")
    case True
    then have "blocks_free V i 0 n = Inr (free_run V i n)"
      using 1 by (intro blocks_free_run) simp
    moreover have "[i..<Suc till] = i # [Suc i..<Suc till]"
      using True by (intro upt_conv_Cons) simp
    ultimately show ?thesis
      using True 1 by (subst find_region.simps) (simp add: scan_def del: upt_Suc)
  next
    case False
    then show ?thesis by (subst find_region.simps) (simp add: scan_def)
  qed
qed

text \<open>A request for more blocks than the table has: no window fits, so the loop runs until it
  reads past the table.\<close>

lemma find_region_too_big:
  assumes "length V < n" "length V \<le> till" "i \<le> length V"
  shows "find_region V n i till = Inl OutOfBounds"
  using assms
proof (induction "length V - i" arbitrary: i)
  case 0
  then have "i = length V" by simp
  with 0 show ?case
    by (subst find_region.simps) (cases n; simp)
next
  case (Suc k)
  then have "find_region V n (Suc i) till = Inl OutOfBounds" by simp
  moreover have "blocks_free V i 0 n = Inr False \<or> blocks_free V i 0 n = Inl OutOfBounds"
    using Suc.prems by (intro blocks_free_out) simp_all
  ultimately show ?case
    using Suc.prems by (subst find_region.simps) auto
qed

section \<open>Placing and clearing a region\<close>

definition place :: "memory_Block_t list \<Rightarrow> nat \<Rightarrow> nat \<Rightarrow> memory_Block_t list" where
  "place V b n = (mark_blocks V b n True)[b := (mark_blocks V b n True ! b)\<lparr>count := n\<rparr>]"

lemma length_place [simp]: "length (place V b n) = length V"
  by (simp add: place_def)

lemma nth_place:
  assumes "b + n \<le> length V" "0 < n" "i < length V"
  shows "place V b n ! i = (if i = b then \<lparr>count = n, allocated = True\<rparr>
     else if b < i \<and> i < b + n then \<lparr>count = 0, allocated = True\<rparr> else V ! i)"
  using assms by (auto simp: place_def nth_list_update nth_mark_blocks)

lemma free_run_heads:
  "wf_blocks V \<Longrightarrow> free_run V b n \<Longrightarrow> b \<le> i \<Longrightarrow> i < b + n \<Longrightarrow> heads V i = None"
  using wf_blocks_alloc [of V i _ i] heads_pos [of V i]
  by (cases "heads V i") (auto simp: free_run_def)

lemma heads_place:
  assumes "wf_blocks V" "free_run V b n" "0 < n"
  shows "heads (place V b n) = (heads V)(b \<mapsto> n)"
proof
  fix i
  have len: "b + n \<le> length V" using assms(2) by (simp add: free_run_def)
  show "heads (place V b n) i = ((heads V)(b \<mapsto> n)) i"
    using free_run_heads [OF assms(1,2), of i] assms(3) len
    by (auto simp: heads_def nth_place split: if_splits)
qed

lemma wf_blocks_place:
  assumes "wf_blocks V" "free_run V b n" "0 < n"
  shows "wf_blocks (place V b n)"
proof -
  note h = heads_place [OF assms]
  have len: "b + n \<le> length V" using assms(2) by (simp add: free_run_def)
  have fr: "\<And>x. b \<le> x \<Longrightarrow> x < b + n \<Longrightarrow> \<not> allocated (V ! x)" using assms(2) by (simp add: free_run_def)
  have outside: "k + m \<le> b \<or> b + n \<le> k" if "heads V k = Some m" for k m
  proof (rule ccontr)
    assume "\<not> ?thesis"
    then have "\<exists>x. b \<le> x \<and> x < b + n \<and> k \<le> x \<and> x < k + m"
      using heads_pos [OF that] assms(3) by (intro exI [of _ "max b k"]) auto
    then show False using wf_blocks_alloc [OF assms(1) that] fr by blast
  qed
  show ?thesis
    unfolding wf_blocks_def h
  proof (intro conjI allI impI)
    fix i m assume "((heads V)(b \<mapsto> n)) i = Some m"
    then show "i + m \<le> length (place V b n)"
      using len wf_blocks_bound [OF assms(1)] by (auto split: if_splits)
  next
    fix i m j assume i: "((heads V)(b \<mapsto> n)) i = Some m" "i \<le> j" "j < i + m"
    show "allocated (place V b n ! j)"
    proof (cases "i = b")
      case True
      with i len assms(3) show ?thesis by (auto simp: nth_place)
    next
      case False
      with i have hi: "heads V i = Some m" by simp
      then have "j < length V" using wf_blocks_bound [OF assms(1) hi] i by simp
      with hi i show ?thesis
        using wf_blocks_alloc [OF assms(1) hi i(2,3)] len assms(3) by (auto simp: nth_place)
    qed
  next
    fix i m j assume i: "((heads V)(b \<mapsto> n)) i = Some m" "i < j" "j < i + m"
    show "((heads V)(b \<mapsto> n)) j = None"
    proof (cases "i = b")
      case True
      then show ?thesis using i free_run_heads [OF assms(1,2), of j] by auto
    next
      case False
      with i have hi: "heads V i = Some m" by simp
      from outside [OF this] i assms(3) have "j \<noteq> b" by auto
      then show ?thesis using wf_blocks_inner [OF assms(1) hi i(2,3)] by simp
    qed
  next
    fix j assume j: "j < length (place V b n)" "allocated (place V b n ! j)"
    show "\<exists>i m. ((heads V)(b \<mapsto> n)) i = Some m \<and> i \<le> j \<and> j < i + m"
    proof (cases "b \<le> j \<and> j < b + n")
      case True
      then show ?thesis by (intro exI [of _ b] exI [of _ n]) simp
    next
      case False
      with j len assms(3) have "allocated (V ! j)" by (auto simp: nth_place split: if_splits)
      with j obtain i m where im: "heads V i = Some m" "i \<le> j" "j < i + m"
        using wf_blocks_owned [OF assms(1), of j] by auto
      then have "i \<noteq> b" using free_run_heads [OF assms(1,2), of b] assms(3) by auto
      with im show ?thesis by auto
    qed
  qed
qed

lemma heads_clear:
  assumes "wf_blocks V" "heads V b = Some n"
  shows "heads (mark_blocks V b n False) = (heads V)(b := None)"
proof
  fix i
  have len: "b + n \<le> length V" by (rule wf_blocks_bound [OF assms])
  have "count (V ! i) = 0" if "b < i" "i < b + n"
    using wf_blocks_inner [OF assms that] len that by (auto simp: heads_def split: if_splits)
  then show "heads (mark_blocks V b n False) i = ((heads V)(b := None)) i"
    using len heads_pos [OF assms(2)] by (cases "i = b") (auto simp: heads_def nth_mark_blocks)
qed

lemma wf_blocks_clear:
  assumes "wf_blocks V" "heads V b = Some n"
  shows "wf_blocks (mark_blocks V b n False)"
proof -
  note h = heads_clear [OF assms]
  have len: "b + n \<le> length V" by (rule wf_blocks_bound [OF assms])
  have outside: "j < b \<or> b + n \<le> j" if "heads V i = Some m" "i \<noteq> b" "i \<le> j" "j < i + m" for i j m
    using heads_disjoint [OF assms(1) that(1) assms(2) that(2)] that(3,4) by linarith
  show ?thesis
    unfolding wf_blocks_def h
  proof (intro conjI allI impI)
    fix i m assume "((heads V)(b := None)) i = Some m"
    then show "i + m \<le> length (mark_blocks V b n False)"
      using wf_blocks_bound [OF assms(1)] by (auto split: if_splits)
  next
    fix i m j assume i: "((heads V)(b := None)) i = Some m" "i \<le> j" "j < i + m"
    then have hi: "heads V i = Some m" "i \<noteq> b" by (auto split: if_splits)
    then have "j < length V" using wf_blocks_bound [OF assms(1) hi(1)] i by simp
    with hi i show "allocated (mark_blocks V b n False ! j)"
      using wf_blocks_alloc [OF assms(1) hi(1) i(2,3)] outside [OF hi i(2,3)] len
      by (auto simp: nth_mark_blocks)
  next
    fix i m j assume i: "((heads V)(b := None)) i = Some m" "i < j" "j < i + m"
    then show "((heads V)(b := None)) j = None"
      using wf_blocks_inner [OF assms(1), of i m j] by (auto split: if_splits)
  next
    fix j assume j: "j < length (mark_blocks V b n False)" "allocated (mark_blocks V b n False ! j)"
    with len have "allocated (V ! j)" "\<not> (b \<le> j \<and> j < b + n)"
      by (auto simp: nth_mark_blocks split: if_splits)
    with j obtain i m where im: "heads V i = Some m" "i \<le> j" "j < i + m"
      using wf_blocks_owned [OF assms(1), of j] by auto
    with \<open>\<not> (b \<le> j \<and> j < b + n)\<close> assms(2) have "i \<noteq> b" by auto
    with im show "\<exists>i m. ((heads V)(b := None)) i = Some m \<and> i \<le> j \<and> j < i + m" by auto
  qed
qed

lemma clear_place:
  assumes "free_run V b n" "0 < n" "\<And>i. b \<le> i \<Longrightarrow> i < b + n \<Longrightarrow> count (V ! i) = 0"
  shows "mark_blocks (place V b n) b n False = V"
proof (rule nth_equalityI)
  show "length (mark_blocks (place V b n) b n False) = length V" by simp
  fix i assume i: "i < length (mark_blocks (place V b n) b n False)"
  have len: "b + n \<le> length V" using assms(1) by (simp add: free_run_def)
  have "V ! i = \<lparr>count = 0, allocated = False\<rparr>" if "b \<le> i" "i < b + n"
    using assms(1,3) that by (intro memory_Block_t.equality) (auto simp: free_run_def)
  with i len assms(2) show "mark_blocks (place V b n) b n False ! i = V ! i"
    by (auto simp: nth_mark_blocks nth_place)
qed

section \<open>Invariant and abstract view\<close>

definition mm_inv :: "'a mm_scheme \<Rightarrow> bool" where
  "mm_inv s \<longleftrightarrow> memory_InitLock s \<and> length (memory_BlockV s) = memory_BlockC s \<and>
     0 < memory_Space s \<and> memory_Space s mod MEMORY_BLKSIZE = 0 \<and>
     memory_Limit s = memory_Space s + memory_BlockC s * MEMORY_BLKSIZE \<and>
     memory_Limit s < 4294967296 \<and> wf_blocks (memory_BlockV s)"

text \<open>\<open>live s a\<close> is the number of bytes of the region that starts at address \<open>a\<close>.\<close>

definition live :: "'a mm_scheme \<Rightarrow> addr \<Rightarrow> nat option" where
  "live s a =
     (if memory_Space s \<le> a \<and> (a - memory_Space s) mod MEMORY_BLKSIZE = 0
      then map_option (\<lambda>n. n * MEMORY_BLKSIZE)
             (heads (memory_BlockV s) ((a - memory_Space s) div MEMORY_BLKSIZE))
      else None)"

definition nblocks :: "nat \<Rightarrow> nat" where
  "nblocks sz = (sz + 4095) div MEMORY_BLKSIZE"

definition fits :: "'a mm_scheme \<Rightarrow> nat \<Rightarrow> bool" where
  "fits s sz \<longleftrightarrow> 0 < sz \<and> sz \<le> memory_BlockC s * MEMORY_BLKSIZE"

lemma mm_inv_wf: "mm_inv s \<Longrightarrow> wf_blocks (memory_BlockV s)"
  by (simp add: mm_inv_def)

lemma mm_inv_length: "mm_inv s \<Longrightarrow> length (memory_BlockV s) = memory_BlockC s"
  by (simp add: mm_inv_def)

lemma mm_inv_lock: "mm_inv s \<Longrightarrow> memory_InitLock s"
  by (simp add: mm_inv_def)

lemmas mm_inv_dests = mm_inv_wf mm_inv_length mm_inv_lock

lemma mm_inv_room:
  assumes "mm_inv s" shows "memory_BlockC s * MEMORY_BLKSIZE + 4096 < 4294967296"
proof -
  have "MEMORY_BLKSIZE \<le> memory_Space s"
    using assms mod_less [of "memory_Space s" MEMORY_BLKSIZE] unfolding mm_inv_def
    by (cases "memory_Space s < MEMORY_BLKSIZE") auto
  with assms show ?thesis unfolding mm_inv_def by linarith
qed

lemma nblocks_bounds:
  assumes "0 < sz"
  shows "0 < nblocks sz \<and> sz \<le> nblocks sz * MEMORY_BLKSIZE \<and> nblocks sz * MEMORY_BLKSIZE < sz + MEMORY_BLKSIZE"
proof -
  have "nblocks sz * MEMORY_BLKSIZE + (sz + 4095) mod MEMORY_BLKSIZE = sz + 4095"
    unfolding nblocks_def by (rule div_mult_mod_eq)
  moreover have "(sz + 4095) mod MEMORY_BLKSIZE < MEMORY_BLKSIZE" by simp
  ultimately show ?thesis using assms by (cases "nblocks sz") linarith+
qed

lemma nblocks_pos: "0 < sz \<Longrightarrow> 0 < nblocks sz"
  using nblocks_bounds by blast

lemma nblocks_ge: "0 < sz \<Longrightarrow> sz \<le> nblocks sz * MEMORY_BLKSIZE"
  using nblocks_bounds by blast

lemma fits_nblocks:
  assumes "fits s sz" shows "0 < nblocks sz \<and> nblocks sz \<le> memory_BlockC s"
proof -
  from assms have "0 < sz" "sz \<le> memory_BlockC s * MEMORY_BLKSIZE" by (auto simp: fits_def)
  with nblocks_bounds [of sz] have "nblocks sz * MEMORY_BLKSIZE < Suc (memory_BlockC s) * MEMORY_BLKSIZE"
    by simp
  then have "nblocks sz < Suc (memory_BlockC s)" by (rule mult_less_cancel2 [THEN iffD1, THEN conjunct2])
  with nblocks_bounds [of sz] \<open>0 < sz\<close> show ?thesis by simp
qed

lemma live_base: "live s (memory_Space s + b * MEMORY_BLKSIZE) =
    map_option (\<lambda>n. n * MEMORY_BLKSIZE) (heads (memory_BlockV s) b)"
  by (simp add: live_def)

lemma live_SomeD:
  assumes "live s a = Some k"
  obtains b n where "a = memory_Space s + b * MEMORY_BLKSIZE" "k = n * MEMORY_BLKSIZE"
    "heads (memory_BlockV s) b = Some n"
proof -
  from assms have a: "memory_Space s \<le> a" "(a - memory_Space s) mod MEMORY_BLKSIZE = 0"
    "map_option (\<lambda>n. n * MEMORY_BLKSIZE) (heads (memory_BlockV s) ((a - memory_Space s) div MEMORY_BLKSIZE)) = Some k"
    by (auto simp: live_def split: if_splits)
  moreover have "a = memory_Space s + (a - memory_Space s) div MEMORY_BLKSIZE * MEMORY_BLKSIZE"
    using a(1,2) by (metis add.right_neutral div_mult_mod_eq le_add_diff_inverse)
  ultimately show ?thesis using that by auto
qed

lemma live_update:
  "live (s\<lparr>memory_BlockV := V\<rparr>) = (live s)(memory_Space s + b * MEMORY_BLKSIZE := map_option (\<lambda>n. n * MEMORY_BLKSIZE) r)"
  if "heads V = (heads (memory_BlockV s))(b := r)"
proof
  fix a
  have "(a - memory_Space s) div MEMORY_BLKSIZE = b \<longleftrightarrow> a = memory_Space s + b * MEMORY_BLKSIZE"
    if "memory_Space s \<le> a" "(a - memory_Space s) mod MEMORY_BLKSIZE = 0"
    using that by (metis add.right_neutral add_diff_cancel_left' div_mult_mod_eq le_add_diff_inverse
      nonzero_mult_div_cancel_right zero_neq_numeral)
  then show "live (s\<lparr>memory_BlockV := V\<rparr>) a =
      ((live s)(memory_Space s + b * MEMORY_BLKSIZE := map_option (\<lambda>n. n * MEMORY_BLKSIZE) r)) a"
    using that by (auto simp: live_def)
qed

lemma live_bounds:
  assumes "mm_inv s" "live s a = Some k"
  shows "memory_Space s \<le> a" "a + k \<le> memory_Limit s" "0 < k" "0 < a"
proof -
  from assms(2) obtain b n where h: "a = memory_Space s + b * MEMORY_BLKSIZE" "k = n * MEMORY_BLKSIZE"
    "heads (memory_BlockV s) b = Some n" by (rule live_SomeD)
  have "b + n \<le> memory_BlockC s" using wf_blocks_bound [OF mm_inv_wf [OF assms(1)] h(3)] mm_inv_length [OF assms(1)] by simp
  then show "a + k \<le> memory_Limit s" using h assms(1) by (simp add: mm_inv_def)
  show "memory_Space s \<le> a" "0 < k" "0 < a"
    using h heads_pos [OF h(3)] assms(1) by (auto simp: mm_inv_def)
qed

lemma live_disjoint:
  assumes "mm_inv s" "live s a = Some k" "live s a' = Some k'" "a \<noteq> a'"
  shows "disj a k a' k'"
proof -
  from assms(2) obtain b n where h: "a = memory_Space s + b * MEMORY_BLKSIZE" "k = n * MEMORY_BLKSIZE"
    "heads (memory_BlockV s) b = Some n" by (rule live_SomeD)
  from assms(3) obtain b' n' where h': "a' = memory_Space s + b' * MEMORY_BLKSIZE"
    "k' = n' * MEMORY_BLKSIZE" "heads (memory_BlockV s) b' = Some n'" by (rule live_SomeD)
  have "b \<noteq> b'" using assms(4) h h' by auto
  then have "b + n \<le> b' \<or> b' + n' \<le> b"
    using heads_disjoint [OF mm_inv_wf [OF assms(1)] h(3) h'(3)] by blast
  then have "(b + n) * MEMORY_BLKSIZE \<le> b' * MEMORY_BLKSIZE \<or> (b' + n') * MEMORY_BLKSIZE \<le> b * MEMORY_BLKSIZE"
    by (meson mult_le_mono1)
  then show ?thesis using h h' by (auto simp: disj_def add_mult_distrib)
qed

section \<open>What the operations do\<close>

lemma malloc_eq:
  assumes "mm_inv s" "fits s sz"
  shows "malloc sz s = (case scan (\<lambda>i. free_run (memory_BlockV s) i (nblocks sz)) 0
            (Suc (memory_BlockC s - nblocks sz)) of
          None \<Rightarrow> Inr (0, s)
        | Some b \<Rightarrow> Inr (memory_Space s + b * MEMORY_BLKSIZE,
                         s\<lparr>memory_BlockV := place (memory_BlockV s) b (nblocks sz)\<rparr>))"
proof -
  let ?V = "memory_BlockV s" and ?n = "nblocks sz"
  have n: "0 < ?n" "?n \<le> memory_BlockC s" using fits_nblocks [OF assms(2)] by auto
  have sz: "0 < sz" "sz + 4095 < 4294967296"
    using assms(2) mm_inv_room [OF assms(1)] by (auto simp: fits_def)
  then have w: "wrap32 (sz + MEMORY_BLKSIZE - 1) div MEMORY_BLKSIZE = ?n" by (simp add: nblocks_def)
  have "memory_BlockC s < 4294967296" using mm_inv_room [OF assms(1)] by simp
  then have sub: "sub32 (memory_BlockC s) ?n = memory_BlockC s - ?n" using n by (intro sub32_small)
  have fr: "find_region ?V ?n 0 (memory_BlockC s - ?n) =
      Inr (scan (\<lambda>i. free_run ?V i ?n) 0 (Suc (memory_BlockC s - ?n)))"
    using n mm_inv_length [OF assms(1)] by (intro find_region_scan) simp
  have base: "wrap32 (memory_Space s + b * MEMORY_BLKSIZE) = memory_Space s + b * MEMORY_BLKSIZE
      \<and> b < length ?V"
    if "scan (\<lambda>i. free_run ?V i ?n) 0 (Suc (memory_BlockC s - ?n)) = Some b" for b
  proof -
    from that have b: "b + ?n \<le> memory_BlockC s"
      using mm_inv_length [OF assms(1)] by (auto simp: scan_Some_iff free_run_def)
    then have "b * MEMORY_BLKSIZE \<le> memory_BlockC s * MEMORY_BLKSIZE" by simp
    then have "memory_Space s + b * MEMORY_BLKSIZE < 4294967296"
      using assms(1) unfolding mm_inv_def by linarith
    then show ?thesis using b n mm_inv_length [OF assms(1)] by simp
  qed
  have "malloc sz s = (case scan (\<lambda>i. free_run ?V i ?n) 0 (Suc (memory_BlockC s - ?n)) of
      None \<Rightarrow> Inr (0, s)
    | Some b \<Rightarrow> checkR (b < length ?V) OutOfBounds
        (Inr (wrap32 (memory_Space s + b * MEMORY_BLKSIZE), s\<lparr>memory_BlockV := place ?V b ?n\<rparr>)))"
    unfolding malloc_def Let_def w sub fr place_def
    using mm_inv_lock [OF assms(1)] sz(1) by simp
  with base show ?thesis by (simp split: option.split)
qed

lemma malloc_total: "mm_inv s \<Longrightarrow> fits s sz \<Longrightarrow> \<exists>p s'. malloc sz s = Inr (p, s')"
  by (auto simp: malloc_eq split: option.split)

lemma malloc_frame: "malloc sz s = Inr (p, s') \<Longrightarrow> \<exists>V. s' = s\<lparr>memory_BlockV := V\<rparr>"
  unfolding malloc_def Let_def
  by (auto simp: bindR_eq_Inr checkR_eq_Inr split: if_splits option.splits intro: exI [of _ "memory_BlockV s"])

lemma malloc_null:
  assumes "mm_inv s" "fits s sz" "malloc sz s = Inr (0, s')"
  shows "s' = s" "\<nexists>b. free_run (memory_BlockV s) b (nblocks sz)"
proof -
  have pos: "0 < memory_Space s" using assms(1) by (simp add: mm_inv_def)
  from assms have none: "scan (\<lambda>i. free_run (memory_BlockV s) i (nblocks sz)) 0
      (Suc (memory_BlockC s - nblocks sz)) = None" and "s' = s"
    using pos by (auto simp: malloc_eq split: option.splits)
  then show "s' = s" by simp
  have "b < Suc (memory_BlockC s - nblocks sz)" if "free_run (memory_BlockV s) b (nblocks sz)" for b
    using that mm_inv_length [OF assms(1)] by (auto simp: free_run_def)
  then show "\<nexists>b. free_run (memory_BlockV s) b (nblocks sz)" using none by (auto simp: scan_None_iff)
qed

lemma malloc_some:
  assumes "mm_inv s" "fits s sz" "malloc sz s = Inr (p, s')" "p \<noteq> 0"
  obtains b where "p = memory_Space s + b * MEMORY_BLKSIZE"
    "s' = s\<lparr>memory_BlockV := place (memory_BlockV s) b (nblocks sz)\<rparr>"
    "free_run (memory_BlockV s) b (nblocks sz)"
    "\<And>j. j < b \<Longrightarrow> \<not> free_run (memory_BlockV s) j (nblocks sz)"
  using assms by (auto simp: malloc_eq scan_Some_iff split: option.splits)

lemma malloc_live:
  assumes "mm_inv s" "fits s sz" "malloc sz s = Inr (p, s')" "p \<noteq> 0"
  shows "live s p = None" "live s' = (live s)(p \<mapsto> nblocks sz * MEMORY_BLKSIZE)" "mm_inv s'"
    "p mod MEMORY_BLKSIZE = 0"
proof -
  from assms obtain b where b: "p = memory_Space s + b * MEMORY_BLKSIZE"
    "s' = s\<lparr>memory_BlockV := place (memory_BlockV s) b (nblocks sz)\<rparr>"
    "free_run (memory_BlockV s) b (nblocks sz)" by (rule malloc_some)
  have n: "0 < nblocks sz" using fits_nblocks [OF assms(2)] by simp
  have wf: "wf_blocks (memory_BlockV s)" by (rule mm_inv_wf [OF assms(1)])
  show "live s p = None" using free_run_heads [OF wf b(3), of b] n b(1) by (simp add: live_base)
  show "live s' = (live s)(p \<mapsto> nblocks sz * MEMORY_BLKSIZE)"
    unfolding b(1,2) by (subst live_update [OF heads_place [OF wf b(3) n]]) simp
  show "mm_inv s'" using assms(1) wf_blocks_place [OF wf b(3) n] by (simp add: b(2) mm_inv_def)
  show "p mod MEMORY_BLKSIZE = 0" using assms(1) b(1) by (simp add: mm_inv_def)
qed

lemma free_live:
  assumes "mm_inv s" "live s p = Some k"
  shows "\<exists>V. free p s = Inr (s\<lparr>memory_BlockV := V\<rparr>) \<and> mm_inv (s\<lparr>memory_BlockV := V\<rparr>) \<and>
      live (s\<lparr>memory_BlockV := V\<rparr>) = (live s)(p := None)"
proof -
  from assms(2) obtain b n where h: "p = memory_Space s + b * MEMORY_BLKSIZE" "k = n * MEMORY_BLKSIZE"
    "heads (memory_BlockV s) b = Some n" by (rule live_SomeD)
  have wf: "wf_blocks (memory_BlockV s)" by (rule mm_inv_wf [OF assms(1)])
  note lb = live_bounds [OF assms]
  let ?V = "mark_blocks (memory_BlockV s) b n False"
  have "b < memory_BlockC s" "b + n \<le> memory_BlockC s" "count (memory_BlockV s ! b) = n" "0 < n"
    using wf_blocks_bound [OF wf h(3)] heads_less [OF h(3)] heads_pos [OF h(3)] h(3)
      mm_inv_length [OF assms(1)]
    by (auto simp: heads_def split: if_splits)
  moreover have "\<not> bad_pointer p s"
    using lb mm_inv_lock [OF assms(1)] by (simp add: bad_pointer_def)
  moreover have "(p - memory_Space s) div MEMORY_BLKSIZE = b" using h(1) by simp
  ultimately have "free p s = Inr (s\<lparr>memory_BlockV := ?V\<rparr>)"
    by (simp add: free_def Let_def mm_inv_length [OF assms(1)])
  moreover have "mm_inv (s\<lparr>memory_BlockV := ?V\<rparr>)"
    using assms(1) wf_blocks_clear [OF wf h(3)] by (simp add: mm_inv_def)
  moreover have "live (s\<lparr>memory_BlockV := ?V\<rparr>) = (live s)(p := None)"
    unfolding h(1) by (subst live_update [OF heads_clear [OF wf h(3)]]) simp
  ultimately show ?thesis by blast
qed

interpretation heap: allocator malloc free live mm_inv fits "\<lambda>n. nblocks n * MEMORY_BLKSIZE"
proof (unfold_locales, goal_cases)
  case (1 s n) then show ?case by (rule malloc_total)
next
  case (2 s n s') then show ?case by (rule malloc_null(1))
next
  case (3 s n p s') then show ?case using malloc_live [of s n p s'] by simp
next
  case (4 s n p s' k)
  then obtain V where "s' = s\<lparr>memory_BlockV := V\<rparr>" using malloc_frame by blast
  then show ?case by (simp add: fits_def)
next
  case (5 s n) then show ?case by (simp add: fits_def nblocks_ge)
next
  case (6 s p k) then show ?case using free_live [of s p k] by blast
next
  case (7 s p k q j) then show ?case by (rule live_disjoint)
next
  case (8 s p k) then show ?case using live_bounds(4) [of s p k] by simp
qed

section \<open>Freeing any pointer\<close>

lemma free_any:
  assumes "mm_inv s"
  shows "\<exists>V. free p s = Inr (s\<lparr>memory_BlockV := V\<rparr>) \<and> mm_inv (s\<lparr>memory_BlockV := V\<rparr>)"
proof (cases "bad_pointer p s")
  case True
  then show ?thesis using assms by (intro exI [of _ "memory_BlockV s"]) (simp add: free_def)
next
  case False
  let ?num = "(p - memory_Space s) div MEMORY_BLKSIZE"
  have "p - memory_Space s < memory_BlockC s * MEMORY_BLKSIZE"
    using False assms by (auto simp: bad_pointer_def mm_inv_def)
  then have num: "?num < memory_BlockC s" by (simp add: less_mult_imp_div_less)
  show ?thesis
  proof (cases "heads (memory_BlockV s) ?num")
    case None
    then have "count (memory_BlockV s ! ?num) = 0"
      using num mm_inv_length [OF assms] by (auto simp: heads_def split: if_splits)
    then have "free p s = Inr s" using False num mm_inv_length [OF assms] by (simp add: free_def Let_def)
    then show ?thesis using assms by (intro exI [of _ "memory_BlockV s"]) simp
  next
    case (Some n)
    then have "free p s = free (memory_Space s + ?num * MEMORY_BLKSIZE) s"
    proof -
      have "live s (memory_Space s + ?num * MEMORY_BLKSIZE) = Some (n * MEMORY_BLKSIZE)"
        using Some by (simp add: live_base)
      from live_bounds [OF assms this] have "\<not> bad_pointer (memory_Space s + ?num * MEMORY_BLKSIZE) s"
        using mm_inv_lock [OF assms] by (simp add: bad_pointer_def)
      with False show ?thesis by (simp add: free_def)
    qed
    moreover have "live s (memory_Space s + ?num * MEMORY_BLKSIZE) = Some (n * MEMORY_BLKSIZE)"
      using Some by (simp add: live_base)
    ultimately show ?thesis using free_live [OF assms] by auto
  qed
qed

section \<open>Available memory\<close>

lemma mavail_loop_eq:
  "result + 4096 * length V < 4294967296 \<Longrightarrow>
   mavail_loop V result = result + 4096 * length (filter (\<lambda>b. \<not> allocated b) V)"
  by (induction V arbitrary: result) auto

lemma mavail_eq:
  "mm_inv s \<Longrightarrow> mavail s = 4096 * card {i. i < memory_BlockC s \<and> \<not> allocated (memory_BlockV s ! i)}"
  using mm_inv_room [of s] mm_inv_length [of s] mm_inv_lock [of s]
  by (simp add: mavail_def mavail_loop_eq length_filter_conv_card)

lemma free_set_place:
  assumes "free_run V b n" "0 < n"
  shows "{i. i < length V \<and> \<not> allocated (place V b n ! i)} =
     {i. i < length V \<and> \<not> allocated (V ! i)} - {b..<b + n}"
  using assms by (auto simp: free_run_def nth_place split: if_splits)

lemma card_free_place:
  assumes "free_run V b n" "0 < n"
  shows "card {i. i < length V \<and> \<not> allocated (place V b n ! i)} + n =
     card {i. i < length V \<and> \<not> allocated (V ! i)}"
proof -
  have sub: "{b..<b + n} \<subseteq> {i. i < length V \<and> \<not> allocated (V ! i)}"
    using assms(1) by (auto simp: free_run_def)
  have "card {b..<b + n} \<le> card {i. i < length V \<and> \<not> allocated (V ! i)}"
    using sub by (intro card_mono) auto
  then show ?thesis
    unfolding free_set_place [OF assms] using card_Diff_subset [OF _ sub] by simp
qed

section \<open>Copying into a fresh region\<close>

lemma ncopy_loop_prefix:
  assumes "d + n \<le> s \<or> s + k \<le> d" "i < k" "i < n" "j + l = n"
  shows "ncopy_loop m d s j l (d + i) = (if i < j then m (d + i) else m (s + i))"
  using assms(4)
proof (induction l arbitrary: m j)
  case 0
  then show ?case using assms(3) by simp
next
  case (Suc l)
  have "ncopy_loop m d s j (Suc l) (d + i) =
      (if i < Suc j then (m(d + j := m (s + j))) (d + i) else (m(d + j := m (s + j))) (s + i))"
    using Suc by simp
  moreover have "s + i \<noteq> d + j" using assms(1,2,3) Suc.prems by auto
  ultimately show ?case by (auto simp: less_Suc_eq)
qed

lemma mread_ncopy_prefix:
  "disj d n s k \<Longrightarrow> l \<le> n \<Longrightarrow> l \<le> k \<Longrightarrow> mread (ncopy m d s n) d l = mread m s l"
proof (cases "l = 0")
  case False
  assume "disj d n s k" "l \<le> n" "l \<le> k"
  then have d: "d + n \<le> s \<or> s + k \<le> d" using False by (auto simp: disj_def)
  show ?thesis
  proof (rule nth_equalityI)
    fix i assume "i < length (mread (ncopy m d s n) d l)"
    then show "mread (ncopy m d s n) d l ! i = mread m s l ! i"
      using ncopy_loop_prefix [OF d, of i 0 n m] \<open>l \<le> n\<close> \<open>l \<le> k\<close> by (simp add: ncopy_def)
  qed simp
qed simp

lemma mread_ncopy_self: "disj d n b n \<Longrightarrow> mread (ncopy m d b n) d n = mread m b n"
  by (rule mread_ncopy_prefix [where k = n]) simp_all

text \<open>\<open>realloc\<close> of a live region, on every branch.\<close>

lemma realloc_live:
  assumes "mm_inv s" "live s p = Some k" "fits s sz" "realloc p sz s = Inr (q, s')" "q \<noteq> 0"
  shows "\<exists>V. s' = s\<lparr>mem := ncopy (mem s) q p sz, memory_BlockV := V\<rparr>"
    "mm_inv s'" "live s q = None"
    "live s' = (live s)(q \<mapsto> nblocks sz * MEMORY_BLKSIZE, p := None)"
    "disj p k q sz"
proof -
  have nb: "\<not> bad_pointer p s"
    using live_bounds [OF assms(1,2)] mm_inv_lock [OF assms(1)] by (simp add: bad_pointer_def)
  from assms(4) nb obtain q1 s1 where m: "malloc sz s = Inr (q1, s1)"
    unfolding realloc_def by (auto simp: bindR_eq_Inr split: if_splits)
  with assms(4,5) nb have q1: "q1 = q" "q1 \<noteq> 0" and
    fr: "free p (s1\<lparr>mem := ncopy (mem s1) q p sz\<rparr>) = Inr s'"
    unfolding realloc_def by (auto simp: bindR_eq_Inr split: if_splits)
  note m = m [unfolded q1(1)]
  from malloc_frame [OF m] obtain V1 where s1: "s1 = s\<lparr>memory_BlockV := V1\<rparr>" by blast
  note ml = malloc_live [OF assms(1,3) m assms(5)]
  note fresh = heap.alloc_fresh [OF assms(1,3) m assms(5) assms(2)]
  let ?s1 = "s1\<lparr>mem := ncopy (mem s1) q p sz\<rparr>"
  have i1: "mm_inv ?s1" "live ?s1 = live s1"
    using ml(3) by (auto simp: mm_inv_def live_def [abs_def])
  then obtain V where V: "s' = ?s1\<lparr>memory_BlockV := V\<rparr>" "mm_inv s'" "live s' = (live ?s1)(p := None)"
    using free_live [OF i1(1), of p k] fresh(2) fr by auto
  show "\<exists>V. s' = s\<lparr>mem := ncopy (mem s) q p sz, memory_BlockV := V\<rparr>" using V(1) s1 by auto
  show "mm_inv s'" "live s q = None" "disj p k q sz" using V ml fresh(3) by auto
  show "live s' = (live s)(q \<mapsto> nblocks sz * MEMORY_BLKSIZE, p := None)"
    using V(3) i1(2) ml(2) by simp
qed

lemma realloc_null:
  assumes "mm_inv s" "live s p = Some k" "fits s sz" "realloc p sz s = Inr (0, s')"
  shows "s' = s"
proof -
  have nb: "\<not> bad_pointer p s"
    using live_bounds [OF assms(1,2)] mm_inv_lock [OF assms(1)] by (simp add: bad_pointer_def)
  with assms(4) obtain q1 s1 where m: "malloc sz s = Inr (q1, s1)" "q1 = 0 \<Longrightarrow> s' = s1" "q1 = 0"
    unfolding realloc_def by (auto simp: bindR_eq_Inr split: if_splits)
  then show ?thesis using malloc_null(1) [OF assms(1,3)] by simp
qed

lemma realloc_total:
  assumes "mm_inv s" "live s p = Some k" "fits s sz"
  shows "\<exists>q s'. realloc p sz s = Inr (q, s')"
proof -
  obtain q1 s1 where m: "malloc sz s = Inr (q1, s1)" using malloc_total [OF assms(1,3)] by blast
  show ?thesis
  proof (cases "q1 = 0")
    case True
    then show ?thesis using m by (auto simp: realloc_def)
  next
    case False
    have "mm_inv (s1\<lparr>mem := ncopy (mem s1) q1 p sz\<rparr>)"
      using malloc_live(3) [OF assms(1,3) m False] by (simp add: mm_inv_def)
    from free_any [OF this, of p] show ?thesis using m False by (auto simp: realloc_def)
  qed
qed

lemma malloc_too_big:
  assumes "mm_inv s" "memory_BlockC s * MEMORY_BLKSIZE < sz" "sz \<le> 4294963200"
  shows "malloc sz s = Inl OutOfBounds"
proof -
  have w: "wrap32 (sz + MEMORY_BLKSIZE - 1) div MEMORY_BLKSIZE = nblocks sz"
    using assms(3) by (simp add: nblocks_def)
  have n: "memory_BlockC s < nblocks sz"
  proof (rule ccontr)
    assume "\<not> ?thesis"
    then have "nblocks sz * MEMORY_BLKSIZE \<le> memory_BlockC s * MEMORY_BLKSIZE" by simp
    then show False using nblocks_ge [of sz] assms(2) by linarith
  qed
  have "nblocks sz * MEMORY_BLKSIZE < sz + MEMORY_BLKSIZE" using nblocks_bounds [of sz] assms(2) by simp
  then have "memory_BlockC s \<le> memory_BlockC s + 4294967296 - nblocks sz" using assms(3) by linarith
  then have "find_region (memory_BlockV s) (nblocks sz) 0 (sub32 (memory_BlockC s) (nblocks sz)) = Inl OutOfBounds"
    using n mm_inv_length [OF assms(1)] by (intro find_region_too_big) (simp_all add: sub32_borrow)
  then show ?thesis
    using assms(2) mm_inv_lock [OF assms(1)] unfolding malloc_def Let_def w by simp
qed

lemma malloc_inv:
  assumes "mm_inv s" "sz \<le> 4294963200" "malloc sz s = Inr (p, s')"
  shows "mm_inv s'"
proof (cases "fits s sz")
  case True
  then show ?thesis
    using malloc_null(1) [OF assms(1) True, of s'] malloc_live(3) [OF assms(1) True assms(3)] assms(1,3)
    by (cases "p = 0") auto
next
  case False
  have "sz = 0"
    using False malloc_too_big [OF assms(1) _ assms(2)] assms(3) by (cases "sz = 0") (auto simp: fits_def)
  then show ?thesis using assms by (auto simp: malloc_def split: if_splits)
qed

lemma mm_inv_mem [simp]: "mm_inv (s\<lparr>mem := m\<rparr>) = mm_inv s"
  by (simp add: mm_inv_def)

lemma live_mem [simp]: "live (s\<lparr>mem := m\<rparr>) = live s"
  by (rule ext) (simp add: live_def)

text \<open>\<open>calloc\<close> runs off the table, finds no room, or grants a fresh region.\<close>

lemma calloc_outcome:
  assumes "mm_inv s" "wrap32 (n * k) \<le> 4294963200"
  shows "calloc n k s = Inl OutOfBounds \<or> calloc n k s = Inr (0, s) \<or>
    (\<exists>p V m. calloc n k s = Inr (p, s\<lparr>memory_BlockV := V, mem := m\<rparr>) \<and> p \<noteq> 0 \<and> p mod MEMORY_BLKSIZE = 0 \<and>
       live s p = None \<and> live (s\<lparr>memory_BlockV := V\<rparr>) = (live s)(p \<mapsto> nblocks (wrap32 (n * k)) * MEMORY_BLKSIZE) \<and>
       mm_inv (s\<lparr>memory_BlockV := V\<rparr>))"
proof -
  let ?n = "wrap32 (n * k)"
  have ok: "memory_InitLock s" "\<not> ?n > 4294967295" using assms mm_inv_lock by auto
  show ?thesis
  proof (cases "fits s ?n")
    case False
    then have "malloc ?n s = Inl OutOfBounds \<or> malloc ?n s = Inr (0, s)"
      using malloc_too_big [OF assms(1) _ assms(2)] by (cases "?n = 0") (auto simp: fits_def malloc_def)
    then show ?thesis using ok by (auto simp: calloc_def Let_def)
  next
    case True
    then obtain p s1 where m: "malloc ?n s = Inr (p, s1)" using malloc_total [OF assms(1)] by blast
    show ?thesis
    proof (cases "p = 0")
      case True
      then have "s1 = s" using malloc_null(1) [OF assms(1) \<open>fits s ?n\<close>] m by simp
      then show ?thesis using ok m True by (simp add: calloc_def Let_def)
    next
      case False
      note l = malloc_live [OF assms(1) \<open>fits s ?n\<close> m False]
      obtain V where V: "s1 = s\<lparr>memory_BlockV := V\<rparr>" using malloc_frame [OF m] by blast
      have "calloc n k s = Inr (p, s\<lparr>memory_BlockV := V, mem := fill (mem s) p 0 ?n\<rparr>)"
        using ok m False by (simp add: calloc_def Let_def V)
      moreover have "live (s\<lparr>memory_BlockV := V\<rparr>) = (live s)(p \<mapsto> nblocks ?n * MEMORY_BLKSIZE)" "mm_inv (s\<lparr>memory_BlockV := V\<rparr>)"
        using l(2,3) by (simp_all only: V)
      ultimately show ?thesis using l(1,4) False
        by (intro disjI2 exI [of _ p] exI [of _ V] exI [of _ "fill (mem s) p 0 ?n"] conjI)
    qed
  qed
qed

lemma realloc_inv:
  assumes "mm_inv s" "sz \<le> 4294963200" "realloc p sz s = Inr (q, s')"
  shows "mm_inv s'"
proof (cases "bad_pointer p s")
  case True
  then show ?thesis using assms by (simp add: realloc_def)
next
  case False
  with assms(3) obtain q1 s1 where m: "malloc sz s = Inr (q1, s1)" and
    r: "(if q1 = 0 then Inr (0, s1)
      else bindR (free p (s1\<lparr>mem := ncopy (mem s1) q1 p sz\<rparr>)) (\<lambda>s2. Inr (q1, s2))) = Inr (q, s')"
    by (auto simp: realloc_def bindR_eq_Inr)
  have i1: "mm_inv s1" by (rule malloc_inv [OF assms(1,2) m])
  show ?thesis
    using r i1 free_any [of "s1\<lparr>mem := ncopy (mem s1) q1 p sz\<rparr>" p] by (cases "q1 = 0") auto
qed

section \<open>Histories of requests\<close>

text \<open>What a client can ask for, and the state after any sequence of requests.\<close>

datatype mem_req = Malloc nat | Calloc nat nat | Realloc addr nat | Free addr

inductive mem_step :: "'a mm_scheme \<Rightarrow> mem_req \<Rightarrow> 'a mm_scheme \<Rightarrow> bool" where
  step_malloc: "malloc n s = Inr (p, s') \<Longrightarrow> mem_step s (Malloc n) s'"
| step_calloc: "calloc n k s = Inr (p, s') \<Longrightarrow> mem_step s (Calloc n k) s'"
| step_realloc: "realloc p n s = Inr (q, s') \<Longrightarrow> mem_step s (Realloc p n) s'"
| step_free: "free p s = Inr s' \<Longrightarrow> mem_step s (Free p) s'"

inductive_cases mem_stepE: "mem_step s r s'"

text \<open>The requests whose size survives the rounding up to whole blocks.\<close>

fun no_wrap :: "mem_req \<Rightarrow> bool" where
  "no_wrap (Malloc n) = (n \<le> 4294963200)"
| "no_wrap (Calloc n k) = (wrap32 (n * k) \<le> 4294963200)"
| "no_wrap (Realloc p n) = (n \<le> 4294963200)"
| "no_wrap (Free p) = True"

inductive mem_run :: "'a mm_scheme \<Rightarrow> mem_req list \<Rightarrow> 'a mm_scheme \<Rightarrow> bool" where
  run_nil: "mem_run s [] s"
| run_cons: "mem_step s r s1 \<Longrightarrow> mem_run s1 rs s2 \<Longrightarrow> mem_run s (r # rs) s2"

lemma mem_step_inv: "mem_step s r s' \<Longrightarrow> mm_inv s \<Longrightarrow> no_wrap r \<Longrightarrow> mm_inv s'"
proof (induction rule: mem_step.induct)
  case (step_malloc n s p s')
  then show ?case by (auto intro: malloc_inv)
next
  case (step_calloc n k s p s')
  then obtain q s1 where m: "malloc (wrap32 (n * k)) s = Inr (q, s1)" and
    r: "(if q = 0 then Inr (0, s1) else Inr (q, s1\<lparr>mem := fill (mem s1) q 0 (wrap32 (n * k))\<rparr>)) = Inr (p, s')"
    by (auto simp: calloc_def Let_def bindR_eq_Inr mm_inv_lock split: if_splits)
  have "mm_inv s1" using step_calloc.prems by (intro malloc_inv [OF _ _ m]) simp_all
  then show ?case using r by (auto split: if_splits)
next
  case (step_realloc p n s q s')
  then show ?case by (auto intro: realloc_inv)
next
  case (step_free p s s')
  then show ?case using free_any [of s p] by auto
qed

lemma mem_run_inv: "mem_run s rs s' \<Longrightarrow> mm_inv s \<Longrightarrow> list_all no_wrap rs \<Longrightarrow> mm_inv s'"
  by (induction rule: mem_run.induct) (auto dest: mem_step_inv)

section \<open>Start-up\<close>

lemma wf_blocks_replicate: "wf_blocks (replicate n \<lparr>count = 0, allocated = False\<rparr>)"
  by (simp add: wf_blocks_def heads_def)

lemma heads_replicate [simp]: "heads (replicate n \<lparr>count = 0, allocated = a\<rparr>) i = None"
  by (simp add: heads_def)

lemma align_down_bounds: "align_down x \<le> x" "x < align_down x + MEMORY_BLKSIZE"
  "align_down x mod MEMORY_BLKSIZE = 0"
proof -
  have "align_down x + x mod MEMORY_BLKSIZE = x" "x mod MEMORY_BLKSIZE < MEMORY_BLKSIZE"
    by (simp_all add: align_down_def)
  then show "align_down x \<le> x" "x < align_down x + MEMORY_BLKSIZE" by linarith+
  show "align_down x mod MEMORY_BLKSIZE = 0" by (simp add: align_down_def)
qed

lemma memory_init_layout:
  assumes "\<not> memory_InitLock s" "8208 \<le> sz" "kl + os + sz < 4294967296"
    and "memory_init kl os sz s = Inr s'"
  shows "mm_inv s'" "kl + os + memory_BlockC s' * sizeof_Block \<le> memory_Space s'"
    "memory_Limit s' \<le> kl + os + sz" "0 < memory_BlockC s'" "live s' = Map.empty"
proof -
  define c where "c = sz div (MEMORY_BLKSIZE + sizeof_Block)"
  have c: "c * 4104 \<le> sz" unfolding c_def using div_times_less_eq_dividend [of sz 4104] by simp
  have c2: "2 \<le> c" unfolding c_def using assms(2) by (simp add: less_eq_div_iff_mult_less_eq)
  define n where "n = c - 1"
  have n: "0 < n" "n * 4104 + 4104 \<le> sz" using c c2 by (simp_all add: n_def diff_mult_distrib)
  define sp where "sp = align_down (kl + os + n * 8 + 4096)"
  have sp: "sp \<le> kl + os + n * 8 + 4096" "kl + os + n * 8 < sp" "sp mod MEMORY_BLKSIZE = 0"
    using align_down_bounds [of "kl + os + n * 8 + 4096"] by (simp_all add: sp_def)
  have lim: "sp + n * 4096 + 8 \<le> kl + os + sz" using sp(1) n(2) by linarith
  have ne: "c \<noteq> 0" using c2 by simp
  have "kl + os < 4294967296" "kl + os + n * 8 < 4294967296" "kl + os + n * 8 + 4096 < 4294967296"
    "sp + n * 4096 < 4294967296" "\<not> 4294967295 < sz"
    using lim sp n assms(3) by linarith+
  moreover have e: "c - (if c \<noteq> 0 then 1 else 0) = n" using ne by (simp add: n_def)
  ultimately have "memory_init kl os sz s = Inr (s\<lparr>memory_InitLock := True, memory_Space := sp,
      memory_Limit := sp + n * MEMORY_BLKSIZE,
      memory_BlockV := replicate n \<lparr>count = 0, allocated = False\<rparr>, memory_BlockC := n\<rparr>)"
    unfolding memory_init_def Let_def c_def [symmetric] e using assms(1) n(1)
    by (simp add: sp_def)
  then have s': "s' = s\<lparr>memory_InitLock := True, memory_Space := sp, memory_Limit := sp + n * MEMORY_BLKSIZE,
      memory_BlockV := replicate n \<lparr>count = 0, allocated = False\<rparr>, memory_BlockC := n\<rparr>"
    using assms(4) by simp
  show "mm_inv s'" using sp lim assms(3) wf_blocks_replicate by (simp add: s' mm_inv_def)
  show "kl + os + memory_BlockC s' * sizeof_Block \<le> memory_Space s'"
    "memory_Limit s' \<le> kl + os + sz" "0 < memory_BlockC s'"
    using sp lim n by (simp_all add: s')
  show "live s' = Map.empty" by (rule ext) (simp add: s' live_def)
qed

lemma memory_init_total:
  assumes "\<not> memory_InitLock s" "8208 \<le> sz" "sz < 4294967296"
  shows "\<exists>s'. memory_init kl os sz s = Inr s'"
proof -
  have "2 \<le> sz div (MEMORY_BLKSIZE + sizeof_Block)"
    using assms(2) by (simp add: less_eq_div_iff_mult_less_eq)
  then show ?thesis using assms by (simp add: memory_init_def Let_def)
qed

lemma live_cong:
  "memory_Space s = memory_Space t \<Longrightarrow> memory_BlockV s = memory_BlockV t \<Longrightarrow> live s = live t"
  by (rule ext) (simp only: live_def)

lemma mm_inv_cong:
  "memory_InitLock s = memory_InitLock t \<Longrightarrow> memory_Space s = memory_Space t \<Longrightarrow> memory_Limit s = memory_Limit t \<Longrightarrow>
   memory_BlockV s = memory_BlockV t \<Longrightarrow> memory_BlockC s = memory_BlockC t \<Longrightarrow> mm_inv s = mm_inv t"
  by (simp only: mm_inv_def)

lemma free_malloc:
  assumes "mm_inv s" "fits s sz" "malloc sz s = Inr (p, s')" "p \<noteq> 0"
  shows "free p s' = Inr s \<and> mavail s' + nblocks sz * MEMORY_BLKSIZE = mavail s"
proof
  from assms obtain b where b: "p = memory_Space s + b * MEMORY_BLKSIZE"
    "s' = s\<lparr>memory_BlockV := place (memory_BlockV s) b (nblocks sz)\<rparr>"
    "free_run (memory_BlockV s) b (nblocks sz)" by (rule malloc_some)
  have n: "0 < nblocks sz" using fits_nblocks [OF assms(2)] by simp
  have wf: "wf_blocks (memory_BlockV s)" by (rule mm_inv_wf [OF assms(1)])
  have len: "b + nblocks sz \<le> memory_BlockC s" using b(3) mm_inv_length [OF assms(1)] by (simp add: free_run_def)
  have z: "count (memory_BlockV s ! i) = 0" if "b \<le> i" "i < b + nblocks sz" for i
    using free_run_heads [OF wf b(3) that] len that mm_inv_length [OF assms(1)]
    by (auto simp: heads_def split: if_splits)
  note cp = clear_place [OF b(3) n z]
  note ml = malloc_live [OF assms]
  have l: "live s' p = Some (nblocks sz * MEMORY_BLKSIZE)" using ml(2) by simp
  have "\<not> bad_pointer p s'"
    using live_bounds [OF ml(3) l] mm_inv_lock [OF ml(3)] by (simp add: bad_pointer_def)
  moreover have "(p - memory_Space s') div MEMORY_BLKSIZE = b" using b(1,2) by simp
  moreover have "count (memory_BlockV s' ! b) = nblocks sz"
    using len n mm_inv_length [OF assms(1)] b(2) by (simp add: nth_place)
  ultimately show "free p s' = Inr s"
    using len n mm_inv_length [OF assms(1)] cp unfolding free_def Let_def by (simp add: b(2))
  show "mavail s' + nblocks sz * MEMORY_BLKSIZE = mavail s"
    using card_free_place [OF b(3) n] mavail_eq [OF assms(1)] mavail_eq [OF ml(3)] mm_inv_length [OF assms(1)]
    by (simp add: b(2))
qed

section \<open>Properties\<close>

text \<open>A heap of four blocks at address 8192, used as the concrete input of the witnesses.\<close>

definition mm_demo :: mm where
  "mm_demo = \<lparr>mem = (\<lambda>_. 0), rtc = (\<lambda>_ _. 0), ticks = 0, tty = [], memory_InitLock = True,
     memory_Space = 8192, memory_Limit = 24576,
     memory_BlockV = replicate 4 \<lparr>count = 0, allocated = False\<rparr>, memory_BlockC = 4\<rparr>"

text \<open>The same heap with its first block allocated, holding the bytes 1 to 5.\<close>

definition mm_demo1 :: mm where
  "mm_demo1 = mm_demo\<lparr>mem := mwrite (\<lambda>_. 0) 8192 [1, 2, 3, 4, 5],
     memory_BlockV := place (memory_BlockV mm_demo) 0 1\<rparr>"

lemma mm_demo_inv: "mm_inv mm_demo"
  using wf_blocks_replicate [of 4] by (simp add: mm_inv_def mm_demo_def)

lemma mm_demo_run: "b + n \<le> 4 \<Longrightarrow> free_run (memory_BlockV mm_demo) b n"
  by (auto simp: free_run_def mm_demo_def)

lemma mm_demo1_inv: "mm_inv mm_demo1"
proof -
  have "wf_blocks (place (memory_BlockV mm_demo) 0 1)"
    using mm_inv_wf [OF mm_demo_inv] mm_demo_run [of 0 1] by (intro wf_blocks_place) simp_all
  then show ?thesis unfolding mm_demo1_def using mm_demo_inv by (simp add: mm_inv_def)
qed

lemma mm_demo1_live: "live mm_demo1 8192 = Some 4096"
  by (simp add: live_def mm_demo1_def mm_demo_def heads_def nth_place)

lemma mm_demo1_run: "free_run (memory_BlockV mm_demo1) 1 2" "\<not> free_run (memory_BlockV mm_demo1) 0 n" if "0 < n"
  using that by (auto simp: free_run_def mm_demo1_def mm_demo_def nth_place)

lemma nblocks_5000: "nblocks 5000 = 2"
  by (simp add: nblocks_def)

lemma mm_demo_malloc:
  "malloc 5000 mm_demo = Inr (8192, mm_demo\<lparr>memory_BlockV := place (memory_BlockV mm_demo) 0 2\<rparr>)"
proof -
  have f: "fits mm_demo 5000" by (simp add: fits_def mm_demo_def)
  have "scan (\<lambda>i. free_run (memory_BlockV mm_demo) i (nblocks 5000)) 0
      (Suc (memory_BlockC mm_demo - nblocks 5000)) = Some 0"
    by (rule scan_SomeI) (simp_all add: nblocks_5000 mm_demo_run)
  then show ?thesis
    using malloc_eq [OF mm_demo_inv f] by (simp add: nblocks_5000) (simp add: mm_demo_def)
qed

lemma mm_demo1_malloc:
  "malloc 5000 mm_demo1 = Inr (12288, mm_demo1\<lparr>memory_BlockV := place (memory_BlockV mm_demo1) 1 2\<rparr>)"
proof -
  have f: "fits mm_demo1 5000" by (simp add: fits_def mm_demo1_def mm_demo_def)
  have "scan (\<lambda>i. free_run (memory_BlockV mm_demo1) i (nblocks 5000)) 0
      (Suc (memory_BlockC mm_demo1 - nblocks 5000)) = Some 1"
    using mm_demo1_run by (intro scan_SomeI) (auto simp: nblocks_5000 mm_demo1_def mm_demo_def)
  then show ?thesis
    using malloc_eq [OF mm_demo1_inv f] by (simp add: nblocks_5000) (simp add: mm_demo1_def mm_demo_def)
qed

text \<open>Sizes whose rounding does not wrap are granted only if they fit.\<close>

lemma malloc_grants_fit:
  assumes "mm_inv s" "sz \<le> 2 ^ 32 - 4096" "malloc sz s = Inr (p, s')" "p \<noteq> 0"
  shows "fits s sz"
proof -
  have "sz \<noteq> 0" using assms(3,4) by (auto simp: malloc_def split: if_splits)
  moreover have "\<not> memory_BlockC s * MEMORY_BLKSIZE < sz" using malloc_too_big [OF assms(1), of sz] assms(2,3) by auto
  ultimately show ?thesis by (simp add: fits_def)
qed

text \<open>
  C2. For every size up to \<open>2 ^ 32 - 4096\<close> (beyond that the rounding wraps, see \<open>malloc_oversize\<close>), a non-null
  result of \<open>malloc\<close> is a region inside the heap that meets no region handed out before: the region
  table gains exactly this region, every earlier one is kept, and the block table stays well-formed.
\<close>

theorem malloc_fresh_region:
  assumes "mm_inv s" "sz \<le> 2 ^ 32 - 4096" "malloc sz s = Inr (p, s')" "p \<noteq> 0"
  shows "memory_Space s \<le> p \<and> p + sz \<le> memory_Limit s \<and> mm_inv s' \<and>
    live s' = (live s)(p \<mapsto> nblocks sz * MEMORY_BLKSIZE) \<and>
    (\<forall>q k. live s q = Some k \<longrightarrow> q \<noteq> p \<and> disj q k p sz)"
proof -
  note fit = malloc_grants_fit [OF assms]
  note ml = malloc_live [OF assms(1) fit assms(3,4)]
  have "live s' p = Some (nblocks sz * MEMORY_BLKSIZE)" using ml(2) by simp
  note lb = live_bounds [OF ml(3) this]
  obtain V where "s' = s\<lparr>memory_BlockV := V\<rparr>" using malloc_frame [OF assms(3)] by blast
  then have "memory_Space s' = memory_Space s" "memory_Limit s' = memory_Limit s" by simp_all
  with lb ml fit show ?thesis
    using heap.alloc_fresh [OF assms(1) fit assms(3,4)] nblocks_ge [of sz] by (auto simp: fits_def)
qed

theorem malloc_fresh_region_witness:
  "live mm_demo1 8192 = Some 4096 \<and> disj 8192 4096 12288 5000 \<and>
   malloc 5000 mm_demo1 = Inr (12288, mm_demo1\<lparr>memory_BlockV := place (memory_BlockV mm_demo1) 1 2\<rparr>)"
proof -
  from malloc_fresh_region [OF mm_demo1_inv _ mm_demo1_malloc] mm_demo1_live mm_demo1_malloc
  show ?thesis by simp
qed

text \<open>
  First fit, and complete: for a request that the heap could hold, \<open>malloc\<close> never
  faults; it returns null exactly when no run of free blocks is long enough, leaving the
  state alone, and otherwise the run with the lowest address.
\<close>

theorem malloc_first_fit:
  assumes "mm_inv s" "fits s sz"
  shows "case malloc sz s of
      Inl e \<Rightarrow> False
    | Inr (p, s') \<Rightarrow>
        if p = 0 then s' = s \<and> (\<nexists>b. free_run (memory_BlockV s) b (nblocks sz))
        else \<exists>b. p = memory_Space s + b * MEMORY_BLKSIZE \<and> free_run (memory_BlockV s) b (nblocks sz) \<and>
               (\<forall>j < b. \<not> free_run (memory_BlockV s) j (nblocks sz))"
proof -
  obtain p s' where m: "malloc sz s = Inr (p, s')" using malloc_total [OF assms] by blast
  show ?thesis
  proof (cases "p = 0")
    case True
    with m malloc_null [OF assms, of s'] show ?thesis by simp
  next
    case False
    from malloc_some [OF assms m False] False m show ?thesis by auto
  qed
qed

theorem malloc_first_fit_witness:
  "(\<exists>b. 12288 = memory_Space mm_demo1 + b * MEMORY_BLKSIZE \<and> free_run (memory_BlockV mm_demo1) b (nblocks 5000) \<and>
     (\<forall>j < b. \<not> free_run (memory_BlockV mm_demo1) j (nblocks 5000)))"
proof -
  have "fits mm_demo1 5000" by (simp add: fits_def mm_demo1_def mm_demo_def)
  from malloc_first_fit [OF mm_demo1_inv this] show ?thesis by (simp add: mm_demo1_malloc)
qed

text \<open>
  C3. \<open>free\<close> undoes \<open>malloc\<close> for every size up to \<open>2 ^ 32 - 4096\<close>, where the rounding does not wrap: freeing the block
  just handed out gives back the very state before the request, and the memory reported by \<open>mavail\<close> in
  between is smaller by exactly the rounded-up size.
\<close>

theorem free_malloc_roundtrip:
  assumes "mm_inv s" "sz \<le> 2 ^ 32 - 4096" "malloc sz s = Inr (p, s')" "p \<noteq> 0"
  shows "free p s' = Inr s \<and> mavail s' + nblocks sz * MEMORY_BLKSIZE = mavail s"
  using free_malloc [OF assms(1) malloc_grants_fit [OF assms] assms(3,4)] .

theorem free_malloc_roundtrip_witness:
  "free 12288 (mm_demo1\<lparr>memory_BlockV := place (memory_BlockV mm_demo1) 1 2\<rparr>) = Inr mm_demo1"
proof -
  from free_malloc_roundtrip [OF mm_demo1_inv _ mm_demo1_malloc] show ?thesis by simp
qed

text \<open>Without running off the block table, \<open>realloc\<close> answers null and changes nothing, or moves the region.\<close>

lemma realloc_moves:
  assumes "mm_inv s" "live s p = Some k" "fits s sz"
  shows "\<exists>q s'. realloc p sz s = Inr (q, s') \<and> mm_inv s' \<and>
    (if q = 0 then s' = s
     else live s' = (live s)(q \<mapsto> nblocks sz * MEMORY_BLKSIZE, p := None) \<and> live s q = None \<and>
       mread (mem s') q (min k sz) = mread (mem s) p (min k sz) \<and>
       (\<forall>r j. live s r = Some j \<longrightarrow> r \<noteq> p \<longrightarrow> mread (mem s') r j = mread (mem s) r j))"
proof -
  obtain q s' where r: "realloc p sz s = Inr (q, s')" using realloc_total [OF assms] by blast
  show ?thesis
  proof (cases "q = 0")
    case True
    with r realloc_null [OF assms, of s'] assms(1) show ?thesis by auto
  next
    case False
    note rl = realloc_live [OF assms r False]
    obtain V where s': "s' = s\<lparr>mem := ncopy (mem s) q p sz, memory_BlockV := V\<rparr>" using rl(1) by blast
    have "mread (mem s') q (min k sz) = mread (mem s) p (min k sz)"
      using rl(5) by (simp add: s' mread_ncopy_prefix disj_commute)
    moreover have "mread (mem s') r j = mread (mem s) r j" if "live s r = Some j" "r \<noteq> p" for r j
    proof -
      have "r \<noteq> q" using that rl(3) by auto
      then have "live s' r = Some j" using rl(4) that by simp
      moreover have "live s' q = Some (nblocks sz * MEMORY_BLKSIZE)" using rl(3,4) assms(2) by auto
      ultimately have "disj q (nblocks sz * MEMORY_BLKSIZE) r j"
        using live_disjoint [OF rl(2)] \<open>r \<noteq> q\<close> by blast
      then have "disj q sz r j" using nblocks_ge [of sz] assms(3) by (auto simp: disj_def fits_def)
      then show ?thesis by (simp add: s' mread_ncopy_disj)
    qed
    ultimately show ?thesis using r False rl(2,3,4) by auto
  qed
qed

text \<open>
  C4. \<open>realloc\<close> moves a live region. For every size up to \<open>2 ^ 32 - 4096\<close> (beyond that the rounding wraps, see
  \<open>malloc_oversize\<close>): a size larger than the whole heap runs off the block table; any other size returns either null
  with the state untouched, or a new region that holds the old bytes (as many as both regions have), while the
  old region is given back and no other region changes.
\<close>

theorem realloc_moves_content:
  assumes "mm_inv s" "live s p = Some k" "sz \<le> 2 ^ 32 - 4096"
  shows "if memory_BlockC s * MEMORY_BLKSIZE < sz then realloc p sz s = Inl OutOfBounds
    else \<exists>q s'. realloc p sz s = Inr (q, s') \<and> mm_inv s' \<and>
    (if q = 0 then s' = s
     else live s' = (live s)(q \<mapsto> nblocks sz * MEMORY_BLKSIZE, p := None) \<and> live s q = None \<and>
       mread (mem s') q (min k sz) = mread (mem s) p (min k sz) \<and>
       (\<forall>r j. live s r = Some j \<longrightarrow> r \<noteq> p \<longrightarrow> mread (mem s') r j = mread (mem s) r j))"
proof -
  have ok: "\<not> bad_pointer p s"
    using live_bounds [OF assms(1,2)] mm_inv_lock [OF assms(1)] by (simp add: bad_pointer_def)
  consider (big) "memory_BlockC s * MEMORY_BLKSIZE < sz" | (zero) "sz = 0" | (fit) "fits s sz"
    unfolding fits_def by linarith
  then show ?thesis
  proof cases
    case big
    then show ?thesis using ok malloc_too_big [OF assms(1) big] assms(3) by (simp add: realloc_def)
  next
    case zero
    then have "realloc p sz s = Inr (0, s)" using ok by (simp add: realloc_def malloc_def)
    then show ?thesis using zero assms(1) by simp
  next
    case fit
    then show ?thesis using realloc_moves [OF assms(1,2) fit] by (simp add: fits_def)
  qed
qed

theorem realloc_moves_content_witness:
  "realloc 8192 20000 mm_demo1 = Inl OutOfBounds \<and>
   (\<exists>q s'. realloc 8192 5000 mm_demo1 = Inr (q, s') \<and> (q = 0 \<or> mread (mem s') q 5 = [1, 2, 3, 4, 5]))"
proof -
  have big: "memory_BlockC mm_demo1 * MEMORY_BLKSIZE = 16384" by (simp add: mm_demo1_def mm_demo_def)
  have "realloc 8192 20000 mm_demo1 = Inl OutOfBounds"
    using realloc_moves_content [OF mm_demo1_inv mm_demo1_live, of 20000] unfolding big by simp
  moreover obtain q s' where r: "realloc 8192 5000 mm_demo1 = Inr (q, s')"
    and c: "q = 0 \<or> mread (mem s') q (min 4096 5000) = mread (mem mm_demo1) 8192 (min 4096 5000)"
    using realloc_moves_content [OF mm_demo1_inv mm_demo1_live, of 5000] unfolding big by (auto split: if_splits)
  have "q = 0 \<or> mread (mem s') q 5 = mread (mem mm_demo1) 8192 5"
    using c mread_take [of 5 4096 "mem s'" q] mread_take [of 5 4096 "mem mm_demo1" 8192] by auto
  moreover have "mread (mem mm_demo1) 8192 5 = [1, 2, 3, 4, 5]" by (simp add: mm_demo1_def)
  ultimately show ?thesis using r by auto
qed

text \<open>
  A request larger than the heap is not refused: the subtraction in the loop bound wraps
  around, the search goes on past the last descriptor, and the kernel reads outside the
  block table. A request in the last 4095 sizes below \<open>2 ^ 32\<close> wraps in the
  rounding instead: it is "granted" the heap's first address without reserving anything,
  and the length of the region that starts there, if there is one, is lost.
\<close>

theorem malloc_oversize:
  assumes "mm_inv s" "memory_BlockC s * MEMORY_BLKSIZE < sz" "sz \<le> 4294967295" "0 < memory_BlockC s"
  shows "malloc sz s =
    (if sz \<le> 4294963200 then Inl OutOfBounds
     else Inr (memory_Space s,
       s\<lparr>memory_BlockV := (memory_BlockV s)[0 := (memory_BlockV s ! 0)\<lparr>count := 0\<rparr>]\<rparr>))"
proof (cases "sz \<le> 4294963200")
  case True
  then show ?thesis using malloc_too_big [OF assms(1,2)] by simp
next
  case False
  have "wrap32 (sz + MEMORY_BLKSIZE - 1) = sz + 4095 - 4294967296"
    using False assms(3) unfolding wrap32_def power2_32 by (subst le_mod_geq) (auto intro: mod_less)
  then have w: "wrap32 (sz + MEMORY_BLKSIZE - 1) div MEMORY_BLKSIZE = 0"
    using False assms(3) by simp
  have "memory_Space s < 4294967296" using assms(1) by (auto simp: mm_inv_def)
  then show ?thesis
    using False assms(4) mm_inv_lock [OF assms(1)] mm_inv_length [OF assms(1)]
    unfolding malloc_def Let_def w by (simp add: find_region.simps)
qed

theorem malloc_oversize_witness:
  "malloc 20000 mm_demo1 = Inl OutOfBounds \<and>
   (\<exists>s'. malloc 4294963201 mm_demo1 = Inr (8192, s') \<and> heads (memory_BlockV s') 0 = None)"
proof -
  have big: "memory_BlockC mm_demo1 * MEMORY_BLKSIZE = 16384" by (simp add: mm_demo1_def mm_demo_def)
  have pos: "0 < memory_BlockC mm_demo1" by (simp add: mm_demo1_def mm_demo_def)
  have "malloc 20000 mm_demo1 = Inl OutOfBounds"
    using malloc_oversize [OF mm_demo1_inv _ _ pos, of 20000] big by simp
  moreover have "malloc 4294963201 mm_demo1 = Inr (memory_Space mm_demo1, mm_demo1\<lparr>memory_BlockV :=
      (memory_BlockV mm_demo1)[0 := (memory_BlockV mm_demo1 ! 0)\<lparr>count := 0\<rparr>]\<rparr>)"
    using malloc_oversize [OF mm_demo1_inv _ _ pos, of 4294963201] big by simp
  ultimately show ?thesis by (simp add: heads_def) (simp add: mm_demo1_def mm_demo_def)
qed

text \<open>
  Start-up: for a memory field of at least two descriptor-plus-block units, \<open>memory_init\<close>
  does not panic, the heap it lays out lies behind its descriptor table and inside the field,
  starts on a block boundary, is empty, and satisfies the invariant.
\<close>

theorem memory_init_establishes:
  assumes "\<not> memory_InitLock s" "8208 \<le> sz" "kl + os + sz < 4294967296"
  shows "\<exists>s'. memory_init kl os sz s = Inr s' \<and> mm_inv s' \<and> live s' = Map.empty \<and> 0 < memory_BlockC s' \<and>
    kl + os + memory_BlockC s' * sizeof_Block \<le> memory_Space s' \<and> memory_Limit s' \<le> kl + os + sz"
proof -
  have "sz < 4294967296" using assms(3) by simp
  then obtain s' where "memory_init kl os sz s = Inr s'" using memory_init_total [OF assms(1,2)] by blast
  with memory_init_layout [OF assms this] show ?thesis by blast
qed

theorem memory_init_establishes_witness:
  "\<exists>s'. memory_init 1048576 0 65536 (mm_demo\<lparr>memory_InitLock := False\<rparr>) = Inr s' \<and> mm_inv s' \<and>
    memory_Limit s' \<le> 1114112"
  using memory_init_establishes [of "mm_demo\<lparr>memory_InitLock := False\<rparr>" 65536 1048576 0] by auto

text \<open>
  C5. Any history of \<open>malloc\<close>, \<open>calloc\<close>, \<open>realloc\<close> and \<open>free\<close> calls whose sizes do not wrap in
  the rounding, with any pointers whatever passed to \<open>free\<close> and \<open>realloc\<close>, keeps the table
  well-formed: regions that are live at the end have no byte in common.
\<close>

theorem history_regions_disjoint:
  assumes "mem_run s rs s'" "mm_inv s" "list_all no_wrap rs"
    and "live s' p = Some k" "live s' q = Some j" "p \<noteq> q"
  shows "disj p k q j \<and> p + k \<le> memory_Limit s' \<and> mm_inv s'"
  using mem_run_inv [OF assms(1-3)] live_disjoint [OF _ assms(4-6)] live_bounds(2) [OF _ assms(4)] by blast

theorem history_regions_disjoint_witness:
  "mem_run mm_demo1 [Malloc 5000, Free 7] (mm_demo1\<lparr>memory_BlockV := place (memory_BlockV mm_demo1) 1 2\<rparr>) \<and>
   disj 8192 4096 12288 8192"
proof -
  let ?s = "mm_demo1\<lparr>memory_BlockV := place (memory_BlockV mm_demo1) 1 2\<rparr>"
  have "free 7 ?s = Inr ?s" by (simp add: free_def bad_pointer_def mm_demo1_def mm_demo_def)
  then have run: "mem_run mm_demo1 [Malloc 5000, Free 7] ?s"
    using mm_demo1_malloc by (blast intro: mem_run.intros mem_step.intros)
  have f: "fits mm_demo1 5000" by (simp add: fits_def mm_demo1_def mm_demo_def)
  have l: "live ?s 8192 = Some 4096" "live ?s 12288 = Some 8192"
    using malloc_live(2) [OF mm_demo1_inv f mm_demo1_malloc] mm_demo1_live by (simp_all add: nblocks_5000)
  show ?thesis
    using history_regions_disjoint [OF run mm_demo1_inv _ l] run by simp
qed

end
