(* ===== verification/Utils.thy ===== *)
theory Utils
  imports Memory "HOL-Library.Signed_Division"
begin

text \<open>
  The common utilities, \<open>source/kernel/utils.c\<close>: conversions between numbers and text, the
  formatters \<open>snprintf\<close> and \<open>printf\<close>, the tokenizer, the comparisons, the generator, cipher and
  hash, and the two clocks. A string is the list of its bytes before the NUL; a C \<open>int\<close> is an
  \<open>int\<close>, with its wrap-around written \<open>swrap32\<close>. \<open>fill\<close> and \<open>ncopy\<close> are in the prelude.
\<close>

unbundle bit_operations_syntax

section \<open>Signed 32-bit integers\<close>

definition swrap32 :: "int \<Rightarrow> int" where
  "swrap32 n = (n + 2147483648) mod 4294967296 - 2147483648"

abbreviation INT_MIN :: int where "INT_MIN \<equiv> -2147483648"
abbreviation INT_MAX :: int where "INT_MAX \<equiv> 2147483647"

lemma swrap32_id [simp]: "INT_MIN \<le> n \<Longrightarrow> n \<le> INT_MAX \<Longrightarrow> swrap32 n = n"
  by (simp add: swrap32_def)

lemma swrap32_bounds: "INT_MIN \<le> swrap32 n" "swrap32 n \<le> INT_MAX"
proof -
  have "0 \<le> (n + 2147483648) mod 4294967296" "(n + 2147483648) mod 4294967296 < 4294967296"
    by (simp_all)
  then show "INT_MIN \<le> swrap32 n" "swrap32 n \<le> INT_MAX" unfolding swrap32_def by linarith+
qed

section \<open>Numbers and text\<close>

definition bcd2dec :: "u8 \<Rightarrow> u8" where
  "bcd2dec bcd = (bcd AND 0x0F) + drop_bit 4 bcd * 10"

fun oct2bin_loop :: "cstring \<Rightarrow> nat \<Rightarrow> nat \<Rightarrow> int \<Rightarrow> int" where
  "oct2bin_loop str c 0 n = n"
| "oct2bin_loop str c (Suc len) n =
     oct2bin_loop str (Suc c) len (swrap32 (swrap32 (n * 8) + (sint (char_at str c) - 48)))"

definition oct2bin :: "cstring \<Rightarrow> nat \<Rightarrow> int" where
  "oct2bin str len = oct2bin_loop str 0 len 0"

text \<open>\<open>utils_itoa\<close> fills the 64-byte buffer from the last digit to the first; the result is the
  string in the buffer. The operators \<open>/\<close> and \<open>%\<close> of C round towards zero.\<close>

function digit_count :: "int \<Rightarrow> nat" where
  "digit_count temp = (if temp sdiv 10 = 0 then 1 else Suc (digit_count (temp sdiv 10)))"
  by pat_completeness auto
termination
proof (relation "measure (\<lambda>t. nat \<bar>t\<bar>)")
  fix t :: int
  assume "t sdiv 10 \<noteq> 0"
  then have "\<bar>t\<bar> div 10 \<noteq> 0" by (auto simp: signed_divide_int_def)
  then have "\<bar>t\<bar> div 10 < \<bar>t\<bar>" "0 \<le> \<bar>t\<bar> div 10" by (auto intro!: int_div_less_self)
  moreover have "\<bar>t sdiv 10\<bar> = \<bar>t\<bar> div 10"
    by (auto simp: signed_divide_int_def abs_mult sgn_if)
  ultimately show "(t sdiv 10, t) \<in> measure (\<lambda>t. nat \<bar>t\<bar>)" by simp
qed simp

declare digit_count.simps [simp del]

fun itoa_loop :: "bool \<Rightarrow> nat \<Rightarrow> int \<Rightarrow> u8 list \<Rightarrow> u8 list" where
  "itoa_loop is_negative 0 num buf = buf"
| "itoa_loop is_negative (Suc i) num buf =
     (if is_negative \<and> i = 0 then itoa_loop is_negative i num (buf[i := 45])
      else itoa_loop is_negative i (num sdiv 10) (buf[i := of_int (num smod 10) + 48]))"

definition c_string :: "u8 list \<Rightarrow> cstring" where
  "c_string buf = takeWhile (\<lambda>c. c \<noteq> 0) buf"

definition itoa :: "int \<Rightarrow> cstring" where
  "itoa num =
     (let is_negative = num < 0;
          num' = (if is_negative then swrap32 (- num) else num);
          count = digit_count num + (if is_negative then 1 else 0)
      in c_string (itoa_loop is_negative count num' ((replicate 64 0)[count := 0])))"

function xtoa_loop :: "u32 \<Rightarrow> cstring \<Rightarrow> cstring" where
  "xtoa_loop num buf =
     (if num = 0 then buf
      else let remainder = num mod 16;
               c = (if remainder < 10 then ucast remainder + 48 else ucast (remainder - 10) + 65)
           in xtoa_loop (num div 16) (buf @ [c]))"
  by pat_completeness auto
termination
  by (relation "measure (\<lambda>(num, buf). unat num)")
    (auto simp: unat_div_distrib word_gt_0 [symmetric] unat_gt_0 intro!: div_less_dividend)

declare xtoa_loop.simps [simp del]

text \<open>The loop that swaps the bytes \<open>j\<close> and \<open>i - j - 1\<close>, for \<open>j\<close> below \<open>i / 2\<close>.\<close>

fun swap_loop :: "nat \<Rightarrow> nat \<Rightarrow> nat \<Rightarrow> 'b list \<Rightarrow> 'b list" where
  "swap_loop i j 0 buf = buf"
| "swap_loop i j (Suc k) buf =
     swap_loop i (Suc j) k (buf[j := buf ! (i - j - 1), i - j - 1 := buf ! j])"

definition xtoa :: "u32 \<Rightarrow> cstring" where
  "xtoa num =
     (if num = 0 then [48]
      else let buf = xtoa_loop num [] in swap_loop (length buf) 0 (length buf div 2) buf)"

fun atoi_blanks :: "cstring \<Rightarrow> cstring" where
  "atoi_blanks (c # s) = (if c = 32 then atoi_blanks s else c # s)"
| "atoi_blanks [] = []"

fun atoi_loop :: "cstring \<Rightarrow> int \<Rightarrow> int" where
  "atoi_loop (c # s) result =
     (if 48 \<le> sint c \<and> sint c \<le> 57
      then atoi_loop s (swrap32 (swrap32 (result * 10) + (sint c - 48))) else result)"
| "atoi_loop [] result = result"

definition atoi :: "cstring \<Rightarrow> int" where
  "atoi str =
     (case atoi_blanks str of
        [] \<Rightarrow> 0
      | c # s \<Rightarrow> if c = 45 then swrap32 (- atoi_loop s 0)
                else if c = 43 then atoi_loop s 0
                else atoi_loop (c # s) 0)"

subsection \<open>Decimal\<close>

text \<open>The decimal and hexadecimal notation of a number, as a specification.\<close>

fun dec :: "nat \<Rightarrow> cstring" where
  "dec n = (if n < 10 then [of_nat (48 + n)] else dec (n div 10) @ [of_nat (48 + n mod 10)])"

declare dec.simps [simp del]

lemma dec_small: "n < 10 \<Longrightarrow> dec n = [of_nat (48 + n)]"
  by (subst dec.simps) simp

lemma dec_big: "\<not> n < 10 \<Longrightarrow> dec n = dec (n div 10) @ [of_nat (48 + n mod 10)]"
  by (subst dec.simps) simp

lemma dec_not_Nil [simp]: "dec n \<noteq> []"
  by (cases "n < 10") (simp_all add: dec_small dec_big)

lemma dec_digits: "c \<in> set (dec n) \<Longrightarrow> \<exists>d<10. c = of_nat (48 + d)"
proof (induction n rule: dec.induct)
  case (1 n)
  show ?case
  proof (cases "n < 10")
    case True
    with 1(2) show ?thesis by (auto simp: dec_small)
  next
    case False
    with 1(2) consider "c \<in> set (dec (n div 10))" | "c = of_nat (48 + n mod 10)"
      by (auto simp: dec_big)
    then show ?thesis
    proof cases
      case 1
      with False \<open>\<not> n < 10 \<Longrightarrow> c \<in> set (dec (n div 10)) \<Longrightarrow> _\<close> show ?thesis by blast
    next
      case 2
      then show ?thesis by (intro exI [of _ "n mod 10"]) simp
    qed
  qed
qed

lemma sint_digit: "d < 10 \<Longrightarrow> sint (of_nat (48 + d) :: u8) = 48 + int d"
proof -
  assume "d < 10"
  then have "d \<in> {0,1,2,3,4,5,6,7,8,9}" by auto
  then show ?thesis by (elim insertE) simp_all
qed

lemma unat_digit: "d < 10 \<Longrightarrow> unat (of_nat (48 + d) :: u8) = 48 + d"
  by (subst unat_of_nat_u8) simp

lemma dec_sint: "c \<in> set (dec n) \<Longrightarrow> 48 \<le> sint c \<and> sint c \<le> 57"
  using dec_digits [of c n] sint_digit by fastforce

lemma length_dec: "n < 10 ^ k \<Longrightarrow> 0 < k \<Longrightarrow> length (dec n) \<le> k"
proof (induction n arbitrary: k rule: dec.induct)
  case (1 n)
  show ?case
  proof (cases "n < 10")
    case True
    with 1(3) show ?thesis by (simp add: dec_small)
  next
    case False
    then obtain j where j: "k = Suc j" "0 < j"
      using 1(2,3) by (cases k; cases "k = 1") auto
    then have "n div 10 < 10 ^ j" using 1(2) by (simp add: less_mult_imp_div_less mult.commute)
    from 1(1) [OF False this j(2)] show ?thesis using False j by (simp add: dec_big)
  qed
qed

lemma digit_count_eq: "digit_count t = length (dec (nat \<bar>t\<bar>))"
proof (induction t rule: digit_count.induct)
  case (1 t)
  have abs: "nat \<bar>t sdiv 10\<bar> = nat \<bar>t\<bar> div 10"
    by (auto simp: signed_divide_int_def abs_mult sgn_if nat_div_distrib)
  show ?case
  proof (cases "t sdiv 10 = 0")
    case True
    then have "nat \<bar>t\<bar> < 10" using abs by simp
    then show ?thesis using True by (subst digit_count.simps) (simp add: dec_small)
  next
    case False
    then have "\<not> nat \<bar>t\<bar> < 10" using abs by auto
    then show ?thesis using False 1 abs by (subst digit_count.simps) (simp add: dec_big)
  qed
qed

lemma sdivmod_10: "int m sdiv 10 = int (m div 10)" "int m smod 10 = int (m mod 10)"
  by (simp_all add: signed_divide_int_def signed_modulo_int_def zdiv_int zmod_int
      minus_div_mult_eq_mod sgn_if)

lemma itoa_loop_step: "itoa_loop neg (Suc i) (int m) buf =
   (if neg \<and> i = 0 then buf[0 := 45]
    else itoa_loop neg i (int (m div 10)) (buf[i := of_nat (48 + m mod 10)]))"
  by (auto simp: sdivmod_10 add.commute)

lemma itoa_loop_dec:
  assumes "o' = (if neg then 1 else 0)" "o' + length (dec m) \<le> length buf"
  shows "itoa_loop neg (o' + length (dec m)) (int m) buf =
    (if neg then [45] else []) @ dec m @ drop (o' + length (dec m)) buf"
  using assms(2)
proof (induction m arbitrary: buf rule: dec.induct)
  case (1 m)
  let ?d = "of_nat (48 + m mod 10)"
  show ?case
  proof (cases "m < 10")
    case True
    then have "itoa_loop neg (Suc o') (int m) buf = itoa_loop neg o' 0 (buf[o' := ?d])"
      using assms(1) itoa_loop_step [of neg o' m buf] by simp
    moreover have "itoa_loop neg o' 0 (buf[o' := ?d]) = (if neg then [45] else []) @ ?d # drop (Suc o') buf"
      using 1(2) True assms(1) by (cases buf; cases "tl buf") (auto simp: dec_small)
    ultimately show ?thesis using True by (simp add: dec_small)
  next
    case False
    let ?l = "length (dec (m div 10))"
    have len: "length (dec m) = Suc ?l" using False by (simp add: dec_big)
    have "0 < o' + ?l" by simp
    then have "itoa_loop neg (o' + length (dec m)) (int m) buf =
        itoa_loop neg (o' + ?l) (int (m div 10)) (buf[o' + ?l := ?d])"
      using itoa_loop_step [of neg "o' + ?l" m buf] len by auto
    also have "\<dots> = (if neg then [45] else []) @ dec (m div 10) @ drop (o' + ?l) (buf[o' + ?l := ?d])"
      using 1(2) len by (intro 1(1) [OF False]) simp
    also have "drop (o' + ?l) (buf[o' + ?l := ?d]) = ?d # drop (o' + length (dec m)) buf"
      using 1(2) len by (simp add: drop_update_swap Cons_nth_drop_Suc [symmetric])
    finally show ?thesis using False by (simp add: dec_big)
  qed
qed

lemma c_string_append: "0 \<notin> set xs \<Longrightarrow> c_string (xs @ 0 # ys) = xs"
  by (induction xs) (auto simp: c_string_def)

lemma c_string_clean: "0 \<notin> set xs \<Longrightarrow> c_string xs = xs"
  unfolding c_string_def by (rule takeWhile_eq_all_conv [THEN iffD2]) metis

lemma dec_no_nul: "0 \<notin> set (dec n)"
  using dec_sint [of 0 n] by auto

lemma itoa_eq:
  assumes "INT_MIN < n" "n \<le> INT_MAX"
  shows "itoa n = (if n < 0 then 45 # dec (nat (- n)) else dec (nat n))"
proof -
  define m where "m = nat \<bar>n\<bar>"
  define neg where "neg = (n < 0)"
  define o' :: nat where "o' = (if neg then 1 else 0)"
  have num: "(if neg then swrap32 (- n) else n) = int m" using assms by (auto simp: m_def neg_def)
  have "m < 10 ^ 10" using assms by (auto simp: m_def)
  then have len: "length (dec m) \<le> 10" by (rule length_dec) simp
  let ?buf = "(replicate 64 0)[o' + length (dec m) := 0] :: u8 list"
  have "itoa n = c_string (itoa_loop neg (o' + length (dec m)) (int m) ?buf)"
    using num unfolding itoa_def digit_count_eq Let_def m_def [symmetric] neg_def [symmetric] o'_def
    by (simp add: add.commute)
  also have "itoa_loop neg (o' + length (dec m)) (int m) ?buf
      = (if neg then [45] else []) @ dec m @ drop (o' + length (dec m)) ?buf"
    using len by (intro itoa_loop_dec) (auto simp: o'_def)
  also have "\<dots> = ((if neg then [45] else []) @ dec m) @ 0 # drop (Suc (o' + length (dec m))) ?buf"
    using len by (simp add: o'_def Cons_nth_drop_Suc [symmetric])
  also have "c_string \<dots> = (if neg then [45] else []) @ dec m"
    using dec_no_nul by (intro c_string_append) auto
  finally show ?thesis by (auto simp: m_def neg_def)
qed

lemma atoi_loop_append:
  "(\<And>c. c \<in> set xs \<Longrightarrow> 48 \<le> sint c \<and> sint c \<le> 57) \<Longrightarrow> atoi_loop (xs @ ys) r = atoi_loop ys (atoi_loop xs r)"
  by (induction xs arbitrary: r) auto

lemma atoi_loop_dec: "int n \<le> INT_MAX \<Longrightarrow> atoi_loop (dec n) 0 = int n"
proof (induction n rule: dec.induct)
  case (1 n)
  show ?case
  proof (cases "n < 10")
    case True
    then show ?thesis using sint_digit [of n] by (simp add: dec_small del: of_nat_add)
  next
    case False
    have d: "n mod 10 < 10" by simp
    have "int n = int (n div 10 * 10 + n mod 10)" by simp
    then have eq: "int (n div 10) * 10 + int (n mod 10) = int n"
      by (simp only: of_nat_add of_nat_mult of_nat_numeral)
    have small: "int (n div 10) \<le> INT_MAX" using 1(2) by linarith
    have "atoi_loop (dec n) 0 = atoi_loop [of_nat (48 + n mod 10)] (int (n div 10))"
      using False 1(1) [OF False small] dec_sint by (simp add: dec_big atoi_loop_append del: of_nat_add)
    also have "\<dots> = int (n div 10) * 10 + int (n mod 10)"
    proof -
      from eq have le: "int (n div 10) * 10 \<le> int n" by linarith
      have "swrap32 (int (n div 10) * 10) = int (n div 10) * 10"
        by (rule swrap32_id) (use le 1(2) in linarith)+
      moreover have "swrap32 (int (n div 10) * 10 + int (n mod 10)) = int (n div 10) * 10 + int (n mod 10)"
        unfolding eq by (rule swrap32_id) (use 1(2) in linarith)+
      ultimately show ?thesis using sint_digit [OF d] d by (simp del: of_nat_add)
    qed
    also have "\<dots> = int n" by (rule eq)
    finally show ?thesis .
  qed
qed

lemma dec_head: "\<exists>c s. dec n = c # s \<and> c \<noteq> 32 \<and> c \<noteq> 45 \<and> c \<noteq> 43"
proof -
  obtain c s where c: "dec n = c # s" by (cases "dec n") auto
  then have "48 \<le> sint c" using dec_sint [of c n] by simp
  then have "c \<noteq> 32 \<and> c \<noteq> 45 \<and> c \<noteq> 43" by auto
  with c show ?thesis by blast
qed

subsection \<open>Hexadecimal\<close>

definition hexdigit :: "nat \<Rightarrow> u8" where
  "hexdigit d = (if d < 10 then of_nat (48 + d) else of_nat (55 + d))"

fun hexs :: "nat \<Rightarrow> cstring" where
  "hexs n = (if n < 16 then [hexdigit n] else hexs (n div 16) @ [hexdigit (n mod 16)])"

declare hexs.simps [simp del]

definition hexval :: "u8 \<Rightarrow> nat" where
  "hexval c = (if unat c < 58 then unat c - 48 else unat c - 55)"

definition read_hex :: "cstring \<Rightarrow> nat" where
  "read_hex s = foldl (\<lambda>v c. 16 * v + hexval c) 0 s"

lemma hexval_hexdigit: "d < 16 \<Longrightarrow> hexval (hexdigit d) = d"
  by (auto simp: hexval_def hexdigit_def unat_of_nat_u8 simp del: of_nat_add)

lemma read_hex_hexs: "read_hex (hexs n) = n"
proof (induction n rule: hexs.induct)
  case (1 n)
  then show ?case
    by (subst hexs.simps) (auto simp: read_hex_def hexval_hexdigit)
qed

lemma swap_loop_eq:
  "j + k = length buf div 2 \<Longrightarrow> length buf = n \<Longrightarrow>
   swap_loop n j k buf = map (\<lambda>i. if j \<le> i \<and> i < n - j then buf ! (n - 1 - i) else buf ! i) [0..<n]"
proof (induction n j k buf rule: swap_loop.induct)
  case (1 n j buf)
  have "buf ! i = buf ! (n - 1 - i)" if "j \<le> i" "i < n - j" for i
  proof -
    have "i = n - 1 - i" using that 1 by auto
    then show ?thesis by simp
  qed
  then show ?case using 1 by (auto intro!: nth_equalityI)
next
  case (2 n j k buf)
  let ?b = "buf[j := buf ! (n - j - 1), n - j - 1 := buf ! j]"
  have "swap_loop n j (Suc k) buf = swap_loop n (Suc j) k ?b" by simp
  also have "\<dots> = map (\<lambda>i. if Suc j \<le> i \<and> i < n - Suc j then ?b ! (n - 1 - i) else ?b ! i) [0..<n]"
    using "2.prems" by (intro "2.IH") auto
  also have "\<dots> = map (\<lambda>i. if j \<le> i \<and> i < n - j then buf ! (n - 1 - i) else buf ! i) [0..<n]"
  proof (rule map_cong [OF refl])
    fix i assume "i \<in> set [0..<n]"
    then have i: "i < n" by simp
    have jn: "j < n - j - 1" using "2.prems" by auto
    consider "i = j" | "i = n - j - 1" | "i < j" | "n - j - 1 < i" | "Suc j \<le> i \<and> i < n - j - 1" by linarith
    then show "(if Suc j \<le> i \<and> i < n - Suc j then ?b ! (n - 1 - i) else ?b ! i) =
        (if j \<le> i \<and> i < n - j then buf ! (n - 1 - i) else buf ! i)"
      by cases (use i jn "2.prems" in \<open>auto simp: nth_list_update\<close>)
  qed
  finally show ?case .
qed

lemma swap_loop_rev: "swap_loop (length buf) 0 (length buf div 2) buf = rev buf"
  by (subst swap_loop_eq) (auto simp: rev_nth intro!: nth_equalityI)

lemma nat_less_16: "n < 16 \<Longrightarrow> n \<in> {0,1,2,3,4,5,6,7,8,9,10,11,12,13,14,15::nat}"
  unfolding insert_iff empty_iff by presburger

lemma hex_char: "(num :: u32) \<noteq> 0 \<Longrightarrow>
   (if num mod 16 < 10 then ucast (num mod 16) + 48 else ucast (num mod 16 - 10) + 65) = hexdigit (unat num mod 16)"
proof -
  have "unat (num mod 16) = unat num mod 16" by (simp add: unat_mod_distrib)
  then have e: "num mod 16 = of_nat (unat num mod 16)" using word_arith_nat_mod [of num 16] by simp
  have "unat num mod 16 \<in> {0,1,2,3,4,5,6,7,8,9,10,11,12,13,14,15}"
    by (rule nat_less_16) simp
  then show ?thesis unfolding e by (elim insertE) (simp_all add: hexdigit_def)
qed

lemma xtoa_loop_eq: "num \<noteq> 0 \<Longrightarrow> xtoa_loop num buf = buf @ rev (hexs (unat num))"
proof (induction num buf rule: xtoa_loop.induct)
  case (1 num buf)
  have div: "unat (num div 16) = unat num div 16" by (simp add: unat_div_distrib)
  have "xtoa_loop num buf = xtoa_loop (num div 16) (buf @ [hexdigit (unat num mod 16)])"
    using 1(2) by (subst xtoa_loop.simps) (simp only: Let_def hex_char [OF 1(2)] if_False)
  also have "\<dots> = buf @ rev (hexs (unat num))"
  proof (cases "num div 16 = 0")
    case True
    then have "unat num < 16" using div by (simp add: div_eq_0_iff)
    then show ?thesis using True by (simp add: xtoa_loop.simps [of 0] hexs.simps [of "unat num"])
  next
    case False
    then have "unat num div 16 \<noteq> 0" using div by (metis unat_eq_zero)
    then have "\<not> unat num < 16" by simp
    moreover have "xtoa_loop (num div 16) (buf @ [hexdigit (unat num mod 16)]) =
        (buf @ [hexdigit (unat num mod 16)]) @ rev (hexs (unat (num div 16)))"
      using 1(1) [OF 1(2) refl refl False] hex_char [OF 1(2)] by simp
    ultimately show ?thesis by (simp add: div hexs.simps [of "unat num"])
  qed
  finally show ?case .
qed

lemma xtoa_eq: "xtoa num = hexs (unat num)"
  by (simp add: xtoa_def Let_def swap_loop_rev xtoa_loop_eq hexs.simps [of 0] hexdigit_def)

section \<open>Generator, cipher and hash\<close>

definition xorshift32 :: "u32 \<Rightarrow> u32" where
  "xorshift32 seed =
     (let seed1 = seed XOR push_bit 21 seed;
          seed2 = seed1 XOR drop_bit 31 seed1;
          seed3 = seed2 XOR push_bit 4 seed2
      in seed3 * 2685821657736338717)"

fun fnv1ahash_loop :: "u8 list \<Rightarrow> u32 \<Rightarrow> u32" where
  "fnv1ahash_loop [] hash = hash"
| "fnv1ahash_loop (b # data) hash = fnv1ahash_loop data ((hash XOR ucast b) * 0x01000193)"

definition fnv1ahash :: "u8 list \<Rightarrow> u32" where
  "fnv1ahash data = fnv1ahash_loop data 0x811C9DC5"

text \<open>\<open>xorcipher\<close> works in place; its lengths are those of the C strings in the two buffers.\<close>

fun xorcipher_loop :: "u8 list \<Rightarrow> cstring \<Rightarrow> nat \<Rightarrow> nat \<Rightarrow> u8 list res" where
  "xorcipher_loop input key i 0 = Inr input"
| "xorcipher_loop input key i (Suc k) =
     checkR (length key \<noteq> 0) DivByZero
       (xorcipher_loop (input[i := input ! i XOR key ! (i mod length key)]) key (Suc i) k)"

definition xorcipher :: "u8 list \<Rightarrow> cstring \<Rightarrow> u8 list res" where
  "xorcipher input key = xorcipher_loop input key 0 (length (c_string input))"

section \<open>The unbounded copy\<close>

text \<open>\<open>copy\<close> has no length: the loop ends at the terminator of the source, which it may itself overwrite.\<close>

partial_function (option) copy_loop :: "mem \<Rightarrow> addr \<Rightarrow> addr \<Rightarrow> mem option" where
  "copy_loop m dest src =
     (if m src \<noteq> 0 then copy_loop (m(dest := m src)) (dest + 1) (src + 1) else Some (m(dest := 0)))"

definition copy :: "mem \<Rightarrow> addr \<Rightarrow> addr \<Rightarrow> (addr \<times> mem) res" where
  "copy m dest src =
     (case copy_loop m dest src of None \<Rightarrow> Inl Diverges | Some m' \<Rightarrow> Inr (dest, m'))"

text \<open>A string of \<open>n\<close> characters before its terminator.\<close>

definition string_at :: "mem \<Rightarrow> addr \<Rightarrow> nat \<Rightarrow> bool" where
  "string_at m s n \<longleftrightarrow> 0 \<notin> set (mread m s n) \<and> m (s + n) = 0"

lemma string_at_Suc: "string_at m s (Suc n) \<longleftrightarrow> m s \<noteq> 0 \<and> string_at m (Suc s) n"
  by (auto simp: string_at_def mread_Suc)

text \<open>A destination inside the source string: the characters between the two pointers are repeated and the
  terminator is never reached.\<close>

lemma copy_loop_overlap:
  assumes "copy_loop m d s = Some m'"
  shows "s < d \<Longrightarrow> 0 \<notin> set (mread m s (d - s)) \<Longrightarrow> False"
proof (rule copy_loop.raw_induct [where P = "\<lambda>m d s m'. s < d \<longrightarrow> 0 \<notin> set (mread m s (d - s)) \<longrightarrow> False", OF _ assms, rule_format])
  fix loop m d s m'
  assume IH: "\<And>m d s m'. loop m d s = Some m' \<Longrightarrow> s < d \<Longrightarrow> 0 \<notin> set (mread m s (d - s)) \<Longrightarrow> False"
    and eq: "(if m s \<noteq> 0 then loop (m(d := m s)) (d + 1) (s + 1) else Some (m(d := 0))) = Some m'"
    and lt: "s < d" and nz: "0 \<notin> set (mread m s (d - s))"
  have z: "m x \<noteq> 0" if "s \<le> x" "x < d" for x
  proof -
    have "m (s + (x - s)) \<in> set (mread m s (d - s))" using that by (auto simp: mread_def intro!: image_eqI [of _ _ "x - s"])
    then show ?thesis using nz that by auto
  qed
  then have "m s \<noteq> 0" using lt by simp
  moreover have "0 \<notin> set (mread (m(d := m s)) (s + 1) (d + 1 - (s + 1)))"
  proof -
    have "(m(d := m s)) (s + 1 + i) \<noteq> 0" if "i < d - s" for i
      using that z [of "s + 1 + i"] \<open>m s \<noteq> 0\<close> by (cases "s + 1 + i = d") auto
    then show ?thesis by (auto simp: in_set_conv_nth simp del: fun_upd_apply)
  qed
  ultimately show False using IH [of "m(d := m s)" "d + 1" "s + 1" m'] eq lt by simp
qed simp_all

lemma copy_loop_apart:
  "string_at m s n \<Longrightarrow> d \<le> s \<or> s + n < d \<Longrightarrow> copy_loop m d s = Some (mwrite m d (mread m s (Suc n)))"
proof (induction n arbitrary: m d s)
  case 0
  then show ?case
    by (subst copy_loop.simps) (auto simp: string_at_def mread_Suc mwrite_def fun_eq_iff)
next
  case (Suc n)
  have h: "m s \<noteq> 0" "string_at m (Suc s) n" using Suc.prems by (simp_all add: string_at_Suc)
  let ?m = "m(d := m s)"
  have r: "mread ?m (Suc s) k = mread m (Suc s) k" if "k \<le> Suc n" for k
    using Suc.prems(2) that by (intro mread_cong) auto
  have "?m (Suc s + n) = m (Suc s + n)" using Suc.prems(2) by auto
  then have s: "string_at ?m (Suc s) n" using h(2) r [of n] by (simp only: string_at_def) simp
  have "Suc d \<le> Suc s \<or> Suc s + n < Suc d" using Suc.prems(2) by auto
  then have "copy_loop ?m (Suc d) (Suc s) = Some (mwrite ?m (Suc d) (mread ?m (Suc s) (Suc n)))"
    using Suc.IH [OF s] by blast
  moreover have "copy_loop m d s = copy_loop ?m (Suc d) (Suc s)"
    by (subst copy_loop.simps) (simp only: h(1) if_True not_False_eq_True simp_thms Suc_eq_plus1)
  moreover have "mwrite ?m (Suc d) xs = mwrite m d (m s # xs)" for xs
    by (auto simp: mwrite_def fun_eq_iff nth_Cons' Suc_diff_Suc)
  ultimately show ?case using r [of "Suc n"] by (simp only: mread_Suc [of m s])
qed

section \<open>Comparison\<close>

fun compare :: "cstring \<Rightarrow> cstring \<Rightarrow> int" where
  "compare [] [] = 0"
| "compare [] (d # t) = - uint d"
| "compare (c # s) [] = uint c"
| "compare (c # s) (d # t) = (if c = d then compare s t else uint c - uint d)"

fun ncompare_loop :: "mem \<Rightarrow> addr \<Rightarrow> addr \<Rightarrow> nat \<Rightarrow> nat \<Rightarrow> int" where
  "ncompare_loop m p1 p2 i 0 = 0"
| "ncompare_loop m p1 p2 i (Suc k) =
     (if m (p1 + i) \<noteq> m (p2 + i) then uint (m (p1 + i)) - uint (m (p2 + i))
      else ncompare_loop m p1 p2 (Suc i) k)"

definition ncompare :: "mem \<Rightarrow> addr \<Rightarrow> addr \<Rightarrow> nat \<Rightarrow> int" where
  "ncompare m p1 p2 len = ncompare_loop m p1 p2 0 len"

text \<open>On two strings \<open>ncompare\<close> looks at their first \<open>len\<close> bytes, terminators included.\<close>

fun sncompare :: "cstring \<Rightarrow> cstring \<Rightarrow> nat \<Rightarrow> int" where
  "sncompare s t 0 = 0"
| "sncompare s t (Suc k) =
     (if char_at s 0 \<noteq> char_at t 0 then uint (char_at s 0) - uint (char_at t 0)
      else sncompare (drop 1 s) (drop 1 t) k)"

lemma uint_u8_eq [simp]: "uint (a :: u8) = uint b \<longleftrightarrow> a = b"
  by (simp add: word_uint_eq_iff)

lemma compare_eq_0: "is_cstr s \<Longrightarrow> is_cstr t \<Longrightarrow> compare s t = 0 \<longleftrightarrow> s = t"
  by (induction s t rule: compare.induct) (auto simp: is_cstr_def simp flip: uint_0_iff)

lemma ncompare_loop_eq_0: "ncompare_loop m p q i k = 0 \<longleftrightarrow> (\<forall>j<k. m (p + i + j) = m (q + i + j))"
  by (induction k arbitrary: i) (auto simp: All_less_Suc2)

lemma ncompare_eq_0: "ncompare m p q n = 0 \<longleftrightarrow> mread m p n = mread m q n"
  by (auto simp: ncompare_def ncompare_loop_eq_0 mread_def)

lemma char_at_drop: "char_at (drop n s) i = char_at s (n + i)"
  by (auto simp: char_at_def)

lemma sncompare_eq_0_all: "sncompare s t k = 0 \<longleftrightarrow> (\<forall>j<k. char_at s j = char_at t j)"
proof (induction s t k rule: sncompare.induct)
  case (2 s t k)
  then show ?case by (auto simp: All_less_Suc2 char_at_drop)
qed simp

lemma sncompare_eq_0:
  "is_cstr s \<Longrightarrow> is_cstr t \<Longrightarrow> k \<le> length s \<Longrightarrow> sncompare s t k = 0 \<longleftrightarrow> take k s = take k t"
proof -
  assume a: "is_cstr s" "is_cstr t" "k \<le> length s"
  have "(\<forall>j<k. char_at s j = char_at t j) \<longleftrightarrow> take k s = take k t" (is "?l \<longleftrightarrow> ?r")
  proof
    assume l: ?l
    have "k \<le> length t"
    proof (rule ccontr)
      assume n: "\<not> k \<le> length t"
      then have "char_at s (length t) = 0" using l by (simp add: char_at_def)
      moreover have "length t < length s" using n a(3) by simp
      ultimately have "0 \<in> set s" by (metis char_at_def nth_mem)
      with a(1) show False by (simp add: is_cstr_def)
    qed
    then show ?r using l a(3) by (intro nth_equalityI) (auto simp: char_at_def)
  next
    assume r: ?r
    have "length (take k s) = k" using a(3) by simp
    then have "k \<le> length t" using r by (metis length_take min.cobounded1 min_def nle_le)
    then show ?l using r a(3) by (auto simp: char_at_def) (metis nth_take)
  qed
  then show ?thesis by (simp add: sncompare_eq_0_all)
qed

subsection \<open>The generator and the hash lose nothing\<close>

lemma xor_push_inj:
  assumes "0 < k" "x XOR push_bit k x = y XOR push_bit k (y :: u32)"
  shows "x = y"
proof (rule bit_word_eqI)
  fix i assume "i < LENGTH(32)"
  then show "bit x i = bit y i"
  proof (induction i rule: less_induct)
    case (less i)
    have "bit (x XOR push_bit k x) i = bit (y XOR push_bit k y) i" using assms(2) by simp
    moreover have "bit x (i - k) = bit y (i - k)" if "k \<le> i"
      using less that assms(1) by simp
    ultimately show ?case using less.prems by (auto simp: bit_xor_iff bit_push_bit_iff)
  qed
qed

lemma xor_drop_inj:
  assumes "0 < k" "x XOR drop_bit k x = y XOR drop_bit k (y :: u32)"
  shows "x = y"
proof (rule bit_word_eqI)
  fix i assume "i < LENGTH(32)"
  then show "bit x i = bit y i"
  proof (induction "32 - i" arbitrary: i rule: less_induct)
    case less
    have "bit (x XOR drop_bit k x) i = bit (y XOR drop_bit k y) i" using assms(2) by simp
    moreover have "bit x (k + i) = bit y (k + i)"
    proof (cases "k + i < 32")
      case True
      with assms(1) show ?thesis by (intro less.hyps) auto
    next
      case False
      then show ?thesis using bit_imp_le_length [of x "k + i"] bit_imp_le_length [of y "k + i"] by auto
    qed
    ultimately show ?case by (auto simp: bit_xor_iff bit_drop_bit_eq)
  qed
qed

lemma mult_unit_inj: "c * d = 1 \<Longrightarrow> x * c = y * c \<Longrightarrow> x = (y :: u32)"
proof -
  assume c: "c * d = 1" and e: "x * c = y * c"
  have "x = x * (c * d)" unfolding c by simp
  also have "\<dots> = y * (c * d)" unfolding mult.assoc [symmetric] e ..
  also have "\<dots> = y" unfolding c by simp
  finally show ?thesis .
qed

lemma xorshift32_inj: "inj xorshift32"
proof (rule injI)
  fix x y :: u32
  have c: "(2685821657736338717 :: u32) * 3625897269 = 1" by simp
  assume "xorshift32 x = xorshift32 y"
  then have 1: "v XOR push_bit 4 v = w XOR push_bit 4 w"
    if "v = u XOR drop_bit 31 u" "w = t XOR drop_bit 31 t" "u = x XOR push_bit 21 x" "t = y XOR push_bit 21 y"
    for t u v w
    unfolding xorshift32_def Let_def that by (rule mult_unit_inj [OF c])
  from xor_push_inj [OF _ 1 [OF refl refl refl refl]]
  have "(x XOR push_bit 21 x) XOR drop_bit 31 (x XOR push_bit 21 x) =
      (y XOR push_bit 21 y) XOR drop_bit 31 (y XOR push_bit 21 y)" by simp
  from xor_drop_inj [OF _ this] have "x XOR push_bit 21 x = y XOR push_bit 21 y" by simp
  then show "x = y" by (rule xor_push_inj [rotated]) simp
qed

lemma fnv_step_inj: "(h XOR b) * 0x01000193 = (g XOR b) * 0x01000193 \<Longrightarrow> h = (g :: u32)"
proof -
  have c: "(0x01000193 :: u32) * 0x359C449B = 1" by simp
  assume "(h XOR b) * 0x01000193 = (g XOR b) * 0x01000193"
  then have "h XOR b = g XOR b" by (rule mult_unit_inj [OF c])
  then have "(h XOR b) XOR b = (g XOR b) XOR b" by simp
  then show ?thesis by (simp only: xor.assoc xor_self_eq xor.right_neutral)
qed

lemma fnv_byte_inj: "(h XOR ucast (b :: u8)) * 0x01000193 = (h XOR ucast (c :: u8)) * 0x01000193 \<Longrightarrow> b = (c :: u8)"
  for h :: u32
proof -
  have u: "(0x01000193 :: u32) * 0x359C449B = 1" by simp
  assume "(h XOR ucast b) * 0x01000193 = (h XOR ucast c) * 0x01000193"
  then have "h XOR ucast b = h XOR ucast c" by (rule mult_unit_inj [OF u])
  then have "h XOR (h XOR ucast b) = h XOR (h XOR ucast c)" by simp
  then have "(ucast b :: u32) = ucast c"
    by (simp only: xor.assoc [symmetric] xor_self_eq xor.left_neutral)
  then have "(ucast (ucast b :: u32) :: u8) = ucast (ucast c :: u32)" by simp
  then show ?thesis by (simp add: unsigned_ucast_eq take_bit_word_beyond_length_eq)
qed

lemma fnv_loop_append: "fnv1ahash_loop (xs @ ys) h = fnv1ahash_loop ys (fnv1ahash_loop xs h)"
  by (induction xs arbitrary: h) auto

lemma fnv_loop_inj: "fnv1ahash_loop ys h = fnv1ahash_loop ys g \<Longrightarrow> h = g"
  by (induction ys arbitrary: h g) (auto dest: fnv_step_inj)

subsection \<open>The cipher\<close>

lemma xorcipher_loop_eq:
  "key \<noteq> [] \<Longrightarrow> i + k \<le> length input \<Longrightarrow>
   xorcipher_loop input key i k =
     Inr (map (\<lambda>j. if i \<le> j \<and> j < i + k then input ! j XOR key ! (j mod length key) else input ! j)
           [0..<length input])"
proof (induction input key i k rule: xorcipher_loop.induct)
  case (1 input key i)
  then show ?case by (auto intro!: nth_equalityI)
next
  case (2 input key i k)
  then show ?case by (auto intro!: nth_equalityI simp: nth_list_update)
qed

definition cipher_bytes :: "cstring \<Rightarrow> cstring \<Rightarrow> cstring" where
  "cipher_bytes text key = map (\<lambda>j. text ! j XOR key ! (j mod length key)) [0..<length text]"

lemma length_cipher_bytes [simp]: "length (cipher_bytes t k) = length t"
  by (simp add: cipher_bytes_def)

lemma xorcipher_eq:
  assumes "key \<noteq> []" "is_cstr text"
  shows "xorcipher (text @ 0 # rest) key = Inr (cipher_bytes text key @ 0 # rest)"
proof -
  have l: "length (c_string (text @ 0 # rest)) = length text"
    using assms(2) by (simp add: c_string_append is_cstr_def)
  have "map (\<lambda>j. if 0 \<le> j \<and> j < 0 + length text then (text @ 0 # rest) ! j XOR key ! (j mod length key)
          else (text @ 0 # rest) ! j) [0..<length (text @ 0 # rest)] = cipher_bytes text key @ 0 # rest"
  proof (rule nth_equalityI)
    fix j assume "j < length (map (\<lambda>j. if 0 \<le> j \<and> j < 0 + length text
        then (text @ 0 # rest) ! j XOR key ! (j mod length key) else (text @ 0 # rest) ! j)
        [0..<length (text @ 0 # rest)])"
    then have "j < length (text @ 0 # rest)" by (simp only: length_map length_upt)
    then show "map (\<lambda>j. if 0 \<le> j \<and> j < 0 + length text
        then (text @ 0 # rest) ! j XOR key ! (j mod length key) else (text @ 0 # rest) ! j)
        [0..<length (text @ 0 # rest)] ! j = (cipher_bytes text key @ 0 # rest) ! j"
      by (cases "j < length text") (simp_all add: cipher_bytes_def nth_append del: upt_Suc)
  qed (simp del: upt_Suc)
  then show ?thesis
    unfolding xorcipher_def l using assms(1) by (subst xorcipher_loop_eq) (simp_all del: upt_Suc)
qed

lemma xor_cancel: "(a XOR k) XOR k = (a :: u8)"
  by (simp only: xor.assoc xor_self_eq xor.right_neutral)

lemma cipher_bytes_twice: "cipher_bytes (cipher_bytes text key) key = text"
  by (rule nth_equalityI) (simp_all add: cipher_bytes_def xor_cancel)

section \<open>Tokens\<close>

abbreviation UTILS_SPLIT_TOKCOUNT :: nat where "UTILS_SPLIT_TOKCOUNT \<equiv> 32"
abbreviation UTILS_SPLIT_TOKLEN :: nat where "UTILS_SPLIT_TOKLEN \<equiv> 64"

type_synonym tokens_t = "u8 list list"

definition set_token :: "tokens_t \<Rightarrow> nat \<Rightarrow> nat \<Rightarrow> u8 \<Rightarrow> tokens_t res" where
  "set_token tok i j v =
     checkR (i < UTILS_SPLIT_TOKCOUNT \<and> j < UTILS_SPLIT_TOKLEN) OutOfBounds (Inr (tok[i := (tok ! i)[j := v]]))"

fun split_loop :: "u8 \<Rightarrow> cstring \<Rightarrow> tokens_t \<Rightarrow> nat \<Rightarrow> nat \<Rightarrow> bool \<Rightarrow> (tokens_t \<times> nat) res" where
  "split_loop deli [] tok cnt c in_token =
     (if in_token \<and> cnt < UTILS_SPLIT_TOKCOUNT
      then bindR (set_token tok cnt c 0) (\<lambda>tok1. Inr (tok1, Suc cnt))
      else Inr (tok, cnt))"
| "split_loop deli (ch # s) tok cnt c in_token =
     (if ch = deli then
        if in_token then
          bindR (set_token tok cnt c 0)
            (\<lambda>tok1. if Suc cnt \<ge> UTILS_SPLIT_TOKCOUNT then Inr (tok1, Suc cnt)
                    else split_loop deli s tok1 (Suc cnt) 0 False)
        else split_loop deli s tok cnt c in_token
      else if c < UTILS_SPLIT_TOKLEN - 1 then
        bindR (set_token tok cnt c ch) (\<lambda>tok1. split_loop deli s tok1 cnt (Suc c) True)
      else split_loop deli s tok cnt c in_token)"

definition split :: "cstring \<Rightarrow> u8 \<Rightarrow> (tokens_t \<times> nat) res" where
  "split str deli =
     split_loop deli str (replicate UTILS_SPLIT_TOKCOUNT (replicate UTILS_SPLIT_TOKLEN 0)) 0 0 False"

text \<open>The specification: cut the string at every delimiter and drop the empty fields.\<close>

fun str_fields :: "u8 \<Rightarrow> cstring \<Rightarrow> cstring list" where
  "str_fields d [] = [[]]"
| "str_fields d (c # s) =
     (if c = d then [] # str_fields d s
      else case str_fields d s of w # ws \<Rightarrow> (c # w) # ws | [] \<Rightarrow> [[c]])"

definition pieces :: "u8 \<Rightarrow> cstring \<Rightarrow> cstring list" where
  "pieces d s = filter (\<lambda>w. w \<noteq> []) (str_fields d s)"

definition pieces_from :: "u8 \<Rightarrow> cstring \<Rightarrow> cstring \<Rightarrow> cstring list" where
  "pieces_from d w s = filter (\<lambda>v. v \<noteq> []) ((w @ hd (str_fields d s)) # tl (str_fields d s))"

lemma str_fields_not_Nil [simp]: "str_fields d s \<noteq> []"
  by (induction s) (auto split: list.splits)

lemma pieces_from_Nil: "pieces_from d [] s = pieces d s"
  using hd_Cons_tl [of "str_fields d s"] by (simp add: pieces_from_def pieces_def del: hd_Cons_tl)

lemma pieces_from_simps [simp]:
  "pieces_from d w [] = (if w = [] then [] else [w])"
  "pieces_from d w (d # s) = (if w = [] then pieces_from d [] s else w # pieces_from d [] s)"
  "c \<noteq> d \<Longrightarrow> pieces_from d w (c # s) = pieces_from d (w @ [c]) s"
proof -
  show "pieces_from d w [] = (if w = [] then [] else [w])" by (simp add: pieces_from_def)
  obtain v vs where f: "str_fields d s = v # vs" by (cases "str_fields d s") auto
  show "pieces_from d w (d # s) = (if w = [] then pieces_from d [] s else w # pieces_from d [] s)"
    using f by (simp add: pieces_from_def)
  show "c \<noteq> d \<Longrightarrow> pieces_from d w (c # s) = pieces_from d (w @ [c]) s"
    using f by (simp add: pieces_from_def)
qed

lemma pieces_from_Cons: "w \<noteq> [] \<Longrightarrow> \<exists>v vs. pieces_from d w s = (w @ v) # vs"
  by (simp add: pieces_from_def)

text \<open>The table while the piece \<open>w\<close> is being read into row \<open>count\<close>.\<close>

definition tok_ok :: "tokens_t \<Rightarrow> nat \<Rightarrow> nat \<Rightarrow> bool \<Rightarrow> cstring \<Rightarrow> bool" where
  "tok_ok tok cnt c in_token w \<longleftrightarrow>
     length tok = 32 \<and> (\<forall>r \<in> set tok. length r = 64) \<and> cnt < 32 \<and>
     c = min 63 (length w) \<and> in_token = (w \<noteq> []) \<and> is_cstr w \<and> take c (tok ! cnt) = take 63 w"

lemma tok_ok_row: "tok_ok tok n c b w \<Longrightarrow> i < 32 \<Longrightarrow> length (tok ! i) = 64"
  by (simp add: tok_ok_def)

lemma tok_ok_put:
  assumes "tok_ok tok n c b w" "c < 63" "ch \<noteq> 0"
  shows "tok_ok (tok[n := (tok ! n)[c := ch]]) n (Suc c) True (w @ [ch])"
proof -
  have n: "n < length tok" and len: "length (tok ! n) = 64" and c: "c = length w"
    using assms tok_ok_row [OF assms(1), of n] by (auto simp: tok_ok_def)
  have "take (Suc c) ((tok ! n)[c := ch]) = w @ [ch]"
    using assms len c by (simp add: take_Suc_conv_app_nth tok_ok_def)
  then show ?thesis
    using assms n len c by (auto simp: tok_ok_def is_cstr_def dest!: set_update_subset_insert [THEN subsetD])
qed

lemma tok_ok_close:
  assumes "tok_ok tok n c b w"
  shows "c_string ((tok[n := (tok ! n)[c := 0]]) ! n) = take 63 w"
    "map c_string (take (Suc n) (tok[n := (tok ! n)[c := 0]])) = map c_string (take n tok) @ [take 63 w]"
proof -
  have n: "n < length tok" and len: "length (tok ! n) = 64" and c: "c < 64"
    using assms tok_ok_row [OF assms, of n] by (auto simp: tok_ok_def)
  have "(tok ! n)[c := 0] = take c (tok ! n) @ 0 # drop (Suc c) (tok ! n)"
    using len c by (simp add: upd_conv_take_nth_drop)
  moreover have "take c (tok ! n) = take 63 w" using assms unfolding tok_ok_def by blast
  moreover have "0 \<notin> set (take 63 w)" using assms by (auto simp: tok_ok_def is_cstr_def dest: in_set_takeD)
  ultimately have "c_string ((tok ! n)[c := 0]) = take 63 w"
    by (simp add: c_string_append)
  then show "c_string ((tok[n := (tok ! n)[c := 0]]) ! n) = take 63 w" using n by simp
  then show "map c_string (take (Suc n) (tok[n := (tok ! n)[c := 0]])) = map c_string (take n tok) @ [take 63 w]"
    using n by (simp add: take_Suc_conv_app_nth)
qed

lemma tok_ok_next:
  "tok_ok tok n c b w \<Longrightarrow> Suc n < 32 \<Longrightarrow> tok_ok (tok[n := (tok ! n)[c := v]]) (Suc n) 0 False []"
  by (auto simp: tok_ok_def is_cstr_def dest!: set_update_subset_insert [THEN subsetD])

lemma split_loop_eq:
  "tok_ok tok n c b w \<Longrightarrow> is_cstr s \<Longrightarrow>
   \<exists>tok' k. split_loop d s tok n c b = Inr (tok', k) \<and> k \<le> 32 \<and> length tok' = 32 \<and>
     map c_string (take k tok') = take 32 (map c_string (take n tok) @ map (take 63) (pieces_from d w s))"
proof (induction d s tok n c b arbitrary: w rule: split_loop.induct)
  case (1 d tok n c b)
  have n: "n < 32" "c < 64" "length (take n tok) = n" "length tok = 32" using "1.prems" by (auto simp: tok_ok_def)
  show ?case
  proof (cases "w = []")
    case True
    then show ?thesis using "1.prems" n by (auto simp: tok_ok_def)
  next
    case False
    then have "b" using "1.prems" by (simp add: tok_ok_def)
    then show ?thesis
      using "1.prems" n False tok_ok_close(2) [OF "1.prems"(1)] by (simp add: set_token_def)
  qed
next
  case (2 d ch s tok n c b)
  have n: "n < 32" "c < 64" "length tok = 32" using "2.prems" by (auto simp: tok_ok_def)
  have s: "is_cstr s" "ch \<noteq> 0" using "2.prems" by (auto simp: is_cstr_def)
  let ?t = "tok[n := (tok ! n)[c := 0]]"
  consider (close) "ch = d" "b" | (skip) "ch = d" "\<not> b" | (put) "ch \<noteq> d" "c < 63" | (full) "ch \<noteq> d" "\<not> c < 63"
    by blast
  then show ?case
  proof cases
    case close
    then have w: "w \<noteq> []" using "2.prems" by (simp add: tok_ok_def)
    have row: "map c_string (take (Suc n) ?t) = map c_string (take n tok) @ [take 63 w]"
      using tok_ok_close(2) "2.prems"(1) .
    show ?thesis
    proof (cases "Suc n \<ge> 32")
      case True
      then have "n = 31" using n by simp
      then show ?thesis using close w row n by (simp add: set_token_def)
    next
      case False
      then have "tok_ok ?t (Suc n) 0 False []" using tok_ok_next [OF "2.prems"(1)] by simp
      from "2.IH"(1) [OF close _ False this s(1)] False close n s
      show ?thesis using row w by (simp add: set_token_def)
    qed
  next
    case skip
    then have w: "w = []" using "2.prems" by (simp add: tok_ok_def)
    from "2.IH"(2) [OF skip "2.prems"(1) s(1)] skip w show ?thesis by simp
  next
    case put
    let ?p = "tok[n := (tok ! n)[c := ch]]"
    have "tok_ok ?p n (Suc c) True (w @ [ch])" using tok_ok_put [OF "2.prems"(1) put(2) s(2)] .
    from "2.IH"(3) [OF put(1) _ _ this s(1)] put n have
      "\<exists>tok' k. split_loop d s ?p n (Suc c) True = Inr (tok', k) \<and> k \<le> 32 \<and> length tok' = 32 \<and>
        map c_string (take k tok') = take 32 (map c_string (take n ?p) @ map (take 63) (pieces_from d (w @ [ch]) s))"
      by (simp add: set_token_def)
    then show ?thesis using put n by (simp add: set_token_def)
  next
    case full
    then have w: "length w \<ge> 63" "w \<noteq> []" "c = 63" using "2.prems" by (auto simp: tok_ok_def)
    then have "tok_ok tok n c b (w @ [ch])" using "2.prems" s by (auto simp: tok_ok_def is_cstr_def)
    from "2.IH"(4) [OF full(1) _ this s(1)] full show ?thesis by simp
  qed
qed

lemma split_eq:
  assumes "is_cstr str"
  shows "\<exists>tok k. split str deli = Inr (tok, k) \<and> k \<le> UTILS_SPLIT_TOKCOUNT \<and> length tok = UTILS_SPLIT_TOKCOUNT \<and>
     map c_string (take k tok) = take UTILS_SPLIT_TOKCOUNT (map (take (UTILS_SPLIT_TOKLEN - 1)) (pieces deli str))"
proof -
  have "tok_ok (replicate 32 (replicate 64 0)) 0 0 False []" by (simp add: tok_ok_def is_cstr_def)
  from split_loop_eq [OF this assms, of deli] show ?thesis by (simp add: split_def pieces_from_Nil)
qed

section \<open>Formatted output\<close>

text \<open>A variadic argument is a 32-bit machine word or a pointer to a string; \<open>va_word\<close> and
  \<open>va_string\<close> are the \<open>va_arg\<close> of the four directives.\<close>

datatype vararg = W u32 | S cstring

fun va_word :: "vararg list \<Rightarrow> (u32 \<times> vararg list) res" where
  "va_word (W n # args) = Inr (n, args)"
| "va_word _ = Inl BadVarArg"

fun va_string :: "vararg list \<Rightarrow> (cstring \<times> vararg list) res" where
  "va_string (S t # args) = Inr (t, args)"
| "va_string _ = Inl BadVarArg"

text \<open>\<open>w\<close> is the output so far, \<open>lim\<close> the value of \<open>size - 1\<close>.\<close>

fun sn_copy :: "nat \<Rightarrow> cstring \<Rightarrow> cstring \<Rightarrow> cstring" where
  "sn_copy lim w [] = w"
| "sn_copy lim w (c # cs) = (if length w < lim then sn_copy lim (w @ [c]) cs else w)"

fun sn_loop :: "nat \<Rightarrow> cstring \<Rightarrow> vararg list \<Rightarrow> cstring \<Rightarrow> cstring res" where
  "sn_loop lim [] args w = Inr w"
| "sn_loop lim (c # f) args w =
     (if \<not> length w < lim then Inr w
      else if c = 37 then
        (case f of
           [] \<Rightarrow> Inr w
         | d # g \<Rightarrow>
             if d = 100 then bindR (va_word args) (\<lambda>(n, rest). sn_loop lim g rest (sn_copy lim w (itoa (sint n))))
             else if d = 120 then bindR (va_word args) (\<lambda>(n, rest). sn_loop lim g rest (sn_copy lim w (xtoa n)))
             else if d = 99 then bindR (va_word args)
               (\<lambda>(n, rest). sn_loop lim g rest (if length w < lim then w @ [ucast n] else w))
             else if d = 115 then bindR (va_string args) (\<lambda>(t, rest). sn_loop lim g rest (sn_copy lim w t))
             else let w1 = w @ [37] in
               sn_loop lim g args (if length w1 < lim then w1 @ [d] else w1))
      else sn_loop lim f args (w @ [c]))"

text \<open>\<open>snprintf\<close> returns the bytes it leaves in the buffer, without the NUL it puts after them.\<close>

definition snprintf :: "nat \<Rightarrow> cstring \<Rightarrow> vararg list \<Rightarrow> cstring res" where
  "snprintf sz fmt args = sn_loop (sub32 sz 1) fmt args []"

function unit_loop :: "nat \<Rightarrow> nat \<Rightarrow> nat \<times> nat" where
  "unit_loop fmtd index =
     (if fmtd \<ge> 1024 \<and> index < 5 then unit_loop (fmtd div 1024) (Suc index) else (fmtd, index))"
  by pat_completeness auto
termination
  by (relation "measure (\<lambda>(f, i). f)") auto

declare unit_loop.simps [simp del]

definition unit_names :: "cstring list" where
  "unit_names = map cstr [''B'', ''KB'', ''MB'', ''GB'', ''TB'', ''PB'']"

text \<open>\<open>unit\<close>: its buffer is the one \<open>utils_itoa\<close> answers in; the number is written from position
  0 on, where it already stands, so the two uses do not disturb each other.\<close>

definition unit_str :: "nat \<Rightarrow> cstring res" where
  "unit_str sz =
     (let (fmtd, index) = unit_loop sz 0
      in snprintf 64 (cstr ''%d%s'') [W (of_nat fmtd), S (unit_names ! index)])"

definition putchar :: "u8 \<Rightarrow> 'a mm_scheme \<Rightarrow> 'a mm_scheme" where
  "putchar chr s = (if chr = 0 then s else s\<lparr>tty := tty s @ [chr]\<rparr>)"

fun puts :: "cstring \<Rightarrow> 'a mm_scheme \<Rightarrow> 'a mm_scheme" where
  "puts [] s = s"
| "puts (c # cs) s = puts cs (putchar c s)"

definition nputs :: "cstring \<Rightarrow> nat \<Rightarrow> 'a mm_scheme \<Rightarrow> 'a mm_scheme res" where
  "nputs buf len s = checkR (len \<le> length buf) OutOfBounds (Inr (puts (take len buf) s))"

text \<open>\<open>printf\<close> steps over two characters at a \<open>%\<close> even when the second one is the NUL, and then
  goes on behind the end of the format.\<close>

fun printf :: "cstring \<Rightarrow> vararg list \<Rightarrow> 'a mm_scheme \<Rightarrow> 'a mm_scheme res" where
  "printf [] args s = Inr s"
| "printf (c # f) args s =
     (if c = 37 then
        (case f of
           [] \<Rightarrow> Inl OutOfBounds
         | d # g \<Rightarrow>
             if d = 100 then bindR (va_word args) (\<lambda>(n, rest). printf g rest (puts (itoa (sint n)) s))
             else if d = 120 then bindR (va_word args) (\<lambda>(n, rest). printf g rest (puts (xtoa n) s))
             else if d = 99 then bindR (va_word args) (\<lambda>(n, rest). printf g rest (putchar (ucast n) s))
             else if d = 115 then bindR (va_string args) (\<lambda>(t, rest). printf g rest (puts t s))
             else if d = 37 then printf g args (putchar 37 s)
             else printf g args (putchar d (putchar 37 s)))
      else printf f args (putchar c s))"

text \<open>The message macros of \<open>kernel.h\<close>; \<open>fn\<close> is the name of the calling function.\<close>

definition INFO :: "string \<Rightarrow> string \<Rightarrow> vararg list \<Rightarrow> 'a mm_scheme \<Rightarrow> 'a mm_scheme res" where
  "INFO fn fmt args = printf (cstr ''%s: '' @ cstr fmt @ [10]) (S (cstr fn) # args)"

definition WARN :: "string \<Rightarrow> string \<Rightarrow> vararg list \<Rightarrow> 'a mm_scheme \<Rightarrow> 'a mm_scheme res" where
  "WARN fn fmt args = printf (cstr ''%s: Warning: '' @ cstr fmt @ [10]) (S (cstr fn) # args)"

definition ERR :: "string \<Rightarrow> string \<Rightarrow> vararg list \<Rightarrow> 'a mm_scheme \<Rightarrow> 'a mm_scheme res" where
  "ERR fn fmt args = printf (cstr ''%s: Error: '' @ cstr fmt @ [10]) (S (cstr fn) # args)"

text \<open>The specification of both: the text a format stands for, with no limit on its length.\<close>

fun render :: "cstring \<Rightarrow> vararg list \<Rightarrow> cstring res" where
  "render [] args = Inr []"
| "render (c # f) args =
     (if c = 37 then
        (case f of
           [] \<Rightarrow> Inr []
         | d # g \<Rightarrow>
             if d = 100 then bindR (va_word args) (\<lambda>(n, rest). bindR (render g rest) (\<lambda>r. Inr (itoa (sint n) @ r)))
             else if d = 120 then bindR (va_word args) (\<lambda>(n, rest). bindR (render g rest) (\<lambda>r. Inr (xtoa n @ r)))
             else if d = 99 then bindR (va_word args) (\<lambda>(n, rest). bindR (render g rest) (\<lambda>r. Inr (ucast n # r)))
             else if d = 115 then bindR (va_string args) (\<lambda>(t, rest). bindR (render g rest) (\<lambda>r. Inr (t @ r)))
             else bindR (render g args) (\<lambda>r. Inr (37 # d # r)))
      else bindR (render f args) (\<lambda>r. Inr (c # r)))"

declare sn_loop.simps(2) [simp del] printf.simps(2) [simp del] render.simps(2) [simp del]

lemma sn_copy_eq: "sn_copy lim w cs = w @ take (lim - length w) cs"
proof (induction lim w cs rule: sn_copy.induct)
  case (2 lim w c cs)
  show ?case
  proof (cases "length w < lim")
    case True
    then have "lim - length w = Suc (lim - Suc (length w))" by simp
    with 2 True show ?thesis by simp
  qed simp
qed simp

lemma sn_loop_full: "\<not> length w < lim \<Longrightarrow> sn_loop lim f args w = Inr w"
  by (cases f) (auto simp: sn_loop.simps(2))

lemma take_grow: "length w \<le> lim \<Longrightarrow> (w @ take (lim - length w) t) @ take (lim - length (w @ take (lim - length w) t)) r
    = w @ take (lim - length w) (t @ r)"
  by (cases "lim - length w \<le> length t") auto

text \<open>What one directive contributes, shared by the three readings of a format.\<close>

definition directive :: "u8 \<Rightarrow> vararg list \<Rightarrow> (cstring \<times> vararg list) res" where
  "directive d args =
     (if d = 100 then bindR (va_word args) (\<lambda>(n, rest). Inr (itoa (sint n), rest))
      else if d = 120 then bindR (va_word args) (\<lambda>(n, rest). Inr (xtoa n, rest))
      else if d = 99 then bindR (va_word args) (\<lambda>(n, rest). Inr ([ucast n], rest))
      else if d = 115 then va_string args
      else Inr ([37, d], args))"

lemma sn_loop_directive:
  "length w < lim \<Longrightarrow>
   sn_loop lim (37 # d # g) args w = bindR (directive d args) (\<lambda>(t, rest). sn_loop lim g rest (sn_copy lim w t))"
  by (auto simp: sn_loop.simps(2) directive_def bindR_assoc Let_def split: prod.splits intro!: bindR_cong)

lemma render_directive:
  "render (37 # d # g) args =
     bindR (directive d args) (\<lambda>(t, rest). bindR (render g rest) (\<lambda>r. Inr (t @ r)))"
  by (auto simp: render.simps(2) directive_def bindR_assoc split: prod.splits intro!: bindR_cong)

lemma printf_directive:
  "d \<noteq> 37 \<Longrightarrow>
   printf (37 # d # g) args s = bindR (directive d args) (\<lambda>(t, rest). printf g rest (puts t s))"
  by (auto simp: printf.simps(2) directive_def bindR_assoc split: prod.splits intro!: bindR_cong)

lemma render_plain: "c \<noteq> 37 \<Longrightarrow> render (c # f) args = bindR (render f args) (\<lambda>r. Inr (c # r))"
  by (simp add: render.simps(2))

lemma printf_plain: "c \<noteq> 37 \<Longrightarrow> printf (c # f) args s = printf f args (putchar c s)"
  by (simp add: printf.simps(2))

lemma sn_loop_plain: "c \<noteq> 37 \<Longrightarrow> length w < lim \<Longrightarrow> sn_loop lim (c # f) args w = sn_loop lim f args (sn_copy lim w [c])"
  by (simp add: sn_loop.simps(2))

lemmas format_simps = render_directive render_plain printf_directive printf_plain sn_loop_directive sn_loop_plain

text \<open>A format is read from the left: one plain character, one directive, or a last lone \<open>%\<close>.\<close>

lemma format_induct [case_names Nil plain lone directive]:
  assumes "P []" "\<And>c f. c \<noteq> 37 \<Longrightarrow> P f \<Longrightarrow> P (c # f)" "P [37]" "\<And>d g. P g \<Longrightarrow> P (37 # d # g)"
  shows "P (fmt :: cstring)"
proof (induction fmt rule: length_induct)
  case (1 fmt)
  consider "fmt = []" | c f where "fmt = c # f" "c \<noteq> 37" | "fmt = [37]" | d g where "fmt = 37 # d # g"
    by (metis neq_Nil_conv)
  then show ?case by cases (use assms 1 in auto)
qed

lemma sn_loop_render:
  "render f args = Inr out \<Longrightarrow> length w \<le> lim \<Longrightarrow> sn_loop lim f args w = Inr (w @ take (lim - length w) out)"
proof (induction f arbitrary: args w out rule: format_induct)
  case Nil
  then show ?case by simp
next
  case (plain c f)
  show ?case
  proof (cases "length w < lim")
    case True
    then show ?thesis
      using plain take_grow [OF plain.prems(2), of "[c]"]
      by (auto simp: format_simps bindR_eq_Inr sn_copy_eq simp del: append_assoc)
  qed (use plain in \<open>simp add: sn_loop_full\<close>)
next
  case lone
  then show ?case by (cases "length w < lim") (auto simp: sn_loop_full sn_loop.simps(2) render.simps(2))
next
  case (directive d g)
  show ?case
  proof (cases "length w < lim")
    case True
    from directive.prems(1) obtain t rest r where r: "Utils.directive d args = Inr (t, rest)"
      "render g rest = Inr r" "out = t @ r" by (auto simp: format_simps bindR_eq_Inr)
    have "sn_loop lim g rest (sn_copy lim w t) =
        Inr (sn_copy lim w t @ take (lim - length (sn_copy lim w t)) r)"
      using r(2) directive.prems(2) by (intro directive.IH) (auto simp: sn_copy_eq)
    then show ?thesis
      using r True take_grow [OF directive.prems(2), of t r]
      by (simp add: format_simps sn_copy_eq del: append_assoc)
  qed (use directive in \<open>simp add: sn_loop_full\<close>)
qed

lemma snprintf_render:
  "render f args = Inr out \<Longrightarrow> 0 < sz \<Longrightarrow> sz < 4294967296 \<Longrightarrow> snprintf sz f args = Inr (take (sz - 1) out)"
  by (simp add: snprintf_def sub32_small sn_loop_render)

text \<open>A format \<open>printf\<close> can read: no \<open>%%\<close>, and no lone \<open>%\<close> at its end.\<close>

fun printable :: "cstring \<Rightarrow> bool" where
  "printable [] = True"
| "printable (c # f) =
     (if c = 37 then (case f of [] \<Rightarrow> False | d # g \<Rightarrow> d \<noteq> 37 \<and> printable g) else printable f)"

lemma puts_append: "puts (xs @ ys) s = puts ys (puts xs s)"
  by (induction xs arbitrary: s) auto

lemma printf_render: "render f args = Inr out \<Longrightarrow> printable f \<Longrightarrow> printf f args s = Inr (puts out s)"
proof (induction f arbitrary: args s out rule: format_induct)
  case (plain c f)
  then show ?case by (auto simp: format_simps bindR_eq_Inr)
next
  case (directive d g)
  then show ?case by (fastforce simp: format_simps bindR_eq_Inr puts_append)
qed (simp_all add: render.simps(2) printf.simps(2))

lemma puts_eq: "puts t s = s\<lparr>tty := tty s @ filter (\<lambda>c. c \<noteq> 0) t\<rparr>"
  by (induction t arbitrary: s) (auto simp: putchar_def)

lemma puts_extends: "\<exists>t. puts u s = s\<lparr>tty := t\<rparr>"
  by (auto simp: puts_eq)

text \<open>A message whose format renders and is printable only adds to the console.\<close>

lemma printf_message: "render fmt args = Inr out \<Longrightarrow> printable fmt \<Longrightarrow> \<exists>t. printf fmt args s = Inr (s\<lparr>tty := t\<rparr>)"
  using printf_render [of fmt args out s] by (auto simp: puts_eq)

text \<open>A format whose directives find the arguments they need renders.\<close>

fun accepts :: "cstring \<Rightarrow> vararg list \<Rightarrow> bool" where
  "accepts [] args = True"
| "accepts (c # f) args =
     (if c = 37 then
        (case f of
           [] \<Rightarrow> True
         | d # g \<Rightarrow>
             if d = 100 \<or> d = 120 \<or> d = 99 then (case args of W _ # rest \<Rightarrow> accepts g rest | _ \<Rightarrow> False)
             else if d = 115 then (case args of S _ # rest \<Rightarrow> accepts g rest | _ \<Rightarrow> False)
             else accepts g args)
      else accepts f args)"

lemma accepts_render: "accepts f args \<Longrightarrow> \<exists>out. render f args = Inr out"
proof (induction f arbitrary: args rule: format_induct)
  case (plain c f)
  then obtain out where "render f args = Inr out" by auto
  with plain show ?case by (simp add: render_plain)
next
  case (directive d g)
  then show ?case by (fastforce simp: render_directive directive_def split: if_splits list.splits vararg.splits)
qed (simp_all add: render.simps(2))

lemma message_accepts: "accepts f args \<Longrightarrow> printable f \<Longrightarrow> \<exists>t. printf f args s = Inr (s\<lparr>tty := t\<rparr>)"
  using accepts_render printf_message by blast

subsection \<open>Messages without arguments\<close>

lemma render_undirected: "37 \<notin> set f \<Longrightarrow> render f args = Inr f"
  by (induction f) (auto simp: render.simps(2))

lemma printable_plain: "37 \<notin> set f \<Longrightarrow> printable f"
  by (induction f rule: printable.induct) auto

lemma message_plain:
  assumes "37 \<notin> set f"
  shows "\<exists>t. printf (cstr ''%s: '' @ f) [S x] s = Inr (s\<lparr>tty := t\<rparr>)"
proof (rule printf_message)
  show "render (cstr ''%s: '' @ f) [S x] = Inr (x @ [58, 32] @ f)"
    using assms by (simp add: cstr_def render.simps(2) render_undirected)
  show "printable (cstr ''%s: '' @ f)" using assms by (simp add: cstr_def printable_plain)
qed

lemma message_prefix: "cstr ''%s: Warning: '' = cstr ''%s: '' @ cstr ''Warning: ''" "cstr ''%s: Error: '' = cstr ''%s: '' @ cstr ''Error: ''"
  by (simp_all add: cstr_def)

lemma messages_print:
  assumes "37 \<notin> set (cstr fmt)"
  shows "\<exists>t. INFO fn fmt [] s = Inr (s\<lparr>tty := t\<rparr>)" "\<exists>t. WARN fn fmt [] s = Inr (s\<lparr>tty := t\<rparr>)"
    "\<exists>t. ERR fn fmt [] s = Inr (s\<lparr>tty := t\<rparr>)"
proof -
  have "37 \<notin> set (cstr fmt @ [10])" using assms by simp
  then show "\<exists>t. INFO fn fmt [] s = Inr (s\<lparr>tty := t\<rparr>)" unfolding INFO_def by (rule message_plain)
  have "37 \<notin> set (cstr ''Warning: '' @ cstr fmt @ [10])" using assms by (simp add: cstr_def)
  then show "\<exists>t. WARN fn fmt [] s = Inr (s\<lparr>tty := t\<rparr>)"
    unfolding WARN_def message_prefix append_assoc by (rule message_plain)
  have "37 \<notin> set (cstr ''Error: '' @ cstr fmt @ [10])" using assms by (simp add: cstr_def)
  then show "\<exists>t. ERR fn fmt [] s = Inr (s\<lparr>tty := t\<rparr>)"
    unfolding ERR_def message_prefix append_assoc by (rule message_plain)
qed

section \<open>Clocks\<close>

record date_t =
  sec :: u8
  mins :: u8
  hour :: u8
  day :: u8
  mon :: u8
  year :: u16

text \<open>\<open>utils_readRTC\<close>. Every register is a reading of its own, so a date can be torn when the clock moves on in
  between. The accesses to the index port and the data port of the clock are counted by \<open>ticks\<close>, one for each register;
  they are kept apart from the log of the other ports.\<close>

definition rtc_date :: "(nat \<Rightarrow> u8 \<Rightarrow> u8) \<Rightarrow> nat \<Rightarrow> date_t" where
  "rtc_date reg k =
     \<lparr>sec = bcd2dec (reg k 0x00), mins = bcd2dec (reg (k + 1) 0x02), hour = bcd2dec (reg (k + 2) 0x04),
      day = bcd2dec (reg (k + 3) 0x07), mon = bcd2dec (reg (k + 4) 0x08), year = ucast (bcd2dec (reg (k + 5) 0x09)) + 2000\<rparr>"

definition date :: "'a mm_scheme \<Rightarrow> date_t \<times> 'a mm_scheme" where
  "date s = (rtc_date (rtc s) (ticks s), s\<lparr>ticks := ticks s + 6\<rparr>)"

definition month_secs :: "date_t \<Rightarrow> nat" where
  "month_secs d = unat (day d) * 24 * 60 * 60 + unat (hour d) * 60 * 60 + unat (mins d) * 60 + unat (sec d)"

text \<open>The loop of \<open>sleep\<close>. \<open>turn\<close> is what \<open>if (multitask_InStream) yield()\<close> amounts to for the caller, from the call to
  its return: the other processes run in between and may change anything, the number of clock readings included
  (\<open>Multitask.in_stream\<close>). Not returning is \<open>None\<close>.\<close>

partial_function (option) sleep_loop :: "('a mm_scheme \<Rightarrow> 'a mm_scheme res) \<Rightarrow> nat \<Rightarrow> 'a mm_scheme \<Rightarrow> 'a mm_scheme res option" where
  "sleep_loop turn targetTime s =
     (let (current, s1) = date s
      in if wrap32 (month_secs current) \<ge> targetTime then Some (Inr s1)
         else case turn s1 of Inl e \<Rightarrow> Some (Inl e) | Inr s2 \<Rightarrow> sleep_loop turn targetTime s2)"

definition sleep :: "('a mm_scheme \<Rightarrow> 'a mm_scheme res) \<Rightarrow> nat \<Rightarrow> 'a mm_scheme \<Rightarrow> 'a mm_scheme res option" where
  "sleep turn secs s = (let (start, s1) = date s in sleep_loop turn (wrap32 (month_secs start + secs)) s1)"

text \<open>\<open>utils_rdtsc\<close>: \<open>tsc k\<close> is the \<open>k\<close>-th reading of the time stamp counter.\<close>

definition rdtsc :: "(nat \<Rightarrow> nat) \<Rightarrow> bool \<Rightarrow> nat \<Rightarrow> nat \<times> nat" where
  "rdtsc tsc has_tsc k = (if \<not> has_tsc then (0, k) else (tsc k, Suc k))"

definition secs_at :: "'a mm_scheme \<Rightarrow> nat \<Rightarrow> nat" where
  "secs_at s k = month_secs (rtc_date (rtc s) k)"

lemma unat_le_255: "unat (b :: u8) \<le> 255"
  using unat_u8_less [of b] by simp

lemma month_secs_less: "month_secs d < 23000000"
  using unat_le_255 [of "day d"] unat_le_255 [of "hour d"] unat_le_255 [of "mins d"] unat_le_255 [of "sec d"]
  unfolding month_secs_def by linarith

lemma secs_at_ticks [simp]: "secs_at (s\<lparr>ticks := n\<rparr>) k = secs_at s k"
  by (simp add: secs_at_def)

lemma date_eq: "date s = (rtc_date (rtc s) (ticks s), s\<lparr>ticks := ticks s + 6\<rparr>)"
  by (simp add: date_def)

text \<open>What the next look at the clock sees, and the state of the sleeper before its \<open>i\<close>-th look.\<close>

definition seen :: "'a mm_scheme \<Rightarrow> nat" where
  "seen s = secs_at s (ticks s)"

primrec looks :: "('a mm_scheme \<Rightarrow> 'a mm_scheme res) \<Rightarrow> 'a mm_scheme \<Rightarrow> nat \<Rightarrow> 'a mm_scheme res" where
  "looks turn s 0 = Inr s"
| "looks turn s (Suc i) = bindR (looks turn s i) (\<lambda>t. turn (snd (date t)))"

lemma looks_shift: "looks turn s (Suc i) = bindR (turn (snd (date s))) (\<lambda>t. looks turn t i)"
proof (induction i)
  case 0
  show ?case by (cases "turn (snd (date s))") simp_all
qed (simp add: bindR_assoc)

lemma sleep_loop_step:
  "sleep_loop turn target s = (if target \<le> seen s then Some (Inr (snd (date s)))
     else case turn (snd (date s)) of Inl e \<Rightarrow> Some (Inl e) | Inr t \<Rightarrow> sleep_loop turn target t)"
  using month_secs_less [of "rtc_date (rtc s) (ticks s)"]
  by (subst sleep_loop.simps) (simp add: date_def seen_def secs_at_def)

text \<open>\<open>n\<close> is the first look that sees the target.\<close>

definition wakes :: "('a mm_scheme \<Rightarrow> 'a mm_scheme res) \<Rightarrow> nat \<Rightarrow> 'a mm_scheme \<Rightarrow> nat \<Rightarrow> 'a mm_scheme \<Rightarrow> bool" where
  "wakes turn target s n t \<longleftrightarrow> looks turn s n = Inr t \<and> target \<le> seen t \<and>
     (\<forall>i<n. \<exists>u. looks turn s i = Inr u \<and> seen u < target)"

lemma wakes_Suc:
  assumes "seen s < target" "turn (snd (date s)) = Inr u" "wakes turn target u n t"
  shows "wakes turn target s (Suc n) t"
  unfolding wakes_def
proof (intro conjI allI impI)
  show "looks turn s (Suc n) = Inr t" "target \<le> seen t" using assms(2,3) unfolding looks_shift by (simp_all add: wakes_def)
  fix i assume "i < Suc n"
  then show "\<exists>v. looks turn s i = Inr v \<and> seen v < target"
    using assms by (cases i) (auto simp: looks_shift wakes_def simp del: looks.simps(2))
qed

lemma sleep_loop_wakes:
  "wakes turn target s n t \<Longrightarrow> sleep_loop turn target s = Some (Inr (snd (date t)))"
proof (induction n arbitrary: s)
  case 0
  then show ?case by (subst sleep_loop_step) (simp add: wakes_def)
next
  case (Suc n)
  then have s: "seen s < target" "bindR (turn (snd (date s))) (\<lambda>u. looks turn u n) = Inr t"
    by (auto simp: wakes_def looks_shift [symmetric] simp del: looks.simps(2) dest!: spec [of _ 0])
  then obtain u where u: "turn (snd (date s)) = Inr u" "looks turn u n = Inr t" by (auto simp: bindR_eq_Inr)
  have "\<exists>v. looks turn u i = Inr v \<and> seen v < target" if "i < n" for i
    using Suc.prems that u(1) unfolding wakes_def by (auto simp: looks_shift simp del: looks.simps(2) dest!: spec [of _ "Suc i"])
  then have "wakes turn target u n t" using u(2) Suc.prems by (simp add: wakes_def)
  from Suc.IH [OF this] show ?case using s(1) u(1) by (subst sleep_loop_step) simp
qed

lemma sleep_loop_returns:
  "sleep_loop turn target s = Some (Inr s') \<Longrightarrow> \<exists>n t. wakes turn target s n t \<and> s' = snd (date t)"
proof -
  assume r: "sleep_loop turn target s = Some (Inr s')"
  have "r = Inr s' \<longrightarrow> (\<exists>n t. wakes turn target s n t \<and> s' = snd (date t))" if "sleep_loop turn target s = Some r" for r
    using that
  proof (rule sleep_loop.raw_induct [rotated, where P = "\<lambda>turn target s r. r = Inr s' \<longrightarrow> (\<exists>n t. wakes turn target s n t \<and> s' = snd (date t))"])
    fix loop :: "('a mm_scheme \<Rightarrow> 'a mm_scheme res) \<Rightarrow> nat \<Rightarrow> 'a mm_scheme \<Rightarrow> 'a mm_scheme res option" and turn target s r
    assume IH: "\<And>turn target s r. loop turn target s = Some r \<Longrightarrow> r = Inr s' \<longrightarrow> (\<exists>n t. wakes turn target s n t \<and> s' = snd (date t))"
      and eq: "(let (current, s1) = date s in if target \<le> wrap32 (month_secs current) then Some (Inr s1)
        else case turn s1 of Inl e \<Rightarrow> Some (Inl e) | Inr s2 \<Rightarrow> loop turn target s2) = Some r"
    have w: "wrap32 (month_secs (rtc_date (rtc s) (ticks s))) = seen s"
      using month_secs_less [of "rtc_date (rtc s) (ticks s)"] by (simp add: seen_def secs_at_def)
    show "r = Inr s' \<longrightarrow> (\<exists>n t. wakes turn target s n t \<and> s' = snd (date t))"
    proof (cases "target \<le> seen s")
      case True
      then have "r = Inr (snd (date s))" "wakes turn target s 0 s" using eq w by (auto simp: date_eq wakes_def)
      then show ?thesis by (intro impI exI [of _ 0] exI [of _ s]) simp
    next
      case False
      then have e: "(case turn (snd (date s)) of Inl e \<Rightarrow> Some (Inl e) | Inr s2 \<Rightarrow> loop turn target s2) = Some r"
        using eq w by (simp add: date_eq)
      show ?thesis
      proof (cases "turn (snd (date s))")
        case (Inr u)
        then show ?thesis using IH [of turn target u r] e False wakes_Suc [of s target turn u] by fastforce
      qed (use e in auto)
    qed
  qed
  with r show ?thesis by blast
qed

lemma looks_alone: "looks Inr s n = Inr (s\<lparr>ticks := ticks s + 6 * n\<rparr>)"
  by (induction n) (simp_all add: date_eq)

text \<open>A sleep of one second that begins at reading \<open>a\<close> of the clock and is over before reading \<open>b\<close>, with nobody else running.\<close>

definition naps :: "'a mm_scheme \<Rightarrow> nat \<Rightarrow> nat \<Rightarrow> bool" where
  "naps s a b \<longleftrightarrow> (\<exists>n. secs_at s a < secs_at s (a + 6 * Suc n) \<and> (\<forall>i<n. secs_at s (a + 6 * Suc i) \<le> secs_at s a) \<and>
     b = a + 6 * Suc (Suc n))"

lemma looks_still:
  assumes "\<And>k. turn (s\<lparr>ticks := k\<rparr>) = Inr (s\<lparr>ticks := k\<rparr>)"
  shows "looks turn (s\<lparr>ticks := a\<rparr>) n = Inr (s\<lparr>ticks := a + 6 * n\<rparr>)"
  by (induction n) (simp_all add: date_eq assms add.assoc)

lemma sleep_still:
  assumes still: "\<And>k. turn (s\<lparr>ticks := k\<rparr>) = Inr (s\<lparr>ticks := k\<rparr>)"
  shows "sleep turn 1 s = Some r \<longleftrightarrow> (\<exists>b. naps s (ticks s) b \<and> r = Inr (s\<lparr>ticks := b\<rparr>))"
proof -
  define target where "target = Suc (secs_at s (ticks s))"
  have "secs_at s (ticks s) < 23000000" unfolding secs_at_def by (rule month_secs_less)
  then have sl: "sleep turn 1 s = sleep_loop turn target (s\<lparr>ticks := ticks s + 6\<rparr>)"
    by (simp add: sleep_def date_eq secs_at_def [symmetric] target_def wrap32_def)
  have nap: "sleep turn 1 s = Some (Inr (s\<lparr>ticks := b\<rparr>))" if "naps s (ticks s) b" for b
  proof -
    from that obtain n where n: "target \<le> secs_at s (ticks s + 6 * Suc n)" "\<forall>i<n. secs_at s (ticks s + 6 * Suc i) < target"
      "b = ticks s + 6 * Suc (Suc n)" by (auto simp: naps_def target_def less_Suc_eq_le Suc_le_eq)
    then have "wakes turn target (s\<lparr>ticks := ticks s + 6\<rparr>) n (s\<lparr>ticks := ticks s + 6 + 6 * n\<rparr>)"
      by (simp add: wakes_def looks_still [OF still] seen_def add.assoc)
    from sleep_loop_wakes [OF this] n(3) show ?thesis unfolding sl by (simp add: date_eq add.assoc)
  qed
  have "\<exists>b. naps s (ticks s) b" if "sleep turn 1 s = Some r"
  proof (rule ccontr)
    assume no: "\<nexists>b. naps s (ticks s) b"
    have never: "secs_at s (ticks s + 6 * Suc n) < target" for n
    proof (induction n rule: less_induct)
      case (less n)
      then show ?case using no by (auto simp: naps_def target_def not_less less_Suc_eq_le)
    qed
    have "turn = turn \<longrightarrow> target = target \<longrightarrow> (\<forall>n. s\<lparr>ticks := ticks s + 6\<rparr> \<noteq> s\<lparr>ticks := ticks s + 6 * Suc n\<rparr>)"
      using that unfolding sl
    proof (rule sleep_loop.raw_induct [rotated, where P = "\<lambda>f g u r. f = turn \<longrightarrow> g = target \<longrightarrow> (\<forall>n. u \<noteq> s\<lparr>ticks := ticks s + 6 * Suc n\<rparr>)"])
      fix loop :: "('a mm_scheme \<Rightarrow> 'a mm_scheme res) \<Rightarrow> nat \<Rightarrow> 'a mm_scheme \<Rightarrow> 'a mm_scheme res option" and f g u r
      assume IH: "\<And>f g u r. loop f g u = Some r \<Longrightarrow> f = turn \<longrightarrow> g = target \<longrightarrow> (\<forall>n. u \<noteq> s\<lparr>ticks := ticks s + 6 * Suc n\<rparr>)"
        and eq: "(let (current, s1) = date u in if g \<le> wrap32 (month_secs current) then Some (Inr s1)
          else case f s1 of Inl e \<Rightarrow> Some (Inl e) | Inr s2 \<Rightarrow> loop f g s2) = Some r"
      show "f = turn \<longrightarrow> g = target \<longrightarrow> (\<forall>n. u \<noteq> s\<lparr>ticks := ticks s + 6 * Suc n\<rparr>)"
      proof (intro impI allI notI)
        fix n assume u: "f = turn" "g = target" "u = s\<lparr>ticks := ticks s + 6 * Suc n\<rparr>"
        have "wrap32 (month_secs (fst (date u))) = secs_at s (ticks s + 6 * Suc n)"
          using month_secs_less [of "fst (date u)"] by (simp add: date_eq u(3) secs_at_def wrap32_def)
        with eq never [of n] u have "loop turn target (s\<lparr>ticks := ticks s + 6 * Suc n + 6\<rparr>) = Some r"
          by (auto simp: date_eq still split: if_splits)
        from IH [OF this] show False by (auto dest!: spec [of _ "Suc n"])
      qed
    qed
    then show False by (auto dest!: spec [of _ 0])
  qed
  then show ?thesis using nap by (metis option.inject)
qed

lemma looks_clock:
  assumes "\<And>t u. turn t = Inr u \<Longrightarrow> rtc u = rtc t \<and> ticks t \<le> ticks u" "looks turn s n = Inr t"
  shows "rtc t = rtc s \<and> ticks s \<le> ticks t"
  using assms(2)
proof (induction n arbitrary: t)
  case (Suc n)
  then obtain u where u: "looks turn s n = Inr u" "turn (snd (date u)) = Inr t" by (auto simp: bindR_eq_Inr)
  then show ?case using Suc.IH [OF u(1)] assms(1) [OF u(2)] by (simp add: date_eq)
qed simp

section \<open>Properties\<close>

text \<open>Numbers survive the conversion to text and back: \<open>utils_itoa\<close> then \<open>atoi\<close> is the identity on
  every \<open>int\<close> but the smallest, and the text of \<open>utils_xtoa\<close>, read in base sixteen, is the number;
  both texts are strings of the 64-byte buffer.\<close>

theorem number_text_roundtrip:
  assumes "INT_MIN < n" "n \<le> INT_MAX"
  shows "atoi (itoa n) = n \<and> is_cstr (itoa n) \<and> length (itoa n) \<le> 11 \<and> read_hex (xtoa u) = unat u"
proof -
  define k where "k = nat \<bar>n\<bar>"
  have k: "int k \<le> INT_MAX" "k < 10 ^ 10" using assms by (auto simp: k_def)
  have dec: "length (dec k) \<le> 10" using length_dec [OF k(2)] by simp
  have itoa: "itoa n = (if n < 0 then 45 # dec k else dec k)" using assms by (simp add: itoa_eq k_def)
  obtain c s where c: "dec k = c # s" "c \<noteq> 32 \<and> c \<noteq> 45 \<and> c \<noteq> 43" using dec_head by blast
  have "atoi (itoa n) = n"
    using itoa c atoi_loop_dec [OF k(1)] assms by (auto simp: atoi_def k_def split: if_splits)
  then show ?thesis using itoa dec dec_no_nul by (auto simp: is_cstr_def xtoa_eq read_hex_hexs)
qed

theorem number_text_roundtrip_witness:
  "atoi (itoa (-1987)) = -1987 \<and> is_cstr (itoa (-1987)) \<and> length (itoa (-1987)) \<le> 11 \<and>
   read_hex (xtoa 0xDEADBEEF) = unat (0xDEADBEEF :: u32)"
  by (rule number_text_roundtrip) simp_all

text \<open>The smallest \<open>int\<close> has no positive counterpart: its digits come out below the character 0.\<close>

lemma itoa_INT_MIN: "itoa INT_MIN = [45, 46, 47, 44, 41, 44, 40, 45, 42, 44, 40] \<and> atoi (itoa INT_MIN) = 0"
  by code_simp

text \<open>The generator loses no seed: \<open>xorshift32\<close> is a permutation of the 32-bit words, and only the
  seed 0 gives 0, so a sequence that starts elsewhere never sticks at 0.\<close>

theorem xorshift32_permutes: "bij xorshift32 \<and> (xorshift32 seed = 0 \<longleftrightarrow> seed = 0)"
proof -
  have "xorshift32 0 = 0" by (simp add: xorshift32_def)
  then have "xorshift32 seed = 0 \<longleftrightarrow> seed = 0" using injD [OF xorshift32_inj, of seed 0] by auto
  moreover have "bij xorshift32"
    unfolding bij_def using xorshift32_inj finite_UNIV_inj_surj [OF finite xorshift32_inj] by blast
  ultimately show ?thesis by blast
qed

text \<open>The FNV-1a hash that identifies the operating system module notices every change of one byte:
  two buffers that differ in exactly one place never have the same hash.\<close>

theorem fnv1ahash_one_byte: "fnv1ahash (xs @ b # ys) = fnv1ahash (xs @ c # ys) \<longleftrightarrow> b = c"
  unfolding fnv1ahash_def by (auto simp: fnv_loop_append dest!: fnv_loop_inj fnv_byte_inj)

text \<open>Enciphering twice with the same key gives the buffer back, provided no byte of the text equals
  the byte of the key it meets: the NUL that would result ends the string early, and the second
  pass then stops there.\<close>

theorem xorcipher_involution:
  assumes "key \<noteq> []" "is_cstr text" "\<And>j. j < length text \<Longrightarrow> text ! j \<noteq> key ! (j mod length key)"
  shows "bindR (xorcipher (text @ 0 # rest) key) (\<lambda>buf. xorcipher buf key) = Inr (text @ 0 # rest)"
proof -
  have "text ! j XOR key ! (j mod length key) \<noteq> 0" if "j < length text" for j
  proof
    assume "text ! j XOR key ! (j mod length key) = 0"
    then have "(text ! j XOR key ! (j mod length key)) XOR key ! (j mod length key) = key ! (j mod length key)"
      by simp
    with assms(3) [OF that] show False by (simp only: xor_cancel)
  qed
  then have "is_cstr (cipher_bytes text key)" by (auto simp: is_cstr_def cipher_bytes_def)
  then show ?thesis using assms by (simp add: xorcipher_eq cipher_bytes_twice)
qed

theorem xorcipher_involution_witness:
  "bindR (xorcipher (cstr ''deputy'' @ 0 # [7]) (cstr ''KEY'')) (\<lambda>buf. xorcipher buf (cstr ''KEY'')) =
     Inr (cstr ''deputy'' @ 0 # [7])"
proof (rule xorcipher_involution)
  fix j assume "j < length (cstr ''deputy'')"
  then have "j \<in> {0, 1, 2, 3, 4, 5}" by (auto simp: cstr_def)
  then show "cstr ''deputy'' ! j \<noteq> cstr ''KEY'' ! (j mod length (cstr ''KEY''))"
    by (elim insertE) (simp_all add: cstr_def)
qed (simp_all add: cstr_def is_cstr_def)

text \<open>A byte that meets itself is lost for the second pass.\<close>

lemma xorcipher_stuck:
  "xorcipher [65, 66, 0] [65] = Inr [0, 3, 0] \<and> xorcipher [0, 3, 0] [65] = Inr [0, 3, 0]"
  by code_simp

text \<open>C6.
  \<open>split\<close> never leaves its 32 by 64 table, and returns the first 32 non-empty fields of the
  string, each cut to 63 bytes.\<close>

theorem split_tokens:
  assumes "is_cstr str"
  shows "\<exists>tok k. split str deli = Inr (tok, k) \<and> k \<le> UTILS_SPLIT_TOKCOUNT \<and>
     map c_string (take k tok) = take UTILS_SPLIT_TOKCOUNT (map (take (UTILS_SPLIT_TOKLEN - 1)) (pieces deli str))"
  using split_eq [OF assms, of deli] by blast

theorem split_tokens_witness:
  "\<exists>tok k. split (cstr ''  ls  -l /bin'') 32 = Inr (tok, k) \<and> k \<le> UTILS_SPLIT_TOKCOUNT \<and>
     map c_string (take k tok) = take UTILS_SPLIT_TOKCOUNT
       (map (take (UTILS_SPLIT_TOKLEN - 1)) (pieces 32 (cstr ''  ls  -l /bin'')))"
  by (rule split_tokens) (simp add: cstr_def is_cstr_def)

text \<open>C7.
  \<open>snprintf\<close> keeps to its limit: what it leaves in the buffer is the formatted text cut to
  \<open>size - 1\<close> bytes, so that text and terminating NUL fit into \<open>size\<close>.\<close>

theorem snprintf_truncates:
  assumes "render fmt args = Inr out" "0 < sz" "sz < 2 ^ 32"
  shows "\<exists>w. snprintf sz fmt args = Inr w \<and> w = take (sz - 1) out \<and> length w + 1 \<le> sz"
  using assms by (simp add: snprintf_render)

theorem snprintf_truncates_witness:
  "\<exists>w. snprintf 8 (cstr ''pid %d %s'') [W 42, S (cstr ''init'')] = Inr w \<and>
     w = take (8 - 1) (cstr ''pid '' @ itoa 42 @ 32 # cstr ''init'') \<and> length w + 1 \<le> 8"
  by (rule snprintf_truncates) (simp_all add: cstr_def render.simps(2))

text \<open>C8.
  \<open>printf\<close> prints what \<open>snprintf\<close> formats, NUL bytes left out, on every format without \<open>%%\<close> and
  without a lone \<open>%\<close> at its end; on those two they part: \<open>snprintf\<close> keeps both signs of \<open>%%\<close>, and
  \<open>printf\<close> runs past the end of a format that ends in \<open>%\<close>.\<close>

theorem printf_prints_render:
  assumes "render fmt args = Inr out" "printable fmt"
  shows "printf fmt args s = Inr (s\<lparr>tty := tty s @ filter (\<lambda>c. c \<noteq> 0) out\<rparr>) \<and>
     snprintf 64 [37, 37] [] = Inr [37, 37] \<and> printf [37, 37] [] s = Inr (s\<lparr>tty := tty s @ [37]\<rparr>) \<and>
     snprintf 64 [c, 37] [] = Inr (if c = 37 then [37, 37] else [c]) \<and>
     (c \<noteq> 37 \<longrightarrow> printf [c, 37] [] s = Inl OutOfBounds)"
proof -
  have "printf fmt args s = Inr (puts out s)" by (rule printf_render [OF assms])
  moreover have "snprintf 64 [37, 37] [] = Inr [37, 37]"
    by (rule trans [OF snprintf_render [of _ _ "[37, 37]"]]) (simp_all add: render.simps(2))
  moreover have "snprintf 64 [c, 37] [] = Inr (if c = 37 then [37, 37] else [c])"
    by (rule trans [OF snprintf_render [of _ _ "if c = 37 then [37, 37] else [c]"]]) (simp_all add: render.simps(2))
  ultimately show ?thesis by (simp add: puts_eq putchar_def printf.simps(2))
qed

theorem printf_prints_render_witness:
  "printf (cstr ''%s=%x'') [S (cstr ''cr0''), W 17] mm_demo =
     Inr (mm_demo\<lparr>tty := tty mm_demo @ filter (\<lambda>c. c \<noteq> 0) (cstr ''cr0='' @ xtoa 17)\<rparr>) \<and>
   snprintf 64 [37, 37] [] = Inr [37, 37] \<and> printf [37, 37] [] mm_demo = Inr (mm_demo\<lparr>tty := tty mm_demo @ [37]\<rparr>) \<and>
   snprintf 64 [65, 37] [] = Inr [65] \<and> printf [65, 37] [] mm_demo = Inl OutOfBounds"
proof -
  have "render (cstr ''%s=%x'') [S (cstr ''cr0''), W 17] = Inr (cstr ''cr0='' @ xtoa 17)"
    by (simp add: cstr_def render.simps(2))
  moreover have "printable (cstr ''%s=%x'')" by (simp add: cstr_def)
  ultimately show ?thesis using printf_prints_render [where c = 65 and s = mm_demo] by force
qed

text \<open>C10. \<open>copy\<close> returns exactly if the destination does not start inside the source string (its
  terminator included): then the string and its terminator are written to the destination and nothing else
  changes. Otherwise the first characters are repeated without end.\<close>

theorem copy_returns:
  assumes "string_at m src n"
  shows "copy m dest src =
    (if src < dest \<and> dest \<le> src + n then Inl Diverges
     else Inr (dest, mwrite m dest (mread m src (Suc n))))"
proof (cases "src < dest \<and> dest \<le> src + n")
  case True
  have "0 \<notin> set (mread m src (dest - src))"
    using assms True set_take_subset [of "dest - src" "mread m src n"] by (auto simp: string_at_def mread_take)
  then have "copy_loop m dest src = None" using copy_loop_overlap True by (cases "copy_loop m dest src") auto
  then show ?thesis using True by (simp add: copy_def)
next
  case False
  then show ?thesis using copy_loop_apart [OF assms, of dest] by (auto simp: copy_def)
qed

theorem copy_returns_witness:
  "let m = mwrite (\<lambda>_. 0) 100 (cstr ''hello'') in
     copy m 200 100 = Inr (200, mwrite m 200 (cstr ''hello'' @ [0])) \<and> copy m 103 100 = Inl Diverges"
proof -
  let ?m = "mwrite (\<lambda>_. 0) 100 (cstr ''hello'')"
  have s: "string_at ?m 100 5" "mread ?m 100 (Suc 5) = cstr ''hello'' @ [0]"
    by code_simp+
  show ?thesis
    using copy_returns [OF s(1), of 200] copy_returns [OF s(1), of 103] unfolding s(2) Let_def by simp
qed

text \<open>C9.
  \<open>sleep\<close> returns exactly if some look of the sleeper at the clock, after the first, sees a time of the month that is \<open>secs\<close>
  seconds further than the first, and then right after the earliest such look; between two looks the other
  processes take their turn. Where nobody else runs the looks are the readings of the clock one after the other.
  Other processes that leave the clock alone cannot help: if no later reading is that far, \<open>sleep\<close> does not return.\<close>

theorem sleep_returns_iff:
  fixes s s' :: "'a mm_scheme" and secs :: nat
  defines "target \<equiv> wrap32 (secs_at s (ticks s) + secs)"
  shows "(sleep turn secs s = Some (Inr s') \<longleftrightarrow>
      (\<exists>n t. looks turn (snd (date s)) n = Inr t \<and> target \<le> seen t \<and> s' = snd (date t) \<and>
        (\<forall>i<n. \<exists>u. looks turn (snd (date s)) i = Inr u \<and> seen u < target))) \<and>
    ((\<exists>u. sleep Inr secs s = Some (Inr u)) \<longleftrightarrow> (\<exists>k>0. target \<le> secs_at s (ticks s + 6 * k))) \<and>
    ((\<forall>t u. turn t = Inr u \<longrightarrow> rtc u = rtc t \<and> ticks t \<le> ticks u) \<longrightarrow> sleep turn secs s = Some (Inr s') \<longrightarrow>
      (\<exists>k>ticks s. target \<le> secs_at s k))"
proof -
  let ?s = "snd (date s)"
  have sl: "sleep turn secs s = sleep_loop turn target ?s" for turn
    by (simp add: sleep_def date_def secs_at_def target_def)
  have iff: "sleep turn secs s = Some (Inr s') \<longleftrightarrow> (\<exists>n t. wakes turn target ?s n t \<and> s' = snd (date t))" for turn s'
    unfolding sl using sleep_loop_returns sleep_loop_wakes by blast
  have "(\<exists>u. sleep Inr secs s = Some (Inr u)) \<longleftrightarrow> (\<exists>n t. wakes Inr target ?s n t)" using iff by blast
  also have "\<dots> \<longleftrightarrow> (\<exists>n. target \<le> secs_at s (ticks s + 6 * Suc n))"
  proof
    assume "\<exists>n. target \<le> secs_at s (ticks s + 6 * Suc n)"
    then obtain n where n: "target \<le> secs_at s (ticks s + 6 * Suc n)" "\<And>i. i < n \<Longrightarrow> \<not> target \<le> secs_at s (ticks s + 6 * Suc i)"
      using exists_least_iff [of "\<lambda>n. target \<le> secs_at s (ticks s + 6 * Suc n)"] by blast
    then have "wakes Inr target ?s n (?s\<lparr>ticks := ticks ?s + 6 * n\<rparr>)"
      by (auto simp: wakes_def looks_alone seen_def date_eq not_le add.assoc)
    then show "\<exists>n t. wakes Inr target ?s n t" by blast
  qed (auto simp: wakes_def looks_alone seen_def date_eq add.assoc)
  also have "\<dots> \<longleftrightarrow> (\<exists>k>0. target \<le> secs_at s (ticks s + 6 * k))" by (metis gr0_implies_Suc zero_less_Suc)
  finally have alone: "(\<exists>u. sleep Inr secs s = Some (Inr u)) \<longleftrightarrow> (\<exists>k>0. target \<le> secs_at s (ticks s + 6 * k))" .
  have "\<exists>k>ticks s. target \<le> secs_at s k"
    if c: "\<forall>t u. turn t = Inr u \<longrightarrow> rtc u = rtc t \<and> ticks t \<le> ticks u" "sleep turn secs s = Some (Inr s')"
  proof -
    obtain n t where t: "looks turn ?s n = Inr t" "target \<le> seen t" using c(2) iff by (auto simp: wakes_def)
    then have "rtc t = rtc s" "ticks s < ticks t" using looks_clock [OF _ t(1)] c(1) by (auto simp: date_eq)
    then show ?thesis using t(2) by (intro exI [of _ "ticks t"]) (simp add: seen_def secs_at_def)
  qed
  then show ?thesis using iff alone unfolding wakes_def by blast
qed

text \<open>A clock that stands still: no wait for nothing, and no end of a wait for one second.\<close>

theorem sleep_returns_iff_witness:
  "sleep Inr 0 mm_demo = Some (Inr (mm_demo\<lparr>ticks := 12\<rparr>)) \<and> (\<nexists>s'. sleep Inr 1 mm_demo = Some (Inr s')) \<and>
   (\<exists>k>ticks mm_demo. wrap32 (secs_at mm_demo (ticks mm_demo) + 0) \<le> secs_at mm_demo k)"
proof -
  have z: "secs_at mm_demo k = 0" "wrap32 0 = 0" "wrap32 1 = 1" for k
    by (simp_all add: secs_at_def month_secs_def rtc_date_def mm_demo_def bcd2dec_def wrap32_def)
  note r = sleep_returns_iff [where turn = Inr and s = mm_demo]
  have "ticks mm_demo = 0" by (simp add: mm_demo_def)
  then have d: "snd (date (snd (date mm_demo))) = mm_demo\<lparr>ticks := 12\<rparr>" by (simp add: date_eq)
  have "sleep Inr 0 mm_demo = Some (Inr (mm_demo\<lparr>ticks := 12\<rparr>))"
    using r [where secs = 0 and s' = "mm_demo\<lparr>ticks := 12\<rparr>", THEN conjunct1] d
    by (auto simp: z intro: exI [of _ 0])
  moreover have "\<nexists>s'. sleep Inr 1 mm_demo = Some (Inr s')"
    using r [where secs = 1, THEN conjunct2, THEN conjunct1] by (simp add: z)
  ultimately show ?thesis
    using r [where secs = 0 and s' = "mm_demo\<lparr>ticks := 12\<rparr>", THEN conjunct2, THEN conjunct2] by simp
qed

text \<open>In the last seconds of the thirty-first of a month no later reading can come that far: the
  day starts over at 1, and \<open>sleep\<close> does not return, alone or with other processes.\<close>

lemma sleep_at_month_end:
  assumes "secs_at s (ticks s) = 31 * 86400 + 86399" "0 < secs" "secs < 1000000"
    and "\<And>k. ticks s < k \<Longrightarrow> secs_at s k \<le> 31 * 86400 + 86399"
    and "\<And>t u. turn t = Inr u \<Longrightarrow> rtc u = rtc t \<and> ticks t \<le> ticks u"
  shows "sleep turn secs s \<noteq> Some (Inr s')"
proof
  assume "sleep turn secs s = Some (Inr s')"
  then have "sleep_loop turn (wrap32 (secs_at s (ticks s) + secs)) (snd (date s)) = Some (Inr s')"
    by (simp add: sleep_def date_def secs_at_def)
  from sleep_loop_returns [OF this] obtain n t where
    t: "looks turn (snd (date s)) n = Inr t" "wrap32 (secs_at s (ticks s) + secs) \<le> seen t" by (auto simp: wakes_def)
  from looks_clock [OF assms(5) t(1)] have "rtc t = rtc s" "ticks s < ticks t" by (auto simp: date_eq)
  then show False using t(2) assms(1-3) assms(4) [of "ticks t"] by (simp add: seen_def secs_at_def)
qed

end
