(* ===== verification/MountMgr.thy ===== *)
theory MountMgr
  imports Utils
begin

text \<open>
  The mount manager, \<open>source/kernel/mountmgr.c\<close>: a table of 1024 pointers to data that device
  drivers mount into the file system. The state \<open>mnt\<close> extends \<open>mm\<close>. The table interprets the
  interface \<open>slot_table\<close>.
\<close>

section \<open>State and operations\<close>

abbreviation MOUNTMGR_MOUNTLIMIT :: nat where "MOUNTMGR_MOUNTLIMIT \<equiv> 1024"

text \<open>\<open>mountmgr_MountT\<close> is the pointer to the table, \<open>mountmgr_MountV\<close> its entries.\<close>

record mnt = mm +
  mountmgr_InitLock :: bool
  mountmgr_MountT :: addr
  mountmgr_MountV :: "nat \<Rightarrow> addr"

definition mountmgr_getSlot :: "addr \<Rightarrow> 'a mnt_scheme \<Rightarrow> (int \<times> 'a mnt_scheme) res" where
  "mountmgr_getSlot data s =
     (if \<not> mountmgr_InitLock s \<or> data = 0 then Inr (-1, s)
      else case scan (\<lambda>i. mountmgr_MountV s i = 0) 0 MOUNTMGR_MOUNTLIMIT of
        Some i \<Rightarrow> Inr (int i, s\<lparr>mountmgr_MountV := (mountmgr_MountV s)(i := data)\<rparr>)
      | None \<Rightarrow> bindR (ERR ''mountmgr_getSlot'' ''Mount limit exceeded'' [] s) (\<lambda>s1. Inr (-1, s1)))"

text \<open>The table is read at \<open>slot\<close> before \<open>slot\<close> is compared with its bounds.\<close>

definition mountmgr_freeSlot :: "int \<Rightarrow> 'a mnt_scheme \<Rightarrow> (int \<times> 'a mnt_scheme) res" where
  "mountmgr_freeSlot slot s =
     (if \<not> mountmgr_InitLock s then Inr (-1, s)
      else checkR (0 \<le> slot \<and> slot < int MOUNTMGR_MOUNTLIMIT) OutOfBounds
        (if mountmgr_MountV s (nat slot) = 0 then Inr (-1, s)
         else Inr (0, s\<lparr>mountmgr_MountV := (mountmgr_MountV s)(nat slot := 0)\<rparr>)))"

definition mountmgr_init :: "'a mnt_scheme \<Rightarrow> 'a mnt_scheme res" where
  "mountmgr_init s =
     (if mountmgr_InitLock s then Inr s
      else bindR (calloc MOUNTMGR_MOUNTLIMIT 4 (s\<lparr>mountmgr_InitLock := True\<rparr>))
        (\<lambda>(p, s1). if p = 0 then Inl (Panic ''Out of memory'')
           else Inr (s1\<lparr>mountmgr_MountT := p, mountmgr_MountV := \<lambda>_. 0\<rparr>)))"

section \<open>The table of slots\<close>

definition mount_take :: "addr \<Rightarrow> 'a mnt_scheme \<Rightarrow> nat option \<times> 'a mnt_scheme" where
  "mount_take data s =
     (case mountmgr_getSlot data s of
        Inl e \<Rightarrow> (None, s)
      | Inr (i, s') \<Rightarrow> (if i < 0 then None else Some (nat i), s'))"

definition mounted :: "'a mnt_scheme \<Rightarrow> nat \<Rightarrow> addr option" where
  "mounted s i = (if mountmgr_MountV s i = 0 then None else Some (mountmgr_MountV s i))"

lemma mounted_tty [simp]: "mounted (s\<lparr>tty := t\<rparr>) = mounted s"
  by (simp add: mounted_def fun_eq_iff)

lemma mount_full_message:
  "\<exists>t. ERR ''mountmgr_getSlot'' ''Mount limit exceeded'' [] s = Inr (s\<lparr>tty := t\<rparr>)"
  unfolding ERR_def by (rule printf_message) (simp_all add: cstr_def render.simps(2))

lemma getSlot_eq:
  assumes "mountmgr_InitLock s" "data \<noteq> 0"
  obtains (free_slot) i where "scan (\<lambda>i. mountmgr_MountV s i = 0) 0 MOUNTMGR_MOUNTLIMIT = Some i"
      "mountmgr_getSlot data s = Inr (int i, s\<lparr>mountmgr_MountV := (mountmgr_MountV s)(i := data)\<rparr>)"
    | (full) t where "scan (\<lambda>i. mountmgr_MountV s i = 0) 0 MOUNTMGR_MOUNTLIMIT = None"
      "mountmgr_getSlot data s = Inr (-1, s\<lparr>tty := t\<rparr>)"
  using assms mount_full_message [of s]
  by (cases "scan (\<lambda>i. mountmgr_MountV s i = 0) 0 MOUNTMGR_MOUNTLIMIT") (auto simp: mountmgr_getSlot_def)

interpretation mt: slot_table mount_take mounted mountmgr_InitLock "\<lambda>d. d \<noteq> 0" 0 MOUNTMGR_MOUNTLIMIT
proof (unfold_locales, goal_cases)
  case (1 s v i s')
  from 1(1,2) show ?case
    by (cases rule: getSlot_eq)
      (use 1(2,3) in \<open>auto simp: mount_take_def mounted_def scan_Some_iff fun_eq_iff split: if_splits\<close>)
next
  case (2 s v s')
  from 2(1,2) show ?case
    by (cases rule: getSlot_eq) (use 2(3) in \<open>auto simp: mount_take_def mounted_def scan_None_iff\<close>)
qed

lemma getSlot_take: "mountmgr_InitLock s \<Longrightarrow> data \<noteq> 0 \<Longrightarrow> mountmgr_getSlot data s = Inr (i, s') \<Longrightarrow>
    mount_take data s = (if i < 0 then None else Some (nat i), s')"
  by (simp add: mount_take_def)

lemma getSlot_total: "mountmgr_InitLock s \<Longrightarrow> data \<noteq> 0 \<Longrightarrow> \<exists>i s'. mountmgr_getSlot data s = Inr (i, s')"
  by (erule (1) getSlot_eq) auto

text \<open>\<open>mountmgr_getSlot\<close> fails exactly when all 1024 slots are taken; otherwise it answers the lowest
  free slot, keeps every mounted pointer where it was, and \<open>mountmgr_freeSlot\<close> of the answer
  restores the table.\<close>

theorem mount_slots:
  assumes "mountmgr_InitLock s" "data \<noteq> 0"
  shows "\<exists>i s'. mountmgr_getSlot data s = Inr (i, s') \<and>
    (i < 0 \<longleftrightarrow> card {j. j < MOUNTMGR_MOUNTLIMIT \<and> mounted s j \<noteq> None} = MOUNTMGR_MOUNTLIMIT) \<and>
    (if i < 0 then mounted s' = mounted s
     else i < 1024 \<and> mounted s (nat i) = None \<and> mounted s' = (mounted s)(nat i \<mapsto> data) \<and>
       (\<forall>j. mounted s j = None \<longrightarrow> nat i \<le> j) \<and> mountmgr_freeSlot i s' = Inr (0, s))"
proof -
  from getSlot_total [OF assms] obtain i s' where g: "mountmgr_getSlot data s = Inr (i, s')" by blast
  note take = getSlot_take [OF assms g]
  have "i < 0 \<longleftrightarrow> card {j. j < MOUNTMGR_MOUNTLIMIT \<and> mounted s j \<noteq> None} = MOUNTMGR_MOUNTLIMIT"
    using mt.take_fails_iff_full [OF assms] take by (auto simp: mt.used_def split: if_splits)
  moreover have "mounted s' = mounted s" if "i < 0"
    using mt.take_none [OF assms, of s'] take that by simp
  moreover have "i < 1024 \<and> mounted s (nat i) = None \<and> mounted s' = (mounted s)(nat i \<mapsto> data) \<and>
       (\<forall>j. mounted s j = None \<longrightarrow> nat i \<le> j) \<and> mountmgr_freeSlot i s' = Inr (0, s)" if "\<not> i < 0"
  proof -
    have t: "mount_take data s = (Some (nat i), s')" using take that by simp
    from mt.take_some [OF assms t] mt.take_lowest [OF assms t]
    have f: "nat i < 1024" "mounted s (nat i) = None" "mounted s' = (mounted s)(nat i \<mapsto> data)"
      "\<And>j. mounted s j = None \<Longrightarrow> nat i \<le> j" by (auto simp: not_less)
    from assms have "mountmgr_freeSlot i s' = Inr (0, s)"
      by (cases rule: getSlot_eq)
        (use that g f(1,2) assms in \<open>auto simp: mountmgr_freeSlot_def mounted_def fun_upd_idem split: if_splits\<close>)
    with f that show ?thesis by auto
  qed
  ultimately show ?thesis using g unfolding if_bool_eq_conj by blast
qed

definition mnt_demo :: mnt where
  "mnt_demo = mm.extend mm_demo \<lparr>mountmgr_InitLock = True, mountmgr_MountT = 12288, mountmgr_MountV = (\<lambda>_. 0)\<rparr>"

theorem mount_slots_witness:
  "\<exists>i s'. mountmgr_getSlot 4096 mnt_demo = Inr (i, s') \<and>
    (i < 0 \<longleftrightarrow> card {j. j < MOUNTMGR_MOUNTLIMIT \<and> mounted mnt_demo j \<noteq> None} = MOUNTMGR_MOUNTLIMIT) \<and>
    (if i < 0 then mounted s' = mounted mnt_demo
     else i < 1024 \<and> mounted mnt_demo (nat i) = None \<and> mounted s' = (mounted mnt_demo)(nat i \<mapsto> 4096) \<and>
       (\<forall>j. mounted mnt_demo j = None \<longrightarrow> nat i \<le> j) \<and> mountmgr_freeSlot i s' = Inr (0, mnt_demo))"
  by (rule mount_slots) (simp_all add: mnt_demo_def mm.defs)

text \<open>A slot number outside the table is used as an index before it is refused.\<close>

lemma freeSlot_out_of_range: "mountmgr_InitLock s \<Longrightarrow> mountmgr_freeSlot (-1) s = Inl OutOfBounds"
  by (simp add: mountmgr_freeSlot_def)

end
