(* ===== verification/CoreFs.thy ===== *)
theory CoreFs
  imports MountMgr
begin

text \<open>
  The core file system, \<open>source/kernel/corefs.c\<close>: a table of 16384 pointers to entries. An entry is
  one block of the heap for the \<open>fs_Entry_t\<close>, followed by the bytes of the file. The headers are a
  typed heap, \<open>fs_ent\<close>, indexed by the address of the block; the file's bytes are bytes of \<open>mem\<close>
  at the address of the block plus 4096. The abstract view \<open>lookup\<close> maps a path to its entry, and
  the operations are shown to refine lookup, insertion and removal on that map.
\<close>

unbundle bit_operations_syntax

section \<open>State\<close>

abbreviation (input) FS_MAX_PATHLEN :: nat where "FS_MAX_PATHLEN \<equiv> 3840"
abbreviation (input) FS_MAX_ENTCOUNT :: nat where "FS_MAX_ENTCOUNT \<equiv> 16384"
abbreviation (input) FS_TYPE_FILE :: nat where "FS_TYPE_FILE \<equiv> 0"
abbreviation (input) FS_TYPE_DIR :: nat where "FS_TYPE_DIR \<equiv> 5"
abbreviation (input) FS_TYPE_MOUNTED :: nat where "FS_TYPE_MOUNTED \<equiv> 7"
abbreviation (input) FS_DIRENTEND :: int where "FS_DIRENTEND \<equiv> -1"
abbreviation (input) FS_STS_SUCCESS :: int where "FS_STS_SUCCESS \<equiv> 0"
abbreviation (input) FS_STS_FAILURE :: int where "FS_STS_FAILURE \<equiv> -1"
abbreviation (input) FS_STS_NOTINIT :: int where "FS_STS_NOTINIT \<equiv> -2"
abbreviation (input) FS_STS_ALREADYEXISTS :: int where "FS_STS_ALREADYEXISTS \<equiv> -3"
abbreviation (input) FS_STS_OUTOFMEMORY :: int where "FS_STS_OUTOFMEMORY \<equiv> -4"
abbreviation (input) FS_STS_PATHNOTFOUND :: int where "FS_STS_PATHNOTFOUND \<equiv> -5"
abbreviation (input) FS_STS_NOTFILE :: int where "FS_STS_NOTFILE \<equiv> -7"
abbreviation (input) FS_STS_ENTRYNOTFOUND :: int where "FS_STS_ENTRYNOTFOUND \<equiv> -8"
abbreviation (input) FS_STS_DIRNOTEMPTY :: int where "FS_STS_DIRNOTEMPTY \<equiv> -9"
abbreviation (input) FS_STS_FILEEXISTS :: int where "FS_STS_FILEEXISTS \<equiv> -10"
abbreviation (input) FS_STS_DIREXISTS :: int where "FS_STS_DIREXISTS \<equiv> -11"

text \<open>\<open>sizeof(fs_Entry_t)\<close>: the name, two \<open>int\<close>s and a \<open>size_t\<close>, three dates of eight bytes, the
  five bytes of flags with their padding, and the slot.\<close>

abbreviation (input) sizeof_Entry :: nat where "sizeof_Entry \<equiv> 3888"

text \<open>The character \<open>/\<close>.\<close>

abbreviation (input) slash :: u8 where "slash \<equiv> 47"

record fs_Entry =
  name :: cstring
  user :: int
  group :: int
  fsize :: nat
  ctime :: date_t
  mtime :: date_t
  atime :: date_t
  perm :: u16
  etype :: nat
  ftype :: nat
  devperm :: u8
  mountslot :: int

record fs = mnt +
  fs_InitLock :: bool
  fs_EntryT :: addr
  fs_EntryV :: "nat \<Rightarrow> addr"
  fs_ent :: "addr \<Rightarrow> fs_Entry"
  fs_RADirentT :: addr
  fs_RADirent :: "nat \<Rightarrow> int"
  fs_RAPathT :: addr

text \<open>The entry of slot \<open>i\<close>, and an assignment through the pointer \<open>p\<close>.\<close>

definition ent_at :: "'a fs_scheme \<Rightarrow> nat \<Rightarrow> fs_Entry" where
  "ent_at s i = fs_ent s (fs_EntryV s i)"

definition set_ent :: "addr \<Rightarrow> (fs_Entry \<Rightarrow> fs_Entry) \<Rightarrow> 'a fs_scheme \<Rightarrow> 'a fs_scheme" where
  "set_ent p f s = s\<lparr>fs_ent := (fs_ent s)(p := f (fs_ent s p))\<rparr>"

text \<open>\<open>date(&ent->field)\<close>.\<close>

definition stamp :: "addr \<Rightarrow> ((date_t \<Rightarrow> date_t) \<Rightarrow> fs_Entry \<Rightarrow> fs_Entry) \<Rightarrow> 'a fs_scheme \<Rightarrow> 'a fs_scheme" where
  "stamp p upd s = (let (d, s1) = date s in set_ent p (upd (\<lambda>_. d)) s1)"

section \<open>Lookup\<close>

text \<open>The condition of the search loops: the slot is in use and its entry is called \<open>path\<close>.\<close>

definition named :: "'a fs_scheme \<Rightarrow> cstring \<Rightarrow> nat \<Rightarrow> bool" where
  "named s path i \<longleftrightarrow> fs_EntryV s i \<noteq> 0 \<and> name (ent_at s i) \<noteq> [] \<and> compare (name (ent_at s i)) path = 0"

definition find_entry :: "'a fs_scheme \<Rightarrow> cstring \<Rightarrow> nat option" where
  "find_entry s path = scan (named s path) 0 FS_MAX_ENTCOUNT"

definition fs_index :: "cstring \<Rightarrow> 'a fs_scheme \<Rightarrow> int" where
  "fs_index path s =
     (if \<not> fs_InitLock s then FS_STS_NOTINIT
      else case find_entry s path of Some i \<Rightarrow> int i | None \<Rightarrow> FS_STS_ENTRYNOTFOUND)"

definition fs_stat :: "cstring \<Rightarrow> 'a fs_scheme \<Rightarrow> addr" where
  "fs_stat path s =
     (if \<not> fs_InitLock s then 0
      else case find_entry s path of Some i \<Rightarrow> fs_EntryV s i | None \<Rightarrow> 0)"

definition parent_end :: "cstring \<Rightarrow> nat" where
  "parent_end path = fold (\<lambda>i e. if path ! i = slash then Suc i else e) [0..<length path - 1] 0"

text \<open>\<open>fs_RAPath\<close> has one block; a longer directory part would be copied past its end.\<close>

definition fs_parent :: "cstring \<Rightarrow> 'a fs_scheme \<Rightarrow> addr res" where
  "fs_parent path s =
     (if \<not> fs_InitLock s \<or> compare path [slash] = 0 then Inr 0
      else checkR (parent_end path < MEMORY_BLKSIZE) Overrun (Inr (fs_stat (take (parent_end path) path) s)))"

definition fs_dirent :: "int \<Rightarrow> 'a fs_scheme \<Rightarrow> addr res" where
  "fs_dirent entry s =
     (if \<not> fs_InitLock s then Inr 0
      else checkR (0 \<le> entry \<and> entry < int FS_MAX_ENTCOUNT) OutOfBounds (Inr (fs_EntryV s (nat entry))))"

text \<open>\<open>fs_checkPerm\<close> returns a \<open>bool\<close> of one byte: \<open>FS_STS_NOTINIT\<close> becomes 254.\<close>

definition fs_checkPerm :: "addr \<Rightarrow> int \<Rightarrow> int \<Rightarrow> u8 \<Rightarrow> 'a fs_scheme \<Rightarrow> u8" where
  "fs_checkPerm p uid gid perm' s =
     (if \<not> fs_InitLock s then 254
      else if p = 0 then 0
      else let ent = fs_ent s p in
        if uid = user ent then
          (if (drop_bit 6 (perm ent) AND 7) AND ucast perm' \<noteq> 0 then 1 else 0)
        else if gid = group ent then
          (if (drop_bit 3 (perm ent) AND 7) AND ucast perm' \<noteq> 0 then 1 else 0)
        else (if (perm ent AND 7) AND ucast perm' \<noteq> 0 then 1 else 0))"

section \<open>Directories\<close>

text \<open>An entry below \<open>path\<close>: its name starts with the \<open>n\<close> bytes of \<open>path\<close>.\<close>

definition under :: "'a fs_scheme \<Rightarrow> cstring \<Rightarrow> nat \<Rightarrow> nat \<Rightarrow> bool" where
  "under s path n i \<longleftrightarrow> fs_EntryV s i \<noteq> 0 \<and> name (ent_at s i) \<noteq> [] \<and> sncompare (name (ent_at s i)) path n = 0"

definition dirent_fill :: "(nat \<Rightarrow> bool) \<Rightarrow> (nat \<Rightarrow> int) \<times> nat" where
  "dirent_fill P =
     fold (\<lambda>i (d, j). if P i then (d(j := int i), Suc j) else (d, j)) [0..<FS_MAX_ENTCOUNT] (\<lambda>_. FS_DIRENTEND, 0)"

text \<open>\<open>fs_readDir\<close> returns whether it answers \<open>fs_RADirent\<close> or a null pointer.\<close>

definition fs_readDir :: "cstring \<Rightarrow> 'a fs_scheme \<Rightarrow> bool \<times> 'a fs_scheme" where
  "fs_readDir path s =
     (if \<not> fs_InitLock s then (False, s)
      else if path = [] \<or> path ! (length path - 1) \<noteq> slash then (False, s)
      else let entries = s\<lparr>fs_RADirent := fst (dirent_fill (under s path (length path)))\<rparr> in
        if sncompare path [slash] (length path) = 0 then (True, entries)
        else (case find_entry s path of
                None \<Rightarrow> (False, s)
              | Some i \<Rightarrow> if etype (ent_at s i) = FS_TYPE_DIR
                  then (True, stamp (fs_stat path s) atime_update entries) else (False, s)))"

text \<open>The walk over the parent directories of a new entry.\<close>

fun build_prefix :: "cstring list \<Rightarrow> cstring \<Rightarrow> cstring" where
  "build_prefix [] buf = buf"
| "build_prefix (t # ts) buf = build_prefix ts (buf @ t @ [slash])"

definition dir_exists :: "'a fs_scheme \<Rightarrow> cstring \<Rightarrow> bool" where
  "dir_exists s path \<longleftrightarrow> scan (\<lambda>j. named s path j \<and> etype (ent_at s j) = FS_TYPE_DIR) 0 FS_MAX_ENTCOUNT \<noteq> None"

fun check_parents :: "'a fs_scheme \<Rightarrow> cstring list \<Rightarrow> nat \<Rightarrow> nat \<Rightarrow> bool" where
  "check_parents s dirs i 0 = True"
| "check_parents s dirs i (Suc k) =
     (if dir_exists s (build_prefix (take (Suc i) dirs) [slash]) then check_parents s dirs (Suc i) k else False)"

definition parents_found :: "'a fs_scheme \<Rightarrow> cstring \<Rightarrow> bool res" where
  "parents_found s path =
     bindR (split path slash)
       (\<lambda>(dirs_v, dirs_c). Inr (check_parents s (map c_string (take dirs_c dirs_v)) 0 (dirs_c - 1)))"

text \<open>\<open>copy(ent->name, path)\<close> into the array of 3840 bytes.\<close>

definition copy_name :: "addr \<Rightarrow> cstring \<Rightarrow> 'a fs_scheme \<Rightarrow> 'a fs_scheme res" where
  "copy_name p path s = checkR (length path < FS_MAX_PATHLEN) Overrun (Inr (set_ent p (name_update (\<lambda>_. path)) s))"

definition stamp_all :: "addr \<Rightarrow> 'a fs_scheme \<Rightarrow> 'a fs_scheme" where
  "stamp_all p s = stamp p atime_update (stamp p mtime_update (stamp p ctime_update s))"

definition free_slot :: "'a fs_scheme \<Rightarrow> nat option" where
  "free_slot s = scan (\<lambda>i. fs_EntryV s i = 0) 0 FS_MAX_ENTCOUNT"

definition fs_createDir :: "cstring \<Rightarrow> 'a fs_scheme \<Rightarrow> (int \<times> 'a fs_scheme) res" where
  "fs_createDir path s =
     (if \<not> fs_InitLock s then Inr (FS_STS_NOTINIT, s)
      else if path = [] \<or> path ! (length path - 1) \<noteq> slash \<or> length path \<ge> FS_MAX_PATHLEN
        then Inr (FS_STS_FAILURE, s)
      else if scan (\<lambda>i. under s path (length path - 1) i \<and> etype (ent_at s i) = FS_TYPE_FILE) 0 FS_MAX_ENTCOUNT \<noteq> None
        then Inr (FS_STS_FILEEXISTS, s)
      else if (case find_entry s path of Some i \<Rightarrow> etype (ent_at s i) = FS_TYPE_DIR | None \<Rightarrow> False)
        then Inr (FS_STS_ALREADYEXISTS, s)
      else bindR (parents_found s path)
        (\<lambda>found. if \<not> found then Inr (FS_STS_PATHNOTFOUND, s)
          else case free_slot s of
            None \<Rightarrow> Inr (FS_STS_OUTOFMEMORY, s)
          | Some index \<Rightarrow>
              bindR (malloc MEMORY_BLKSIZE s)
                (\<lambda>(p, s1). if p = 0 then Inr (FS_STS_OUTOFMEMORY, s1)
                  else bindR (copy_name p path (s1\<lparr>fs_EntryV := (fs_EntryV s1)(index := p)\<rparr>))
                    (\<lambda>s2. Inr (FS_STS_SUCCESS,
                       set_ent p (\<lambda>e. e\<lparr>perm := 0x1FF, etype := FS_TYPE_DIR\<rparr>)
                         (stamp_all p (set_ent p (\<lambda>e. e\<lparr>user := 0, group := 0\<rparr>) s2)))))))"

section \<open>Files\<close>

text \<open>The bytes of a file start one block behind its entry.\<close>

definition data_of :: "addr \<Rightarrow> addr" where
  "data_of p = wrap32 (p + MEMORY_BLKSIZE)"

definition fs_readFile :: "cstring \<Rightarrow> 'a fs_scheme \<Rightarrow> (addr \<times> 'a fs_scheme) res" where
  "fs_readFile path s =
     (if \<not> fs_InitLock s then Inr (0, s)
      else case find_entry s path of
        None \<Rightarrow> Inr (0, s)
      | Some i \<Rightarrow>
          if etype (ent_at s i) = FS_TYPE_FILE then
            let s1 = stamp (fs_stat path s) atime_update s; e = ent_at s1 i in
            if ftype e = FS_TYPE_MOUNTED then
              if mountmgr_MountT s1 = 0 then Inr (0, s1)
              else checkR (0 \<le> mountslot e \<and> mountslot e < int MOUNTMGR_MOUNTLIMIT) OutOfBounds
                (Inr (mountmgr_MountV s1 (nat (mountslot e)), s1))
            else Inr (data_of (fs_EntryV s1 i), s1)
          else Inr (0, s))"

text \<open>The condition of the first loop of \<open>fs_writeFile\<close>: a directory called \<open>path\<close> followed by \<open>/\<close>.\<close>

definition dir_clash :: "'a fs_scheme \<Rightarrow> cstring \<Rightarrow> nat \<Rightarrow> bool" where
  "dir_clash s path i \<longleftrightarrow>
     (let nm = name (ent_at s i) in
      fs_EntryV s i \<noteq> 0 \<and> nm \<noteq> [] \<and> etype (ent_at s i) = FS_TYPE_DIR \<and>
      nm ! (length nm - 1) = slash \<and> length path + 1 = length nm \<and> sncompare nm path (length path) = 0)"

text \<open>\<open>ncopy((char*)ent + MEMORY_BLKSIZE, buf, size)\<close>.\<close>

definition put_data :: "addr \<Rightarrow> nat \<Rightarrow> addr \<Rightarrow> 'a fs_scheme \<Rightarrow> 'a fs_scheme" where
  "put_data p sz buf s = s\<lparr>mem := ncopy (mem s) (data_of p) buf sz\<rparr>"

text \<open>The branch of an existing file. \<open>realloc\<close> moves the block with its header, so the header
  is found again at the new address.\<close>

definition overwrite_file :: "nat \<Rightarrow> nat \<Rightarrow> addr \<Rightarrow> 'a fs_scheme \<Rightarrow> (int \<times> 'a fs_scheme) res" where
  "overwrite_file i sz buf s =
     (if etype (ent_at s i) = FS_TYPE_DIR then Inr (FS_STS_NOTFILE, s)
      else let old = fs_EntryV s i in
        bindR (realloc old (wrap32 (sz + MEMORY_BLKSIZE)) s)
          (\<lambda>(p, s1). if p = 0 then Inr (FS_STS_OUTOFMEMORY, s1)
            else let s2 = s1\<lparr>fs_ent := (fs_ent s1)(p := fs_ent s1 old), fs_EntryV := (fs_EntryV s1)(i := p)\<rparr>;
                     s3 = set_ent p (fsize_update (\<lambda>_. sz)) (put_data p sz buf s2)
                 in Inr (FS_STS_SUCCESS, stamp p atime_update (stamp p mtime_update s3))))"

text \<open>The branch of a new file.\<close>

definition create_file :: "cstring \<Rightarrow> nat \<Rightarrow> addr \<Rightarrow> 'a fs_scheme \<Rightarrow> (int \<times> 'a fs_scheme) res" where
  "create_file path sz buf s =
     (case free_slot s of
        None \<Rightarrow> Inr (FS_STS_OUTOFMEMORY, s)
      | Some i \<Rightarrow>
          bindR (malloc (wrap32 (MEMORY_BLKSIZE + sz)) s)
            (\<lambda>(p, s1). if p = 0 then Inr (FS_STS_OUTOFMEMORY, s1)
              else bindR (copy_name p path (s1\<lparr>fs_EntryV := (fs_EntryV s1)(i := p)\<rparr>))
                (\<lambda>s2. Inr (FS_STS_SUCCESS,
                   put_data p sz buf
                    (set_ent p (\<lambda>e. e\<lparr>perm := 0x1FF, etype := FS_TYPE_FILE, ftype := FS_TYPE_FILE\<rparr>)
                      (stamp_all p (set_ent p (\<lambda>e. e\<lparr>user := 0, group := 0, fsize := sz\<rparr>) s2)))))))"

definition fs_writeFile :: "cstring \<Rightarrow> nat \<Rightarrow> addr \<Rightarrow> 'a fs_scheme \<Rightarrow> (int \<times> 'a fs_scheme) res" where
  "fs_writeFile path sz buf s =
     (if \<not> fs_InitLock s then Inr (FS_STS_NOTINIT, s)
      else if path = [] \<or> path ! (length path - 1) = slash then Inr (FS_STS_FAILURE, s)
      else if buf = 0 \<and> sz \<noteq> 0 then Inr (FS_STS_FAILURE, s)
      else if scan (dir_clash s path) 0 FS_MAX_ENTCOUNT \<noteq> None then Inr (FS_STS_DIREXISTS, s)
      else case find_entry s path of
        Some i \<Rightarrow> overwrite_file i sz buf s
      | None \<Rightarrow>
          bindR (parents_found s path)
            (\<lambda>found. if \<not> found then Inr (FS_STS_PATHNOTFOUND, s) else create_file path sz buf s))"

section \<open>Removal\<close>

definition drop_entry :: "nat \<Rightarrow> 'a fs_scheme \<Rightarrow> 'a fs_scheme res" where
  "drop_entry i s =
     bindR (Memory.free (fs_EntryV s i) s) (\<lambda>s1. Inr (s1\<lparr>fs_EntryV := (fs_EntryV s1)(i := 0)\<rparr>))"

definition with_slash :: "cstring \<Rightarrow> cstring" where
  "with_slash path = (if path ! (length path - 1) \<noteq> slash then path @ [slash] else path)"

definition fs_remove :: "cstring \<Rightarrow> 'a fs_scheme \<Rightarrow> (int \<times> 'a fs_scheme) res" where
  "fs_remove path s =
     (if \<not> fs_InitLock s then Inr (FS_STS_NOTINIT, s)
      else if compare path [slash] = 0 then Inr (FS_STS_FAILURE, s)
      else case find_entry s path of
        None \<Rightarrow> Inr (FS_STS_ENTRYNOTFOUND, s)
      | Some i \<Rightarrow>
          let dir = with_slash path in
          if etype (ent_at s i) = FS_TYPE_DIR \<and>
             scan (\<lambda>j. under s dir (length dir) j \<and> length (name (ent_at s j)) > length dir) 0 FS_MAX_ENTCOUNT \<noteq> None
          then Inr (FS_STS_DIRNOTEMPTY, s)
          else bindR (drop_entry i s) (\<lambda>s1. Inr (FS_STS_SUCCESS, s1)))"

fun bulk_loop :: "cstring \<Rightarrow> nat \<Rightarrow> nat \<Rightarrow> 'a fs_scheme \<Rightarrow> 'a fs_scheme res" where
  "bulk_loop path i 0 s = Inr s"
| "bulk_loop path i (Suc k) s =
     (if under s path (length path) i then bindR (drop_entry i s) (bulk_loop path (Suc i) k)
      else bulk_loop path (Suc i) k s)"

definition fs_bulkRemove :: "cstring \<Rightarrow> 'a fs_scheme \<Rightarrow> (int \<times> 'a fs_scheme) res" where
  "fs_bulkRemove path s =
     (if \<not> fs_InitLock s then Inr (FS_STS_NOTINIT, s)
      else if fs_stat path s = 0 then Inr (FS_STS_PATHNOTFOUND, s)
      else if etype (fs_ent s (fs_stat path s)) \<noteq> FS_TYPE_DIR then fs_remove path s
      else bindR (bulk_loop path 0 FS_MAX_ENTCOUNT s) (\<lambda>s1. Inr (FS_STS_SUCCESS, s1)))"

section \<open>Initialisation\<close>

definition alloc_or_panic :: "(addr \<times> 'a fs_scheme) res \<Rightarrow> (addr \<Rightarrow> 'a fs_scheme \<Rightarrow> 'b res) \<Rightarrow> 'b res" where
  "alloc_or_panic m f = bindR m (\<lambda>(p, s). if p = 0 then Inl (Panic ''Out of memory'') else f p s)"

definition corefs_init :: "'a fs_scheme \<Rightarrow> (int \<times> 'a fs_scheme) res" where
  "corefs_init s =
     (if fs_InitLock s then Inr (FS_STS_FAILURE, s)
      else alloc_or_panic (calloc FS_MAX_ENTCOUNT 4 s) (\<lambda>v s1.
           alloc_or_panic (malloc sizeof_Entry s1) (\<lambda>root s2.
           alloc_or_panic (malloc (FS_MAX_ENTCOUNT * 4) s2) (\<lambda>d s3.
           alloc_or_panic (malloc FS_MAX_PATHLEN s3) (\<lambda>ra s4.
             let s5 = s4\<lparr>fs_EntryT := v, fs_EntryV := (\<lambda>_. 0)(0 := root), fs_RADirentT := d, fs_RAPathT := ra\<rparr>;
                 s6 = stamp_all root (set_ent root (\<lambda>e. e\<lparr>name := [slash], user := 0, group := 0\<rparr>) s5);
                 s7 = set_ent root (\<lambda>e. e\<lparr>perm := 0x1FF, etype := FS_TYPE_DIR\<rparr>) s6
             in Inr (FS_STS_SUCCESS, s7\<lparr>fs_InitLock := True\<rparr>))))))"

section \<open>The heap under the file system's fields\<close>

lemma mm_inv_frame [simp]:
  "mm_inv (s\<lparr>ticks := t\<rparr>) = mm_inv s"
  "mm_inv (s\<lparr>tty := y\<rparr>) = mm_inv s"
  "mm_inv (f\<lparr>fs_ent := e\<rparr>) = mm_inv f"
  "mm_inv (f\<lparr>fs_EntryV := v\<rparr>) = mm_inv f"
  "mm_inv (f\<lparr>fs_RADirent := d\<rparr>) = mm_inv f"
  by (simp_all add: mm_inv_def)

lemma live_frame [simp]:
  "live (s\<lparr>ticks := n\<rparr>) = live s"
  "live (s\<lparr>tty := y\<rparr>) = live s"
  "live (f\<lparr>fs_ent := e\<rparr>) = live f"
  "live (f\<lparr>fs_EntryV := v\<rparr>) = live f"
  "live (f\<lparr>fs_RADirent := d\<rparr>) = live f"
  by (rule live_cong; simp)+

lemma fits_frame [simp]: "fits (f\<lparr>fs_EntryV := v\<rparr>) = fits f" "fits (f\<lparr>fs_ent := e\<rparr>) = fits f"
  by (simp_all add: fits_def fun_eq_iff)

section \<open>Invariant and abstract view\<close>

definition in_use :: "'a fs_scheme \<Rightarrow> nat \<Rightarrow> bool" where
  "in_use s i \<longleftrightarrow> i < FS_MAX_ENTCOUNT \<and> fs_EntryV s i \<noteq> 0"

definition ends_slash :: "cstring \<Rightarrow> bool" where
  "ends_slash path \<longleftrightarrow> path \<noteq> [] \<and> path ! (length path - 1) = slash"

text \<open>The entry keeps its bytes behind its header: it is a file, and not one whose bytes are mounted.\<close>

definition own_bytes :: "fs_Entry \<Rightarrow> bool" where
  "own_bytes e \<longleftrightarrow> etype e = FS_TYPE_FILE \<and> ftype e \<noteq> FS_TYPE_MOUNTED"

definition held :: "fs_Entry \<Rightarrow> u8 list \<Rightarrow> u8 list" where
  "held e bs = (if ftype e = FS_TYPE_MOUNTED then [] else bs)"

definition entry_ok :: "fs_Entry \<Rightarrow> nat option \<Rightarrow> bool" where
  "entry_ok e r \<longleftrightarrow>
     (\<exists>k. r = Some k \<and> MEMORY_BLKSIZE \<le> k \<and> (own_bytes e \<longrightarrow> MEMORY_BLKSIZE + fsize e \<le> k)) \<and>
     is_cstr (name e) \<and> name e \<noteq> [] \<and> length (name e) < FS_MAX_PATHLEN \<and>
     etype e = (if ends_slash (name e) then FS_TYPE_DIR else FS_TYPE_FILE)"

definition fs_inv :: "'a fs_scheme \<Rightarrow> bool" where
  "fs_inv s \<longleftrightarrow> mm_inv s \<and> fs_InitLock s \<and>
     (\<forall>i. in_use s i \<longrightarrow> entry_ok (ent_at s i) (live s (fs_EntryV s i))) \<and>
     (\<forall>i j. in_use s i \<longrightarrow> in_use s j \<longrightarrow>
        fs_EntryV s i = fs_EntryV s j \<or> name (ent_at s i) = name (ent_at s j) \<longrightarrow> i = j)"

text \<open>What the file system holds under a path: the header, and the bytes if they are its own.\<close>

definition bytes_at :: "'a fs_scheme \<Rightarrow> nat \<Rightarrow> u8 list" where
  "bytes_at s i =
     (if own_bytes (ent_at s i)
      then mread (mem s) (data_of (fs_EntryV s i)) (fsize (ent_at s i)) else [])"

definition fs_view :: "'a fs_scheme \<Rightarrow> cstring \<Rightarrow> (fs_Entry \<times> u8 list) option" where
  "fs_view s path =
     (if is_cstr path then map_option (\<lambda>i. (ent_at s i, bytes_at s i)) (find_entry s path) else None)"

lemma fs_invD:
  assumes "fs_inv s"
  shows "mm_inv s" "fs_InitLock s" "in_use s i \<Longrightarrow> entry_ok (ent_at s i) (live s (fs_EntryV s i))"
    "in_use s i \<Longrightarrow> in_use s j \<Longrightarrow> fs_EntryV s i = fs_EntryV s j \<Longrightarrow> i = j"
    "in_use s i \<Longrightarrow> in_use s j \<Longrightarrow> name (ent_at s i) = name (ent_at s j) \<Longrightarrow> i = j"
  using assms by (auto simp: fs_inv_def)

lemma entry_okD:
  assumes "entry_ok e r"
  shows "is_cstr (name e)" "name e \<noteq> []" "length (name e) < FS_MAX_PATHLEN"
    "\<exists>k. r = Some k \<and> MEMORY_BLKSIZE \<le> k"
    "ends_slash (name e) \<Longrightarrow> etype e = FS_TYPE_DIR" "\<not> ends_slash (name e) \<Longrightarrow> etype e = FS_TYPE_FILE"
  using assms by (auto simp: entry_ok_def)

lemma in_use_live:
  assumes "fs_inv s" "in_use s i"
  shows "\<exists>k. live s (fs_EntryV s i) = Some k \<and> MEMORY_BLKSIZE \<le> k \<and>
    (own_bytes (ent_at s i) \<longrightarrow> MEMORY_BLKSIZE + fsize (ent_at s i) \<le> k) \<and>
    fs_EntryV s i + k < 4294967296"
proof -
  from fs_invD(3) [OF assms] obtain k where k: "live s (fs_EntryV s i) = Some k" "MEMORY_BLKSIZE \<le> k"
    "own_bytes (ent_at s i) \<longrightarrow> MEMORY_BLKSIZE + fsize (ent_at s i) \<le> k"
    by (auto simp: entry_ok_def)
  have "memory_Limit s < 4294967296" using fs_invD(1) [OF assms(1)] unfolding mm_inv_def by blast
  then have "fs_EntryV s i + k < 4294967296"
    using live_bounds(2) [OF fs_invD(1) [OF assms(1)] k(1)] by simp
  with k show ?thesis by (intro exI [of _ k] conjI)
qed

lemma data_of_in_use: "fs_inv s \<Longrightarrow> in_use s i \<Longrightarrow> data_of (fs_EntryV s i) = fs_EntryV s i + MEMORY_BLKSIZE"
  using in_use_live [of s i] by (auto simp: data_of_def)

lemma named_iff:
  assumes "fs_inv s" "is_cstr path"
  shows "i < FS_MAX_ENTCOUNT \<and> named s path i \<longleftrightarrow> in_use s i \<and> name (ent_at s i) = path"
proof (cases "in_use s i")
  case True
  then show ?thesis
    using entry_okD(1,2) [OF fs_invD(3) [OF assms(1) True]] assms(2)
    by (auto simp: named_def in_use_def compare_eq_0)
qed (auto simp: named_def in_use_def)

lemma find_entry_Some:
  assumes "fs_inv s" "is_cstr path"
  shows "find_entry s path = Some i \<longleftrightarrow> in_use s i \<and> name (ent_at s i) = path"
proof
  assume "find_entry s path = Some i"
  then have "i < FS_MAX_ENTCOUNT \<and> named s path i" by (simp add: find_entry_def scan_Some_iff)
  then show "in_use s i \<and> name (ent_at s i) = path" using named_iff [OF assms] by blast
next
  assume "in_use s i \<and> name (ent_at s i) = path"
  then have i: "i < FS_MAX_ENTCOUNT" "named s path i" using named_iff [OF assms] by blast+
  show "find_entry s path = Some i"
    unfolding find_entry_def
  proof (rule scan_unique [where P = "named s path", OF i(2) _ i(1)])
    fix j assume "0 \<le> j" "j < FS_MAX_ENTCOUNT" "named s path j"
    then show "j = i" using i named_iff [OF assms] fs_invD(5) [OF assms(1)] by metis
  qed simp
qed

lemma find_entry_None:
  assumes "fs_inv s" "is_cstr path"
  shows "find_entry s path = None \<longleftrightarrow> (\<forall>i. in_use s i \<longrightarrow> name (ent_at s i) \<noteq> path)"
  using find_entry_Some [OF assms] by (cases "find_entry s path") auto

lemma fs_view_Some:
  assumes "fs_inv s"
  shows "fs_view s path = Some (e, bs) \<longleftrightarrow>
     (\<exists>i. in_use s i \<and> name (ent_at s i) = path \<and> e = ent_at s i \<and> bs = bytes_at s i)"
proof (cases "is_cstr path")
  case True
  then show ?thesis using find_entry_Some [OF assms True] by (auto simp: fs_view_def)
next
  case False
  then show ?thesis using entry_okD(1) [OF fs_invD(3) [OF assms]] by (auto simp: fs_view_def)
qed

lemma fs_view_None:
  assumes "fs_inv s"
  shows "fs_view s path = None \<longleftrightarrow> (\<forall>i. in_use s i \<longrightarrow> name (ent_at s i) \<noteq> path)"
proof (cases "fs_view s path")
  case None
  then show ?thesis using fs_view_Some [OF assms, of path] by auto
next
  case (Some v)
  then obtain e bs where "fs_view s path = Some (e, bs)" by (cases v) auto
  then show ?thesis using fs_view_Some [OF assms, of path e bs] by auto
qed

lemma fs_viewI: "fs_inv s \<Longrightarrow> in_use s i \<Longrightarrow> name (ent_at s i) = path \<Longrightarrow> fs_view s path = Some (ent_at s i, bytes_at s i)"
  using fs_view_Some by blast

text \<open>Two states whose slots agree on one path agree there.\<close>

lemma fs_view_eqI:
  assumes "fs_inv s" "fs_inv s'"
    and "\<And>i. in_use s i \<Longrightarrow> name (ent_at s i) = path \<Longrightarrow>
        in_use s' i \<and> ent_at s' i = ent_at s i \<and> bytes_at s' i = bytes_at s i"
    and "\<And>i. in_use s' i \<Longrightarrow> name (ent_at s' i) = path \<Longrightarrow> in_use s i \<and> name (ent_at s i) = path"
  shows "fs_view s' path = fs_view s path"
proof (cases "\<exists>i. in_use s i \<and> name (ent_at s i) = path")
  case True
  then obtain i where i: "in_use s i" "name (ent_at s i) = path" by blast
  with assms(3) [OF i] show ?thesis
    using fs_viewI [OF assms(1) i] fs_viewI [OF assms(2), of i path] by simp
next
  case False
  then have "fs_view s path = None" "fs_view s' path = None"
    using assms(4) by (auto simp: fs_view_None [OF assms(1)] fs_view_None [OF assms(2)])
  then show ?thesis by simp
qed

lemma mread_sub: "mread m a n = mread m' a n \<Longrightarrow> a \<le> b \<Longrightarrow> b + k \<le> a + n \<Longrightarrow> mread m b k = mread m' b k"
proof (rule mread_cong)
  fix i assume h: "mread m a n = mread m' a n" "a \<le> b" "b + k \<le> a + n" "i < k"
  then have "mread m a n ! (b + i - a) = mread m' a n ! (b + i - a)" by simp
  moreover have "b + i - a < n" "a + (b + i - a) = b + i" using h by simp_all
  ultimately show "m (b + i) = m' (b + i)" by simp
qed

text \<open>A region of the heap that belongs to no entry.\<close>

definition spare :: "'a fs_scheme \<Rightarrow> addr \<Rightarrow> nat \<Rightarrow> bool" where
  "spare s r k \<longleftrightarrow> live s r = Some k \<and> (\<forall>i. in_use s i \<longrightarrow> fs_EntryV s i \<noteq> r)"

section \<open>Placing and dropping an entry\<close>

text \<open>Both ways of writing a file, and the creation of a directory, put the entry \<open>e\<close> of a
  fresh region \<open>p\<close> into slot \<open>i\<close>.\<close>

lemma place_entry:
  assumes inv: "fs_inv s" and i: "i < FS_MAX_ENTCOUNT" and p: "p \<noteq> 0" "live s p = None"
    and s': "mm_inv s'" "fs_InitLock s'" "fs_EntryV s' = (fs_EntryV s)(i := p)" "fs_ent s' = (fs_ent s)(p := e)"
    and live: "\<And>q. q \<noteq> fs_EntryV s i \<Longrightarrow> q \<noteq> p \<Longrightarrow> live s' q = live s q"
    and e: "entry_ok e (live s' p)"
    and fresh: "\<And>j. in_use s j \<Longrightarrow> j \<noteq> i \<Longrightarrow> name (ent_at s j) \<noteq> name e"
    and slot: "in_use s i \<Longrightarrow> name (ent_at s i) = name e"
    and mem: "\<And>q k. live s q = Some k \<Longrightarrow> q \<noteq> fs_EntryV s i \<Longrightarrow> mread (mem s') q k = mread (mem s) q k"
  shows "fs_inv s' \<and> fs_view s' = (fs_view s)(name e \<mapsto> (e, bytes_at s' i)) \<and> (\<forall>r k. spare s r k \<longrightarrow> spare s' r k)"
proof -
  have at_i: "in_use s' i" "ent_at s' i = e" "fs_EntryV s' i = p"
    using i p(1) s'(3,4) by (simp_all add: in_use_def ent_at_def)
  have other: "in_use s' j = in_use s j" "fs_EntryV s' j = fs_EntryV s j" if "j \<noteq> i" for j
    using that s'(3) by (simp_all add: in_use_def)
  have ne_p: "fs_EntryV s j \<noteq> p" if "in_use s j" for j
    using in_use_live [OF inv that] p(2) by (metis option.distinct(1))
  have keep: "ent_at s' j = ent_at s j" "live s' (fs_EntryV s j) = live s (fs_EntryV s j)"
    "bytes_at s' j = bytes_at s j" if jn: "j \<noteq> i" "in_use s j" for j
  proof -
    have old: "fs_EntryV s j \<noteq> fs_EntryV s i"
    proof
      assume eq: "fs_EntryV s j = fs_EntryV s i"
      then have "in_use s i" using jn(2) i by (simp add: in_use_def)
      with fs_invD(4) [OF inv jn(2) this eq] jn(1) show False by simp
    qed
    show ent: "ent_at s' j = ent_at s j" using s'(4) other(2) [OF jn(1)] ne_p [OF jn(2)] by (simp add: ent_at_def)
    show "live s' (fs_EntryV s j) = live s (fs_EntryV s j)" using live [OF old] ne_p [OF jn(2)] by simp
    from in_use_live [OF inv jn(2)] obtain k where k: "live s (fs_EntryV s j) = Some k"
      "own_bytes (ent_at s j) \<longrightarrow> MEMORY_BLKSIZE + fsize (ent_at s j) \<le> k"
      by (elim exE conjE)
    have "mread (mem s') (fs_EntryV s j) k = mread (mem s) (fs_EntryV s j) k" using mem [OF k(1) old] .
    then have "mread (mem s') (data_of (fs_EntryV s j)) (fsize (ent_at s j)) =
        mread (mem s) (data_of (fs_EntryV s j)) (fsize (ent_at s j))" if "own_bytes (ent_at s j)"
      by (rule mread_sub) (use k(2) that in \<open>simp_all add: data_of_in_use [OF inv \<open>in_use s j\<close>]\<close>)
    then show "bytes_at s' j = bytes_at s j"
      using ent other(2) [OF jn(1)] by (auto simp: bytes_at_def)
  qed
  have inv': "fs_inv s'"
    unfolding fs_inv_def
  proof (intro conjI allI impI)
    show "mm_inv s'" "fs_InitLock s'" by fact+
  next
    fix j assume "in_use s' j"
    then show "entry_ok (ent_at s' j) (live s' (fs_EntryV s' j))"
      using at_i e keep other fs_invD(3) [OF inv, of j] by (cases "j = i") auto
  next
    fix j k assume jk: "in_use s' j" "in_use s' k"
      "fs_EntryV s' j = fs_EntryV s' k \<or> name (ent_at s' j) = name (ent_at s' k)"
    show "j = k"
    proof (cases "j = i"; cases "k = i")
      assume "j = i" "k \<noteq> i"
      then show ?thesis using jk at_i other keep ne_p [of k] fresh [of k] by auto
    next
      assume "j \<noteq> i" "k = i"
      then show ?thesis using jk at_i other keep ne_p [of j] fresh [of j] by auto
    next
      assume "j \<noteq> i" "k \<noteq> i"
      then show ?thesis using jk other keep fs_invD(4,5) [OF inv, of j k] by auto
    qed simp
  qed
  have "fs_view s' path = ((fs_view s)(name e \<mapsto> (e, bytes_at s' i))) path" for path
  proof (cases "path = name e")
    case True
    then show ?thesis using fs_viewI [OF inv' at_i(1), of path] at_i(2) by simp
  next
    case False
    have "fs_view s' path = fs_view s path"
    proof (rule fs_view_eqI [OF inv inv'])
      fix j assume j: "in_use s j" "name (ent_at s j) = path"
      then have "j \<noteq> i" using slot False by auto
      with j show "in_use s' j \<and> ent_at s' j = ent_at s j \<and> bytes_at s' j = bytes_at s j"
        using other keep by simp
    next
      fix j assume j: "in_use s' j" "name (ent_at s' j) = path"
      then have "j \<noteq> i" using at_i False by auto
      with j show "in_use s j \<and> name (ent_at s j) = path" using other keep by simp
    qed
    with False show ?thesis by simp
  qed
  then have view: "fs_view s' = (fs_view s)(name e \<mapsto> (e, bytes_at s' i))" by (rule ext)
  have "spare s' r k" if r: "spare s r k" for r k
  proof -
    have rp: "r \<noteq> p" using r p(2) by (auto simp: spare_def)
    have "r \<noteq> 0" using r live_bounds(4) [OF fs_invD(1) [OF inv]] by (auto simp: spare_def)
    then have ri: "r \<noteq> fs_EntryV s i" using r i by (auto simp: spare_def in_use_def)
    have "fs_EntryV s' j \<noteq> r" if "in_use s' j" for j
      using that r rp at_i other by (cases "j = i") (auto simp: spare_def)
    then show ?thesis using r live [OF ri rp] by (simp add: spare_def)
  qed
  with inv' view show ?thesis by blast
qed

lemma drop_entry_view:
  assumes inv: "fs_inv s" and i: "in_use s i"
  shows "\<exists>s'. drop_entry i s = Inr s' \<and> fs_inv s' \<and>
    fs_view s' = (fs_view s)(name (ent_at s i) := None) \<and>
    fs_EntryV s' = (fs_EntryV s)(i := 0) \<and> fs_ent s' = fs_ent s"
proof -
  obtain k where k: "live s (fs_EntryV s i) = Some k" using in_use_live [OF inv i] by auto
  obtain V where V: "Memory.free (fs_EntryV s i) s = Inr (s\<lparr>memory_BlockV := V\<rparr>)"
    "mm_inv (s\<lparr>memory_BlockV := V\<rparr>)"
    "live (s\<lparr>memory_BlockV := V\<rparr>) = (live s)(fs_EntryV s i := None)"
    using free_live [OF fs_invD(1) [OF inv] k] by auto
  define s' where "s' = s\<lparr>memory_BlockV := V, fs_EntryV := (fs_EntryV s)(i := 0)\<rparr>"
  have drop: "drop_entry i s = Inr s'" by (simp add: drop_entry_def V s'_def)
  have use': "in_use s' j \<longleftrightarrow> in_use s j \<and> j \<noteq> i" for j by (auto simp: in_use_def s'_def)
  have keep: "ent_at s' j = ent_at s j" "bytes_at s' j = bytes_at s j"
    "fs_EntryV s' j = fs_EntryV s j" if "j \<noteq> i" for j
    using that by (simp_all add: s'_def ent_at_def bytes_at_def)
  have live': "live s' = (live s)(fs_EntryV s i := None)" using V(3) by (simp add: s'_def)
  have inv': "fs_inv s'"
    unfolding fs_inv_def
  proof (intro conjI allI impI)
    show "mm_inv s'" using V(2) by (simp add: s'_def)
    show "fs_InitLock s'" using fs_invD(2) [OF inv] by (simp add: s'_def)
  next
    fix j assume j: "in_use s' j"
    then have "fs_EntryV s j \<noteq> fs_EntryV s i" using use' i fs_invD(4) [OF inv] by blast
    then show "entry_ok (ent_at s' j) (live s' (fs_EntryV s' j))"
      using j use' keep live' fs_invD(3) [OF inv, of j] by simp
  next
    fix j k assume "in_use s' j" "in_use s' k"
      "fs_EntryV s' j = fs_EntryV s' k \<or> name (ent_at s' j) = name (ent_at s' k)"
    then show "j = k" using use' keep fs_invD(4,5) [OF inv, of j k] by auto
  qed
  have "fs_view s' path = ((fs_view s)(name (ent_at s i) := None)) path" for path
  proof (cases "path = name (ent_at s i)")
    case True
    have "fs_view s' path = None"
      using use' keep True fs_invD(5) [OF inv i] by (fastforce simp: fs_view_None [OF inv'])
    with True show ?thesis by simp
  next
    case False
    have "fs_view s' path = fs_view s path"
      by (rule fs_view_eqI [OF inv inv']) (use use' keep False in auto)
    with False show ?thesis by simp
  qed
  then have "fs_view s' = (fs_view s)(name (ent_at s i) := None)" by (rule ext)
  with drop inv' show ?thesis by (intro exI [of _ s']) (simp add: s'_def)
qed

section \<open>Writing\<close>

text \<open>The source buffer lies outside the heap, or inside one of its regions.\<close>

definition buf_ok :: "'a fs_scheme \<Rightarrow> addr \<Rightarrow> nat \<Rightarrow> bool" where
  "buf_ok s buf sz \<longleftrightarrow>
     (buf \<noteq> 0 \<or> sz = 0) \<and>
     (buf + sz \<le> memory_Space s \<or> memory_Limit s \<le> buf \<or> (\<exists>q k. live s q = Some k \<and> q \<le> buf \<and> buf + sz \<le> q + k))"

lemma buf_disj:
  assumes "buf_ok s buf sz" "memory_Space s \<le> p" "p + n \<le> memory_Limit s"
    and "\<And>q k. live s q = Some k \<Longrightarrow> disj q k p n"
  shows "disj buf sz p n"
proof -
  consider "buf + sz \<le> memory_Space s" | "memory_Limit s \<le> buf"
    | q k where "live s q = Some k" "q \<le> buf" "buf + sz \<le> q + k"
    using assms(1) by (auto simp: buf_ok_def)
  then show ?thesis
  proof cases
    case 3
    from assms(4) [OF 3(1)] 3(2,3) show ?thesis by (rule disj_mono) simp_all
  qed (use assms(2,3) in \<open>auto simp: disj_def\<close>)
qed

lemma fresh_region:
  assumes "mm_inv s" "fits s sz" "malloc sz s = Inr (p, s')" "p \<noteq> 0"
  shows "memory_Space s \<le> p" "p + sz \<le> memory_Limit s" "live s q = Some k \<Longrightarrow> disj q k p sz"
proof -
  note ml = malloc_live [OF assms]
  have frame: "memory_Space s' = memory_Space s" "memory_Limit s' = memory_Limit s"
    using malloc_frame [OF assms(3)] by auto
  have p: "live s' p = Some (nblocks sz * MEMORY_BLKSIZE)" using ml(2) by simp
  have n: "sz \<le> nblocks sz * MEMORY_BLKSIZE" using assms(2) by (intro nblocks_ge) (simp add: fits_def)
  show "memory_Space s \<le> p" "p + sz \<le> memory_Limit s" using live_bounds(1,2) [OF ml(3) p] n frame by auto
  assume "live s q = Some k"
  then show "disj q k p sz" by (rule heap.alloc_fresh(3) [OF assms])
qed

lemma realloc_region:
  assumes "mm_inv s" "live s p = Some k" "fits s sz" "realloc p sz s = Inr (q, s')" "q \<noteq> 0"
  shows "memory_Space s \<le> q" "q + sz \<le> memory_Limit s" "live s r = Some j \<Longrightarrow> disj r j q sz"
proof -
  note rl = realloc_live [OF assms]
  have frame: "memory_Space s' = memory_Space s" "memory_Limit s' = memory_Limit s" using rl(1) by auto
  have pq: "p \<noteq> q" using rl(3) assms(2) by auto
  then have q: "live s' q = Some (nblocks sz * MEMORY_BLKSIZE)" using rl(4) by simp
  have n: "sz \<le> nblocks sz * MEMORY_BLKSIZE" using assms(3) by (intro nblocks_ge) (simp add: fits_def)
  show "memory_Space s \<le> q" "q + sz \<le> memory_Limit s" using live_bounds(1,2) [OF rl(2) q] n frame by auto
  assume r: "live s r = Some j"
  show "disj r j q sz"
  proof (cases "r = p")
    case True
    with r assms(2) rl(5) show ?thesis by simp
  next
    case False
    have rq: "r \<noteq> q" using rl(3) r by auto
    then have "live s' r = Some j" using rl(4) r False by simp
    from live_disjoint [OF rl(2) this q rq] n show ?thesis by (auto simp: disj_def)
  qed
qed

lemma stamp_eq: "stamp p upd s = set_ent p (upd (\<lambda>_. fst (date s))) (s\<lparr>ticks := ticks s + 6\<rparr>)"
  by (simp add: stamp_def date_def)

lemmas ent_defs = set_ent_def stamp_eq put_data_def stamp_all_def copy_name_def

lemma ends_slash_iff: "path \<noteq> [] \<Longrightarrow> path ! (length path - 1) = slash \<longleftrightarrow> ends_slash path"
  by (simp add: ends_slash_def)

lemma overwrite_file_view:
  assumes inv: "fs_inv s" and i: "in_use s i" "name (ent_at s i) = path" "\<not> ends_slash path"
    and fit: "fits s (MEMORY_BLKSIZE + sz)" and buf: "buf_ok s buf sz"
  shows "\<exists>st s'. overwrite_file i sz buf s = Inr (st, s') \<and> fs_inv s' \<and> (\<forall>r k. spare s r k \<longrightarrow> spare s' r k) \<and>
    (if st = FS_STS_SUCCESS then
       \<exists>e. fs_view s' = (fs_view s)(path \<mapsto> (e, held e (mread (mem s) buf sz))) \<and>
         fsize e = sz \<and> etype e = FS_TYPE_FILE \<and> name e = path \<and> ftype e = ftype (ent_at s i) \<and> perm e = perm (ent_at s i)
     else st = FS_STS_OUTOFMEMORY \<and> s' = s)"
proof -
  let ?old = "fs_EntryV s i" and ?n = "MEMORY_BLKSIZE + sz"
  note mm = fs_invD(1) [OF inv] and ok = fs_invD(3) [OF inv i(1)]
  have ty: "etype (ent_at s i) = FS_TYPE_FILE" using entry_okD(6) [OF ok] i by simp
  obtain k where k: "live s ?old = Some k" using in_use_live [OF inv i(1)] by auto
  have lim: "memory_BlockC s * MEMORY_BLKSIZE + 4096 < 4294967296" by (rule mm_inv_room [OF mm])
  have w: "wrap32 (sz + MEMORY_BLKSIZE) = ?n" using fit lim by (simp add: fits_def)
  obtain q s1 where r: "realloc ?old ?n s = Inr (q, s1)" using realloc_total [OF mm k fit] by blast
  show ?thesis
  proof (cases "q = 0")
    case True
    then have "s1 = s" using realloc_null [OF mm k fit] r by simp
    then have "overwrite_file i sz buf s = Inr (FS_STS_OUTOFMEMORY, s)"
      using r True ty by (simp add: overwrite_file_def w)
    then show ?thesis using inv by (intro exI [of _ FS_STS_OUTOFMEMORY] exI [of _ s]) simp
  next
    case False
    note rl = realloc_live [OF mm k fit r False] and rr = realloc_region [OF mm k fit r False]
    from rl(1) obtain V where V: "s1 = s\<lparr>mem := ncopy (mem s) q ?old ?n, memory_BlockV := V\<rparr>" by blast
    have qold: "q \<noteq> ?old" using rl(3) k by auto
    define s2 where "s2 = s1\<lparr>fs_ent := (fs_ent s1)(q := fs_ent s1 ?old), fs_EntryV := (fs_EntryV s1)(i := q)\<rparr>"
    define s' where "s' = stamp q atime_update (stamp q mtime_update
        (set_ent q (fsize_update (\<lambda>_. sz)) (put_data q sz buf s2)))"
    have over: "overwrite_file i sz buf s = Inr (FS_STS_SUCCESS, s')"
      using r False ty by (simp add: overwrite_file_def w s2_def s'_def)
    have qn: "q + ?n < 4294967296" using rr(2) mm unfolding mm_inv_def by linarith
    then have dq: "data_of q = q + MEMORY_BLKSIZE" by (simp add: data_of_def)
    have s'_fields: "fs_EntryV s' = (fs_EntryV s)(i := q)" "fs_ent s' = (fs_ent s)(q := fs_ent s' q)"
      "mem s' = ncopy (ncopy (mem s) q ?old ?n) (q + MEMORY_BLKSIZE) buf sz"
      "fs_InitLock s' = fs_InitLock s" "fsize (fs_ent s' q) = sz" "etype (fs_ent s' q) = etype (ent_at s i)" "name (fs_ent s' q) = name (ent_at s i)"
      "ftype (fs_ent s' q) = ftype (ent_at s i)" "perm (fs_ent s' q) = perm (ent_at s i)"
      by (simp_all add: s'_def s2_def ent_defs V dq ent_at_def)
    have live': "live s' = live s1" by (rule live_cong) (simp_all add: s'_def s2_def ent_defs)
    have mm': "mm_inv s'" using rl(2) mm_inv_cong [of s' s1] by (simp add: s'_def s2_def ent_defs)
    have nb: "?n \<le> nblocks ?n * MEMORY_BLKSIZE" by (rule nblocks_ge) simp
    have liveq: "live s' q = Some (nblocks ?n * MEMORY_BLKSIZE)" using live' rl(4) qold by simp
    have eok: "entry_ok (fs_ent s' q) (live s' q)"
      using ok nb liveq s'_fields(5-7) ty by (auto simp: entry_ok_def)
    have "fs_inv s' \<and> fs_view s' = (fs_view s)(name (fs_ent s' q) \<mapsto> (fs_ent s' q, bytes_at s' i)) \<and>
        (\<forall>r k. spare s r k \<longrightarrow> spare s' r k)"
    proof (rule place_entry [OF inv _ False rl(3) _ _ s'_fields(1,2) _ eok])
      show "i < FS_MAX_ENTCOUNT" using i(1) by (simp add: in_use_def)
      show "mm_inv s'" by (rule mm')
      show "fs_InitLock s'" using s'_fields(4) fs_invD(2) [OF inv] by simp
      show "live s' r = live s r" if "r \<noteq> ?old" "r \<noteq> q" for r using that live' rl(4) by simp
      show "name (ent_at s j) \<noteq> name (fs_ent s' q)" if "in_use s j" "j \<noteq> i" for j
        using that s'_fields(7) fs_invD(5) [OF inv that(1) i(1)] by auto
      show "name (ent_at s i) = name (fs_ent s' q)" using s'_fields(7) by simp
      show "mread (mem s') r j = mread (mem s) r j" if "live s r = Some j" for r j
      proof -
        have d: "disj q ?n r j" using rr(3) [OF that] by (simp add: disj_commute)
        then have "disj (q + MEMORY_BLKSIZE) sz r j" by (rule disj_mono) simp_all
        with d show ?thesis by (simp add: s'_fields(3) mem_simps)
      qed
    qed
    moreover have "bytes_at s' i = held (fs_ent s' q) (mread (mem s) buf sz)"
    proof -
      have b: "disj buf sz q ?n" by (rule buf_disj [OF buf rr(1,2)]) (rule rr(3))
      then have "disj (q + MEMORY_BLKSIZE) sz buf sz" "disj q ?n buf sz" by (auto simp: disj_def)
      then have "mread (mem s') (q + MEMORY_BLKSIZE) sz = mread (mem s) buf sz"
        by (simp add: s'_fields(3) mread_ncopy_self mread_ncopy_disj)
      then show ?thesis using s'_fields(1,5,6) ty dq by (simp add: bytes_at_def ent_at_def own_bytes_def held_def)
    qed
    ultimately show ?thesis
      using over s'_fields(5-9) ty i(2)
      by (intro exI [of _ FS_STS_SUCCESS] exI [of _ s']) (auto intro!: exI [of _ "fs_ent s' q"])
  qed
qed

text \<open>A new entry in the free slot \<open>i\<close>, for a file of \<open>sz\<close> bytes or, with \<open>sz = 0\<close>, a directory.\<close>

lemma new_entry_view:
  assumes inv: "fs_inv s" and fresh: "fs_view s path = None" and slot: "free_slot s = Some i"
    and fit: "fits s (MEMORY_BLKSIZE + sz)" and m: "malloc (MEMORY_BLKSIZE + sz) s = Inr (p, s1)" "p \<noteq> 0"
    and s': "fs_EntryV s' = (fs_EntryV s)(i := p)" "fs_ent s' = (fs_ent s)(p := e)"
      "memory_BlockV s' = memory_BlockV s1" "memory_Space s' = memory_Space s" "memory_Limit s' = memory_Limit s"
      "memory_InitLock s' = memory_InitLock s" "memory_BlockC s' = memory_BlockC s" "fs_InitLock s' = fs_InitLock s"
      "mem s' = ncopy (mem s) (p + MEMORY_BLKSIZE) buf n" "n \<le> sz"
    and e: "is_cstr path" "path \<noteq> []" "length path < FS_MAX_PATHLEN" "name e = path"
      "etype e = (if ends_slash path then FS_TYPE_DIR else FS_TYPE_FILE)" "etype e = FS_TYPE_FILE \<longrightarrow> fsize e = sz"
  shows "fs_inv s' \<and> fs_view s' = (fs_view s)(path \<mapsto> (e, bytes_at s' i)) \<and> (\<forall>r k. spare s r k \<longrightarrow> spare s' r k)"
proof -
  note mm = fs_invD(1) [OF inv]
  note ml = malloc_live [OF mm fit m] and fr = fresh_region [OF mm fit m]
  obtain V where V: "s1 = s\<lparr>memory_BlockV := V\<rparr>" using malloc_frame [OF m(1)] by blast
  have live': "live s' = (live s)(p \<mapsto> nblocks (MEMORY_BLKSIZE + sz) * MEMORY_BLKSIZE)"
    using live_cong [of s' s1] s' V ml(2) by simp
  have mm': "mm_inv s'" using mm_inv_cong [of s' s1] s' V ml(3) by simp
  have nb: "MEMORY_BLKSIZE + sz \<le> nblocks (MEMORY_BLKSIZE + sz) * MEMORY_BLKSIZE" by (rule nblocks_ge) simp
  have i: "i < FS_MAX_ENTCOUNT" "fs_EntryV s i = 0" using slot by (simp_all add: free_slot_def scan_Some_iff)
  have "fs_inv s' \<and> fs_view s' = (fs_view s)(name e \<mapsto> (e, bytes_at s' i)) \<and> (\<forall>r k. spare s r k \<longrightarrow> spare s' r k)"
  proof (rule place_entry [OF inv i(1) m(2) ml(1) mm' _ s'(1,2)])
    show "fs_InitLock s'" using fs_invD(2) [OF inv] s' by simp
    show "live s' q = live s q" if "q \<noteq> p" for q using that live' by simp
    show "entry_ok e (live s' p)" using e live' nb by (auto simp: entry_ok_def own_bytes_def)
    show "name (ent_at s j) \<noteq> name e" if "in_use s j" for j
      using that fresh e(4) by (simp add: fs_view_None [OF inv])
    show "name (ent_at s i) = name e" if "in_use s i" using that i by (simp add: in_use_def)
    show "mread (mem s') q k = mread (mem s) q k" if "live s q = Some k" for q k
    proof -
      have "disj p (MEMORY_BLKSIZE + sz) q k" using fr(3) [OF that] by (simp add: disj_commute)
      then have "disj (p + MEMORY_BLKSIZE) n q k" by (rule disj_mono) (simp_all add: s'(10))
      then show ?thesis by (simp add: s'(9) mem_simps)
    qed
  qed
  then show ?thesis by (simp add: e(4))
qed

lemma room_no_wrap: "mm_inv s \<Longrightarrow> fits s n \<Longrightarrow> wrap32 n = n"
  using mm_inv_room [of s] by (auto simp: fits_def)

lemma create_file_view:
  assumes inv: "fs_inv s" and path: "is_cstr path" "path \<noteq> []" "length path < FS_MAX_PATHLEN" "\<not> ends_slash path"
    and fresh: "fs_view s path = None"
    and fit: "fits s (MEMORY_BLKSIZE + sz)" and buf: "buf_ok s buf sz"
  shows "\<exists>st s'. create_file path sz buf s = Inr (st, s') \<and> fs_inv s' \<and> (\<forall>r k. spare s r k \<longrightarrow> spare s' r k) \<and>
    (if st = FS_STS_SUCCESS then
       \<exists>e. fs_view s' = (fs_view s)(path \<mapsto> (e, held e (mread (mem s) buf sz))) \<and>
         fsize e = sz \<and> etype e = FS_TYPE_FILE \<and> name e = path \<and> ftype e = FS_TYPE_FILE \<and> perm e = 0x1FF
     else st = FS_STS_OUTOFMEMORY \<and> s' = s)"
proof (cases "free_slot s")
  case None
  then show ?thesis using inv by (intro exI [of _ FS_STS_OUTOFMEMORY] exI [of _ s]) (simp add: create_file_def)
next
  case (Some i)
  note mm = fs_invD(1) [OF inv]
  obtain p s1 where m: "malloc (MEMORY_BLKSIZE + sz) s = Inr (p, s1)" using malloc_total [OF mm fit] by blast
  note w = room_no_wrap [OF mm fit]
  show ?thesis
  proof (cases "p = 0")
    case True
    then have "s1 = s" using malloc_null(1) [OF mm fit] m by simp
    then show ?thesis using inv Some m True w
      by (intro exI [of _ FS_STS_OUTOFMEMORY] exI [of _ s]) (simp add: create_file_def)
  next
    case False
    note fr = fresh_region [OF mm fit m False]
    obtain V where V: "s1 = s\<lparr>memory_BlockV := V\<rparr>" using malloc_frame [OF m] by blast
    define s' where "s' = put_data p sz buf
        (set_ent p (\<lambda>e. e\<lparr>perm := 0x1FF, etype := FS_TYPE_FILE, ftype := FS_TYPE_FILE\<rparr>)
          (stamp_all p (set_ent p (\<lambda>e. e\<lparr>user := 0, group := 0, fsize := sz\<rparr>)
            (set_ent p (name_update (\<lambda>_. path)) (s1\<lparr>fs_EntryV := (fs_EntryV s1)(i := p)\<rparr>)))))"
    have create: "create_file path sz buf s = Inr (FS_STS_SUCCESS, s')"
      using Some m False w path by (simp add: create_file_def copy_name_def s'_def)
    have "p + (MEMORY_BLKSIZE + sz) < 4294967296" using fr(2) mm unfolding mm_inv_def by linarith
    then have dp: "data_of p = p + MEMORY_BLKSIZE" by (simp add: data_of_def)
    have f: "fs_EntryV s' = (fs_EntryV s)(i := p)" "fs_ent s' = (fs_ent s)(p := fs_ent s' p)"
      "memory_BlockV s' = memory_BlockV s1" "memory_Space s' = memory_Space s" "memory_Limit s' = memory_Limit s"
      "memory_InitLock s' = memory_InitLock s" "memory_BlockC s' = memory_BlockC s" "fs_InitLock s' = fs_InitLock s"
      "mem s' = ncopy (mem s) (p + MEMORY_BLKSIZE) buf sz"
      by (simp_all add: s'_def ent_defs V dp)
    have e: "name (fs_ent s' p) = path" "etype (fs_ent s' p) = FS_TYPE_FILE" "fsize (fs_ent s' p) = sz"
      "ftype (fs_ent s' p) = FS_TYPE_FILE" "perm (fs_ent s' p) = 0x1FF"
      by (simp_all add: s'_def ent_defs)
    have v: "fs_inv s' \<and> fs_view s' = (fs_view s)(path \<mapsto> (fs_ent s' p, bytes_at s' i)) \<and> (\<forall>r k. spare s r k \<longrightarrow> spare s' r k)"
      by (rule new_entry_view [OF inv fresh Some fit m False f]) (use path e in simp_all)
    have "disj buf sz p (MEMORY_BLKSIZE + sz)" by (rule buf_disj [OF buf fr(1,2)]) (rule fr(3))
    then have "disj (p + MEMORY_BLKSIZE) sz buf sz" by (auto simp: disj_def)
    then have "bytes_at s' i = mread (mem s) buf sz"
      using f(1) e dp by (simp add: bytes_at_def own_bytes_def ent_at_def f(9) mread_ncopy_self)
    with v create e show ?thesis
      by (intro exI [of _ FS_STS_SUCCESS] exI [of _ s']) (auto simp: held_def intro!: exI [of _ "fs_ent s' p"])
  qed
qed

subsection \<open>What the searches mean\<close>

definition ancestors :: "cstring \<Rightarrow> cstring list" where
  "ancestors path =
     (let ts = take UTILS_SPLIT_TOKCOUNT (map (take (UTILS_SPLIT_TOKLEN - 1)) (pieces slash path))
      in map (\<lambda>j. slash # concat (map (\<lambda>t. t @ [slash]) (take (Suc j) ts))) [0..<length ts - 1])"

definition is_dir :: "'a fs_scheme \<Rightarrow> cstring \<Rightarrow> bool" where
  "is_dir s path \<longleftrightarrow> (\<exists>e bs. fs_view s path = Some (e, bs) \<and> etype e = FS_TYPE_DIR)"

lemma build_prefix_eq: "build_prefix ts buf = buf @ concat (map (\<lambda>t. t @ [slash]) ts)"
  by (induction ts arbitrary: buf) auto

lemma check_parents_iff:
  "check_parents s dirs i k \<longleftrightarrow> (\<forall>j. i \<le> j \<and> j < i + k \<longrightarrow> dir_exists s (build_prefix (take (Suc j) dirs) [slash]))"
proof (induction k arbitrary: i)
  case (Suc k)
  have "(\<forall>j. i \<le> j \<and> j < i + Suc k \<longrightarrow> P j) \<longleftrightarrow> P i \<and> (\<forall>j. Suc i \<le> j \<and> j < Suc i + k \<longrightarrow> P j)" for P
    by (metis Suc_leD Suc_leI add_Suc add_Suc_right le_eq_less_or_eq le_refl less_add_Suc1 order_le_less_trans)
  with Suc show ?case by simp
qed auto

lemma dir_exists_iff: "fs_inv s \<Longrightarrow> is_cstr path \<Longrightarrow> dir_exists s path \<longleftrightarrow> is_dir s path"
proof -
  assume inv: "fs_inv s" and path: "is_cstr path"
  have "dir_exists s path \<longleftrightarrow> (\<exists>i. in_use s i \<and> name (ent_at s i) = path \<and> etype (ent_at s i) = FS_TYPE_DIR)"
    using named_iff [OF inv path] by (auto simp: dir_exists_def scan_Some_iff scan_None_iff)
  then show ?thesis by (auto simp: is_dir_def fs_view_Some [OF inv])
qed

lemma is_cstr_simps [simp]:
  "is_cstr []" "is_cstr (c # s) \<longleftrightarrow> c \<noteq> 0 \<and> is_cstr s" "is_cstr (s @ t) \<longleftrightarrow> is_cstr s \<and> is_cstr t"
  by (auto simp: is_cstr_def)

lemma is_cstr_take: "is_cstr s \<Longrightarrow> is_cstr (take n s)"
  by (auto simp: is_cstr_def dest: in_set_takeD)

lemma is_cstr_concat: "(\<And>t. t \<in> set ts \<Longrightarrow> is_cstr t) \<Longrightarrow> is_cstr (concat ts)"
  by (auto simp: is_cstr_def)

lemma fields_cstr: "is_cstr s \<Longrightarrow> w \<in> set (str_fields d s) \<Longrightarrow> is_cstr w"
  by (induction d s arbitrary: w rule: str_fields.induct) (auto split: if_splits list.splits)

lemma ancestors_cstr: "is_cstr path \<Longrightarrow> a \<in> set (ancestors path) \<Longrightarrow> is_cstr a"
proof -
  assume p: "is_cstr path" and a: "a \<in> set (ancestors path)"
  have f: "is_cstr (t @ [slash])"
    if t: "t \<in> set (take m (take UTILS_SPLIT_TOKCOUNT (map (take (UTILS_SPLIT_TOKLEN - 1)) (pieces slash path))))" for t m
  proof -
    from t obtain u where "u \<in> set (str_fields slash path)" "t = take 63 u"
      by (auto simp: pieces_def dest!: in_set_takeD)
    then show ?thesis using fields_cstr [OF p] by (simp add: is_cstr_take)
  qed
  from a obtain m where "a = slash # concat (map (\<lambda>t. t @ [slash])
      (take m (take UTILS_SPLIT_TOKCOUNT (map (take (UTILS_SPLIT_TOKLEN - 1)) (pieces slash path)))))"
    unfolding ancestors_def Let_def by (auto simp del: take_take take_Suc)
  then show "is_cstr a" using f by (auto intro!: is_cstr_concat simp del: take_take)
qed

lemma parents_found_eq:
  assumes "fs_inv s" "is_cstr path"
  shows "parents_found s path = Inr (\<forall>a \<in> set (ancestors path). is_dir s a)"
proof -
  let ?ts = "take UTILS_SPLIT_TOKCOUNT (map (take (UTILS_SPLIT_TOKLEN - 1)) (pieces slash path))"
  obtain tok k where t: "split path slash = Inr (tok, k)" "map c_string (take k tok) = ?ts" "k \<le> 32" "length tok = 32"
    using split_eq [OF assms(2), of slash] by blast
  have k: "length ?ts = k" using t(3,4) arg_cong [OF t(2), of length] by simp
  have anc: "set (ancestors path) = {build_prefix (take (Suc j) ?ts) [slash] |j. j < k - 1}"
    unfolding ancestors_def Let_def k by (auto simp: build_prefix_eq)
  have "parents_found s path = Inr (check_parents s ?ts 0 (k - 1))"
    unfolding parents_found_def t(1) by (simp add: t(2))
  also have "check_parents s ?ts 0 (k - 1) \<longleftrightarrow> (\<forall>a \<in> set (ancestors path). dir_exists s a)"
    unfolding check_parents_iff anc by auto
  also have "\<dots> \<longleftrightarrow> (\<forall>a \<in> set (ancestors path). is_dir s a)"
    using dir_exists_iff [OF assms(1) ancestors_cstr [OF assms(2)]] by blast
  finally show ?thesis .
qed

lemma append_slash_iff:
  "length path + 1 = length nm \<and> nm \<noteq> [] \<and> nm ! (length nm - 1) = slash \<and> take (length path) nm = path \<longleftrightarrow>
   nm = path @ [slash]"
proof
  assume h: "length path + 1 = length nm \<and> nm \<noteq> [] \<and> nm ! (length nm - 1) = slash \<and> take (length path) nm = path"
  then have "nm = take (length path) nm @ [nm ! length path]"
    by (metis Suc_eq_plus1 lessI order_refl take_Suc_conv_app_nth take_all)
  with h show "nm = path @ [slash]" by (metis Suc_eq_plus1 diff_Suc_1)
qed (auto simp: nth_append)

lemma dir_clash_iff:
  assumes inv: "fs_inv s" and path: "is_cstr path"
  shows "scan (dir_clash s path) 0 FS_MAX_ENTCOUNT \<noteq> None \<longleftrightarrow> fs_view s (path @ [slash]) \<noteq> None"
proof -
  have "i < FS_MAX_ENTCOUNT \<and> dir_clash s path i \<longleftrightarrow> in_use s i \<and> name (ent_at s i) = path @ [slash]" for i
  proof (cases "in_use s i")
    case True
    let ?nm = "name (ent_at s i)"
    note ok = fs_invD(3) [OF inv True]
    have *: "sncompare ?nm path (length path) = 0 \<longleftrightarrow> take (length path) ?nm = path" if "length path + 1 = length ?nm"
      using sncompare_eq_0 [OF entry_okD(1) [OF ok] path, of "length path"] that by simp
    have "?nm ! (length ?nm - 1) = slash \<Longrightarrow> etype (ent_at s i) = FS_TYPE_DIR"
      using entry_okD(2,5) [OF ok] by (simp add: ends_slash_def)
    then show ?thesis
      using True * append_slash_iff [of path ?nm] unfolding dir_clash_def Let_def in_use_def by blast
  qed (auto simp: dir_clash_def in_use_def Let_def)
  then show ?thesis by (auto simp: scan_None_iff fs_view_None [OF inv])
qed

lemma find_entry_view:
  assumes "fs_inv s" "is_cstr path"
  shows "find_entry s path = None \<longleftrightarrow> fs_view s path = None"
  using assms by (simp add: fs_view_def)

text \<open>The answer of \<open>fs_writeFile\<close> before it allocates, read off the abstract view.\<close>

definition write_refusal :: "'a fs_scheme \<Rightarrow> cstring \<Rightarrow> int" where
  "write_refusal s path =
     (if path = [] \<or> ends_slash path then FS_STS_FAILURE
      else if fs_view s (path @ [slash]) \<noteq> None then FS_STS_DIREXISTS
      else if fs_view s path \<noteq> None then FS_STS_SUCCESS
      else if \<exists>a \<in> set (ancestors path). \<not> is_dir s a then FS_STS_PATHNOTFOUND
      else FS_STS_SUCCESS)"

lemma writeFile_view:
  assumes inv: "fs_inv s" and path: "is_cstr path" "length path < FS_MAX_PATHLEN"
    and fit: "fits s (MEMORY_BLKSIZE + sz)" and buf: "buf_ok s buf sz"
  shows "\<exists>st s'. fs_writeFile path sz buf s = Inr (st, s') \<and> fs_inv s' \<and> (\<forall>r k. spare s r k \<longrightarrow> spare s' r k) \<and>
    (if st = FS_STS_SUCCESS then
       write_refusal s path = FS_STS_SUCCESS \<and>
       (\<exists>e. fs_view s' = (fs_view s)(path \<mapsto> (e, held e (mread (mem s) buf sz))) \<and>
         fsize e = sz \<and> etype e = FS_TYPE_FILE \<and> name e = path \<and>
         ftype e = (case fs_view s path of None \<Rightarrow> FS_TYPE_FILE | Some (old, _) \<Rightarrow> ftype old) \<and>
         perm e = (case fs_view s path of None \<Rightarrow> 0x1FF | Some (old, _) \<Rightarrow> perm old))
     else (if write_refusal s path = FS_STS_SUCCESS then st = FS_STS_OUTOFMEMORY else st = write_refusal s path) \<and> s' = s)"
proof -
  have init: "fs_InitLock s" by (rule fs_invD(2) [OF inv])
  have nb: "\<not> (buf = 0 \<and> sz \<noteq> 0)" using buf by (auto simp: buf_ok_def)
  consider (bad) "path = [] \<or> ends_slash path" | (clash) "\<not> (path = [] \<or> ends_slash path)" "fs_view s (path @ [slash]) \<noteq> None"
    | (old) i where "\<not> (path = [] \<or> ends_slash path)" "fs_view s (path @ [slash]) = None" "find_entry s path = Some i"
    | (orphan) "\<not> (path = [] \<or> ends_slash path)" "fs_view s (path @ [slash]) = None" "find_entry s path = None"
        "\<exists>a \<in> set (ancestors path). \<not> is_dir s a"
    | (new) "\<not> (path = [] \<or> ends_slash path)" "fs_view s (path @ [slash]) = None" "find_entry s path = None"
        "\<forall>a \<in> set (ancestors path). is_dir s a"
    by (cases "find_entry s path") blast+
  then show ?thesis
  proof cases
    case bad
    then have "fs_writeFile path sz buf s = Inr (FS_STS_FAILURE, s)"
      using init by (auto simp: fs_writeFile_def ends_slash_def)
    then show ?thesis using inv bad by (simp add: write_refusal_def)
  next
    case clash
    then have "fs_writeFile path sz buf s = Inr (FS_STS_DIREXISTS, s)"
      using init nb dir_clash_iff [OF inv path(1)] by (auto simp: fs_writeFile_def ends_slash_def)
    then show ?thesis using inv clash by (simp add: write_refusal_def)
  next
    case old
    from old(3) have i: "in_use s i" "name (ent_at s i) = path" by (simp_all add: find_entry_Some [OF inv path(1)])
    have w: "fs_writeFile path sz buf s = overwrite_file i sz buf s"
      using old init nb dir_clash_iff [OF inv path(1)] by (auto simp: fs_writeFile_def ends_slash_def)
    have v: "fs_view s path = Some (ent_at s i, bytes_at s i)" by (rule fs_viewI [OF inv i])
    have r: "write_refusal s path = FS_STS_SUCCESS" using old v by (simp add: write_refusal_def)
    obtain st s' where "overwrite_file i sz buf s = Inr (st, s') \<and> fs_inv s' \<and> (\<forall>r k. spare s r k \<longrightarrow> spare s' r k) \<and>
      (if st = FS_STS_SUCCESS then
         \<exists>e. fs_view s' = (fs_view s)(path \<mapsto> (e, held e (mread (mem s) buf sz))) \<and> fsize e = sz \<and> etype e = FS_TYPE_FILE \<and>
           name e = path \<and> ftype e = ftype (ent_at s i) \<and> perm e = perm (ent_at s i)
       else st = FS_STS_OUTOFMEMORY \<and> s' = s)"
      using overwrite_file_view [OF inv i _ fit buf] old(1) by blast
    then show ?thesis unfolding w r v by (intro exI [of _ st] exI [of _ s']) simp
  next
    case orphan
    then have "fs_writeFile path sz buf s = Inr (FS_STS_PATHNOTFOUND, s)"
      using init nb dir_clash_iff [OF inv path(1)] parents_found_eq [OF inv path(1)]
      by (auto simp: fs_writeFile_def ends_slash_def)
    then show ?thesis using inv orphan find_entry_view [OF inv path(1)] by (simp add: write_refusal_def)
  next
    case new
    then have w: "fs_writeFile path sz buf s = create_file path sz buf s"
      using init nb dir_clash_iff [OF inv path(1)] parents_found_eq [OF inv path(1)]
      by (auto simp: fs_writeFile_def ends_slash_def)
    have v: "fs_view s path = None" using new(3) find_entry_view [OF inv path(1)] by simp
    have r: "write_refusal s path = FS_STS_SUCCESS" using new v by (simp add: write_refusal_def)
    obtain st s' where "create_file path sz buf s = Inr (st, s') \<and> fs_inv s' \<and> (\<forall>r k. spare s r k \<longrightarrow> spare s' r k) \<and>
      (if st = FS_STS_SUCCESS then
         \<exists>e. fs_view s' = (fs_view s)(path \<mapsto> (e, held e (mread (mem s) buf sz))) \<and> fsize e = sz \<and> etype e = FS_TYPE_FILE \<and>
           name e = path \<and> ftype e = FS_TYPE_FILE \<and> perm e = 0x1FF
       else st = FS_STS_OUTOFMEMORY \<and> s' = s)"
      using create_file_view [OF inv path(1) _ path(2) _ v fit buf] new(1) by blast
    then show ?thesis unfolding w r v by (intro exI [of _ st] exI [of _ s']) simp
  qed
qed

section \<open>Creating directories\<close>

definition create_refusal :: "'a fs_scheme \<Rightarrow> cstring \<Rightarrow> int" where
  "create_refusal s path =
     (if path = [] \<or> \<not> ends_slash path \<or> length path \<ge> FS_MAX_PATHLEN then FS_STS_FAILURE
      else if \<exists>q e bs. fs_view s q = Some (e, bs) \<and> etype e = FS_TYPE_FILE \<and>
          take (length path - 1) q = take (length path - 1) path then FS_STS_FILEEXISTS
      else if fs_view s path \<noteq> None then FS_STS_ALREADYEXISTS
      else if \<exists>a \<in> set (ancestors path). \<not> is_dir s a then FS_STS_PATHNOTFOUND
      else FS_STS_SUCCESS)"

lemma sncompare_sym: "sncompare s t k = 0 \<longleftrightarrow> sncompare t s k = 0"
  unfolding sncompare_eq_0_all by metis

lemma under_iff:
  assumes inv: "fs_inv s" and path: "is_cstr path" "n \<le> length path"
  shows "i < FS_MAX_ENTCOUNT \<and> under s path n i \<longleftrightarrow> in_use s i \<and> take n (name (ent_at s i)) = take n path"
proof (cases "in_use s i")
  case True
  note ok = fs_invD(3) [OF inv True]
  show ?thesis
    using True entry_okD(2) [OF ok] sncompare_eq_0 [OF path(1) entry_okD(1) [OF ok] path(2)]
    by (auto simp: under_def in_use_def sncompare_sym [of _ path])
qed (auto simp: under_def in_use_def)

lemma file_blocks_iff:
  assumes inv: "fs_inv s" and path: "is_cstr path"
  shows "scan (\<lambda>i. under s path (length path - 1) i \<and> etype (ent_at s i) = FS_TYPE_FILE) 0 FS_MAX_ENTCOUNT \<noteq> None \<longleftrightarrow>
    (\<exists>q e bs. fs_view s q = Some (e, bs) \<and> etype e = FS_TYPE_FILE \<and> take (length path - 1) q = take (length path - 1) path)"
proof -
  have "scan (\<lambda>i. under s path (length path - 1) i \<and> etype (ent_at s i) = FS_TYPE_FILE) 0 FS_MAX_ENTCOUNT \<noteq> None \<longleftrightarrow>
      (\<exists>i. (i < FS_MAX_ENTCOUNT \<and> under s path (length path - 1) i) \<and> etype (ent_at s i) = FS_TYPE_FILE)"
    by (auto simp: scan_None_iff)
  also have "\<dots> \<longleftrightarrow> (\<exists>i. in_use s i \<and> take (length path - 1) (name (ent_at s i)) = take (length path - 1) path \<and>
      etype (ent_at s i) = FS_TYPE_FILE)"
    using under_iff [OF inv path, of "length path - 1"] by simp
  finally show ?thesis by (auto simp: fs_view_Some [OF inv])
qed

lemma createDir_view:
  assumes inv: "fs_inv s" and path: "is_cstr path" and fit: "fits s MEMORY_BLKSIZE"
  shows "\<exists>st s'. fs_createDir path s = Inr (st, s') \<and> fs_inv s' \<and> (\<forall>r k. spare s r k \<longrightarrow> spare s' r k) \<and>
    (if st = FS_STS_SUCCESS then
       create_refusal s path = FS_STS_SUCCESS \<and>
       (\<exists>e. fs_view s' = (fs_view s)(path \<mapsto> (e, [])) \<and> etype e = FS_TYPE_DIR \<and> name e = path \<and> perm e = 0x1FF)
     else (if create_refusal s path = FS_STS_SUCCESS then st = FS_STS_OUTOFMEMORY else st = create_refusal s path) \<and> s' = s)"
proof -
  have init: "fs_InitLock s" by (rule fs_invD(2) [OF inv])
  note mm = fs_invD(1) [OF inv] and blk = file_blocks_iff [OF inv path]
  let ?file = "\<exists>q e bs. fs_view s q = Some (e, bs) \<and> etype e = FS_TYPE_FILE \<and> take (length path - 1) q = take (length path - 1) path"
  have dirs: "etype (ent_at s i) = FS_TYPE_DIR" if "find_entry s path = Some i" "ends_slash path" for i
    using that entry_okD(5) [OF fs_invD(3) [OF inv]] by (auto simp: find_entry_Some [OF inv path])
  consider (bad) "path = [] \<or> \<not> ends_slash path \<or> length path \<ge> FS_MAX_PATHLEN"
    | (blocked) "\<not> (path = [] \<or> \<not> ends_slash path \<or> length path \<ge> FS_MAX_PATHLEN)" ?file
    | (old) i where "\<not> (path = [] \<or> \<not> ends_slash path \<or> length path \<ge> FS_MAX_PATHLEN)" "\<not> ?file" "find_entry s path = Some i"
    | (orphan) "\<not> (path = [] \<or> \<not> ends_slash path \<or> length path \<ge> FS_MAX_PATHLEN)" "\<not> ?file" "find_entry s path = None"
        "\<exists>a \<in> set (ancestors path). \<not> is_dir s a"
    | (new) "\<not> (path = [] \<or> \<not> ends_slash path \<or> length path \<ge> FS_MAX_PATHLEN)" "\<not> ?file" "find_entry s path = None"
        "\<forall>a \<in> set (ancestors path). is_dir s a"
    by (cases "find_entry s path") blast+
  then show ?thesis
  proof cases
    case bad
    then have "fs_createDir path s = Inr (FS_STS_FAILURE, s)"
      using init by (auto simp: fs_createDir_def ends_slash_def)
    then show ?thesis using inv bad by (simp add: create_refusal_def)
  next
    case blocked
    then have "fs_createDir path s = Inr (FS_STS_FILEEXISTS, s)"
      using init blk by (auto simp: fs_createDir_def ends_slash_def)
    moreover have "create_refusal s path = FS_STS_FILEEXISTS"
      unfolding create_refusal_def using blocked by (simp only: if_True if_False)
    ultimately show ?thesis using inv by simp
  next
    case old
    then have "fs_createDir path s = Inr (FS_STS_ALREADYEXISTS, s)"
      using init blk dirs [OF old(3)] by (auto simp: fs_createDir_def ends_slash_def)
    moreover have "create_refusal s path = FS_STS_ALREADYEXISTS"
      unfolding create_refusal_def using old find_entry_view [OF inv path]
      by (simp only: if_True if_False) simp
    ultimately show ?thesis using inv by simp
  next
    case orphan
    then have "fs_createDir path s = Inr (FS_STS_PATHNOTFOUND, s)"
      using init blk parents_found_eq [OF inv path] by (auto simp: fs_createDir_def ends_slash_def)
    moreover have "create_refusal s path = FS_STS_PATHNOTFOUND"
      unfolding create_refusal_def using orphan find_entry_view [OF inv path]
      by (simp only: if_True if_False) simp
    ultimately show ?thesis using inv by simp
  next
    case new
    have v: "fs_view s path = None" using new(3) find_entry_view [OF inv path] by simp
    have r: "create_refusal s path = FS_STS_SUCCESS"
      unfolding create_refusal_def using new v by (simp only: if_True if_False) simp
    have p: "path \<noteq> []" "ends_slash path" "length path < FS_MAX_PATHLEN" using new(1) by auto
    obtain p s1 where m: "malloc MEMORY_BLKSIZE s = Inr (p, s1)" using malloc_total [OF mm fit] by blast
    have pf: "parents_found s path = Inr True" using parents_found_eq [OF inv path] new(4) by simp
    have k1: "\<not> (path = [] \<or> path ! (length path - 1) \<noteq> slash \<or> length path \<ge> FS_MAX_PATHLEN)"
      using new(1) by (auto simp: ends_slash_def)
    have c: "fs_createDir path s =
        (case free_slot s of
            None \<Rightarrow> Inr (FS_STS_OUTOFMEMORY, s)
          | Some index \<Rightarrow>
              bindR (malloc MEMORY_BLKSIZE s)
                (\<lambda>(p, s1). if p = 0 then Inr (FS_STS_OUTOFMEMORY, s1)
                  else bindR (copy_name p path (s1\<lparr>fs_EntryV := (fs_EntryV s1)(index := p)\<rparr>))
                    (\<lambda>s2. Inr (FS_STS_SUCCESS,
                       set_ent p (\<lambda>e. e\<lparr>perm := 0x1FF, etype := FS_TYPE_DIR\<rparr>)
                         (stamp_all p (set_ent p (\<lambda>e. e\<lparr>user := 0, group := 0\<rparr>) s2))))))"
      unfolding fs_createDir_def blk
      by (simp only: k1 init new(2,3) pf if_True if_False simp_thms option.case bindR_Inr)
    show ?thesis
    proof (cases "free_slot s = None \<or> p = 0")
      case True
      then have "fs_createDir path s = Inr (FS_STS_OUTOFMEMORY, s)"
        using c m malloc_null(1) [OF mm fit, of s1] by (auto split: option.splits)
      then show ?thesis using inv r by simp
    next
      case False
      then obtain i where i: "free_slot s = Some i" and p0: "p \<noteq> 0" by auto
      obtain V where V: "s1 = s\<lparr>memory_BlockV := V\<rparr>" using malloc_frame [OF m] by blast
      define s' where "s' = set_ent p (\<lambda>e. e\<lparr>perm := 0x1FF, etype := FS_TYPE_DIR\<rparr>)
          (stamp_all p (set_ent p (\<lambda>e. e\<lparr>user := 0, group := 0\<rparr>)
            (set_ent p (name_update (\<lambda>_. path)) (s1\<lparr>fs_EntryV := (fs_EntryV s1)(i := p)\<rparr>))))"
      have create: "fs_createDir path s = Inr (FS_STS_SUCCESS, s')"
        unfolding c using i m p0 p by (simp add: copy_name_def s'_def)
      have f: "fs_EntryV s' = (fs_EntryV s)(i := p)" "fs_ent s' = (fs_ent s)(p := fs_ent s' p)"
        "memory_BlockV s' = memory_BlockV s1" "memory_Space s' = memory_Space s" "memory_Limit s' = memory_Limit s"
        "memory_InitLock s' = memory_InitLock s" "memory_BlockC s' = memory_BlockC s" "fs_InitLock s' = fs_InitLock s"
        "mem s' = ncopy (mem s) (p + MEMORY_BLKSIZE) 0 0"
        by (simp_all add: s'_def ent_defs V)
      have e: "name (fs_ent s' p) = path" "etype (fs_ent s' p) = FS_TYPE_DIR" "perm (fs_ent s' p) = 0x1FF"
        by (simp_all add: s'_def ent_defs)
      have "fs_inv s' \<and> fs_view s' = (fs_view s)(path \<mapsto> (fs_ent s' p, bytes_at s' i)) \<and> (\<forall>r k. spare s r k \<longrightarrow> spare s' r k)"
        by (rule new_entry_view [OF inv v i _ _ p0 f, where sz = 0])
          (use fit m path p e in simp_all)
      moreover have "bytes_at s' i = []" using f(1) e by (simp add: bytes_at_def own_bytes_def ent_at_def)
      ultimately show ?thesis using create r e
        by (intro exI [of _ FS_STS_SUCCESS] exI [of _ s']) (auto intro!: exI [of _ "fs_ent s' p"])
    qed
  qed
qed

section \<open>Removing\<close>

definition remove_status :: "'a fs_scheme \<Rightarrow> cstring \<Rightarrow> int" where
  "remove_status s path =
     (if path = [slash] then FS_STS_FAILURE
      else if fs_view s path = None then FS_STS_ENTRYNOTFOUND
      else if is_dir s path \<and> (\<exists>q. q \<noteq> path \<and> take (length path) q = path \<and> fs_view s q \<noteq> None) then FS_STS_DIRNOTEMPTY
      else FS_STS_SUCCESS)"

lemma children_iff:
  assumes inv: "fs_inv s" and path: "is_cstr path"
  shows "scan (\<lambda>j. under s path (length path) j \<and> length (name (ent_at s j)) > length path) 0 FS_MAX_ENTCOUNT \<noteq> None \<longleftrightarrow>
    (\<exists>q. q \<noteq> path \<and> take (length path) q = path \<and> fs_view s q \<noteq> None)"
proof -
  have longer: "length q > length path \<longleftrightarrow> q \<noteq> path" if "take (length path) q = path" for q
  proof
    assume "q \<noteq> path"
    then show "length q > length path" using that by (metis leI take_all)
  qed auto
  have "scan (\<lambda>j. under s path (length path) j \<and> length (name (ent_at s j)) > length path) 0 FS_MAX_ENTCOUNT \<noteq> None \<longleftrightarrow>
      (\<exists>j. (j < FS_MAX_ENTCOUNT \<and> under s path (length path) j) \<and> length (name (ent_at s j)) > length path)"
    by (auto simp: scan_None_iff)
  also have "\<dots> \<longleftrightarrow> (\<exists>j. in_use s j \<and> take (length path) (name (ent_at s j)) = path \<and> name (ent_at s j) \<noteq> path)"
    using under_iff [OF inv path, of "length path"] longer by auto
  also have "\<dots> \<longleftrightarrow> (\<exists>q. q \<noteq> path \<and> take (length path) q = path \<and> fs_view s q \<noteq> None)"
    by (auto simp: fs_view_None [OF inv])
  finally show ?thesis .
qed

lemma remove_view:
  assumes inv: "fs_inv s" and path: "is_cstr path"
  shows "\<exists>s'. fs_remove path s = Inr (remove_status s path, s') \<and> fs_inv s' \<and>
    (if remove_status s path = FS_STS_SUCCESS then fs_view s' = (fs_view s)(path := None) else s' = s)"
proof -
  have init: "fs_InitLock s" by (rule fs_invD(2) [OF inv])
  have root: "compare path [slash] = 0 \<longleftrightarrow> path = [slash]" using path by (simp add: compare_eq_0)
  show ?thesis
  proof (cases "path = [slash]")
    case True
    then show ?thesis using init root inv by (simp add: fs_remove_def remove_status_def)
  next
    case nroot: False
    show ?thesis
    proof (cases "find_entry s path")
      case None
      then show ?thesis using init root nroot inv find_entry_view [OF inv path]
        by (simp add: fs_remove_def remove_status_def)
    next
      case (Some i)
      then have i: "in_use s i" "name (ent_at s i) = path" by (simp_all add: find_entry_Some [OF inv path])
      have v: "fs_view s path = Some (ent_at s i, bytes_at s i)" by (rule fs_viewI [OF inv i])
      have d: "is_dir s path \<longleftrightarrow> etype (ent_at s i) = FS_TYPE_DIR" using v by (simp add: is_dir_def)
      have ws: "with_slash path = path" if "etype (ent_at s i) = FS_TYPE_DIR"
        using that entry_okD(6) [OF fs_invD(3) [OF inv i(1)]] i(2) by (auto simp: with_slash_def ends_slash_def)
      let ?kids = "\<exists>q. q \<noteq> path \<and> take (length path) q = path \<and> fs_view s q \<noteq> None"
      have st: "remove_status s path = (if is_dir s path \<and> ?kids then FS_STS_DIRNOTEMPTY else FS_STS_SUCCESS)"
        using nroot v by (simp add: remove_status_def)
      have cond: "etype (ent_at s i) = FS_TYPE_DIR \<and>
          scan (\<lambda>j. under s (with_slash path) (length (with_slash path)) j \<and>
            length (name (ent_at s j)) > length (with_slash path)) 0 FS_MAX_ENTCOUNT \<noteq> None \<longleftrightarrow> is_dir s path \<and> ?kids"
      proof (cases "etype (ent_at s i) = FS_TYPE_DIR")
        case True
        then show ?thesis unfolding ws [OF True] d using children_iff [OF inv path] by blast
      qed (simp add: d)
      have rm: "fs_remove path s = (if is_dir s path \<and> ?kids then Inr (FS_STS_DIRNOTEMPTY, s)
          else bindR (drop_entry i s) (\<lambda>s1. Inr (FS_STS_SUCCESS, s1)))"
        unfolding fs_remove_def Some Let_def cond root option.case using init nroot by (simp only: simp_thms if_True if_False)
      show ?thesis
      proof (cases "is_dir s path \<and> ?kids")
        case True
        then show ?thesis unfolding rm st using inv by (simp only: if_True if_False) simp
      next
        case False
        then show ?thesis unfolding rm st using drop_entry_view [OF inv i(1)] i(2)
          by (simp only: if_True if_False) auto
      qed
    qed
  qed
qed

lemma drop_one:
  "T x \<Longrightarrow> (if T q \<and> A then None else (v(x := None)) q) = (if T q \<and> (q = x \<or> A) then None else v q)"
  by auto

lemma bulk_loop_view:
  assumes path: "is_cstr path"
  shows "fs_inv s \<Longrightarrow> i + k \<le> FS_MAX_ENTCOUNT \<Longrightarrow>
   \<exists>s'. bulk_loop path i k s = Inr s' \<and> fs_inv s' \<and>
     fs_view s' = (\<lambda>q. if take (length path) q = path \<and> (\<exists>j. i \<le> j \<and> j < i + k \<and> in_use s j \<and> name (ent_at s j) = q)
                       then None else fs_view s q)"
proof (induction k arbitrary: i s)
  case 0
  then show ?case by (auto intro!: ext)
next
  case (Suc k)
  have inv: "fs_inv s" by fact
  have lim: "Suc i + k \<le> FS_MAX_ENTCOUNT" "i < FS_MAX_ENTCOUNT" using Suc.prems by simp_all
  have u: "under s path (length path) i \<longleftrightarrow> in_use s i \<and> take (length path) (name (ent_at s i)) = path"
    using under_iff [OF inv path, of "length path" i] lim by simp
  have range: "(i \<le> j \<and> j < i + Suc k) \<longleftrightarrow> j = i \<or> (Suc i \<le> j \<and> j < Suc i + k)" for j by auto
  show ?case
  proof (cases "under s path (length path) i")
    case True
    then have i: "in_use s i" "take (length path) (name (ent_at s i)) = path" using u by simp_all
    obtain s1 where d: "drop_entry i s = Inr s1" "fs_inv s1" "fs_view s1 = (fs_view s)(name (ent_at s i) := None)"
      "fs_EntryV s1 = (fs_EntryV s)(i := 0)" "fs_ent s1 = fs_ent s"
      using drop_entry_view [OF inv i(1)] by blast
    obtain s' where s': "bulk_loop path (Suc i) k s1 = Inr s'" "fs_inv s'"
      "fs_view s' = (\<lambda>q. if take (length path) q = path \<and>
          (\<exists>j. Suc i \<le> j \<and> j < Suc i + k \<and> in_use s1 j \<and> name (ent_at s1 j) = q) then None else fs_view s1 q)"
      using Suc.IH [OF d(2) lim(1)] by blast
    have same: "in_use s1 j = in_use s j" "ent_at s1 j = ent_at s j" if "Suc i \<le> j" for j
      using that d(4,5) by (simp_all add: in_use_def ent_at_def)
    have "fs_view s' q = (if take (length path) q = path \<and> (\<exists>j. i \<le> j \<and> j < i + Suc k \<and> in_use s j \<and> name (ent_at s j) = q)
        then None else fs_view s q)" for q
    proof -
      have "(\<exists>j. i \<le> j \<and> j < i + Suc k \<and> in_use s j \<and> name (ent_at s j) = q) \<longleftrightarrow>
          q = name (ent_at s i) \<or> (\<exists>j. Suc i \<le> j \<and> j < Suc i + k \<and> in_use s1 j \<and> name (ent_at s1 j) = q)"
        using range same i(1) by metis
      then show ?thesis unfolding s'(3) d(3)
        by (simp only: drop_one [where T = "\<lambda>q. take (length path) q = path", OF i(2)])
    qed
    then show ?thesis using True d(1) s'(1,2) by (intro exI [of _ s']) (simp add: fun_eq_iff)
  next
    case False
    obtain s' where s': "bulk_loop path (Suc i) k s = Inr s'" "fs_inv s'"
      "fs_view s' = (\<lambda>q. if take (length path) q = path \<and>
          (\<exists>j. Suc i \<le> j \<and> j < Suc i + k \<and> in_use s j \<and> name (ent_at s j) = q) then None else fs_view s q)"
      using Suc.IH [OF inv lim(1)] by blast
    have "take (length path) q = path \<and> (\<exists>j. i \<le> j \<and> j < i + Suc k \<and> in_use s j \<and> name (ent_at s j) = q) \<longleftrightarrow>
        take (length path) q = path \<and> (\<exists>j. Suc i \<le> j \<and> j < Suc i + k \<and> in_use s j \<and> name (ent_at s j) = q)" for q
      using range u False by metis
    then have "fs_view s' q = (if take (length path) q = path \<and> (\<exists>j. i \<le> j \<and> j < i + Suc k \<and> in_use s j \<and> name (ent_at s j) = q)
        then None else fs_view s q)" for q unfolding s'(3) by simp
    then show ?thesis using False s'(1,2) by (intro exI [of _ s']) (simp add: fun_eq_iff)
  qed
qed

lemma bulkRemove_view:
  assumes inv: "fs_inv s" and dir: "is_dir s path"
  shows "\<exists>s'. fs_bulkRemove path s = Inr (FS_STS_SUCCESS, s') \<and> fs_inv s' \<and>
    fs_view s' = (\<lambda>q. if take (length path) q = path then None else fs_view s q)"
proof -
  from dir obtain e bs where v: "fs_view s path = Some (e, bs)" "etype e = FS_TYPE_DIR" by (auto simp: is_dir_def)
  then obtain i where i: "in_use s i" "name (ent_at s i) = path" "e = ent_at s i" by (auto simp: fs_view_Some [OF inv])
  have path: "is_cstr path" using entry_okD(1) [OF fs_invD(3) [OF inv i(1)]] i(2) by simp
  have stat: "fs_stat path s = fs_EntryV s i" "fs_stat path s \<noteq> 0"
    using i fs_invD(2) [OF inv] find_entry_Some [OF inv path, of i] by (simp_all add: fs_stat_def in_use_def)
  obtain s' where s': "bulk_loop path 0 FS_MAX_ENTCOUNT s = Inr s'" "fs_inv s'"
    "fs_view s' = (\<lambda>q. if take (length path) q = path \<and>
        (\<exists>j. 0 \<le> j \<and> j < 0 + FS_MAX_ENTCOUNT \<and> in_use s j \<and> name (ent_at s j) = q) then None else fs_view s q)"
    using bulk_loop_view [OF path inv, of 0 FS_MAX_ENTCOUNT] by auto
  have "fs_view s' q = (if take (length path) q = path then None else fs_view s q)" for q
  proof (cases "\<exists>j. in_use s j \<and> name (ent_at s j) = q")
    case True
    then have "\<exists>j. 0 \<le> j \<and> j < 0 + FS_MAX_ENTCOUNT \<and> in_use s j \<and> name (ent_at s j) = q" by (auto simp: in_use_def)
    then show ?thesis unfolding s'(3) by simp
  next
    case False
    then have "fs_view s q = None" by (auto simp: fs_view_None [OF inv])
    then show ?thesis unfolding s'(3) by simp
  qed
  moreover have "fs_bulkRemove path s = Inr (FS_STS_SUCCESS, s')"
    using fs_invD(2) [OF inv] stat i v(2) s'(1) by (simp add: fs_bulkRemove_def ent_at_def)
  ultimately show ?thesis using s'(2) by (intro exI [of _ s']) (simp add: fun_eq_iff)
qed

section \<open>Reading\<close>

lemma fs_view_cong:
  assumes "fs_EntryV s = fs_EntryV t" "fs_ent s = fs_ent t" "mem s = mem t"
  shows "fs_view s = fs_view t"
proof -
  have "ent_at s = ent_at t" by (rule ext) (simp only: ent_at_def assms)
  moreover from this have "named s = named t" by (intro ext) (simp only: named_def assms)
  moreover from \<open>ent_at s = ent_at t\<close> have "bytes_at s = bytes_at t"
    by (intro ext) (simp only: bytes_at_def assms)
  ultimately show ?thesis by (intro ext) (simp only: fs_view_def find_entry_def)
qed

lemma fs_inv_cong:
  assumes "fs_EntryV s = fs_EntryV t" "fs_ent s = fs_ent t" "live s = live t" "mm_inv s = mm_inv t"
    "fs_InitLock s = fs_InitLock t"
  shows "fs_inv s = fs_inv t"
  by (simp only: fs_inv_def in_use_def ent_at_def assms)

lemma fs_frame [simp]:
  "fs_inv (s\<lparr>ticks := n\<rparr>) = fs_inv s" "fs_view (s\<lparr>ticks := n\<rparr>) = fs_view s"
  "fs_inv (s\<lparr>fs_RADirent := d\<rparr>) = fs_inv s" "fs_view (s\<lparr>fs_RADirent := d\<rparr>) = fs_view s"
  by (rule fs_inv_cong fs_view_cong; simp)+

text \<open>A change of an entry's header that keeps its name and type, and its size if it keeps its bytes.\<close>

lemma header_view:
  assumes inv: "fs_inv s" and i: "in_use s i"
    and f: "name (f (ent_at s i)) = name (ent_at s i)" "etype (f (ent_at s i)) = etype (ent_at s i)"
      "own_bytes (f (ent_at s i)) \<Longrightarrow> own_bytes (ent_at s i) \<and> fsize (f (ent_at s i)) = fsize (ent_at s i)"
  shows "fs_inv (set_ent (fs_EntryV s i) f s) \<and>
    fs_view (set_ent (fs_EntryV s i) f s) = (fs_view s)(name (ent_at s i) \<mapsto> (f (ent_at s i), if own_bytes (f (ent_at s i)) then bytes_at s i else []))"
proof -
  let ?s = "set_ent (fs_EntryV s i) f s"
  have use: "in_use ?s = in_use s" by (simp add: in_use_def set_ent_def fun_eq_iff)
  have ent: "ent_at ?s j = (if j = i then f (ent_at s i) else ent_at s j)" if "in_use s j" for j
    using fs_invD(4) [OF inv that i] by (auto simp: set_ent_def ent_at_def)
  have by': "bytes_at ?s j = (if j = i \<and> \<not> own_bytes (f (ent_at s i)) then [] else bytes_at s j)" if "in_use s j" for j
    using ent [OF that] f by (auto simp: bytes_at_def set_ent_def ent_at_def)
  have nm: "name (ent_at ?s j) = name (ent_at s j)" if "in_use s j" for j using ent [OF that] f by simp
  have inv': "fs_inv ?s"
    unfolding fs_inv_def use
  proof (intro conjI allI impI)
    show "mm_inv ?s" "fs_InitLock ?s" using fs_invD(1,2) [OF inv] by (simp_all add: set_ent_def)
  next
    fix j assume j: "in_use s j"
    have "live ?s = live s" "fs_EntryV ?s = fs_EntryV s" by (simp_all add: set_ent_def)
    then show "entry_ok (ent_at ?s j) (live ?s (fs_EntryV ?s j))"
      using ent [OF j] fs_invD(3) [OF inv j] f by (auto simp: entry_ok_def)
  next
    fix j k assume "in_use s j" "in_use s k" "fs_EntryV ?s j = fs_EntryV ?s k \<or> name (ent_at ?s j) = name (ent_at ?s k)"
    then show "j = k" using nm fs_invD(4,5) [OF inv, of j k] by (auto simp: set_ent_def)
  qed
  have "fs_view ?s q = ((fs_view s)(name (ent_at s i) \<mapsto> (f (ent_at s i), if own_bytes (f (ent_at s i)) then bytes_at s i else []))) q" for q
  proof (cases "q = name (ent_at s i)")
    case True
    have "in_use ?s i" "name (ent_at ?s i) = q" using use i nm [OF i] True by simp_all
    from fs_viewI [OF inv' this] show ?thesis using True ent [OF i] by' [OF i] by simp
  next
    case False
    have "fs_view ?s q = fs_view s q"
      by (rule fs_view_eqI [OF inv inv']) (use use ent by' nm False in auto)
    with False show ?thesis by simp
  qed
  with inv' show ?thesis by (simp add: fun_eq_iff)
qed

lemma touch_view:
  assumes inv: "fs_inv s" and i: "in_use s i"
    and f: "name (f (ent_at s i)) = name (ent_at s i)" "etype (f (ent_at s i)) = etype (ent_at s i)"
      "fsize (f (ent_at s i)) = fsize (ent_at s i)" "ftype (f (ent_at s i)) = ftype (ent_at s i)"
  shows "fs_inv (set_ent (fs_EntryV s i) f s) \<and>
    fs_view (set_ent (fs_EntryV s i) f s) = (fs_view s)(name (ent_at s i) \<mapsto> (f (ent_at s i), bytes_at s i))"
proof -
  have "own_bytes (f (ent_at s i)) = own_bytes (ent_at s i)" using f by (simp add: own_bytes_def)
  then have "(if own_bytes (f (ent_at s i)) then bytes_at s i else []) = bytes_at s i"
    "own_bytes (f (ent_at s i)) \<Longrightarrow> own_bytes (ent_at s i) \<and> fsize (f (ent_at s i)) = fsize (ent_at s i)"
    using f(3) by (simp_all add: bytes_at_def)
  with header_view [where f = f, OF inv i f(1,2)] show ?thesis by simp
qed

lemma stamp_view:
  assumes inv: "fs_inv s" and i: "in_use s i"
  shows "fs_inv (stamp (fs_EntryV s i) atime_update s) \<and>
    fs_view (stamp (fs_EntryV s i) atime_update s) =
      (fs_view s)(name (ent_at s i) \<mapsto> ((ent_at s i)\<lparr>atime := fst (date s)\<rparr>, bytes_at s i))"
  unfolding stamp_eq
  using touch_view [of "s\<lparr>ticks := ticks s + 6\<rparr>" i "atime_update (\<lambda>_. fst (date s))"] inv i
  by (simp add: in_use_def ent_at_def bytes_at_def)

lemma readFile_eq:
  assumes inv: "fs_inv s" and i: "in_use s i" "etype (ent_at s i) = FS_TYPE_FILE" "ftype (ent_at s i) \<noteq> FS_TYPE_MOUNTED"
  shows "fs_readFile (name (ent_at s i)) s = Inr (fs_EntryV s i + MEMORY_BLKSIZE, stamp (fs_EntryV s i) atime_update s)"
proof -
  have path: "is_cstr (name (ent_at s i))" using entry_okD(1) [OF fs_invD(3) [OF inv i(1)]] .
  have find: "find_entry s (name (ent_at s i)) = Some i" using i(1) find_entry_Some [OF inv path] by simp
  have stat: "fs_stat (name (ent_at s i)) s = fs_EntryV s i" using find fs_invD(2) [OF inv] by (simp add: fs_stat_def)
  let ?s = "stamp (fs_EntryV s i) atime_update s"
  have "fs_EntryV ?s = fs_EntryV s" "ftype (ent_at ?s i) = ftype (ent_at s i)"
    by (simp_all add: stamp_eq set_ent_def ent_at_def)
  then show ?thesis
    using fs_invD(2) [OF inv] find i(2,3) stat data_of_in_use [OF inv i(1)] by (simp add: fs_readFile_def Let_def)
qed

lemma readFile_view:
  assumes inv: "fs_inv s" and v: "fs_view s path = Some (e, bs)" "etype e = FS_TYPE_FILE" "ftype e \<noteq> FS_TYPE_MOUNTED"
  shows "\<exists>p s'. fs_readFile path s = Inr (p, s') \<and> fs_inv s' \<and> p \<noteq> 0 \<and> mread (mem s') p (fsize e) = bs \<and>
    fs_view s' = (fs_view s)(path \<mapsto> (e\<lparr>atime := fst (date s)\<rparr>, bs)) \<and>
    (\<exists>k. live s' (fs_stat path s') = Some k \<and> fs_stat path s' \<le> p \<and> p + fsize e \<le> fs_stat path s' + k)"
proof -
  from v(1) obtain i where i: "in_use s i" "name (ent_at s i) = path" "e = ent_at s i" "bs = bytes_at s i"
    by (auto simp: fs_view_Some [OF inv])
  have path: "is_cstr path" using entry_okD(1) [OF fs_invD(3) [OF inv i(1)]] i(2) by simp
  have find: "find_entry s path = Some i" using i find_entry_Some [OF inv path] by simp
  have stat: "fs_stat path s = fs_EntryV s i" using find fs_invD(2) [OF inv] by (simp add: fs_stat_def)
  define s' where "s' = stamp (fs_EntryV s i) atime_update s"
  note sv = stamp_view [OF inv i(1), folded s'_def]
  have f: "fs_EntryV s' = fs_EntryV s" "mem s' = mem s" "live s' = live s" "ent_at s' i = (ent_at s i)\<lparr>atime := fst (date s)\<rparr>"
    by (simp_all add: s'_def stamp_eq set_ent_def ent_at_def)
  have rd: "fs_readFile path s = Inr (data_of (fs_EntryV s i), s')"
    using fs_invD(2) [OF inv] find v(2,3) i(3) stat f(1,4) by (simp add: fs_readFile_def Let_def s'_def [symmetric])
  have dp: "data_of (fs_EntryV s i) = fs_EntryV s i + MEMORY_BLKSIZE" by (rule data_of_in_use [OF inv i(1)])
  have "in_use s' i" "name (ent_at s' i) = path" using i(1,2) f(1,4) by (simp_all add: in_use_def)
  then have stat': "fs_stat path s' = fs_EntryV s i"
    using find_entry_Some [of s' path i] sv path fs_invD(2) [of s'] f(1) by (simp add: fs_stat_def)
  from in_use_live [OF inv i(1)] v(2,3) i(3) obtain k where
    "live s (fs_EntryV s i) = Some k" "MEMORY_BLKSIZE + fsize e \<le> k" by (auto simp: own_bytes_def)
  then show ?thesis
    using rd sv i v(2,3) dp f stat' by (intro exI [of _ "data_of (fs_EntryV s i)"] exI [of _ s']) (simp add: bytes_at_def own_bytes_def)
qed

lemma dirent_fill_eq:
  "fold (\<lambda>i (d, j). if P i then (d(j := int i), Suc j) else (d, j)) xs (d, j) =
     ((\<lambda>k. if j \<le> k \<and> k < j + length (filter P xs) then int (filter P xs ! (k - j)) else d k), j + length (filter P xs))"
proof (induction xs arbitrary: d j)
  case (Cons x xs)
  show ?case
  proof (cases "P x")
    case True
    have "(\<lambda>k. if Suc j \<le> k \<and> k < Suc j + length (filter P xs) then int (filter P xs ! (k - Suc j)) else (d(j := int x)) k) =
        (\<lambda>k. if j \<le> k \<and> k < j + length (filter P (x # xs)) then int (filter P (x # xs) ! (k - j)) else d k)"
      using True by (auto simp: fun_eq_iff nth_Cons' Suc_diff_le not_less_eq_eq le_Suc_eq)
    then show ?thesis using True Cons [of "d(j := int x)" "Suc j"] by (simp del: fun_upd_apply)
  next
    case False
    then have f: "filter P (x # xs) = filter P xs" by simp
    show ?thesis unfolding f using False Cons [of d j] by (simp del: fun_upd_apply)
  qed
qed (auto intro!: ext)

definition listing :: "'a fs_scheme \<Rightarrow> cstring \<Rightarrow> nat list" where
  "listing s path =
     filter (\<lambda>i. fs_EntryV s i \<noteq> 0 \<and> take (length path) (name (ent_at s i)) = path) [0..<FS_MAX_ENTCOUNT]"

lemma dirent_listing:
  assumes "fs_inv s" "is_cstr path"
  shows "fst (dirent_fill (under s path (length path))) =
    (\<lambda>k. if k < length (listing s path) then int (listing s path ! k) else FS_DIRENTEND)"
proof -
  have "filter (under s path (length path)) [0..<FS_MAX_ENTCOUNT] = listing s path"
    unfolding listing_def using under_iff [OF assms, of "length path"]
    by (intro filter_cong) (auto simp: in_use_def)
  then show ?thesis by (simp add: dirent_fill_def dirent_fill_eq fun_eq_iff)
qed

lemma readDir_view:
  assumes inv: "fs_inv s" and path: "is_cstr path"
  shows "\<exists>ok s'. fs_readDir path s = (ok, s') \<and> fs_inv s' \<and>
    (ok \<longleftrightarrow> path = [slash] \<or> is_dir s path) \<and>
    (if ok then fs_RADirent s' = (\<lambda>k. if k < length (listing s path) then int (listing s path ! k) else FS_DIRENTEND) \<and>
        (\<forall>q. map_option snd (fs_view s' q) = map_option snd (fs_view s q) \<and>
             (q \<noteq> path \<longrightarrow> fs_view s' q = fs_view s q))
     else s' = s)"
proof -
  have init: "fs_InitLock s" by (rule fs_invD(2) [OF inv])
  note dl = dirent_listing [OF inv path]
  have ends: "ends_slash path" if "is_dir s path"
  proof -
    from that obtain i where "in_use s i" "name (ent_at s i) = path" "etype (ent_at s i) = FS_TYPE_DIR"
      by (auto simp: is_dir_def fs_view_Some [OF inv])
    then show ?thesis using entry_okD(6) [OF fs_invD(3) [OF inv]] by fastforce
  qed
  have root: "sncompare path [slash] (length path) = 0 \<longleftrightarrow> path = [slash]" if "ends_slash path"
    using sncompare_eq_0 [OF path, of "[slash]" "length path"] that by (cases path) (auto simp: ends_slash_def take_Cons')
  consider (bad) "\<not> ends_slash path" | (root) "path = [slash]"
    | (none) "ends_slash path" "path \<noteq> [slash]" "find_entry s path = None"
    | (dir) i where "ends_slash path" "path \<noteq> [slash]" "find_entry s path = Some i"
    by (cases "find_entry s path") blast+
  then show ?thesis
  proof cases
    case bad
    then have "fs_readDir path s = (False, s)" using init by (auto simp: fs_readDir_def ends_slash_def)
    then show ?thesis using bad ends inv by (auto simp: ends_slash_def)
  next
    case root
    then have "fs_readDir path s = (True, s\<lparr>fs_RADirent := fst (dirent_fill (under s path (length path)))\<rparr>)"
      using init \<open>ends_slash path \<Longrightarrow> _\<close> by (simp add: fs_readDir_def ends_slash_def Let_def)
    then show ?thesis unfolding dl using root inv
      by (intro exI [of _ True] exI [of _ "s\<lparr>fs_RADirent := _\<rparr>"]) simp
  next
    case none
    then have "fs_readDir path s = (False, s)"
      using init root by (auto simp: fs_readDir_def ends_slash_def Let_def)
    moreover have "\<not> is_dir s path" using none(3) find_entry_view [OF inv path] by (simp add: is_dir_def)
    ultimately show ?thesis using none inv by (intro exI [of _ False] exI [of _ s]) simp
  next
    case dir
    then have i: "in_use s i" "name (ent_at s i) = path" by (simp_all add: find_entry_Some [OF inv path])
    have ty: "etype (ent_at s i) = FS_TYPE_DIR" using entry_okD(5) [OF fs_invD(3) [OF inv i(1)]] i dir by simp
    have v: "fs_view s path = Some (ent_at s i, bytes_at s i)" by (rule fs_viewI [OF inv i])
    define d where "d = fst (dirent_fill (under s path (length path)))"
    let ?s = "s\<lparr>fs_RADirent := d\<rparr>"
    define s' where "s' = stamp (fs_EntryV ?s i) atime_update ?s"
    have stat: "fs_stat path s = fs_EntryV ?s i" using dir init by (simp add: fs_stat_def)
    have rd: "fs_readDir path s = (True, s')"
      using init dir root ty stat by (auto simp: fs_readDir_def ends_slash_def Let_def s'_def d_def)
    have use: "in_use ?s i" "ent_at ?s i = ent_at s i" "bytes_at ?s i = bytes_at s i"
      using i(1) by (simp_all add: in_use_def ent_at_def bytes_at_def)
    have sv: "fs_inv s' \<and> fs_view s' = (fs_view s)(path \<mapsto> ((ent_at s i)\<lparr>atime := fst (date ?s)\<rparr>, bytes_at s i))"
      using stamp_view [of ?s i] use inv i(2) by (simp add: s'_def)
    have "fs_RADirent s' = d" by (simp add: s'_def stamp_eq set_ent_def)
    moreover have "is_dir s path" using v ty by (simp add: is_dir_def)
    ultimately show ?thesis using rd sv v dl unfolding d_def by (intro exI [of _ True] exI [of _ s']) auto
  qed
qed

section \<open>Histories\<close>

datatype fs_req =
  CreateDir cstring | WriteFile cstring nat addr | ReadFile cstring | ReadDir cstring | Remove cstring | BulkRemove cstring

text \<open>What a caller owes: C strings as paths, a file name that fits into the entry, a size that
  fits into the heap, and a source buffer that is not free memory.\<close>

fun fs_owed :: "'a fs_scheme \<Rightarrow> fs_req \<Rightarrow> bool" where
  "fs_owed s (CreateDir path) = (is_cstr path \<and> fits s MEMORY_BLKSIZE)"
| "fs_owed s (WriteFile path sz buf) =
     (is_cstr path \<and> length path < FS_MAX_PATHLEN \<and> fits s (MEMORY_BLKSIZE + sz) \<and> buf_ok s buf sz)"
| "fs_owed s (ReadFile path) = is_cstr path"
| "fs_owed s (ReadDir path) = is_cstr path"
| "fs_owed s (Remove path) = is_cstr path"
| "fs_owed s (BulkRemove path) = is_cstr path"

inductive fs_step :: "'a fs_scheme \<Rightarrow> fs_req \<Rightarrow> 'a fs_scheme \<Rightarrow> bool" where
  step_createDir: "fs_createDir path s = Inr (st, s') \<Longrightarrow> fs_step s (CreateDir path) s'"
| step_writeFile: "fs_writeFile path sz buf s = Inr (st, s') \<Longrightarrow> fs_step s (WriteFile path sz buf) s'"
| step_readFile: "fs_readFile path s = Inr (p, s') \<Longrightarrow> fs_step s (ReadFile path) s'"
| step_readDir: "fs_readDir path s = (ok, s') \<Longrightarrow> fs_step s (ReadDir path) s'"
| step_remove: "fs_remove path s = Inr (st, s') \<Longrightarrow> fs_step s (Remove path) s'"
| step_bulkRemove: "fs_bulkRemove path s = Inr (st, s') \<Longrightarrow> fs_step s (BulkRemove path) s'"

inductive_cases fs_stepE: "fs_step s r s'"
inductive_simps fs_step_simps: "fs_step s (Remove path) s'" "fs_step s (ReadDir path) s'"

inductive fs_run :: "'a fs_scheme \<Rightarrow> fs_req list \<Rightarrow> 'a fs_scheme \<Rightarrow> bool" where
  run_nil: "fs_run s [] s"
| run_cons: "fs_owed s r \<Longrightarrow> fs_step s r s1 \<Longrightarrow> fs_run s1 rs s2 \<Longrightarrow> fs_run s (r # rs) s2"

lemma readFile_inv:
  assumes inv: "fs_inv s" and path: "is_cstr path" and rd: "fs_readFile path s = Inr (p, s')"
  shows "fs_inv s'"
proof (cases "find_entry s path")
  case None
  with rd inv fs_invD(2) [OF inv] show ?thesis by (simp add: fs_readFile_def)
next
  case (Some i)
  then have i: "in_use s i" by (simp add: find_entry_Some [OF inv path])
  have stat: "fs_stat path s = fs_EntryV s i" using Some fs_invD(2) [OF inv] by (simp add: fs_stat_def)
  have "s' = s \<or> s' = stamp (fs_EntryV s i) atime_update s"
    using rd Some fs_invD(2) [OF inv] stat
    by (auto simp: fs_readFile_def Let_def checkR_def split: if_splits)
  then show ?thesis using stamp_view [OF inv i] inv by auto
qed

lemma fs_step_inv: "fs_step s r s' \<Longrightarrow> fs_owed s r \<Longrightarrow> fs_inv s \<Longrightarrow> fs_inv s'"
proof (induction rule: fs_step.induct)
  case (step_createDir path s st s')
  then show ?case using createDir_view [of s path] by auto
next
  case (step_writeFile path sz buf s st s')
  then show ?case using writeFile_view [of s path sz buf] by auto
next
  case (step_readFile path s p s')
  then show ?case using readFile_inv by auto
next
  case (step_readDir path s ok s')
  then show ?case using readDir_view [of s path] by auto
next
  case (step_remove path s st s')
  then show ?case using remove_view [of s path] by auto
next
  case (step_bulkRemove path s st s')
  show ?case
  proof (cases "is_dir s path")
    case True
    then show ?thesis using step_bulkRemove bulkRemove_view [of s path] by auto
  next
    case False
    have path: "is_cstr path" using step_bulkRemove.prems by simp
    have "fs_stat path s = 0 \<or> etype (fs_ent s (fs_stat path s)) \<noteq> FS_TYPE_DIR"
      using False step_bulkRemove.prems find_entry_Some [OF \<open>fs_inv s\<close> path]
      by (auto simp: fs_stat_def is_dir_def fs_view_Some ent_at_def split: option.splits)
    then show ?thesis
      using step_bulkRemove remove_view [of s path] fs_invD(2) [OF \<open>fs_inv s\<close>]
      by (auto simp: fs_bulkRemove_def split: if_splits)
  qed
qed

lemma fs_run_inv: "fs_run s rs s' \<Longrightarrow> fs_inv s \<Longrightarrow> fs_inv s'"
  by (induction rule: fs_run.induct) (auto intro: fs_step_inv)

lemma fs_stat_in_use:
  "fs_inv s \<Longrightarrow> in_use s i \<Longrightarrow> fs_stat (name (ent_at s i)) s = fs_EntryV s i"
  using find_entry_Some [of s "name (ent_at s i)" i] fs_invD(2,3) [of s] entry_okD(1)
  by (fastforce simp: fs_stat_def)

section \<open>Frames\<close>

lemma free_frame: "Memory.free p s = Inr s' \<Longrightarrow> \<exists>V. s' = s\<lparr>memory_BlockV := V\<rparr>"
  by (auto simp: free_def Let_def checkR_def split: if_splits intro: exI [of _ "memory_BlockV s"])

lemma realloc_frame: "realloc p n s = Inr (q, s') \<Longrightarrow> \<exists>V m. s' = s\<lparr>memory_BlockV := V, mem := m\<rparr>"
proof -
  assume r: "realloc p n s = Inr (q, s')"
  show ?thesis
  proof (cases "bad_pointer p s")
    case True
    then show ?thesis using r by (intro exI [of _ "memory_BlockV s"] exI [of _ "mem s"]) (simp add: realloc_def)
  next
    case False
    with r obtain q1 s1 where m: "malloc n s = Inr (q1, s1)" and
      c: "(if q1 = 0 then Inr (0, s1)
          else bindR (Memory.free p (s1\<lparr>mem := ncopy (mem s1) q1 p n\<rparr>)) (\<lambda>s2. Inr (q1, s2))) = Inr (q, s')"
      by (auto simp: realloc_def bindR_eq_Inr)
    obtain V where V: "s1 = s\<lparr>memory_BlockV := V\<rparr>" using malloc_frame [OF m] by blast
    show ?thesis
    proof (cases "q1 = 0")
      case True
      then have "s' = s\<lparr>memory_BlockV := V, mem := mem s\<rparr>" using c V by auto
      then show ?thesis by blast
    next
      case False
      with c obtain s2 where f: "Memory.free p (s1\<lparr>mem := ncopy (mem s1) q1 p n\<rparr>) = Inr s2" "s' = s2"
        by (auto simp: bindR_eq_Inr)
      from free_frame [OF f(1)] obtain W where
        "s2 = s1\<lparr>mem := ncopy (mem s1) q1 p n\<rparr>\<lparr>memory_BlockV := W\<rparr>" by blast
      then have "s' = s\<lparr>memory_BlockV := W, mem := ncopy (mem s) q1 p n\<rparr>" using V f(2) by simp
      then show ?thesis by blast
    qed
  qed
qed

lemma readFile_frame: "fs_readFile path s = Inr (p, s') \<Longrightarrow> \<exists>t e. s' = s\<lparr>ticks := t, fs_ent := e\<rparr>"
proof -
  assume "fs_readFile path s = Inr (p, s')"
  then consider "s' = s" | "s' = stamp (fs_stat path s) atime_update s"
    by (auto simp: fs_readFile_def Let_def checkR_def split: if_splits option.splits)
  then show ?thesis
  proof cases
    case 1
    then have "s' = s\<lparr>ticks := ticks s, fs_ent := fs_ent s\<rparr>" by simp
    then show ?thesis by blast
  qed (auto simp: stamp_eq set_ent_def)
qed

definition fs_fields_only :: "'a fs_scheme \<Rightarrow> 'a fs_scheme \<Rightarrow> bool" where
  "fs_fields_only s s' \<longleftrightarrow>
     (\<exists>m t V ev e. s' = s\<lparr>mem := m, ticks := t, memory_BlockV := V, fs_EntryV := ev, fs_ent := e\<rparr>)"

lemma fs_fields_onlyI:
  "s' = s\<lparr>mem := m, ticks := t, memory_BlockV := V, fs_EntryV := ev, fs_ent := e\<rparr> \<Longrightarrow> fs_fields_only s s'"
  unfolding fs_fields_only_def by blast

lemma fs_fields_only_refl: "fs_fields_only s s"
  by (rule fs_fields_onlyI [where m = "mem s" and t = "ticks s" and V = "memory_BlockV s" and ev = "fs_EntryV s" and e = "fs_ent s"]) simp

lemma overwrite_file_frame: "overwrite_file i sz buf s = Inr (st, s') \<Longrightarrow> fs_fields_only s s'"
proof -
  assume o: "overwrite_file i sz buf s = Inr (st, s')"
  show ?thesis
  proof (cases "etype (ent_at s i) = FS_TYPE_DIR")
    case True
    with o show ?thesis by (simp add: overwrite_file_def fs_fields_only_refl)
  next
    case False
    with o obtain p s1 where r: "realloc (fs_EntryV s i) (wrap32 (sz + MEMORY_BLKSIZE)) s = Inr (p, s1)" and
      s': "s' = s1 \<or> s' = stamp p atime_update (stamp p mtime_update (set_ent p (fsize_update (\<lambda>_. sz))
        (put_data p sz buf (s1\<lparr>fs_ent := (fs_ent s1)(p := fs_ent s1 (fs_EntryV s i)), fs_EntryV := (fs_EntryV s1)(i := p)\<rparr>))))"
      by (auto simp: overwrite_file_def Let_def bindR_eq_Inr split: if_splits)
    from realloc_frame [OF r] obtain V m where "s1 = s\<lparr>memory_BlockV := V, mem := m\<rparr>" by blast
    with s' show ?thesis
    proof (elim disjE)
      assume "s' = s1" "s1 = s\<lparr>memory_BlockV := V, mem := m\<rparr>"
      then show ?thesis
        by (intro fs_fields_onlyI [where m = m and t = "ticks s" and V = V and ev = "fs_EntryV s" and e = "fs_ent s"]) simp
    next
      assume "s' = stamp p atime_update (stamp p mtime_update (set_ent p (fsize_update (\<lambda>_. sz))
        (put_data p sz buf (s1\<lparr>fs_ent := (fs_ent s1)(p := fs_ent s1 (fs_EntryV s i)), fs_EntryV := (fs_EntryV s1)(i := p)\<rparr>))))"
        "s1 = s\<lparr>memory_BlockV := V, mem := m\<rparr>"
      then show ?thesis
        by (intro fs_fields_onlyI [where m = "mem s'" and t = "ticks s'" and V = V and ev = "fs_EntryV s'" and e = "fs_ent s'"]) (simp add: ent_defs)
    qed
  qed
qed

lemma create_file_frame: "create_file path sz buf s = Inr (st, s') \<Longrightarrow> fs_fields_only s s'"
proof (cases "free_slot s")
  case None
  assume "create_file path sz buf s = Inr (st, s')"
  with None show ?thesis by (simp add: create_file_def fs_fields_only_refl)
next
  case (Some i)
  assume c: "create_file path sz buf s = Inr (st, s')"
  with Some obtain p s1 where m: "malloc (wrap32 (MEMORY_BLKSIZE + sz)) s = Inr (p, s1)"
    by (auto simp: create_file_def bindR_eq_Inr)
  obtain V where V: "s1 = s\<lparr>memory_BlockV := V\<rparr>" using malloc_frame [OF m] by blast
  show ?thesis
    using c Some m V
    by (intro fs_fields_onlyI [where m = "mem s'" and t = "ticks s'" and V = V and ev = "fs_EntryV s'" and e = "fs_ent s'"])
      (auto simp: create_file_def ent_defs checkR_def split: if_splits)
qed

lemma writeFile_frame: "fs_writeFile path sz buf s = Inr (st, s') \<Longrightarrow> fs_fields_only s s'"
  by (auto simp: fs_writeFile_def bindR_eq_Inr fs_fields_only_refl split: if_splits option.splits
      dest: overwrite_file_frame create_file_frame)

text \<open>The bytes of the heap that belong to entries decide the invariant and the view.\<close>

lemma fs_heap_change:
  assumes inv: "fs_inv s" and mm: "mm_inv s'"
    and same: "fs_EntryV s' = fs_EntryV s" "fs_ent s' = fs_ent s" "fs_InitLock s' = fs_InitLock s"
    and live: "\<And>i. in_use s i \<Longrightarrow> live s' (fs_EntryV s i) = live s (fs_EntryV s i)"
    and mem: "\<And>i k. in_use s i \<Longrightarrow> live s (fs_EntryV s i) = Some k \<Longrightarrow>
        mread (mem s') (fs_EntryV s i) k = mread (mem s) (fs_EntryV s i) k"
  shows "fs_inv s' \<and> fs_view s' = fs_view s"
proof -
  have use: "in_use s' = in_use s" "ent_at s' = ent_at s" using same by (auto simp: in_use_def ent_at_def fun_eq_iff)
  have inv': "fs_inv s'"
    using inv mm live same use by (auto simp: fs_inv_def)
  have "bytes_at s' i = bytes_at s i" if i: "in_use s i" for i
  proof -
    from in_use_live [OF inv i] obtain k where k: "live s (fs_EntryV s i) = Some k"
      "own_bytes (ent_at s i) \<longrightarrow> MEMORY_BLKSIZE + fsize (ent_at s i) \<le> k" by (elim exE conjE)
    have "mread (mem s') (data_of (fs_EntryV s i)) (fsize (ent_at s i)) =
        mread (mem s) (data_of (fs_EntryV s i)) (fsize (ent_at s i))" if "own_bytes (ent_at s i)"
      by (rule mread_sub [OF mem [OF i k(1)]]) (use k(2) that in \<open>simp_all add: data_of_in_use [OF inv i]\<close>)
    then show ?thesis by (simp add: bytes_at_def use same)
  qed
  then have "fs_view s' q = fs_view s q" for q
    by (intro fs_view_eqI [OF inv inv']) (simp_all add: use)
  with inv' show ?thesis by (simp add: fun_eq_iff)
qed

lemma free_spare:
  assumes inv: "fs_inv s" and r: "spare s r k"
  shows "\<exists>V. Memory.free r s = Inr (s\<lparr>memory_BlockV := V\<rparr>) \<and> fs_inv (s\<lparr>memory_BlockV := V\<rparr>) \<and>
    fs_view (s\<lparr>memory_BlockV := V\<rparr>) = fs_view s"
proof -
  have l: "live s r = Some k" "\<And>i. in_use s i \<Longrightarrow> fs_EntryV s i \<noteq> r" using r by (auto simp: spare_def)
  obtain V where V: "Memory.free r s = Inr (s\<lparr>memory_BlockV := V\<rparr>)" "mm_inv (s\<lparr>memory_BlockV := V\<rparr>)"
    "live (s\<lparr>memory_BlockV := V\<rparr>) = (live s)(r := None)"
    using free_live [OF fs_invD(1) [OF inv] l(1)] by blast
  have "fs_inv (s\<lparr>memory_BlockV := V\<rparr>) \<and> fs_view (s\<lparr>memory_BlockV := V\<rparr>) = fs_view s"
    by (rule fs_heap_change [OF inv V(2)]) (use V(3) l(2) in simp_all)
  with V(1) show ?thesis by blast
qed

lemma createDir_frame: "fs_createDir path s = Inr (st, s') \<Longrightarrow> fs_fields_only s s' \<and> mem s' = mem s"
proof -
  assume c: "fs_createDir path s = Inr (st, s')"
  show ?thesis
  proof (cases "s' = s")
    case False
    with c obtain i p s1 where m: "malloc MEMORY_BLKSIZE s = Inr (p, s1)" and
      s': "s' = s1 \<or> (\<exists>s2. copy_name p path (s1\<lparr>fs_EntryV := (fs_EntryV s1)(i := p)\<rparr>) = Inr s2 \<and>
        s' = set_ent p (\<lambda>e. e\<lparr>perm := 0x1FF, etype := FS_TYPE_DIR\<rparr>) (stamp_all p (set_ent p (\<lambda>e. e\<lparr>user := 0, group := 0\<rparr>) s2)))"
      by (auto simp: fs_createDir_def bindR_eq_Inr split: if_splits option.splits)
    from malloc_frame [OF m] obtain V where V: "s1 = s\<lparr>memory_BlockV := V\<rparr>" by blast
    have eq: "s' = s\<lparr>mem := mem s, ticks := ticks s', memory_BlockV := V, fs_EntryV := fs_EntryV s', fs_ent := fs_ent s'\<rparr>"
      using s' by (auto simp: V copy_name_def checkR_def ent_defs split: if_splits)
    then have "mem s' = mem s" by (cases s') simp
    with fs_fields_onlyI [OF eq] show ?thesis by simp
  qed (simp add: fs_fields_only_refl)
qed

lemma create_file_mem: "create_file path 0 buf s = Inr (st, s') \<Longrightarrow> mem s' = mem s"
proof (cases "free_slot s")
  case (Some i)
  assume c: "create_file path 0 buf s = Inr (st, s')"
  with Some obtain p s1 where m: "malloc (wrap32 MEMORY_BLKSIZE) s = Inr (p, s1)"
    by (auto simp: create_file_def bindR_eq_Inr)
  obtain V where V: "s1 = s\<lparr>memory_BlockV := V\<rparr>" using malloc_frame [OF m] by blast
  show ?thesis using c Some m V by (auto simp: create_file_def ent_defs checkR_def split: if_splits)
qed (auto simp: create_file_def)

lemma writeFile_mem:
  "fs_inv s \<Longrightarrow> is_cstr path \<Longrightarrow> fs_view s path = None \<Longrightarrow> fs_writeFile path 0 buf s = Inr (st, s') \<Longrightarrow> mem s' = mem s"
  using find_entry_view [of s path]
  by (auto simp: fs_writeFile_def bindR_eq_Inr split: if_splits option.splits dest: create_file_mem)

lemma buffer_write:
  assumes inv: "fs_inv s" and sp: "spare s buf k" and len: "length bs \<le> k"
  defines "s' \<equiv> s\<lparr>mem := mwrite (mem s) buf bs\<rparr>"
  shows "fs_inv s'" "fs_view s' = fs_view s" "spare s' = spare s"
proof -
  have l: "live s' = live s" by (rule live_cong) (simp_all add: s'_def)
  have "fs_inv s' \<and> fs_view s' = fs_view s"
  proof (rule fs_heap_change [OF inv])
    show "mm_inv s'" using fs_invD(1) [OF inv] mm_inv_cong [of s' s] by (simp add: s'_def)
    fix i j assume i: "in_use s i" "live s (fs_EntryV s i) = Some j"
    have "disj buf k (fs_EntryV s i) j"
      using live_disjoint [OF fs_invD(1) [OF inv] _ i(2)] sp i(1) by (auto simp: spare_def)
    then have "disj buf (length bs) (fs_EntryV s i) j" by (rule disj_mono) (simp_all add: len)
    then show "mread (mem s') (fs_EntryV s i) j = mread (mem s) (fs_EntryV s i) j" by (simp add: s'_def mem_simps)
  qed (simp_all add: s'_def l)
  then show "fs_inv s'" "fs_view s' = fs_view s" by blast+
  show "spare s' = spare s" by (intro ext) (simp add: spare_def l in_use_def, simp add: s'_def)
qed

lemma view_card: "fs_inv s \<Longrightarrow> finite (dom (fs_view s)) \<and> card (dom (fs_view s)) \<le> FS_MAX_ENTCOUNT"
proof -
  assume inv: "fs_inv s"
  have fin: "finite {i. in_use s i}" by (rule finite_subset [of _ "{..<FS_MAX_ENTCOUNT}"]) (auto simp: in_use_def)
  have "dom (fs_view s) \<subseteq> (\<lambda>i. name (ent_at s i)) ` {i. in_use s i}"
    by (auto simp: fs_view_Some [OF inv])
  then have "finite (dom (fs_view s))" "card (dom (fs_view s)) \<le> card {i. in_use s i}"
    using finite_subset [OF _ finite_imageI [OF fin]] surj_card_le [OF fin] by blast+
  moreover have "card {i. in_use s i} \<le> card {..<FS_MAX_ENTCOUNT}"
    by (rule card_mono) (auto simp: in_use_def)
  ultimately show ?thesis by simp
qed

section \<open>Initialisation\<close>

lemma calloc_fits:
  assumes "mm_inv s" "fits s (wrap32 (n * k))"
  shows "\<exists>p s'. calloc n k s = Inr (p, s') \<and> mm_inv s' \<and>
    (p = 0 \<or> live s p = None \<and> live s' = (live s)(p \<mapsto> nblocks (wrap32 (n * k)) * MEMORY_BLKSIZE)) \<and>
    (\<exists>V m. s' = s\<lparr>memory_BlockV := V, mem := m\<rparr>)"
proof -
  let ?n = "wrap32 (n * k)"
  have lock: "memory_InitLock s" by (rule mm_inv_lock [OF assms(1)])
  obtain p s1 where m: "malloc ?n s = Inr (p, s1)" using malloc_total [OF assms] by blast
  obtain V where V: "s1 = s\<lparr>memory_BlockV := V\<rparr>" using malloc_frame [OF m] by blast
  have "?n < 4294967296" by (rule wrap32_less)
  then have "\<not> ?n > 4294967295" by linarith
  then have c: "calloc n k s = (if p = 0 then Inr (0, s1) else Inr (p, s1\<lparr>mem := fill (mem s1) p 0 ?n\<rparr>))"
    using lock m by (simp add: calloc_def Let_def)
  show ?thesis
  proof (cases "p = 0")
    case True
    then have "s1 = s" using malloc_null(1) [OF assms] m by simp
    then have "calloc n k s = Inr (0, s)" using True c by simp
    moreover have "s = s\<lparr>memory_BlockV := memory_BlockV s, mem := mem s\<rparr>" by simp
    ultimately show ?thesis using assms(1) by blast
  next
    case False
    have "calloc n k s = Inr (p, s\<lparr>memory_BlockV := V, mem := fill (mem s) p 0 ?n\<rparr>)" using False c V by simp
    moreover have "mm_inv (s\<lparr>memory_BlockV := V, mem := fill (mem s) p 0 ?n\<rparr>)"
      "live (s\<lparr>memory_BlockV := V, mem := fill (mem s) p 0 ?n\<rparr>) = (live s)(p \<mapsto> nblocks ?n * MEMORY_BLKSIZE)"
      using malloc_live [OF assms m False] V live_cong [of _ s1] mm_inv_cong [of _ s1] by simp_all
    ultimately show ?thesis using malloc_live(1) [OF assms m False] by blast
  qed
qed

lemma malloc_fits:
  assumes "mm_inv s" "fits s n"
  shows "\<exists>p s'. malloc n s = Inr (p, s') \<and> mm_inv s' \<and>
    (p = 0 \<or> live s p = None \<and> live s' = (live s)(p \<mapsto> nblocks n * MEMORY_BLKSIZE)) \<and>
    (\<exists>V. s' = s\<lparr>memory_BlockV := V\<rparr>)"
proof -
  obtain p s1 where m: "malloc n s = Inr (p, s1)" using malloc_total [OF assms] by blast
  show ?thesis
  proof (cases "p = 0")
    case True
    with malloc_null(1) [OF assms] m have "s1 = s" by simp
    then have "malloc n s = Inr (0, s)" "\<exists>V. s = s\<lparr>memory_BlockV := V\<rparr>" using m True malloc_frame [OF m] by simp_all
    with assms(1) show ?thesis by (intro exI [of _ 0] exI [of _ s]) simp
  next
    case False
    show ?thesis using m malloc_live [OF assms m False] malloc_frame [OF m] by blast
  qed
qed

lemma corefs_init_view:
  assumes mm: "mm_inv s" and lock: "\<not> fs_InitLock s" and fit: "fits s 65536"
  shows "case corefs_init s of
      Inl e \<Rightarrow> e = Panic ''Out of memory''
    | Inr (st, s') \<Rightarrow> st = FS_STS_SUCCESS \<and> fs_inv s' \<and>
        (\<exists>e. fs_view s' = [[slash] \<mapsto> (e, [])] \<and> etype e = FS_TYPE_DIR \<and> perm e = 0x1FF)"
proof -
  have fit': "fits (t :: 'a fs_scheme) n" if "memory_BlockC t = memory_BlockC s" "0 < n" "n \<le> 65536" for t n
    using fit that by (simp add: fits_def)
  obtain v s1 where c: "calloc FS_MAX_ENTCOUNT 4 s = Inr (v, s1)" "mm_inv s1"
    "\<exists>V m. s1 = s\<lparr>memory_BlockV := V, mem := m\<rparr>"
    using calloc_fits [OF mm, of FS_MAX_ENTCOUNT 4] fit by auto
  have b1: "memory_BlockC s1 = memory_BlockC s" "fs_InitLock s1 = fs_InitLock s" using c(3) by auto
  have f1: "fits s1 sizeof_Entry" by (rule fit' [OF b1(1)]) simp_all
  obtain root s2 where r: "malloc sizeof_Entry s1 = Inr (root, s2)" "mm_inv s2"
    "root = 0 \<or> live s1 root = None \<and> live s2 = (live s1)(root \<mapsto> nblocks sizeof_Entry * MEMORY_BLKSIZE)"
    "\<exists>V. s2 = s1\<lparr>memory_BlockV := V\<rparr>"
    using malloc_fits [OF c(2) f1] by blast
  have b2: "memory_BlockC s2 = memory_BlockC s" using r(4) b1 by auto
  have f2: "fits s2 (FS_MAX_ENTCOUNT * 4)" by (rule fit' [OF b2]) simp_all
  obtain d s3 where d: "malloc (FS_MAX_ENTCOUNT * 4) s2 = Inr (d, s3)" "mm_inv s3"
    "d = 0 \<or> live s2 d = None \<and> live s3 = (live s2)(d \<mapsto> nblocks (FS_MAX_ENTCOUNT * 4) * MEMORY_BLKSIZE)"
    "\<exists>V. s3 = s2\<lparr>memory_BlockV := V\<rparr>"
    using malloc_fits [OF r(2) f2] by blast
  have b3: "memory_BlockC s3 = memory_BlockC s" using d(4) b2 by auto
  have f3: "fits s3 FS_MAX_PATHLEN" by (rule fit' [OF b3]) simp_all
  obtain ra s4 where ra: "malloc FS_MAX_PATHLEN s3 = Inr (ra, s4)" "mm_inv s4"
    "ra = 0 \<or> live s3 ra = None \<and> live s4 = (live s3)(ra \<mapsto> nblocks FS_MAX_PATHLEN * MEMORY_BLKSIZE)"
    "\<exists>V. s4 = s3\<lparr>memory_BlockV := V\<rparr>"
    using malloc_fits [OF d(2) f3] by blast
  show ?thesis
  proof (cases "v = 0 \<or> root = 0 \<or> d = 0 \<or> ra = 0")
    case True
    then have "corefs_init s = Inl (Panic ''Out of memory'')"
      using lock c(1) r(1) d(1) ra(1) by (auto simp: corefs_init_def alloc_or_panic_def)
    then show ?thesis by simp
  next
    case False
    have "live s4 root = Some (nblocks sizeof_Entry * MEMORY_BLKSIZE)"
      using False r(3) d(3) ra(3) by (auto simp del: One_nat_def)
    then have live: "live s4 root = Some MEMORY_BLKSIZE" by (simp add: nblocks_def)
    define s5 where "s5 = s4\<lparr>fs_EntryT := v, fs_EntryV := (\<lambda>_. 0)(0 := root), fs_RADirentT := d, fs_RAPathT := ra\<rparr>"
    define s6 where "s6 = stamp_all root (set_ent root (\<lambda>e. e\<lparr>name := [slash], user := 0, group := 0\<rparr>) s5)"
    define s' where "s' = (set_ent root (\<lambda>e. e\<lparr>perm := 0x1FF, etype := FS_TYPE_DIR\<rparr>) s6)\<lparr>fs_InitLock := True\<rparr>"
    have ci: "corefs_init s = Inr (FS_STS_SUCCESS, s')"
      using lock c(1) r(1) d(1) ra(1) False
      by (simp add: corefs_init_def alloc_or_panic_def Let_def s5_def s6_def s'_def)
    have f: "fs_EntryV s' = (\<lambda>_. 0)(0 := root)" "fs_InitLock s'" "name (fs_ent s' root) = [slash]"
      "etype (fs_ent s' root) = FS_TYPE_DIR" "perm (fs_ent s' root) = 0x1FF"
      by (simp_all add: s'_def s6_def s5_def ent_defs)
    have live': "live s' = live s4" by (rule live_cong) (simp_all add: s'_def s6_def s5_def ent_defs)
    have mm': "mm_inv s'" using ra(2) mm_inv_cong [of s' s4] by (simp add: s'_def s6_def s5_def ent_defs)
    have use: "in_use s' i \<longleftrightarrow> i = 0" for i using False f(1) by (auto simp: in_use_def)
    have e0: "ent_at s' 0 = fs_ent s' root" using f(1) by (simp add: ent_at_def)
    have inv: "fs_inv s'"
      unfolding fs_inv_def use
      using mm' f(1-4) live' live e0 by (auto simp: entry_ok_def own_bytes_def ends_slash_def)
    have "fs_view s' q = ([[slash] \<mapsto> (fs_ent s' root, [])]) q" for q
    proof (cases "q = [slash]")
      case True
      have "fs_view s' q = Some (ent_at s' 0, bytes_at s' 0)"
        by (rule fs_viewI [OF inv]) (use True use e0 f(3) in simp_all)
      then show ?thesis using True e0 f(4) by (simp add: bytes_at_def own_bytes_def)
    next
      case False
      then have "fs_view s' q = None" using use e0 f(3) by (auto simp: fs_view_None [OF inv])
      with False show ?thesis by simp
    qed
    then show ?thesis using ci inv f by (auto simp: fun_eq_iff intro!: exI [of _ "fs_ent s' root"])
  qed
qed

section \<open>Sample states\<close>

definition no_date :: date_t where
  "no_date = \<lparr>sec = 0, mins = 0, hour = 0, day = 1, mon = 1, year = 2000\<rparr>"

definition sample_entry :: "cstring \<Rightarrow> nat \<Rightarrow> nat \<Rightarrow> fs_Entry" where
  "sample_entry nm n ty =
     \<lparr>name = nm, user = 0, group = 0, fsize = n, ctime = no_date, mtime = no_date, atime = no_date,
      perm = 0x1FF, etype = ty, ftype = 0, devperm = 0, mountslot = 0\<rparr>"

text \<open>A root directory, and a file \<open>/a\<close> that holds \<open>hi!\<close>.\<close>

definition fs_demo :: fs where
  "fs_demo =
     \<lparr>mem = mwrite (\<lambda>_. 0) 16384 (cstr ''hi!''), rtc = (\<lambda>_ _. 0), ticks = 0, tty = [], memory_InitLock = True,
      memory_Space = 8192, memory_Limit = 73728,
      memory_BlockV = place (place (replicate 16 \<lparr>count = 0, allocated = False\<rparr>) 0 1) 1 2, memory_BlockC = 16,
      mountmgr_InitLock = True, mountmgr_MountT = 4096, mountmgr_MountV = (\<lambda>_. 0),
      fs_InitLock = True, fs_EntryT = 4096, fs_EntryV = (\<lambda>_. 0)(0 := 8192, 1 := 12288),
      fs_ent = (\<lambda>_. sample_entry (cstr ''/a'') 3 FS_TYPE_FILE)(8192 := sample_entry (cstr ''/'') 0 FS_TYPE_DIR),
      fs_RADirentT = 4096, fs_RADirent = (\<lambda>_. 0), fs_RAPathT = 4096\<rparr>"

lemma fs_demo_mm: "mm_inv fs_demo"
proof -
  let ?V = "replicate 16 \<lparr>count = 0, allocated = False\<rparr>"
  have "free_run ?V 0 1" by (simp add: free_run_def)
  then have w: "wf_blocks (place ?V 0 1)" using wf_blocks_replicate [of 16] by (intro wf_blocks_place [of ?V 0 1]) simp_all
  have "free_run (place ?V 0 1) 1 2" by (auto simp: free_run_def nth_place)
  then have "wf_blocks (place (place ?V 0 1) 1 2)" using w by (intro wf_blocks_place [of "place ?V 0 1" 1 2]) simp_all
  then show ?thesis by (simp add: mm_inv_def fs_demo_def)
qed

lemma fs_demo_live: "live fs_demo 8192 = Some 4096" "live fs_demo 12288 = Some 8192"
  by (simp_all add: live_def fs_demo_def heads_def nth_place)

lemma fs_demo_use: "in_use fs_demo i \<longleftrightarrow> i = 0 \<or> i = 1"
  by (auto simp: in_use_def fs_demo_def)

lemma fs_demo_ent: "ent_at fs_demo 0 = sample_entry (cstr ''/'') 0 FS_TYPE_DIR"
  "ent_at fs_demo 1 = sample_entry (cstr ''/a'') 3 FS_TYPE_FILE"
  "fs_EntryV fs_demo 0 = 8192" "fs_EntryV fs_demo 1 = 12288"
  by (simp_all add: ent_at_def fs_demo_def)

lemma fs_demo_inv: "fs_inv fs_demo"
  unfolding fs_inv_def fs_demo_use
proof (intro conjI allI impI)
  show "mm_inv fs_demo" by (rule fs_demo_mm)
  show "fs_InitLock fs_demo" by (simp add: fs_demo_def)
next
  fix i :: nat assume "i = 0 \<or> i = 1"
  then show "entry_ok (ent_at fs_demo i) (live fs_demo (fs_EntryV fs_demo i))"
    by (elim disjE) (simp_all add: fs_demo_ent [simplified] fs_demo_live entry_ok_def sample_entry_def cstr_def ends_slash_def)
next
  fix i j :: nat assume "i = 0 \<or> i = 1" "j = 0 \<or> j = 1"
    "fs_EntryV fs_demo i = fs_EntryV fs_demo j \<or> name (ent_at fs_demo i) = name (ent_at fs_demo j)"
  then show "i = j"
    by (elim disjE) (simp_all add: fs_demo_ent [simplified] sample_entry_def cstr_def)
qed

lemma fs_demo_view:
  "fs_view fs_demo (cstr ''/'') = Some (sample_entry (cstr ''/'') 0 FS_TYPE_DIR, [])"
  "fs_view fs_demo (cstr ''/a'') = Some (sample_entry (cstr ''/a'') 3 FS_TYPE_FILE, cstr ''hi!'')"
proof -
  show "fs_view fs_demo (cstr ''/'') = Some (sample_entry (cstr ''/'') 0 FS_TYPE_DIR, [])"
    using fs_viewI [OF fs_demo_inv, of 0 "cstr ''/''"]
    by (simp add: fs_demo_use fs_demo_ent bytes_at_def own_bytes_def sample_entry_def)
  have "bytes_at fs_demo 1 = cstr ''hi!''"
  proof -
    have "mem fs_demo = mwrite (\<lambda>_. 0) 16384 (cstr ''hi!'')" by (simp add: fs_demo_def)
    then show ?thesis
      unfolding bytes_at_def fs_demo_ent by (simp add: own_bytes_def sample_entry_def data_of_def cstr_def)
  qed
  then show "fs_view fs_demo (cstr ''/a'') = Some (sample_entry (cstr ''/a'') 3 FS_TYPE_FILE, cstr ''hi!'')"
    using fs_viewI [OF fs_demo_inv, of 1 "cstr ''/a''"]
    by (simp only: fs_demo_use fs_demo_ent) (simp add: sample_entry_def)
qed

lemma fs_demo_fits: "0 < n \<Longrightarrow> n \<le> 65536 \<Longrightarrow> fits fs_demo n"
  by (simp add: fits_def fs_demo_def)

lemma fs_demo_buf: "0 < b \<Longrightarrow> b + n \<le> 8192 \<Longrightarrow> buf_ok fs_demo b n"
  by (simp add: buf_ok_def fs_demo_def)

lemma writeFile_oom:
  assumes "fs_writeFile path sz buf s = Inr (FS_STS_OUTOFMEMORY, s')"
  shows "free_slot s = None \<or> (\<exists>s1. malloc (wrap32 (MEMORY_BLKSIZE + sz)) s = Inr (0, s1)) \<or> bad_pointer (fs_stat path s) s"
proof (cases "find_entry s path")
  case None
  then show ?thesis
    using assms by (auto simp: fs_writeFile_def create_file_def bindR_eq_Inr split: if_splits option.splits)
next
  case (Some i)
  then have "fs_InitLock s \<Longrightarrow> fs_stat path s = fs_EntryV s i" by (simp add: fs_stat_def)
  then show ?thesis
    using assms Some
    by (auto simp: fs_writeFile_def overwrite_file_def realloc_def Let_def bindR_eq_Inr add.commute split: if_splits)
qed

lemma fs_demo_malloc: "malloc 4100 fs_demo = Inr (20480, fs_demo\<lparr>memory_BlockV := place (memory_BlockV fs_demo) 3 2\<rparr>)"
proof -
  have n: "nblocks 4100 = 2" by (simp add: nblocks_def)
  have "free_run (memory_BlockV fs_demo) 3 2" by (auto simp: free_run_def fs_demo_def nth_place)
  moreover have "\<not> free_run (memory_BlockV fs_demo) j 2" if "j < 3" for j
  proof -
    have "j = 0 \<or> j = 1 \<or> j = 2" using that by auto
    then show ?thesis by (auto simp: free_run_def fs_demo_def nth_place)
  qed
  ultimately have "scan (\<lambda>i. free_run (memory_BlockV fs_demo) i 2) 0 (Suc (memory_BlockC fs_demo - 2)) = Some 3"
    by (intro scan_SomeI) (simp_all add: fs_demo_def)
  then show ?thesis
    using malloc_eq [OF fs_demo_mm fs_demo_fits [of 4100]] by (simp add: n) (simp add: fs_demo_def)
qed

lemma fs_demo_write: "\<exists>s1. fs_writeFile (cstr ''/a'') 4 100 fs_demo = Inr (FS_STS_SUCCESS, s1)"
proof -
  have a: "is_cstr (cstr ''/a'')" "length (cstr ''/a'') < FS_MAX_PATHLEN" by (simp_all add: cstr_def)
  have "fs_view fs_demo (cstr ''/a'' @ [slash]) = None"
    by (auto simp: fs_view_None [OF fs_demo_inv] fs_demo_use fs_demo_ent [simplified] sample_entry_def cstr_def)
  then have r: "write_refusal fs_demo (cstr ''/a'') = FS_STS_SUCCESS"
    using fs_demo_view by (simp add: write_refusal_def ends_slash_def cstr_def)
  obtain st s1 where w: "fs_writeFile (cstr ''/a'') 4 100 fs_demo = Inr (st, s1)"
    "st = FS_STS_SUCCESS \<or> st = FS_STS_OUTOFMEMORY"
    using writeFile_view [OF fs_demo_inv a fs_demo_fits fs_demo_buf, of 4 100] r by (auto split: if_splits)
  have "free_slot fs_demo = Some 2"
    unfolding free_slot_def by (rule scan_SomeI) (auto simp: fs_demo_def)
  moreover have "fs_stat (cstr ''/a'') fs_demo = 12288"
    using fs_stat_in_use [OF fs_demo_inv, of 1] by (simp add: fs_demo_use fs_demo_ent [simplified] sample_entry_def)
  ultimately have "st \<noteq> FS_STS_OUTOFMEMORY"
    using writeFile_oom [of "cstr ''/a''" 4 100 fs_demo s1] w(1) fs_demo_malloc
    by (auto simp: bad_pointer_def fs_demo_def)
  with w show ?thesis by blast
qed

section \<open>Properties\<close>

text \<open>C11.
  \<open>fs_writeFile\<close> refines an update of the map from paths to entries: it answers success and binds
  the path, and only the path, to a file with the bytes of the buffer, keeping type and permissions
  of a file that was there; or it answers the documented error (failure, directory of the same
  name, missing parent, out of memory) and leaves the state as it was. The map gives no bytes to a mounted file, so for
  one only the header is said to change. The path is shorter than 3840 bytes, header and data are no longer than the
  heap, and the buffer lies outside the heap or within one region of it (\<open>buf_ok\<close>).\<close>

theorem writeFile_refines:
  assumes "fs_inv s" "is_cstr path" "length path < FS_MAX_PATHLEN" "fits s (MEMORY_BLKSIZE + sz)" "buf_ok s buf sz"
  shows "\<exists>st s'. fs_writeFile path sz buf s = Inr (st, s') \<and> fs_inv s' \<and>
    (if st = FS_STS_SUCCESS then
       write_refusal s path = FS_STS_SUCCESS \<and>
       (\<exists>e. fs_view s' = (fs_view s)(path \<mapsto> (e, held e (mread (mem s) buf sz))) \<and>
         fsize e = sz \<and> etype e = FS_TYPE_FILE \<and> name e = path \<and>
         ftype e = (case fs_view s path of None \<Rightarrow> FS_TYPE_FILE | Some (old, _) \<Rightarrow> ftype old) \<and>
         perm e = (case fs_view s path of None \<Rightarrow> 0x1FF | Some (old, _) \<Rightarrow> perm old))
     else (if write_refusal s path = FS_STS_SUCCESS then st = FS_STS_OUTOFMEMORY else st = write_refusal s path) \<and> s' = s)"
  using writeFile_view [OF assms] by blast

theorem writeFile_refines_witness:
  "\<exists>st s'. fs_writeFile (cstr ''/b'') 5 100 fs_demo = Inr (st, s') \<and> fs_inv s' \<and>
    (st = FS_STS_SUCCESS \<longrightarrow> (\<exists>e. fs_view s' = (fs_view fs_demo)(cstr ''/b'' \<mapsto> (e, held e (mread (mem fs_demo) 100 5)))))"
proof -
  have "is_cstr (cstr ''/b'')" "length (cstr ''/b'') < FS_MAX_PATHLEN" by (simp_all add: cstr_def)
  from writeFile_refines [OF fs_demo_inv this fs_demo_fits fs_demo_buf, of 5 100]
  show ?thesis by (simp only: if_bool_eq_conj) (simp, blast)
qed

text \<open>A successful write fits the heap, and overwriting keeps the type of the entry and its mount slot.\<close>

lemma writeFile_fits:
  assumes inv: "mm_inv s" and sz: "MEMORY_BLKSIZE + sz \<le> 2 ^ 32 - 4096"
    and w: "fs_writeFile path sz buf s = Inr (FS_STS_SUCCESS, s1)"
  shows "fits s (MEMORY_BLKSIZE + sz)"
proof -
  have wr: "wrap32 (sz + MEMORY_BLKSIZE) = MEMORY_BLKSIZE + sz" "wrap32 (MEMORY_BLKSIZE + sz) = MEMORY_BLKSIZE + sz"
    using sz by (simp_all add: wrap32_def)
  have "\<exists>p s'. malloc (MEMORY_BLKSIZE + sz) s = Inr (p, s') \<and> p \<noteq> 0"
  proof (cases "find_entry s path")
    case None
    then show ?thesis
      using w by (auto simp: fs_writeFile_def create_file_def bindR_eq_Inr wr split: if_splits option.splits)
  next
    case (Some i)
    then show ?thesis
      using w by (auto simp: fs_writeFile_def overwrite_file_def realloc_def Let_def bindR_eq_Inr wr split: if_splits)
  qed
  then show ?thesis using malloc_grants_fit [OF inv sz] by blast
qed

lemma overwrite_keeps:
  assumes "overwrite_file i sz buf s = Inr (FS_STS_SUCCESS, s1)"
  shows "ftype (ent_at s1 i) = ftype (ent_at s i) \<and> etype (ent_at s1 i) = etype (ent_at s i) \<and>
    mountslot (ent_at s1 i) = mountslot (ent_at s i) \<and> name (ent_at s1 i) = name (ent_at s i) \<and>
    mountmgr_MountT s1 = mountmgr_MountT s \<and> mountmgr_MountV s1 = mountmgr_MountV s \<and> fs_EntryV s1 i \<noteq> 0"
proof -
  from assms obtain p s2 where r: "realloc (fs_EntryV s i) (wrap32 (sz + MEMORY_BLKSIZE)) s = Inr (p, s2)" "p \<noteq> 0"
    and s1: "s1 = stamp p atime_update (stamp p mtime_update (set_ent p (fsize_update (\<lambda>_. sz))
      (put_data p sz buf (s2\<lparr>fs_ent := (fs_ent s2)(p := fs_ent s2 (fs_EntryV s i)), fs_EntryV := (fs_EntryV s2)(i := p)\<rparr>))))"
    by (auto simp: overwrite_file_def Let_def bindR_eq_Inr split: if_splits)
  from realloc_frame [OF r(1)] obtain V m where "s2 = s\<lparr>memory_BlockV := V, mem := m\<rparr>" by blast
  with r(2) s1 show ?thesis by (simp add: ent_at_def ent_defs)
qed

lemma read_mounted:
  assumes "fs_InitLock s" "find_entry s path = Some i" "etype (ent_at s i) = FS_TYPE_FILE" "ftype (ent_at s i) = FS_TYPE_MOUNTED"
  shows "fs_readFile path s =
     (if mountmgr_MountT s = 0 then Inr (0, stamp (fs_EntryV s i) atime_update s)
      else checkR (0 \<le> mountslot (ent_at s i) \<and> mountslot (ent_at s i) < int MOUNTMGR_MOUNTLIMIT) OutOfBounds
        (Inr (mountmgr_MountV s (nat (mountslot (ent_at s i))), stamp (fs_EntryV s i) atime_update s)))"
  using assms by (simp add: fs_readFile_def fs_stat_def Let_def ent_at_def ent_defs)

lemma read_after_write_mounted:
  assumes inv: "fs_inv s" "fs_inv s1" and path: "is_cstr path"
    and w: "fs_writeFile path sz buf s = Inr (FS_STS_SUCCESS, s1)"
    and v: "fs_view s path = Some (e, bs)" "ftype e = FS_TYPE_MOUNTED" "etype e = FS_TYPE_FILE"
  shows "map_sum id fst (fs_readFile path s1) = map_sum id fst (fs_readFile path s)"
proof -
  from v(1) obtain i where i: "in_use s i" "name (ent_at s i) = path" "e = ent_at s i"
    by (auto simp: fs_view_Some [OF inv(1)])
  have f: "find_entry s path = Some i" using i find_entry_Some [OF inv(1) path] by simp
  have o: "overwrite_file i sz buf s = Inr (FS_STS_SUCCESS, s1)"
    using w f by (auto simp: fs_writeFile_def split: if_splits)
  note k = overwrite_keeps [OF o]
  have "in_use s1 i" using i(1) k by (simp add: in_use_def)
  then have f1: "find_entry s1 path = Some i" using find_entry_Some [OF inv(2) path] k i(2) by simp
  show ?thesis
    using read_mounted [OF fs_invD(2) [OF inv(1)] f] read_mounted [OF fs_invD(2) [OF inv(2)] f1] v(2,3) i(3) k
    by (simp add: checkR_def)
qed

lemma mounted_is_file:
  assumes inv: "fs_inv s" and v: "fs_view s path = Some (e, bs)"
    and w: "fs_writeFile path sz buf s = Inr (FS_STS_SUCCESS, s1)"
  shows "etype e = FS_TYPE_FILE"
proof -
  from v obtain i where i: "in_use s i" "name (ent_at s i) = path" "e = ent_at s i"
    by (auto simp: fs_view_Some [OF inv])
  have "path \<noteq> []" "path ! (length path - 1) \<noteq> slash" using w by (auto simp: fs_writeFile_def split: if_splits)
  then have "\<not> ends_slash path" by (simp add: ends_slash_def last_conv_nth)
  then show ?thesis using entry_okD(6) [OF fs_invD(3) [OF inv i(1)]] i by simp
qed

text \<open>C12.
  A file read back right after a successful write. If it is not mounted, the pointer \<open>fs_readFile\<close>
  answers leads to the bytes of the buffer, inside the entry's own region of the heap. If it is a
  mounted file, the write is not seen: \<open>fs_readFile\<close> answers the same mounted pointer (or null, or the same fault) as
  before the write. This holds for paths shorter than 3840 bytes, sizes up to \<open>2 ^ 32 - 8192\<close>, and buffers
  outside the heap or within one region of it.\<close>

theorem write_then_read:
  assumes "fs_inv s" "is_cstr path" "length path < FS_MAX_PATHLEN" "MEMORY_BLKSIZE + sz \<le> 2 ^ 32 - 4096" "buf_ok s buf sz"
    and "fs_writeFile path sz buf s = Inr (FS_STS_SUCCESS, s1)"
  shows "if \<exists>e bs. fs_view s path = Some (e, bs) \<and> ftype e = FS_TYPE_MOUNTED
    then map_sum id fst (fs_readFile path s1) = map_sum id fst (fs_readFile path s)
    else \<exists>p s2 k. fs_readFile path s1 = Inr (p, s2) \<and> p \<noteq> 0 \<and> mread (mem s2) p sz = mread (mem s) buf sz \<and>
      live s2 (fs_stat path s2) = Some k \<and> fs_stat path s2 \<le> p \<and> p + sz \<le> fs_stat path s2 + k"
proof -
  have "fits s (MEMORY_BLKSIZE + sz)" by (rule writeFile_fits [OF fs_invD(1) [OF assms(1)] assms(4,6)])
  from writeFile_view [OF assms(1-3) this assms(5)] assms(6) obtain e where
    e: "fs_inv s1" "fs_view s1 = (fs_view s)(path \<mapsto> (e, held e (mread (mem s) buf sz)))" "fsize e = sz" "etype e = FS_TYPE_FILE"
      "ftype e = (case fs_view s path of None \<Rightarrow> FS_TYPE_FILE | Some (old, _) \<Rightarrow> ftype old)"
    by auto
  show ?thesis
  proof (cases "\<exists>e bs. fs_view s path = Some (e, bs) \<and> ftype e = FS_TYPE_MOUNTED")
    case True
    then obtain e0 bs where v: "fs_view s path = Some (e0, bs)" "ftype e0 = FS_TYPE_MOUNTED" by blast
    have "etype e0 = FS_TYPE_FILE"
      using mounted_is_file [OF assms(1) v(1) assms(6)] .
    from read_after_write_mounted [OF assms(1) e(1) assms(2,6) v this] True show ?thesis by simp
  next
    case False
    then have "ftype e \<noteq> FS_TYPE_MOUNTED" using e(5) by (auto split: option.splits)
    moreover from this have "fs_view s1 path = Some (e, mread (mem s) buf sz)" using e(2) by (simp add: held_def)
    ultimately show ?thesis using readFile_view [OF e(1) _ e(4)] e(3) False by (simp only: if_False) blast
  qed
qed

theorem write_then_read_witness:
  "\<exists>s1 p s2 k. fs_writeFile (cstr ''/a'') 4 100 fs_demo = Inr (FS_STS_SUCCESS, s1) \<and>
     fs_readFile (cstr ''/a'') s1 = Inr (p, s2) \<and> p \<noteq> 0 \<and> mread (mem s2) p 4 = mread (mem fs_demo) 100 4 \<and>
     live s2 (fs_stat (cstr ''/a'') s2) = Some k"
proof -
  obtain s1 where w: "fs_writeFile (cstr ''/a'') 4 100 fs_demo = Inr (FS_STS_SUCCESS, s1)"
    using fs_demo_write by blast
  have a: "is_cstr (cstr ''/a'')" "length (cstr ''/a'') < FS_MAX_PATHLEN" by (simp_all add: cstr_def)
  have n: "\<not> (\<exists>e bs. fs_view fs_demo (cstr ''/a'') = Some (e, bs) \<and> ftype e = FS_TYPE_MOUNTED)"
    by (simp add: fs_demo_view sample_entry_def)
  from write_then_read [OF fs_demo_inv a _ fs_demo_buf w] n w show ?thesis by (simp only: if_False) auto
qed

text \<open>C13.
  \<open>fs_createDir\<close> refines the insertion of a directory: on success exactly the path is bound, to a
  directory that was not there before; otherwise the status tells the reason and the state is
  unchanged.\<close>

theorem createDir_refines:
  assumes "fs_inv s" "is_cstr path" "fits s MEMORY_BLKSIZE"
  shows "\<exists>st s'. fs_createDir path s = Inr (st, s') \<and> fs_inv s' \<and>
    (if st = FS_STS_SUCCESS then
       create_refusal s path = FS_STS_SUCCESS \<and>
       (\<exists>e. fs_view s' = (fs_view s)(path \<mapsto> (e, [])) \<and> etype e = FS_TYPE_DIR \<and> name e = path \<and> perm e = 0x1FF)
     else (if create_refusal s path = FS_STS_SUCCESS then st = FS_STS_OUTOFMEMORY else st = create_refusal s path) \<and> s' = s)"
  using createDir_view [OF assms] by blast

theorem createDir_refines_witness:
  "\<exists>st s'. fs_createDir (cstr ''/dev/'') fs_demo = Inr (st, s') \<and> fs_inv s' \<and>
    (if st = FS_STS_SUCCESS then
       create_refusal fs_demo (cstr ''/dev/'') = FS_STS_SUCCESS \<and>
       (\<exists>e. fs_view s' = (fs_view fs_demo)(cstr ''/dev/'' \<mapsto> (e, [])) \<and> etype e = FS_TYPE_DIR \<and>
          name e = cstr ''/dev/'' \<and> perm e = 0x1FF)
     else (if create_refusal fs_demo (cstr ''/dev/'') = FS_STS_SUCCESS then st = FS_STS_OUTOFMEMORY
           else st = create_refusal fs_demo (cstr ''/dev/'')) \<and> s' = fs_demo)"
  by (rule createDir_refines [OF fs_demo_inv _ fs_demo_fits]) (simp_all add: cstr_def)

text \<open>The first loop compares prefixes: a file whose name only starts like the directory is enough
  to refuse the directory.\<close>

lemma createDir_refused_by_prefix:
  assumes "fs_view s (cstr ''/abc'') = Some (e, bs)" "etype e = FS_TYPE_FILE"
  shows "create_refusal s (cstr ''/ab/'') = FS_STS_FILEEXISTS"
proof -
  have "\<exists>q e bs. fs_view s q = Some (e, bs) \<and> etype e = FS_TYPE_FILE \<and>
      take (length (cstr ''/ab/'') - 1) q = take (length (cstr ''/ab/'') - 1) (cstr ''/ab/'')"
    using assms by (intro exI [of _ "cstr ''/abc''"] exI [of _ e] exI [of _ bs]) (simp add: cstr_def)
  then show ?thesis unfolding create_refusal_def by (simp add: cstr_def ends_slash_def)
qed

text \<open>C14.
  \<open>fs_remove\<close> refines the removal of one path: it refuses the root, a missing entry and a directory
  with anything below it, and otherwise unbinds the path and nothing else.\<close>

theorem remove_refines:
  assumes "fs_inv s" "is_cstr path"
  shows "\<exists>s'. fs_remove path s = Inr (remove_status s path, s') \<and> fs_inv s' \<and>
    (if remove_status s path = FS_STS_SUCCESS then fs_view s' = (fs_view s)(path := None) else s' = s)"
  by (rule remove_view [OF assms])

theorem remove_refines_witness:
  "\<exists>s'. fs_remove (cstr ''/a'') fs_demo = Inr (FS_STS_SUCCESS, s') \<and> fs_inv s' \<and>
    fs_view s' = (fs_view fs_demo)(cstr ''/a'' := None)"
proof -
  have a: "is_cstr (cstr ''/a'')" by (simp add: cstr_def)
  have "remove_status fs_demo (cstr ''/a'') = FS_STS_SUCCESS"
    using fs_demo_view(2) by (simp add: remove_status_def is_dir_def sample_entry_def) (simp add: cstr_def)
  with remove_refines [OF fs_demo_inv a] show ?thesis by simp
qed

text \<open>C15.
  \<open>fs_bulkRemove\<close> of a directory unbinds exactly the paths that start with its name, the directory
  included; for the root this leaves an empty file system without a root.\<close>

theorem bulkRemove_refines:
  assumes "fs_inv s" "is_dir s path"
  shows "\<exists>s'. fs_bulkRemove path s = Inr (FS_STS_SUCCESS, s') \<and> fs_inv s' \<and>
    fs_view s' = (\<lambda>q. if take (length path) q = path then None else fs_view s q)"
  by (rule bulkRemove_view [OF assms])

theorem bulkRemove_refines_witness:
  "\<exists>s'. fs_bulkRemove (cstr ''/'') fs_demo = Inr (FS_STS_SUCCESS, s') \<and> fs_inv s' \<and> fs_view s' (cstr ''/a'') = None \<and>
    fs_view s' (cstr ''/'') = None"
proof -
  have "is_dir fs_demo (cstr ''/'')" using fs_demo_view(1) by (simp add: is_dir_def sample_entry_def)
  from bulkRemove_refines [OF fs_demo_inv this] show ?thesis by (auto simp: cstr_def)
qed

text \<open>C16.
  \<open>fs_readDir\<close> answers its list exactly for the root and for directories; the list holds, in order
  and each once, the slots of all entries whose names start with the path, and ends in the end
  mark. No file's bytes and no other entry change.\<close>

theorem readDir_lists:
  assumes "fs_inv s" "is_cstr path"
  shows "\<exists>ok s'. fs_readDir path s = (ok, s') \<and> fs_inv s' \<and>
    (ok \<longleftrightarrow> path = [slash] \<or> is_dir s path) \<and>
    (if ok then fs_RADirent s' = (\<lambda>k. if k < length (listing s path) then int (listing s path ! k) else FS_DIRENTEND) \<and>
        (\<forall>q. map_option snd (fs_view s' q) = map_option snd (fs_view s q) \<and>
             (q \<noteq> path \<longrightarrow> fs_view s' q = fs_view s q))
     else s' = s)"
  by (rule readDir_view [OF assms])

theorem readDir_lists_witness:
  "\<exists>ok s'. fs_readDir (cstr ''/a'') fs_demo = (ok, s') \<and> fs_inv s' \<and>
    (ok \<longleftrightarrow> cstr ''/a'' = [slash] \<or> is_dir fs_demo (cstr ''/a'')) \<and>
    (if ok then fs_RADirent s' = (\<lambda>k. if k < length (listing fs_demo (cstr ''/a''))
            then int (listing fs_demo (cstr ''/a'') ! k) else FS_DIRENTEND) \<and>
        (\<forall>q. map_option snd (fs_view s' q) = map_option snd (fs_view fs_demo q) \<and>
             (q \<noteq> cstr ''/a'' \<longrightarrow> fs_view s' q = fs_view fs_demo q))
     else s' = fs_demo)"
  by (rule readDir_lists [OF fs_demo_inv]) (simp add: cstr_def)

text \<open>C17.
  After any history of file system calls every path that is bound belongs to exactly one entry of the
  table; a path is a directory exactly if it ends in a slash; and two entries never share a
  byte: each has a region of the heap of its own, long enough for its header and its file. The calls of a history are
  those of \<open>fs_owed\<close>: paths are C strings shorter than the name field, sizes fit the heap, buffers satisfy \<open>buf_ok\<close>.\<close>

theorem fs_history_invariant:
  assumes "fs_run s rs s'" "fs_inv s" "fs_view s' p = Some (e, bs)"
  shows "(\<exists>!i. in_use s' i \<and> name (ent_at s' i) = p) \<and> name e = p \<and>
    etype e = (if ends_slash p then FS_TYPE_DIR else FS_TYPE_FILE) \<and>
    length bs = (if own_bytes e then fsize e else 0) \<and>
    (\<exists>k. live s' (fs_stat p s') = Some k \<and> MEMORY_BLKSIZE + length bs \<le> k \<and>
      (\<forall>i. in_use s' i \<longrightarrow> name (ent_at s' i) \<noteq> p \<longrightarrow>
        (\<exists>j. live s' (fs_EntryV s' i) = Some j \<and> disj (fs_stat p s') k (fs_EntryV s' i) j)))"
proof -
  have inv: "fs_inv s'" by (rule fs_run_inv [OF assms(1,2)])
  from assms(3) obtain i where i: "in_use s' i" "name (ent_at s' i) = p" "e = ent_at s' i" "bs = bytes_at s' i"
    by (auto simp: fs_view_Some [OF inv])
  note ok = fs_invD(3) [OF inv i(1)]
  have stat: "fs_stat p s' = fs_EntryV s' i" using fs_stat_in_use [OF inv i(1)] i(2) by simp
  obtain k where k: "live s' (fs_EntryV s' i) = Some k" "MEMORY_BLKSIZE \<le> k"
    "own_bytes e \<longrightarrow> MEMORY_BLKSIZE + fsize e \<le> k"
    using in_use_live [OF inv i(1)] i(3) by (elim exE conjE) simp
  have len: "length bs = (if own_bytes e then fsize e else 0)" using i(3,4) by (simp add: bytes_at_def)
  have only: "\<exists>!l. in_use s' l \<and> name (ent_at s' l) = p"
    using i(1,2) fs_invD(5) [OF inv] by (intro ex1I [of _ i]) auto
  have other: "\<exists>j. live s' (fs_EntryV s' l) = Some j \<and> disj (fs_stat p s') k (fs_EntryV s' l) j"
    if l: "in_use s' l" "name (ent_at s' l) \<noteq> p" for l
  proof -
    obtain j where j: "live s' (fs_EntryV s' l) = Some j" using in_use_live [OF inv l(1)] by (elim exE conjE)
    have "fs_EntryV s' i \<noteq> fs_EntryV s' l" using fs_invD(4) [OF inv i(1) l(1)] i(2) l(2) by auto
    then show ?thesis using live_disjoint [OF fs_invD(1) [OF inv] k(1) j] j stat by simp
  qed
  show ?thesis
    using i ok len k stat other only by (auto simp: entry_ok_def)
qed

theorem fs_history_invariant_witness:
  "\<exists>s'. fs_run fs_demo [ReadDir (cstr ''/''), Remove (cstr ''/'')] s' \<and>
    (\<exists>k. live s' (fs_stat (cstr ''/a'') s') = Some k \<and> MEMORY_BLKSIZE + length (cstr ''hi!'') \<le> k)"
proof -
  let ?s = "fs_demo\<lparr>fs_RADirent := fst (dirent_fill (under fs_demo (cstr ''/'') (length (cstr ''/''))))\<rparr>"
  have rd: "fs_readDir (cstr ''/'') fs_demo = (True, ?s)"
    by (simp add: fs_readDir_def cstr_def) (simp add: fs_demo_def char_at_def)
  have rm: "fs_remove (cstr ''/'') ?s = Inr (FS_STS_FAILURE, ?s)"
    by (simp add: fs_remove_def cstr_def) (simp add: fs_demo_def)
  have run: "fs_run fs_demo [ReadDir (cstr ''/''), Remove (cstr ''/'')] ?s"
    by (rule fs_run.run_cons [OF _ fs_step.step_readDir [OF rd] fs_run.run_cons [OF _ fs_step.step_remove [OF rm] fs_run.run_nil]])
      (simp_all add: cstr_def)
  have v: "fs_view ?s (cstr ''/a'') = Some (sample_entry (cstr ''/a'') 3 FS_TYPE_FILE, cstr ''hi!'')"
    using fs_demo_view(2) by simp
  from fs_history_invariant [OF run fs_demo_inv v] run show ?thesis by blast
qed

text \<open>\<open>corefs_init\<close> on a working heap either panics for lack of memory or establishes the invariant
  with the root directory as the only entry.\<close>

theorem corefs_init_establishes:
  assumes "mm_inv s" "\<not> fs_InitLock s" "fits s 65536"
  shows "case corefs_init s of
      Inl e \<Rightarrow> e = Panic ''Out of memory''
    | Inr (st, s') \<Rightarrow> st = FS_STS_SUCCESS \<and> fs_inv s' \<and>
        (\<exists>e. fs_view s' = [[slash] \<mapsto> (e, [])] \<and> etype e = FS_TYPE_DIR \<and> perm e = 0x1FF)"
  by (rule corefs_init_view [OF assms])

theorem corefs_init_establishes_witness:
  "case corefs_init (fs_demo\<lparr>fs_InitLock := False\<rparr>) of
      Inl e \<Rightarrow> e = Panic ''Out of memory''
    | Inr (st, s') \<Rightarrow> st = FS_STS_SUCCESS \<and> fs_inv s' \<and>
        (\<exists>e. fs_view s' = [[slash] \<mapsto> (e, [])] \<and> etype e = FS_TYPE_DIR \<and> perm e = 0x1FF)"
proof (rule corefs_init_establishes)
  show "mm_inv (fs_demo\<lparr>fs_InitLock := False\<rparr>)"
    using fs_demo_mm mm_inv_cong [of "fs_demo\<lparr>fs_InitLock := False\<rparr>" fs_demo] by simp
  show "fits (fs_demo\<lparr>fs_InitLock := False\<rparr>) 65536" using fs_demo_fits [of 65536] by (simp add: fits_def)
qed simp

definition perm_class :: "fs_Entry \<Rightarrow> int \<Rightarrow> int \<Rightarrow> nat" where
  "perm_class e uid gid = (if uid = user e then 6 else if gid = group e then 3 else 0)"

text \<open>\<open>fs_checkPerm\<close> consults the owner's, the group's or the others' three permission bits, in this
  order, and answers true exactly if one of the asked permissions is among them. Before
  the file system is initialised its status code 254 reads as true: access is granted.\<close>

theorem checkPerm_classes:
  "fs_checkPerm p uid gid asked s \<noteq> 0 \<longleftrightarrow>
     (if fs_InitLock s
      then p \<noteq> 0 \<and> (\<exists>b<3. bit (perm (fs_ent s p)) (perm_class (fs_ent s p) uid gid + b) \<and> bit asked b)
      else True)"
proof -
  have seven: "(drop_bit n w AND 7) AND ucast asked \<noteq> 0 \<longleftrightarrow> (\<exists>b<3. bit w (n + b) \<and> bit asked b)" for w :: u16 and n
  proof -
    have "bit (7 :: u16) b \<longleftrightarrow> b < 3" for b
    proof -
      have "(7 :: u16) = mask 3" by (simp add: mask_eq_exp_minus_1)
      then show ?thesis by (simp only: bit_mask_iff) auto
    qed
    then have "bit ((drop_bit n w AND 7) AND ucast asked) b \<longleftrightarrow> bit w (n + b) \<and> b < 3 \<and> bit asked b" for b
      by (auto simp: bit_and_iff bit_drop_bit_eq bit_unsigned_iff)
    then show ?thesis by (metis bit_eqI bit_0_eq bot_apply bot_bool_def)
  qed
  show ?thesis
    using seven [of 0 "perm (fs_ent s p)"] seven [of 3 "perm (fs_ent s p)"] seven [of 6 "perm (fs_ent s p)"]
    by (simp add: fs_checkPerm_def Let_def perm_class_def)
qed

end
