(* ===== verification/IoCall.thy ===== *)
theory IoCall
  imports CoreFs
begin

text \<open>
  The I/O system calls, \<open>source/kernel/iocall.c\<close>, and the two functions through which the drivers
  deliver input, \<open>source/drv/keyboard.c\<close> and \<open>source/drv/mouse.c\<close>. A descriptor names a slot of the
  entry table, the opening flags and a position. A \<open>size_t\<close> result of -1 is \<open>SIZE_MINUS1\<close>.
  Regular files are read and written at the position; a character device is a queue whose length
  is the first word of the file.
\<close>

unbundle bit_operations_syntax

section \<open>State\<close>

abbreviation (input) IOCALL_MAXFD :: nat where "IOCALL_MAXFD \<equiv> 64"
abbreviation (input) TYPEFD :: int where "TYPEFD \<equiv> 3"
abbreviation (input) FS_TYPE_CHARDEV :: nat where "FS_TYPE_CHARDEV \<equiv> 3"
abbreviation (input) O_RDONLY :: u32 where "O_RDONLY \<equiv> 1"
abbreviation (input) O_WRONLY :: u32 where "O_WRONLY \<equiv> 2"
abbreviation (input) O_RDWR :: u32 where "O_RDWR \<equiv> 4"
abbreviation (input) O_CREAT :: u32 where "O_CREAT \<equiv> 8"
abbreviation (input) O_EXCL :: u32 where "O_EXCL \<equiv> 16"
abbreviation (input) O_TRUNC :: u32 where "O_TRUNC \<equiv> 32"
abbreviation (input) O_APPEND :: u32 where "O_APPEND \<equiv> 64"
abbreviation (input) SIZE_MINUS1 :: nat where "SIZE_MINUS1 \<equiv> 4294967295"

record iocall_FileDesc_t =
  entry :: int
  flags :: u32
  ptr :: nat
  op :: bool

record io = fs +
  iocall_FileDesc :: "iocall_FileDesc_t list"
  iocall_Initialized :: bool
  iocall_ForceAccess :: bool

definition has_flag :: "u32 \<Rightarrow> u32 \<Rightarrow> bool" where
  "has_flag fl b \<longleftrightarrow> fl AND b \<noteq> 0"

definition closed_desc :: iocall_FileDesc_t where
  "closed_desc = \<lparr>entry = 0, flags = 0, ptr = 0, op = False\<rparr>"

text \<open>An access to the descriptor table at an index computed by the code.\<close>

definition with_desc :: "int \<Rightarrow> 'a io_scheme \<Rightarrow> (iocall_FileDesc_t \<Rightarrow> 'b res) \<Rightarrow> 'b res" where
  "with_desc i s f = checkR (0 \<le> i \<and> i < int (length (iocall_FileDesc s))) OutOfBounds (f (iocall_FileDesc s ! nat i))"

definition set_desc :: "int \<Rightarrow> (iocall_FileDesc_t \<Rightarrow> iocall_FileDesc_t) \<Rightarrow> 'a io_scheme \<Rightarrow> 'a io_scheme" where
  "set_desc i f s = s\<lparr>iocall_FileDesc := (iocall_FileDesc s)[nat i := f (iocall_FileDesc s ! nat i)]\<rparr>"

section \<open>Reading\<close>

text \<open>The entry a descriptor names; the slot number is used as an index.\<close>

definition desc_entry :: "iocall_FileDesc_t \<Rightarrow> 'a io_scheme \<Rightarrow> (addr \<Rightarrow> 'b res) \<Rightarrow> 'b res" where
  "desc_entry d s f =
     checkR (0 \<le> entry d \<and> entry d < int FS_MAX_ENTCOUNT) OutOfBounds (f (fs_EntryV s (nat (entry d))))"

definition dev_allows :: "fs_Entry \<Rightarrow> u32 \<Rightarrow> 'a io_scheme \<Rightarrow> bool" where
  "dev_allows e want s \<longleftrightarrow>
     (let dp = ucast (devperm (fs_ent s (fs_stat (name e) s))) in has_flag dp want \<or> has_flag dp O_RDWR)"

definition read_file :: "int \<Rightarrow> iocall_FileDesc_t \<Rightarrow> fs_Entry \<Rightarrow> addr \<Rightarrow> nat \<Rightarrow> 'a io_scheme \<Rightarrow> (nat \<times> 'a io_scheme) res" where
  "read_file fdesc d ent buf cnt s =
     (if ptr d \<ge> fsize ent then Inr (0, s)
      else bindR (fs_readFile (name ent) s)
        (\<lambda>(data, s1). if data = 0 then Inr (SIZE_MINUS1, s1)
           else let remain = fsize ent - ptr d;
                    limit = (if cnt > remain then remain else cnt);
                    s2 = s1\<lparr>mem := ncopy (mem s1) buf (wrap32 (data + ptr d)) limit\<rparr>
                in Inr (limit, set_desc fdesc (ptr_update (\<lambda>p. wrap32 (p + limit))) s2)))"

text \<open>The loop and the compaction of the queue of a character device.\<close>

definition chardev_get :: "mem \<Rightarrow> addr \<Rightarrow> nat \<Rightarrow> addr \<Rightarrow> nat \<Rightarrow> nat \<times> mem" where
  "chardev_get m chardev sz buf cnt =
     (let bufsize = rd32 m chardev;
          limit = (if bufsize \<ge> cnt then cnt else bufsize);
          m1 = ncopy m buf (chardev + 4) limit
      in if rd32 m1 chardev > limit then
           let remain = rd32 m1 chardev - limit;
               m2 = ncopy m1 (chardev + 4) (chardev + 4 + limit) remain;
               m3 = fill m2 (chardev + 4 + remain) 0 (sub32 (sub32 sz 4) remain)
           in (limit, wr32 m3 chardev remain)
         else (limit, fill (wr32 m1 chardev 0) (chardev + 4) 0 (sub32 sz 4)))"

definition read_chardev :: "fs_Entry \<Rightarrow> addr \<Rightarrow> nat \<Rightarrow> 'a io_scheme \<Rightarrow> (nat \<times> 'a io_scheme) res" where
  "read_chardev ent buf cnt s =
     (if \<not> iocall_ForceAccess s \<and> \<not> dev_allows ent O_RDONLY s then Inr (SIZE_MINUS1, s)
      else bindR (fs_readFile (name ent) s)
        (\<lambda>(chardev, s1). if chardev = 0 then Inr (SIZE_MINUS1, s1)
           else let (limit, m) = chardev_get (mem s1) chardev (fsize ent) buf cnt
                in Inr (limit, s1\<lparr>mem := m\<rparr>)))"

text \<open>\<open>read\<close> computes its index as \<open>TYPEFD - fd\<close>.\<close>

definition read_call :: "int \<Rightarrow> addr \<Rightarrow> nat \<Rightarrow> 'a io_scheme \<Rightarrow> (nat \<times> 'a io_scheme) res" where
  "read_call fd buf cnt s =
     (if fd \<ge> TYPEFD \<and> fd < TYPEFD + int IOCALL_MAXFD then
        let fdesc = TYPEFD - fd in
        with_desc fdesc s (\<lambda>d.
          if entry d = 0 then Inr (SIZE_MINUS1, s)
          else if \<not> iocall_ForceAccess s \<and> \<not> has_flag (flags d) O_RDONLY \<and> \<not> has_flag (flags d) O_RDWR
            then Inr (SIZE_MINUS1, s)
          else desc_entry d s (\<lambda>p.
            if p = 0 then Inr (SIZE_MINUS1, s)
            else let ent = fs_ent s p in
              if etype ent \<noteq> FS_TYPE_FILE then Inr (SIZE_MINUS1, s)
              else if ftype ent = FS_TYPE_FILE then read_file fdesc d ent buf cnt s
              else if ftype ent = FS_TYPE_CHARDEV then read_chardev ent buf cnt s
              else Inr (SIZE_MINUS1, s)))
      else Inr (SIZE_MINUS1, s))"

section \<open>Writing\<close>

definition write_file :: "int \<Rightarrow> iocall_FileDesc_t \<Rightarrow> fs_Entry \<Rightarrow> addr \<Rightarrow> nat \<Rightarrow> 'a io_scheme \<Rightarrow> (nat \<times> 'a io_scheme) res" where
  "write_file fdesc d ent buf cnt s =
     (let till = wrap32 (ptr d + cnt);
          limit = (if fsize ent \<ge> till then fsize ent else till)
      in bindR (fs_readFile (name ent) s)
        (\<lambda>(file, s1). if file = 0 then Inr (SIZE_MINUS1, s1)
           else bindR (malloc limit s1)
            (\<lambda>(data, s2). if data = 0 then Inr (SIZE_MINUS1, s2)
              else let m1 = fill (mem s2) data 0 limit;
                       m2 = ncopy m1 data file (fsize ent);
                       m3 = ncopy m2 (data + ptr d) buf cnt
                   in bindR (fs_writeFile (name ent) limit data (s2\<lparr>mem := m3\<rparr>))
                     (\<lambda>(sts, s3). if sts \<noteq> FS_STS_SUCCESS
                        then bindR (Memory.free data s3) (\<lambda>s4. Inr (SIZE_MINUS1, s4))
                        else bindR (Memory.free data (set_desc fdesc (ptr_update (\<lambda>p. wrap32 (p + cnt))) s3))
                          (\<lambda>s4. Inr (cnt, s4))))))"

fun chardev_put :: "mem \<Rightarrow> addr \<Rightarrow> nat \<Rightarrow> addr \<Rightarrow> nat \<Rightarrow> nat \<Rightarrow> nat \<Rightarrow> nat \<times> mem" where
  "chardev_put m chardev room buf i 0 c = (c, m)"
| "chardev_put m chardev room buf i (Suc k) c =
     (let n = rd32 m chardev in
      if n < room then
        let m1 = m(chardev + 4 + n := m (buf + i));
            m2 = wr32 m1 chardev (wrap32 (Suc (rd32 m1 chardev)))
        in chardev_put m2 chardev room buf (Suc i) k (Suc c)
      else chardev_put m chardev room buf (Suc i) k c)"

definition write_chardev :: "fs_Entry \<Rightarrow> addr \<Rightarrow> nat \<Rightarrow> 'a io_scheme \<Rightarrow> (nat \<times> 'a io_scheme) res" where
  "write_chardev ent buf cnt s =
     (if \<not> iocall_ForceAccess s \<and> \<not> dev_allows ent O_WRONLY s then Inr (SIZE_MINUS1, s)
      else bindR (fs_readFile (name ent) s)
        (\<lambda>(chardev, s1). if chardev = 0 then Inr (SIZE_MINUS1, s1)
           else let (c, m) = chardev_put (mem s1) chardev (sub32 (fsize ent) 4) buf 0 cnt 0
                in Inr (c, s1\<lparr>mem := m\<rparr>)))"

definition write_call :: "int \<Rightarrow> addr \<Rightarrow> nat \<Rightarrow> 'a io_scheme \<Rightarrow> (nat \<times> 'a io_scheme) res" where
  "write_call fd buf cnt s =
     (if fd \<ge> TYPEFD \<and> fd < TYPEFD + int IOCALL_MAXFD then
        let fdesc = fd - TYPEFD in
        with_desc fdesc s (\<lambda>d.
          if entry d = 0 then Inr (SIZE_MINUS1, s)
          else if \<not> iocall_ForceAccess s \<and> \<not> has_flag (flags d) O_WRONLY \<and> \<not> has_flag (flags d) O_RDWR
            then Inr (SIZE_MINUS1, s)
          else desc_entry d s (\<lambda>p.
            if p = 0 then Inr (SIZE_MINUS1, s)
            else let ent = fs_ent s p in
              if etype ent \<noteq> FS_TYPE_FILE then Inr (SIZE_MINUS1, s)
              else if ftype ent = FS_TYPE_FILE then write_file fdesc d ent buf cnt s
              else if ftype ent = FS_TYPE_CHARDEV then write_chardev ent buf cnt s
              else Inr (SIZE_MINUS1, s)))
      else Inr (SIZE_MINUS1, s))"

section \<open>Opening and closing\<close>

text \<open>The first lines of \<open>open\<close>: as long as \<open>iocall_Initialized\<close> is false the table is cleared.\<close>

definition reset_descs :: "'a io_scheme \<Rightarrow> 'a io_scheme" where
  "reset_descs s =
     (if \<not> iocall_Initialized s then s\<lparr>iocall_FileDesc := replicate IOCALL_MAXFD closed_desc\<rparr> else s)"

text \<open>Look the path up, or create it: \<open>None\<close> for the early return of -1. The empty string literal
  that is written has no bytes, so its address does not matter.\<close>

definition open_index :: "cstring \<Rightarrow> u32 \<Rightarrow> 'a io_scheme \<Rightarrow> ((int \<times> bool) option \<times> 'a io_scheme) res" where
  "open_index path fl s =
     (let index = fs_index path s in
      if index = FS_STS_ENTRYNOTFOUND then
        if has_flag fl O_CREAT then
          bindR (fs_writeFile path 0 1 s)
            (\<lambda>(sts, s1). if sts \<noteq> FS_STS_SUCCESS then Inr (None, s1)
               else let index1 = fs_index path s1 in
                 if index1 = FS_STS_ENTRYNOTFOUND then Inr (None, s1) else Inr (Some (index1, True), s1))
        else Inr (None, s)
      else if index < 1 \<or> index \<ge> int FS_MAX_ENTCOUNT then Inr (None, s)
      else Inr (Some (index, False), s))"

definition dev_refuses :: "fs_Entry \<Rightarrow> u32 \<Rightarrow> bool" where
  "dev_refuses e fl \<longleftrightarrow>
     ftype e = FS_TYPE_CHARDEV \<and> \<not> has_flag fl O_RDWR \<and>
     (if has_flag fl O_RDONLY then has_flag (ucast (devperm e)) O_WRONLY
      else has_flag fl O_WRONLY \<and> has_flag (ucast (devperm e)) O_RDONLY)"

definition take_desc :: "int \<Rightarrow> u32 \<Rightarrow> 'a io_scheme \<Rightarrow> int \<times> 'a io_scheme" where
  "take_desc index fl s =
     (case scan (\<lambda>i. entry (iocall_FileDesc s ! i) = 0) 0 IOCALL_MAXFD of
        None \<Rightarrow> (-1, s)
      | Some found \<Rightarrow> (TYPEFD + int found, set_desc (int found) (\<lambda>d. d\<lparr>entry := index, flags := fl\<rparr>) s))"

definition open_call :: "cstring \<Rightarrow> u32 \<Rightarrow> 'a io_scheme \<Rightarrow> (int \<times> 'a io_scheme) res" where
  "open_call path fl s =
     bindR (open_index path fl (reset_descs s))
       (\<lambda>(r, s1). case r of
          None \<Rightarrow> Inr (-1, s1)
        | Some (index, created) \<Rightarrow>
            let e = fs_ent s1 (fs_stat path s1) in
            if etype e \<noteq> FS_TYPE_FILE then Inr (-1, s1)
            else if \<not> iocall_ForceAccess s1 \<and> dev_refuses e fl then Inr (-1, s1)
            else if has_flag fl O_EXCL \<and> \<not> created then Inr (-1, s1)
            else bindR (if has_flag fl O_TRUNC \<and> \<not> created then fs_writeFile path 0 1 s1 else Inr (FS_STS_SUCCESS, s1))
              (\<lambda>(sts, s2).
                 if sts \<noteq> FS_STS_SUCCESS then Inr (-1, s2)
                 else if \<not> iocall_ForceAccess s2 \<and> has_flag fl O_APPEND \<and> has_flag fl O_RDONLY \<and> \<not> has_flag fl O_RDWR
                   then Inr (-1, s2)
                 else Inr (take_desc index fl s2)))"

text \<open>\<open>close\<close> uses the descriptor itself as the index.\<close>

definition close_call :: "int \<Rightarrow> 'a io_scheme \<Rightarrow> (int \<times> 'a io_scheme) res" where
  "close_call fd s =
     (if fd < TYPEFD \<or> fd \<ge> TYPEFD + int IOCALL_MAXFD then Inr (-1, s)
      else with_desc fd s (\<lambda>d.
        if entry d = 0 \<or> op d then Inr (-1, s)
        else Inr (0, set_desc fd (\<lambda>d. d\<lparr>entry := 0, flags := 0, ptr := 0\<rparr>) s)))"

section \<open>Input from the drivers\<close>

text \<open>\<open>key_send\<close> and \<open>mouse_send\<close>: \<open>stack\<close> is the address of the local buffer. The label \<open>end\<close>
  closes whatever \<open>open\<close> answered.\<close>

definition send_bytes :: "string \<Rightarrow> string \<Rightarrow> addr \<Rightarrow> u8 list \<Rightarrow> 'a io_scheme \<Rightarrow> 'a io_scheme res" where
  "send_bytes fn path stack data s =
     bindR (open_call (cstr path) O_WRONLY (s\<lparr>iocall_ForceAccess := True\<rparr>))
       (\<lambda>(dev, s1).
          bindR (if dev = -1 then ERR fn (''Unable to open device file '' @ [CHR 0x27] @ path @ [CHR 0x27]) [] s1
                 else bindR (write_call dev stack (length data) (s1\<lparr>mem := mwrite (mem s1) stack data\<rparr>))
                   (\<lambda>(sts, s2). if sts = SIZE_MINUS1
                      then ERR fn (''Unable to write device file '' @ [CHR 0x27] @ path @ [CHR 0x27]) [] s2
                      else Inr s2))
            (\<lambda>s3. bindR (close_call dev s3) (\<lambda>(_, s4). Inr (s4\<lparr>iocall_ForceAccess := False\<rparr>))))"

definition key_send :: "addr \<Rightarrow> u8 \<Rightarrow> 'a io_scheme \<Rightarrow> 'a io_scheme res" where
  "key_send stack key = send_bytes ''key_send'' ''/dev/keyboard'' stack [key]"

definition mouse_send :: "addr \<Rightarrow> u8 \<Rightarrow> u8 \<Rightarrow> u8 \<Rightarrow> 'a io_scheme \<Rightarrow> 'a io_scheme res" where
  "mouse_send stack stat xmov ymov = send_bytes ''mouse_send'' ''/dev/mouse'' stack [stat AND 7, xmov, ymov]"

section \<open>The queue of a character device\<close>

text \<open>The abstract view of a device file: the bytes queued.\<close>

definition queue :: "mem \<Rightarrow> addr \<Rightarrow> u8 list" where
  "queue m chardev = mread m (chardev + 4) (rd32 m chardev)"

text \<open>The word at the start counts no more bytes than there is room, and the caller's buffer lies
  elsewhere.\<close>

definition chardev_ok :: "mem \<Rightarrow> addr \<Rightarrow> nat \<Rightarrow> bool" where
  "chardev_ok m chardev sz \<longleftrightarrow> 4 \<le> sz \<and> sz < 4294967296 \<and> rd32 m chardev \<le> sz - 4"

lemma rd32_disj: "disj d n a 4 \<Longrightarrow> rd32 (mwrite m d bs) a = rd32 m a" if "length bs = n"
  using that by (intro rd32_cong) (auto simp: mwrite_def disj_def)

lemma rd32_ncopy_disj: "disj d n a 4 \<Longrightarrow> rd32 (ncopy m d b n) a = rd32 m a"
  by (rule rd32_cong, rule ncopy_outside) (auto simp: disj_def)

lemma rd32_fill_disj: "disj d n a 4 \<Longrightarrow> rd32 (fill m d c n) a = rd32 m a"
  by (simp add: fill_eq rd32_disj)

lemma mread_wr32_disj: "disj a 4 b k \<Longrightarrow> mread (wr32 m a v) b k = mread m b k"
proof -
  assume d: "disj a 4 b k"
  have l: "length [w, x, y, z] = 4" for w x y z :: u8 by simp
  show ?thesis unfolding wr32_def by (rule mread_mwrite_disj) (simp only: l d)
qed

lemma mread_upd: "x \<notin> {a..<a + n} \<Longrightarrow> mread (m(x := v)) a n = mread m a n"
  by (rule mread_cong) auto

lemma chardev_put_eq:
  assumes "disj buf (i + k) dev (4 + room)" "rd32 m dev \<le> room" "room < 4294967292"
  shows "\<exists>m'. chardev_put m dev room buf i k c = (c + min k (room - rd32 m dev), m') \<and>
    queue m' dev = queue m dev @ take (room - rd32 m dev) (mread m (buf + i) k) \<and>
    rd32 m' dev \<le> room \<and> (\<forall>a. a < dev \<or> dev + 4 + room \<le> a \<longrightarrow> m' a = m a)"
  using assms
proof (induction k arbitrary: m i c)
  case 0
  then show ?case by (simp add: queue_def)
next
  case (Suc k)
  let ?n = "rd32 m dev"
  have d': "disj buf (Suc i + k) dev (4 + room)" using Suc.prems(1) by simp
  show ?case
  proof (cases "?n < room")
    case False
    then have n: "room - ?n = 0" by simp
    obtain m' where "chardev_put m dev room buf (Suc i) k c = (c + min k (room - ?n), m')"
      "queue m' dev = queue m dev @ take (room - ?n) (mread m (buf + Suc i) k)" "rd32 m' dev \<le> room"
      "\<forall>a. a < dev \<or> dev + 4 + room \<le> a \<longrightarrow> m' a = m a"
      using Suc.IH [OF d' Suc.prems(2,3)] by blast
    then show ?thesis using False n by simp
  next
    case True
    let ?m1 = "m(dev + 4 + ?n := m (buf + i))"
    let ?m2 = "wr32 ?m1 dev (wrap32 (Suc (rd32 ?m1 dev)))"
    have r1: "rd32 ?m1 dev = ?n" by (rule rd32_cong) auto
    have w: "wrap32 (Suc ?n) = Suc ?n" using True Suc.prems(3) by simp
    have r2: "rd32 ?m2 dev = Suc ?n" unfolding r1 w using True Suc.prems(3) by simp
    have out: "?m2 a = m a" if "a < dev \<or> dev + 4 + room \<le> a" for a
      using that True by (auto simp: wr32_def mwrite_def)
    have q2: "queue ?m2 dev = queue m dev @ [m (buf + i)]"
    proof -
      have "queue ?m2 dev = mread ?m1 (dev + 4) (?n + 1)"
        unfolding queue_def r2 by (subst mread_wr32_disj) (auto simp: disj_def)
      also have "\<dots> = mread ?m1 (dev + 4) ?n @ mread ?m1 (dev + 4 + ?n) 1" by (rule mread_append)
      also have "mread ?m1 (dev + 4) ?n = mread m (dev + 4) ?n" by (rule mread_upd) simp
      also have "mread ?m1 (dev + 4 + ?n) 1 = [m (buf + i)]" by (simp add: mread_def)
      finally show ?thesis by (simp only: queue_def)
    qed
    have src: "mread ?m2 (buf + Suc i) k = mread m (buf + Suc i) k"
      using Suc.prems(1) by (intro mread_cong out) (auto simp: disj_def)
    have "rd32 ?m2 dev \<le> room" unfolding r2 using True by linarith
    from Suc.IH [OF d' this Suc.prems(3), of "Suc c"] obtain m' where
      m': "chardev_put ?m2 dev room buf (Suc i) k (Suc c) = (Suc c + min k (room - Suc ?n), m')"
      "queue m' dev = (queue m dev @ [m (buf + i)]) @ take (room - Suc ?n) (mread m (buf + Suc i) k)"
      "rd32 m' dev \<le> room" "\<forall>a. a < dev \<or> dev + 4 + room \<le> a \<longrightarrow> m' a = ?m2 a"
      unfolding r2 q2 src by blast
    have c: "Suc c + min k (room - Suc ?n) = c + min (Suc k) (room - ?n)" using True by auto
    have t: "take (room - ?n) (mread m (buf + i) (Suc k)) =
        m (buf + i) # take (room - Suc ?n) (mread m (buf + Suc i) k)"
    proof -
      have "room - ?n = Suc (room - Suc ?n)" using True by simp
      then show ?thesis by (simp add: mread_Suc)
    qed
    show ?thesis using m' out True c t by (simp add: Let_def)
  qed
qed

lemma chardev_get_eq:
  assumes ok: "chardev_ok m dev sz" and d: "disj buf cnt dev sz"
  shows "\<exists>m'. chardev_get m dev sz buf cnt = (min cnt (rd32 m dev), m') \<and>
    mread m' buf (min cnt (rd32 m dev)) = take cnt (queue m dev) \<and>
    queue m' dev = drop cnt (queue m dev) \<and> chardev_ok m' dev sz"
proof -
  let ?n = "rd32 m dev"
  define l where "l = min cnt ?n"
  have lim: "(if ?n \<ge> cnt then cnt else ?n) = l" by (auto simp: l_def)
  have sz: "4 \<le> sz" "sz < 4294967296" "?n \<le> sz - 4" using ok by (simp_all add: chardev_ok_def)
  have dl: "disj buf l dev sz" using d by (auto simp: disj_def l_def)
  let ?m1 = "ncopy m buf (dev + 4) l"
  have r1: "rd32 ?m1 dev = ?n" using dl sz by (intro rd32_ncopy_disj) (auto simp: disj_def)
  have got: "mread ?m1 buf l = take cnt (queue m dev)"
  proof -
    have "mread ?m1 buf l = mread m (dev + 4) l"
      using dl sz by (intro mread_ncopy_self) (auto simp: disj_def l_def)
    then show ?thesis by (simp add: queue_def l_def mread_take min_def)
  qed
  have q1: "mread ?m1 (dev + 4) k = mread m (dev + 4) k" if "k \<le> sz - 4" for k
    using dl sz that by (intro mread_ncopy_disj) (auto simp: disj_def)
  show ?thesis
  proof (cases "?n > l")
    case True
    then have l: "l = cnt" by (auto simp: l_def)
    let ?r = "?n - l"
    let ?m2 = "ncopy ?m1 (dev + 4) (dev + 4 + l) ?r"
    let ?m3 = "fill ?m2 (dev + 4 + ?r) 0 (sub32 (sub32 sz 4) ?r)"
    have sub: "sub32 (sub32 sz 4) ?r = sz - 4 - ?r" using sz by (simp add: sub32_small)
    have get: "chardev_get m dev sz buf cnt = (l, wr32 ?m3 dev ?r)"
      using True by (simp add: chardev_get_def lim r1 Let_def)
    have r': "rd32 (wr32 ?m3 dev ?r) dev = ?r" using sz by simp
    have "mread (wr32 ?m3 dev ?r) (dev + 4) ?r = mread ?m2 (dev + 4) ?r"
      by (subst mread_wr32_disj) (auto simp: disj_def intro!: mread_fill_disj)
    also have "\<dots> = mread ?m1 (dev + 4 + l) ?r" by (subst ncopy_eq) auto
    also have "\<dots> = drop l (mread ?m1 (dev + 4) ?n)" using True by (simp add: mread_drop)
    also have "\<dots> = drop cnt (queue m dev)" using q1 sz by (simp add: queue_def l)
    finally have q: "queue (wr32 ?m3 dev ?r) dev = drop cnt (queue m dev)" by (simp add: queue_def r')
    have "mread (wr32 ?m3 dev ?r) buf l = mread ?m1 buf l"
    proof -
      have "disj dev 4 buf l" "disj (dev + 4 + ?r) (sz - 4 - ?r) buf l" "disj (dev + 4) ?r buf l"
        using dl sz by (auto simp: disj_def)
      then show ?thesis unfolding sub by (simp add: mread_wr32_disj mem_simps)
    qed
    then show ?thesis using get got q r' sz by (auto simp: chardev_ok_def l_def [symmetric])
  next
    case False
    then have l: "l = ?n" "?n \<le> cnt" by (auto simp: l_def)
    let ?m2 = "fill (wr32 ?m1 dev 0) (dev + 4) 0 (sub32 sz 4)"
    have sub: "sub32 sz 4 = sz - 4" using sz by (simp add: sub32_small)
    have get: "chardev_get m dev sz buf cnt = (l, ?m2)"
      using False by (simp add: chardev_get_def lim r1 Let_def)
    have r': "rd32 ?m2 dev = 0" by (subst rd32_fill_disj) (simp_all add: disj_def)
    have "mread ?m2 buf l = mread ?m1 buf l"
    proof -
      have "disj dev 4 buf l" "disj (dev + 4) (sz - 4) buf l" using dl sz by (auto simp: disj_def)
      then show ?thesis unfolding sub by (simp add: mread_wr32_disj mem_simps)
    qed
    moreover have "queue ?m2 dev = []" by (simp add: queue_def r')
    ultimately show ?thesis using get got r' sz l by (auto simp: chardev_ok_def queue_def l_def [symmetric])
  qed
qed

section \<open>Regular files\<close>

lemma io_fields [simp]:
  "iocall_FileDesc (set_ent p f s) = iocall_FileDesc s" "iocall_FileDesc (stamp p u s) = iocall_FileDesc s"
  by (simp_all add: stamp_eq set_ent_def)

lemma fields_only_io:
  "fs_fields_only s s' \<Longrightarrow> iocall_FileDesc s' = iocall_FileDesc s \<and>
     iocall_Initialized s' = iocall_Initialized s \<and> iocall_ForceAccess s' = iocall_ForceAccess s"
  by (auto simp: fs_fields_only_def)

lemmas io_defs = with_desc_def desc_entry_def checkR_def Let_def

lemma set_desc_fs [simp]: "fs_inv (set_desc i f s) = fs_inv s" "fs_view (set_desc i f s) = fs_view s"
  "live (set_desc i f s) = live s" "spare (set_desc i f s) r k = spare s r k" "mem (set_desc i f s) = mem s"
proof -
  have l: "live (set_desc i f s) = live s" by (rule live_cong) (simp_all add: set_desc_def)
  have m: "mm_inv (set_desc i f s) = mm_inv s" by (rule mm_inv_cong) (simp_all add: set_desc_def)
  show "live (set_desc i f s) = live s" by (rule l)
  show "fs_inv (set_desc i f s) = fs_inv s" by (rule fs_inv_cong) (simp_all add: l m, simp_all add: set_desc_def)
  show "fs_view (set_desc i f s) = fs_view s" by (rule fs_view_cong) (simp_all add: set_desc_def)
  show "spare (set_desc i f s) r k = spare s r k" by (simp add: spare_def in_use_def l) (simp add: set_desc_def)
  show "mem (set_desc i f s) = mem s" by (simp add: set_desc_def)
qed

text \<open>What a descriptor for reading or writing slot \<open>i\<close> looks like.\<close>

definition desc_for :: "iocall_FileDesc_t \<Rightarrow> nat \<Rightarrow> u32 \<Rightarrow> 'a io_scheme \<Rightarrow> bool" where
  "desc_for d i want s \<longleftrightarrow>
     entry d = int i \<and> i \<noteq> 0 \<and> in_use s i \<and> (has_flag (flags d) want \<or> has_flag (flags d) O_RDWR \<or> iocall_ForceAccess s) \<and>
     etype (ent_at s i) = FS_TYPE_FILE \<and> ftype (ent_at s i) = FS_TYPE_FILE"

lemma read_at_ptr:
  assumes inv: "fs_inv s" and len: "length (iocall_FileDesc s) = IOCALL_MAXFD"
    and d: "iocall_FileDesc s ! 0 = d" "desc_for d i O_RDONLY s" "ptr d + cnt < 4294967296"
    and buf: "disj buf cnt (fs_EntryV s i + MEMORY_BLKSIZE) (fsize (ent_at s i))"
  defines "n \<equiv> min cnt (fsize (ent_at s i) - ptr d)"
  shows "\<exists>s'. read_call 3 buf cnt s = Inr (n, s') \<and>
    mread (mem s') buf n = take n (drop (ptr d) (bytes_at s i)) \<and>
    ptr (iocall_FileDesc s' ! 0) = ptr d + n \<and> bytes_at s' i = bytes_at s i"
proof -
  let ?p = "fs_EntryV s i" and ?e = "ent_at s i"
  have i: "in_use s i" "etype ?e = FS_TYPE_FILE" "ftype ?e = FS_TYPE_FILE" "entry d = int i" "i \<noteq> 0"
    using d(2) by (simp_all add: desc_for_def)
  have fl: "\<not> (\<not> iocall_ForceAccess s \<and> \<not> has_flag (flags d) O_RDONLY \<and> \<not> has_flag (flags d) O_RDWR)"
    using d(2) by (auto simp: desc_for_def)
  have rd: "read_call 3 buf cnt s = read_file 0 d ?e buf cnt s"
    using len d(1) i fl by (auto simp: read_call_def io_defs in_use_def ent_at_def)
  show ?thesis
  proof (cases "ptr d \<ge> fsize ?e")
    case True
    then have "read_call 3 buf cnt s = Inr (n, s)" "n = 0" by (simp_all add: rd read_file_def n_def)
    then show ?thesis using d(1) by simp
  next
    case False
    let ?s1 = "stamp ?p atime_update s"
    let ?s' = "set_desc 0 (ptr_update (\<lambda>q. wrap32 (q + n)))
        (?s1\<lparr>mem := ncopy (mem s) buf (?p + MEMORY_BLKSIZE + ptr d) n\<rparr>)"
    have own: "own_bytes ?e" using i(2,3) by (simp add: own_bytes_def)
    from in_use_live [OF inv i(1)] own obtain k where
      k: "MEMORY_BLKSIZE + fsize ?e \<le> k" "?p + k < 4294967296" by (elim exE conjE) simp
    have w: "wrap32 (?p + MEMORY_BLKSIZE + ptr d) = ?p + MEMORY_BLKSIZE + ptr d" using k False by simp
    have nn: "(if cnt > fsize ?e - ptr d then fsize ?e - ptr d else cnt) = n" by (auto simp: n_def)
    have m1: "mem ?s1 = mem s" by (simp add: stamp_eq set_ent_def)
    have "?p \<noteq> 0" using i(1) by (simp add: in_use_def)
    then have res: "read_call 3 buf cnt s = Inr (n, ?s')"
      using False readFile_eq [OF inv i(1,2)] i(3)
      by (simp add: rd read_file_def Let_def nn w [simplified add.assoc] m1 add.assoc)
    have bytes: "bytes_at s i = mread (mem s) (?p + MEMORY_BLKSIZE) (fsize ?e)"
      using own data_of_in_use [OF inv i(1)] by (simp add: bytes_at_def)
    have ms': "mem ?s' = ncopy (mem s) buf (?p + MEMORY_BLKSIZE + ptr d) n" by simp
    have "mread (mem ?s') buf n = mread (mem s) (?p + MEMORY_BLKSIZE + ptr d) n"
      unfolding ms' using buf False by (intro mread_ncopy_self) (auto simp: disj_def n_def)
    also have "\<dots> = take n (drop (ptr d) (bytes_at s i))"
      using False unfolding bytes by (subst mread_drop) (auto simp: mread_take n_def)
    finally have got: "mread (mem ?s') buf n = take n (drop (ptr d) (bytes_at s i))" .
    have "ent_at ?s' i = ?e\<lparr>atime := fst (date s)\<rparr>" "fs_EntryV ?s' = fs_EntryV s"
      by (simp_all add: set_desc_def stamp_eq set_ent_def ent_at_def)
    moreover have "mread (mem ?s') (?p + MEMORY_BLKSIZE) (fsize ?e) = mread (mem s) (?p + MEMORY_BLKSIZE) (fsize ?e)"
      unfolding ms' using buf by (intro mread_ncopy_disj) (auto simp: disj_def n_def)
    ultimately have "bytes_at ?s' i = bytes_at s i"
      using i(2,3) data_of_in_use [OF inv i(1)] by (simp add: bytes_at_def own_bytes_def)
    moreover have "ptr (iocall_FileDesc ?s' ! 0) = ptr d + n"
      using d(1,3) len by (simp add: set_desc_def stamp_eq set_ent_def n_def)
    ultimately show ?thesis using res got by blast
  qed
qed

definition splice :: "nat \<Rightarrow> u8 list \<Rightarrow> u8 list \<Rightarrow> u8 list" where
  "splice p xs bs =
     (let base = bs @ replicate (p + length xs - length bs) 0 in take p base @ xs @ drop (p + length xs) base)"

lemma mread_splice:
  assumes "limit = max sz (p + cnt)" "disj data limit file sz" "disj data limit buf cnt"
  shows "mread (ncopy (ncopy (fill m data 0 limit) data file sz) (data + p) buf cnt) data limit =
    splice p (mread m buf cnt) (mread m file sz)"
proof -
  let ?m1 = "fill m data 0 limit"
  let ?m2 = "ncopy ?m1 data file sz"
  have d: "disj data sz file sz" "disj (data + p) cnt buf cnt" "disj data sz buf cnt" "disj data sz (data + sz) (limit - sz)"
    "disj data limit file sz" "disj data limit buf cnt"
    using assms by (auto simp: disj_def)
  have src: "mread ?m2 buf cnt = mread m buf cnt" using d by (simp add: mem_simps)
  have head: "mread ?m2 data sz = mread m file sz" using d by (simp add: mread_ncopy_self mem_simps)
  have tail: "mread ?m2 (data + sz) (limit - sz) = replicate (limit - sz) 0"
  proof -
    have "mread ?m2 (data + sz) (limit - sz) = mread ?m1 (data + sz) (limit - sz)" using d by (simp add: mem_simps)
    also have "\<dots> = replicate (limit - sz) 0"
    proof (rule nth_equalityI)
      fix i assume "i < length (mread ?m1 (data + sz) (limit - sz))"
      then have i: "i < limit - sz" "sz + i < limit" by simp_all
      have "?m1 (data + sz + i) = 0" using i(2) by (simp add: fill_eq mwrite_def add.assoc)
      then show "mread ?m1 (data + sz) (limit - sz) ! i = replicate (limit - sz) 0 ! i" using i(1) by simp
    qed simp
    finally show ?thesis .
  qed
  have base: "mread ?m2 data limit = mread m file sz @ replicate (limit - sz) 0"
    using mread_append [of ?m2 data sz "limit - sz"] head tail assms(1) by simp
  have c: "ncopy ?m2 (data + p) buf cnt = mwrite ?m2 (data + p) (mread m buf cnt)"
  proof (cases "cnt = 0")
    case False
    then have "data + p \<le> buf \<or> buf + cnt \<le> data + p" using d(2) by (auto simp: disj_def)
    then show ?thesis by (simp add: ncopy_eq src)
  qed simp
  have "mread (mwrite ?m2 (data + p) (mread m buf cnt)) data limit =
      take p (mread ?m2 data limit) @ mread m buf cnt @ drop (p + cnt) (mread ?m2 data limit)"
    using assms(1) by (intro nth_equalityI) (auto simp: mwrite_def nth_append)
  then show ?thesis
    unfolding c splice_def base Let_def using assms(1) by (simp add: max_def)
qed

lemma write_at_ptr:
  assumes inv: "fs_inv s" and len: "length (iocall_FileDesc s) = IOCALL_MAXFD" and j: "j < IOCALL_MAXFD"
    and d: "iocall_FileDesc s ! j = d" "desc_for d i O_WRONLY s" "ptr d + cnt < SIZE_MINUS1"
    and limit: "limit = max (fsize (ent_at s i)) (ptr d + cnt)" "0 < limit" "fits s (MEMORY_BLKSIZE + limit)"
    and buf: "buf_ok s buf cnt"
  shows "\<exists>n s'. write_call (3 + int j) buf cnt s = Inr (n, s') \<and> fs_inv s' \<and>
    (if n = SIZE_MINUS1 then (\<forall>q. map_option snd (fs_view s' q) = map_option snd (fs_view s q))
     else n = cnt \<and> ptr (iocall_FileDesc s' ! j) = ptr d + cnt \<and>
       (\<exists>e. fs_view s' = (fs_view s)(name (ent_at s i) \<mapsto> (e, splice (ptr d) (mread (mem s) buf cnt) (bytes_at s i))) \<and>
            fsize e = limit))"
proof -
  let ?p = "fs_EntryV s i" and ?e = "ent_at s i"
  let ?nm = "name ?e" and ?bs = "bytes_at s i" and ?sz = "fsize (ent_at s i)"
  note mm = fs_invD(1) [OF inv]
  have i: "in_use s i" "etype ?e = FS_TYPE_FILE" "ftype ?e = FS_TYPE_FILE" "entry d = int i" "i \<noteq> 0"
    using d(2) by (simp_all add: desc_for_def)
  have fl: "\<not> (\<not> iocall_ForceAccess s \<and> \<not> has_flag (flags d) O_WRONLY \<and> \<not> has_flag (flags d) O_RDWR)"
    using d(2) by (auto simp: desc_for_def)
  have wr: "write_call (3 + int j) buf cnt s = write_file (int j) d ?e buf cnt s"
    using len j d(1) i fl by (auto simp: write_call_def io_defs in_use_def ent_at_def)
  have v: "fs_view s ?nm = Some (?e, ?bs)" by (rule fs_viewI [OF inv i(1) refl])
  let ?s1 = "stamp ?p atime_update s"
  have s1: "fs_inv ?s1" "fs_view ?s1 = (fs_view s)(?nm \<mapsto> (?e\<lparr>atime := fst (date s)\<rparr>, ?bs))"
    using stamp_view [OF inv i(1)] by simp_all
  have f1: "mem ?s1 = mem s" "fs_EntryV ?s1 = fs_EntryV s" "live ?s1 = live s" "memory_Space ?s1 = memory_Space s"
    "memory_Limit ?s1 = memory_Limit s" "ent_at ?s1 i = ?e\<lparr>atime := fst (date s)\<rparr>" "in_use ?s1 = in_use s"
    by (simp_all add: stamp_eq set_ent_def ent_at_def in_use_def fun_eq_iff)
  have fit: "fits ?s1 limit" "fits ?s1 (MEMORY_BLKSIZE + limit)"
  proof -
    have "limit \<le> memory_BlockC s * MEMORY_BLKSIZE" using limit(3) unfolding fits_def by linarith
    then show "fits ?s1 limit" using limit(2) by (simp add: fits_def stamp_eq set_ent_def)
    show "fits ?s1 (MEMORY_BLKSIZE + limit)" using limit(3) by (simp add: fits_def stamp_eq set_ent_def)
  qed
  have w: "wrap32 (ptr d + cnt) = ptr d + cnt" using d(3) by simp
  have lim: "(if ?sz \<ge> ptr d + cnt then ?sz else ptr d + cnt) = limit" using limit(1) by (simp add: max_def)
  obtain data s2 where m: "malloc limit ?s1 = Inr (data, s2)" using malloc_total [OF fs_invD(1) [OF s1(1)] fit(1)] by blast
  have snd1: "map_option snd (fs_view ?s1 q) = map_option snd (fs_view s q)" for q
    unfolding s1(2) using v by simp
  show ?thesis
  proof (cases "data = 0")
    case True
    then have "s2 = ?s1" using malloc_null(1) [OF fs_invD(1) [OF s1(1)] fit(1)] m by simp
    then have "write_call (3 + int j) buf cnt s = Inr (SIZE_MINUS1, ?s1)"
      using True m readFile_eq [OF inv i(1,2)] i(3) by (simp add: wr write_file_def w lim Let_def)
    then show ?thesis using s1(1) snd1 by (intro exI [of _ SIZE_MINUS1] exI [of _ ?s1]) simp
  next
    case False
    note mm1 = fs_invD(1) [OF s1(1)]
    note ml = malloc_live [OF mm1 fit(1) m False] and fr = fresh_region [OF mm1 fit(1) m False]
    obtain V where V: "s2 = ?s1\<lparr>memory_BlockV := V\<rparr>" using malloc_frame [OF m] by blast
    have nb: "limit \<le> nblocks limit * MEMORY_BLKSIZE" using limit(2) by (rule nblocks_ge)
    let ?m3 = "ncopy (ncopy (fill (mem s2) data 0 limit) data (?p + MEMORY_BLKSIZE) ?sz) (data + ptr d) buf cnt"
    let ?s3 = "s2\<lparr>mem := ?m3\<rparr>"
    have live3: "live ?s3 = (live ?s1)(data \<mapsto> nblocks limit * MEMORY_BLKSIZE)" using ml(2) by simp
    have entry_ne: "fs_EntryV ?s1 l \<noteq> data" if "in_use ?s1 l" for l
      using in_use_live [OF s1(1) that] ml(1) by (metis option.distinct(1))
    have keep: "mread ?m3 r k = mread (mem ?s1) r k" if "disj r k data limit" for r k
    proof -
      have "disj data limit r k" "disj data ?sz r k" "disj (data + ptr d) cnt r k"
        using that limit(1) by (auto simp: disj_def)
      then show ?thesis by (simp add: V mem_simps)
    qed
    have s3: "fs_inv ?s3 \<and> fs_view ?s3 = fs_view ?s1"
    proof (rule fs_heap_change [OF s1(1)])
      show "mm_inv ?s3" using ml(3) by simp
      show "live ?s3 (fs_EntryV ?s1 l) = live ?s1 (fs_EntryV ?s1 l)" if "in_use ?s1 l" for l
        using entry_ne [OF that] live3 by simp
      show "mread (mem ?s3) (fs_EntryV ?s1 l) k = mread (mem ?s1) (fs_EntryV ?s1 l) k"
        if "in_use ?s1 l" "live ?s1 (fs_EntryV ?s1 l) = Some k" for l k
        using keep [OF fr(3) [OF that(2)]] by simp
    qed (simp_all add: V)
    have sp3: "spare ?s3 data (nblocks limit * MEMORY_BLKSIZE)"
      using live3 entry_ne by (simp add: spare_def in_use_def V)
    have own: "own_bytes ?e" using i(2,3) by (simp add: own_bytes_def)
    from in_use_live [OF inv i(1)] own obtain k where
      k: "live s ?p = Some k" "MEMORY_BLKSIZE + ?sz \<le> k" by (elim exE conjE) simp
    have dfile: "disj data limit (?p + MEMORY_BLKSIZE) ?sz"
      using fr(3) [of ?p k] k f1(3) by (auto simp: disj_def)
    have dbuf: "disj data limit buf cnt"
    proof -
      have b: "buf_ok ?s1 buf cnt" using buf f1 by (simp add: buf_ok_def)
      have "disj buf cnt data limit" by (rule buf_disj [OF b fr(1,2)]) (rule fr(3))
      then show ?thesis by (simp add: disj_commute)
    qed
    have bytes: "?bs = mread (mem s) (?p + MEMORY_BLKSIZE) ?sz"
      using own data_of_in_use [OF inv i(1)] by (simp add: bytes_at_def)
    have m2: "mem s2 = mem s" using V f1(1) by simp
    have new: "mread ?m3 data limit = splice (ptr d) (mread (mem s) buf cnt) ?bs"
      unfolding bytes m2 by (rule mread_splice [OF limit(1) dfile dbuf])
    have b3: "buf_ok ?s3 data limit"
      using False live3 nb by (auto simp: buf_ok_def)
    have fit3: "fits ?s3 (MEMORY_BLKSIZE + limit)" using fit(2) V by (simp add: fits_def)
    note ok = fs_invD(3) [OF inv i(1)]
    have v3: "fs_view ?s3 ?nm = Some (?e\<lparr>atime := fst (date s)\<rparr>, ?bs)" using s3 s1(2) by simp
    obtain st s4 where w4: "fs_writeFile ?nm limit data ?s3 = Inr (st, s4)" "fs_inv s4"
      "\<forall>r k. spare ?s3 r k \<longrightarrow> spare s4 r k"
      "st \<noteq> FS_STS_SUCCESS \<Longrightarrow> s4 = ?s3"
      "st = FS_STS_SUCCESS \<Longrightarrow> \<exists>e. fs_view s4 = (fs_view ?s3)(?nm \<mapsto> (e, mread (mem ?s3) data limit)) \<and> fsize e = limit"
      using writeFile_view [OF conjunct1 [OF s3] entry_okD(1,3) [OF ok] fit3 b3] i(3) unfolding v3
      by (auto simp: held_def split: if_splits)
    have sp4: "spare s4 data (nblocks limit * MEMORY_BLKSIZE)" using w4(3) sp3 by blast
    have eq: "write_call (3 + int j) buf cnt s =
        (if st \<noteq> FS_STS_SUCCESS then bindR (Memory.free data s4) (\<lambda>s5. Inr (SIZE_MINUS1, s5))
         else bindR (Memory.free data (set_desc (int j) (ptr_update (\<lambda>p. wrap32 (p + cnt))) s4)) (\<lambda>s5. Inr (cnt, s5)))"
      using False m readFile_eq [OF inv i(1,2)] i(3) w4(1) by (simp add: wr write_file_def w lim Let_def)
    show ?thesis
    proof (cases "st = FS_STS_SUCCESS")
      case ok: False
      obtain W where W: "Memory.free data s4 = Inr (s4\<lparr>memory_BlockV := W\<rparr>)" "fs_inv (s4\<lparr>memory_BlockV := W\<rparr>)"
        "fs_view (s4\<lparr>memory_BlockV := W\<rparr>) = fs_view s4" using free_spare [OF w4(2) sp4] by blast
      have "write_call (3 + int j) buf cnt s = Inr (SIZE_MINUS1, s4\<lparr>memory_BlockV := W\<rparr>)" using eq ok W(1) by simp
      moreover have "map_option snd (fs_view (s4\<lparr>memory_BlockV := W\<rparr>) q) = map_option snd (fs_view s q)" for q
        using W(3) w4(4) [OF ok] s3 snd1 by simp
      ultimately show ?thesis using W(2) by (intro exI [of _ SIZE_MINUS1] exI [of _ "s4\<lparr>memory_BlockV := W\<rparr>"]) simp
    next
      case ok: True
      let ?s5 = "set_desc (int j) (ptr_update (\<lambda>p. wrap32 (p + cnt))) s4"
      have s5: "fs_inv ?s5" "spare ?s5 data (nblocks limit * MEMORY_BLKSIZE)" "fs_view ?s5 = fs_view s4"
        using w4(2) sp4 by simp_all
      obtain W where W: "Memory.free data ?s5 = Inr (?s5\<lparr>memory_BlockV := W\<rparr>)" "fs_inv (?s5\<lparr>memory_BlockV := W\<rparr>)"
        "fs_view (?s5\<lparr>memory_BlockV := W\<rparr>) = fs_view ?s5" using free_spare [OF s5(1,2)] by blast
      obtain e where e: "fs_view s4 = (fs_view ?s3)(?nm \<mapsto> (e, mread (mem ?s3) data limit))" "fsize e = limit"
        using w4(5) [OF ok] by blast
      have "write_call (3 + int j) buf cnt s = Inr (cnt, ?s5\<lparr>memory_BlockV := W\<rparr>)" using eq ok W(1) by simp
      moreover have "fs_view (?s5\<lparr>memory_BlockV := W\<rparr>) =
          (fs_view s)(?nm \<mapsto> (e, splice (ptr d) (mread (mem s) buf cnt) ?bs))"
        using W(3) s5(3) e(1) s3 s1(2) new by simp
      moreover have "iocall_FileDesc s4 = iocall_FileDesc s"
        using fields_only_io [OF writeFile_frame [OF w4(1)]] by (simp add: V)
      then have "ptr (iocall_FileDesc (?s5\<lparr>memory_BlockV := W\<rparr>) ! j) = ptr d + cnt"
        using len j d(1,3) by (simp add: set_desc_def)
      moreover have "cnt \<noteq> SIZE_MINUS1" using d(3) by simp
      ultimately show ?thesis using W(2) e(2)
        by (intro exI [of _ cnt] exI [of _ "?s5\<lparr>memory_BlockV := W\<rparr>"]) auto
    qed
  qed
qed

section \<open>Descriptors\<close>

lemma open_index_frame: "open_index path fl s = Inr (r, s') \<Longrightarrow> fs_fields_only s s'"
  by (auto simp: open_index_def Let_def bindR_eq_Inr fs_fields_only_refl split: if_splits dest: writeFile_frame)

lemma reset_descs_frame:
  "\<not> iocall_Initialized s \<Longrightarrow> iocall_FileDesc (reset_descs s) = replicate IOCALL_MAXFD closed_desc \<and>
     iocall_Initialized (reset_descs s) = iocall_Initialized s"
  by (simp add: reset_descs_def)

lemma take_desc_first:
  "iocall_FileDesc s = replicate IOCALL_MAXFD closed_desc \<Longrightarrow>
   take_desc index fl s = (3, s\<lparr>iocall_FileDesc := (replicate IOCALL_MAXFD closed_desc)
      [0 := closed_desc\<lparr>entry := index, flags := fl\<rparr>]\<rparr>)"
proof -
  assume d: "iocall_FileDesc s = replicate IOCALL_MAXFD closed_desc"
  have "scan (\<lambda>i. entry (iocall_FileDesc s ! i) = 0) 0 IOCALL_MAXFD = Some 0"
    by (rule scan_SomeI) (simp_all add: d closed_desc_def)
  then show ?thesis by (simp add: take_desc_def set_desc_def d)
qed

text \<open>The table after \<open>open\<close>: cleared, with at most descriptor 3 in use.\<close>

lemma open_table:
  assumes "\<not> iocall_Initialized s" "open_call path fl s = Inr (fd, s')"
  shows "\<not> iocall_Initialized s' \<and>
    (fd = -1 \<and> iocall_FileDesc s' = replicate IOCALL_MAXFD closed_desc \<or>
     fd = 3 \<and> (\<exists>index. iocall_FileDesc s' =
        (replicate IOCALL_MAXFD closed_desc)[0 := closed_desc\<lparr>entry := index, flags := fl\<rparr>]))"
proof -
  note r = reset_descs_frame [OF assms(1)]
  from assms(2) obtain q s1 where i: "open_index path fl (reset_descs s) = Inr (q, s1)"
    and c: "(case q of None \<Rightarrow> Inr (-1, s1)
        | Some (index, created) \<Rightarrow>
            let e = fs_ent s1 (fs_stat path s1) in
            if etype e \<noteq> FS_TYPE_FILE then Inr (-1, s1)
            else if \<not> iocall_ForceAccess s1 \<and> dev_refuses e fl then Inr (-1, s1)
            else if has_flag fl O_EXCL \<and> \<not> created then Inr (-1, s1)
            else bindR (if has_flag fl O_TRUNC \<and> \<not> created then fs_writeFile path 0 1 s1 else Inr (FS_STS_SUCCESS, s1))
              (\<lambda>(sts, s2).
                 if sts \<noteq> FS_STS_SUCCESS then Inr (-1, s2)
                 else if \<not> iocall_ForceAccess s2 \<and> has_flag fl O_APPEND \<and> has_flag fl O_RDONLY \<and> \<not> has_flag fl O_RDWR
                   then Inr (-1, s2)
                 else Inr (take_desc index fl s2))) = Inr (fd, s')"
    by (auto simp: open_call_def bindR_eq_Inr)
  have s1: "iocall_FileDesc s1 = replicate IOCALL_MAXFD closed_desc" "\<not> iocall_Initialized s1"
    using fields_only_io [OF open_index_frame [OF i]] r assms(1) by simp_all
  have "fd = -1 \<and> s' = s1 \<or> (\<exists>s2 index. fs_fields_only s1 s2 \<and> (fd = -1 \<and> s' = s2 \<or> (fd, s') = take_desc index fl s2))"
  proof (cases q)
    case None
    then show ?thesis using c by simp
  next
    case (Some p)
    obtain index created where p: "p = (index, created)" by (cases p) auto
    let ?w = "if has_flag fl O_TRUNC \<and> \<not> created then fs_writeFile path 0 1 s1 else Inr (FS_STS_SUCCESS, s1)"
    have frame: "fs_fields_only s1 s2" if "?w = Inr (sts, s2)" for sts s2
      using that by (auto simp: fs_fields_only_refl split: if_splits dest: writeFile_frame)
    show ?thesis
    proof (cases "fd = -1 \<and> s' = s1")
      case False
      then have "bindR ?w (\<lambda>(sts, s2).
             if sts \<noteq> FS_STS_SUCCESS then Inr (-1, s2)
             else if \<not> iocall_ForceAccess s2 \<and> has_flag fl O_APPEND \<and> has_flag fl O_RDONLY \<and> \<not> has_flag fl O_RDWR
               then Inr (-1, s2)
             else Inr (take_desc index fl s2)) = Inr (fd, s')"
        using c unfolding Some p option.case prod.case Let_def by (auto simp only: split: if_split_asm)
      from iffD1 [OF bindR_eq_Inr this] obtain r where r: "?w = Inr r" and k: "(case r of (sts, s2) \<Rightarrow>
             if sts \<noteq> FS_STS_SUCCESS then Inr (-1, s2)
             else if \<not> iocall_ForceAccess s2 \<and> has_flag fl O_APPEND \<and> has_flag fl O_RDONLY \<and> \<not> has_flag fl O_RDWR
               then Inr (-1, s2)
             else Inr (take_desc index fl s2)) = (Inr (fd, s') :: (int \<times> 'a io_scheme) res)"
        by (elim exE conjE)
      obtain sts s2 where rs: "r = (sts, s2)" by (cases r) auto
      have w: "?w = Inr (sts, s2)" using r rs by simp
      from k have "if sts \<noteq> FS_STS_SUCCESS then fd = -1 \<and> s' = s2 else True"
        "fd = -1 \<and> s' = s2 \<or> take_desc index fl s2 = (fd, s')"
        unfolding rs prod.case by (auto split: if_split_asm)
      then have "fd = -1 \<and> s' = s2 \<or> (fd, s') = take_desc index fl s2" by auto
      with frame [OF w] show ?thesis by blast
    qed blast
  qed
  then show ?thesis
  proof (elim disjE exE conjE)
    assume "fd = -1" "s' = s1"
    then show ?thesis using s1 by simp
  next
    fix s2 :: "'a io_scheme" and index
    assume "fs_fields_only s1 s2" "fd = -1" "s' = s2"
    then show ?thesis using s1 fields_only_io [of s1 s2] by simp
  next
    fix s2 :: "'a io_scheme" and index
    assume f: "fs_fields_only s1 s2" "(fd, s') = take_desc index fl s2"
    then have "iocall_FileDesc s2 = replicate IOCALL_MAXFD closed_desc" "\<not> iocall_Initialized s2"
      using s1 fields_only_io [of s1 s2] by simp_all
    then show ?thesis using f(2) take_desc_first [of s2 index fl] by auto
  qed
qed

lemma close_index_fd: "j < IOCALL_MAXFD \<Longrightarrow> 3 \<le> j \<Longrightarrow> length (iocall_FileDesc s) = IOCALL_MAXFD \<Longrightarrow>
    entry (iocall_FileDesc s ! j) = 0 \<Longrightarrow> close_call (int j) s = Inr (-1, s)"
  by (simp add: close_call_def io_defs)

section \<open>Sample state\<close>

text \<open>The sample file system with descriptor 3 open on \<open>/a\<close> for reading and writing.\<close>

definition io_demo :: io where
  "io_demo = fs.extend fs_demo
     \<lparr>iocall_FileDesc = (replicate 64 closed_desc)[0 := \<lparr>entry = 1, flags = 4, ptr = 1, op = False\<rparr>],
      iocall_Initialized = False, iocall_ForceAccess = False\<rparr>"

lemma io_demo_fields [simp]:
  "fs_EntryV io_demo = fs_EntryV fs_demo" "fs_ent io_demo = fs_ent fs_demo" "mem io_demo = mem fs_demo"
  "fs_InitLock io_demo = fs_InitLock fs_demo" "memory_Space io_demo = memory_Space fs_demo"
  "memory_Limit io_demo = memory_Limit fs_demo" "memory_BlockC io_demo = memory_BlockC fs_demo"
  "iocall_FileDesc io_demo = (replicate 64 closed_desc)[0 := \<lparr>entry = 1, flags = 4, ptr = 1, op = False\<rparr>]"
  "\<not> iocall_Initialized io_demo" "\<not> iocall_ForceAccess io_demo"
  by (simp_all add: io_demo_def fs.defs)

lemma io_demo_inv: "fs_inv io_demo"
proof -
  have "live io_demo = live fs_demo" by (rule live_cong) (simp_all add: io_demo_def fs.defs)
  moreover have "mm_inv io_demo = mm_inv fs_demo" by (rule mm_inv_cong) (simp_all add: io_demo_def fs.defs)
  ultimately show ?thesis using fs_demo_inv fs_inv_cong [of io_demo fs_demo] by simp
qed

lemma io_demo_ent: "in_use io_demo 1" "ent_at io_demo 1 = sample_entry (cstr ''/a'') 3 FS_TYPE_FILE"
  "fs_EntryV io_demo 1 = 12288" "bytes_at io_demo 1 = cstr ''hi!''"
proof -
  show e: "in_use io_demo 1" "ent_at io_demo 1 = sample_entry (cstr ''/a'') 3 FS_TYPE_FILE" "fs_EntryV io_demo 1 = 12288"
    using fs_demo_use [of 1] fs_demo_ent by (simp_all add: in_use_def ent_at_def)
  have "fs_view fs_demo (cstr ''/a'') = Some (ent_at fs_demo 1, bytes_at fs_demo 1)"
    by (rule fs_viewI [OF fs_demo_inv]) (simp_all add: fs_demo_use fs_demo_ent [simplified] sample_entry_def)
  then have "bytes_at fs_demo 1 = cstr ''hi!''" using fs_demo_view(2) by simp
  then show "bytes_at io_demo 1 = cstr ''hi!''" by (simp only: bytes_at_def ent_at_def io_demo_fields)
qed

lemma io_demo_desc: "desc_for \<lparr>entry = 1, flags = 4, ptr = 1, op = False\<rparr> 1 want io_demo"
  using io_demo_ent by (simp add: desc_for_def has_flag_def sample_entry_def)

section \<open>Properties\<close>

text \<open>C20.
  Since nothing sets \<open>iocall_Initialized\<close>, every \<open>open\<close> clears the descriptor table first: it can
  only answer 3 or -1, whatever was open before is forgotten, and \<open>close\<close>, which takes the descriptor
  for the index, then refuses to close any descriptor of the table.\<close>

theorem open_forgets_all:
  assumes "\<not> iocall_Initialized s" "open_call path fl s = Inr (fd, s')"
  shows "(fd = -1 \<or> fd = 3) \<and> \<not> iocall_Initialized s' \<and> length (iocall_FileDesc s') = IOCALL_MAXFD \<and>
    (\<forall>j<IOCALL_MAXFD. j \<noteq> 0 \<or> fd = -1 \<longrightarrow> iocall_FileDesc s' ! j = closed_desc) \<and>
    (\<forall>d\<in>{3..<64}. close_call d s' = Inr (-1, s'))"
proof -
  note t = open_table [OF assms]
  have len: "length (iocall_FileDesc s') = IOCALL_MAXFD" using t by auto
  have closed: "iocall_FileDesc s' ! j = closed_desc" if "j < IOCALL_MAXFD" "j \<noteq> 0 \<or> fd = -1" for j
    using t that by auto
  have "close_call d s' = Inr (-1, s')" if "d \<in> {3..<64}" for d
  proof -
    from that obtain j where j: "d = int j" "3 \<le> j" "j < 64" by (metis atLeastLessThan_iff nonneg_int_cases
      numeral_le_iff of_nat_less_iff of_nat_numeral order_trans zero_le_numeral of_nat_le_iff)
    show ?thesis unfolding j(1) by (rule close_index_fd) (use j len closed [of j] in \<open>simp_all add: closed_desc_def\<close>)
  qed
  then show ?thesis using t len closed by auto
qed

theorem open_forgets_all_witness:
  "\<exists>s'. open_call (cstr ''/a'') 4 io_demo = Inr (3, s') \<and> close_call 3 s' = Inr (-1, s')"
proof -
  let ?s = "io_demo\<lparr>iocall_FileDesc := replicate 64 closed_desc\<rparr>"
  have inv: "fs_inv ?s"
    by (rule fs_inv_cong [THEN iffD1, OF _ _ _ _ _ io_demo_inv])
      (simp_all, rule live_cong, simp_all, rule mm_inv_cong, simp_all)
  have a: "is_cstr (cstr ''/a'')" by (simp add: cstr_def)
  have use: "in_use ?s 1" "name (ent_at ?s 1) = cstr ''/a''" "fs_EntryV ?s 1 = 12288" "fs_InitLock ?s"
    using io_demo_ent fs_invD(2) [OF io_demo_inv] by (simp_all add: in_use_def ent_at_def sample_entry_def)
  have find: "find_entry ?s (cstr ''/a'') = Some 1" using find_entry_Some [OF inv a] use by simp
  have e: "fs_ent ?s 12288 = sample_entry (cstr ''/a'') 3 FS_TYPE_FILE"
    using io_demo_ent(2,3) by (simp add: ent_at_def)
  have "\<exists>s'. open_call (cstr ''/a'') 4 io_demo = Inr (3, s')"
    using find use(3,4) e
    by (simp add: open_call_def reset_descs_def open_index_def fs_index_def fs_stat_def Let_def has_flag_def
        sample_entry_def dev_refuses_def take_desc_first)
  then obtain s' where o': "open_call (cstr ''/a'') 4 io_demo = Inr (3, s')" by blast
  have "\<not> iocall_Initialized io_demo" by simp
  from open_forgets_all [OF this o'] have "\<forall>d\<in>{3..<64}. close_call d s' = Inr (-1, s')" by blast
  then have "close_call 3 s' = Inr (-1, s')" by simp
  with o' show ?thesis by blast
qed

text \<open>C19.
  \<open>read\<close> on the first descriptor copies the bytes of the file from the position on, as many as
  are asked for and as the file has, advances the position by their number and leaves the file as
  it was; on every other descriptor its index \<open>TYPEFD - fd\<close> lies before the table.\<close>

theorem read_from_position:
  assumes "fs_inv s" "length (iocall_FileDesc s) = IOCALL_MAXFD"
    and "desc_for (iocall_FileDesc s ! 0) i O_RDONLY s" "ptr (iocall_FileDesc s ! 0) + cnt < 4294967296"
    and "disj buf cnt (fs_EntryV s i + MEMORY_BLKSIZE) (fsize (ent_at s i))"
  shows "(\<exists>n s'. read_call 3 buf cnt s = Inr (n, s') \<and>
      n = min cnt (fsize (ent_at s i) - ptr (iocall_FileDesc s ! 0)) \<and>
      mread (mem s') buf n = take n (drop (ptr (iocall_FileDesc s ! 0)) (bytes_at s i)) \<and>
      ptr (iocall_FileDesc s' ! 0) = ptr (iocall_FileDesc s ! 0) + n \<and> bytes_at s' i = bytes_at s i) \<and>
    read_call (4 + int (k mod 63)) buf cnt s = Inl OutOfBounds"
proof -
  have k: "k mod 63 < 63" by simp
  then have "int (k mod 63) < 63" by linarith
  then have "read_call (4 + int (k mod 63)) buf cnt s = Inl OutOfBounds"
    by (simp add: read_call_def with_desc_def)
  then show ?thesis using read_at_ptr [OF assms(1,2) refl assms(3-5)] by blast
qed

theorem read_from_position_witness:
  "\<exists>n s'. read_call 3 4096 10 io_demo = Inr (n, s') \<and> n = 2 \<and> mread (mem s') 4096 n = cstr ''i!'' \<and>
     read_call 5 4096 10 io_demo = Inl OutOfBounds"
proof -
  have d: "desc_for (iocall_FileDesc io_demo ! 0) 1 1 io_demo" using io_demo_desc [of 1] by simp
  have e: "fsize (ent_at io_demo 1) = 3" unfolding io_demo_ent by (simp add: sample_entry_def)
  have "disj 4096 10 (fs_EntryV io_demo 1 + MEMORY_BLKSIZE) (fsize (ent_at io_demo 1))"
    unfolding e io_demo_ent(3) by (simp add: disj_def)
  from read_from_position [OF io_demo_inv _ d _ this, of 1] show ?thesis
    unfolding e io_demo_ent(4) by (auto simp: cstr_def)
qed

text \<open>C18.
  \<open>write\<close> at a descriptor's position splices the buffer into the file: the file keeps what lies
  before and after, grows when the position plus the count passes its end, with zeros between the
  old end and the position, and the position advances; no other path is touched. The only
  other answer is -1, and then all files hold what they held.\<close>

theorem write_at_position:
  assumes "fs_inv s" "length (iocall_FileDesc s) = IOCALL_MAXFD" "j < IOCALL_MAXFD"
    and "desc_for (iocall_FileDesc s ! j) i O_WRONLY s" "ptr (iocall_FileDesc s ! j) + cnt < SIZE_MINUS1"
    and "limit = max (fsize (ent_at s i)) (ptr (iocall_FileDesc s ! j) + cnt)" "0 < limit"
    and "fits s (MEMORY_BLKSIZE + limit)" "buf_ok s buf cnt"
  shows "\<exists>n s'. write_call (3 + int j) buf cnt s = Inr (n, s') \<and> fs_inv s' \<and>
    (if n = SIZE_MINUS1 then (\<forall>q. map_option snd (fs_view s' q) = map_option snd (fs_view s q))
     else n = cnt \<and> ptr (iocall_FileDesc s' ! j) = ptr (iocall_FileDesc s ! j) + cnt \<and>
       (\<exists>e. fs_view s' = (fs_view s)(name (ent_at s i) \<mapsto>
              (e, splice (ptr (iocall_FileDesc s ! j)) (mread (mem s) buf cnt) (bytes_at s i))) \<and>
            fsize e = limit))"
  by (rule write_at_ptr [OF assms(1-3) refl assms(4-9)])

theorem write_at_position_witness:
  "\<exists>n s'. write_call 3 100 4 io_demo = Inr (n, s') \<and> fs_inv s' \<and>
    (n = SIZE_MINUS1 \<or> (\<exists>e. fs_view s' (cstr ''/a'') = Some (e, cstr ''h'' @ mread (mem io_demo) 100 4)))"
proof -
  let ?d = "iocall_FileDesc io_demo ! 0"
  have d: "desc_for ?d 1 2 io_demo" "ptr ?d = 1" using io_demo_desc [of 2] by simp_all
  have e: "fsize (ent_at io_demo 1) = 3" "name (ent_at io_demo 1) = cstr ''/a''"
    unfolding io_demo_ent by (simp_all add: sample_entry_def)
  have l: "5 = max (fsize (ent_at io_demo 1)) (ptr ?d + 4)" unfolding e d(2) by simp
  have f: "fits io_demo (MEMORY_BLKSIZE + 5)" using fs_demo_fits [of 4101] by (simp add: fits_def)
  have b: "buf_ok io_demo 100 4" by (simp add: buf_ok_def fs_demo_def)
  have len: "length (iocall_FileDesc io_demo) = 64" by simp
  have sp: "splice (ptr ?d) (mread (mem io_demo) 100 4) (cstr ''hi!'') = cstr ''h'' @ mread (mem io_demo) 100 4"
    unfolding d(2) by (simp add: splice_def Let_def cstr_def)
  have p4: "ptr ?d + 4 < SIZE_MINUS1" unfolding d(2) by simp
  obtain n s' where w: "write_call (3 + int 0) 100 4 io_demo = Inr (n, s')" "fs_inv s'"
    "if n = SIZE_MINUS1 then (\<forall>q. map_option snd (fs_view s' q) = map_option snd (fs_view io_demo q))
     else n = 4 \<and> ptr (iocall_FileDesc s' ! 0) = ptr ?d + 4 \<and>
       (\<exists>e. fs_view s' = (fs_view io_demo)(name (ent_at io_demo 1) \<mapsto>
              (e, splice (ptr ?d) (mread (mem io_demo) 100 4) (bytes_at io_demo 1))) \<and> fsize e = 5)"
    using write_at_position [OF io_demo_inv len _ d(1) p4 l _ f b] by auto
  have "n = SIZE_MINUS1 \<or> (\<exists>e. fs_view s' (cstr ''/a'') = Some (e, cstr ''h'' @ mread (mem io_demo) 100 4))"
  proof (cases "n = SIZE_MINUS1")
    case False
    with w(3) obtain e where "fs_view s' = (fs_view io_demo)(name (ent_at io_demo 1) \<mapsto>
              (e, splice (ptr ?d) (mread (mem io_demo) 100 4) (bytes_at io_demo 1)))" by auto
    then show ?thesis unfolding e(2) io_demo_ent(4) sp by simp
  qed simp
  with w(1,2) show ?thesis by (intro exI [of _ n] exI [of _ s']) simp
qed

text \<open>A character device is a bounded first-in first-out queue: writing appends the bytes that still
  have room and answers their number, reading takes the bytes at the front and answers theirs, and
  both keep the length word within the file.\<close>

theorem chardev_is_queue:
  assumes "fs_readFile (name e) s = Inr (p, s1)" "p \<noteq> 0" "chardev_ok (mem s1) p (fsize e)"
    and "disj buf cnt p (fsize e)" "iocall_ForceAccess s \<or> dev_allows e O_RDONLY s \<and> dev_allows e O_WRONLY s"
  shows "(\<exists>n s'. write_chardev e buf cnt s = Inr (n, s') \<and> chardev_ok (mem s') p (fsize e) \<and>
      n = min cnt (fsize e - 4 - length (queue (mem s1) p)) \<and>
      queue (mem s') p = queue (mem s1) p @ take n (mread (mem s1) buf cnt)) \<and>
    (\<exists>n s'. read_chardev e buf cnt s = Inr (n, s') \<and> chardev_ok (mem s') p (fsize e) \<and>
      n = min cnt (length (queue (mem s1) p)) \<and>
      mread (mem s') buf n = take cnt (queue (mem s1) p) \<and> queue (mem s') p = drop cnt (queue (mem s1) p))"
proof -
  have ok: "4 \<le> fsize e" "fsize e < 4294967296" "rd32 (mem s1) p \<le> fsize e - 4"
    using assms(3) by (simp_all add: chardev_ok_def)
  have len: "length (queue (mem s1) p) = rd32 (mem s1) p" by (simp add: queue_def)
  have room: "sub32 (fsize e) 4 = fsize e - 4" using ok by (simp add: sub32_small)
  have d: "disj buf (0 + cnt) p (4 + (fsize e - 4))" using assms(4) ok by simp
  have rm: "fsize e - 4 < 4294967292" using ok by linarith
  obtain m' where put: "chardev_put (mem s1) p (fsize e - 4) buf 0 cnt 0 = (min cnt (fsize e - 4 - rd32 (mem s1) p), m')"
    "queue m' p = queue (mem s1) p @ take (fsize e - 4 - rd32 (mem s1) p) (mread (mem s1) buf cnt)" "rd32 m' p \<le> fsize e - 4"
    using chardev_put_eq [OF d ok(3) rm, of 0] by auto
  have w: "write_chardev e buf cnt s = Inr (min cnt (fsize e - 4 - rd32 (mem s1) p), s1\<lparr>mem := m'\<rparr>)"
    using assms(1,2,5) put(1) room by (auto simp: write_chardev_def)
  have t: "take (min cnt k) (mread (mem s1) buf cnt) = take k (mread (mem s1) buf cnt)" for k
    by (cases "cnt \<le> k") auto
  obtain m'' where get: "chardev_get (mem s1) p (fsize e) buf cnt = (min cnt (rd32 (mem s1) p), m'')"
    "mread m'' buf (min cnt (rd32 (mem s1) p)) = take cnt (queue (mem s1) p)"
    "queue m'' p = drop cnt (queue (mem s1) p)" "chardev_ok m'' p (fsize e)"
    using chardev_get_eq [OF assms(3,4)] by blast
  have r: "read_chardev e buf cnt s = Inr (min cnt (rd32 (mem s1) p), s1\<lparr>mem := m''\<rparr>)"
    using assms(1,2,5) get(1) by (auto simp: read_chardev_def)
  show ?thesis using w r put(2,3) get(2-4) t ok by (auto simp: len chardev_ok_def)
qed

text \<open>A device file for the witness: \<open>/a\<close> of the sample state as a character device of 16 bytes.\<close>

definition dev_entry :: fs_Entry where
  "dev_entry = (sample_entry (cstr ''/a'') 3 FS_TYPE_FILE)\<lparr>fsize := 16, ftype := FS_TYPE_CHARDEV\<rparr>"

definition dev_demo :: io where
  "dev_demo = io_demo\<lparr>iocall_ForceAccess := True, mem := mwrite (\<lambda>_. 0) 16384 [2, 0, 0, 0, 65, 66]\<rparr>"

theorem chardev_is_queue_witness:
  "\<exists>n s'. read_chardev dev_entry 4096 1 dev_demo = Inr (n, s') \<and> n = 1 \<and> mread (mem s') 4096 1 = [65] \<and>
     queue (mem s') 16384 = [66]"
proof -
  have eq: "fs_EntryV dev_demo = fs_EntryV io_demo" "fs_ent dev_demo = fs_ent io_demo" "fs_InitLock dev_demo = fs_InitLock io_demo"
    "live dev_demo = live io_demo" "mm_inv dev_demo = mm_inv io_demo"
    by (simp_all add: dev_demo_def) (rule live_cong, simp_all, rule mm_inv_cong, simp_all)
  have inv: "fs_inv dev_demo" using fs_inv_cong [OF eq(1,2,4,5,3)] io_demo_inv by simp
  have i: "in_use dev_demo 1" "ent_at dev_demo 1 = sample_entry (cstr ''/a'') 3 FS_TYPE_FILE" "fs_EntryV dev_demo 1 = 12288"
    using io_demo_ent unfolding in_use_def ent_at_def eq by simp_all
  have rd: "fs_readFile (name dev_entry) dev_demo = Inr (16384, stamp 12288 atime_update dev_demo)"
    using readFile_eq [OF inv i(1)] unfolding i(2,3) by (simp add: sample_entry_def dev_entry_def)
  have m: "mem (stamp 12288 atime_update dev_demo) = mwrite (\<lambda>_. 0) 16384 [2, 0, 0, 0, 65, 66]"
    by (simp add: stamp_eq set_ent_def dev_demo_def)
  have n: "rd32 (mwrite (\<lambda>_. 0) 16384 [2, 0, 0, 0, 65, 66]) 16384 = 2" by (simp add: rd32_def mwrite_def)
  have q: "queue (mwrite (\<lambda>_. 0) 16384 [2, 0, 0, 0, 65, 66]) 16384 = [65, 66]"
    unfolding queue_def n by (simp add: mread_def mwrite_def upt_rec)
  have ok: "chardev_ok (mem (stamp 12288 atime_update dev_demo)) 16384 (fsize dev_entry)"
    unfolding m chardev_ok_def n by (simp add: dev_entry_def)
  have dj: "disj 4096 1 16384 (fsize dev_entry)" by (simp add: dev_entry_def disj_def)
  have fa: "iocall_ForceAccess dev_demo" by (simp add: dev_demo_def)
  from chardev_is_queue [OF rd _ ok dj] fa show ?thesis
    unfolding m q by auto
qed

end
