(* ===== verification/Multitask.thy ===== *)
theory Multitask
  imports IoCall
begin

text \<open>
  The multitasking system, \<open>source/kernel/multitask.c\<close>, with the context switch of
  \<open>multitask_swi.s\<close>: 31 process slots that are given the processor in turn. The state \<open>multi\<close>
  extends \<open>io\<close> by the registers of the processor, the process table and the process in focus; slot 0
  stands for the kernel itself, whose registers are kept apart. A process owns one 4096-byte
  region of the heap as its stack. The process table interprets the interface \<open>slot_table\<close>.
\<close>

section \<open>State\<close>

abbreviation (input) MULTITASK_PROCLIMIT :: nat where "MULTITASK_PROCLIMIT \<equiv> 32"
abbreviation (input) MULTITASK_NAMELIMIT :: nat where "MULTITASK_NAMELIMIT \<equiv> 16"
abbreviation (input) MULTITASK_STACKSIZE :: nat where "MULTITASK_STACKSIZE \<equiv> 4096"
abbreviation (input) MULTITASK_PROGMAGIC :: nat where "MULTITASK_PROGMAGIC \<equiv> 0x464C457F"
abbreviation (input) MULTITASK_PROGPTLOAD :: nat where "MULTITASK_PROGPTLOAD \<equiv> 1"
abbreviation (input) sizeof_Proc :: nat where "sizeof_Proc \<equiv> 76"

record multitask_Ctx =
  EAX :: nat
  EBX :: nat
  ECX :: nat
  EDX :: nat
  ESI :: nat
  EDI :: nat
  ESP :: nat
  EBP :: nat
  EIP :: nat
  EFLAGS :: nat
  CR3 :: nat

text \<open>\<open>pname\<close> is the array of 16 bytes, \<open>regs\<close> the member \<open>context\<close>.\<close>

record multitask_Proc =
  pname :: "u8 list"
  regs :: multitask_Ctx
  stack :: addr
  parent :: int
  puser :: int
  pfile :: bool
  freeze :: bool
  active :: bool

text \<open>\<open>cpu\<close> holds the registers of the processor as the caller of \<open>multitask_swi\<close> will find them after
  the call: \<open>EIP\<close> is the return address and \<open>ESP\<close> the stack pointer behind it. \<open>multitask_ProcT\<close> is the
  pointer to the table, \<open>multitask_ProcV\<close> its entries.\<close>

record multi = io +
  cpu :: multitask_Ctx
  multitask_InitLock :: bool
  multitask_InStream :: bool
  multitask_KernelProc :: multitask_Proc
  multitask_Focus :: int
  multitask_ProcT :: addr
  multitask_ProcV :: "multitask_Proc list"
  multitask_DefRegs :: multitask_Ctx

definition zero_ctx :: multitask_Ctx where
  "zero_ctx = \<lparr>EAX = 0, EBX = 0, ECX = 0, EDX = 0, ESI = 0, EDI = 0, ESP = 0, EBP = 0, EIP = 0, EFLAGS = 0, CR3 = 0\<rparr>"

definition zero_proc :: multitask_Proc where
  "zero_proc = \<lparr>pname = replicate 16 0, regs = zero_ctx, stack = 0, parent = 0, puser = 0,
     pfile = False, freeze = False, active = False\<rparr>"

definition with_proc :: "int \<Rightarrow> 'a multi_scheme \<Rightarrow> (multitask_Proc \<Rightarrow> 'b res) \<Rightarrow> 'b res" where
  "with_proc pid s f =
     checkR (0 \<le> pid \<and> pid < int (length (multitask_ProcV s))) OutOfBounds (f (multitask_ProcV s ! nat pid))"

definition set_proc :: "int \<Rightarrow> (multitask_Proc \<Rightarrow> multitask_Proc) \<Rightarrow> 'a multi_scheme \<Rightarrow> 'a multi_scheme" where
  "set_proc pid f s =
     s\<lparr>multitask_ProcV := (multitask_ProcV s)[nat pid := f (multitask_ProcV s ! nat pid)]\<rparr>"

section \<open>Killing and watching processes\<close>

text \<open>\<open>kill\<close> reads the table at \<open>pid\<close> before it compares \<open>pid\<close> with the bounds.\<close>

definition kill_entry :: "multitask_Proc \<Rightarrow> multitask_Proc" where
  "kill_entry p = p\<lparr>pname := replicate MULTITASK_NAMELIMIT 0, regs := zero_ctx, active := False\<rparr>"

definition kill :: "int \<Rightarrow> 'a multi_scheme \<Rightarrow> (int \<times> 'a multi_scheme) res" where
  "kill pid s =
     (if \<not> multitask_InitLock s then Inr (-1, s)
      else with_proc pid s (\<lambda>p.
        if \<not> active p \<or> pid \<le> 0 \<or> pid \<ge> int MULTITASK_PROCLIMIT then Inr (-1, s)
        else bindR (Memory.free (stack p) s) (\<lambda>s1. Inr (0, set_proc pid kill_entry s1))))"

text \<open>The registers the sentry looks at are those saved at the last switch.\<close>

definition stack_fault :: "multitask_Proc \<Rightarrow> string option" where
  "stack_fault p =
     (if ESP (regs p) \<le> stack p then Some ''stack explosion''
      else if ESP (regs p) > wrap32 (stack p + MULTITASK_STACKSIZE) then Some ''stack implosion''
      else None)"

definition sentry_info :: "string \<Rightarrow> int \<Rightarrow> multitask_Proc \<Rightarrow> string \<Rightarrow> 'a multi_scheme \<Rightarrow> 'a multi_scheme res" where
  "sentry_info fmt pid proc reason s =
     INFO ''sentry'' fmt [W (of_int pid), S (c_string (pname proc)), S (cstr reason)] s"

definition sentry :: "int \<Rightarrow> 'a multi_scheme \<Rightarrow> 'a multi_scheme res" where
  "sentry pid s =
     (if \<not> multitask_InitLock s \<or> pid < 1 \<or> pid \<ge> int MULTITASK_PROCLIMIT then Inr s
      else with_proc pid s (\<lambda>proc.
        if \<not> active proc then Inr s
        else case stack_fault proc of
            None \<Rightarrow> Inr s
          | Some reason \<Rightarrow> bindR (kill pid s)
              (\<lambda>(sts, s1). if sts \<noteq> -1
                 then sentry_info ''Process %d (%s) killed - %s'' pid proc reason s1
                 else sentry_info ''Undying process %d (%s) freezed - %s'' pid proc reason
                        (set_proc pid (freeze_update (\<lambda>_. True)) s1))))"

section \<open>Starting processes\<close>

text \<open>The name array: filled with NUL, then the given name, cut to 15 bytes.\<close>

definition proc_name :: "cstring option \<Rightarrow> u8 list" where
  "proc_name nm =
     (let t = (case nm of Some n \<Rightarrow> (if length n < MULTITASK_NAMELIMIT then n else take (MULTITASK_NAMELIMIT - 1) n)
                        | None \<Rightarrow> cstr ''[Unknown]'')
      in t @ replicate (MULTITASK_NAMELIMIT - length t) 0)"

definition new_proc :: "cstring option \<Rightarrow> addr \<Rightarrow> addr \<Rightarrow> multitask_Ctx \<Rightarrow> multitask_Proc \<Rightarrow> multitask_Proc" where
  "new_proc nm prog stk defregs p =
     p\<lparr>stack := stk, pname := proc_name nm, parent := 0,
       regs := (regs p)\<lparr>EAX := 0, EBX := 0, ECX := 0, EDX := 0, ESI := 0, EDI := 0,
          EFLAGS := EFLAGS defregs, EIP := prog, CR3 := CR3 defregs,
          ESP := wrap32 (stk + MULTITASK_STACKSIZE)\<rparr>,
       freeze := False, active := True, pfile := False\<rparr>"

definition spawn :: "cstring option \<Rightarrow> addr \<Rightarrow> 'a multi_scheme \<Rightarrow> (int \<times> 'a multi_scheme) res" where
  "spawn nm prog s =
     (if \<not> multitask_InitLock s \<or> prog = 0 then Inr (-1, s)
      else case scan (\<lambda>i. \<not> active (multitask_ProcV s ! i)) 1 MULTITASK_PROCLIMIT of
          None \<Rightarrow> Inr (-1, s)
        | Some pid \<Rightarrow> bindR (malloc MULTITASK_STACKSIZE s)
            (\<lambda>(stk, s1). if stk = 0 then Inr (-1, set_proc (int pid) (stack_update (\<lambda>_. 0)) s1)
               else Inr (int pid, set_proc (int pid) (new_proc nm prog stk (multitask_DefRegs s1)) s1)))"

section \<open>Program files\<close>

record multitask_ProgELF32EH =
  e_ident :: "u8 list"
  e_type :: nat
  e_machine :: nat
  e_version :: nat
  e_entry :: nat
  e_phoff :: nat
  e_shoff :: nat
  e_flags :: nat
  e_ehsize :: nat
  e_phentsize :: nat
  e_phnum :: nat
  e_shentsize :: nat
  e_shnum :: nat
  e_shstrndx :: nat

definition read_eh :: "mem \<Rightarrow> addr \<Rightarrow> multitask_ProgELF32EH" where
  "read_eh m a = \<lparr>e_ident = mread m a 16, e_type = rd16 m (a + 16), e_machine = rd16 m (a + 18),
     e_version = rd32 m (a + 20), e_entry = rd32 m (a + 24), e_phoff = rd32 m (a + 28),
     e_shoff = rd32 m (a + 32), e_flags = rd32 m (a + 36), e_ehsize = rd16 m (a + 40),
     e_phentsize = rd16 m (a + 42), e_phnum = rd16 m (a + 44), e_shentsize = rd16 m (a + 46),
     e_shnum = rd16 m (a + 48), e_shstrndx = rd16 m (a + 50)\<rparr>"

record multitask_ProgELF32PH =
  p_type :: nat
  p_offset :: nat
  p_vaddr :: nat
  p_paddr :: nat
  p_filesz :: nat
  p_memsz :: nat
  p_flags :: nat
  p_align :: nat

definition read_ph :: "mem \<Rightarrow> addr \<Rightarrow> multitask_ProgELF32PH" where
  "read_ph m a = \<lparr>p_type = rd32 m a, p_offset = rd32 m (a + 4), p_vaddr = rd32 m (a + 8),
     p_paddr = rd32 m (a + 12), p_filesz = rd32 m (a + 16), p_memsz = rd32 m (a + 20),
     p_flags = rd32 m (a + 24), p_align = rd32 m (a + 28)\<rparr>"

text \<open>Program header \<open>i\<close> of the file at \<open>data\<close>, whose table is at the offset \<open>phoff\<close>.\<close>

definition ph_at :: "mem \<Rightarrow> addr \<Rightarrow> nat \<Rightarrow> nat \<Rightarrow> multitask_ProgELF32PH" where
  "ph_at m data phoff i = read_ph m (wrap32 (data + phoff + 32 * i))"

text \<open>The first loop of \<open>exec\<close>: the span of addresses of the loadable segments.\<close>

definition widen :: "multitask_ProgELF32PH \<Rightarrow> nat \<times> nat \<Rightarrow> nat \<times> nat" where
  "widen ph span =
     (if p_type ph \<noteq> MULTITASK_PROGPTLOAD then span
      else let (min_vaddr, max_vaddr) = span;
               seg_start = p_vaddr ph;
               seg_end = wrap32 (p_vaddr ph + p_memsz ph)
           in (if seg_start < min_vaddr then seg_start else min_vaddr,
               if seg_end > max_vaddr then seg_end else max_vaddr))"

fun seg_span :: "mem \<Rightarrow> addr \<Rightarrow> nat \<Rightarrow> nat \<Rightarrow> nat \<times> nat" where
  "seg_span m data phoff 0 = (0xffffffff, 0)"
| "seg_span m data phoff (Suc i) = widen (ph_at m data phoff i) (seg_span m data phoff i)"

definition image_span :: "mem \<Rightarrow> addr \<Rightarrow> nat \<times> nat" where
  "image_span m data =
     (let eh = read_eh m data;
          (min_vaddr, max_vaddr) = seg_span m data (e_phoff eh) (e_phnum eh)
      in (align_down min_vaddr, align_down (wrap32 (max_vaddr + MEMORY_BLKSIZE - 1))))"

text \<open>The second loop: one segment is copied and its tail cleared; the headers are read again from
  memory in every round.\<close>

definition load_seg :: "mem \<Rightarrow> addr \<Rightarrow> addr \<Rightarrow> nat \<Rightarrow> multitask_ProgELF32PH \<Rightarrow> mem" where
  "load_seg m data base min_vaddr ph =
     (let src = wrap32 (data + p_offset ph);
          dst = sub32 (wrap32 (base + p_vaddr ph)) min_vaddr;
          m1 = ncopy m dst src (p_filesz ph)
      in fill m1 (wrap32 (dst + p_filesz ph)) 0 (sub32 (p_memsz ph) (p_filesz ph)))"

function load_segs :: "mem \<Rightarrow> addr \<Rightarrow> nat \<Rightarrow> addr \<Rightarrow> nat \<Rightarrow> nat \<Rightarrow> mem" where
  "load_segs m data phoff base min_vaddr i =
     (if i < e_phnum (read_eh m data) then
        let ph = ph_at m data phoff i in
        load_segs (if p_type ph \<noteq> MULTITASK_PROGPTLOAD then m else load_seg m data base min_vaddr ph)
          data phoff base min_vaddr (Suc i)
      else m)"
  by pat_completeness auto
termination
proof (relation "measure (\<lambda>(m, data, phoff, base, min_vaddr, i). 65536 - i)", goal_cases)
  case (2 m data phoff base min_vaddr i x)
  then have "i < 65536" using rd16_less [of m "data + 44"] by (simp add: read_eh_def)
  then show ?case by simp
qed simp

declare load_segs.simps [simp del]

text \<open>\<open>exec\<close> from the point where the file is known to be a program.\<close>

definition exec_image :: "cstring \<Rightarrow> addr \<Rightarrow> 'a multi_scheme \<Rightarrow> (int \<times> 'a multi_scheme) res" where
  "exec_image path data s =
     (let (min_vaddr, max_vaddr) = image_span (mem s) data;
          phoff = e_phoff (read_eh (mem s) data)
      in bindR (malloc (sub32 max_vaddr min_vaddr) s)
        (\<lambda>(base, s1). if base = 0 then Inr (-1, s1)
           else let m = load_segs (mem s1) data phoff base min_vaddr 0;
                    entry = wrap32 (base + e_entry (read_eh m data))
                in bindR (spawn (Some path) entry (s1\<lparr>mem := m\<rparr>))
                  (\<lambda>(pid, s2). if pid = -1 then bindR (Memory.free base s2) (\<lambda>s3. Inr (-1, s3))
                     else Inr (pid, set_proc pid (pfile_update (\<lambda>_. True)) s2))))"

definition exec :: "cstring \<Rightarrow> 'a multi_scheme \<Rightarrow> (int \<times> 'a multi_scheme) res" where
  "exec path s =
     (if \<not> multitask_InitLock s \<or> path = [] then Inr (-1, s)
      else if fs_stat path s = 0 then Inr (-1, s)
      else bindR (fs_readFile path s)
        (\<lambda>(data, s1). if data = 0 then Inr (-1, s1)
           else if rd32 (mem s1) data \<noteq> MULTITASK_PROGMAGIC then Inr (-1, s1)
           else exec_image path data s1))"

section \<open>Switching\<close>

text \<open>\<open>multitask_swi\<close>: save the registers in one context, load them from the other. The \<open>EIP\<close> of the
  next context is put below its stack pointer, from where the final \<open>ret\<close> takes it. The eleven words the
  assembly pushes below the stack pointer of the old context while it moves the registers are dead
  once it has returned, and are not written here.\<close>

definition ctx_of :: "int \<Rightarrow> 'a multi_scheme \<Rightarrow> multitask_Ctx" where
  "ctx_of pid s = (if pid \<noteq> 0 then regs (multitask_ProcV s ! nat pid) else regs (multitask_KernelProc s))"

definition set_ctx :: "int \<Rightarrow> multitask_Ctx \<Rightarrow> 'a multi_scheme \<Rightarrow> 'a multi_scheme" where
  "set_ctx pid c s =
     (if pid \<noteq> 0 then set_proc pid (regs_update (\<lambda>_. c)) s
      else s\<lparr>multitask_KernelProc := (multitask_KernelProc s)\<lparr>regs := c\<rparr>\<rparr>)"

definition multitask_swi :: "int \<Rightarrow> int \<Rightarrow> 'a multi_scheme \<Rightarrow> 'a multi_scheme" where
  "multitask_swi old new s =
     (let s1 = set_ctx old (cpu s) s;
          c = ctx_of new s1
      in s1\<lparr>mem := wr32 (mem s1) (sub32 (ESP c) 4) (EIP c), cpu := c\<rparr>)"

definition runnable :: "multitask_Proc \<Rightarrow> bool" where
  "runnable p \<longleftrightarrow> active p \<and> \<not> freeze p"

text \<open>Both search loops of \<open>yield\<close>: with the kernel in focus they start at slot 1.\<close>

definition next_proc :: "int \<Rightarrow> 'a multi_scheme \<Rightarrow> nat option" where
  "next_proc focus s =
     scan (\<lambda>i. runnable (multitask_ProcV s ! i)) (if focus = 0 then 1 else nat focus + 1) MULTITASK_PROCLIMIT"

definition clamp_focus :: "'a multi_scheme \<Rightarrow> 'a multi_scheme" where
  "clamp_focus s =
     (if multitask_Focus s < 0 \<or> multitask_Focus s \<ge> int MULTITASK_PROCLIMIT then s\<lparr>multitask_Focus := 0\<rparr> else s)"

definition switch_next :: "'a multi_scheme \<Rightarrow> 'a multi_scheme res" where
  "switch_next s =
     (let old = multitask_Focus s;
          new = (case next_proc old s of Some i \<Rightarrow> int i | None \<Rightarrow> 0)
      in if old = 0 \<and> new = 0 then Inl (Panic ''No processes to execute'')
         else if old = new then Inr s
         else Inr (multitask_swi old new (s\<lparr>multitask_Focus := new\<rparr>)))"

definition yield :: "'a multi_scheme \<Rightarrow> 'a multi_scheme res" where
  "yield s =
     (if \<not> multitask_InitLock s then Inr s
      else let s1 = clamp_focus (s\<lparr>multitask_InStream := True\<rparr>)
           in bindR (sentry (multitask_Focus s1) s1) switch_next)"

text \<open>The waiting loops of the kernel contain \<open>if (multitask_InStream) yield()\<close>. If the call switches, it returns
  when the scheduler has come back to the caller: \<open>others\<close> is what the other contexts do from the switch until then. It is a
  parameter, and may change anything, fault or never come back.\<close>

definition in_stream :: "('a multi_scheme \<Rightarrow> 'a multi_scheme res) \<Rightarrow> 'a multi_scheme \<Rightarrow> 'a multi_scheme res" where
  "in_stream others s =
     (if \<not> multitask_InStream s then Inr s
      else bindR (yield s)
        (\<lambda>s1. if multitask_Focus s1 = multitask_Focus (clamp_focus s) \<or> \<not> multitask_InitLock s then Inr s1 else others s1))"

lemma in_stream_off [simp]: "\<not> multitask_InStream s \<Longrightarrow> in_stream others s = Inr s"
  by (simp add: in_stream_def)

definition exit_proc :: "'a multi_scheme \<Rightarrow> 'a multi_scheme res" where
  "exit_proc s =
     (let s1 = clamp_focus s in
      if \<not> multitask_InitLock s1 \<or> multitask_Focus s1 = 0 \<or> \<not> multitask_InStream s1 then Inr s1
      else bindR (kill (multitask_Focus s1) s1) (\<lambda>(_, s2). yield s2))"

text \<open>\<open>cr3\<close> and \<open>eflags\<close> are the registers the initializer reads from the processor.\<close>

definition multitask_init :: "nat \<Rightarrow> nat \<Rightarrow> 'a multi_scheme \<Rightarrow> 'a multi_scheme res" where
  "multitask_init cr3 eflags s =
     (if multitask_InitLock s then Inr s
      else bindR (malloc (MULTITASK_PROCLIMIT * sizeof_Proc) s)
        (\<lambda>(p, s1). if p = 0 then Inl (Panic ''Out of memory'')
           else Inr (s1\<lparr>multitask_ProcT := p, multitask_ProcV := replicate MULTITASK_PROCLIMIT zero_proc,
                     multitask_DefRegs := (multitask_DefRegs s1)\<lparr>CR3 := cr3, EFLAGS := eflags\<rparr>,
                     multitask_InitLock := True\<rparr>)))"

section \<open>The invariant of the process table\<close>

text \<open>\<open>pstack s i\<close> is the stack of process \<open>i\<close>.\<close>

definition pstack :: "'a multi_scheme \<Rightarrow> nat \<Rightarrow> addr option" where
  "pstack s i =
     (if 1 \<le> i \<and> i < MULTITASK_PROCLIMIT \<and> active (multitask_ProcV s ! i) then Some (stack (multitask_ProcV s ! i))
      else None)"

definition task_inv :: "'a multi_scheme \<Rightarrow> bool" where
  "task_inv s \<longleftrightarrow> multitask_InitLock s \<and> length (multitask_ProcV s) = MULTITASK_PROCLIMIT \<and> fs_inv s \<and>
     0 < memory_BlockC s \<and>
     (\<forall>i st. pstack s i = Some st \<longrightarrow> spare s st MULTITASK_STACKSIZE) \<and>
     (\<forall>i j st. pstack s i = Some st \<longrightarrow> pstack s j = Some st \<longrightarrow> i = j)"

lemma task_invD:
  assumes "task_inv s"
  shows "multitask_InitLock s" "length (multitask_ProcV s) = 32" "fs_inv s"
    "pstack s i = Some st \<Longrightarrow> spare s st 4096"
    "pstack s i = Some st \<Longrightarrow> pstack s j = Some st \<Longrightarrow> i = j" "fits s 4096"
  using assms by (auto simp: task_inv_def fits_def)

lemma task_blocks: "task_inv s \<Longrightarrow> 0 < memory_BlockC s"
  by (simp add: task_inv_def)

text \<open>Two states with the same heap and the same file system.\<close>

definition same_heap :: "'a fs_scheme \<Rightarrow> 'a fs_scheme \<Rightarrow> bool" where
  "same_heap s t \<longleftrightarrow> fs_EntryV s = fs_EntryV t \<and> fs_ent s = fs_ent t \<and> live s = live t \<and> mm_inv s = mm_inv t \<and>
     fs_InitLock s = fs_InitLock t \<and> memory_BlockC s = memory_BlockC t"

lemma same_heapD:
  assumes "same_heap s t"
  shows "fs_inv s = fs_inv t" "spare s r k = spare t r k" "in_use s = in_use t" "memory_BlockC s = memory_BlockC t"
  using assms fs_inv_cong [of s t] by (auto simp: same_heap_def spare_def in_use_def fun_eq_iff)

lemma same_heapI:
  "fs_EntryV s = fs_EntryV t \<Longrightarrow> fs_ent s = fs_ent t \<Longrightarrow> fs_InitLock s = fs_InitLock t \<Longrightarrow>
   memory_InitLock s = memory_InitLock t \<Longrightarrow> memory_Space s = memory_Space t \<Longrightarrow> memory_Limit s = memory_Limit t \<Longrightarrow>
   memory_BlockV s = memory_BlockV t \<Longrightarrow> memory_BlockC s = memory_BlockC t \<Longrightarrow> same_heap s t"
  unfolding same_heap_def using live_cong [of s t] mm_inv_cong [of s t] by blast

lemma task_inv_same:
  assumes "task_inv s" "same_heap s' s" "multitask_InitLock s'" "length (multitask_ProcV s') = 32"
    and "\<And>i. pstack s' i = pstack s i"
  shows "task_inv s'"
  using assms(1,3-5) same_heapD [OF assms(2)] by (simp add: task_inv_def)

lemma set_proc_simps [simp]:
  "length (multitask_ProcV (set_proc i f s)) = length (multitask_ProcV s)"
  "multitask_InitLock (set_proc i f s) = multitask_InitLock s"
  "multitask_Focus (set_proc i f s) = multitask_Focus s" "cpu (set_proc i f s) = cpu s"
  "multitask_KernelProc (set_proc i f s) = multitask_KernelProc s" "mem (set_proc i f s) = mem s"
  "nat i < length (multitask_ProcV s) \<Longrightarrow> multitask_ProcV (set_proc i f s) ! j =
     (if j = nat i then f (multitask_ProcV s ! j) else multitask_ProcV s ! j)"
  by (auto simp: set_proc_def nth_list_update)

lemma set_proc_heap: "same_heap (set_proc i f s) s"
  by (rule same_heapI) (simp_all add: set_proc_def)

lemmas set_proc_fs [simp] = same_heapD [OF set_proc_heap]

lemma set_proc_live [simp]: "live (set_proc i f s) = live s"
  using set_proc_heap [of i f s] by (simp add: same_heap_def)

lemma pstack_set_proc:
  "nat i < length (multitask_ProcV s) \<Longrightarrow> active (f (multitask_ProcV s ! nat i)) = active (multitask_ProcV s ! nat i) \<Longrightarrow>
   stack (f (multitask_ProcV s ! nat i)) = stack (multitask_ProcV s ! nat i) \<Longrightarrow> pstack (set_proc i f s) = pstack s"
  by (auto simp: pstack_def fun_eq_iff)

lemma task_inv_set_proc:
  "task_inv s \<Longrightarrow> nat i < 32 \<Longrightarrow> active (f (multitask_ProcV s ! nat i)) = active (multitask_ProcV s ! nat i) \<Longrightarrow>
   stack (f (multitask_ProcV s ! nat i)) = stack (multitask_ProcV s ! nat i) \<Longrightarrow> task_inv (set_proc i f s)"
  using task_inv_same [OF _ set_proc_heap, of s i f] by (simp add: task_invD pstack_set_proc)

text \<open>Fields that neither the heap nor the table depends on.\<close>

lemma task_inv_frame [simp]:
  "task_inv (s\<lparr>cpu := c\<rparr>) = task_inv s" "task_inv (s\<lparr>multitask_Focus := n\<rparr>) = task_inv s"
  "task_inv (s\<lparr>multitask_InStream := b\<rparr>) = task_inv s" "task_inv (s\<lparr>multitask_KernelProc := p\<rparr>) = task_inv s"
  "task_inv (s\<lparr>tty := t\<rparr>) = task_inv s" "task_inv (s\<lparr>mem := m\<rparr>) = task_inv s"
proof -
  have c: "task_inv s' = task_inv s" if "same_heap s' s" "multitask_InitLock s' = multitask_InitLock s"
    "multitask_ProcV s' = multitask_ProcV s" for s' :: "'a multi_scheme"
  proof -
    have "pstack s' = pstack s" using that(3) by (simp add: pstack_def fun_eq_iff)
    with that same_heapD [OF that(1)] show ?thesis by (simp add: task_inv_def)
  qed
  show "task_inv (s\<lparr>cpu := c\<rparr>) = task_inv s" "task_inv (s\<lparr>multitask_Focus := n\<rparr>) = task_inv s"
    "task_inv (s\<lparr>multitask_InStream := b\<rparr>) = task_inv s" "task_inv (s\<lparr>multitask_KernelProc := p\<rparr>) = task_inv s"
    "task_inv (s\<lparr>tty := t\<rparr>) = task_inv s" "task_inv (s\<lparr>mem := m\<rparr>) = task_inv s"
    by (rule c; (rule same_heapI)?; simp)+
qed

section \<open>Killing\<close>

lemma free_stack:
  assumes inv: "task_inv s" and i: "pstack s i = Some st"
  shows "\<exists>V. Memory.free st s = Inr (s\<lparr>memory_BlockV := V\<rparr>) \<and> fs_inv (s\<lparr>memory_BlockV := V\<rparr>) \<and>
    live (s\<lparr>memory_BlockV := V\<rparr>) = (live s)(st := None) \<and> (fs_view (s\<lparr>memory_BlockV := V\<rparr>) = fs_view s)"
proof -
  have sp: "spare s st 4096" by (rule task_invD(4) [OF inv i])
  then have l: "live s st = Some 4096" by (simp add: spare_def)
  from free_live [OF fs_invD(1) [OF task_invD(3) [OF inv]] l] free_spare [OF task_invD(3) [OF inv] sp]
  show ?thesis by auto
qed

lemma kill_refused:
  "task_inv s \<Longrightarrow> 0 \<le> pid \<Longrightarrow> pid < 32 \<Longrightarrow> pstack s (nat pid) = None \<Longrightarrow> kill pid s = Inr (-1, s)"
  by (auto simp: kill_def with_proc_def task_invD pstack_def split: if_splits)

lemma kill_eq:
  assumes inv: "task_inv s" and i: "pstack s i = Some st"
  shows "\<exists>s'. kill (int i) s = Inr (0, s') \<and> task_inv s' \<and> live s' = (live s)(st := None) \<and>
    pstack s' = (pstack s)(i := None) \<and> fs_view s' = fs_view s \<and>
    (\<exists>V. s' = set_proc (int i) kill_entry (s\<lparr>memory_BlockV := V\<rparr>))"
proof -
  have i': "1 \<le> i" "i < 32" "active (multitask_ProcV s ! i)" "stack (multitask_ProcV s ! i) = st"
    using i by (auto simp: pstack_def split: if_splits)
  from free_stack [OF assms] obtain V where V: "Memory.free st s = Inr (s\<lparr>memory_BlockV := V\<rparr>)"
    "fs_inv (s\<lparr>memory_BlockV := V\<rparr>)" "live (s\<lparr>memory_BlockV := V\<rparr>) = (live s)(st := None)"
    "fs_view (s\<lparr>memory_BlockV := V\<rparr>) = fs_view s" by blast
  let ?s = "set_proc (int i) kill_entry (s\<lparr>memory_BlockV := V\<rparr>)"
  have k: "kill (int i) s = Inr (0, ?s)"
    using i' V(1) task_invD(1,2) [OF inv] by (simp add: kill_def with_proc_def)
  have ps: "pstack ?s = (pstack s)(i := None)"
    using i' task_invD(2) [OF inv] by (auto simp: pstack_def kill_entry_def fun_eq_iff)
  have sp: "spare ?s r 4096" if "pstack s j = Some r" "j \<noteq> i" for j r
  proof -
    have "r \<noteq> st" using task_invD(5) [OF inv that(1), of i] i that(2) by auto
    then have "spare (s\<lparr>memory_BlockV := V\<rparr>) r 4096"
      using task_invD(4) [OF inv that(1)] V(3) by (simp add: spare_def in_use_def)
    then show ?thesis by simp
  qed
  have "task_inv ?s"
    unfolding task_inv_def ps
    using V(2) sp task_invD(1,2) [OF inv] task_blocks [OF inv] task_invD(5) [OF inv] by (auto split: if_splits)
  moreover have "fs_view ?s = fs_view (s\<lparr>memory_BlockV := V\<rparr>)" by (rule fs_view_cong) (simp_all add: set_proc_def)
  ultimately show ?thesis using k ps V by auto
qed

section \<open>Starting\<close>

lemma length_proc_name: "length (proc_name nm) = 16"
  by (auto simp: proc_name_def Let_def cstr_def split: option.splits)

text \<open>The slot \<open>spawn\<close> chooses, and the possible outcomes.\<close>

definition proc_slot :: "'a multi_scheme \<Rightarrow> nat option" where
  "proc_slot s = scan (\<lambda>i. \<not> active (multitask_ProcV s ! i)) 1 MULTITASK_PROCLIMIT"

lemma proc_slot_Some: "proc_slot s = Some i \<Longrightarrow> 1 \<le> i \<and> i < 32 \<and> pstack s i = None \<and>
    (\<forall>j. 1 \<le> j \<and> j < i \<longrightarrow> pstack s j \<noteq> None)"
  by (auto simp: proc_slot_def scan_Some_iff pstack_def)

lemma proc_slot_None: "proc_slot s = None \<longleftrightarrow> (\<forall>i. 1 \<le> i \<and> i < 32 \<longrightarrow> pstack s i \<noteq> None)"
  by (auto simp: proc_slot_def scan_None_iff pstack_def)

lemma spawn_eq:
  assumes inv: "task_inv s" and room: "fits s MULTITASK_STACKSIZE" and prog: "prog \<noteq> 0"
  obtains (full) "proc_slot s = None" "spawn nm prog s = Inr (-1, s)"
  | (no_memory) i where "proc_slot s = Some i" "malloc MULTITASK_STACKSIZE s = Inr (0, s)"
      "spawn nm prog s = Inr (-1, set_proc (int i) (stack_update (\<lambda>_. 0)) s)"
  | (started) i st s1 where "proc_slot s = Some i" "malloc MULTITASK_STACKSIZE s = Inr (st, s1)" "st \<noteq> 0"
      "spawn nm prog s = Inr (int i, set_proc (int i) (new_proc nm prog st (multitask_DefRegs s)) s1)"
proof (cases "proc_slot s")
  case None
  then show ?thesis using full inv prog by (simp add: spawn_def proc_slot_def task_invD)
next
  case (Some i)
  obtain st s1 where m: "malloc MULTITASK_STACKSIZE s = Inr (st, s1)"
    using malloc_total [OF fs_invD(1) [OF task_invD(3) [OF inv]] room] by blast
  have s1: "multitask_DefRegs s1 = multitask_DefRegs s" using malloc_frame [OF m] by auto
  show ?thesis
  proof (cases "st = 0")
    case True
    with malloc_null(1) [OF fs_invD(1) [OF task_invD(3) [OF inv]] room] m have "s1 = s" by simp
    then show ?thesis using no_memory [OF Some] m True Some inv prog
      by (simp add: spawn_def proc_slot_def task_invD)
  next
    case False
    then show ?thesis using started [OF Some m] m Some inv prog s1
      by (simp add: spawn_def proc_slot_def task_invD)
  qed
qed

text \<open>A region that belongs to neither an entry nor a process comes and goes freely.\<close>

definition loose :: "'a multi_scheme \<Rightarrow> addr \<Rightarrow> nat \<Rightarrow> bool" where
  "loose s r k \<longleftrightarrow> spare s r k \<and> (\<forall>i. pstack s i \<noteq> Some r)"

lemma task_malloc:
  assumes inv: "task_inv s" and room: "fits s n" and m: "malloc n s = Inr (p, s1)" "p \<noteq> 0"
  shows "task_inv s1" "pstack s1 = pstack s" "loose s1 p (nblocks n * MEMORY_BLKSIZE)" "fs_view s1 = fs_view s"
    "live s p = None" "live s1 = (live s)(p \<mapsto> nblocks n * MEMORY_BLKSIZE)" "loose s r k \<Longrightarrow> loose s1 r k"
proof -
  note fs = task_invD(3) [OF inv] note mm = fs_invD(1) [OF fs]
  note ml = malloc_live [OF mm room m]
  from malloc_frame [OF m(1)] obtain V where V: "s1 = s\<lparr>memory_BlockV := V\<rparr>" by blast
  show "live s p = None" "live s1 = (live s)(p \<mapsto> nblocks n * MEMORY_BLKSIZE)" by (rule ml(1,2))+
  show ps: "pstack s1 = pstack s" by (simp add: V pstack_def fun_eq_iff)
  have ent: "fs_EntryV s j \<noteq> p" if "in_use s j" for j using in_use_live [OF fs that] ml(1) by auto
  have fs1: "fs_inv s1 \<and> fs_view s1 = fs_view s"
    by (rule fs_heap_change [OF fs ml(3)]) (use ent ml(2) V in auto)
  then show "fs_view s1 = fs_view s" by simp
  have keep: "spare s1 r k" if "spare s r k" for r k
  proof -
    have "r \<noteq> p" using that ml(1) by (auto simp: spare_def)
    with that show ?thesis using ml(2) by (simp add: spare_def in_use_def V)
  qed
  have st: "r \<noteq> p" if "pstack s j = Some r" for j r
    using task_invD(4) [OF inv that] ml(1) by (auto simp: spare_def)
  show "task_inv s1"
    unfolding task_inv_def ps using fs1 keep inv V by (auto simp: task_inv_def)
  have "in_use s1 = in_use s" "fs_EntryV s1 = fs_EntryV s" by (simp_all add: V in_use_def fun_eq_iff)
  then show "loose s1 p (nblocks n * MEMORY_BLKSIZE)"
    unfolding loose_def spare_def ps ml(2) using ent st by auto
  show "loose s r k \<Longrightarrow> loose s1 r k" using keep by (simp add: loose_def ps)
qed

lemma task_free:
  assumes inv: "task_inv s" and r: "loose s r k"
  shows "\<exists>V. Memory.free r s = Inr (s\<lparr>memory_BlockV := V\<rparr>) \<and> task_inv (s\<lparr>memory_BlockV := V\<rparr>)"
proof -
  have l: "spare s r k" "live s r = Some k" using r by (simp_all add: loose_def spare_def)
  note fs = task_invD(3) [OF inv]
  from free_live [OF fs_invD(1) [OF fs] l(2)] free_spare [OF fs l(1)] obtain V where
    V: "Memory.free r s = Inr (s\<lparr>memory_BlockV := V\<rparr>)" "fs_inv (s\<lparr>memory_BlockV := V\<rparr>)"
      "live (s\<lparr>memory_BlockV := V\<rparr>) = (live s)(r := None)" by auto
  have ps: "pstack (s\<lparr>memory_BlockV := V\<rparr>) = pstack s" by (simp add: pstack_def fun_eq_iff)
  have "spare (s\<lparr>memory_BlockV := V\<rparr>) st 4096" if "pstack s j = Some st" for j st
    using task_invD(4) [OF inv that] that r V(3) by (auto simp: loose_def spare_def in_use_def)
  then have "task_inv (s\<lparr>memory_BlockV := V\<rparr>)"
    unfolding task_inv_def ps using V(2) inv by (auto simp: task_inv_def)
  with V(1) show ?thesis by blast
qed

lemma started_inv:
  assumes inv: "task_inv s" and room: "fits s MULTITASK_STACKSIZE" and i: "proc_slot s = Some i"
    and m: "malloc MULTITASK_STACKSIZE s = Inr (st, s1)" "st \<noteq> 0"
    and s'_def: "s' = set_proc (int i) (new_proc nm prog st (multitask_DefRegs s)) s1"
  shows "task_inv s'" "pstack s' = (pstack s)(i \<mapsto> st)" "live s st = None" "live s' = (live s)(st \<mapsto> 4096)"
    "fs_view s' = fs_view s" "multitask_ProcV s' ! i = new_proc nm prog st (multitask_DefRegs s) (multitask_ProcV s ! i)"
proof -
  note tm = task_malloc [OF inv room m]
  from malloc_frame [OF m(1)] obtain V where V: "s1 = s\<lparr>memory_BlockV := V\<rparr>" by blast
  have i': "1 \<le> i" "i < 32" using proc_slot_Some [OF i] by auto
  have nb: "nblocks 4096 * 4096 = 4096" by (simp add: nblocks_def)
  show "live s st = None" by (rule tm(5))
  show "live s' = (live s)(st \<mapsto> 4096)" using tm(6) nb by (simp add: s'_def)
  have len: "length (multitask_ProcV s1) = 32" by (rule task_invD(2) [OF tm(1)])
  show "multitask_ProcV s' ! i = new_proc nm prog st (multitask_DefRegs s) (multitask_ProcV s ! i)"
    using len i' V by (simp add: s'_def)
  have "pstack s' = (pstack s1)(i \<mapsto> st)"
    using i' len by (auto simp: s'_def pstack_def new_proc_def fun_eq_iff)
  then show ps: "pstack s' = (pstack s)(i \<mapsto> st)" by (simp only: tm(2))
  have "fs_view s' = fs_view s1" unfolding s'_def by (rule fs_view_cong) (simp_all add: set_proc_def)
  with tm(4) show "fs_view s' = fs_view s" by simp
  have sp: "spare s' = spare s1" by (simp add: s'_def fun_eq_iff)
  have st: "spare s1 st 4096" "\<And>j. pstack s j \<noteq> Some st" using tm(3) tm(2) nb by (simp_all add: loose_def)
  have old: "spare s1 r 4096" if "pstack s j = Some r" for j r
    using task_invD(4) [OF tm(1)] that unfolding tm(2) by blast
  have uniq: "j = k" if "pstack s j = Some r" "pstack s k = Some r" for j k r
    using task_invD(5) [OF inv that] .
  show "task_inv s'"
    unfolding task_inv_def ps sp using st old uniq len task_invD(1,3) [OF tm(1)] task_blocks [OF tm(1)] by (auto simp: s'_def)
qed

lemma no_memory_inv: "task_inv s \<Longrightarrow> proc_slot s = Some i \<Longrightarrow> task_inv (set_proc (int i) (stack_update (\<lambda>_. 0)) s) \<and>
    pstack (set_proc (int i) (stack_update (\<lambda>_. 0)) s) = pstack s"
proof -
  assume inv: "task_inv s" and i: "proc_slot s = Some i"
  have ps: "pstack (set_proc (int i) (stack_update (\<lambda>_. 0)) s) = pstack s"
    using proc_slot_Some [OF i] task_invD(2) [OF inv] by (auto simp: pstack_def fun_eq_iff)
  then have "task_inv (set_proc (int i) (stack_update (\<lambda>_. 0)) s)"
    using task_inv_same [OF inv set_proc_heap, of "int i" "stack_update (\<lambda>_. 0)"] task_invD(1,2) [OF inv] by simp
  with ps show ?thesis by blast
qed

lemma spawn_inv: "task_inv s \<Longrightarrow> fits s 4096 \<Longrightarrow> spawn nm prog s = Inr (pid, s') \<Longrightarrow> task_inv s'"
proof -
  assume inv: "task_inv s" and room: "fits s 4096" and sp: "spawn nm prog s = Inr (pid, s')"
  show ?thesis
  proof (cases "prog = 0")
    case True
    with inv sp show ?thesis by (simp add: spawn_def)
  next
    case False
    from inv room False show ?thesis
      by (cases rule: spawn_eq [where nm = nm])
        (use sp inv no_memory_inv [OF inv] started_inv(1) [OF inv room] in auto)
  qed
qed

section \<open>Watching and switching\<close>

lemma sentry_info_tty:
  assumes "fmt = ''Process %d (%s) killed - %s'' \<or> fmt = ''Undying process %d (%s) freezed - %s''"
  shows "\<exists>t. sentry_info fmt pid p reason s = Inr (s\<lparr>tty := t\<rparr>)"
  using assms unfolding sentry_info_def INFO_def
  by (elim disjE) (simp; rule printf_message; simp add: cstr_def render.simps(2))+

lemma sentry_ok:
  assumes "task_inv s" "0 \<le> pid" "pid < 32"
    and "pid = 0 \<or> pstack s (nat pid) = None \<or> stack_fault (multitask_ProcV s ! nat pid) = None"
  shows "sentry pid s = Inr s"
  using assms by (auto simp: sentry_def with_proc_def task_invD pstack_def split: if_splits)

lemma sentry_kills:
  assumes inv: "task_inv s" and i: "pstack s i = Some st" and f: "stack_fault (multitask_ProcV s ! i) = Some reason"
  shows "\<exists>s1 t. kill (int i) s = Inr (0, s1) \<and> sentry (int i) s = Inr (s1\<lparr>tty := t\<rparr>)"
proof -
  have i': "1 \<le> i" "i < 32" "active (multitask_ProcV s ! i)" using i by (auto simp: pstack_def split: if_splits)
  from kill_eq [OF inv i] obtain s1 where k: "kill (int i) s = Inr (0, s1)" by blast
  obtain t where "sentry_info ''Process %d (%s) killed - %s'' (int i) (multitask_ProcV s ! i) reason s1 = Inr (s1\<lparr>tty := t\<rparr>)"
    using sentry_info_tty by blast
  then have "sentry (int i) s = Inr (s1\<lparr>tty := t\<rparr>)"
    using i' k f task_invD(1,2) [OF inv] by (simp add: sentry_def with_proc_def)
  with k show ?thesis by blast
qed

lemma sentry_inv:
  assumes inv: "task_inv s" and pid: "0 \<le> pid" "pid < 32"
  shows "\<exists>s'. sentry pid s = Inr s' \<and> task_inv s' \<and> multitask_Focus s' = multitask_Focus s"
proof (cases "pid = 0 \<or> pstack s (nat pid) = None \<or> stack_fault (multitask_ProcV s ! nat pid) = None")
  case True
  then show ?thesis using sentry_ok [OF inv pid True] inv by simp
next
  case False
  then obtain st reason where f: "pstack s (nat pid) = Some st" "stack_fault (multitask_ProcV s ! nat pid) = Some reason"
    by auto
  from sentry_kills [OF inv f] kill_eq [OF inv f(1)] pid show ?thesis by auto
qed

lemma clamp_focus_inv:
  "task_inv (clamp_focus s) = task_inv s" "0 \<le> multitask_Focus (clamp_focus s)" "multitask_Focus (clamp_focus s) < 32"
  by (auto simp: clamp_focus_def)

lemma clamp_focus_id: "0 \<le> multitask_Focus s \<Longrightarrow> multitask_Focus s < 32 \<Longrightarrow> clamp_focus s = s"
  by (simp add: clamp_focus_def)

lemma swi_inv: "task_inv s \<Longrightarrow> 0 \<le> old \<Longrightarrow> old < 32 \<Longrightarrow> task_inv (multitask_swi old new s)"
  by (auto simp: multitask_swi_def Let_def set_ctx_def intro!: task_inv_set_proc)

lemma next_proc_range: "next_proc f s = Some i \<Longrightarrow> 0 \<le> f \<Longrightarrow>
    i < 32 \<and> nat f < i \<and> runnable (multitask_ProcV s ! i) \<and> (\<forall>j. nat f < j \<and> j < i \<longrightarrow> \<not> runnable (multitask_ProcV s ! j))"
  by (auto simp: next_proc_def scan_Some_iff split: if_splits)

lemma switch_next_inv:
  assumes inv: "task_inv s" and f: "0 \<le> multitask_Focus s" "multitask_Focus s < 32" and sw: "switch_next s = Inr s'"
  shows "task_inv s' \<and> 0 \<le> multitask_Focus s' \<and> multitask_Focus s' < 32"
proof -
  define new where "new = (case next_proc (multitask_Focus s) s of Some i \<Rightarrow> int i | None \<Rightarrow> 0)"
  have new: "0 \<le> new" "new < 32"
    using next_proc_range [OF _ f(1), of s] by (auto simp: new_def split: option.split)
  have "s' = s \<or> s' = multitask_swi (multitask_Focus s) new (s\<lparr>multitask_Focus := new\<rparr>)"
    using sw by (auto simp: switch_next_def Let_def new_def split: if_splits)
  then show ?thesis
    using inv f new swi_inv [of "s\<lparr>multitask_Focus := new\<rparr>" "multitask_Focus s" new]
    by (auto simp: multitask_swi_def Let_def set_ctx_def)
qed

lemma yield_inv:
  assumes inv: "task_inv s" and y: "yield s = Inr s'"
  shows "task_inv s' \<and> 0 \<le> multitask_Focus s' \<and> multitask_Focus s' < 32"
proof -
  let ?s = "clamp_focus (s\<lparr>multitask_InStream := True\<rparr>)"
  have c: "task_inv ?s" "0 \<le> multitask_Focus ?s" "multitask_Focus ?s < 32" using inv by (simp_all add: clamp_focus_inv)
  from sentry_inv [OF c] obtain s2 where s2: "sentry (multitask_Focus ?s) ?s = Inr s2" "task_inv s2"
    "multitask_Focus s2 = multitask_Focus ?s" by blast
  have "switch_next s2 = Inr s'" using y s2(1) task_invD(1) [OF inv] by (simp add: yield_def Let_def)
  from switch_next_inv [OF s2(2) _ _ this] s2(3) c show ?thesis by simp
qed

lemma exit_inv:
  assumes inv: "task_inv s" and e: "exit_proc s = Inr s'"
  shows "task_inv s'"
proof -
  let ?s = "clamp_focus s"
  have c: "task_inv ?s" "0 \<le> multitask_Focus ?s" "multitask_Focus ?s < 32" using inv by (simp_all add: clamp_focus_inv)
  show ?thesis
  proof (cases "multitask_Focus ?s = 0 \<or> \<not> multitask_InStream ?s")
    case True
    then show ?thesis using e c(1) by (auto simp: exit_proc_def Let_def)
  next
    case False
    with e task_invD(1) [OF c(1)] obtain r s2 where k: "kill (multitask_Focus ?s) ?s = Inr (r, s2)" "yield s2 = Inr s'"
      by (auto simp: exit_proc_def Let_def bindR_eq_Inr)
    have "task_inv s2"
    proof (cases "pstack ?s (nat (multitask_Focus ?s))")
      case None
      then show ?thesis using k(1) kill_refused [OF c None] c(1) by simp
    next
      case (Some st)
      from kill_eq [OF c(1) Some] k(1) c(2) show ?thesis by auto
    qed
    then show ?thesis using yield_inv k(2) by blast
  qed
qed

section \<open>Program files and histories\<close>

lemma sub32_blocks: "a mod 4096 = 0 \<Longrightarrow> b mod 4096 = 0 \<Longrightarrow> sub32 a b \<le> 4294963200"
proof -
  assume "a mod 4096 = 0" "b mod 4096 = 0"
  then obtain x y where "a = 4096 * x" "b = 4096 * y" by (auto simp: mod_eq_0_iff_dvd dvd_def)
  then have "sub32 a b = 4096 * ((x + 1048576 - y) mod 1048576)"
    unfolding sub32_def by (simp add: mult_mod_right diff_mult_distrib2 add_mult_distrib2)
  moreover have "(x + 1048576 - y) mod 1048576 < 1048576" by simp
  ultimately show ?thesis by linarith
qed

lemma malloc_any:
  assumes "mm_inv s" "n \<le> 4294963200" "malloc n s = Inr (p, s')"
  shows "p = 0 \<and> s' = s \<or> p \<noteq> 0 \<and> fits s n"
proof (cases "fits s n")
  case True
  then show ?thesis using malloc_null(1) [OF assms(1) True] assms(3) by (cases "p = 0") auto
next
  case False
  show ?thesis
  proof (cases "n = 0")
    case True
    then show ?thesis using assms(3) by (auto simp: malloc_def split: if_splits)
  next
    case n: False
    with False have "memory_BlockC s * MEMORY_BLKSIZE < n" by (simp add: fits_def)
    then show ?thesis using malloc_too_big [OF assms(1) _ assms(2)] assms(3) by auto
  qed
qed

lemma task_readFile:
  assumes inv: "task_inv s" and path: "is_cstr path" and rd: "fs_readFile path s = Inr (p, s1)"
  shows "task_inv s1" "pstack s1 = pstack s" "live s1 = live s" "mem s1 = mem s"
proof -
  from readFile_frame [OF rd] obtain t e where s1: "s1 = s\<lparr>ticks := t, fs_ent := e\<rparr>" by blast
  show ps: "pstack s1 = pstack s" by (simp add: s1 pstack_def fun_eq_iff)
  show "live s1 = live s" by (simp add: s1)
  show "mem s1 = mem s" by (simp add: s1)
  have "spare s1 = spare s" by (simp add: s1 spare_def in_use_def fun_eq_iff)
  then show "task_inv s1"
    unfolding task_inv_def ps
    using readFile_inv [OF task_invD(3) [OF inv] path rd] inv by (simp add: task_inv_def s1)
qed

lemma image_span_aligned:
  assumes "image_span m data = (lo, hi)"
  shows "lo mod 4096 = 0" "hi mod 4096 = 0" "hi < 4294967296"
proof -
  obtain a b where ab: "seg_span m data (e_phoff (read_eh m data)) (e_phnum (read_eh m data)) = (a, b)" by fastforce
  then have e: "lo = align_down a" "hi = align_down (wrap32 (4095 + b))" using assms by (simp_all add: image_span_def Let_def)
  then show "lo mod 4096 = 0" "hi mod 4096 = 0" by (simp_all add: align_down_def)
  show "hi < 4294967296" using align_down_bounds(1) [of "wrap32 (4095 + b)"] wrap32_less [of "4095 + b"]
    unfolding e(2) by linarith
qed

lemma exec_image_inv:
  assumes inv: "task_inv s" and ex: "exec_image path data s = Inr (pid, s')"
  shows "task_inv s'"
proof -
  obtain lo hi where sp: "image_span (mem s) data = (lo, hi)" by fastforce
  note al = image_span_aligned [OF sp]
  note small = sub32_blocks [OF al(2,1)]
  from ex sp obtain base s1 where m: "malloc (sub32 hi lo) s = Inr (base, s1)" by (auto simp: exec_image_def bindR_eq_Inr)
  show ?thesis
  proof (cases "base = 0")
    case True
    with ex sp m have "s' = s1" by (simp add: exec_image_def)
    with malloc_any [OF fs_invD(1) [OF task_invD(3) [OF inv]] small m] True inv show ?thesis by simp
  next
    case False
    then have room: "fits s (sub32 hi lo)" using malloc_any [OF fs_invD(1) [OF task_invD(3) [OF inv]] small m] by simp
    define t where "t = s1\<lparr>mem := load_segs (mem s1) data (e_phoff (read_eh (mem s) data)) base lo 0\<rparr>"
    define pc where "pc = wrap32 (base + e_entry (read_eh (mem t) data))"
    note tm = task_malloc [OF inv room m False]
    have ti: "task_inv t" using tm(1) by (simp add: t_def)
    have lb: "loose t base (nblocks (sub32 hi lo) * MEMORY_BLKSIZE)"
    proof -
      have "pstack t = pstack s1" "spare t = spare s1" by (simp_all add: t_def pstack_def spare_def in_use_def fun_eq_iff)
      then show ?thesis using tm(3) by (simp add: loose_def)
    qed
    from ex sp m False obtain p s2 where s2: "spawn (Some path) pc t = Inr (p, s2)"
      and fin: "(if p = -1 then bindR (Memory.free base s2) (\<lambda>s3. Inr (-1, s3))
        else Inr (p, set_proc p (pfile_update (\<lambda>_. True)) s2)) = Inr (pid, s')"
      by (auto simp: exec_image_def Let_def bindR_eq_Inr t_def pc_def)
    show ?thesis
    proof (cases "pc = 0")
      case True
      then have "p = -1" "s2 = t" using s2 by (simp_all add: spawn_def)
      with fin task_free [OF ti lb] show ?thesis by auto
    next
      case pc: False
      from ti task_invD(6) [OF ti] pc show ?thesis
      proof (cases rule: spawn_eq [where nm = "Some path"])
        case full
        then show ?thesis using s2 fin task_free [OF ti lb] by auto
      next
        case (no_memory i)
        have "loose s2 base (nblocks (sub32 hi lo) * MEMORY_BLKSIZE)" "task_inv s2" and p: "p = -1"
          using no_memory_inv [OF ti no_memory(1)] no_memory(3) s2 lb by (simp_all add: loose_def)
        from task_free [OF this(2,1)] fin p show ?thesis by auto
      next
        case (started i st s3)
        have "task_inv s2" using started_inv(1) [OF ti task_invD(6) [OF ti] started(1-3) refl] started(4) s2 by simp
        then show ?thesis
          using fin started(1,4) s2 proc_slot_Some [OF started(1)] by (auto intro!: task_inv_set_proc)
      qed
    qed
  qed
qed

lemma exec_inv:
  assumes inv: "task_inv s" and path: "is_cstr path" and ex: "exec path s = Inr (pid, s')"
  shows "task_inv s'"
proof (cases "path = [] \<or> fs_stat path s = 0")
  case True
  then show ?thesis using inv ex by (auto simp: exec_def split: if_splits)
next
  case False
  with ex task_invD(1) [OF inv] obtain data s1 where rd: "fs_readFile path s = Inr (data, s1)" and
    s': "s' = s1 \<or> exec_image path data s1 = Inr (pid, s')"
    by (auto simp: exec_def bindR_eq_Inr split: if_splits)
  from s' task_readFile(1) [OF inv path rd] exec_image_inv show ?thesis by blast
qed

text \<open>Calls of the system interleaved with whatever the running process does to its registers and to
  the bytes of memory.\<close>

datatype task_req = Spawn "cstring option" addr | Exec cstring | Kill int | Yield | Exit | Run multitask_Ctx mem

inductive task_step :: "'a multi_scheme \<Rightarrow> task_req \<Rightarrow> 'a multi_scheme \<Rightarrow> bool" where
  step_spawn: "spawn nm prog s = Inr (pid, s') \<Longrightarrow> task_step s (Spawn nm prog) s'"
| step_exec: "is_cstr path \<Longrightarrow> exec path s = Inr (pid, s') \<Longrightarrow> task_step s (Exec path) s'"
| step_kill: "kill pid s = Inr (st, s') \<Longrightarrow> task_step s (Kill pid) s'"
| step_yield: "yield s = Inr s' \<Longrightarrow> task_step s Yield s'"
| step_exit: "exit_proc s = Inr s' \<Longrightarrow> task_step s Exit s'"
| step_run: "task_step s (Run c m) (s\<lparr>cpu := c, mem := m\<rparr>)"

inductive_simps task_step_simps: "task_step s (Spawn nm prog) s'" "task_step s (Kill pid) s'" "task_step s Yield s'"

inductive task_run :: "'a multi_scheme \<Rightarrow> task_req list \<Rightarrow> 'a multi_scheme \<Rightarrow> bool" where
  run_Nil: "task_run s [] s"
| run_Cons: "task_step s r s1 \<Longrightarrow> task_run s1 rs s' \<Longrightarrow> task_run s (r # rs) s'"

lemma kill_inv:
  assumes inv: "task_inv s" and k: "kill pid s = Inr (st, s')"
  shows "task_inv s'"
proof -
  have r: "0 \<le> pid" "pid < 32"
    using k task_invD(1,2) [OF inv] by (auto simp: kill_def with_proc_def checkR_def split: if_splits)
  show ?thesis
  proof (cases "pstack s (nat pid)")
    case None
    then show ?thesis using kill_refused [OF inv r] k inv by simp
  next
    case (Some q)
    then show ?thesis using kill_eq [OF inv Some] k r by auto
  qed
qed

lemma task_step_inv: "task_step s r s' \<Longrightarrow> task_inv s \<Longrightarrow> task_inv s'"
proof (induction rule: task_step.induct)
  case (step_spawn nm prog s pid s')
  then show ?case using spawn_inv task_invD(6) by blast
next
  case (step_yield s s')
  then show ?case using yield_inv by blast
qed (auto intro: exec_inv kill_inv exit_inv)

lemma task_run_inv: "task_run s rs s' \<Longrightarrow> task_inv s \<Longrightarrow> task_inv s'"
  by (induction rule: task_run.induct) (auto dest: task_step_inv)

lemma stack_regions:
  assumes inv: "task_inv s" and i: "pstack s i = Some st"
  shows "live s st = Some 4096" "in_use s f \<Longrightarrow> live s (fs_EntryV s f) = Some k \<Longrightarrow> disj st 4096 (fs_EntryV s f) k"
    "pstack s j = Some r \<Longrightarrow> i \<noteq> j \<Longrightarrow> disj st 4096 r 4096"
proof -
  note mm = fs_invD(1) [OF task_invD(3) [OF inv]]
  have sp: "spare s st 4096" by (rule task_invD(4) [OF inv i])
  then show l: "live s st = Some 4096" by (simp add: spare_def)
  show "disj st 4096 (fs_EntryV s f) k" if "in_use s f" "live s (fs_EntryV s f) = Some k"
    using heap.regions_disjoint [OF mm l that(2)] sp that(1) by (auto simp: spare_def)
  show "disj st 4096 r 4096" if "pstack s j = Some r" "i \<noteq> j"
  proof -
    have "live s r = Some 4096" using task_invD(4) [OF inv that(1)] by (simp add: spare_def)
    moreover have "st \<noteq> r" using task_invD(5) [OF inv i, of j] that by auto
    ultimately show ?thesis using heap.regions_disjoint [OF mm l] by blast
  qed
qed

lemma multitask_init_inv:
  assumes inv: "fs_inv s" and lock: "\<not> multitask_InitLock s" and room: "fits s (MULTITASK_PROCLIMIT * sizeof_Proc)"
    and i: "multitask_init cr3 eflags s = Inr s'"
  shows "task_inv s' \<and> (\<forall>j. pstack s' j = None) \<and> fs_view s' = fs_view s"
proof -
  from i lock obtain p s1 where m: "malloc (MULTITASK_PROCLIMIT * sizeof_Proc) s = Inr (p, s1)" "p \<noteq> 0" and
    s': "s' = s1\<lparr>multitask_ProcT := p, multitask_ProcV := replicate MULTITASK_PROCLIMIT zero_proc,
                     multitask_DefRegs := (multitask_DefRegs s1)\<lparr>CR3 := cr3, EFLAGS := eflags\<rparr>, multitask_InitLock := True\<rparr>"
    by (auto simp: multitask_init_def bindR_eq_Inr split: if_splits)
  from malloc_frame [OF m(1)] obtain V where V: "s1 = s\<lparr>memory_BlockV := V\<rparr>" by blast
  note ml = malloc_live [OF fs_invD(1) [OF inv] room m]
  have "fs_inv s1 \<and> fs_view s1 = fs_view s"
  proof (rule fs_heap_change [OF inv ml(3)])
    fix j assume j: "in_use s j"
    then have "fs_EntryV s j \<noteq> p" using in_use_live [OF inv j] ml(1) by auto
    then show "live s1 (fs_EntryV s j) = live s (fs_EntryV s j)" by (simp add: ml(2))
  qed (simp_all add: V)
  moreover have h: "same_heap s' s1" by (rule same_heapI) (simp_all add: s')
  moreover have "fs_view s' = fs_view s1" by (rule fs_view_cong) (simp_all add: s')
  moreover have ps: "pstack s' = (\<lambda>_. None)" by (auto simp: s' pstack_def zero_proc_def fun_eq_iff)
  moreover have "0 < memory_BlockC s1" using room by (simp add: fits_def V)
  ultimately show ?thesis using same_heapD(1,4) [OF h] by (simp add: task_inv_def s')
qed

section \<open>Taking turns\<close>

text \<open>Every process was switched away from with its stack pointer inside its stack.\<close>

definition steady :: "'a multi_scheme \<Rightarrow> bool" where
  "steady s \<longleftrightarrow> task_inv s \<and> 0 \<le> multitask_Focus s \<and> multitask_Focus s < 32 \<and>
     (\<forall>i. pstack s i \<noteq> None \<longrightarrow> stack_fault (multitask_ProcV s ! i) = None)"

text \<open>The registers a process may yield with: the stack pointer inside its stack. Those of the kernel
  are not looked at.\<close>

definition well_behaved :: "multitask_Ctx \<Rightarrow> 'a multi_scheme \<Rightarrow> bool" where
  "well_behaved c s \<longleftrightarrow> pstack s (nat (multitask_Focus s)) = None \<or>
     stack_fault ((multitask_ProcV s ! nat (multitask_Focus s))\<lparr>regs := c\<rparr>) = None"

definition can_run :: "'a multi_scheme \<Rightarrow> nat \<Rightarrow> bool" where
  "can_run s i \<longleftrightarrow> 1 \<le> i \<and> i < MULTITASK_PROCLIMIT \<and> runnable (multitask_ProcV s ! i)"

inductive turns :: "'a multi_scheme \<Rightarrow> nat list \<Rightarrow> 'a multi_scheme \<Rightarrow> bool" where
  turns_Nil: "turns s [] s"
| turns_step: "turns s fs s1 \<Longrightarrow> well_behaved c s1 \<Longrightarrow> yield (s1\<lparr>cpu := c, mem := m\<rparr>) = Inr s2 \<Longrightarrow>
    turns s (fs @ [nat (multitask_Focus s2)]) s2"

text \<open>One switch: the kernel with nothing to run panics, everything else switches to the next
  runnable process or to the kernel.\<close>

definition new_focus :: "'a multi_scheme \<Rightarrow> int" where
  "new_focus s = (case next_proc (multitask_Focus s) s of Some i \<Rightarrow> int i | None \<Rightarrow> 0)"

lemma new_focus_range:
  assumes "0 \<le> multitask_Focus s" "multitask_Focus s < 32"
  shows "0 \<le> new_focus s" "new_focus s < 32" "new_focus s = multitask_Focus s \<longleftrightarrow> multitask_Focus s = 0 \<and> new_focus s = 0"
    "new_focus s \<noteq> 0 \<Longrightarrow> can_run s (nat (new_focus s))"
    "can_run s j \<Longrightarrow> nat (multitask_Focus s) < j \<Longrightarrow> multitask_Focus s < new_focus s \<and> new_focus s \<le> int j"
proof -
  note r = next_proc_range [OF _ assms(1), of s]
  show "0 \<le> new_focus s" "new_focus s < 32" using r by (auto simp: new_focus_def split: option.split)
  show "new_focus s = multitask_Focus s \<longleftrightarrow> multitask_Focus s = 0 \<and> new_focus s = 0"
    using r by (auto simp: new_focus_def split: option.splits)
  show "can_run s (nat (new_focus s))" if "new_focus s \<noteq> 0"
    using that r by (auto simp: new_focus_def can_run_def split: option.splits)
  show "multitask_Focus s < new_focus s \<and> new_focus s \<le> int j" if j: "can_run s j" "nat (multitask_Focus s) < j"
  proof (cases "next_proc (multitask_Focus s) s")
    case None
    then show ?thesis using j assms by (auto simp: next_proc_def scan_None_iff can_run_def split: if_splits)
  next
    case (Some i)
    from r [OF Some] j have "i \<le> j" by (meson can_run_def not_le)
    with r [OF Some] assms(1) show ?thesis by (simp add: new_focus_def Some) linarith
  qed
qed

lemma yield_steady:
  assumes st: "steady s" and wb: "well_behaved (cpu s) s"
  shows "yield s = (if multitask_Focus s = 0 \<and> new_focus s = 0 then Inl (Panic ''No processes to execute'')
    else Inr (multitask_swi (multitask_Focus s) (new_focus s) (s\<lparr>multitask_InStream := True, multitask_Focus := new_focus s\<rparr>)))"
proof -
  let ?s = "s\<lparr>multitask_InStream := True\<rparr>"
  have f: "task_inv s" "0 \<le> multitask_Focus s" "multitask_Focus s < 32" using st by (simp_all add: steady_def)
  have c: "clamp_focus ?s = ?s" by (rule clamp_focus_id) (use f in simp_all)
  have "sentry (multitask_Focus s) ?s = Inr ?s"
    by (rule sentry_ok) (use f st in \<open>auto simp: steady_def pstack_def\<close>)
  then have "yield s = switch_next ?s"
    using task_invD(1) [OF f(1)] c by (simp add: yield_def Let_def)
  moreover have "new_focus ?s = new_focus s" by (simp add: new_focus_def next_proc_def)
  ultimately show ?thesis
    using new_focus_range(3) [OF f(2,3)] by (auto simp: switch_next_def Let_def new_focus_def)
qed

lemma set_ctx_row:
  assumes "length (multitask_ProcV s) = 32" "0 \<le> pid" "pid < 32" "i < 32"
  shows "multitask_ProcV (set_ctx pid c s) ! i =
    (if int i = pid \<and> pid \<noteq> 0 then (multitask_ProcV s ! i)\<lparr>regs := c\<rparr> else multitask_ProcV s ! i)"
  using assms by (cases "pid = 0") (auto simp: set_ctx_def)

lemma ctx_of_set_ctx:
  assumes "length (multitask_ProcV s) = 32" "0 \<le> pid" "pid < 32" "0 \<le> i" "i < 32"
  shows "ctx_of i (set_ctx pid c s) = (if i = pid then c else ctx_of i s)"
proof (cases "i = 0")
  case True
  then show ?thesis by (simp add: ctx_of_def set_ctx_def)
next
  case False
  then show ?thesis using set_ctx_row [OF assms(1-3), of "nat i" c] assms(4,5) by (auto simp: ctx_of_def)
qed

lemma swi_fields:
  "multitask_Focus (multitask_swi old new s) = multitask_Focus s"
  "multitask_ProcV (multitask_swi old new s) = multitask_ProcV (set_ctx old (cpu s) s)"
  "ctx_of i (multitask_swi old new s) = ctx_of i (set_ctx old (cpu s) s)"
  "cpu (multitask_swi old new s) = ctx_of new (set_ctx old (cpu s) s)"
  "mem (multitask_swi old new s) = (let c = ctx_of new (set_ctx old (cpu s) s) in wr32 (mem s) (sub32 (ESP c) 4) (EIP c))"
  by (simp_all add: multitask_swi_def Let_def ctx_of_def) (simp_all add: set_ctx_def)

lemma turn_steady:
  assumes st: "steady s" and wb: "well_behaved c s" and y: "yield (s\<lparr>cpu := c, mem := m\<rparr>) = Inr s2"
  shows "steady s2" "multitask_Focus s2 = new_focus s" "can_run s2 = can_run s" "new_focus s \<noteq> multitask_Focus s"
    "cpu s2 = ctx_of (new_focus s) s" "mem s2 = wr32 m (sub32 (ESP (cpu s2)) 4) (EIP (cpu s2))"
    "0 \<le> i \<Longrightarrow> i < 32 \<Longrightarrow> ctx_of i s2 = (if i = multitask_Focus s then c else ctx_of i s)"
proof -
  let ?t = "s\<lparr>cpu := c, mem := m\<rparr>"
  let ?u = "?t\<lparr>multitask_InStream := True, multitask_Focus := new_focus s\<rparr>"
  have f: "task_inv s" "0 \<le> multitask_Focus s" "multitask_Focus s < 32" using st by (simp_all add: steady_def)
  have len: "length (multitask_ProcV ?u) = 32" using task_invD(2) [OF f(1)] by simp
  have ps: "pstack ?t = pstack s" by (simp add: pstack_def fun_eq_iff)
  have nf: "new_focus ?t = new_focus s" by (simp add: new_focus_def next_proc_def)
  have "steady ?t" "well_behaved (cpu ?t) ?t" using st wb by (simp_all add: steady_def well_behaved_def ps)
  from yield_steady [OF this] y have ne: "\<not> (multitask_Focus s = 0 \<and> new_focus s = 0)"
    and s2: "s2 = multitask_swi (multitask_Focus s) (new_focus s) ?u"
    by (auto simp: nf split: if_splits)
  note r = new_focus_range [OF f(2,3)]
  show ne': "new_focus s \<noteq> multitask_Focus s" using ne r(3) by auto
  show foc: "multitask_Focus s2 = new_focus s" by (simp add: s2 swi_fields)
  have row: "multitask_ProcV s2 ! i = (if int i = multitask_Focus s \<and> multitask_Focus s \<noteq> 0
      then (multitask_ProcV s ! i)\<lparr>regs := c\<rparr> else multitask_ProcV s ! i)" if "i < 32" for i
    using set_ctx_row [OF len f(2,3) that, of c] by (simp add: s2 swi_fields)
  have ctx: "ctx_of i s2 = (if i = multitask_Focus s then c else ctx_of i s)" if "0 \<le> i" "i < 32" for i
    using ctx_of_set_ctx [OF len f(2,3) that, of c] by (simp add: s2 swi_fields) (simp add: ctx_of_def)
  show "0 \<le> i \<Longrightarrow> i < 32 \<Longrightarrow> ctx_of i s2 = (if i = multitask_Focus s then c else ctx_of i s)" by (rule ctx)
  show "cpu s2 = ctx_of (new_focus s) s"
    using ctx_of_set_ctx [OF len f(2,3) r(1,2), of c] ne' by (simp add: s2 swi_fields) (simp add: ctx_of_def)
  show "mem s2 = wr32 m (sub32 (ESP (cpu s2)) 4) (EIP (cpu s2))" by (simp add: s2 swi_fields Let_def)
  have kept: "active (multitask_ProcV s2 ! i) = active (multitask_ProcV s ! i)"
    "freeze (multitask_ProcV s2 ! i) = freeze (multitask_ProcV s ! i)"
    "stack (multitask_ProcV s2 ! i) = stack (multitask_ProcV s ! i)" if "i < 32" for i
    using row [OF that] by simp_all
  show "can_run s2 = can_run s" using kept by (auto simp: can_run_def runnable_def fun_eq_iff)
  have ps2: "pstack s2 = pstack s" using kept by (auto simp: pstack_def fun_eq_iff)
  have "task_inv s2"
    unfolding s2 by (rule swi_inv) (use f in simp_all)
  moreover have "stack_fault (multitask_ProcV s2 ! i) = None" if "pstack s i \<noteq> None" for i
  proof -
    have i: "1 \<le> i" "i < 32" using that by (auto simp: pstack_def split: if_splits)
    show ?thesis
    proof (cases "int i = multitask_Focus s")
      case True
      then have "nat (multitask_Focus s) = i" by simp
      with True i that show ?thesis using row [OF i(2)] wb by (auto simp: well_behaved_def)
    next
      case False
      with row [OF i(2)] st that show ?thesis by (simp add: steady_def)
    qed
  qed
  ultimately show "steady s2" unfolding steady_def ps2 using foc r(1,2) by auto
qed

lemma turns_steady: "turns s fs s' \<Longrightarrow> steady s \<Longrightarrow> steady s' \<and> can_run s' = can_run s"
proof (induction rule: turns.induct)
  case (turns_step s fs s1 c m s2)
  then show ?case using turn_steady(1,3) [of s1 c m s2] by auto
qed simp

text \<open>How many switches may pass before slot \<open>j\<close> is reached.\<close>

definition rank :: "nat \<Rightarrow> int \<Rightarrow> nat" where
  "rank j f = (if nat f < j then j - nat f else 32 - nat f + j)"

lemma turn_rank:
  assumes "0 \<le> multitask_Focus s" "multitask_Focus s < 32" "can_run s j" "new_focus s \<noteq> multitask_Focus s"
    "new_focus s \<noteq> int j"
  shows "rank j (new_focus s) < rank j (multitask_Focus s)"
proof -
  note r = new_focus_range [OF assms(1,2)]
  have j: "1 \<le> j" "j < 32" using assms(3) by (simp_all add: can_run_def)
  show ?thesis
  proof (cases "nat (multitask_Focus s) < j")
    case True
    from r(5) [OF assms(3) this] assms(1,5) have "nat (multitask_Focus s) < nat (new_focus s)" "nat (new_focus s) < j"
      by linarith+
    moreover from this True have "rank j (new_focus s) = j - nat (new_focus s)"
      "rank j (multitask_Focus s) = j - nat (multitask_Focus s)" unfolding rank_def by (simp_all only: if_True)
    ultimately show ?thesis by linarith
  next
    case False
    have up: "new_focus s = 0 \<or> multitask_Focus s < new_focus s"
      using next_proc_range [OF _ assms(1), of s] assms(1) by (auto simp: new_focus_def split: option.splits)
    show ?thesis
    proof (cases "new_focus s = 0")
      case True
      with False j assms(2) show ?thesis by (simp add: rank_def)
    next
      case nz: False
      with up have "multitask_Focus s < new_focus s" by simp
      with False j r(1,2) assms(1) show ?thesis by (simp add: rank_def nat_less_iff)
    qed
  qed
qed

lemma turns_rank:
  "turns s fs s' \<Longrightarrow> steady s \<Longrightarrow> can_run s j \<Longrightarrow> j \<notin> set fs \<Longrightarrow>
     length fs + rank j (multitask_Focus s') \<le> rank j (multitask_Focus s)"
proof (induction rule: turns.induct)
  case (turns_step s fs s1 c m s2)
  have s1: "steady s1" "can_run s1 j" using turns_steady [OF turns_step.hyps(1)] turns_step.prems by auto
  note t = turn_steady [OF s1(1) turns_step.hyps(2,3)]
  have f: "0 \<le> multitask_Focus s1" "multitask_Focus s1 < 32" using s1(1) by (simp_all add: steady_def)
  have "new_focus s1 \<noteq> int j" using turns_step.prems(3) t(2) by auto
  from turn_rank [OF f s1(2) t(4) this] t(2) turns_step.IH turns_step.prems show ?case by simp
qed simp

lemma rank_bounds: "0 \<le> f \<Longrightarrow> f < 32 \<Longrightarrow> 1 \<le> j \<Longrightarrow> j < 32 \<Longrightarrow> 0 < rank j f \<and> rank j f \<le> 32"
  by (auto simp: rank_def)

lemma turns_never_stuck:
  assumes "steady s" "can_run s j" "well_behaved c s"
  shows "\<exists>s2. yield (s\<lparr>cpu := c, mem := m\<rparr>) = Inr s2"
proof -
  let ?t = "s\<lparr>cpu := c, mem := m\<rparr>"
  have ps: "pstack ?t = pstack s" by (simp add: pstack_def fun_eq_iff)
  have f: "0 \<le> multitask_Focus s" "multitask_Focus s < 32" using assms(1) by (simp_all add: steady_def)
  have nf: "new_focus ?t = new_focus s" by (simp add: new_focus_def next_proc_def)
  have "steady ?t" "well_behaved (cpu ?t) ?t" using assms by (simp_all add: steady_def well_behaved_def ps)
  note y = yield_steady [OF this]
  have "new_focus s \<noteq> 0" if "multitask_Focus s = 0"
    using new_focus_range(5) [OF f assms(2)] that assms(2) by (simp add: can_run_def)
  with y show ?thesis by (auto simp: nf)
qed

lemma turns_resume:
  "turns s fs s' \<Longrightarrow> steady s \<Longrightarrow> 0 \<le> i \<Longrightarrow> i < 32 \<Longrightarrow> nat i \<notin> set (butlast fs) \<Longrightarrow> multitask_Focus s \<noteq> i \<Longrightarrow>
     fs \<noteq> [] \<Longrightarrow> ctx_of i s' = ctx_of i s \<and> (last fs = nat i \<longrightarrow> cpu s' = ctx_of i s)"
proof (induction rule: turns.induct)
  case (turns_step s fs s1 c m s2)
  have s1: "steady s1" using turns_steady [OF turns_step.hyps(1)] turns_step.prems by auto
  note t = turn_steady [OF s1(1) turns_step.hyps(2,3)]
  have f: "0 \<le> multitask_Focus s1" using s1 by (simp add: steady_def)
  have c1: "ctx_of i s1 = ctx_of i s \<and> multitask_Focus s1 \<noteq> i"
  proof (cases fs rule: rev_cases)
    case Nil
    then have "s1 = s" using turns_step.hyps(1) by (auto elim: turns.cases)
    then show ?thesis using turns_step.prems by simp
  next
    case (snoc gs g)
    have "multitask_Focus s1 = int g" using turns_step.hyps(1) snoc f by (cases rule: turns.cases) (auto simp: steady_def dest!: turn_steady(1,2) turns_steady)
    then show ?thesis using turns_step.IH turns_step.prems snoc by (auto simp: butlast_append in_set_butlastD)
  qed
  have "0 \<le> new_focus s1" using t(1,2) by (simp add: steady_def)
  then show ?case using c1 t(2,5) t(7) [OF turns_step.prems(2,3)] turns_step.prems(2) by (auto simp: eq_nat_nat_iff)
qed simp

section \<open>Program images\<close>

text \<open>What a segment asks for: its bytes and its tail lie in the image, whose first address is \<open>lo\<close>.\<close>

definition seg_target :: "addr \<Rightarrow> nat \<Rightarrow> multitask_ProgELF32PH \<Rightarrow> addr" where
  "seg_target base lo ph = base + (p_vaddr ph - lo)"

definition seg_fits :: "nat \<Rightarrow> nat \<Rightarrow> multitask_ProgELF32PH \<Rightarrow> bool" where
  "seg_fits lo len ph \<longleftrightarrow> p_filesz ph \<le> p_memsz ph \<and> lo \<le> p_vaddr ph \<and> p_vaddr ph + p_memsz ph \<le> lo + len"

lemma sub32_wrap32: "lo \<le> x \<Longrightarrow> lo < 4294967296 \<Longrightarrow> x - lo < 4294967296 \<Longrightarrow> sub32 (wrap32 x) lo = x - lo"
proof -
  assume h: "lo \<le> x" "lo < 4294967296" "x - lo < 4294967296"
  have "sub32 (wrap32 x) lo = (x mod 4294967296 + (4294967296 - lo)) mod 4294967296"
    using h(2) by (simp add: sub32_def wrap32_def)
  also have "\<dots> = (x + (4294967296 - lo)) mod 4294967296" by (rule mod_add_left_eq)
  also have "x + (4294967296 - lo) = (x - lo) + 4294967296" using h(1,2) by simp
  also have "(x - lo + 4294967296) mod 4294967296 = x - lo" using h(3) by (simp only: mod_add_self2 mod_less)
  finally show ?thesis .
qed

lemma load_seg_eq:
  assumes "seg_fits lo len ph" "base + len < 4294967296" "p_vaddr ph < 4294967296" "data + p_offset ph + p_filesz ph < 4294967296"
    and "p_memsz ph < 4294967296" "disj base len (data + p_offset ph) (p_filesz ph)"
  shows "load_seg m data base lo ph = mwrite m (seg_target base lo ph)
      (mread m (data + p_offset ph) (p_filesz ph) @ replicate (p_memsz ph - p_filesz ph) 0)"
proof -
  let ?d = "seg_target base lo ph"
  have f: "p_filesz ph \<le> p_memsz ph" "lo \<le> p_vaddr ph" "p_vaddr ph + p_memsz ph \<le> lo + len"
    using assms(1) by (simp_all add: seg_fits_def)
  have d: "sub32 (wrap32 (base + p_vaddr ph)) lo = ?d"
    using sub32_wrap32 [of lo "base + p_vaddr ph"] f assms(2,3) by (simp add: seg_target_def)
  have b: "wrap32 (?d + p_filesz ph) = ?d + p_filesz ph" using f assms(2) by (simp add: seg_target_def)
  have z: "sub32 (p_memsz ph) (p_filesz ph) = p_memsz ph - p_filesz ph" using f(1) assms(5) by (simp add: sub32_small)
  have s: "wrap32 (data + p_offset ph) = data + p_offset ph" using assms(4) by simp
  have dj: "disj ?d (p_filesz ph) (data + p_offset ph) (p_filesz ph)"
    using assms(6) by (rule disj_mono) (use f in \<open>simp_all add: seg_target_def\<close>)
  have c: "ncopy m ?d (data + p_offset ph) (p_filesz ph) = mwrite m ?d (mread m (data + p_offset ph) (p_filesz ph))"
  proof (cases "p_filesz ph = 0")
    case False
    with dj show ?thesis by (intro ncopy_eq) (auto simp: disj_def)
  qed simp
  show ?thesis unfolding load_seg_def Let_def s d b z c fill_eq
    using mwrite_append [of m ?d "mread m (data + p_offset ph) (p_filesz ph)"] by simp
qed

text \<open>A program file that keeps to itself: its headers and the bytes of its segments lie in the file, the
  segments fit the image and do not overlap.\<close>

definition loadable :: "mem \<Rightarrow> addr \<Rightarrow> nat \<Rightarrow> nat \<Rightarrow> nat \<Rightarrow> bool" where
  "loadable m data sz lo len \<longleftrightarrow>
     (let eh = read_eh m data; ph = ph_at m data (e_phoff eh) in
      data + sz < 4294967296 \<and> 52 \<le> sz \<and> e_phoff eh + 32 * e_phnum eh \<le> sz \<and>
      (\<forall>i < e_phnum eh. p_type (ph i) = MULTITASK_PROGPTLOAD \<longrightarrow>
         seg_fits lo len (ph i) \<and> p_offset (ph i) + p_filesz (ph i) \<le> sz \<and>
         (\<forall>j < e_phnum eh. p_type (ph j) = MULTITASK_PROGPTLOAD \<longrightarrow> i \<noteq> j \<longrightarrow>
            disj (p_vaddr (ph i)) (p_memsz (ph i)) (p_vaddr (ph j)) (p_memsz (ph j)))))"

text \<open>The image of a segment in memory.\<close>

definition seg_loaded :: "mem \<Rightarrow> mem \<Rightarrow> addr \<Rightarrow> addr \<Rightarrow> nat \<Rightarrow> multitask_ProgELF32PH \<Rightarrow> bool" where
  "seg_loaded m' m data base lo ph \<longleftrightarrow>
     mread m' (seg_target base lo ph) (p_memsz ph) =
       mread m (data + p_offset ph) (p_filesz ph) @ replicate (p_memsz ph - p_filesz ph) 0"

text \<open>The headers depend on the bytes of the file only.\<close>

lemma file_headers:
  assumes "mread m' data sz = mread m data sz" "52 \<le> sz" "data + sz < 4294967296"
  shows "read_eh m' data = read_eh m data"
    "phoff + 32 * Suc i \<le> sz \<Longrightarrow> ph_at m' data phoff i = ph_at m data phoff i"
proof -
  have b: "m' a = m a" if "data \<le> a" "a < data + sz" for a
    using arg_cong [OF assms(1), of "\<lambda>xs. xs ! (a - data)"] that by simp
  have w: "rd32 m' a = rd32 m a" if "data \<le> a" "a + 4 \<le> data + sz" for a
    by (rule rd32_cong) (use b that in simp)
  have h: "rd16 m' a = rd16 m a" if "data \<le> a" "a + 2 \<le> data + sz" for a
    by (rule rd16_cong) (use b that in simp)
  have "mread m' data 16 = mread m data 16" by (rule mread_sub [OF assms(1)]) (use assms(2) in simp_all)
  then show "read_eh m' data = read_eh m data" using assms(2) by (simp add: read_eh_def w h)
  show "ph_at m' data phoff i = ph_at m data phoff i" if "phoff + 32 * Suc i \<le> sz"
    using that assms(3) by (simp add: ph_at_def read_ph_def w)
qed

lemma rd32_bound [simp]: "p_vaddr (ph_at m data off i) < 4294967296" "p_memsz (ph_at m data off i) < 4294967296"
  by (simp_all add: ph_at_def read_ph_def rd32_less)

lemma load_segs_eq:
  assumes ok: "loadable m data sz lo len" and img: "base + len < 4294967296" "disj base len data sz"
    and same: "mread m1 data sz = mread m data sz"
  shows "(\<forall>a. a < base \<or> base + len \<le> a \<longrightarrow> load_segs m1 data (e_phoff (read_eh m data)) base lo i a = m1 a) \<and>
    (\<forall>j < e_phnum (read_eh m data). p_type (ph_at m data (e_phoff (read_eh m data)) j) = MULTITASK_PROGPTLOAD \<longrightarrow>
       i \<le> j \<or> seg_loaded m1 m data base lo (ph_at m data (e_phoff (read_eh m data)) j) \<longrightarrow>
       seg_loaded (load_segs m1 data (e_phoff (read_eh m data)) base lo i) m data base lo (ph_at m data (e_phoff (read_eh m data)) j))"
  using same
proof (induction "e_phnum (read_eh m data) - i" arbitrary: i m1)
  case 0
  have "read_eh m1 data = read_eh m data"
    by (rule file_headers(1) [OF 0(2)]) (use ok in \<open>simp_all add: loadable_def Let_def\<close>)
  then show ?case using 0(1) by (auto simp: load_segs.simps [of m1])
next
  case (Suc n)
  let ?off = "e_phoff (read_eh m data)" and ?num = "e_phnum (read_eh m data)"
  let ?ph = "ph_at m data ?off i"
  define m2 where "m2 = (if p_type ?ph \<noteq> MULTITASK_PROGPTLOAD then m1 else load_seg m1 data base lo ?ph)"
  have i: "i < ?num" using Suc.hyps(2) by linarith
  have sz: "52 \<le> sz" "data + sz < 4294967296" "?off + 32 * ?num \<le> sz" using ok by (simp_all add: loadable_def Let_def)
  have eh: "read_eh m1 data = read_eh m data" by (rule file_headers(1) [OF Suc.prems sz(1,2)])
  have "32 * Suc i \<le> 32 * ?num" using i by simp
  with sz(3) have "?off + 32 * Suc i \<le> sz" by linarith
  then have ph: "ph_at m1 data ?off i = ?ph" by (rule file_headers(2) [OF Suc.prems sz(1,2)])
  have step: "load_segs m1 data ?off base lo i = load_segs m2 data ?off base lo (Suc i)"
    using i by (subst load_segs.simps) (simp add: eh ph m2_def Let_def)
  have seg: "seg_fits lo len ?ph \<and> p_offset ?ph + p_filesz ?ph \<le> sz" if "p_type ?ph = MULTITASK_PROGPTLOAD"
    using ok i that by (simp add: loadable_def Let_def)
  have ld: "load_seg m1 data base lo ?ph = mwrite m1 (seg_target base lo ?ph)
      (mread m (data + p_offset ?ph) (p_filesz ?ph) @ replicate (p_memsz ?ph - p_filesz ?ph) 0)"
    if "p_type ?ph = MULTITASK_PROGPTLOAD"
  proof -
    have f: "seg_fits lo len ?ph" "p_offset ?ph + p_filesz ?ph \<le> sz" using seg that by auto
    have "disj base len (data + p_offset ?ph) (p_filesz ?ph)" by (rule disj_mono [OF img(2)]) (use f(2) in simp_all)
    moreover have "mread m1 (data + p_offset ?ph) (p_filesz ?ph) = mread m (data + p_offset ?ph) (p_filesz ?ph)"
      by (rule mread_sub [OF Suc.prems]) (use f(2) in simp_all)
    ultimately show ?thesis using load_seg_eq [OF f(1) img(1), of data m1] f(2) sz(2) by simp
  qed
  have out: "m2 a = m1 a" if "a < base \<or> base + len \<le> a" for a
    using seg ld that by (auto simp: m2_def mwrite_def seg_fits_def seg_target_def)
  have same2: "mread m2 data sz = mread m data sz"
  proof -
    have "mread m2 data sz = mread m1 data sz"
      by (rule mread_cong, rule out) (use img(2) sz(1) in \<open>auto simp: disj_def\<close>)
    with Suc.prems show ?thesis by simp
  qed
  have n: "n = ?num - Suc i" using Suc.hyps(2) by linarith
  note IH = Suc.hyps(1) [OF n same2]
  have now: "seg_loaded m2 m data base lo ?ph" if "p_type ?ph = MULTITASK_PROGPTLOAD"
    using ld [OF that] seg that by (simp add: seg_loaded_def m2_def seg_fits_def)
  have keep: "seg_loaded m2 m data base lo (ph_at m data ?off j)"
    if "seg_loaded m1 m data base lo (ph_at m data ?off j)" "j < ?num" "p_type (ph_at m data ?off j) = MULTITASK_PROGPTLOAD" "j \<noteq> i" for j
  proof (cases "p_type ?ph = MULTITASK_PROGPTLOAD")
    case True
    have f: "seg_fits lo len ?ph" "seg_fits lo len (ph_at m data ?off j)"
      "disj (p_vaddr ?ph) (p_memsz ?ph) (p_vaddr (ph_at m data ?off j)) (p_memsz (ph_at m data ?off j))"
      using ok i that(2-4) True by (auto simp: loadable_def Let_def)
    have "disj (seg_target base lo ?ph) (p_memsz ?ph) (seg_target base lo (ph_at m data ?off j)) (p_memsz (ph_at m data ?off j))"
      using f by (auto simp: disj_def seg_target_def seg_fits_def)
    then show ?thesis using that(1) f(1) True by (simp add: seg_loaded_def m2_def ld mread_mwrite_disj seg_fits_def)
  qed (use that(1) in \<open>simp add: m2_def\<close>)
  show ?case
    unfolding step using IH out now keep by (metis le_eq_less_or_eq Suc_leI)
qed

text \<open>A program file the loader can place: what \<open>loadable\<close> asks of the file alone.\<close>

definition elf_ok :: "mem \<Rightarrow> addr \<Rightarrow> nat \<Rightarrow> bool" where
  "elf_ok m data sz \<longleftrightarrow>
     (let eh = read_eh m data; ph = ph_at m data (e_phoff eh) in
      data + sz < 4294967296 \<and> 52 \<le> sz \<and> e_phoff eh + 32 * e_phnum eh \<le> sz \<and>
      (\<forall>i < e_phnum eh. p_type (ph i) = MULTITASK_PROGPTLOAD \<longrightarrow>
         p_filesz (ph i) \<le> p_memsz (ph i) \<and> p_vaddr (ph i) + p_memsz (ph i) \<le> 4294963200 \<and>
         p_offset (ph i) + p_filesz (ph i) \<le> sz \<and>
         (\<forall>j < e_phnum eh. p_type (ph j) = MULTITASK_PROGPTLOAD \<longrightarrow> i \<noteq> j \<longrightarrow>
            disj (p_vaddr (ph i)) (p_memsz (ph i)) (p_vaddr (ph j)) (p_memsz (ph j)))))"

lemma seg_span_covers:
  assumes "\<And>i. i < n \<Longrightarrow> p_type (ph_at m data off i) = MULTITASK_PROGPTLOAD \<Longrightarrow>
      p_vaddr (ph_at m data off i) + p_memsz (ph_at m data off i) \<le> 4294963200"
  shows "snd (seg_span m data off n) \<le> 4294963200 \<and>
    (\<forall>i<n. p_type (ph_at m data off i) = MULTITASK_PROGPTLOAD \<longrightarrow>
       fst (seg_span m data off n) \<le> p_vaddr (ph_at m data off i) \<and>
       p_vaddr (ph_at m data off i) + p_memsz (ph_at m data off i) \<le> snd (seg_span m data off n))"
  using assms
proof (induction n)
  case (Suc n)
  obtain lo hi where sp: "seg_span m data off n = (lo, hi)" by fastforce
  have IH: "hi \<le> 4294963200" "\<And>i. i < n \<Longrightarrow> p_type (ph_at m data off i) = MULTITASK_PROGPTLOAD \<Longrightarrow>
       lo \<le> p_vaddr (ph_at m data off i) \<and> p_vaddr (ph_at m data off i) + p_memsz (ph_at m data off i) \<le> hi"
    using Suc.IH Suc.prems sp by auto
  show ?case
  proof (cases "p_type (ph_at m data off n) = MULTITASK_PROGPTLOAD")
    case False
    then show ?thesis using IH sp by (auto simp: widen_def less_Suc_eq)
  next
    case True
    then have b: "p_vaddr (ph_at m data off n) + p_memsz (ph_at m data off n) \<le> 4294963200" using Suc.prems by simp
    then have w: "wrap32 (p_vaddr (ph_at m data off n) + p_memsz (ph_at m data off n)) =
        p_vaddr (ph_at m data off n) + p_memsz (ph_at m data off n)" by simp
    have e: "seg_span m data off (Suc n) = (min (p_vaddr (ph_at m data off n)) lo,
        max (p_vaddr (ph_at m data off n) + p_memsz (ph_at m data off n)) hi)"
      using True by (simp add: sp widen_def w Let_def min_def max_def)
    show ?thesis unfolding e using IH b by (fastforce simp: less_Suc_eq)
  qed
qed simp

lemma elf_loadable:
  assumes ok: "elf_ok m data sz" and sp: "image_span m data = (lo, hi)"
  shows "loadable m data sz lo (hi - lo)"
    "i < e_phnum (read_eh m data) \<Longrightarrow> p_type (ph_at m data (e_phoff (read_eh m data)) i) = MULTITASK_PROGPTLOAD \<Longrightarrow>
       lo \<le> hi \<and> hi < 4294967296"
proof -
  let ?off = "e_phoff (read_eh m data)" and ?num = "e_phnum (read_eh m data)"
  have f: "p_filesz (ph_at m data ?off i) \<le> p_memsz (ph_at m data ?off i)"
    "p_vaddr (ph_at m data ?off i) + p_memsz (ph_at m data ?off i) \<le> 4294963200"
    if "i < ?num" "p_type (ph_at m data ?off i) = MULTITASK_PROGPTLOAD" for i
    using ok that by (simp_all add: elf_ok_def Let_def)
  obtain a b where ab: "seg_span m data ?off ?num = (a, b)" by fastforce
  from seg_span_covers [of ?num m data ?off, OF f(2)] ab have c: "b \<le> 4294963200"
    "\<And>i. i < ?num \<Longrightarrow> p_type (ph_at m data ?off i) = MULTITASK_PROGPTLOAD \<Longrightarrow>
       a \<le> p_vaddr (ph_at m data ?off i) \<and> p_vaddr (ph_at m data ?off i) + p_memsz (ph_at m data ?off i) \<le> b"
    by auto
  have lo: "lo \<le> a" using sp ab align_down_bounds(1) [of a] by (simp add: image_span_def Let_def)
  have h: "hi = align_down (4095 + b)" using sp ab c(1) by (simp add: image_span_def Let_def)
  have hi: "b \<le> hi" "hi < 4294967296"
    using align_down_bounds [of "4095 + b"] c(1) unfolding h by linarith+
  have fit: "seg_fits lo (hi - lo) (ph_at m data ?off i)"
    if "i < ?num" "p_type (ph_at m data ?off i) = MULTITASK_PROGPTLOAD" for i
    using f(1) [OF that] c(2) [OF that] lo hi by (simp add: seg_fits_def)
  show "loadable m data sz lo (hi - lo)"
    using ok fit by (simp add: loadable_def elf_ok_def Let_def)
  show "lo \<le> hi \<and> hi < 4294967296" if "i < ?num" "p_type (ph_at m data ?off i) = MULTITASK_PROGPTLOAD"
    using c(2) [OF that] lo hi by linarith
qed

lemma spawn_mem: "spawn nm prog s = Inr (pid, s') \<Longrightarrow> mem s' = mem s"
proof -
  assume sp: "spawn nm prog s = Inr (pid, s')"
  show ?thesis
  proof (cases "\<not> multitask_InitLock s \<or> prog = 0 \<or> proc_slot s = None")
    case True
    then show ?thesis using sp by (auto simp: spawn_def proc_slot_def split: if_splits)
  next
    case False
    then obtain i where i: "proc_slot s = Some i" by auto
    with sp False obtain st s1 where m: "malloc MULTITASK_STACKSIZE s = Inr (st, s1)"
      by (auto simp: spawn_def proc_slot_def bindR_eq_Inr)
    have "mem s1 = mem s" using malloc_frame [OF m] by auto
    with sp False i m show ?thesis by (auto simp: spawn_def proc_slot_def split: if_splits)
  qed
qed

lemma exec_image_loads:
  assumes inv: "task_inv s" and ok: "elf_ok (mem s) data sz" and ex: "exec_image path data s = Inr (pid, s')" "pid \<noteq> -1"
    and own: "live s q = Some k" "q \<le> data" "data + sz \<le> q + k"
    and sp: "image_span (mem s) data = (lo, hi)"
  shows "\<exists>base n. live s base = None \<and> live s' base = Some n \<and> hi - lo \<le> n \<and>
    (\<forall>i < e_phnum (read_eh (mem s) data). p_type (ph_at (mem s) data (e_phoff (read_eh (mem s) data)) i) = MULTITASK_PROGPTLOAD \<longrightarrow>
       seg_loaded (mem s') (mem s) data base lo (ph_at (mem s) data (e_phoff (read_eh (mem s) data)) i)) \<and>
    (\<forall>a. a < base \<or> base + n \<le> a \<longrightarrow> mem s' a = mem s a) \<and>
    EIP (regs (multitask_ProcV s' ! nat pid)) = wrap32 (base + e_entry (read_eh (mem s) data))"
proof -
  let ?eh = "read_eh (mem s) data" and ?m = "mem s"
  note mm = fs_invD(1) [OF task_invD(3) [OF inv]]
  note al = image_span_aligned [OF sp]
  note small = sub32_blocks [OF al(2,1)]
  from ex(1) sp obtain base s1 where m: "malloc (sub32 hi lo) s = Inr (base, s1)" by (auto simp: exec_image_def bindR_eq_Inr)
  from malloc_frame [OF m] obtain V where V: "s1 = s\<lparr>memory_BlockV := V\<rparr>" by blast
  have b0: "base \<noteq> 0"
  proof
    assume "base = 0"
    with ex sp m show False by (simp add: exec_image_def)
  qed
  then have room: "fits s (sub32 hi lo)" using malloc_any [OF mm small m] by simp
  define n where "n = nblocks (sub32 hi lo) * MEMORY_BLKSIZE"
  have n: "sub32 hi lo \<le> n" unfolding n_def using room by (intro nblocks_ge) (simp add: fits_def)
  define m2 where "m2 = load_segs ?m data (e_phoff ?eh) base lo 0"
  define t where "t = s1\<lparr>mem := m2\<rparr>"
  define pc where "pc = wrap32 (base + e_entry (read_eh m2 data))"
  note tm = task_malloc [OF inv room m b0]
  have ti: "task_inv t" using tm(1) by (simp add: t_def)
  from ex sp m b0 obtain p s2 where s2: "spawn (Some path) pc t = Inr (p, s2)"
    and fin: "(if p = -1 then bindR (Memory.free base s2) (\<lambda>s3. Inr (-1, s3))
      else Inr (p, set_proc p (pfile_update (\<lambda>_. True)) s2)) = Inr (pid, s')"
    by (auto simp: exec_image_def Let_def bindR_eq_Inr t_def pc_def m2_def V)
  have p: "p = pid" "pid \<noteq> -1" "s' = set_proc pid (pfile_update (\<lambda>_. True)) s2" using fin ex(2) by (auto simp: bindR_eq_Inr split: if_splits)
  have pc0: "pc \<noteq> 0"
  proof
    assume "pc = 0"
    with s2 p show False by (simp add: spawn_def)
  qed
  from ti task_invD(6) [OF ti] pc0 obtain i st s3 where st: "proc_slot t = Some i" "malloc 4096 t = Inr (st, s3)" "st \<noteq> 0"
    "s2 = set_proc (int i) (new_proc (Some path) pc st (multitask_DefRegs t)) s3" "pid = int i"
    by (cases rule: spawn_eq [where nm = "Some path"]) (use s2 p in auto)
  note si = started_inv [OF ti task_invD(6) [OF ti] st(1-4)]
  have i: "1 \<le> i" "i < 32" using proc_slot_Some [OF st(1)] by auto
  have eip: "EIP (regs (multitask_ProcV s' ! nat pid)) = pc"
    using si(6) i task_invD(2) [OF si(1)] by (simp add: p(3) st(5) new_proc_def)
  have mem': "mem s' = m2" using spawn_mem [OF s2] by (simp add: p(3) t_def)
  have lb: "live t base = Some n" using tm(6) by (simp add: t_def n_def)
  then have "base \<noteq> st" using si(3) by auto
  then have live': "live s' base = Some n" using si(4) lb by (simp add: p(3))
  have room2: "base + n \<le> memory_Limit s" "memory_Limit s < 4294967296"
    using live_bounds(2) [OF fs_invD(1) [OF task_invD(3) [OF tm(1)]], of base n] tm(6) mm by (auto simp: V n_def mm_inv_def)
  have len: "hi - lo \<le> n" if "j < e_phnum ?eh" "p_type (ph_at ?m data (e_phoff ?eh) j) = MULTITASK_PROGPTLOAD" for j
    using elf_loadable(2) [OF ok sp that] n by (simp add: sub32_small)
  have len': "hi - lo \<le> n"
  proof (cases "lo \<le> hi")
    case True
    with True n al(3) show ?thesis by (simp add: sub32_small)
  qed simp
  have dj: "disj base (hi - lo) data sz"
  proof -
    have "disj q k base (sub32 hi lo)" by (rule heap.alloc_fresh(3) [OF mm room m b0 own(1)])
    moreover have "q \<noteq> base" using own(1) tm(5) by auto
    then have "disj q k base n" using heap.regions_disjoint [OF fs_invD(1) [OF task_invD(3) [OF tm(1)]], of q k base n] tm(5,6) own(1)
      by (auto simp: n_def)
    ultimately have "disj base n q k" by (simp add: disj_commute)
    then show ?thesis by (rule disj_mono) (use own len' in simp_all)
  qed
  have bl: "base + (hi - lo) < 4294967296" using room2 len' by linarith
  note ls = load_segs_eq [OF elf_loadable(1) [OF ok sp] bl dj refl, of 0, folded m2_def]
  have eh: "read_eh m2 data = ?eh"
  proof (rule file_headers(1))
    show "mread m2 data sz = mread ?m data sz" by (rule mread_cong) (use ls dj in \<open>auto simp: disj_def\<close>)
  qed (use ok in \<open>simp_all add: elf_ok_def Let_def\<close>)
  show ?thesis
    using tm(5) live' len' ls eip mem' unfolding pc_def eh
    by (intro exI [of _ base] exI [of _ n]) auto
qed

section \<open>The process table as a table of slots\<close>

text \<open>A slot holds the address at which its process goes on.\<close>

definition proc_entry :: "'a multi_scheme \<Rightarrow> nat \<Rightarrow> addr option" where
  "proc_entry s i = (if pstack s i = None then None else Some (EIP (regs (multitask_ProcV s ! i))))"

definition proc_take :: "cstring option \<Rightarrow> addr \<Rightarrow> 'a multi_scheme \<Rightarrow> nat option \<times> 'a multi_scheme" where
  "proc_take nm prog s =
     (case spawn nm prog s of
        Inl e \<Rightarrow> (None, s)
      | Inr (pid, s') \<Rightarrow> (if pid < 0 then None else Some (nat pid), s'))"

text \<open>A stack can be had.\<close>

definition proc_room :: "'a multi_scheme \<Rightarrow> bool" where
  "proc_room s \<longleftrightarrow> task_inv s \<and> (\<exists>st s1. malloc MULTITASK_STACKSIZE s = Inr (st, s1) \<and> st \<noteq> 0)"

interpretation procs: slot_table "proc_take nm" proc_entry proc_room "\<lambda>prog. prog \<noteq> 0" 1 MULTITASK_PROCLIMIT for nm
proof (unfold_locales, goal_cases)
  case (1 s prog i s')
  then have inv: "task_inv s" by (simp add: proc_room_def)
  from inv task_invD(6) [OF inv] 1(2) show ?case
  proof (cases rule: spawn_eq [where nm = nm])
    case (started j st s1)
    have j: "j = i" "s' = set_proc (int j) (new_proc nm prog st (multitask_DefRegs s)) s1"
      using 1(3) started(4) by (auto simp: proc_take_def)
    note si = started_inv [OF inv task_invD(6) [OF inv] started(1-3) j(2)]
    have row: "multitask_ProcV s' ! k = multitask_ProcV s ! k" if "k \<noteq> i" for k
      using that j malloc_frame [OF started(2)] task_invD(2) [OF si(1)] proc_slot_Some [OF started(1)] by (auto simp: set_proc_def)
    show ?thesis
      using proc_slot_Some [OF started(1)] si(2,6) row j(1)
      by (auto simp: proc_entry_def fun_eq_iff new_proc_def)
  qed (use 1(3) in \<open>simp_all add: proc_take_def\<close>)
next
  case (2 s prog s')
  then have inv: "task_inv s" by (simp add: proc_room_def)
  from inv task_invD(6) [OF inv] 2(2) show ?case
  proof (cases rule: spawn_eq [where nm = nm])
    case full
    then show ?thesis using 2(3) proc_slot_None [of s] by (auto simp: proc_take_def proc_entry_def)
  next
    case (no_memory i)
    then show ?thesis using 2(1) by (simp add: proc_room_def)
  next
    case (started i st s1)
    then show ?thesis using 2(3) by (simp add: proc_take_def)
  qed
qed

section \<open>Sample states\<close>

text \<open>A program of one segment: eight bytes at the virtual address 0, the first four from the file.\<close>

definition elf_demo :: "u8 list" where
  "elf_demo =
     [0x7F, 0x45, 0x4C, 0x46, 0, 0, 0, 0, 0, 0, 0, 0, 0, 0, 0, 0, 2, 0, 3, 0, 1, 0, 0, 0, 2, 0, 0, 0, 52, 0, 0, 0,
      0, 0, 0, 0, 0, 0, 0, 0, 52, 0, 32, 0, 1, 0, 0, 0, 0, 0, 0, 0,
      1, 0, 0, 0, 84, 0, 0, 0, 0, 0, 0, 0, 0, 0, 0, 0, 4, 0, 0, 0, 8, 0, 0, 0, 5, 0, 0, 0, 0, 16, 0, 0,
      0x90, 0x90, 0xEB, 0xFE]"

text \<open>The sample file system with that program as the file \<open>/a\<close>, and no processes.\<close>

definition multi_demo :: multi where
  "multi_demo = io.extend (io_demo\<lparr>mem := mwrite (\<lambda>_. 0) 16384 elf_demo,
       fs_ent := (\<lambda>_. sample_entry (cstr ''/a'') 88 FS_TYPE_FILE)(8192 := sample_entry (cstr ''/'') 0 FS_TYPE_DIR)\<rparr>)
     \<lparr>cpu = zero_ctx, multitask_InitLock = True, multitask_InStream = False, multitask_KernelProc = zero_proc,
      multitask_Focus = 0, multitask_ProcT = 4096, multitask_ProcV = replicate 32 zero_proc,
      multitask_DefRegs = zero_ctx\<rparr>"

lemma multi_demo_fields [simp]:
  "fs_EntryV multi_demo = fs_EntryV fs_demo" "fs_InitLock multi_demo" "mem multi_demo = mwrite (\<lambda>_. 0) 16384 elf_demo"
  "fs_ent multi_demo = (\<lambda>_. sample_entry (cstr ''/a'') 88 FS_TYPE_FILE)(8192 := sample_entry (cstr ''/'') 0 FS_TYPE_DIR)"
  "memory_BlockV multi_demo = memory_BlockV fs_demo" "memory_BlockC multi_demo = 16" "memory_Space multi_demo = 8192"
  "multitask_InitLock multi_demo" "multitask_ProcV multi_demo = replicate 32 zero_proc" "multitask_Focus multi_demo = 0"
  "multitask_DefRegs multi_demo = zero_ctx"
  by (simp_all add: multi_demo_def io_demo_def fs.defs io.defs) (simp_all add: fs_demo_def)

lemma multi_demo_heap: "live multi_demo = live fs_demo" "mm_inv multi_demo" "fits multi_demo 4096"
proof -
  have f: "memory_InitLock multi_demo = memory_InitLock fs_demo" "memory_Space multi_demo = memory_Space fs_demo"
    "memory_Limit multi_demo = memory_Limit fs_demo" "memory_BlockV multi_demo = memory_BlockV fs_demo"
    "memory_BlockC multi_demo = memory_BlockC fs_demo"
    by (simp_all add: multi_demo_def io_demo_def fs.defs io.defs)
  show "live multi_demo = live fs_demo" by (rule live_cong [OF f(2,4)])
  show "mm_inv multi_demo" using mm_inv_cong [OF f] fs_demo_mm by simp
  show "fits multi_demo 4096" by (simp add: fits_def)
qed

lemma multi_demo_use: "in_use multi_demo i \<longleftrightarrow> i = 0 \<or> i = 1"
  using fs_demo_use [of i] by (simp add: in_use_def)

lemma multi_demo_ent: "ent_at multi_demo 0 = sample_entry (cstr ''/'') 0 FS_TYPE_DIR"
  "ent_at multi_demo 1 = sample_entry (cstr ''/a'') 88 FS_TYPE_FILE"
  "fs_EntryV multi_demo 0 = 8192" "fs_EntryV multi_demo 1 = 12288"
  using fs_demo_ent(3,4) by (simp_all add: ent_at_def)

lemma multi_demo_fs: "fs_inv multi_demo"
  unfolding fs_inv_def multi_demo_use
proof (intro conjI allI impI)
  show "mm_inv multi_demo" by (rule multi_demo_heap)
  show "fs_InitLock multi_demo" by simp
next
  fix i :: nat assume "i = 0 \<or> i = 1"
  then show "entry_ok (ent_at multi_demo i) (live multi_demo (fs_EntryV multi_demo i))"
    by (elim disjE) (simp_all add: multi_demo_ent [simplified] multi_demo_heap fs_demo_ent [simplified] fs_demo_live
        entry_ok_def sample_entry_def cstr_def ends_slash_def)
next
  fix i j :: nat assume "i = 0 \<or> i = 1" "j = 0 \<or> j = 1"
    "fs_EntryV multi_demo i = fs_EntryV multi_demo j \<or> name (ent_at multi_demo i) = name (ent_at multi_demo j)"
  then show "i = j"
    by (elim disjE) (simp_all add: multi_demo_ent [simplified] fs_demo_ent [simplified] sample_entry_def cstr_def)
qed

lemma multi_demo_idle: "pstack multi_demo i = None"
  by (simp add: pstack_def zero_proc_def)

lemma multi_demo_inv: "task_inv multi_demo"
  unfolding task_inv_def using multi_demo_fs multi_demo_idle by simp

text \<open>The blocks from 3 on are free.\<close>

lemma scan_one:
  assumes "length V = 16" "b < 16" "\<not> allocated (V ! b)" "\<And>j. j < b \<Longrightarrow> allocated (V ! j)"
  shows "scan (\<lambda>i. free_run V i (Suc 0)) 0 16 = Some b"
proof (rule scan_SomeI)
  have one: "free_run V i (Suc 0) \<longleftrightarrow> i < length V \<and> \<not> allocated (V ! i)" for i
    by (auto simp: free_run_def le_less_Suc_eq)
  show "free_run V b (Suc 0)" using assms one by simp
  show "\<not> free_run V j (Suc 0)" if "j < b" for j using assms(4) [OF that] one by simp
qed (use assms in simp_all)

lemma demo_allocated: "allocated (memory_BlockV fs_demo ! j) \<longleftrightarrow> j < 3" if "j < 16"
proof -
  have "allocated (memory_BlockV fs_demo ! j) \<longleftrightarrow> j = 0 \<or> j = 1 \<or> j = 2"
    using that by (auto simp: fs_demo_def nth_place)
  then show ?thesis by auto
qed

lemma demo_malloc:
  assumes "mm_inv s" "memory_BlockC s = 16" "memory_Space s = 8192" "memory_BlockV s = V" "b < 16"
    and "\<not> allocated (V ! b)" "\<And>j. j < b \<Longrightarrow> allocated (V ! j)" "0 < k" "k \<le> 4096"
  shows "malloc k s = Inr (8192 + b * 4096, s\<lparr>memory_BlockV := place V b 1\<rparr>)"
proof -
  have n: "nblocks k = 1" using assms(8,9) by (simp add: nblocks_def)
  have f: "fits s k" using assms(2,8,9) by (simp add: fits_def)
  have "length V = 16" using mm_inv_length [OF assms(1)] assms(2,4) by simp
  note sc = scan_one [OF this assms(5-7)]
  have "Suc (16 - 1) = 16" by simp
  then show ?thesis unfolding malloc_eq [OF assms(1) f] n assms(2-4) using sc by simp
qed

lemma multi_demo_malloc: "malloc 4096 multi_demo = Inr (20480, multi_demo\<lparr>memory_BlockV := place (memory_BlockV fs_demo) 3 1\<rparr>)"
  using demo_malloc [OF multi_demo_heap(2), of "memory_BlockV fs_demo" 3] demo_allocated by simp

text \<open>After a call of \<open>spawn\<close>.\<close>

definition multi_demo1 :: multi where
  "multi_demo1 = set_proc 1 (new_proc None 100 20480 zero_ctx)
     (multi_demo\<lparr>memory_BlockV := place (memory_BlockV fs_demo) 3 1\<rparr>)"

lemma demo_slot: "proc_slot multi_demo = Some 1"
  by (simp add: proc_slot_def scan_def zero_proc_def upt_conv_Cons)

lemma multi_demo1_spawn: "spawn None 100 multi_demo = Inr (1, multi_demo1)"
  using demo_slot multi_demo_malloc by (simp add: spawn_def proc_slot_def multi_demo1_def)

lemma multi_demo1_inv: "task_inv multi_demo1" "pstack multi_demo1 = [1 \<mapsto> 20480]"
  "multitask_ProcV multi_demo1 ! 1 = new_proc None 100 20480 zero_ctx zero_proc" "multitask_Focus multi_demo1 = 0"
proof -
  have d: "multi_demo1 = set_proc (int 1) (new_proc None 100 20480 (multitask_DefRegs multi_demo))
     (multi_demo\<lparr>memory_BlockV := place (memory_BlockV fs_demo) 3 1\<rparr>)" by (simp add: multi_demo1_def)
  note si = started_inv [OF multi_demo_inv multi_demo_heap(3) demo_slot multi_demo_malloc _ d]
  show "task_inv multi_demo1" by (rule si(1)) simp
  show "pstack multi_demo1 = [1 \<mapsto> 20480]" using si(2) multi_demo_idle by (auto simp: fun_eq_iff)
  show "multitask_ProcV multi_demo1 ! 1 = new_proc None 100 20480 zero_ctx zero_proc" using si(6) by simp
  show "multitask_Focus multi_demo1 = 0" by (simp add: multi_demo1_def)
qed

lemma multi_demo1_steady: "steady multi_demo1" "can_run multi_demo1 1"
proof -
  have "stack_fault (new_proc None 100 20480 zero_ctx zero_proc) = None"
    by (simp add: stack_fault_def new_proc_def)
  then show "steady multi_demo1"
    unfolding steady_def using multi_demo1_inv by (auto split: if_splits)
  show "can_run multi_demo1 1"
    using multi_demo1_inv(3) by (simp add: can_run_def runnable_def new_proc_def)
qed

lemma turns_exist: "steady s \<Longrightarrow> can_run s j \<Longrightarrow> \<exists>fs s'. length fs = n \<and> turns s fs s'"
proof (induction n)
  case 0
  then show ?case using turns_Nil by fastforce
next
  case (Suc n)
  then obtain fs s1 where f: "length fs = n" "turns s fs s1" by blast
  have s1: "steady s1" "can_run s1 j" using turns_steady [OF f(2) Suc.prems(1)] Suc.prems(2) by auto
  let ?c = "regs (multitask_ProcV s1 ! nat (multitask_Focus s1))"
  have c: "well_behaved ?c s1"
    using s1(1) by (cases "pstack s1 (nat (multitask_Focus s1))") (auto simp: steady_def well_behaved_def)
  obtain s2 where "yield (s1\<lparr>cpu := ?c, mem := mem s1\<rparr>) = Inr s2" using turns_never_stuck [OF s1 c] by blast
  from turns_step [OF f(2) c this] f(1) show ?case by (metis length_append_singleton)
qed

section \<open>Properties\<close>

text \<open>C21.
  From the initialisation on, whatever the sequence of \<open>spawn\<close>, \<open>exec\<close>, \<open>kill\<close>, \<open>yield\<close> and \<open>exit\<close>, and
  whatever the processes do in between to their registers and to the bytes of memory: the file
  system stays intact, every process owns a stack of 4096 bytes that is allocated, and no stack
  overlaps another one or an entry of the file system.\<close>

theorem process_history_invariant:
  assumes "fs_inv s" "\<not> multitask_InitLock s" "fits s (MULTITASK_PROCLIMIT * sizeof_Proc)"
    and "multitask_init cr3 eflags s = Inr s0" "task_run s0 rs s'"
  shows "fs_inv s' \<and> (\<forall>i st. pstack s' i = Some st \<longrightarrow> live s' st = Some MULTITASK_STACKSIZE \<and>
      (\<forall>f k. in_use s' f \<longrightarrow> live s' (fs_EntryV s' f) = Some k \<longrightarrow> disj st MULTITASK_STACKSIZE (fs_EntryV s' f) k) \<and>
      (\<forall>j r. pstack s' j = Some r \<longrightarrow> i \<noteq> j \<longrightarrow> disj st MULTITASK_STACKSIZE r MULTITASK_STACKSIZE))"
proof -
  have "task_inv s0" using multitask_init_inv [OF assms(1-4)] by blast
  then have inv: "task_inv s'" by (rule task_run_inv [OF assms(5)])
  from task_invD(3) [OF inv] stack_regions [OF inv] show ?thesis by blast
qed

definition multi_boot :: multi where
  "multi_boot = multi_demo\<lparr>multitask_InitLock := False\<rparr>"

lemma multi_boot_init: "fs_inv multi_boot" "fits multi_boot 2432"
  "\<exists>s0. multitask_init 0 2 multi_boot = Inr s0"
proof -
  have h: "same_heap multi_boot multi_demo" by (rule same_heapI) (simp_all add: multi_boot_def)
  show "fs_inv multi_boot" using same_heapD(1) [OF h] multi_demo_fs by simp
  show "fits multi_boot 2432" by (simp add: fits_def multi_boot_def)
  have mm: "mm_inv multi_boot" using h multi_demo_heap(2) by (simp add: same_heap_def)
  have "malloc 2432 multi_boot = Inr (20480, multi_boot\<lparr>memory_BlockV := place (memory_BlockV fs_demo) 3 1\<rparr>)"
    using demo_malloc [OF mm, of "memory_BlockV fs_demo" 3] demo_allocated by (simp add: multi_boot_def)
  then show "\<exists>s0. multitask_init 0 2 multi_boot = Inr s0" by (simp add: multitask_init_def multi_boot_def)
qed

theorem process_history_invariant_witness:
  "\<exists>s0 s'. multitask_init 0 2 multi_boot = Inr s0 \<and> task_run s0 [Spawn None 100] s' \<and> fs_inv s'"
proof -
  have lock: "\<not> multitask_InitLock multi_boot" by (simp add: multi_boot_def)
  obtain s0 where s0: "multitask_init 0 2 multi_boot = Inr s0" using multi_boot_init(3) by blast
  have room: "fits multi_boot (MULTITASK_PROCLIMIT * sizeof_Proc)" using multi_boot_init(2) by simp
  have inv: "task_inv s0" using multitask_init_inv [OF multi_boot_init(1) lock room s0] by blast
  have "(100 :: nat) \<noteq> 0" by simp
  with inv task_invD(6) [OF inv] obtain pid s' where "spawn None 100 s0 = Inr (pid, s')"
    by (cases rule: spawn_eq [where nm = None]) auto
  then have r: "task_run s0 [Spawn None 100] s'" by (auto intro: run_Cons run_Nil step_spawn)
  from process_history_invariant [OF multi_boot_init(1) lock room s0 r] s0 r show ?thesis by blast
qed

text \<open>C22.
  \<open>spawn\<close> with a program answers -1 exactly when all 31 slots are taken or no stack can be had, and then
  changes neither the processes nor the heap; otherwise it answers the lowest free slot, where the
  process waits at the program's address with a stack of its own, and \<open>kill\<close> of that slot gives the
  heap and the table back as they were.\<close>

theorem spawn_kill_roundtrip:
  assumes "task_inv s" "prog \<noteq> 0"
  shows "\<exists>pid s'. spawn nm prog s = Inr (pid, s') \<and> task_inv s' \<and> fs_view s' = fs_view s \<and>
    (pid = -1 \<longleftrightarrow> card {i. pstack s i \<noteq> None} = 31 \<or> malloc MULTITASK_STACKSIZE s = Inr (0, s)) \<and>
    (if pid = -1 then pstack s' = pstack s \<and> live s' = live s
     else \<exists>i st. pid = int i \<and> 1 \<le> i \<and> i < MULTITASK_PROCLIMIT \<and> pstack s i = None \<and>
       (\<forall>j. 1 \<le> j \<and> j < i \<longrightarrow> pstack s j \<noteq> None) \<and> live s st = None \<and> pstack s' = (pstack s)(i \<mapsto> st) \<and>
       live s' = (live s)(st \<mapsto> MULTITASK_STACKSIZE) \<and>
       EIP (regs (multitask_ProcV s' ! i)) = prog \<and> ESP (regs (multitask_ProcV s' ! i)) = st + MULTITASK_STACKSIZE \<and>
       (\<exists>s''. kill pid s' = Inr (0, s'') \<and> pstack s'' = pstack s \<and> live s'' = live s \<and> fs_view s'' = fs_view s))"
proof -
  have all: "proc_slot s = None \<longleftrightarrow> card {i. pstack s i \<noteq> None} = 31"
  proof -
    have sub: "{i. pstack s i \<noteq> None} \<subseteq> {1..<32}" by (auto simp: pstack_def split: if_splits)
    show ?thesis
    proof
      assume "proc_slot s = None"
      then have "{i. pstack s i \<noteq> None} = {1..<32}" using sub by (auto simp: proc_slot_None)
      then show "card {i. pstack s i \<noteq> None} = 31" by simp
    next
      assume "card {i. pstack s i \<noteq> None} = 31"
      with sub have "{i. pstack s i \<noteq> None} = {1..<32}" by (intro card_subset_eq) simp_all
      then show "proc_slot s = None" unfolding proc_slot_None by auto
    qed
  qed
  from assms(1) task_invD(6) [OF assms(1)] assms(2) show ?thesis
  proof (cases rule: spawn_eq [where nm = nm])
    case full
    then show ?thesis using all assms(1) by (intro exI [of _ "-1"] exI [of _ s]) simp
  next
    case (no_memory i)
    note nm = no_memory_inv [OF assms(1) no_memory(1)]
    have "fs_view (set_proc (int i) (stack_update (\<lambda>_. 0)) s) = fs_view s"
      by (rule fs_view_cong) (simp_all add: set_proc_def)
    then show ?thesis using nm no_memory by (intro exI [of _ "-1"] exI [of _ "set_proc (int i) (stack_update (\<lambda>_. 0)) s"]) simp
  next
    case (started i st s1)
    define s' where "s' = set_proc (int i) (new_proc nm prog st (multitask_DefRegs s)) s1"
    note si = started_inv [OF assms(1) task_invD(6) [OF assms(1)] started(1-3) s'_def]
    note ps = proc_slot_Some [OF started(1)]
    have st: "pstack s' i = Some st" using si(2) by simp
    from kill_eq [OF si(1) st] obtain s'' where k: "kill (int i) s' = Inr (0, s'')" "live s'' = (live s')(st := None)"
      "pstack s'' = (pstack s')(i := None)" "fs_view s'' = fs_view s'" by blast
    have "st + 4096 \<le> memory_Limit s'" "memory_Limit s' < 4294967296"
      using live_bounds(2) [OF fs_invD(1) [OF task_invD(3) [OF si(1)]], of st 4096] si(4)
        fs_invD(1) [OF task_invD(3) [OF si(1)]] by (auto simp: mm_inv_def)
    then have "wrap32 (st + 4096) = st + 4096" by simp
    then have "EIP (regs (multitask_ProcV s' ! i)) = prog" "ESP (regs (multitask_ProcV s' ! i)) = st + 4096"
      using si(6) by (simp_all add: new_proc_def)
    moreover have "live s'' = live s" "pstack s'' = pstack s" "fs_view s'' = fs_view s"
      using k(2-4) si ps by (auto simp: fun_eq_iff)
    moreover have "\<not> (card {i. pstack s i \<noteq> None} = 31 \<or> malloc MULTITASK_STACKSIZE s = Inr (0, s))"
      using all started(1-3) by simp
    ultimately show ?thesis
      using started(4) si k(1) ps
      by (intro exI [of _ "int i"] exI [of _ s']) (auto simp: s'_def)
  qed
qed

theorem spawn_kill_roundtrip_witness:
  "\<exists>s''. spawn None 100 multi_demo = Inr (1, multi_demo1) \<and> kill 1 multi_demo1 = Inr (0, s'') \<and>
     pstack s'' = pstack multi_demo \<and> live s'' = live multi_demo"
proof -
  have "(100 :: nat) \<noteq> 0" by simp
  from spawn_kill_roundtrip [OF multi_demo_inv this, of None] multi_demo1_spawn show ?thesis
    by auto
qed

text \<open>C23.
  Scheduling is fair. While every process yields with its stack pointer inside its stack, the system
  never panics as long as some process can run, and any 32 successive switches give the processor to
  each process that can run, however the processes change their registers and memory.\<close>

theorem round_robin_fair:
  assumes "steady s" "can_run s j" "turns s fs s'"
  shows "steady s' \<and> (length fs = 32 \<longrightarrow> j \<in> set fs) \<and>
    (\<forall>c m. well_behaved c s' \<longrightarrow> (\<exists>s2. yield (s'\<lparr>cpu := c, mem := m\<rparr>) = Inr s2))"
proof -
  have s': "steady s'" "can_run s' j" using turns_steady [OF assms(3,1)] assms(2) by auto
  have j: "1 \<le> j" "j < 32" using assms(2) by (simp_all add: can_run_def)
  have f: "0 \<le> multitask_Focus s" "multitask_Focus s < 32" "0 \<le> multitask_Focus s'" "multitask_Focus s' < 32"
    using assms(1) s'(1) by (simp_all add: steady_def)
  have "length fs < 32" if "j \<notin> set fs"
    using turns_rank [OF assms(3,1,2) that] rank_bounds [OF f(1,2) j] rank_bounds [OF f(3,4) j] by linarith
  then have "length fs = 32 \<longrightarrow> j \<in> set fs" by (metis less_irrefl)
  with s' turns_never_stuck [OF s'] show ?thesis by blast
qed

theorem round_robin_fair_witness:
  "\<exists>fs s'. turns multi_demo1 fs s' \<and> length fs = 32 \<and> 1 \<in> set fs"
proof -
  obtain fs s' where t: "length fs = 32" "turns multi_demo1 fs s'" using turns_exist [OF multi_demo1_steady] by blast
  from round_robin_fair [OF multi_demo1_steady t(2)] t show ?thesis by auto
qed

text \<open>C24.
  A process that yields finds its registers again: when it gets the processor back for the first time,
  all registers hold what they held at its \<open>yield\<close>, and the word below its stack pointer is the address
  to go on at, whatever the others did in between.\<close>

theorem resume_restores:
  assumes "steady s" "multitask_Focus s = i" "well_behaved c s" "yield (s\<lparr>cpu := c, mem := m\<rparr>) = Inr s1"
    and "turns s1 fs s2" "nat i \<notin> set fs" "well_behaved c' s2" "yield (s2\<lparr>cpu := c', mem := m'\<rparr>) = Inr s3"
    and "multitask_Focus s3 = i" "EIP c < 2 ^ 32"
  shows "cpu s3 = c \<and> rd32 (mem s3) (sub32 (ESP c) 4) = EIP c"
proof -
  note t1 = turn_steady [OF assms(1,3,4)]
  have i: "0 \<le> i" "i < 32" using assms(1,2) by (simp_all add: steady_def)
  have f1: "multitask_Focus s1 \<noteq> i" using t1(2,4) assms(2) by simp
  have c1: "ctx_of i s1 = c" using t1(7) [OF i] assms(2) by simp
  have "turns s1 (fs @ [nat (multitask_Focus s3)]) s3" by (rule turns_step [OF assms(5,7,8)])
  from turns_resume [OF this t1(1) i _ f1] assms(6,9) c1 have "cpu s3 = c" by simp
  moreover have "steady s2" using turns_steady [OF assms(5) t1(1)] by simp
  note t3 = turn_steady [OF this assms(7,8)]
  ultimately show ?thesis using t3(6) assms(10) by simp
qed

theorem resume_restores_witness:
  "\<exists>s1 c' s3. yield (multi_demo1\<lparr>cpu := zero_ctx\<lparr>EIP := 1234\<rparr>\<rparr>) = Inr s1 \<and> multitask_Focus s1 = 1 \<and>
     yield (s1\<lparr>cpu := c'\<rparr>) = Inr s3 \<and> EIP (cpu s3) = 1234"
proof -
  let ?c = "zero_ctx\<lparr>EIP := 1234\<rparr>"
  note st = multi_demo1_steady and foc = multi_demo1_inv(4)
  have wb: "well_behaved ?c multi_demo1" using multi_demo1_inv(2) foc by (simp add: well_behaved_def)
  from turns_never_stuck [OF st wb, of "mem multi_demo1"] obtain s1
    where y1: "yield (multi_demo1\<lparr>cpu := ?c, mem := mem multi_demo1\<rparr>) = Inr s1" by blast
  note t1 = turn_steady [OF st(1) wb y1]
  have "0 < new_focus multi_demo1 \<and> new_focus multi_demo1 \<le> 1"
    using new_focus_range(5) [of multi_demo1 1] st(2) foc by simp
  then have f1: "multitask_Focus s1 = 1" using t1(2) by simp
  let ?c' = "regs (multitask_ProcV s1 ! 1)"
  have wb': "well_behaved ?c' s1"
    using t1(1) f1 by (cases "pstack s1 1") (auto simp: steady_def well_behaved_def)
  have run1: "can_run s1 1" using t1(3) st(2) by simp
  from turns_never_stuck [OF t1(1) run1 wb', of "mem s1"] obtain s3
    where y3: "yield (s1\<lparr>cpu := ?c', mem := mem s1\<rparr>) = Inr s3" by blast
  note t3 = turn_steady [OF t1(1) wb' y3]
  have "\<not> can_run multi_demo1 k" if "k \<noteq> 1" for k
    using multi_demo1_inv(2) that by (auto simp: can_run_def runnable_def pstack_def fun_eq_iff split: if_splits)
  then have "new_focus s1 = 0"
    using new_focus_range(1,4) [of s1] t1(1,3) t3(4) f1 by (cases "nat (new_focus s1) = 1") (auto simp: steady_def)
  then have f3: "multitask_Focus s3 = 0" using t3(2) by simp
  have e: "EIP ?c < 2 ^ 32" by simp
  have nf: "nat 0 \<notin> set []" by simp
  from resume_restores [OF st(1) foc wb y1 turns_Nil nf wb' y3 f3 e] have "EIP (cpu s3) = 1234" by simp
  moreover have "multi_demo1\<lparr>cpu := ?c\<rparr> = multi_demo1\<lparr>cpu := ?c, mem := mem multi_demo1\<rparr>"
    "s1\<lparr>cpu := ?c'\<rparr> = s1\<lparr>cpu := ?c', mem := mem s1\<rparr>" by simp_all
  ultimately show ?thesis using y1 y3 f1 by metis
qed

text \<open>C25.
  \<open>exec\<close> of a well-formed program file with data of its own (not a mounted one) that answers a process has put every loadable segment into a
  fresh region of the heap, the bytes of the file followed by zeros, has changed no byte outside that
  region, and has set the process to start at the region's address plus the entry of the header -
  which is the loaded entry only if the lowest segment lies at the virtual address 0.\<close>

theorem exec_loads_segments:
  assumes "task_inv s" "exec (name (ent_at s i)) s = Inr (pid, s')" "pid \<noteq> -1"
    and "in_use s i" "etype (ent_at s i) = FS_TYPE_FILE" "ftype (ent_at s i) \<noteq> FS_TYPE_MOUNTED"
    and "data = fs_EntryV s i + MEMORY_BLKSIZE" "elf_ok (mem s) data (fsize (ent_at s i))"
    and "image_span (mem s) data = (lo, hi)" "eh = read_eh (mem s) data"
  shows "\<exists>base n. live s base = None \<and> live s' base = Some n \<and> hi - lo \<le> n \<and>
    (\<forall>j < e_phnum eh. p_type (ph_at (mem s) data (e_phoff eh) j) = MULTITASK_PROGPTLOAD \<longrightarrow>
       seg_loaded (mem s') (mem s) data base lo (ph_at (mem s) data (e_phoff eh) j)) \<and>
    (\<forall>a. a < base \<or> base + n \<le> a \<longrightarrow> mem s' a = mem s a) \<and>
    EIP (regs (multitask_ProcV s' ! nat pid)) = wrap32 (base + e_entry eh)"
proof -
  let ?s = "stamp (fs_EntryV s i) atime_update s"
  note fs = task_invD(3) [OF assms(1)]
  have rd: "fs_readFile (name (ent_at s i)) s = Inr (data, ?s)"
    using readFile_eq [OF fs assms(4-6)] assms(7) by simp
  have path: "is_cstr (name (ent_at s i))" by (rule entry_okD(1) [OF fs_invD(3) [OF fs assms(4)]])
  note tr = task_readFile [OF assms(1) path rd]
  have ex: "exec_image (name (ent_at s i)) data ?s = Inr (pid, s')"
    using assms(2,3) rd by (auto simp: exec_def split: if_splits)
  obtain k where k: "live s (fs_EntryV s i) = Some k" "MEMORY_BLKSIZE + fsize (ent_at s i) \<le> k"
    using in_use_live [OF fs assms(4)] assms(5,6) unfolding own_bytes_def by blast
  from exec_image_loads [OF tr(1) _ ex assms(3), of "fsize (ent_at s i)" "fs_EntryV s i" k lo hi] assms(7-10) k tr(3,4)
  show ?thesis by simp
qed

lemma elf_demo_at: "i < 88 \<Longrightarrow> mem multi_demo (16384 + i) = elf_demo ! i"
  by (simp add: mwrite_def elf_demo_def)

lemma elf_demo_facts:
  "read_eh (mem multi_demo) 16384 =
     \<lparr>e_ident = take 16 elf_demo, e_type = 2, e_machine = 3, e_version = 1, e_entry = 2, e_phoff = 52, e_shoff = 0,
      e_flags = 0, e_ehsize = 52, e_phentsize = 32, e_phnum = 1, e_shentsize = 0, e_shnum = 0, e_shstrndx = 0\<rparr>"
  "ph_at (mem multi_demo) 16384 52 0 =
     \<lparr>p_type = 1, p_offset = 84, p_vaddr = 0, p_paddr = 0, p_filesz = 4, p_memsz = 8, p_flags = 5, p_align = 4096\<rparr>"
  "rd32 (mem multi_demo) 16384 = MULTITASK_PROGMAGIC"
proof -
  have a: "mem multi_demo (Suc 16384) = elf_demo ! 1" using elf_demo_at [of 1] by simp
  have m: "mem multi_demo a = elf_demo ! (a - 16384)" if "16384 \<le> a" "a < 16472" for a
    using elf_demo_at [of "a - 16384"] that by simp
  have l: "length elf_demo = 88" by (simp add: elf_demo_def)
  have r: "mread (mem multi_demo) 16384 16 = take 16 elf_demo"
    by (rule nth_equalityI) (simp_all add: l m del: multi_demo_fields)
  show "read_eh (mem multi_demo) 16384 =
     \<lparr>e_ident = take 16 elf_demo, e_type = 2, e_machine = 3, e_version = 1, e_entry = 2, e_phoff = 52, e_shoff = 0,
      e_flags = 0, e_ehsize = 52, e_phentsize = 32, e_phnum = 1, e_shentsize = 0, e_shnum = 0, e_shstrndx = 0\<rparr>"
    unfolding read_eh_def r by (simp add: rd16_def rd32_def m del: multi_demo_fields) (simp add: elf_demo_def)
  show "ph_at (mem multi_demo) 16384 52 0 =
     \<lparr>p_type = 1, p_offset = 84, p_vaddr = 0, p_paddr = 0, p_filesz = 4, p_memsz = 8, p_flags = 5, p_align = 4096\<rparr>"
    by (simp add: ph_at_def read_ph_def rd32_def m del: multi_demo_fields) (simp add: elf_demo_def)
  show "rd32 (mem multi_demo) 16384 = MULTITASK_PROGMAGIC"
    by (simp add: rd32_def m del: multi_demo_fields) (simp add: elf_demo_def)
qed

lemma elf_demo_ok: "elf_ok (mem multi_demo) 16384 88" "image_span (mem multi_demo) 16384 = (0, 4096)"
  using elf_demo_facts by (simp_all add: elf_ok_def image_span_def widen_def align_down_def del: multi_demo_fields)

lemma elf_demo_exec: "\<exists>s'. exec (name (ent_at multi_demo 1)) multi_demo = Inr (1, s')"
proof -
  let ?path = "name (ent_at multi_demo 1)" and ?m = "mem multi_demo"
  define s1 where "s1 = stamp 12288 atime_update multi_demo"
  have i: "in_use multi_demo 1" "etype (ent_at multi_demo 1) = FS_TYPE_FILE" "ftype (ent_at multi_demo 1) \<noteq> FS_TYPE_MOUNTED"
    unfolding multi_demo_use multi_demo_ent by (simp_all add: sample_entry_def)
  have path: "is_cstr ?path" "?path \<noteq> []" unfolding multi_demo_ent by (simp_all add: sample_entry_def cstr_def)
  have rd: "fs_readFile ?path multi_demo = Inr (16384, s1)"
    using readFile_eq [OF multi_demo_fs i] unfolding multi_demo_ent(4) s1_def by simp
  have stat: "fs_stat ?path multi_demo \<noteq> 0"
    unfolding fs_stat_in_use [OF multi_demo_fs i(1)] multi_demo_ent(4) by simp
  note tr = task_readFile [OF multi_demo_inv path(1) rd]
  have f1: "memory_BlockC s1 = 16" "memory_Space s1 = 8192" "memory_BlockV s1 = memory_BlockV fs_demo"
    "multitask_InitLock s1" "multitask_ProcV s1 = replicate 32 zero_proc"
    by (simp_all add: s1_def stamp_eq set_ent_def)
  have mm1: "mm_inv s1" by (rule fs_invD(1) [OF task_invD(3) [OF tr(1)]])
  let ?V = "place (memory_BlockV fs_demo) 3 1"
  have m1: "malloc (sub32 4096 0) s1 = Inr (20480, s1\<lparr>memory_BlockV := ?V\<rparr>)"
    using demo_malloc [OF mm1 f1(1-3), of 3] demo_allocated by (simp add: sub32_small)
  define m2 where "m2 = load_segs ?m 16384 52 20480 0 0"
  have dj: "disj 20480 4096 16384 88" by (simp add: disj_def)
  have "\<forall>a. a < 20480 \<or> 20480 + 4096 \<le> a \<longrightarrow> m2 a = ?m a"
    using load_segs_eq [of ?m 16384 88 0 4096 20480 ?m 0] elf_loadable(1) [OF elf_demo_ok] dj elf_demo_facts(1)
    by (simp add: m2_def del: multi_demo_fields)
  then have "mread m2 16384 88 = mread ?m 16384 88" by (intro mread_cong) simp
  then have "read_eh m2 16384 = read_eh ?m 16384" by (rule file_headers(1)) simp_all
  then have pc: "wrap32 (20480 + e_entry (read_eh m2 16384)) = 20482" by (simp add: elf_demo_facts(1) del: multi_demo_fields)
  define t where "t = s1\<lparr>memory_BlockV := ?V, mem := m2\<rparr>"
  have "task_inv (s1\<lparr>memory_BlockV := ?V\<rparr>)"
    using task_malloc(1) [OF tr(1) _ m1] malloc_any [OF mm1 _ m1] by (simp add: sub32_small)
  then have ti: "task_inv t" by (simp add: t_def)
  have len: "length (memory_BlockV fs_demo) = 16" by (simp add: fs_demo_def)
  have "malloc 4096 t = Inr (24576, t\<lparr>memory_BlockV := place ?V 4 1\<rparr>)"
    using demo_malloc [of t ?V 4] fs_invD(1) [OF task_invD(3) [OF ti]] demo_allocated f1
    by (auto simp: t_def nth_place len)
  moreover have "proc_slot t = Some 1"
    by (simp add: proc_slot_def scan_def t_def f1 zero_proc_def upt_conv_Cons)
  ultimately obtain s3 where "spawn (Some ?path) 20482 t = Inr (1, s3)"
    using f1(4) by (simp add: spawn_def proc_slot_def t_def)
  then have "exec_image ?path 16384 s1 = Inr (1, set_proc 1 (pfile_update (\<lambda>_. True)) s3)"
    using m1 pc by (simp add: exec_image_def tr(4) elf_demo_ok elf_demo_facts(1) Let_def m2_def [symmetric] t_def del: multi_demo_fields)
  then show ?thesis
    using rd stat path(2) elf_demo_facts(3) by (simp add: exec_def tr(4) del: multi_demo_fields(1,3-6))
qed

theorem exec_loads_segments_witness:
  "\<exists>s' base n. exec (cstr ''/a'') multi_demo = Inr (1, s') \<and> live s' base = Some n \<and>
     mread (mem s') base 8 = [0x90, 0x90, 0xEB, 0xFE, 0, 0, 0, 0] \<and> EIP (regs (multitask_ProcV s' ! 1)) = wrap32 (base + 2)"
proof -
  obtain s' where ex: "exec (name (ent_at multi_demo 1)) multi_demo = Inr (1, s')" using elf_demo_exec by blast
  have i: "in_use multi_demo 1" "etype (ent_at multi_demo 1) = FS_TYPE_FILE" "ftype (ent_at multi_demo 1) \<noteq> FS_TYPE_MOUNTED"
    "16384 = fs_EntryV multi_demo 1 + MEMORY_BLKSIZE" "fsize (ent_at multi_demo 1) = 88"
    unfolding multi_demo_use multi_demo_ent by (simp_all add: sample_entry_def)
  have nm: "name (ent_at multi_demo 1) = cstr ''/a''" unfolding multi_demo_ent by (simp add: sample_entry_def)
  have ok: "elf_ok (mem multi_demo) 16384 (fsize (ent_at multi_demo 1))" using elf_demo_ok(1) i(5) by simp
  have p: "(1 :: int) \<noteq> -1" by simp
  have b: "mread (mem multi_demo) (16384 + 84) 4 = [0x90, 0x90, 0xEB, 0xFE]"
    using elf_demo_at [of 84] elf_demo_at [of 85] elf_demo_at [of 86] elf_demo_at [of 87]
    by (simp add: mread_def upt_conv_Cons del: multi_demo_fields) (simp add: elf_demo_def)
  from exec_loads_segments [OF multi_demo_inv ex p i(1-4) ok elf_demo_ok(2) refl] obtain base n where
    "live s' base = Some n" "seg_loaded (mem s') (mem multi_demo) 16384 base 0 (ph_at (mem multi_demo) 16384 52 0)"
    "EIP (regs (multitask_ProcV s' ! 1)) = wrap32 (base + 2)"
    using elf_demo_facts by (auto simp del: multi_demo_fields)
  note r = this
  have "mread (mem s') (base + (0 - 0)) 8 = mread (mem multi_demo) (16384 + 84) 4 @ replicate (8 - 4) 0"
    using r(2) unfolding seg_loaded_def seg_target_def elf_demo_facts(2) by (simp only: multitask_ProgELF32PH.select_convs)
  moreover have "replicate (8 - 4) 0 = [0, 0, 0, 0 :: u8]" by (simp add: numeral_eq_Suc)
  ultimately have "mread (mem s') base 8 = [0x90, 0x90, 0xEB, 0xFE, 0, 0, 0, 0]" unfolding b by simp
  with r(1,3) ex nm show ?thesis by (intro exI [of _ s'] exI [of _ base] exI [of _ n]) simp
qed

end
