(* ===== verification/PortIO.thy ===== *)
theory PortIO
  imports Prelude
begin

text \<open>
  Port input and output, \<open>source/hw/port.c\<close>. The devices behind the ports are not part of the program: the
  field \<open>device\<close> is an arbitrary function from everything that went over the ports so far to the
  value a read answers, and \<open>io_log\<close> is that history.
\<close>

datatype width = W8 | W16 | W32

datatype port_event = PIn width u16 | POut width u16 u32

record ports =
  device :: "port_event list \<Rightarrow> width \<Rightarrow> u16 \<Rightarrow> u32"
  io_log :: "port_event list"

definition port_in :: "width \<Rightarrow> u16 \<Rightarrow> ports \<Rightarrow> u32 \<times> ports" where
  "port_in w port p = (device p (io_log p) w port, p\<lparr>io_log := io_log p @ [PIn w port]\<rparr>)"

definition port_out :: "width \<Rightarrow> u16 \<Rightarrow> u32 \<Rightarrow> ports \<Rightarrow> ports" where
  "port_out w port v p = p\<lparr>io_log := io_log p @ [POut w port v]\<rparr>"

definition port_inb :: "u16 \<Rightarrow> ports \<Rightarrow> u8 \<times> ports" where
  "port_inb port p = (let (v, p1) = port_in W8 port p in (ucast v, p1))"

definition port_inw :: "u16 \<Rightarrow> ports \<Rightarrow> u16 \<times> ports" where
  "port_inw port p = (let (v, p1) = port_in W16 port p in (ucast v, p1))"

definition port_inl :: "u16 \<Rightarrow> ports \<Rightarrow> u32 \<times> ports" where
  "port_inl port p = port_in W32 port p"

definition port_outb :: "u16 \<Rightarrow> u8 \<Rightarrow> ports \<Rightarrow> ports" where
  "port_outb port v = port_out W8 port (ucast v)"

definition port_outw :: "u16 \<Rightarrow> u16 \<Rightarrow> ports \<Rightarrow> ports" where
  "port_outw port v = port_out W16 port (ucast v)"

definition port_outl :: "u16 \<Rightarrow> u32 \<Rightarrow> ports \<Rightarrow> ports" where
  "port_outl port v = port_out W32 port v"

definition port_ioWait :: "ports \<Rightarrow> ports" where
  "port_ioWait = port_outb 0x80 0"

named_theorems port_simps

lemma port_out_device [simp]: "device (port_out w q v p) = device p"
  by (simp add: port_out_def)

lemma port_outb_simps [simp, port_simps]:
  "device (port_outb q v p) = device p" "io_log (port_outb q v p) = io_log p @ [POut W8 q (ucast v)]"
  by (simp_all add: port_outb_def port_out_def)

lemma port_outl_simps [simp, port_simps]:
  "device (port_outl q v p) = device p" "io_log (port_outl q v p) = io_log p @ [POut W32 q v]"
  by (simp_all add: port_outl_def port_out_def)

lemma port_inb_eq [port_simps]: "port_inb q p = (ucast (device p (io_log p) W8 q), p\<lparr>io_log := io_log p @ [PIn W8 q]\<rparr>)"
  by (simp add: port_inb_def port_in_def)

lemma port_inw_eq [port_simps]: "port_inw q p = (ucast (device p (io_log p) W16 q), p\<lparr>io_log := io_log p @ [PIn W16 q]\<rparr>)"
  by (simp add: port_inw_def port_in_def)

lemma port_inl_eq [port_simps]: "port_inl q p = (device p (io_log p) W32 q, p\<lparr>io_log := io_log p @ [PIn W32 q]\<rparr>)"
  by (simp add: port_inl_def port_in_def)

lemma port_device [simp]:
  "device (snd (port_inb q p)) = device p" "device (snd (port_inw q p)) = device p" "device (snd (port_inl q p)) = device p"
  by (simp_all add: port_simps)

end
