(* ===== verification/Console.thy ===== *)
theory Console
  imports PortIO
begin

text \<open>
  The text console, \<open>source/kernel/console.c\<close>: 80 columns and 25 rows of 16-bit cells in the video memory,
  and a cursor that is read from the display controller before its first use. The screen and the
  cursor are shown to refine a terminal on a list of cells.
\<close>

unbundle bit_operations_syntax

section \<open>State and operations\<close>

abbreviation (input) CONSOLE_WIDTH :: nat where "CONSOLE_WIDTH \<equiv> 80"
abbreviation (input) CONSOLE_HEIGHT :: nat where "CONSOLE_HEIGHT \<equiv> 25"

text \<open>\<open>console_Memory\<close> is the memory from the address \<open>0xB8000\<close> on, in cells.\<close>

record console =
  console_Active :: bool
  console_HardSerial :: bool
  console_Memory :: "nat \<Rightarrow> u16"
  console_Color :: u8
  console_Cursor :: u16
  console_ports :: ports

text \<open>\<open>(uint16_t)(console_Color << 8) | c\<close>; a \<open>char\<close> is signed.\<close>

definition cell :: "u8 \<Rightarrow> u8 \<Rightarrow> u16" where
  "cell color c = push_bit 8 (ucast color) OR scast c"

definition console_update :: "console \<Rightarrow> console" where
  "console_update s =
     (if \<not> console_Active s then s
      else if console_Cursor s = -1 then
        let (lo, p1) = port_inb 0x3D5 (port_outb 0x3D4 0x0F (console_ports s));
            (hi, p2) = port_inb 0x3D5 (port_outb 0x3D4 0x0E p1);
            cur = ucast lo OR push_bit 8 (ucast hi) :: u32
        in s\<lparr>console_Cursor := ucast cur, console_ports := p2\<rparr>
      else
        let c = (if console_Cursor s \<ge> of_nat (CONSOLE_WIDTH * CONSOLE_HEIGHT)
                 then of_nat (CONSOLE_WIDTH * CONSOLE_HEIGHT) - 1 else console_Cursor s);
            p1 = port_outb 0x3D5 (ucast (c AND 0xFF)) (port_outb 0x3D4 0x0F (console_ports s));
            p2 = port_outb 0x3D5 (ucast (drop_bit 8 c AND 0xFF)) (port_outb 0x3D4 0x0E p1)
        in s\<lparr>console_Cursor := c, console_ports := p2\<rparr>)"

fun scroll_copy :: "(nat \<Rightarrow> u16) \<Rightarrow> nat \<Rightarrow> nat \<Rightarrow> nat \<Rightarrow> u16" where
  "scroll_copy m j 0 = m"
| "scroll_copy m j (Suc k) = scroll_copy (m(j := m (j + CONSOLE_WIDTH))) (Suc j) k"

fun cell_fill :: "(nat \<Rightarrow> u16) \<Rightarrow> nat \<Rightarrow> u16 \<Rightarrow> nat \<Rightarrow> nat \<Rightarrow> u16" where
  "cell_fill m j c 0 = m"
| "cell_fill m j c (Suc k) = cell_fill (m(j := c)) (Suc j) c k"

definition scroll_once :: "console \<Rightarrow> console" where
  "scroll_once s =
     (let m = scroll_copy (console_Memory s) 0 (CONSOLE_WIDTH * (CONSOLE_HEIGHT - 1))
      in s\<lparr>console_Memory := cell_fill m ((CONSOLE_HEIGHT - 1) * CONSOLE_WIDTH) (cell (console_Color s) 0) CONSOLE_WIDTH\<rparr>)"

definition console_scroll :: "int \<Rightarrow> console \<Rightarrow> console" where
  "console_scroll tms s =
     (if \<not> console_Active s then s else if tms < 0 then s else (scroll_once ^^ nat tms) s)"

definition console_clear :: "console \<Rightarrow> console" where
  "console_clear s =
     (if \<not> console_Active s then s
      else let s1 = console_update s;
               m = cell_fill (console_Memory s1) 0 0 (CONSOLE_WIDTH * CONSOLE_HEIGHT)
           in console_update (s1\<lparr>console_Memory := m, console_Cursor := 0\<rparr>))"

definition serial_out :: "u8 \<Rightarrow> console \<Rightarrow> console" where
  "serial_out c s =
     (if \<not> console_HardSerial s then s
      else if c = 10 then s\<lparr>console_ports := port_outb 0x3F8 10 (port_outb 0x3F8 13 (console_ports s))\<rparr>
      else s\<lparr>console_ports := port_outb 0x3F8 c (console_ports s)\<rparr>)"

fun put_tab :: "nat \<Rightarrow> console \<Rightarrow> console" where
  "put_tab 0 s = s"
| "put_tab (Suc k) s =
     put_tab k (s\<lparr>console_Memory := (console_Memory s)(unat (console_Cursor s) := cell (console_Color s) 32),
                  console_Cursor := console_Cursor s + 1\<rparr>)"

definition put_glyph :: "u8 \<Rightarrow> console \<Rightarrow> console" where
  "put_glyph c s =
     (if c = 10 then s\<lparr>console_Cursor := (console_Cursor s div of_nat CONSOLE_WIDTH + 1) * of_nat CONSOLE_WIDTH\<rparr>
      else if c = 9 then put_tab (8 - unat (console_Cursor s) mod 8) s
      else s\<lparr>console_Memory := (console_Memory s)(unat (console_Cursor s) := cell (console_Color s) c),
             console_Cursor := console_Cursor s + 1\<rparr>)"

definition print_char :: "u8 \<Rightarrow> console \<Rightarrow> console" where
  "print_char c s =
     (let s1 = put_glyph c (serial_out c s)
      in if console_Cursor s1 \<ge> of_nat (CONSOLE_WIDTH * CONSOLE_HEIGHT)
         then (console_scroll 1 s1)\<lparr>console_Cursor := of_nat ((CONSOLE_HEIGHT - 1) * CONSOLE_WIDTH)\<rparr>
         else s1)"

text \<open>The loop returns at a NUL, the one that ends the string included; the flag says that it did not.\<close>

fun print_loop :: "cstring \<Rightarrow> nat \<Rightarrow> console \<Rightarrow> bool \<times> console" where
  "print_loop cs 0 s = (True, s)"
| "print_loop [] (Suc n) s = (False, s)"
| "print_loop (c # cs) (Suc n) s = (if c = 0 then (False, s) else print_loop cs n (print_char c s))"

definition console_print :: "cstring \<Rightarrow> int \<Rightarrow> console \<Rightarrow> console" where
  "console_print str len s =
     (if \<not> console_Active s then s
      else let (done, s1) = print_loop str (nat len) (console_update s)
           in if done then console_update s1 else s1)"

section \<open>The terminal on a list of cells\<close>

definition screen :: "console \<Rightarrow> u16 list" where
  "screen s = map (console_Memory s) [0..<2000]"

definition term_scroll :: "u8 \<Rightarrow> u16 list \<times> nat \<Rightarrow> u16 list \<times> nat" where
  "term_scroll color = (\<lambda>(cells, k).
     if k \<ge> 2000 then (drop 80 cells @ replicate 80 (cell color 0), 1920) else (cells, k))"

definition term_put :: "u8 \<Rightarrow> u8 \<Rightarrow> u16 list \<times> nat \<Rightarrow> u16 list \<times> nat" where
  "term_put color c = (\<lambda>(cells, k).
     term_scroll color
       (if c = 10 then (cells, (k div 80 + 1) * 80)
        else if c = 9 then
          let n = 8 - k mod 8 in (take k cells @ replicate n (cell color 32) @ drop (k + n) cells, k + n)
        else (cells[k := cell color c], k + 1)))"

section \<open>Lemmas\<close>

lemma scroll_copy_eq: "scroll_copy m j k = (\<lambda>x. if j \<le> x \<and> x < j + k then m (x + 80) else m x)"
proof (induction k arbitrary: m j)
  case (Suc k)
  show ?case unfolding scroll_copy.simps Suc.IH by (intro ext) (auto simp: le_Suc_eq not_less)
qed (auto intro!: ext)

lemma cell_fill_eq: "cell_fill m j c k = (\<lambda>x. if j \<le> x \<and> x < j + k then c else m x)"
  by (induction k arbitrary: m j) (auto intro!: ext)

lemma scroll_once_eq:
  "scroll_once s = s\<lparr>console_Memory := \<lambda>x. if x < 1920 then console_Memory s (x + 80)
     else if x < 2000 then cell (console_Color s) 0 else console_Memory s x\<rparr>"
  by (auto simp: scroll_once_def scroll_copy_eq cell_fill_eq Let_def intro!: console.fold_congs ext)

lemma length_screen [simp]: "length (screen s) = 2000"
  by (simp add: screen_def)

lemma screen_nth [simp]: "i < 2000 \<Longrightarrow> screen s ! i = console_Memory s i"
  by (simp add: screen_def)

lemma screen_scroll: "screen (scroll_once s) = drop 80 (screen s) @ replicate 80 (cell (console_Color s) 0)"
  by (rule nth_equalityI) (auto simp: scroll_once_eq nth_append add.commute)

text \<open>What printing keeps: the switches, the colour and every cell outside the screen.\<close>

definition console_frame :: "console \<Rightarrow> console \<Rightarrow> bool" where
  "console_frame s s' \<longleftrightarrow> console_Active s' = console_Active s \<and> console_HardSerial s' = console_HardSerial s \<and>
     console_Color s' = console_Color s \<and> (\<forall>x\<ge>2000. console_Memory s' x = console_Memory s x)"

lemma console_frame_refl: "console_frame s s"
  by (simp add: console_frame_def)

lemma console_frame_trans: "console_frame s t \<Longrightarrow> console_frame t u \<Longrightarrow> console_frame s u"
  by (simp add: console_frame_def)

lemma serial_out_same: "console_frame s (serial_out c s)" "screen (serial_out c s) = screen s"
  "console_Cursor (serial_out c s) = console_Cursor s"
  by (simp_all add: serial_out_def console_frame_def screen_def)

lemma unat_u16_add: "unat (a :: u16) + n < 65536 \<Longrightarrow> unat (a + of_nat n) = unat a + n"
proof -
  assume h: "unat a + n < 65536"
  have "unat (of_nat n :: u16) = n" using h by (simp add: unat_of_nat)
  then show ?thesis using h by (simp add: unat_word_ariths)
qed

lemma put_tab_eq:
  "unat (console_Cursor s) + k \<le> 2000 \<Longrightarrow>
    unat (console_Cursor (put_tab k s)) = unat (console_Cursor s) + k \<and> console_frame s (put_tab k s) \<and>
    (\<forall>x. console_Memory (put_tab k s) x =
      (if unat (console_Cursor s) \<le> x \<and> x < unat (console_Cursor s) + k then cell (console_Color s) 32 else console_Memory s x))"
proof (induction k arbitrary: s)
  case (Suc k)
  let ?s = "s\<lparr>console_Memory := (console_Memory s)(unat (console_Cursor s) := cell (console_Color s) 32),
                  console_Cursor := console_Cursor s + 1\<rparr>"
  have c: "unat (console_Cursor s + 1) = Suc (unat (console_Cursor s))"
    using unat_u16_add [of "console_Cursor s" 1] Suc.prems by simp
  then have "unat (console_Cursor ?s) + k \<le> 2000" using Suc.prems by simp
  from Suc.IH [OF this] c Suc.prems show ?case by (auto simp: console_frame_def)
qed (auto simp: console_frame_def)

lemma cursor_newline: "unat (c :: u16) < 2000 \<Longrightarrow> unat ((c div 80 + 1) * 80) = (unat c div 80 + 1) * 80"
proof -
  assume c: "unat c < 2000"
  have d: "unat (c div 80) = unat c div 80" by (simp add: unat_div)
  have q: "unat c div 80 < 25" using c by (simp add: div_less_iff_less_mult)
  have a: "unat (c div 80 + 1) = unat c div 80 + 1" using unat_u16_add [of "c div 80" 1] d q by simp
  have "unat ((c div 80 + 1) * 80) = unat (c div 80 + 1) * unat (80 :: u16) mod 2 ^ LENGTH(16)"
    by (rule unat_word_ariths(2))
  then have "unat ((c div 80 + 1) * 80) = (unat c div 80 + 1) * 80 mod 65536" unfolding a by simp
  then show ?thesis using q by simp
qed

lemma put_glyph_eq:
  assumes k: "unat (console_Cursor s) < 2000"
  shows "console_frame s (put_glyph c s)" "unat (console_Cursor (put_glyph c s)) \<le> 2000"
    "(screen (put_glyph c s), unat (console_Cursor (put_glyph c s))) =
      (if c = 10 then (screen s, (unat (console_Cursor s) div 80 + 1) * 80)
        else if c = 9 then
          let n = 8 - unat (console_Cursor s) mod 8 in
          (take (unat (console_Cursor s)) (screen s) @ replicate n (cell (console_Color s) 32) @
             drop (unat (console_Cursor s) + n) (screen s), unat (console_Cursor s) + n)
        else ((screen s)[unat (console_Cursor s) := cell (console_Color s) c], unat (console_Cursor s) + 1))"
proof -
  let ?k = "unat (console_Cursor s)"
  have "console_frame s (put_glyph c s) \<and> unat (console_Cursor (put_glyph c s)) \<le> 2000 \<and>
    (screen (put_glyph c s), unat (console_Cursor (put_glyph c s))) =
      (if c = 10 then (screen s, (?k div 80 + 1) * 80)
        else if c = 9 then
          let n = 8 - ?k mod 8 in (take ?k (screen s) @ replicate n (cell (console_Color s) 32) @ drop (?k + n) (screen s), ?k + n)
        else ((screen s)[?k := cell (console_Color s) c], ?k + 1))"
  proof -
    consider "c = 10" | "c = 9" | "c \<noteq> 10" "c \<noteq> 9" by blast
    then show ?thesis
    proof cases
      case 1
      have "?k div 80 < 25" using k by (simp add: div_less_iff_less_mult)
      then show ?thesis using 1 cursor_newline [OF k] by (simp add: put_glyph_def console_frame_def screen_def)
    next
      case 2
      define n where "n = 8 - ?k mod 8"
      have n: "?k + n \<le> 2000"
      proof -
        have e: "?k = 8 * (?k div 8) + ?k mod 8" by simp
        have "?k div 8 < 250" using k by (simp add: div_less_iff_less_mult)
        moreover have "?k mod 8 < 8" by simp
        ultimately show ?thesis using e unfolding n_def by linarith
      qed
      note t = put_tab_eq [OF n]
      have "screen (put_tab n s) = take ?k (screen s) @ replicate n (cell (console_Color s) 32) @ drop (?k + n) (screen s)"
        by (rule nth_equalityI) (use t n in \<open>auto simp: nth_append\<close>)
      then show ?thesis using t n 2 by (simp add: put_glyph_def n_def [symmetric] Let_def)
    next
      case 3
      have c: "unat (console_Cursor s + 1) = ?k + 1" using unat_u16_add [of "console_Cursor s" 1] k by simp
      have "screen (put_glyph c s) = (screen s)[?k := cell (console_Color s) c]"
        by (rule nth_equalityI) (use 3 in \<open>simp_all add: put_glyph_def nth_list_update\<close>)
      then show ?thesis using 3 c k by (simp add: put_glyph_def console_frame_def)
    qed
  qed
  then show "console_frame s (put_glyph c s)" "unat (console_Cursor (put_glyph c s)) \<le> 2000"
    "(screen (put_glyph c s), unat (console_Cursor (put_glyph c s))) =
      (if c = 10 then (screen s, (?k div 80 + 1) * 80)
        else if c = 9 then
          let n = 8 - ?k mod 8 in (take ?k (screen s) @ replicate n (cell (console_Color s) 32) @ drop (?k + n) (screen s), ?k + n)
        else ((screen s)[?k := cell (console_Color s) c], ?k + 1))"
    by blast+
qed

lemma print_char_eq:
  assumes act: "console_Active s" and k: "unat (console_Cursor s) < 2000"
  shows "console_frame s (print_char c s)" "unat (console_Cursor (print_char c s)) < 2000"
    "(screen (print_char c s), unat (console_Cursor (print_char c s))) =
       term_put (console_Color s) c (screen s, unat (console_Cursor s))"
proof -
  note so = serial_out_same [where c = c and s = s]
  let ?t = "put_glyph c (serial_out c s)"
  have k': "unat (console_Cursor (serial_out c s)) < 2000" using k so(3) by simp
  note g = put_glyph_eq [OF k', of c]
  have col: "console_Color (serial_out c s) = console_Color s" "console_Active ?t" "console_Color ?t = console_Color s"
    using so(1) g(1) act by (simp_all add: console_frame_def)
  have ge: "console_Cursor ?t \<ge> of_nat (CONSOLE_WIDTH * CONSOLE_HEIGHT) \<longleftrightarrow> unat (console_Cursor ?t) \<ge> 2000"
    by (simp add: word_le_nat_alt)
  have pc: "print_char c s = (if unat (console_Cursor ?t) \<ge> 2000
      then (scroll_once ?t)\<lparr>console_Cursor := 1920\<rparr> else ?t)"
    unfolding print_char_def Let_def ge by (simp add: console_scroll_def col)
  have fr: "console_frame ?t ((scroll_once ?t)\<lparr>console_Cursor := 1920\<rparr>)" by (simp add: console_frame_def scroll_once_eq)
  show "console_frame s (print_char c s)"
    unfolding pc using console_frame_trans [OF so(1) g(1)] console_frame_trans [OF console_frame_trans [OF so(1) g(1)] fr] by simp
  show "unat (console_Cursor (print_char c s)) < 2000" by (simp add: pc)
  have "screen ((scroll_once ?t)\<lparr>console_Cursor := 1920\<rparr>) = screen (scroll_once ?t)" by (simp add: screen_def)
  then have "(screen (print_char c s), unat (console_Cursor (print_char c s))) =
      term_scroll (console_Color s) (screen ?t, unat (console_Cursor ?t))"
    by (simp add: pc term_scroll_def screen_scroll col)
  then show "(screen (print_char c s), unat (console_Cursor (print_char c s))) =
       term_put (console_Color s) c (screen s, unat (console_Cursor s))"
    unfolding g(3) so(2,3) col(1) term_put_def by simp
qed

text \<open>The characters a call prints: those before the first NUL, at most \<open>len\<close>.\<close>

definition shown :: "cstring \<Rightarrow> nat \<Rightarrow> cstring" where
  "shown str len = takeWhile (\<lambda>c. c \<noteq> 0) (take len str)"

lemma print_loop_eq:
  "console_Active s \<Longrightarrow> unat (console_Cursor s) < 2000 \<Longrightarrow>
    \<exists>s'. print_loop str n s = (length (shown str n) = n, s') \<and> console_frame s s' \<and> unat (console_Cursor s') < 2000 \<and>
      (screen s', unat (console_Cursor s')) =
        fold (term_put (console_Color s)) (shown str n) (screen s, unat (console_Cursor s))"
proof (induction str n s rule: print_loop.induct)
  case (3 c cs n s)
  show ?case
  proof (cases "c = 0")
    case False
    note pc = print_char_eq [OF 3(2,3), of c]
    have "console_Active (print_char c s)" "console_Color (print_char c s) = console_Color s"
      using pc(1) 3(2) by (simp_all add: console_frame_def)
    from 3(1) [OF False this(1) pc(2)] this(2) pc(1,3) False show ?thesis
      by (auto simp: shown_def intro: console_frame_trans)
  qed (simp add: shown_def console_frame_refl 3)
qed (simp_all add: shown_def console_frame_refl)

lemma update_noop:
  assumes "console_Active s" "unat (console_Cursor s) < 2000"
  shows "console_frame s (console_update s)" "screen (console_update s) = screen s"
    "console_Cursor (console_update s) = console_Cursor s"
proof -
  have "unat (-1 :: u16) = 65535" by (simp add: unsigned_minus_1_eq_mask mask_eq_exp_minus_1)
  then have a: "console_Cursor s \<noteq> -1" using assms(2) by auto
  have b: "\<not> console_Cursor s \<ge> of_nat (CONSOLE_WIDTH * CONSOLE_HEIGHT)" using assms(2) by (simp add: word_le_nat_alt)
  from a b show "console_frame s (console_update s)" "screen (console_update s) = screen s"
    "console_Cursor (console_update s) = console_Cursor s"
    by (simp_all add: console_update_def Let_def console_frame_def screen_def)
qed

section \<open>Property\<close>

text \<open>C26.
  With the cursor on the screen, printing writes no cell outside the 80 by 25 cells, leaves the cursor on the
  screen, and acts on the cells and the cursor as the terminal does character by character: new
  lines, tabs to the next multiple of eight, and scrolling by one row with a blank row at the bottom.\<close>

theorem console_print_refines:
  assumes "console_Active s" "unat (console_Cursor s) < 2000"
  shows "(screen (console_print str len s), unat (console_Cursor (console_print str len s))) =
      fold (term_put (console_Color s)) (shown str (nat len)) (screen s, unat (console_Cursor s)) \<and>
    unat (console_Cursor (console_print str len s)) < 2000 \<and>
    (\<forall>x\<ge>2000. console_Memory (console_print str len s) x = console_Memory s x)"
proof -
  note u = update_noop [OF assms]
  have a: "console_Active (console_update s)" "console_Color (console_update s) = console_Color s"
    using u(1) assms(1) by (simp_all add: console_frame_def)
  have k: "unat (console_Cursor (console_update s)) < 2000" using assms(2) u(3) by simp
  from print_loop_eq [OF a(1) k, of str "nat len"] obtain s1 where
    p: "print_loop str (nat len) (console_update s) = (length (shown str (nat len)) = nat len, s1)" "console_frame (console_update s) s1"
      "unat (console_Cursor s1) < 2000" "(screen s1, unat (console_Cursor s1)) =
        fold (term_put (console_Color s)) (shown str (nat len)) (screen s, unat (console_Cursor s))"
    using a(2) u(2,3) by auto
  have a1: "console_Active s1" using p(2) a(1) by (simp add: console_frame_def)
  note u1 = update_noop [OF a1 p(3)]
  have "console_print str len s = console_update s1 \<or> console_print str len s = s1"
    using assms(1) p(1) by (simp add: console_print_def)
  then show ?thesis
    using p(2-4) u u1 by (auto simp: console_frame_def)
qed

definition console_demo :: console where
  "console_demo = \<lparr>console_Active = True, console_HardSerial = False, console_Memory = \<lambda>_. 0, console_Color = 7,
     console_Cursor = 1999, console_ports = \<lparr>device = \<lambda>_ _ _. 0, io_log = []\<rparr>\<rparr>"

theorem console_print_refines_witness:
  "unat (console_Cursor (console_print [65, 66] 2 console_demo)) = 1921 \<and>
   screen (console_print [65, 66] 2 console_demo) ! 1919 = cell 7 65"
proof -
  have k: "console_Active console_demo" "unat (console_Cursor console_demo) < 2000" by (simp_all add: console_demo_def)
  have "fold (term_put 7) [65, 66] (screen console_demo, 1999) =
      ((drop 80 ((screen console_demo)[1999 := cell 7 65]) @ replicate 80 (cell 7 0))[1920 := cell 7 66], 1921)"
    by (simp add: term_put_def term_scroll_def)
  with console_print_refines [OF k, of "[65, 66]" 2] show ?thesis
    by (simp add: shown_def console_demo_def nth_append)
qed

text \<open>The position the controller answers is taken as it is: the first glyph may be written outside the screen.\<close>

lemma cursor_from_controller:
  assumes "console_Active s" "console_Cursor s = -1" "\<And>log. device (console_ports s) log W8 0x3D5 = 0x20"
  shows "unat (console_Cursor (console_update s)) = 8224"
  using assms by (simp add: console_update_def port_simps Let_def)

end
