(* ===== verification/Protect.thy ===== *)
theory Protect
  imports Multitask
begin

text \<open>
  Segments and interrupt gates: the global descriptor table of \<open>source/hw/protect_init.c\<close> with the
  assembly routine that loads it, and the interrupt descriptor table of \<open>source/hw/interrupts.c\<close>.
  The packed descriptors are records of their C fields; \<open>seg_base\<close>, \<open>seg_limit\<close> and \<open>gate_offset\<close> read them
  the way the processor does. The addresses of the static tables and of the assembly stubs, which the
  linker chooses, are arguments.
\<close>

unbundle bit_operations_syntax

section \<open>State\<close>

record protect_GDTEntry_t =
  limit_low :: u16
  base_low :: u16
  base_middle :: u8
  access :: u8
  granularity :: u8
  base_high :: u8

record interrupts_IDTEntry_t =
  offset_low :: u16
  selector :: u16
  zero :: u8
  attributes :: u8
  offset_high :: u16

text \<open>The operand of \<open>lgdt\<close> and \<open>lidt\<close>.\<close>

record table_ptr =
  tlimit :: u16
  tbase :: u32

record prot = multi +
  protect_InitLock :: bool
  protect_GDTEntry :: "protect_GDTEntry_t list"
  protect_GDTPointer :: table_ptr
  interrupts_InitLock :: bool
  interrupts_IDTEntry :: "interrupts_IDTEntry_t list"
  interrupts_IDTPointer :: table_ptr
  gdtr :: table_ptr
  idtr :: table_ptr
  code_seg :: u16
  data_seg :: u16
  cr4 :: u32

section \<open>The global descriptor table\<close>

definition gdt_entry :: "u32 \<Rightarrow> u32 \<Rightarrow> u8 \<Rightarrow> u8 \<Rightarrow> protect_GDTEntry_t" where
  "gdt_entry base limit acc gran =
     \<lparr>limit_low = ucast (limit AND 0xFFFF), base_low = ucast (base AND 0xFFFF),
      base_middle = ucast (drop_bit 16 base AND 0xFF), access = acc,
      granularity = ucast (drop_bit 16 limit AND 0x0F) OR (gran AND 0xF0),
      base_high = ucast (drop_bit 24 base AND 0xFF)\<rparr>"

definition protect_setGDTEntry :: "int \<Rightarrow> u32 \<Rightarrow> u32 \<Rightarrow> u8 \<Rightarrow> u8 \<Rightarrow> 'a prot_scheme \<Rightarrow> 'a prot_scheme res" where
  "protect_setGDTEntry num base limit acc gran s =
     checkR (0 \<le> num \<and> nat num < length (protect_GDTEntry s)) OutOfBounds
       (Inr (s\<lparr>protect_GDTEntry := (protect_GDTEntry s)[nat num := gdt_entry base limit acc gran]\<rparr>))"

text \<open>The far jump at the end reloads the code segment.\<close>

definition protect_flush :: "table_ptr \<Rightarrow> 'a prot_scheme \<Rightarrow> 'a prot_scheme" where
  "protect_flush p s = s\<lparr>gdtr := p, data_seg := 0x10, code_seg := 0x08\<rparr>"

definition protect_init :: "u32 \<Rightarrow> 'a prot_scheme \<Rightarrow> 'a prot_scheme res" where
  "protect_init gdt_addr s =
     (if protect_InitLock s then Inr s
      else let s1 = s\<lparr>protect_InitLock := True, protect_GDTPointer := \<lparr>tlimit = 8 * 3 - 1, tbase = gdt_addr\<rparr>\<rparr>
           in bindR (protect_setGDTEntry 0 0 0 0 0 s1) (\<lambda>s2.
              bindR (protect_setGDTEntry 1 0 0xFFFFFFFF 0x9A 0xCF s2) (\<lambda>s3.
              bindR (protect_setGDTEntry 2 0 0xFFFFFFFF 0x92 0xCF s3) (\<lambda>s4.
              Inr (protect_flush (protect_GDTPointer s4) s4)))))"

text \<open>How the processor reads a descriptor.\<close>

definition seg_base :: "protect_GDTEntry_t \<Rightarrow> u32" where
  "seg_base e = ucast (base_low e) OR push_bit 16 (ucast (base_middle e)) OR push_bit 24 (ucast (base_high e))"

definition seg_limit :: "protect_GDTEntry_t \<Rightarrow> u32" where
  "seg_limit e =
     (let raw = ucast (limit_low e) OR push_bit 16 (ucast (granularity e AND 0x0F))
      in if bit (granularity e) 7 then push_bit 12 raw OR 0xFFF else raw)"

definition code_descriptor :: "protect_GDTEntry_t \<Rightarrow> bool" where
  "code_descriptor e \<longleftrightarrow> bit (access e) 7 \<and> drop_bit 5 (access e) AND 3 = 0 \<and> bit (access e) 4 \<and> bit (access e) 3"

section \<open>The interrupt descriptor table\<close>

definition interrupts_exceptionMessage :: "string list" where
  "interrupts_exceptionMessage =
     [''Division Error'', ''Debug'', ''Non-maskable Interrupt'', ''Breakpoint'', ''Overflow'',
      ''Bound Range Exceeded'', ''Invalid Opcode'', ''Device Not Available'', ''Double Fault'',
      ''Coprocessor Segment Overrun'', ''Invalid TSS'', ''Segment Not Present'', ''Stack-Segment Fault'',
      ''General Protection Fault'', ''Page Fault'', ''Unknown'', ''x87 Floating-Point Exception'',
      ''Alignment Check'', ''Fatal: Machine Check'', ''SIMD Floating-Point Exception'',
      ''Virtualization Exception'', ''Control Protection Exception'', ''Unknown'', ''Unknown'', ''Unknown'',
      ''Unknown'', ''Unknown'', ''Unknown'', ''Hypervisor Injection Exception'',
      ''VMM Communication Exception'', ''Security Exception'', ''Unknown'']"

definition interrupts_defaultHandler :: "'a prot_scheme \<Rightarrow> 'a prot_scheme res" where
  "interrupts_defaultHandler s =
     printf (cstr ''Interrupt Manager: Unknown interrupt triggered!'' @ [10]) [] s"

definition interrupts_exceptionHandler :: "u8 \<Rightarrow> 'a prot_scheme \<Rightarrow> 'b res" where
  "interrupts_exceptionHandler num s =
     (if num > 0x1F then Inl (Panic ''Manually triggered exception'')
      else Inl (Panic (interrupts_exceptionMessage ! unat num @ '', Code '' @ map (\<lambda>c. char_of (unat c)) (itoa (uint num)))))"

definition idt_entry :: "u32 \<Rightarrow> interrupts_IDTEntry_t" where
  "idt_entry addr =
     \<lparr>offset_low = ucast (addr AND 0xFFFF), selector = 0x08, zero = 0x00, attributes = 0x8E,
      offset_high = ucast (drop_bit 16 addr AND 0xFFFF)\<rparr>"

definition interrupts_setGate :: "u32 \<Rightarrow> int \<Rightarrow> u32 \<Rightarrow> 'a prot_scheme \<Rightarrow> 'a prot_scheme" where
  "interrupts_setGate dflt num handler s =
     (if num < 0 \<or> num \<ge> 256 \<or> \<not> interrupts_InitLock s then s
      else let addr = (if handler \<noteq> 0 then handler else dflt)
           in s\<lparr>interrupts_IDTEntry := (interrupts_IDTEntry s)[nat num := idt_entry addr]\<rparr>)"

fun set_gates :: "u32 \<Rightarrow> (int \<times> u32) list \<Rightarrow> 'a prot_scheme \<Rightarrow> 'a prot_scheme" where
  "set_gates dflt [] s = s"
| "set_gates dflt ((num, handler) # rs) s = set_gates dflt rs (interrupts_setGate dflt num handler s)"

definition interrupts_exceptionInterruptsInit :: "u32 \<Rightarrow> (nat \<Rightarrow> u32) \<Rightarrow> 'a prot_scheme \<Rightarrow> 'a prot_scheme" where
  "interrupts_exceptionInterruptsInit dflt stub s = set_gates dflt (map (\<lambda>i. (int i, stub i)) [0..<32]) s"

definition interrupts_init :: "u32 \<Rightarrow> u32 \<Rightarrow> (nat \<Rightarrow> u32) \<Rightarrow> 'a prot_scheme \<Rightarrow> 'a prot_scheme" where
  "interrupts_init idt_addr dflt stub s =
     (if interrupts_InitLock s then s
      else let s1 = set_gates dflt (map (\<lambda>i. (int i, dflt)) [0..<256]) (s\<lparr>interrupts_InitLock := True\<rparr>);
               s2 = interrupts_exceptionInterruptsInit dflt stub s1;
               s3 = s2\<lparr>interrupts_IDTPointer := \<lparr>tlimit = 8 * 256 - 1, tbase = idt_addr\<rparr>\<rparr>
           in s3\<lparr>idtr := interrupts_IDTPointer s3, cr4 := cr4 s3 OR 0x40\<rparr>)"

definition gate_offset :: "interrupts_IDTEntry_t \<Rightarrow> u32" where
  "gate_offset g = ucast (offset_low g) OR push_bit 16 (ucast (offset_high g))"

definition gate_ok :: "interrupts_IDTEntry_t \<Rightarrow> bool" where
  "gate_ok g \<longleftrightarrow> selector g = 0x08 \<and> zero g = 0 \<and> attributes g = 0x8E"

section \<open>Descriptors\<close>

lemma mask_ands:
  "(x :: u32) AND 0xFFFF = take_bit 16 x" "x AND 0xFF = take_bit 8 x" "x AND 0x0F = take_bit 4 x"
  "(y :: u8) AND 0x0F = take_bit 4 y" "x AND 0xFFFFF = take_bit 20 x"
  by (simp_all add: take_bit_eq_mask mask_eq_exp_minus_1)

lemma seg_base_entry: "seg_base (gdt_entry b l a g) = b"
proof -
  have "seg_base (gdt_entry b l a g) = ucast (ucast (take_bit 16 b) :: u16) OR
      push_bit 16 (ucast (ucast (take_bit 8 (drop_bit 16 b)) :: u8)) OR
      push_bit 24 (ucast (ucast (take_bit 8 (drop_bit 24 b)) :: u8))" (is "_ = ?w")
    by (simp add: seg_base_def gdt_entry_def mask_ands)
  also have "?w = b"
  proof (rule bit_word_eqI)
    fix n
    assume n: "n < LENGTH(32)"
    show "bit ?w n = bit b n" using n by (cases "n < 24") (auto simp: bit_simps)
  qed
  finally show ?thesis .
qed

lemma gate_offset_entry: "gate_offset (idt_entry a) = a"
proof -
  have "gate_offset (idt_entry a) = ucast (ucast (take_bit 16 a) :: u16) OR
      push_bit 16 (ucast (ucast (take_bit 16 (drop_bit 16 a)) :: u16))"
    by (simp add: gate_offset_def idt_entry_def mask_ands)
  also have "\<dots> = a"
    by (rule bit_word_eqI) (auto simp: bit_simps)
  finally show ?thesis .
qed

lemma granularity_high: "n < 8 \<Longrightarrow> 4 \<le> n \<Longrightarrow> bit (granularity (gdt_entry b l a g)) n = bit g n"
proof -
  assume n: "n < 8" "4 \<le> n"
  have m: "0xF0 = push_bit 4 (mask 4 :: u8)" by (simp add: mask_eq_exp_minus_1)
  show ?thesis unfolding gdt_entry_def mask_ands m using n by (auto simp: bit_simps)
qed

lemma seg_limit_raw:
  "ucast (limit_low (gdt_entry b l a g)) OR push_bit 16 (ucast (granularity (gdt_entry b l a g) AND 0x0F)) = l AND 0xFFFFF"
proof -
  have m: "0xF0 = push_bit 4 (mask 4 :: u8)" by (simp add: mask_eq_exp_minus_1)
  have "ucast (ucast (take_bit 16 l) :: u16) OR
      push_bit 16 (ucast (take_bit 4 (ucast (take_bit 4 (drop_bit 16 l)) OR (g AND push_bit 4 (mask 4 :: u8))))) = take_bit 20 l"
    by (rule bit_word_eqI) (auto simp: bit_simps)
  then show ?thesis by (simp add: gdt_entry_def mask_ands m)
qed

lemma seg_limit_entry:
  "seg_limit (gdt_entry b l a g) =
     (if bit g 7 then push_bit 12 (l AND 0xFFFFF) OR 0xFFF else l AND 0xFFFFF)"
  by (simp add: seg_limit_def Let_def seg_limit_raw granularity_high)

section \<open>Gates\<close>

lemma setGate_same [simp]:
  "interrupts_InitLock (interrupts_setGate d n h s) = interrupts_InitLock s"
  "length (interrupts_IDTEntry (interrupts_setGate d n h s)) = length (interrupts_IDTEntry s)"
  "protect_GDTEntry (interrupts_setGate d n h s) = protect_GDTEntry s"
  "idtr (interrupts_setGate d n h s) = idtr s" "gdtr (interrupts_setGate d n h s) = gdtr s"
  "interrupts_IDTPointer (interrupts_setGate d n h s) = interrupts_IDTPointer s"
  by (simp_all add: interrupts_setGate_def Let_def)

lemma set_gates_same [simp]:
  "interrupts_InitLock (set_gates d rs s) = interrupts_InitLock s"
  "length (interrupts_IDTEntry (set_gates d rs s)) = length (interrupts_IDTEntry s)"
  "protect_GDTEntry (set_gates d rs s) = protect_GDTEntry s"
  "idtr (set_gates d rs s) = idtr s" "gdtr (set_gates d rs s) = gdtr s"
  "interrupts_IDTPointer (set_gates d rs s) = interrupts_IDTPointer s"
  by (induction d rs s rule: set_gates.induct) simp_all

text \<open>The last request for a vector decides its gate.\<close>

definition last_request :: "(int \<times> u32) list \<Rightarrow> nat \<Rightarrow> u32 option" where
  "last_request rs v = map_of (rev rs) (int v)"

lemma last_request_simps [simp]:
  "last_request [] v = None"
  "last_request ((n, h) # rs) v = (case last_request rs v of Some h' \<Rightarrow> Some h' | None \<Rightarrow> if n = int v then Some h else None)"
  by (auto simp: last_request_def map_add_def split: option.splits)

lemma set_gates_nth:
  "interrupts_InitLock s \<Longrightarrow> length (interrupts_IDTEntry s) = 256 \<Longrightarrow> v < 256 \<Longrightarrow>
    interrupts_IDTEntry (set_gates d rs s) ! v =
      (case last_request rs v of Some h \<Rightarrow> idt_entry (if h \<noteq> 0 then h else d) | None \<Rightarrow> interrupts_IDTEntry s ! v)"
proof (induction d rs s rule: set_gates.induct)
  case (2 d n h rs s)
  have "interrupts_IDTEntry (interrupts_setGate d n h s) ! v =
      (if n = int v then idt_entry (if h \<noteq> 0 then h else d) else interrupts_IDTEntry s ! v)"
    using 2(2-4) by (auto simp: interrupts_setGate_def Let_def nth_list_update)
  with 2 show ?case by (auto split: option.splits)
qed simp

lemma last_request_all: "last_request (map (\<lambda>i. (int i, f i)) [0..<n]) v = (if v < n then Some (f v) else None)"
proof -
  have "map_of (rev (map (\<lambda>i. (int i, f i)) [0..<n])) (int v) = (if v < n then Some (f v) else None)"
    by (induction n) auto
  then show ?thesis by (simp add: last_request_def)
qed

lemma interrupts_init_gates:
  assumes "\<not> interrupts_InitLock s" "length (interrupts_IDTEntry s) = 256" "d \<noteq> 0" "\<forall>i<32. stub i \<noteq> 0"
  shows "interrupts_InitLock (interrupts_init a d stub s)" "length (interrupts_IDTEntry (interrupts_init a d stub s)) = 256"
    "v < 256 \<Longrightarrow> interrupts_IDTEntry (interrupts_init a d stub s) ! v = idt_entry (if v < 32 then stub v else d)"
    "idtr (interrupts_init a d stub s) = \<lparr>tlimit = 2047, tbase = a\<rparr>"
    "protect_GDTEntry (interrupts_init a d stub s) = protect_GDTEntry s" "gdtr (interrupts_init a d stub s) = gdtr s"
  using assms
  by (simp_all add: interrupts_init_def interrupts_exceptionInterruptsInit_def Let_def set_gates_nth last_request_all)

section \<open>Properties\<close>

text \<open>Once the interrupt manager is initialised, the handler the processor finds for a vector is the one
  the last request for this vector named: the default handler where it named none, and without a
  request the exception stub of the vector or the default handler. Requests outside the 256 vectors,
  a request before the initialisation and a second initialisation change nothing.\<close>

theorem gates_follow_requests:
  fixes s :: "'a prot_scheme" and rs early :: "(int \<times> u32) list" and a :: u32
  assumes "\<not> interrupts_InitLock s" "length (interrupts_IDTEntry s) = 256" "d \<noteq> 0" "\<forall>i<32. stub i \<noteq> 0"
  defines "t \<equiv> set_gates d rs (interrupts_init a d stub (set_gates d early s))"
  shows "(\<forall>v<256. gate_offset (interrupts_IDTEntry t ! v) =
        (case last_request rs v of Some h \<Rightarrow> if h = 0 then d else h | None \<Rightarrow> if v < 32 then stub v else d)) \<and>
      interrupts_init a' d' stub' t = t \<and> idtr t = \<lparr>tlimit = 2047, tbase = a\<rparr>"
proof -
  have e: "set_gates d early s = s"
    using assms(1) by (induction d early s rule: set_gates.induct) (simp_all add: interrupts_setGate_def)
  note i = interrupts_init_gates [OF assms(1-4)]
  have "gate_offset (interrupts_IDTEntry t ! v) =
        (case last_request rs v of Some h \<Rightarrow> if h = 0 then d else h | None \<Rightarrow> if v < 32 then stub v else d)" if "v < 256" for v
    using set_gates_nth [OF i(1,2) that, where rs = rs and d = d] i(3) [OF that]
    by (simp add: t_def e gate_offset_entry split: option.splits)
  moreover have "interrupts_init a' d' stub' t = t" using i(1) by (simp add: t_def e interrupts_init_def)
  moreover have "idtr t = \<lparr>tlimit = 2047, tbase = a\<rparr>" using i(4) by (simp add: t_def e)
  ultimately show ?thesis by blast
qed

lemma set_gates_ok:
  assumes "interrupts_InitLock s" "length (interrupts_IDTEntry s) = 256" "\<forall>v<256. gate_ok (interrupts_IDTEntry s ! v)"
  shows "\<forall>v<256. gate_ok (interrupts_IDTEntry (set_gates d rs s) ! v)"
  using assms by (auto simp: set_gates_nth gate_ok_def idt_entry_def split: option.splits)

lemma protect_init_table:
  assumes "\<not> protect_InitLock s" "length (protect_GDTEntry s) = 3"
  obtains s' where "protect_init g s = Inr s'" "protect_InitLock s'" "interrupts_InitLock s' = interrupts_InitLock s"
    "interrupts_IDTEntry s' = interrupts_IDTEntry s"
    "gdtr s' = \<lparr>tlimit = 23, tbase = g\<rparr>" "code_seg s' = 8" "data_seg s' = 16"
    "protect_GDTEntry s' = [gdt_entry 0 0 0 0, gdt_entry 0 0xFFFFFFFF 0x9A 0xCF, gdt_entry 0 0xFFFFFFFF 0x92 0xCF]"
proof -
  from assms(2) obtain x y z where e: "protect_GDTEntry s = [x, y, z]" by (auto simp: length_Suc_conv numeral_eq_Suc)
  have "\<exists>s'. protect_init g s = Inr s' \<and> protect_InitLock s' \<and> interrupts_InitLock s' = interrupts_InitLock s \<and>
      interrupts_IDTEntry s' = interrupts_IDTEntry s \<and>
      gdtr s' = \<lparr>tlimit = 23, tbase = g\<rparr> \<and> code_seg s' = 8 \<and> data_seg s' = 16 \<and>
      protect_GDTEntry s' = [gdt_entry 0 0 0 0, gdt_entry 0 0xFFFFFFFF 0x9A 0xCF, gdt_entry 0 0xFFFFFFFF 0x92 0xCF]"
    using assms(1) by (simp add: protect_init_def protect_setGDTEntry_def protect_flush_def Let_def e)
  then show thesis using that by blast
qed

text \<open>C27.
  After both tables are set up and whatever handlers are installed, the processor's view of them is
  well formed: the null descriptor, a code and a data segment that cover the whole address space
  from 0 on, segment registers that select them, and every gate a present interrupt gate of privilege 0
  whose selector names the code segment inside the table.\<close>

theorem descriptors_well_formed:
  assumes "\<not> protect_InitLock s" "length (protect_GDTEntry s) = 3"
    "\<not> interrupts_InitLock s" "length (interrupts_IDTEntry s) = 256" "d \<noteq> 0" "\<forall>i<32. stub i \<noteq> 0"
  shows "\<exists>s1. protect_init g s = Inr s1 \<and>
     (let t = set_gates d rs (interrupts_init a d stub s1); e = (\<lambda>i. protect_GDTEntry t ! i)
      in gdtr t = \<lparr>tlimit = 23, tbase = g\<rparr> \<and> code_seg s1 = 8 * 1 \<and> data_seg s1 = 8 * 2 \<and>
         e 0 = \<lparr>limit_low = 0, base_low = 0, base_middle = 0, access = 0, granularity = 0, base_high = 0\<rparr> \<and>
         (\<forall>i\<in>{1, 2}. seg_base (e i) = 0 \<and> seg_limit (e i) = 0xFFFFFFFF) \<and>
         code_descriptor (e 1) \<and> \<not> code_descriptor (e 2) \<and>
         (\<forall>v<256. gate_ok (interrupts_IDTEntry t ! v) \<and>
            code_descriptor (e (unat (drop_bit 3 (selector (interrupts_IDTEntry t ! v)))))))"
proof -
  obtain s1 where p: "protect_init g s = Inr s1" "interrupts_InitLock s1 = interrupts_InitLock s"
    "interrupts_IDTEntry s1 = interrupts_IDTEntry s" "gdtr s1 = \<lparr>tlimit = 23, tbase = g\<rparr>" "code_seg s1 = 8" "data_seg s1 = 16"
    "protect_GDTEntry s1 = [gdt_entry 0 0 0 0, gdt_entry 0 0xFFFFFFFF 0x9A 0xCF, gdt_entry 0 0xFFFFFFFF 0x92 0xCF]"
    by (rule protect_init_table [OF assms(1,2), of g]) blast
  have "\<not> interrupts_InitLock s1" "length (interrupts_IDTEntry s1) = 256" using p(2,3) assms(3,4) by simp_all
  note i = interrupts_init_gates [OF this assms(5,6)]
  define t where "t = set_gates d rs (interrupts_init a d stub s1)"
  have "\<forall>v<256. gate_ok (interrupts_IDTEntry (interrupts_init a d stub s1) ! v)"
    using i(3) by (simp add: gate_ok_def idt_entry_def)
  from set_gates_ok [OF i(1,2) this] have ok: "\<forall>v<256. gate_ok (interrupts_IDTEntry t ! v)" by (simp add: t_def)
  have e: "protect_GDTEntry t = protect_GDTEntry s1" "gdtr t = gdtr s1" by (simp_all add: t_def i(5,6))
  have flat: "seg_limit (gdt_entry 0 0xFFFFFFFF a' 0xCF) = 0xFFFFFFFF" for a' by (simp add: seg_limit_entry)
  have code: "code_descriptor (gdt_entry 0 0xFFFFFFFF 0x9A 0xCF)" "\<not> code_descriptor (gdt_entry 0 0xFFFFFFFF 0x92 0xCF)"
    by (simp_all add: code_descriptor_def gdt_entry_def)
  have null: "gdt_entry 0 0 0 0 = \<lparr>limit_low = 0, base_low = 0, base_middle = 0, access = 0, granularity = 0, base_high = 0\<rparr>"
    by (simp add: gdt_entry_def)
  have sel: "unat (drop_bit 3 (selector (interrupts_IDTEntry t ! v))) = 1" if "v < 256" for v
    using ok that by (simp add: gate_ok_def)
  have "(\<forall>v<256. gate_ok (interrupts_IDTEntry t ! v) \<and>
            code_descriptor (protect_GDTEntry t ! (unat (drop_bit 3 (selector (interrupts_IDTEntry t ! v))))))"
    using ok sel code(1) by (simp add: e(1) p(7))
  then show ?thesis
    using p(1,4-6) flat code null by (intro exI [of _ s1]) (simp add: t_def [symmetric] Let_def e p(7) seg_base_entry)
qed

definition prot_demo :: prot where
  "prot_demo = multi.extend multi_demo
     \<lparr>protect_InitLock = False, protect_GDTEntry = replicate 3 (gdt_entry 1 2 3 4), protect_GDTPointer = \<lparr>tlimit = 0, tbase = 0\<rparr>,
      interrupts_InitLock = False, interrupts_IDTEntry = replicate 256 (idt_entry 0),
      interrupts_IDTPointer = \<lparr>tlimit = 0, tbase = 0\<rparr>, gdtr = \<lparr>tlimit = 0, tbase = 0\<rparr>, idtr = \<lparr>tlimit = 0, tbase = 0\<rparr>,
      code_seg = 0, data_seg = 0, cr4 = 0\<rparr>"

lemma prot_demo_fields:
  "protect_InitLock prot_demo = False" "length (protect_GDTEntry prot_demo) = 3"
  "interrupts_InitLock prot_demo = False" "length (interrupts_IDTEntry prot_demo) = 256"
  by (simp_all add: prot_demo_def multi.defs)

theorem gates_follow_requests_witness:
  "let t = set_gates 0x1000 [(0x80, 0x2000), (3, 0), (300, 5), (0x80, 0x3000)]
        (interrupts_init 0x9000 0x1000 (\<lambda>i. of_nat (0x4000 + 16 * i)) (set_gates 0x1000 [(7, 0x77)] prot_demo))
   in gate_offset (interrupts_IDTEntry t ! 0x80) = 0x3000 \<and> gate_offset (interrupts_IDTEntry t ! 3) = 0x1000 \<and>
      gate_offset (interrupts_IDTEntry t ! 7) = 0x4070 \<and> gate_offset (interrupts_IDTEntry t ! 200) = 0x1000"
proof -
  have "(of_nat (0x4000 + 16 * i) :: u32) \<noteq> 0" if "i < 32" for i
  proof -
    have "unat (of_nat (0x4000 + 16 * i) :: u32) = 0x4000 + 16 * i" using that by (subst unat_of_nat) simp
    then show ?thesis by (metis add_is_0 unsigned_0 zero_neq_numeral)
  qed
  then have "\<forall>i<32. (of_nat (0x4000 + 16 * i) :: u32) \<noteq> 0" by blast
  note g = gates_follow_requests [where s = prot_demo and d = "0x1000" and a = "0x9000" and stub = "\<lambda>i. of_nat (0x4000 + 16 * i)"
      and rs = "[(0x80, 0x2000), (3, 0), (300, 5), (0x80, 0x3000)]" and early = "[(7, 0x77)]", OF _ _ _ this]
  show ?thesis unfolding Let_def
    by (simp add: g [THEN conjunct1, rule_format] prot_demo_fields del: set_gates.simps of_nat_add of_nat_mult)
qed

theorem descriptors_well_formed_witness:
  "\<exists>s1. protect_init 0x8000 prot_demo = Inr s1 \<and> code_seg s1 = 8 \<and>
     gate_ok (interrupts_IDTEntry (set_gates 0x1000 [(0x80, 0x2000)] (interrupts_init 0x9000 0x1000 (\<lambda>_. 0x4000) s1)) ! 0x80)"
proof -
  note p = prot_demo_fields
  from descriptors_well_formed [where s = prot_demo and d = "0x1000" and a = "0x9000" and stub = "\<lambda>_. 0x4000"
      and g = "0x8000" and rs = "[(0x80, 0x2000)]"] p
  obtain s1 where "protect_init 0x8000 prot_demo = Inr s1" "code_seg s1 = 8"
    "\<forall>v<256. gate_ok (interrupts_IDTEntry (set_gates 0x1000 [(0x80, 0x2000)] (interrupts_init 0x9000 0x1000 (\<lambda>_. 0x4000) s1)) ! v)"
    by (auto simp: Let_def)
  then show ?thesis by simp
qed

end
