(* ===== verification/Syscall.thy ===== *)
theory Syscall
  imports Protect
begin

text \<open>
  System calls, \<open>source/kernel/syscall.c\<close>: the table behind vector \<open>0x80\<close>, the handler that takes its
  arguments from the registers of the interrupted process, and the router of the yield vector \<open>0x9E\<close>. The
  functions called are those of \<open>IoCall\<close> and \<open>Multitask\<close>.
\<close>

section \<open>State and operations\<close>

abbreviation (input) SYSCALL_ENTCOUNT :: nat where "SYSCALL_ENTCOUNT \<equiv> 256"

datatype sysfn = Sys_exit | Sys_spawn | Sys_read | Sys_write | Sys_open | Sys_close

record sysc = prot +
  syscall_Table :: "sysfn option list"

text \<open>A string argument is read from memory up to its NUL, at most to the end of the address space. An \<open>int\<close>
  argument is the signed reading of a register.\<close>

definition string_arg :: "addr \<Rightarrow> 'a sysc_scheme \<Rightarrow> cstring" where
  "string_arg a s = str_at (mem s) a (2 ^ 32 - a)"

definition int_result :: "(int \<times> 'a sysc_scheme) res \<Rightarrow> (nat option \<times> 'a sysc_scheme) res" where
  "int_result m = bindR m (\<lambda>(r, s). Inr (Some (nat (r mod 2 ^ 32)), s))"

text \<open>The caller-saved registers as the compiled code of the handler leaves them: \<open>ECX\<close> and \<open>EDX\<close>, and \<open>EAX\<close> where no
  result is put there. They depend on the compiler, so they are a parameter.\<close>

record leftovers =
  left_EAX :: nat
  left_ECX :: nat
  left_EDX :: nat

text \<open>The call through the pointer of the table. \<open>exit\<close> has no result; where it switches, it does not return and the
  processor goes on in the next process (\<open>None\<close>).\<close>

definition sys_call :: "leftovers \<Rightarrow> sysfn \<Rightarrow> nat \<Rightarrow> nat \<Rightarrow> nat \<Rightarrow> 'a sysc_scheme \<Rightarrow> (nat option \<times> 'a sysc_scheme) res" where
  "sys_call left f ebx ecx edx s =
     (case f of
        Sys_exit \<Rightarrow> bindR (exit_proc s)
          (\<lambda>s1. Inr (if multitask_Focus s1 = multitask_Focus (clamp_focus s) then Some (left_EAX left) else None, s1))
      | Sys_spawn \<Rightarrow> int_result (spawn (if ebx = 0 then None else Some (string_arg ebx s)) ecx s)
      | Sys_read \<Rightarrow> bindR (read_call (swrap32 (int ebx)) ecx edx s) (\<lambda>(n, s1). Inr (Some n, s1))
      | Sys_write \<Rightarrow> bindR (write_call (swrap32 (int ebx)) ecx edx s) (\<lambda>(n, s1). Inr (Some n, s1))
      | Sys_open \<Rightarrow> int_result (open_call (string_arg ebx s) (of_nat ecx) s)
      | Sys_close \<Rightarrow> int_result (close_call (swrap32 (int ebx)) s))"

text \<open>The handler is an ordinary C function behind an interrupt gate. On entry the stack holds the frame of the
  interrupt, \<open>EIP\<close>, \<open>CS\<close> and \<open>EFLAGS\<close>; its \<open>ret\<close> takes the first of them, and the other two stay on the stack of
  the interrupted code. \<open>EBX\<close>, \<open>ESI\<close>, \<open>EDI\<close> and \<open>EBP\<close> are restored by the compiled code.\<close>

definition handler_return :: "leftovers \<Rightarrow> nat \<Rightarrow> 'a sysc_scheme \<Rightarrow> 'a sysc_scheme" where
  "handler_return left result s =
     s\<lparr>cpu := (cpu s)\<lparr>EAX := result, ECX := left_ECX left, EDX := left_EDX left,
         EIP := rd32 (mem s) (ESP (cpu s)), ESP := wrap32 (ESP (cpu s) + 4)\<rparr>\<rparr>"

text \<open>The table is read before its bound is tested; a null entry stores no result.\<close>

definition syscall_handler :: "leftovers \<Rightarrow> 'a sysc_scheme \<Rightarrow> 'a sysc_scheme res" where
  "syscall_handler left s =
     (let eax = EAX (cpu s); ebx = EBX (cpu s); ecx = ECX (cpu s); edx = EDX (cpu s)
      in if \<not> eax < length (syscall_Table s) then Inl OutOfBounds
         else case syscall_Table s ! eax of
             None \<Rightarrow> Inr (handler_return left (left_EAX left) s)
           | Some f \<Rightarrow> bindR (sys_call left f ebx ecx edx s)
               (\<lambda>(result, s1). Inr (case result of None \<Rightarrow> s1 | Some r \<Rightarrow> handler_return left r s1)))"

text \<open>The router is naked: on entry the stack holds \<open>EIP\<close>, \<open>CS\<close> and \<open>EFLAGS\<close>. The register into which the compiler puts the
  address of \<open>yield\<close> before the call is not modelled.\<close>

definition router_return :: "'a sysc_scheme \<Rightarrow> 'a sysc_scheme" where
  "router_return s =
     (let esp = ESP (cpu s) - 4;
          m1 = wr32 (mem s) esp (EAX (cpu s));
          ret = rd32 m1 (esp + 4);
          m2 = wr32 m1 (esp + 12) ret;
          eax = rd32 m2 esp;
          top = esp + 4 + 8
      in s\<lparr>mem := m2, cpu := (cpu s)\<lparr>EAX := eax, EIP := rd32 m2 top, ESP := top + 4\<rparr>\<rparr>)"

definition syscall_yieldRouter :: "'a sysc_scheme \<Rightarrow> 'a sysc_scheme res" where
  "syscall_yieldRouter s = bindR (yield s) (\<lambda>s1. Inr (router_return s1))"

definition syscall_init :: "u32 \<Rightarrow> u32 \<Rightarrow> u32 \<Rightarrow> 'a sysc_scheme \<Rightarrow> 'a sysc_scheme" where
  "syscall_init dflt handler_addr router_addr s =
     (let s1 = s\<lparr>syscall_Table := (syscall_Table s)[0x01 := Some Sys_exit, 0x02 := Some Sys_spawn, 0x03 := Some Sys_read,
            0x04 := Some Sys_write, 0x05 := Some Sys_open, 0x06 := Some Sys_close]\<rparr>
      in interrupts_setGate dflt 0x9E router_addr (interrupts_setGate dflt 0x80 handler_addr s1))"

section \<open>Lemmas\<close>

lemma syscall_table_init:
  "length (syscall_Table s) = 256 \<Longrightarrow> syscall_Table (syscall_init d h r s) =
     (syscall_Table s)[1 := Some Sys_exit, 2 := Some Sys_spawn, 3 := Some Sys_read, 4 := Some Sys_write, 5 := Some Sys_open, 6 := Some Sys_close]"
  by (simp add: syscall_init_def interrupts_setGate_def Let_def)

definition number_of :: "nat \<Rightarrow> sysfn option" where
  "number_of n = (if n = 1 then Some Sys_exit else if n = 2 then Some Sys_spawn else if n = 3 then Some Sys_read
     else if n = 4 then Some Sys_write else if n = 5 then Some Sys_open else if n = 6 then Some Sys_close else None)"

lemma syscall_table_nth:
  "syscall_Table s = replicate 256 None \<Longrightarrow> n < 256 \<Longrightarrow> syscall_Table (syscall_init d h r s) ! n = number_of n"
  by (simp add: syscall_table_init number_of_def nth_list_update)

lemma router_return_stack:
  assumes "4 \<le> ESP (cpu s)" "EAX (cpu s) < 4294967296"
  shows "cpu (router_return s) = (cpu s)\<lparr>EIP := rd32 (mem s) (ESP (cpu s)), ESP := ESP (cpu s) + 12\<rparr>"
proof -
  obtain e where e: "ESP (cpu s) = e + 4" using assms(1) by (metis add.commute le_Suc_ex)
  have a: "rd32 (wr32 m a n) b = rd32 m b" if "a + 4 \<le> b \<or> b + 4 \<le> a" for m a n b
    by (rule rd32_cong) (use that in \<open>auto simp: wr32_def mwrite_def\<close>)
  have "rd32 (mem s) (e + 4) < 4294967296" by (rule rd32_less)
  then show ?thesis using assms(2) by (simp add: router_return_def Let_def e a add.commute add.left_commute)
qed

lemma prot_frame [simp]:
  "fs_inv (s\<lparr>cpu := c\<rparr>) = fs_inv s" "fs_view (s\<lparr>cpu := c\<rparr>) = fs_view s"
proof -
  have h: "same_heap (s\<lparr>cpu := c\<rparr>) s" by (rule same_heapI) simp_all
  show "fs_inv (s\<lparr>cpu := c\<rparr>) = fs_inv s" by (rule same_heapD(1) [OF h])
  show "fs_view (s\<lparr>cpu := c\<rparr>) = fs_view s" by (rule fs_view_cong) simp_all
qed

section \<open>Properties\<close>

text \<open>C28.
  After the initialisation the two vectors lead to the handler and to the yield router, and the handler answers exactly
  the numbers 1 to 6: \<open>exit\<close>, \<open>spawn\<close>, \<open>read\<close>, \<open>write\<close>, \<open>open\<close> and \<open>close\<close>, called with \<open>EBX\<close>, \<open>ECX\<close> and \<open>EDX\<close> of the
  interrupted process, with their result (-1 as \<open>0xFFFFFFFF\<close>) in \<open>EAX\<close>; an \<open>exit\<close> that switches does not return. Every other
  number below 256 only returns: it stores no result, and the process goes on behind its \<open>int\<close> with two words
  of the interrupt frame still on its stack. A number from 256 on is an access outside the table.\<close>

theorem syscall_answers:
  fixes s :: "'a sysc_scheme" and u :: "'b sysc_scheme"
  assumes "interrupts_InitLock s" "length (interrupts_IDTEntry s) = 256" "h \<noteq> 0" "r \<noteq> 0"
    and "syscall_Table s = replicate 256 None" "syscall_Table u = syscall_Table (syscall_init d h r s)"
    and "n = EAX (cpu u)" "b = EBX (cpu u)" "c = ECX (cpu u)" "e = EDX (cpu u)"
  shows "gate_offset (interrupts_IDTEntry (syscall_init d h r s) ! 0x80) = h \<and>
    gate_offset (interrupts_IDTEntry (syscall_init d h r s) ! 0x9E) = r \<and>
    syscall_handler left u =
     (if n = 1 then bindR (exit_proc u)
        (\<lambda>v. Inr (if multitask_Focus v = multitask_Focus (clamp_focus u) then handler_return left (left_EAX left) v else v))
      else if n = 2 then bindR (spawn (if b = 0 then None else Some (string_arg b u)) c u)
        (\<lambda>(pid, v). Inr (handler_return left (if pid = -1 then 0xFFFFFFFF else nat (pid mod 2 ^ 32)) v))
      else if n = 3 then bindR (read_call (swrap32 (int b)) c e u) (\<lambda>(k, v). Inr (handler_return left k v))
      else if n = 4 then bindR (write_call (swrap32 (int b)) c e u) (\<lambda>(k, v). Inr (handler_return left k v))
      else if n = 5 then bindR (open_call (string_arg b u) (of_nat c) u)
        (\<lambda>(fd, v). Inr (handler_return left (if fd = -1 then 0xFFFFFFFF else nat (fd mod 2 ^ 32)) v))
      else if n = 6 then bindR (close_call (swrap32 (int b)) u)
        (\<lambda>(st, v). Inr (handler_return left (if st = -1 then 0xFFFFFFFF else nat (st mod 2 ^ 32)) v))
      else if n < 256 then Inr (u\<lparr>cpu := (cpu u)\<lparr>EAX := left_EAX left, ECX := left_ECX left, EDX := left_EDX left,
         EIP := rd32 (mem u) (ESP (cpu u)), ESP := wrap32 (ESP (cpu u) + 4)\<rparr>\<rparr>)
      else Inl OutOfBounds)"
proof -
  have len: "length (syscall_Table u) = 256" using assms(5,6) by (simp add: syscall_table_init)
  have nth: "syscall_Table u ! k = number_of k" if "k < 256" for k
    unfolding assms(6) using assms(5) that by (rule syscall_table_nth)
  have g: "gate_offset (interrupts_IDTEntry (syscall_init d h r s) ! 0x80) = h"
    "gate_offset (interrupts_IDTEntry (syscall_init d h r s) ! 0x9E) = r"
    using assms(1-4) by (simp_all add: syscall_init_def interrupts_setGate_def Let_def gate_offset_entry)
  have hd: "syscall_handler left u = (if \<not> n < 256 then Inl OutOfBounds else case number_of n of
      None \<Rightarrow> Inr (handler_return left (left_EAX left) u)
    | Some f \<Rightarrow> bindR (sys_call left f b c e u)
        (\<lambda>(result, v). Inr (case result of None \<Rightarrow> v | Some k \<Rightarrow> handler_return left k v)))"
    unfolding syscall_handler_def Let_def len assms(7-10) [symmetric] by (cases "n < 256") (simp_all add: nth)
  show ?thesis using g unfolding hd
    by (simp only: number_of_def) (auto simp: sys_call_def int_result_def handler_return_def bindR_assoc split_beta intro!: bindR_cong)
qed

text \<open>A process that asks for \<open>write\<close> through the vector gets what the file system promises: with a descriptor
  open for writing on a file and room on the heap, \<open>EAX\<close> comes back as the byte count and the file holds
  the buffer spliced in at the position, or it comes back as -1 and every file holds what it held.\<close>

theorem syscall_write_splices:
  fixes s :: "'a sysc_scheme"
  assumes "syscall_Table s = syscall_Table t" "t = syscall_init d h r t0" "syscall_Table t0 = replicate 256 None"
    and "fs_inv s" "length (iocall_FileDesc s) = IOCALL_MAXFD" "j < IOCALL_MAXFD"
    and "EAX (cpu s) = 4" "EBX (cpu s) = 3 + j" "EDX (cpu s) = cnt"
    and "desc_for (iocall_FileDesc s ! j) i O_WRONLY s" "ptr (iocall_FileDesc s ! j) + cnt < SIZE_MINUS1"
    and "limit = max (fsize (ent_at s i)) (ptr (iocall_FileDesc s ! j) + cnt)" "0 < limit"
    and "fits s (MEMORY_BLKSIZE + limit)" "buf_ok s (ECX (cpu s)) cnt"
  shows "\<exists>s'. syscall_handler left s = Inr s' \<and> fs_inv s' \<and>
    (if EAX (cpu s') = 0xFFFFFFFF then (\<forall>q. map_option snd (fs_view s' q) = map_option snd (fs_view s q))
     else EAX (cpu s') = cnt \<and>
       (\<exists>e. fs_view s' = (fs_view s)(name (ent_at s i) \<mapsto>
          (e, splice (ptr (iocall_FileDesc s ! j)) (mread (mem s) (ECX (cpu s)) cnt) (bytes_at s i))) \<and> fsize e = limit))"
proof -
  have tab: "length (syscall_Table s) = 256" "syscall_Table s ! 4 = Some Sys_write"
    using syscall_table_nth [OF assms(3), of 4 d h r] assms(1-3)
    by (simp_all add: syscall_table_init number_of_def)
  have fd: "swrap32 (int (3 + j)) = 3 + int j" using assms(6) by (simp add: swrap32_def)
  obtain n s1 where w: "write_call (3 + int j) (ECX (cpu s)) cnt s = Inr (n, s1)" "fs_inv s1"
    "if n = SIZE_MINUS1 then (\<forall>q. map_option snd (fs_view s1 q) = map_option snd (fs_view s q))
     else n = cnt \<and> ptr (iocall_FileDesc s1 ! j) = ptr (iocall_FileDesc s ! j) + cnt \<and>
       (\<exists>e. fs_view s1 = (fs_view s)(name (ent_at s i) \<mapsto>
          (e, splice (ptr (iocall_FileDesc s ! j)) (mread (mem s) (ECX (cpu s)) cnt) (bytes_at s i))) \<and> fsize e = limit)"
    using write_at_ptr [OF assms(4-6) refl assms(10-15)] by blast
  have "syscall_handler left s = Inr (handler_return left n s1)"
    using tab assms(7-9) w(1) fd by (simp add: syscall_handler_def Let_def sys_call_def)
  moreover have "fs_inv (handler_return left n s1) = fs_inv s1" "fs_view (handler_return left n s1) = fs_view s1"
    "EAX (cpu (handler_return left n s1)) = n" by (simp_all add: handler_return_def)
  ultimately show ?thesis using w(2,3) by (intro exI [of _ "handler_return left n s1"]) (simp split: if_splits)
qed

text \<open>The sample system with the first descriptor open and a \<open>write\<close> call in the registers.\<close>

definition sysc_demo0 :: sysc where
  "sysc_demo0 = prot.extend (prot_demo\<lparr>interrupts_InitLock := True\<rparr>) \<lparr>syscall_Table = replicate 256 None\<rparr>"

definition sysc_demo :: sysc where
  "sysc_demo = (syscall_init 0x1000 0x2000 0x3000 sysc_demo0)
     \<lparr>cpu := zero_ctx\<lparr>EAX := 4, EBX := 3, ECX := 100, EDX := 4\<rparr>\<rparr>"

lemma sysc_demo0_fields:
  "interrupts_InitLock sysc_demo0" "length (interrupts_IDTEntry sysc_demo0) = 256" "syscall_Table sysc_demo0 = replicate 256 None"
  by (simp_all add: sysc_demo0_def prot.defs prot_demo_def multi.defs)

lemma sysc_demo_fields:
  "syscall_Table sysc_demo = syscall_Table (syscall_init 0x1000 0x2000 0x3000 sysc_demo0)"
  "EAX (cpu sysc_demo) = 4" "EBX (cpu sysc_demo) = 3" "ECX (cpu sysc_demo) = 100" "EDX (cpu sysc_demo) = 4"
  "fs_EntryV sysc_demo = fs_EntryV multi_demo" "fs_ent sysc_demo = fs_ent multi_demo" "mem sysc_demo = mem multi_demo"
  "fs_InitLock sysc_demo = fs_InitLock multi_demo" "iocall_FileDesc sysc_demo = iocall_FileDesc io_demo"
  "memory_InitLock sysc_demo = memory_InitLock multi_demo" "memory_Space sysc_demo = memory_Space multi_demo"
  "memory_Limit sysc_demo = memory_Limit multi_demo" "memory_BlockV sysc_demo = memory_BlockV multi_demo"
  "memory_BlockC sysc_demo = memory_BlockC multi_demo"
  by (simp_all add: sysc_demo_def syscall_init_def interrupts_setGate_def Let_def sysc_demo0_def prot.defs prot_demo_def
      multi.defs del: multi_demo_fields)
    (simp add: multi_demo_def io.defs del: multi_demo_fields)

lemma sysc_demo_stream: "\<not> multitask_InStream sysc_demo"
  by (simp add: sysc_demo_def syscall_init_def interrupts_setGate_def Let_def sysc_demo0_def prot.defs prot_demo_def multi.defs)
    (simp add: multi_demo_def io.defs)

lemma sysc_demo_fs: "fs_inv sysc_demo" "fits sysc_demo 4184" "bytes_at sysc_demo 1 = mread (mem multi_demo) 16384 88"
  "ent_at sysc_demo 1 = sample_entry (cstr ''/a'') 88 FS_TYPE_FILE" "in_use sysc_demo 1"
proof -
  note f = sysc_demo_fields
  have "live sysc_demo = live multi_demo" by (rule live_cong [OF f(12,14)])
  moreover have "mm_inv sysc_demo = mm_inv multi_demo" by (rule mm_inv_cong [OF f(11-15)])
  ultimately show "fs_inv sysc_demo" using fs_inv_cong [OF f(6,7) _ _ f(9)] multi_demo_fs by blast
  show "fits sysc_demo 4184" using fs_demo_fits [of 4184] by (simp add: fits_def f)
  show e: "ent_at sysc_demo 1 = sample_entry (cstr ''/a'') 88 FS_TYPE_FILE"
    using multi_demo_ent(2) by (simp only: ent_at_def f(6,7))
  show "in_use sysc_demo 1" using multi_demo_use [of 1] by (simp add: in_use_def f(6))
  show "bytes_at sysc_demo 1 = mread (mem multi_demo) 16384 88"
    unfolding bytes_at_def e using multi_demo_ent(4) by (simp add: f(6,8) own_bytes_def sample_entry_def data_of_def del: multi_demo_fields)
qed

theorem syscall_answers_witness:
  "\<forall>left. gate_offset (interrupts_IDTEntry (syscall_init 0x1000 0x2000 0x3000 sysc_demo0) ! 0x80) = 0x2000 \<and>
   syscall_handler left (sysc_demo\<lparr>cpu := zero_ctx\<lparr>EAX := 300\<rparr>\<rparr>) = Inl OutOfBounds \<and>
   syscall_handler left (sysc_demo\<lparr>cpu := zero_ctx\<lparr>EAX := 2\<rparr>\<rparr>) =
     Inr (handler_return left 0xFFFFFFFF (sysc_demo\<lparr>cpu := zero_ctx\<lparr>EAX := 2\<rparr>\<rparr>))"
proof -
  note a = syscall_answers [OF sysc_demo0_fields(1,2) _ _ sysc_demo0_fields(3) _ refl refl refl refl, of "0x2000" "0x3000" _ "0x1000"]
  show ?thesis
    using a [of "sysc_demo\<lparr>cpu := zero_ctx\<lparr>EAX := 300\<rparr>\<rparr>"] a [of "sysc_demo\<lparr>cpu := zero_ctx\<lparr>EAX := 2\<rparr>\<rparr>"]
    by (simp add: sysc_demo_fields(1) spawn_def zero_ctx_def)
qed

theorem syscall_write_splices_witness:
  "\<forall>left. \<exists>s'. syscall_handler left sysc_demo = Inr s' \<and> fs_inv s' \<and>
     (EAX (cpu s') = 0xFFFFFFFF \<or> EAX (cpu s') = 4 \<and>
       (\<exists>e. fs_view s' (cstr ''/a'') = Some (e, splice 1 (mread (mem sysc_demo) 100 4) (bytes_at sysc_demo 1))))"
proof (rule allI)
  fix left
  note f = sysc_demo_fields
  let ?d = "iocall_FileDesc sysc_demo ! 0"
  have d: "?d = \<lparr>entry = 1, flags = 4, ptr = 1, op = False\<rparr>" by (simp add: f(10))
  have p: "ptr ?d = 1" by (simp add: d)
  have desc: "desc_for ?d 1 2 sysc_demo" unfolding d
    using sysc_demo_fs(4,5) by (simp add: desc_for_def has_flag_def sample_entry_def)
  have e: "fsize (ent_at sysc_demo 1) = 88" "name (ent_at sysc_demo 1) = cstr ''/a''"
    unfolding sysc_demo_fs by (simp_all add: sample_entry_def)
  have l: "88 = max (fsize (ent_at sysc_demo 1)) (ptr ?d + 4)" unfolding e p by simp
  have b: "buf_ok sysc_demo (ECX (cpu sysc_demo)) 4" by (simp add: buf_ok_def f)
  have fit: "fits sysc_demo (MEMORY_BLKSIZE + 88)" using sysc_demo_fs(2) by simp
  have len: "length (iocall_FileDesc sysc_demo) = 64" by (simp add: f(10))
  have lt: "ptr ?d + 4 < SIZE_MINUS1" unfolding p by simp
  have bx: "EBX (cpu sysc_demo) = 3 + 0" by (simp add: f)
  from syscall_write_splices [OF f(1) refl sysc_demo0_fields(3) sysc_demo_fs(1) len _ f(2) bx f(5) desc lt l _ fit b]
  obtain s' where s': "syscall_handler left sysc_demo = Inr s'" "fs_inv s'"
    "if EAX (cpu s') = 0xFFFFFFFF then (\<forall>q. map_option snd (fs_view s' q) = map_option snd (fs_view sysc_demo q))
     else EAX (cpu s') = 4 \<and> (\<exists>e. fs_view s' = (fs_view sysc_demo)(cstr ''/a'' \<mapsto>
          (e, splice 1 (mread (mem sysc_demo) 100 4) (bytes_at sysc_demo 1))) \<and> fsize e = 88)"
    unfolding e p f(4) by auto
  then show "\<exists>s'. syscall_handler left sysc_demo = Inr s' \<and> fs_inv s' \<and>
     (EAX (cpu s') = 0xFFFFFFFF \<or> EAX (cpu s') = 4 \<and>
       (\<exists>e. fs_view s' (cstr ''/a'') = Some (e, splice 1 (mread (mem sysc_demo) 100 4) (bytes_at sysc_demo 1))))"
    by (intro exI [of _ s']) (auto split: if_splits)
qed

end
