(* ===== verification/Machine.thy ===== *)
theory Machine
  imports Syscall PortIO
begin

text \<open>
  What the hardware drivers add to the kernel state: the ports, the time stamp counter and the processor
  description (\<open>kernel_CPUInfo\<close>), with the port functions lifted to this state, \<open>delay\<close> and the calls of \<open>sleep\<close>, and the
  facts about the message macros the drivers share.
\<close>

record kernel_CPUInfo_t =
  vendor_name :: cstring
  brand :: cstring
  frequency :: nat
  cores :: u32
  threads :: u32
  has_tsc :: u32
  has_sse :: u32
  has_avx :: u32
  has_vtx :: u32
  has_aes :: u32
  has_x64 :: u32

text \<open>\<open>tsc k\<close> is the \<open>k\<close>-th reading of the time stamp counter, \<open>tsc_pos\<close> counts the readings taken.\<close>

record hw = sysc +
  pio :: ports
  tsc :: "nat \<Rightarrow> nat"
  tsc_pos :: nat
  kernel_CPUInfo :: kernel_CPUInfo_t

definition inb :: "u16 \<Rightarrow> 'a hw_scheme \<Rightarrow> u8 \<times> 'a hw_scheme" where
  "inb port s = (let (v, p) = port_inb port (pio s) in (v, s\<lparr>pio := p\<rparr>))"

definition inw :: "u16 \<Rightarrow> 'a hw_scheme \<Rightarrow> u16 \<times> 'a hw_scheme" where
  "inw port s = (let (v, p) = port_inw port (pio s) in (v, s\<lparr>pio := p\<rparr>))"

definition inl :: "u16 \<Rightarrow> 'a hw_scheme \<Rightarrow> u32 \<times> 'a hw_scheme" where
  "inl port s = (let (v, p) = port_inl port (pio s) in (v, s\<lparr>pio := p\<rparr>))"

definition outb :: "u16 \<Rightarrow> u8 \<Rightarrow> 'a hw_scheme \<Rightarrow> 'a hw_scheme" where
  "outb port v s = s\<lparr>pio := port_outb port v (pio s)\<rparr>"

definition outl :: "u16 \<Rightarrow> u32 \<Rightarrow> 'a hw_scheme \<Rightarrow> 'a hw_scheme" where
  "outl port v s = s\<lparr>pio := port_outl port v (pio s)\<rparr>"

definition utils_rdtsc :: "'a hw_scheme \<Rightarrow> nat \<times> 'a hw_scheme" where
  "utils_rdtsc s = (let (v, k) = rdtsc (tsc s) (has_tsc (kernel_CPUInfo s) \<noteq> 0) (tsc_pos s) in (v, s\<lparr>tsc_pos := k\<rparr>))"

text \<open>\<open>delay\<close> watches the time stamp counter. As for \<open>sleep\<close>, \<open>turn\<close> is what \<open>if (multitask_InStream) yield()\<close> amounts to
  for the caller, and not returning is \<open>None\<close>.\<close>

partial_function (option) delay_loop :: "('a hw_scheme \<Rightarrow> 'a hw_scheme res) \<Rightarrow> nat \<Rightarrow> 'a hw_scheme \<Rightarrow> 'a hw_scheme res option" where
  "delay_loop turn till s =
     (let (now, s1) = utils_rdtsc s
      in if now < till then (case turn s1 of Inl e \<Rightarrow> Some (Inl e) | Inr s2 \<Rightarrow> delay_loop turn till s2) else Some (Inr s1))"

definition delay :: "('a hw_scheme \<Rightarrow> 'a hw_scheme res) \<Rightarrow> nat \<Rightarrow> 'a hw_scheme \<Rightarrow> 'a hw_scheme res option" where
  "delay turn ms s =
     (if has_tsc (kernel_CPUInfo s) = 0 then Some (Inr s)
      else let time = frequency (kernel_CPUInfo s) * ms mod 2 ^ 64 div 1024; (now, s1) = utils_rdtsc s
           in delay_loop turn ((time + now) mod 2 ^ 64) s1)"

text \<open>The calls \<open>delay(ms)\<close> and \<open>sleep(n)\<close> of the kernel; not returning is \<open>Diverges\<close>.\<close>

definition pause :: "('a hw_scheme \<Rightarrow> 'a hw_scheme res) \<Rightarrow> nat \<Rightarrow> 'a hw_scheme \<Rightarrow> 'a hw_scheme res" where
  "pause others ms s = (case delay (in_stream others) ms s of None \<Rightarrow> Inl Diverges | Some r \<Rightarrow> r)"

definition sleep_secs :: "('a hw_scheme \<Rightarrow> 'a hw_scheme res) \<Rightarrow> nat \<Rightarrow> 'a hw_scheme \<Rightarrow> 'a hw_scheme res" where
  "sleep_secs others n s = (case sleep (in_stream others) n s of None \<Rightarrow> Inl Diverges | Some r \<Rightarrow> r)"

text \<open>What readings of the counter and turns of the others keep, a delay that returns keeps.\<close>

lemma delay_loop_keeps:
  assumes clock: "\<And>t k. P t \<Longrightarrow> P (t\<lparr>tsc_pos := k\<rparr>)" and turn: "\<And>t u. P t \<Longrightarrow> turn t = Inr u \<Longrightarrow> P u"
    and "delay_loop turn till s = Some (Inr s')" "P s"
  shows "P s'"
proof -
  have rd: "\<exists>now k. utils_rdtsc t = (now, t\<lparr>tsc_pos := k\<rparr>)" for t :: "'a hw_scheme"
    by (auto simp: utils_rdtsc_def split_beta)
  have "turn = turn \<longrightarrow> P s \<longrightarrow> r = Inr s' \<longrightarrow> P s'" if "delay_loop turn till s = Some r" for r
    using that
  proof (rule delay_loop.raw_induct [rotated, where P = "\<lambda>f till s r. f = turn \<longrightarrow> P s \<longrightarrow> r = Inr s' \<longrightarrow> P s'"])
    fix loop :: "('a hw_scheme \<Rightarrow> 'a hw_scheme res) \<Rightarrow> nat \<Rightarrow> 'a hw_scheme \<Rightarrow> 'a hw_scheme res option" and f till s r
    assume IH: "\<And>f till s r. loop f till s = Some r \<Longrightarrow> f = turn \<longrightarrow> P s \<longrightarrow> r = Inr s' \<longrightarrow> P s'"
      and eq: "(let (now, s1) = utils_rdtsc s in if now < till then (case f s1 of Inl e \<Rightarrow> Some (Inl e) | Inr s2 \<Rightarrow> loop f till s2)
        else Some (Inr s1)) = Some r"
    show "f = turn \<longrightarrow> P s \<longrightarrow> r = Inr s' \<longrightarrow> P s'"
    proof (intro impI)
      assume f: "f = turn" and p: "P s" and r: "r = Inr s'"
      obtain now k where k: "utils_rdtsc s = (now, s\<lparr>tsc_pos := k\<rparr>)" using rd by blast
      show "P s'"
      proof (cases "now < till")
        case True
        with eq k f r obtain u where u: "turn (s\<lparr>tsc_pos := k\<rparr>) = Inr u" "loop turn till u = Some (Inr s')"
          by (auto split: sum.splits)
        from IH [OF u(2)] turn [OF clock [OF p] u(1)] show ?thesis by blast
      next
        case False
        with eq k r show ?thesis using clock [OF p] by auto
      qed
    qed
  qed
  with assms(3,4) show ?thesis by blast
qed

lemma pause_keeps:
  assumes clock: "\<And>t k. P t \<Longrightarrow> P (t\<lparr>tsc_pos := k\<rparr>)" and turn: "\<And>t u. P t \<Longrightarrow> in_stream others t = Inr u \<Longrightarrow> P u"
    and r: "pause others ms s = Inr s'" and p: "P s"
  shows "P s'"
proof (cases "has_tsc (kernel_CPUInfo s) = 0")
  case True
  then show ?thesis using r p by (simp add: pause_def delay_def)
next
  case False
  obtain now k where k: "utils_rdtsc s = (now, s\<lparr>tsc_pos := k\<rparr>)" by (simp add: utils_rdtsc_def split_beta)
  with r False obtain till where "delay_loop (in_stream others) till (s\<lparr>tsc_pos := k\<rparr>) = Some (Inr s')"
    by (auto simp: pause_def delay_def Let_def split: option.splits)
  then show ?thesis using delay_loop_keeps [where P = P and turn = "in_stream others"] clock turn p by blast
qed

text \<open>Only the hardware part of the state differs.\<close>

definition io_only :: "'a hw_scheme \<Rightarrow> 'a hw_scheme \<Rightarrow> bool" where
  "io_only s s' \<longleftrightarrow> (\<exists>p k t. device p = device (pio s) \<and> s' = s\<lparr>pio := p, tsc_pos := k, tty := t\<rparr>)"

lemma io_only_refl [intro, simp]: "io_only s s"
  unfolding io_only_def by (rule exI [of _ "pio s"], rule exI [of _ "tsc_pos s"], rule exI [of _ "tty s"]) simp

lemma io_only_trans [trans]: "io_only s t \<Longrightarrow> io_only t u \<Longrightarrow> io_only s u"
  unfolding io_only_def by (elim exE conjE) (simp, blast)

lemma io_only_in [intro, simp]:
  "io_only s (snd (inb q s))" "io_only s (snd (inw q s))" "io_only s (snd (inl q s))"
  "io_only s (outb q v s)" "io_only s (outl q w s)"
  unfolding io_only_def inb_def inw_def inl_def outb_def outl_def
  by (simp_all add: split_beta)
    (rule exI [of _ "snd (port_inb q (pio s))"] exI [of _ "snd (port_inw q (pio s))"] exI [of _ "snd (port_inl q (pio s))"]
       exI [of _ "port_outb q v (pio s)"] exI [of _ "port_outl q w (pio s)"], simp,
     rule exI [of _ "tsc_pos s"], rule exI [of _ "tty s"], simp)+

text \<open>Outside the process stream a delay only reads the counter.\<close>

lemma pause_alone:
  assumes "\<not> multitask_InStream s" "pause others ms s = Inr s'"
  shows "\<exists>k. s' = s\<lparr>tsc_pos := k\<rparr>"
proof (rule pause_keeps [where P = "\<lambda>t. \<exists>k. t = s\<lparr>tsc_pos := k\<rparr>", OF _ _ assms(2)])
  show "\<exists>k. s = s\<lparr>tsc_pos := k\<rparr>" by (rule exI [of _ "tsc_pos s"]) simp
  show "\<exists>k. t\<lparr>tsc_pos := l\<rparr> = s\<lparr>tsc_pos := k\<rparr>" if "\<exists>k. t = s\<lparr>tsc_pos := k\<rparr>" for t l using that by auto
  show "\<exists>k. u = s\<lparr>tsc_pos := k\<rparr>" if t: "\<exists>k. t = s\<lparr>tsc_pos := k\<rparr>" "in_stream others t = Inr u" for t u
  proof -
    from t(1) obtain k where k: "t = s\<lparr>tsc_pos := k\<rparr>" by blast
    then have "\<not> multitask_InStream t" using assms(1) by simp
    with t(2) k show ?thesis by auto
  qed
qed

lemma io_only_pause: "\<not> multitask_InStream s \<Longrightarrow> pause others ms s = Inr s' \<Longrightarrow> io_only s s'"
  using pause_alone [of s others ms s'] unfolding io_only_def by (auto intro!: exI [of _ "pio s"] exI [of _ "tty s"])

lemma io_only_stream: "io_only s s' \<Longrightarrow> multitask_InStream s' = multitask_InStream s"
  by (auto simp: io_only_def)

section \<open>Messages\<close>

lemma io_only_tty: "io_only s (s\<lparr>tty := t\<rparr>)"
  unfolding io_only_def by (rule exI [of _ "pio s"], rule exI [of _ "tsc_pos s"], rule exI [of _ t]) simp

lemma io_only_message:
  assumes "37 \<notin> set (cstr fmt)"
  obtains s' where "WARN fn fmt [] s = Inr s'" "io_only s s'"
  using messages_print(2) [OF assms, of fn s] io_only_tty by blast

lemma io_only_error:
  assumes "37 \<notin> set (cstr fmt)"
  obtains s' where "ERR fn fmt [] s = Inr s'" "io_only s s'"
  using messages_print(3) [OF assms, of fn s] io_only_tty by blast

lemma io_only_mem: "io_only s s' \<Longrightarrow> mem s' = mem s"
  by (auto simp: io_only_def)

end
