(* ===== verification/Layout.thy ===== *)
theory Layout
  imports Prelude
begin

text \<open>
  How the compiler lays out the C structures that the kernel reads from memory it has not written: the
  firmware's tables, archive headers, program headers and device registers. The offset of a field is
  computed from the fields before it.
\<close>

text \<open>A field is its name, size and alignment; on i386 a 64-bit integer inside a structure is aligned to four
  bytes. A packed structure aligns every field to one.\<close>

type_synonym field = "string \<times> nat \<times> nat"

definition align_up :: "nat \<Rightarrow> nat \<Rightarrow> nat" where
  "align_up a n = (n + a - 1) div a * a"

fun layout :: "nat \<Rightarrow> field list \<Rightarrow> (string \<times> nat) list" where
  "layout ofs [] = []"
| "layout ofs ((f, sz, al) # fs) = (f, align_up al ofs) # layout (align_up al ofs + sz) fs"

definition offset_of :: "field list \<Rightarrow> string \<Rightarrow> nat" where
  "offset_of fs f = the (map_of (layout 0 fs) f)"

definition packed :: "field list \<Rightarrow> field list" where
  "packed = map (\<lambda>(f, sz, _). (f, sz, 1))"

abbreviation (input) U8 :: "string \<Rightarrow> field" where "U8 f \<equiv> (f, 1, 1)"
abbreviation (input) U16 :: "string \<Rightarrow> field" where "U16 f \<equiv> (f, 2, 2)"
abbreviation (input) U32 :: "string \<Rightarrow> field" where "U32 f \<equiv> (f, 4, 4)"
abbreviation (input) U64 :: "string \<Rightarrow> field" where "U64 f \<equiv> (f, 8, 4)"
abbreviation (input) Bytes :: "string \<Rightarrow> nat \<Rightarrow> field" where "Bytes f n \<equiv> (f, n, 1)"

definition size_of :: "field list \<Rightarrow> nat" where
  "size_of fs = fold (\<lambda>(_, sz, al) ofs. align_up al ofs + sz) fs 0"

definition rd64 :: "mem \<Rightarrow> addr \<Rightarrow> nat" where
  "rd64 m a = rd32 m a + 4294967296 * rd32 m (a + 4)"

end
