(* ===== verification/Acpi.thy ===== *)
theory Acpi
  imports Machine Layout
begin

text \<open>
  The ACPI tables, \<open>source/hw/acpi.c\<close> and \<open>include/hw/acpi.h\<close>: the search for the root pointer, the checksums,
  the search for the tables \<open>FACP\<close> and \<open>MCFG\<close> and the switch into ACPI mode. The layout of the C
  structures is computed from their fields (\<open>Layout\<close>).
\<close>

section \<open>Structures\<close>

definition acpi_RSDP_t :: "field list" where
  "acpi_RSDP_t = packed [Bytes ''Signature'' 8, U8 ''Checksum'', Bytes ''OEMID'' 6, U8 ''Revision'', U32 ''RsdtAddress'']"

definition acpi_XSDP_t :: "field list" where
  "acpi_XSDP_t = packed [U32 ''Length'', U64 ''XsdtAddress'', U8 ''ExtendedChecksum'', Bytes ''reserved'' 3]"

definition acpi_SDTHeader_t :: "field list" where
  "acpi_SDTHeader_t = [Bytes ''Signature'' 4, U32 ''Length'', U8 ''Revision'', U8 ''Checksum'', Bytes ''OEMID'' 6,
     Bytes ''OEMTableID'' 8, U32 ''OEMRevision'', U32 ''CreatorID'', U32 ''CreatorRevision'']"

abbreviation (input) Header :: field where "Header \<equiv> (''h'', 36, 4)"
abbreviation (input) GAS :: "string \<Rightarrow> field" where "GAS f \<equiv> (f, 12, 4)"

definition acpi_FADT_t :: "field list" where
  "acpi_FADT_t =
     [Header, U32 ''FirmwareCtrl'', U32 ''Dsdt'', U8 ''Reserved'', U8 ''PreferredPowerManagementProfile'',
      U16 ''SCI_Interrupt'', U32 ''SMI_CommandPort'', U8 ''AcpiEnable'', U8 ''AcpiDisable'', U8 ''S4BIOS_REQ'',
      U8 ''PSTATE_Control'', U32 ''PM1aEventBlock'', U32 ''PM1bEventBlock'', U32 ''PM1aControlBlock'',
      U32 ''PM1bControlBlock'', U32 ''PM2ControlBlock'', U32 ''PMTimerBlock'', U32 ''GPE0Block'', U32 ''GPE1Block'',
      U8 ''PM1EventLength'', U8 ''PM1ControlLength'', U8 ''PM2ControlLength'', U8 ''PMTimerLength'', U8 ''GPE0Length'',
      U8 ''GPE1Length'', U8 ''GPE1Base'', U8 ''CStateControl'', U16 ''WorstC2Latency'', U16 ''WorstC3Latency'',
      U16 ''FlushSize'', U16 ''FlushStride'', U8 ''DutyOffset'', U8 ''DutyWidth'', U8 ''DayAlarm'', U8 ''MonthAlarm'',
      U8 ''Century'', U16 ''BootArchitectureFlags'', U8 ''Reserved2'', U32 ''Flags'', GAS ''ResetReg'', U8 ''ResetValue'',
      Bytes ''Reserved3'' 3, U64 ''X_FirmwareControl'', U64 ''X_Dsdt'', GAS ''X_PM1aEventBlock'', GAS ''X_PM1bEventBlock'',
      GAS ''X_PM1aControlBlock'', GAS ''X_PM1bControlBlock'', GAS ''X_PM2ControlBlock'', GAS ''X_PMTimerBlock'',
      GAS ''X_GPE0Block'', GAS ''X_GPE1Block'']"

definition acpi_MCFG_t :: "field list" where
  "acpi_MCFG_t = [Header, U64 ''Reserved'', U64 ''pciebase'']"

definition acpi_GenericAddressStructure :: "field list" where
  "acpi_GenericAddressStructure = [U8 ''AddressSpace'', U8 ''BitWidth'', U8 ''BitOffset'', U8 ''AccessSize'', U64 ''Address'']"

section \<open>State\<close>

record acpiTable_t =
  OEMID :: "u8 list"
  Revision :: u8
  support :: bool
  fadt :: addr
  mcfg :: addr

record acpi = hw +
  acpi_InitLock :: bool
  acpiTable :: acpiTable_t

section \<open>Operations\<close>

text \<open>\<open>ncompare(p, lit, n) == 0\<close> for a literal of \<open>n\<close> bytes.\<close>

definition sig :: "mem \<Rightarrow> addr \<Rightarrow> string \<Rightarrow> bool" where
  "sig m a lit \<longleftrightarrow> mread m a (length lit) = cstr lit"

fun byte_sum :: "mem \<Rightarrow> addr \<Rightarrow> nat \<Rightarrow> u32" where
  "byte_sum m a 0 = 0"
| "byte_sum m a (Suc k) = ucast (m a) + byte_sum m (a + 1) k"

fun byte_sum8 :: "mem \<Rightarrow> addr \<Rightarrow> nat \<Rightarrow> u8 \<Rightarrow> u8" where
  "byte_sum8 m a 0 sm = sm"
| "byte_sum8 m a (Suc k) sm = byte_sum8 m (a + 1) k (sm + m a)"

text \<open>The loops over the table of addresses: the last table with the signature wins.\<close>

fun find_sdt :: "mem \<Rightarrow> addr \<Rightarrow> string \<Rightarrow> nat \<Rightarrow> addr \<Rightarrow> addr" where
  "find_sdt m p lit 0 found = found"
| "find_sdt m p lit (Suc k) found = find_sdt m (p + 4) lit k (if sig m (rd32 m p) lit then rd32 m p else found)"

definition fadt32 :: "string \<Rightarrow> 'a acpi_scheme \<Rightarrow> nat" where
  "fadt32 f s = rd32 (mem s) (fadt (acpiTable s) + offset_of acpi_FADT_t f)"

definition fadt8 :: "string \<Rightarrow> 'a acpi_scheme \<Rightarrow> u8" where
  "fadt8 f s = mem s (fadt (acpiTable s) + offset_of acpi_FADT_t f)"

text \<open>\<open>port_inw(fadt->PM1aControlBlock) & 1\<close>\<close>

definition acpi_active :: "'a acpi_scheme \<Rightarrow> bool \<times> 'a acpi_scheme" where
  "acpi_active s = (let (v, s1) = inw (of_nat (fadt32 ''PM1aControlBlock'' s)) s in (bit v 0, s1))"

text \<open>\<open>others\<close> is what other processes do while \<open>delay\<close> lets them (\<open>Multitask.in_stream\<close>).\<close>

fun acpi_wait :: "('a acpi_scheme \<Rightarrow> 'a acpi_scheme res) \<Rightarrow> nat \<Rightarrow> 'a acpi_scheme \<Rightarrow> (nat \<times> 'a acpi_scheme) res" where
  "acpi_wait others 0 s = (let (on, s1) = acpi_active s in Inr (0, s1))"
| "acpi_wait others (Suc t) s =
     (let (on, s1) = acpi_active s
      in if on then Inr (Suc t, s1) else bindR (pause others 10 s1) (acpi_wait others t))"

text \<open>The answer says whether the activation timed out.\<close>

definition acpi_activate :: "('a acpi_scheme \<Rightarrow> 'a acpi_scheme res) \<Rightarrow> 'a acpi_scheme \<Rightarrow> (bool \<times> 'a acpi_scheme) res" where
  "acpi_activate others s =
     (let (on, s1) = acpi_active s
      in if on then Inr (False, s1)
         else let s2 = outb (of_nat (fadt32 ''SMI_CommandPort'' s1)) (fadt8 ''AcpiEnable'' s1) s1
              in if bit (has_tsc (kernel_CPUInfo s2)) 1
                 then bindR (acpi_wait others (5000 div 10) s2)
                   (\<lambda>(t, s3). if t = 0
                      then bindR (ERR ''acpi_init'' ''ACPI activation timed out'' [] s3)
                        (\<lambda>s4. Inr (True, s4\<lparr>acpiTable := (acpiTable s4)\<lparr>support := False, fadt := 0, mcfg := 0\<rparr>\<rparr>))
                      else Inr (False, s3))
                 else let (on1, s3) = acpi_active s2
                      in if on1 then Inr (False, s3)
                         else bindR (ERR ''acpi_init'' ''ACPI activation failed'' [] s3) (\<lambda>s4. Inr (False, s4)))"

definition sdt_head :: "mem \<Rightarrow> addr \<Rightarrow> addr" where
  "sdt_head m i =
     (if m (i + offset_of acpi_RSDP_t ''Revision'') \<noteq> 0
      then rd64 m (i + 20 + offset_of acpi_XSDP_t ''XsdtAddress'') mod 2 ^ 32
      else rd32 m (i + offset_of acpi_RSDP_t ''RsdtAddress''))"

definition sdt_length :: "mem \<Rightarrow> addr \<Rightarrow> nat" where
  "sdt_length m h = rd32 m (h + offset_of acpi_SDTHeader_t ''Length'')"

definition sdt_count :: "mem \<Rightarrow> addr \<Rightarrow> nat" where
  "sdt_count m h = sub32 (sdt_length m h) 36 div 4"

definition acpi_found :: "('a acpi_scheme \<Rightarrow> 'a acpi_scheme res) \<Rightarrow> addr \<Rightarrow> 'a acpi_scheme \<Rightarrow> 'a acpi_scheme res" where
  "acpi_found others i s =
     (let m = mem s; rev = m (i + offset_of acpi_RSDP_t ''Revision''); h = sdt_head m i
      in if byte_sum m i 20 AND 0xFF \<noteq> 0 then Inl (Panic ''RSDP table damaged'')
         else if rev \<noteq> 0 \<and> byte_sum m (i + 20) 16 AND 0xFF \<noteq> 0 then Inl (Panic ''XSDP table damaged'')
         else if byte_sum8 m h (sdt_length m h) 0 \<noteq> 0 then Inl (Panic ''SDT header damaged'')
         else let s1 = s\<lparr>acpiTable := (acpiTable s)\<lparr>Revision := rev, OEMID := mread m (i + offset_of acpi_RSDP_t ''OEMID'') 6,
                     support := True, fadt := find_sdt m (h + 36) ''FACP'' (sdt_count m h) (fadt (acpiTable s))\<rparr>\<rparr>
              in if fadt (acpiTable s1) = 0 then Inl (Panic ''No FADT found'')
                 else bindR (acpi_activate others s1)
                   (\<lambda>(timed_out, s2). if timed_out then Inr s2
                      else Inr (s2\<lparr>acpiTable := (acpiTable s2)
                        \<lparr>mcfg := find_sdt m (h + 36) ''MCFG'' (sdt_count m h) (mcfg (acpiTable s2))\<rparr>\<rparr>)))"

definition rsdp_search :: "mem \<Rightarrow> addr option" where
  "rsdp_search m = scan (\<lambda>i. sig m i ''RSD PTR '') 0x80000 0xFFFFF"

definition acpi_init :: "('a acpi_scheme \<Rightarrow> 'a acpi_scheme res) \<Rightarrow> 'a acpi_scheme \<Rightarrow> 'a acpi_scheme res" where
  "acpi_init others s =
     (if acpi_InitLock s then Inr s
      else let s1 = s\<lparr>acpi_InitLock := True, acpiTable :=
                 \<lparr>OEMID = cstr ''UNCFG'' @ [0], Revision = -1, support = False, fadt = 0, mcfg = 0\<rparr>\<rparr>
           in bindR (case rsdp_search (mem s1) of None \<Rightarrow> Inr s1 | Some i \<Rightarrow> acpi_found others i s1)
             (\<lambda>s2. if \<not> support (acpiTable s2) then WARN ''acpi_init'' ''ACPI not supported'' [] s2 else Inr s2))"

section \<open>Lemmas\<close>

text \<open>The fields the kernel reads. The ACPI specification puts the boot architecture flags at 109.\<close>

lemma acpi_offsets:
  "offset_of acpi_FADT_t ''SMI_CommandPort'' = 48" "offset_of acpi_FADT_t ''AcpiEnable'' = 52"
  "offset_of acpi_FADT_t ''PM1aControlBlock'' = 64" "offset_of acpi_FADT_t ''BootArchitectureFlags'' = 110"
  "offset_of (packed acpi_FADT_t) ''BootArchitectureFlags'' = 109"
  "offset_of acpi_MCFG_t ''pciebase'' = 44" "offset_of acpi_SDTHeader_t ''Length'' = 4"
  "offset_of acpi_RSDP_t ''Revision'' = 15" "offset_of acpi_RSDP_t ''RsdtAddress'' = 16"
  "offset_of acpi_RSDP_t ''OEMID'' = 9" "offset_of acpi_XSDP_t ''XsdtAddress'' = 4"
  by (simp_all add: offset_of_def acpi_FADT_t_def acpi_MCFG_t_def acpi_SDTHeader_t_def acpi_RSDP_t_def acpi_XSDP_t_def
      packed_def align_up_def)

text \<open>\<open>sig\<close> is \<open>ncompare\<close> against a literal that lies somewhere in memory.\<close>

lemma ncompare_sig: "mread m b (length lit) = cstr lit \<Longrightarrow> ncompare m a b (length lit) = 0 \<longleftrightarrow> sig m a lit"
proof -
  assume h: "mread m b (length lit) = cstr lit"
  have "mread m a n = mread m b n \<longleftrightarrow> (\<forall>j<n. m (a + j) = m (b + j))" for n
    by (auto simp: mread_def)
  with h show ?thesis by (metis ncompare_def ncompare_loop_eq_0 sig_def add.right_neutral)
qed

text \<open>The checksums: the bytes of a table add up to zero modulo 256.\<close>

definition checksum_ok :: "mem \<Rightarrow> addr \<Rightarrow> nat \<Rightarrow> bool" where
  "checksum_ok m a n \<longleftrightarrow> sum_list (map unat (mread m a n)) mod 256 = 0"

lemma mread_step: "mread m a (Suc n) = m a # mread m (a + 1) n"
  by (rule nth_equalityI) (auto simp: mread_def nth_Cons' simp del: upt_Suc)

lemma byte_sum_eq: "n < 65536 \<Longrightarrow> unat (byte_sum m a n) = sum_list (map unat (mread m a n)) \<and> unat (byte_sum m a n) \<le> 255 * n"
proof (induction n arbitrary: a)
  case (Suc n)
  have u: "unat (ucast (m a) :: u32) = unat (m a)" using unat_u8_less [of "m a"] by (simp add: unsigned_ucast_eq take_bit_nat_def)
  have "unat (m a) \<le> 255" by (rule unat_le_255)
  with Suc.IH [of "a + 1"] Suc.prems have "unat (ucast (m a) :: u32) + unat (byte_sum m (a + 1) n) < 2 ^ LENGTH(32)" by (simp add: u)
  then have "unat (ucast (m a) + byte_sum m (a + 1) n) = unat (m a) + unat (byte_sum m (a + 1) n)"
    unfolding u [symmetric] by (rule unat_add_lem [THEN iffD1])
  then show ?case using Suc.IH [of "a + 1"] Suc.prems unat_le_255 [of "m a"] by (simp add: mread_step)
qed (simp add: mread_def)

lemma byte_sum_ok: "n < 65536 \<Longrightarrow> byte_sum m a n AND 0xFF = 0 \<longleftrightarrow> checksum_ok m a n"
proof -
  assume n: "n < 65536"
  have "byte_sum m a n AND 0xFF = take_bit 8 (byte_sum m a n)" by (rule mask_ands)
  moreover have "unat (take_bit 8 (byte_sum m a n)) = take_bit 8 (unat (byte_sum m a n))" by (rule unsigned_take_bit_eq)
  ultimately have "unat (byte_sum m a n AND 0xFF) = unat (byte_sum m a n) mod 256" by (simp add: take_bit_nat_def)
  then show ?thesis using byte_sum_eq [OF n, of m a]
    by (metis checksum_ok_def unsigned_eq_0_iff)
qed

lemma byte_sum8_eq: "unat (byte_sum8 m a n sm) = (unat sm + sum_list (map unat (mread m a n))) mod 256"
proof (induction n arbitrary: a sm)
  case (Suc n)
  have "unat (sm + m a) = (unat sm + unat (m a)) mod 256" by (simp add: unat_word_ariths)
  then show ?case by (simp add: Suc mread_step mod_add_left_eq add.assoc)
qed (use unat_u8_less in \<open>simp add: mread_def\<close>)

lemma byte_sum8_ok: "byte_sum8 m a n 0 = 0 \<longleftrightarrow> checksum_ok m a n"
  using byte_sum8_eq [of m a n 0] unfolding checksum_ok_def by (metis add_0 unsigned_0 unsigned_eq_0_iff)

definition sdt_entries :: "mem \<Rightarrow> addr \<Rightarrow> addr list" where
  "sdt_entries m h = map (\<lambda>j. rd32 m (h + 36 + 4 * j)) [0..<sdt_count m h]"

lemma find_sdt_eq:
  "find_sdt m p lit k found = last (found # filter (\<lambda>a. sig m a lit) (map (\<lambda>j. rd32 m (p + 4 * j)) [0..<k]))"
proof (induction k arbitrary: p found)
  case (Suc k)
  have "map (\<lambda>j. rd32 m (p + 4 * j)) [0..<Suc k] = rd32 m p # map (\<lambda>j. rd32 m (p + 4 + 4 * j)) [0..<k]"
    by (simp add: map_upt_Suc add.assoc del: upt_Suc)
  then show ?case by (simp add: Suc)
qed simp

lemma find_sdt_found:
  "find_sdt m (h + 36) lit (sdt_count m h) 0 \<noteq> 0 \<Longrightarrow>
     find_sdt m (h + 36) lit (sdt_count m h) 0 \<in> set (sdt_entries m h) \<and> sig m (find_sdt m (h + 36) lit (sdt_count m h) 0) lit"
proof -
  let ?xs = "filter (\<lambda>a. sig m a lit) (sdt_entries m h)"
  have f: "find_sdt m (h + 36) lit (sdt_count m h) 0 = last (0 # ?xs)"
    by (simp add: find_sdt_eq sdt_entries_def)
  assume "find_sdt m (h + 36) lit (sdt_count m h) 0 \<noteq> 0"
  then have "?xs \<noteq> []" unfolding f by auto
  then have "last ?xs \<in> set ?xs" by (rule last_in_set)
  then show ?thesis unfolding f using \<open>?xs \<noteq> []\<close> by auto
qed

lemma acpi_active_io: "acpi_active s = (on, s') \<Longrightarrow> io_only s s'"
proof -
  obtain v t where e: "inw (of_nat (fadt32 ''PM1aControlBlock'' s)) s = (v, t)" by fastforce
  have "io_only s t" by (metis e io_only_in(2) snd_conv)
  then show "acpi_active s = (on, s') \<Longrightarrow> ?thesis" by (simp add: acpi_active_def e)
qed

lemma acpi_wait_io: "\<not> multitask_InStream s \<Longrightarrow> acpi_wait others t s = Inr (n, s') \<Longrightarrow> io_only s s'"
proof (induction t arbitrary: s)
  case 0
  then show ?case by (auto simp: Let_def dest: acpi_active_io split: prod.splits)
next
  case (Suc t)
  obtain on s1 where a: "acpi_active s = (on, s1)" by fastforce
  note i = acpi_active_io [OF a]
  show ?case
  proof (cases on)
    case False
    with Suc.prems a obtain s2 where p: "pause others 10 s1 = Inr s2" "acpi_wait others t s2 = Inr (n, s')" by (auto simp: Let_def bindR_eq_Inr)
    have n: "\<not> multitask_InStream s1" using Suc.prems(1) io_only_stream [OF i] by simp
    note j = io_only_trans [OF i io_only_pause [OF n p(1)]]
    have "\<not> multitask_InStream s2" using Suc.prems(1) io_only_stream [OF j] by simp
    then show ?thesis using io_only_trans [OF j Suc.IH [OF _ p(2)]] by blast
  qed (use Suc.prems a i in \<open>simp add: Let_def\<close>)
qed

text \<open>Activation leaves the memory alone, and the table as it was unless it timed out.\<close>

lemma acpi_activate_frame:
  assumes "acpi_activate others s = Inr (late, s')" "\<not> multitask_InStream s"
  shows "mem s' = mem s \<and> acpiTable s' =
    (if late then (acpiTable s)\<lparr>support := False, fadt := 0, mcfg := 0\<rparr> else acpiTable s)"
proof -
  obtain on s1 where a: "acpi_active s = (on, s1)" by fastforce
  have keep: "mem u = mem s \<and> acpiTable u = acpiTable s" if "io_only s u" for u
    using that by (auto simp: io_only_def)
  note i = acpi_active_io [OF a]
  define s2 where "s2 = outb (of_nat (fadt32 ''SMI_CommandPort'' s1)) (fadt8 ''AcpiEnable'' s1) s1"
  have i2: "io_only s s2" using io_only_trans [OF i] by (simp add: s2_def)
  have plain: "37 \<notin> set (cstr ''ACPI activation timed out'')" "37 \<notin> set (cstr ''ACPI activation failed'')"
    by (simp_all add: cstr_def)
  show ?thesis
  proof (cases on)
    case True
    then show ?thesis using assms(1) a keep [OF i] by (simp add: acpi_activate_def)
  next
    case off: False
    show ?thesis
    proof (cases "bit (has_tsc (kernel_CPUInfo s2)) 1")
      case True
      with assms(1) a off obtain t s3 where w: "acpi_wait others 500 s2 = Inr (t, s3)"
        "(if t = 0 then bindR (ERR ''acpi_init'' ''ACPI activation timed out'' [] s3)
            (\<lambda>s4. Inr (True, s4\<lparr>acpiTable := (acpiTable s4)\<lparr>support := False, fadt := 0, mcfg := 0\<rparr>\<rparr>)) else Inr (False, s3)) = Inr (late, s')"
        by (auto simp: acpi_activate_def Let_def s2_def [symmetric] bindR_eq_Inr split: prod.splits)
      have "\<not> multitask_InStream s2" using assms(2) io_only_stream [OF i2] by simp
      note i3 = io_only_trans [OF i2 acpi_wait_io [OF this w(1)]]
      obtain s4 where e: "ERR ''acpi_init'' ''ACPI activation timed out'' [] s3 = Inr s4" "io_only s3 s4"
        by (rule io_only_error [OF plain(1)])
      show ?thesis using w(2) e(1) keep [OF i3] keep [OF io_only_trans [OF i3 e(2)]] by (auto split: if_splits)
    next
      case False
      obtain on1 s3 where a3: "acpi_active s2 = (on1, s3)" by fastforce
      note i3 = io_only_trans [OF i2 acpi_active_io [OF a3]]
      obtain s4 where e: "ERR ''acpi_init'' ''ACPI activation failed'' [] s3 = Inr s4" "io_only s3 s4"
        by (rule io_only_error [OF plain(2)])
      show ?thesis
        using assms(1) a off False a3 e(1) keep [OF i3] keep [OF io_only_trans [OF i3 e(2)]]
        by (auto simp: acpi_activate_def Let_def s2_def [symmetric] split: if_splits)
    qed
  qed
qed

section \<open>Property\<close>

text \<open>What the firmware must provide for a root pointer at \<open>i\<close>.\<close>

definition acpi_good :: "mem \<Rightarrow> addr \<Rightarrow> bool" where
  "acpi_good m i \<longleftrightarrow> checksum_ok m i 20 \<and> (m (i + 15) \<noteq> 0 \<longrightarrow> checksum_ok m (i + 20) 16) \<and>
     checksum_ok m (sdt_head m i) (sdt_length m (sdt_head m i)) \<and>
     (\<exists>a\<in>set (sdt_entries m (sdt_head m i)). sig m a ''FACP'')"

lemma find_sdt_none:
  "\<not> (\<exists>a\<in>set (sdt_entries m h). sig m a lit) \<Longrightarrow> find_sdt m (h + 36) lit (sdt_count m h) 0 = 0"
  using find_sdt_found [of m h lit] by blast

lemma acpi_found_frame:
  assumes "acpi_found others i s = Inr s'" "\<not> multitask_InStream s" "fadt (acpiTable s) = 0" "mcfg (acpiTable s) = 0" "m = mem s" "h = sdt_head m i"
  shows "acpi_good m i \<and> mem s' = m \<and>
    (if support (acpiTable s')
     then Revision (acpiTable s') = m (i + 15) \<and>
       fadt (acpiTable s') \<in> set (sdt_entries m h) \<and> sig m (fadt (acpiTable s')) ''FACP'' \<and>
       (mcfg (acpiTable s') = 0 \<or> mcfg (acpiTable s') \<in> set (sdt_entries m h) \<and> sig m (mcfg (acpiTable s')) ''MCFG'')
     else fadt (acpiTable s') = 0 \<and> mcfg (acpiTable s') = 0)"
proof -
  define s1 where "s1 = s\<lparr>acpiTable := (acpiTable s)\<lparr>Revision := m (i + 15), OEMID := mread m (i + 9) 6,
      support := True, fadt := find_sdt m (h + 36) ''FACP'' (sdt_count m h) 0\<rparr>\<rparr>"
  note f = assms(1) [unfolded acpi_found_def Let_def acpi_offsets byte_sum8_ok assms(3), folded assms(5), folded assms(6), folded s1_def]
  have ck: "checksum_ok m i 20" "m (i + 15) \<noteq> 0 \<longrightarrow> checksum_ok m (i + 20) 16" "checksum_ok m h (sdt_length m h)"
    "fadt (acpiTable s1) \<noteq> 0"
    using f by (auto simp: byte_sum_ok split: if_splits)
  then have fa: "fadt (acpiTable s1) \<in> set (sdt_entries m h)" "sig m (fadt (acpiTable s1)) ''FACP''"
    using find_sdt_found [of m h "''FACP''"] by (simp_all add: s1_def)
  have good: "acpi_good m i" using ck fa by (auto simp: acpi_good_def assms(6))
  have b: "bindR (acpi_activate others s1) (\<lambda>(late, s2). if late then Inr s2 else Inr (s2\<lparr>acpiTable := (acpiTable s2)
      \<lparr>mcfg := find_sdt m (h + 36) ''MCFG'' (sdt_count m h) (mcfg (acpiTable s2))\<rparr>\<rparr>)) = Inr s'"
    using f ck by (cases "m (i + 15) = 0") (simp_all add: byte_sum_ok)
  obtain late s2 where a1: "acpi_activate others s1 = Inr (late, s2)"
  proof (cases "acpi_activate others s1")
    case (Inl e)
    then show ?thesis using b by simp
  next
    case (Inr x)
    then show ?thesis using that by (cases x) simp
  qed
  have a2: "s' = (if late then s2 else s2\<lparr>acpiTable := (acpiTable s2)\<lparr>mcfg := find_sdt m (h + 36) ''MCFG'' (sdt_count m h) (mcfg (acpiTable s2))\<rparr>\<rparr>)"
    using b unfolding a1 by (cases late) simp_all
  note a = a1 a2
  have m1: "mem s1 = m" "mcfg (acpiTable s1) = 0" "support (acpiTable s1)" "Revision (acpiTable s1) = m (i + 15)"
    by (simp_all add: s1_def assms)
  have "\<not> multitask_InStream s1" using assms(2) by (simp add: s1_def)
  note fr = acpi_activate_frame [OF a(1) this]
  show ?thesis using good fr a(2) m1 fa find_sdt_found [of m h "''MCFG''"] by (auto split: if_splits)
qed

lemma acpi_found_bad:
  assumes "\<not> acpi_good (mem s) i" "fadt (acpiTable s) = 0"
  shows "\<exists>msg. acpi_found others i s = Inl (Panic msg)"
  using assms find_sdt_none [of "mem s" "sdt_head (mem s) i" "''FACP''"]
  by (auto simp: acpi_good_def acpi_found_def Let_def acpi_offsets byte_sum8_ok byte_sum_ok)

text \<open>C29.
  Without a root pointer the kernel goes on without ACPI. With one, it tests three checksums, those of the root pointer, of its
  extension (if the revision is not 0) and of the root table: if one is wrong, or the root table lists no table of
  signature \<open>FACP\<close>, the machine stops with a panic. If the initialization returns, these three were right, the memory
  is as it was, and the kernel's record names a listed table of signature \<open>FACP\<close>, and one of signature \<open>MCFG\<close> or
  none; or, after a time-out, nothing at all. The tables named are found by signature only: their own checksums are
  not tested. This is the call at boot, before any process runs.\<close>

theorem acpi_tables_sound:
  assumes "\<not> acpi_InitLock s" "\<not> multitask_InStream s"
  shows "(case rsdp_search (mem s) of
     None \<Rightarrow> \<exists>s'. acpi_init others s = Inr s' \<and> \<not> support (acpiTable s') \<and> fadt (acpiTable s') = 0 \<and> mcfg (acpiTable s') = 0
   | Some i \<Rightarrow>
      (let m = mem s; es = set (sdt_entries m (sdt_head m i)) in
       (\<not> acpi_good m i \<longrightarrow> (\<exists>msg. acpi_init others s = Inl (Panic msg))) \<and>
       (\<forall>s'. acpi_init others s = Inr s' \<longrightarrow> acpi_good m i \<and> mem s' = m \<and>
          (let t = acpiTable s' in
           if support t then Revision t = m (i + 15) \<and> fadt t \<in> es \<and> sig m (fadt t) ''FACP'' \<and>
             (mcfg t = 0 \<or> mcfg t \<in> es \<and> sig m (mcfg t) ''MCFG'')
           else fadt t = 0 \<and> mcfg t = 0))))"
proof -
  define s1 where "s1 = s\<lparr>acpi_InitLock := True, acpiTable :=
                 \<lparr>OEMID = cstr ''UNCFG'' @ [0], Revision = -1, support = False, fadt = 0, mcfg = 0\<rparr>\<rparr>"
  have m1: "mem s1 = mem s" "fadt (acpiTable s1) = 0" "mcfg (acpiTable s1) = 0" "\<not> support (acpiTable s1)" "\<not> multitask_InStream s1"
    using assms(2) by (simp_all add: s1_def)
  have init: "acpi_init others s = bindR (case rsdp_search (mem s) of None \<Rightarrow> Inr s1 | Some i \<Rightarrow> acpi_found others i s1)
             (\<lambda>s2. if \<not> support (acpiTable s2) then WARN ''acpi_init'' ''ACPI not supported'' [] s2 else Inr s2)"
    unfolding acpi_init_def Let_def s1_def using assms(1) by simp
  have warn: "\<exists>s3. WARN ''acpi_init'' ''ACPI not supported'' [] s2 = Inr s3 \<and> mem s3 = mem s2 \<and> acpiTable s3 = acpiTable s2"
    for s2 :: "'a acpi_scheme"
  proof -
    have "37 \<notin> set (cstr ''ACPI not supported'')" by (simp add: cstr_def)
    then obtain s3 where "WARN ''acpi_init'' ''ACPI not supported'' [] s2 = Inr s3" "io_only s2 s3" by (rule io_only_message)
    then show ?thesis by (auto simp: io_only_def)
  qed
  show ?thesis
  proof (cases "rsdp_search (mem s)")
    case None
    then show ?thesis using warn [of s1] m1 by (auto simp: init)
  next
    case (Some i)
    have bad: "\<exists>msg. acpi_init others s = Inl (Panic msg)" if "\<not> acpi_good (mem s) i"
      using acpi_found_bad [of s1 i others] that m1 Some by (auto simp: init)
    have ret: "acpi_good (mem s) i \<and> mem s' = mem s \<and>
        (if support (acpiTable s') then Revision (acpiTable s') = mem s (i + 15) \<and>
           fadt (acpiTable s') \<in> set (sdt_entries (mem s) (sdt_head (mem s) i)) \<and> sig (mem s) (fadt (acpiTable s')) ''FACP'' \<and>
           (mcfg (acpiTable s') = 0 \<or> mcfg (acpiTable s') \<in> set (sdt_entries (mem s) (sdt_head (mem s) i)) \<and>
              sig (mem s) (mcfg (acpiTable s')) ''MCFG'')
         else fadt (acpiTable s') = 0 \<and> mcfg (acpiTable s') = 0)" if r: "acpi_init others s = Inr s'" for s'
    proof -
      from r Some obtain s2 where f: "acpi_found others i s1 = Inr s2"
        "(if \<not> support (acpiTable s2) then WARN ''acpi_init'' ''ACPI not supported'' [] s2 else Inr s2) = Inr s'"
        by (auto simp: init bindR_eq_Inr)
      have "mem s' = mem s2 \<and> acpiTable s' = acpiTable s2" using f(2) warn [of s2] by (auto split: if_splits)
      then show ?thesis using acpi_found_frame [OF f(1) m1(5) m1(2,3) m1(1) [symmetric] refl] by simp
    qed
    show ?thesis unfolding Some option.case Let_def
      by (rule conjI; (intro impI allI)?; (rule bad | rule ret); assumption)
  qed
qed

text \<open>A root pointer of revision 0 at the start of the searched range, one table, already in ACPI mode.\<close>

definition acpi_demo_mem :: mem where
  "acpi_demo_mem = mwrite (mwrite (mwrite (\<lambda>_. 0)
     0x80000 [82, 83, 68, 32, 80, 84, 82, 32, 224, 0, 0, 0, 0, 0, 0, 0, 0, 1, 0, 0])
     0x100 [82, 83, 68, 84, 40, 0, 0, 0, 0, 153, 0, 0, 0, 0, 0, 0, 0, 0, 0, 0, 0, 0, 0, 0, 0, 0, 0, 0, 0, 0, 0, 0, 0, 0, 0, 0, 0, 2, 0, 0])
     0x200 [70, 65, 67, 80]"

definition hw_demo :: hw where
  "hw_demo = sysc.extend sysc_demo \<lparr>pio = \<lparr>device = \<lambda>_ _ _. 1, io_log = []\<rparr>, tsc = \<lambda>k. k, tsc_pos = 0,
     kernel_CPUInfo = \<lparr>vendor_name = [], brand = [], frequency = 0, cores = 1, threads = 1, has_tsc = 0, has_sse = 0,
       has_avx = 0, has_vtx = 0, has_aes = 0, has_x64 = 0\<rparr>\<rparr>"

definition acpi_demo :: acpi where
  "acpi_demo = hw.extend (hw_demo\<lparr>mem := acpi_demo_mem\<rparr>)
     \<lparr>acpi_InitLock = False, acpiTable = \<lparr>OEMID = [], Revision = 0, support = False, fadt = 0, mcfg = 0\<rparr>\<rparr>"

lemma acpi_demo_fields [simp]: "acpi_InitLock acpi_demo = False" "mem acpi_demo = acpi_demo_mem" "\<not> multitask_InStream acpi_demo"
  "device (pio acpi_demo) log w p = 1"
  by (simp_all add: acpi_demo_def hw.defs hw_demo_def sysc.defs sysc_demo_stream)

lemma acpi_demo_facts:
  "rsdp_search acpi_demo_mem = Some 0x80000" "sdt_head acpi_demo_mem 0x80000 = 0x100"
  "checksum_ok acpi_demo_mem 0x80000 20" "acpi_demo_mem 0x8000F = 0" "sdt_length acpi_demo_mem 0x100 = 40"
  "checksum_ok acpi_demo_mem 0x100 40" "sdt_count acpi_demo_mem 0x100 = 1" "rd32 acpi_demo_mem 0x124 = 0x200"
  "sig acpi_demo_mem 0x200 ''FACP''" "\<not> sig acpi_demo_mem 0x200 ''MCFG''"
proof -
  show "rsdp_search acpi_demo_mem = Some 0x80000"
    unfolding rsdp_search_def by (rule scan_SomeI) (simp_all add: sig_def mread_def acpi_demo_mem_def mwrite_def cstr_def upt_rec)
  show "sdt_head acpi_demo_mem 0x80000 = 0x100" "acpi_demo_mem 0x8000F = 0" "sdt_length acpi_demo_mem 0x100 = 40"
    "sdt_count acpi_demo_mem 0x100 = 1" "rd32 acpi_demo_mem 0x124 = 0x200"
    by (simp_all add: sdt_head_def sdt_count_def sdt_length_def acpi_offsets acpi_demo_mem_def mwrite_def rd32_def sub32_def)
  show "sig acpi_demo_mem 0x200 ''FACP''" "\<not> sig acpi_demo_mem 0x200 ''MCFG''"
    by (simp_all add: sig_def mread_def acpi_demo_mem_def mwrite_def cstr_def upt_rec)
  show "checksum_ok acpi_demo_mem 0x80000 20" "checksum_ok acpi_demo_mem 0x100 40"
    by (simp_all add: checksum_ok_def mread_def acpi_demo_mem_def mwrite_def upt_rec)
qed

theorem acpi_tables_sound_witness:
  "\<forall>others. \<exists>s'. acpi_init others acpi_demo = Inr s' \<and> support (acpiTable s') \<and> fadt (acpiTable s') = 0x200 \<and> mcfg (acpiTable s') = 0"
proof (rule allI)
  fix others
  note f = acpi_demo_facts
  define s1 where "s1 = acpi_demo\<lparr>acpi_InitLock := True, acpiTable :=
     \<lparr>OEMID = cstr ''UNCFG'' @ [0], Revision = -1, support = False, fadt = 0, mcfg = 0\<rparr>\<rparr>"
  have m: "mem s1 = acpi_demo_mem" "fadt (acpiTable s1) = 0" by (simp_all add: s1_def)
  have on: "\<exists>s3. acpi_activate others s2 = Inr (False, s3) \<and> acpiTable s3 = acpiTable s2" if "pio s2 = pio s1" for s2 :: acpi
    using that by (simp add: acpi_activate_def acpi_active_def inw_def port_inw_eq s1_def)
  have fa: "find_sdt acpi_demo_mem (0x100 + 36) ''FACP'' 1 0 = 0x200" using f(8,9) by simp
  have "\<exists>s'. acpi_found others 0x80000 s1 = Inr s' \<and> support (acpiTable s')"
    using on [of "s1\<lparr>acpiTable := (acpiTable s1)\<lparr>Revision := 0, OEMID := mread acpi_demo_mem (0x80000 + 9) 6,
                     support := True, fadt := 0x200\<rparr>\<rparr>"] f fa
    by (auto simp: acpi_found_def Let_def acpi_offsets m byte_sum8_ok byte_sum_ok)
  then obtain s' where s': "acpi_init others acpi_demo = Inr s'" "support (acpiTable s')"
    by (auto simp: acpi_init_def Let_def f(1) s1_def)
  have "acpi_InitLock acpi_demo = False" by simp
  then have es: "set (sdt_entries acpi_demo_mem 0x100) = {0x200}" using f(7,8) by (simp add: sdt_entries_def)
  have "fadt (acpiTable s') \<in> {0x200} \<and> (mcfg (acpiTable s') = 0 \<or> mcfg (acpiTable s') \<in> {0x200} \<and> sig acpi_demo_mem (mcfg (acpiTable s')) ''MCFG'')"
    using acpi_tables_sound [of acpi_demo others] s' by (simp add: f(1,2) es Let_def)
  then show "\<exists>s'. acpi_init others acpi_demo = Inr s' \<and> support (acpiTable s') \<and> fadt (acpiTable s') = 0x200 \<and> mcfg (acpiTable s') = 0"
    using s' f(10) by auto
qed

end
