(* ===== verification/DevBus.thy ===== *)
theory DevBus
  imports Acpi
begin

text \<open>
  The PCI bus, \<open>source/hw/devbus.c\<close>: configuration registers through the two ports or through the
  memory-mapped window, base address registers and device information. The bits of the
  index a port access writes are decoded as the bus does.
\<close>

unbundle bit_operations_syntax

section \<open>State and data\<close>

abbreviation (input) DEVBUS_PCI_INDEXPORT :: u16 where "DEVBUS_PCI_INDEXPORT \<equiv> 0xCF8"
abbreviation (input) DEVBUS_PCI_DATAPORT :: u16 where "DEVBUS_PCI_DATAPORT \<equiv> 0xCFC"
abbreviation (input) DEVBUS_BARTYPE_MM :: u8 where "DEVBUS_BARTYPE_MM \<equiv> 0"
abbreviation (input) DEVBUS_BARTYPE_IO :: u8 where "DEVBUS_BARTYPE_IO \<equiv> 1"

record dbus = acpi +
  devbus_InitLock :: bool
  devbus_PCIeBase :: addr

record devbus_BAR_t =
  bar_addr :: u32
  bar_type :: u8
  prefetch :: bool

record devbus_Device_t =
  dev_bus :: u8
  dev_slot :: u8
  dev_func :: u8
  vendor :: u16
  dev_id :: u16
  revision :: u8
  iface :: u8
  sub_class :: u8
  dclass :: u8

section \<open>Registers\<close>

definition pci_index :: "u8 \<Rightarrow> u8 \<Rightarrow> u8 \<Rightarrow> u8 \<Rightarrow> u32" where
  "pci_index bus slot func reg =
     push_bit 16 (ucast bus) OR push_bit 11 (ucast slot) OR push_bit 8 (ucast func) OR ((ucast reg * 4) AND 0xFC) OR 0x80000000"

definition pcie_regs :: "addr \<Rightarrow> u8 \<Rightarrow> u8 \<Rightarrow> u8 \<Rightarrow> addr" where
  "pcie_regs base bus slot func =
     wrap32 (base + unat (push_bit 20 (ucast bus) OR push_bit 15 (ucast slot) OR push_bit 12 (ucast func) :: u32))"

definition devbus_read :: "u8 \<Rightarrow> u8 \<Rightarrow> u8 \<Rightarrow> u8 \<Rightarrow> 'a dbus_scheme \<Rightarrow> u32 \<times> 'a dbus_scheme" where
  "devbus_read bus slot func reg s =
     (if \<not> devbus_InitLock s then (-1, s)
      else if devbus_PCIeBase s \<noteq> 0
        then (of_nat (rd32 (mem s) (pcie_regs (devbus_PCIeBase s) bus slot func + 4 * unat reg)), s)
      else inl DEVBUS_PCI_DATAPORT (outl DEVBUS_PCI_INDEXPORT (pci_index bus slot func reg) s))"

definition devbus_write :: "u8 \<Rightarrow> u8 \<Rightarrow> u8 \<Rightarrow> u8 \<Rightarrow> u32 \<Rightarrow> 'a dbus_scheme \<Rightarrow> 'a dbus_scheme" where
  "devbus_write bus slot func reg v s =
     (if \<not> devbus_InitLock s then s
      else if devbus_PCIeBase s \<noteq> 0
        then s\<lparr>mem := wr32 (mem s) (pcie_regs (devbus_PCIeBase s) bus slot func + 4 * unat reg) (unat v)\<rparr>
      else outl DEVBUS_PCI_DATAPORT v (outl DEVBUS_PCI_INDEXPORT (pci_index bus slot func reg) s))"

section \<open>Base address registers\<close>

text \<open>The structure the caller passes; \<open>None\<close> is the null pointer. A 64-bit address is cut to \<open>size_t\<close>.\<close>

definition devbus_getBAR :: "devbus_BAR_t option \<Rightarrow> u8 \<Rightarrow> u8 \<Rightarrow> u8 \<Rightarrow> u16 \<Rightarrow> 'a dbus_scheme \<Rightarrow> devbus_BAR_t option \<times> 'a dbus_scheme" where
  "devbus_getBAR bar bus slot func num s =
     (if \<not> devbus_InitLock s \<or> bar = None \<or> num \<ge> 6 then (bar, s)
      else let (r3, s1) = devbus_read bus slot func 3 s;
               htype = ucast ((drop_bit 16 r3 AND 0xFF) AND 0x7F) :: u8
           in if int (unat num) \<ge> 6 - 4 * int (unat htype) then (bar, s1)
              else let (base, s2) = devbus_read bus slot func (4 + ucast num) s1
                   in if bit base 0
                      then (Some \<lparr>bar_addr = base AND NOT 3, bar_type = DEVBUS_BARTYPE_IO, prefetch = False\<rparr>, s2)
                      else let mode = drop_bit 1 base AND 3
                           in if mode = 2
                              then if num \<ge> 5 then (Some \<lparr>bar_addr = 0, bar_type = DEVBUS_BARTYPE_MM, prefetch = False\<rparr>, s2)
                                   else let (hi, s3) = devbus_read bus slot func (4 + ucast num + 1) s2;
                                            (lo, s4) = devbus_read bus slot func (4 + ucast num) s3;
                                            a = push_bit 32 (ucast hi) OR ucast lo :: u64
                                        in (Some \<lparr>bar_addr = ucast a AND NOT 0xF, bar_type = DEVBUS_BARTYPE_MM, prefetch = False\<rparr>, s4)
                              else if mode = 3 then (Some \<lparr>bar_addr = 0, bar_type = DEVBUS_BARTYPE_MM, prefetch = False\<rparr>, s2)
                              else let (a, s3) = devbus_read bus slot func (4 + ucast num) s2
                                   in (Some \<lparr>bar_addr = a AND NOT 0xF, bar_type = DEVBUS_BARTYPE_MM, prefetch = False\<rparr>, s3))"

section \<open>Device information\<close>

definition devbus_get :: "devbus_Device_t option \<Rightarrow> u8 \<Rightarrow> u8 \<Rightarrow> u8 \<Rightarrow> 'a dbus_scheme \<Rightarrow> devbus_Device_t option \<times> 'a dbus_scheme" where
  "devbus_get dev bus slot func s =
     (if \<not> devbus_InitLock s \<or> dev = None then (dev, s)
      else let (reg0, s1) = devbus_read bus slot func 0 s;
               (reg2, s2) = devbus_read bus slot func 2 s1
           in (Some \<lparr>dev_bus = bus, dev_slot = slot, dev_func = func,
                 vendor = ucast (reg0 AND 0xFFFF), dev_id = ucast (drop_bit 16 reg0 AND 0xFFFF),
                 revision = ucast (reg2 AND 0xFF), iface = ucast (drop_bit 8 reg2 AND 0xFF),
                 sub_class = ucast (drop_bit 16 reg2 AND 0xFF), dclass = ucast (drop_bit 24 reg2 AND 0xFF)\<rparr>, s2))"

section \<open>The bus behind the ports\<close>

text \<open>A bus that answers a read of the data port for the bits of the index written just before.\<close>

definition pci_answer :: "(u8 \<Rightarrow> u8 \<Rightarrow> u8 \<Rightarrow> u8 \<Rightarrow> u32) \<Rightarrow> u32 \<Rightarrow> u32" where
  "pci_answer cfg a =
     (if bit a 31 then cfg (ucast (take_bit 8 (drop_bit 16 a))) (ucast (take_bit 5 (drop_bit 11 a)))
        (ucast (take_bit 3 (drop_bit 8 a))) (ucast (take_bit 6 (drop_bit 2 a))) else -1)"

definition pci_bus :: "(u8 \<Rightarrow> u8 \<Rightarrow> u8 \<Rightarrow> u8 \<Rightarrow> u32) \<Rightarrow> ports \<Rightarrow> bool" where
  "pci_bus cfg p \<longleftrightarrow> (\<forall>log a. device p (log @ [POut W32 DEVBUS_PCI_INDEXPORT a]) W32 DEVBUS_PCI_DATAPORT = pci_answer cfg a)"

lemma small_word: "(x :: u8) < of_nat (2 ^ n) \<Longrightarrow> n < 8 \<Longrightarrow> take_bit n x = x"
proof -
  assume x: "x < of_nat (2 ^ n)" and n: "n < 8"
  have "(2 :: nat) ^ n < 2 ^ 8" using n by (intro power_strict_increasing) simp_all
  then have "unat (of_nat (2 ^ n) :: u8) = 2 ^ n" by (subst unat_of_nat) simp
  then have "unat x < 2 ^ n" using x by (simp add: word_less_nat_alt)
  then have "take_bit n (unat x) = unat x" by (simp add: take_bit_nat_def)
  then have "unat (take_bit n x) = unat x" by (simp add: unsigned_take_bit_eq)
  then show ?thesis by (simp only: word_unat_eq_iff)
qed

text \<open>The index names exactly the function and register it was made for.\<close>

lemma pci_index_bits:
  assumes "slot < 32" "func < 8" "reg < 64"
  shows "pci_answer cfg (pci_index bus slot func reg) = cfg bus slot func reg"
proof -
  have t: "take_bit 5 slot = slot" "take_bit 3 func = func" "take_bit 6 reg = reg"
    using assms small_word [of slot 5] small_word [of func 3] small_word [of reg 6] by simp_all
  have m: "(ucast reg * 4 :: u32) AND 0xFC = push_bit 2 (ucast (take_bit 6 reg))"
  proof -
    have p: "(ucast reg * 4 :: u32) = push_bit 2 (ucast reg)" by (simp add: push_bit_eq_mult)
    have c: "(0xFC :: u32) = push_bit 2 (mask 6)" by (simp add: mask_eq_exp_minus_1)
    show ?thesis unfolding p c by (rule bit_word_eqI) (auto simp: bit_simps)
  qed
  have top: "(0x80000000 :: u32) = push_bit 31 1" by simp
  define a where "a = pci_index bus (take_bit 5 slot) (take_bit 3 func) (take_bit 6 reg)"
  have a': "a = push_bit 16 (ucast bus) OR push_bit 11 (ucast (take_bit 5 slot)) OR push_bit 8 (ucast (take_bit 3 func)) OR
      push_bit 2 (ucast (take_bit 6 reg)) OR push_bit 31 1"
    using m by (simp only: a_def pci_index_def top t)
  have b: "bit a 31" unfolding a' by (simp add: bit_simps)
  have f1: "ucast (take_bit 8 (drop_bit 16 a)) = bus"
    unfolding a' by (rule bit_word_eqI) (auto simp: bit_simps)
  have f2: "ucast (take_bit 5 (drop_bit 11 a)) = take_bit 5 slot"
    unfolding a' by (rule bit_word_eqI) (auto simp: bit_simps)
  have f3: "ucast (take_bit 3 (drop_bit 8 a)) = take_bit 3 func"
    unfolding a' by (rule bit_word_eqI) (auto simp: bit_simps)
  have f4: "ucast (take_bit 6 (drop_bit 2 a)) = take_bit 6 reg"
    unfolding a' by (rule bit_word_eqI) (auto simp: bit_simps)
  show ?thesis using b f1 f2 f3 f4 by (simp add: pci_answer_def a_def t)
qed

end
