(* ===== verification/Drivers.thy ===== *)
theory Drivers
  imports DevBus
begin

text \<open>
  The driver list of \<open>source/kernel/drivers.c\<close> and the scan of the bus that feeds it, \<open>devbus_init\<close> of
  \<open>source/hw/devbus.c\<close>. The initializer of the only driver of the list, \<open>usb_init\<close>, is an argument.
\<close>

section \<open>The driver list\<close>

record 's drivers_List_t =
  drv_vendor :: u16
  drv_device :: u16
  drv_class :: u8
  drv_subclass :: u8
  drv_interface :: u8
  drv_revision :: u8
  drv_init :: "(devbus_Device_t \<Rightarrow> 's \<Rightarrow> (int \<times> 's) res) option"

definition drivers_List :: "(devbus_Device_t \<Rightarrow> 's \<Rightarrow> (int \<times> 's) res) \<Rightarrow> 's drivers_List_t list" where
  "drivers_List usb_init =
     [\<lparr>drv_vendor = -1, drv_device = -1, drv_class = 0x0C, drv_subclass = 0x03, drv_interface = -1,
       drv_revision = -1, drv_init = Some usb_init\<rparr>]"

definition driver_matches :: "'s drivers_List_t \<Rightarrow> devbus_Device_t \<Rightarrow> bool" where
  "driver_matches drv info \<longleftrightarrow>
     \<not> (drv_vendor drv \<noteq> -1 \<and> vendor info \<noteq> drv_vendor drv) \<and>
     \<not> (drv_device drv \<noteq> -1 \<and> dev_id info \<noteq> drv_device drv) \<and>
     \<not> (drv_class drv \<noteq> -1 \<and> dclass info \<noteq> drv_class drv) \<and>
     \<not> (drv_subclass drv \<noteq> -1 \<and> sub_class info \<noteq> drv_subclass drv) \<and>
     \<not> (drv_interface drv \<noteq> -1 \<and> iface info \<noteq> drv_interface drv) \<and>
     \<not> (drv_revision drv \<noteq> -1 \<and> revision info \<noteq> drv_revision drv)"

fun drivers_loop :: "'a dbus_scheme drivers_List_t list \<Rightarrow> nat \<Rightarrow> devbus_Device_t \<Rightarrow> 'a dbus_scheme \<Rightarrow> 'a dbus_scheme res" where
  "drivers_loop [] i info s = Inr s"
| "drivers_loop (drv # drvs) i info s =
     (if \<not> driver_matches drv info then drivers_loop drvs (Suc i) info s
      else case drv_init drv of
          None \<Rightarrow> bindR (ERR ''drivers_load'' ''Driver %d initializer not found'' [W (of_nat i)] s) (drivers_loop drvs (Suc i) info)
        | Some f \<Rightarrow> bindR (f info s)
            (\<lambda>(sts, s1). if sts \<noteq> 0
               then bindR (ERR ''drivers_load'' ''Device %d:%d:%d (driver %d) initialization failed''
                      [W (ucast (dev_bus info)), W (ucast (dev_slot info)), W (ucast (dev_func info)), W (of_nat i)] s1)
                    (drivers_loop drvs (Suc i) info)
               else Inr s1))"

definition drivers_load :: "(devbus_Device_t \<Rightarrow> 'a dbus_scheme \<Rightarrow> (int \<times> 'a dbus_scheme) res) \<Rightarrow> devbus_Device_t \<Rightarrow>
    'a dbus_scheme \<Rightarrow> 'a dbus_scheme res" where
  "drivers_load usb_init info s = drivers_loop (drivers_List usb_init) 0 info s"

section \<open>The scan\<close>

definition all_functions :: "(nat \<times> nat \<times> nat) list" where
  "all_functions = [(b, s, f). b \<leftarrow> [0..<256], s \<leftarrow> [0..<32], f \<leftarrow> [0..<8]]"

text \<open>\<open>dev\<close> is the local structure: not initialised at first, and left alone by \<open>devbus_get\<close> without a bus.\<close>

fun devbus_scan :: "(devbus_Device_t \<Rightarrow> 'a dbus_scheme \<Rightarrow> (int \<times> 'a dbus_scheme) res) \<Rightarrow> (nat \<times> nat \<times> nat) list \<Rightarrow>
    devbus_Device_t \<Rightarrow> 'a dbus_scheme \<Rightarrow> 'a dbus_scheme res" where
  "devbus_scan usb_init [] dev s = Inr s"
| "devbus_scan usb_init ((b, sl, f) # locs) dev s =
     (case devbus_get (Some dev) (of_nat b) (of_nat sl) (of_nat f) s of
        (None, s1) \<Rightarrow> devbus_scan usb_init locs dev s1
      | (Some dev1, s1) \<Rightarrow>
          if vendor dev1 \<noteq> 0xFFFF then bindR (drivers_load usb_init dev1 s1) (devbus_scan usb_init locs dev1)
          else devbus_scan usb_init locs dev1 s1)"

definition devbus_init :: "(devbus_Device_t \<Rightarrow> 'a dbus_scheme \<Rightarrow> (int \<times> 'a dbus_scheme) res) \<Rightarrow> devbus_Device_t \<Rightarrow>
    'a dbus_scheme \<Rightarrow> 'a dbus_scheme res" where
  "devbus_init usb_init dev s =
     (if devbus_InitLock s then Inr s
      else let s1 = s\<lparr>devbus_InitLock := True\<rparr>
           in bindR (if mcfg (acpiTable s1) \<noteq> 0
                then let s2 = s1\<lparr>devbus_PCIeBase := rd64 (mem s1) (mcfg (acpiTable s1) + offset_of acpi_MCFG_t ''pciebase'') mod 2 ^ 32\<rparr>
                     in if rd16 (mem s2) (devbus_PCIeBase s2) = 0xFFFF
                        then Inl (Panic ''PCIe root bridge not found or misconfigured'') else Inr s2
                else let (v, s2) = devbus_read 0 0 0 0 s1
                     in if v \<noteq> -1 then Inr (s2\<lparr>devbus_PCIeBase := 0\<rparr>)
                        else bindR (WARN ''devbus_init'' ''No PCI or PCI Express buses found'' [] s2)
                          (\<lambda>s3. Inr (s3\<lparr>devbus_InitLock := False\<rparr>)))
              (devbus_scan usb_init all_functions dev))"

section \<open>What a scan should find\<close>

definition device_at :: "(u8 \<Rightarrow> u8 \<Rightarrow> u8 \<Rightarrow> u8 \<Rightarrow> u32) \<Rightarrow> nat \<times> nat \<times> nat \<Rightarrow> devbus_Device_t" where
  "device_at cfg = (\<lambda>(b, sl, f).
     let r = cfg (of_nat b) (of_nat sl) (of_nat f)
     in \<lparr>dev_bus = of_nat b, dev_slot = of_nat sl, dev_func = of_nat f,
         vendor = ucast (r 0), dev_id = ucast (drop_bit 16 (r 0)),
         revision = ucast (r 2), iface = ucast (drop_bit 8 (r 2)),
         sub_class = ucast (drop_bit 16 (r 2)), dclass = ucast (drop_bit 24 (r 2))\<rparr>)"

definition devices :: "(u8 \<Rightarrow> u8 \<Rightarrow> u8 \<Rightarrow> u8 \<Rightarrow> u32) \<Rightarrow> devbus_Device_t list" where
  "devices cfg = filter (\<lambda>d. vendor d \<noteq> 0xFFFF) (map (device_at cfg) all_functions)"

text \<open>One run of the driver list per device, in this order, with only \<open>quiet\<close> steps between two of them: to the end, or up
  to a device where the driver faults or does not return.\<close>

inductive loads :: "('s \<Rightarrow> 's \<Rightarrow> bool) \<Rightarrow> (devbus_Device_t \<Rightarrow> 's \<Rightarrow> 's res) \<Rightarrow> devbus_Device_t list \<Rightarrow> 's \<Rightarrow> 's res \<Rightarrow> bool"
  for quiet :: "'s \<Rightarrow> 's \<Rightarrow> bool" and load :: "devbus_Device_t \<Rightarrow> 's \<Rightarrow> 's res" where
  loads_Nil: "quiet s s' \<Longrightarrow> loads quiet load [] s (Inr s')"
| loads_Cons: "quiet s s1 \<Longrightarrow> load d s1 = Inr s2 \<Longrightarrow> loads quiet load ds s2 r \<Longrightarrow> loads quiet load (d # ds) s r"
| loads_stop: "quiet s s1 \<Longrightarrow> load d s1 = Inl e \<Longrightarrow> loads quiet load (d # ds) s (Inl e)"

inductive_cases loads_NilE [elim!]: "loads quiet load [] s r"
inductive_cases loads_ConsE [elim!]: "loads quiet load (d # ds) s r"

lemma loads_quiet: "loads io_only load ds s1 r \<Longrightarrow> io_only s s1 \<Longrightarrow> loads io_only load ds s r"
  by (induction ds s1 r rule: loads.induct) (auto intro: loads.intros io_only_trans)

lemma loads_fault: "loads quiet load ds s r \<Longrightarrow> r = Inl e \<Longrightarrow> \<exists>d\<in>set ds. \<exists>t. load d t = Inl e"
  by (induction ds s r rule: loads.induct) auto

lemma all_functions_bounds: "(b, sl, f) \<in> set all_functions \<Longrightarrow> b < 256 \<and> sl < 32 \<and> f < 8"
  by (auto simp: all_functions_def)

lemma byte_fields:
  "ucast (x AND 0xFFFF) = (ucast x :: u16)" "ucast (x AND 0xFF) = (ucast x :: u8)" for x :: u32
  unfolding mask_ands by (rule bit_word_eqI; auto simp: bit_simps)+

text \<open>Bus and lock as the scan needs them: the configuration registers of \<open>cfg\<close> answer at the ports, or stand in the
  memory window.\<close>

definition pcie_window :: "(u8 \<Rightarrow> u8 \<Rightarrow> u8 \<Rightarrow> u8 \<Rightarrow> u32) \<Rightarrow> addr \<Rightarrow> mem \<Rightarrow> bool" where
  "pcie_window cfg base m \<longleftrightarrow> (\<forall>b sl f r. sl < 32 \<longrightarrow> f < 8 \<longrightarrow> r < 64 \<longrightarrow>
     rd32 m (pcie_regs base b sl f + 4 * unat r) = unat (cfg b sl f r))"

definition bus_ready :: "(u8 \<Rightarrow> u8 \<Rightarrow> u8 \<Rightarrow> u8 \<Rightarrow> u32) \<Rightarrow> 'a dbus_scheme \<Rightarrow> bool" where
  "bus_ready cfg s \<longleftrightarrow> devbus_InitLock s \<and>
     (if devbus_PCIeBase s = 0 then pci_bus cfg (pio s) else pcie_window cfg (devbus_PCIeBase s) (mem s))"

lemma bus_ready_io: "bus_ready cfg s \<Longrightarrow> io_only s s' \<Longrightarrow> bus_ready cfg s'"
  by (auto simp: bus_ready_def io_only_def pci_bus_def)

lemma devbus_read_ready:
  assumes "bus_ready cfg s" "slot < 32" "func < 8" "reg < 64"
  shows "fst (devbus_read b slot func reg s) = cfg b slot func reg" "io_only s (snd (devbus_read b slot func reg s))"
proof -
  have lock: "devbus_InitLock s" using assms(1) by (simp add: bus_ready_def)
  have "fst (devbus_read b slot func reg s) = cfg b slot func reg \<and> io_only s (snd (devbus_read b slot func reg s))"
  proof (cases "devbus_PCIeBase s = 0")
    case True
    then have d: "device (pio s) (io_log (pio s) @ [POut W32 0xCF8 (pci_index b slot func reg)]) W32 0xCFC = cfg b slot func reg"
      using assms(1) pci_index_bits [OF assms(2-4)] by (simp add: bus_ready_def pci_bus_def)
    have "io_only s (snd (inl 0xCFC (outl 0xCF8 (pci_index b slot func reg) s)))"
      by (rule io_only_trans [OF io_only_in(5) io_only_in(3)])
    moreover have "fst (inl 0xCFC (outl 0xCF8 (pci_index b slot func reg) s)) = cfg b slot func reg"
      using d by (simp add: inl_def outl_def port_inl_eq)
    ultimately show ?thesis using True lock by (simp add: devbus_read_def)
  next
    case False
    then show ?thesis using assms lock by (simp add: devbus_read_def bus_ready_def pcie_window_def)
  qed
  then show "fst (devbus_read b slot func reg s) = cfg b slot func reg" "io_only s (snd (devbus_read b slot func reg s))" by blast+
qed

lemma devbus_get_ready:
  assumes "bus_ready cfg s" "b < 256" "sl < 32" "f < 8"
  obtains s' where "devbus_get (Some dev) (of_nat b) (of_nat sl) (of_nat f) s = (Some (device_at cfg (b, sl, f)), s')" "io_only s s'"
proof -
  have lt: "(of_nat sl :: u8) < 32" "(of_nat f :: u8) < 8" "(0 :: u8) < 64" "(2 :: u8) < 64"
    using assms(3,4) by (simp_all add: word_less_nat_alt unat_of_nat)
  obtain r0 s1 where r: "devbus_read (of_nat b) (of_nat sl) (of_nat f) 0 s = (r0, s1)" by fastforce
  have 1: "r0 = cfg (of_nat b) (of_nat sl) (of_nat f) 0" "io_only s s1"
    using devbus_read_ready [OF assms(1) lt(1,2,3), of "of_nat b"] r by simp_all
  obtain r2 s2 where r': "devbus_read (of_nat b) (of_nat sl) (of_nat f) 2 s1 = (r2, s2)" by fastforce
  have 2: "r2 = cfg (of_nat b) (of_nat sl) (of_nat f) 2" "io_only s1 s2"
    using devbus_read_ready [OF bus_ready_io [OF assms(1) 1(2)] lt(1,2,4), of "of_nat b"] r' by simp_all
  have "devbus_InitLock s" using assms(1) by (simp add: bus_ready_def)
  then show thesis
    by (intro that [OF _ io_only_trans [OF 1(2) 2(2)]]) (use r r' in \<open>simp add: devbus_get_def 1(1) 2(1) byte_fields device_at_def Let_def\<close>)
qed

text \<open>The bus is where it was: what a driver run may not change.\<close>

abbreviation (input) same_bus :: "'a dbus_scheme \<Rightarrow> 'a dbus_scheme \<Rightarrow> bool" where
  "same_bus s s' \<equiv> devbus_InitLock s' = devbus_InitLock s \<and> devbus_PCIeBase s' = devbus_PCIeBase s \<and>
     device (pio s') = device (pio s)"

section \<open>Drivers\<close>

text \<open>The only driver of the list is for the devices of class 0x0C and subclass 0x03.\<close>

abbreviation (input) is_usb :: "devbus_Device_t \<Rightarrow> bool" where "is_usb d \<equiv> dclass d = 0x0C \<and> sub_class d = 0x03"

lemma driver_error:
  "\<exists>t. ERR ''drivers_load'' ''Device %d:%d:%d (driver %d) initialization failed'' [W a, W b, W c, W d] s = Inr (s\<lparr>tty := t\<rparr>)"
  unfolding ERR_def by (rule printf_message) (simp_all add: cstr_def render.simps(2))

lemma drivers_load_cases:
  "drivers_load f d s = (if is_usb d then case f d s of Inl e \<Rightarrow> Inl e
      | Inr (r, s1) \<Rightarrow> if r = 0 then Inr s1 else ERR ''drivers_load'' ''Device %d:%d:%d (driver %d) initialization failed''
          [W (ucast (dev_bus d)), W (ucast (dev_slot d)), W (ucast (dev_func d)), W 0] s1
    else Inr s)"
proof (cases "f d s")
  case (Inr x)
  obtain r s1 where x: "x = (r, s1)" by (cases x)
  obtain t where "ERR ''drivers_load'' ''Device %d:%d:%d (driver %d) initialization failed''
      [W (ucast (dev_bus d)), W (ucast (dev_slot d)), W (ucast (dev_func d)), W 0] s1 = Inr (s1\<lparr>tty := t\<rparr>)"
    using driver_error by blast
  then show ?thesis using Inr x by (simp add: drivers_load_def drivers_List_def driver_matches_def)
qed (simp add: drivers_load_def drivers_List_def driver_matches_def)

text \<open>What ports, messages and the runs of the driver keep, a run of the driver list keeps.\<close>

lemma drivers_load_keeps:
  assumes quiet: "\<And>s s'. P s \<Longrightarrow> io_only s s' \<Longrightarrow> P s'" and drv: "\<And>s r s'. is_usb d \<Longrightarrow> P s \<Longrightarrow> f d s = Inr (r, s') \<Longrightarrow> P s'"
    and r: "drivers_load f d s = Inr s'" and p: "P s"
  shows "P s'"
proof (cases "is_usb d")
  case True
  then obtain n s1 where f: "f d s = Inr (n, s1)" using r by (auto simp: drivers_load_cases split: sum.splits)
  have p1: "P s1" by (rule drv [OF True p f])
  obtain t where "ERR ''drivers_load'' ''Device %d:%d:%d (driver %d) initialization failed''
      [W (ucast (dev_bus d)), W (ucast (dev_slot d)), W (ucast (dev_func d)), W 0] s1 = Inr (s1\<lparr>tty := t\<rparr>)"
    using driver_error by blast
  then have "s' = s1 \<or> s' = s1\<lparr>tty := t\<rparr>" using r True f by (auto simp: drivers_load_cases split: if_splits)
  then show ?thesis using p1 quiet [OF p1 io_only_tty] by auto
qed (use r p in \<open>auto simp: drivers_load_cases\<close>)

lemma devbus_scan_loads:
  assumes ready: "\<And>s. P s \<Longrightarrow> bus_ready cfg s" and quiet: "\<And>s s'. P s \<Longrightarrow> io_only s s' \<Longrightarrow> P s'"
    and drv: "\<And>d s r s'. d \<in> set ds \<Longrightarrow> is_usb d \<Longrightarrow> P s \<Longrightarrow> f d s = Inr (r, s') \<Longrightarrow> P s'"
    and "\<forall>(b, sl, fn)\<in>set locs. b < 256 \<and> sl < 32 \<and> fn < 8" "P s" "ds = filter (\<lambda>d. vendor d \<noteq> 0xFFFF) (map (device_at cfg) locs)"
  shows "loads io_only (drivers_load f) ds s (devbus_scan f locs dev s)"
  using drv assms(4-6)
proof (induction locs arbitrary: dev s ds)
  case (Cons l locs)
  obtain b sl fn where l: "l = (b, sl, fn)" by (cases l)
  let ?ds = "filter (\<lambda>d. vendor d \<noteq> 0xFFFF) (map (device_at cfg) locs)"
  have lim: "b < 256" "sl < 32" "fn < 8" using Cons.prems(2) by (simp_all add: l)
  obtain s1 where g: "devbus_get (Some dev) (of_nat b) (of_nat sl) (of_nat fn) s = (Some (device_at cfg (b, sl, fn)), s1)" "io_only s s1"
    by (rule devbus_get_ready [OF ready [OF Cons.prems(3)] lim])
  note p1 = quiet [OF Cons.prems(3) g(2)]
  have sub: "set ?ds \<subseteq> set ds" using Cons.prems(4) by auto
  have IH: "loads io_only (drivers_load f) ?ds t (devbus_scan f locs d t)" if "P t" for d t
    by (rule Cons.IH [OF _ _ that refl]) (use Cons.prems(1,2) sub in auto)
  let ?d = "device_at cfg (b, sl, fn)"
  show ?case
  proof (cases "vendor ?d = 0xFFFF")
    case True
    then show ?thesis using g IH [OF p1, of ?d] Cons.prems(4) by (auto simp: l intro: loads_quiet)
  next
    case False
    then have ds: "ds = ?d # ?ds" using Cons.prems(4) by (simp add: l)
    show ?thesis
    proof (cases "drivers_load f ?d s1")
      case (Inl e)
      then show ?thesis using g False ds by (auto simp: l intro: loads_stop)
    next
      case (Inr s2)
      have "P s2" by (rule drivers_load_keeps [where P = P, OF quiet _ Inr p1]) (use Cons.prems(1) ds in auto)
      from IH [OF this, of ?d] show ?thesis using g False ds Inr by (auto simp: l intro: loads_Cons)
    qed
  qed
qed (auto intro: loads_Nil)

lemma of_nat_u8_inj: "a < 256 \<Longrightarrow> b < 256 \<Longrightarrow> (of_nat a :: u8) = of_nat b \<Longrightarrow> a = b"
  by (metis unat_of_nat_u8 mod_less)

lemma all_functions_product: "all_functions = List.product [0..<256] (List.product [0..<32] [0..<8])"
  unfolding all_functions_def product_concat_map by (simp add: map_concat comp_def del: upt_Suc)

lemma devices_distinct: "distinct (map (\<lambda>d. (dev_bus d, dev_slot d, dev_func d)) (devices cfg))"
proof -
  have d: "distinct all_functions" unfolding all_functions_product by (intro distinct_product distinct_upt)
  have "distinct (map (\<lambda>l. (dev_bus (device_at cfg l), dev_slot (device_at cfg l), dev_func (device_at cfg l))) all_functions)"
    unfolding distinct_map using d by (auto simp: inj_on_def device_at_def Let_def dest!: all_functions_bounds intro: of_nat_u8_inj)
  then have "distinct (map (\<lambda>d. (dev_bus d, dev_slot d, dev_func d)) (map (device_at cfg) all_functions))"
    by (simp only: map_map comp_def)
  then show ?thesis unfolding devices_def by (rule distinct_map_filter)
qed

section \<open>The whole initialization\<close>

text \<open>Where the configuration registers of a bus are: at the ports, or in the window the table \<open>MCFG\<close> names.\<close>

definition bus_base :: "'a acpi_scheme \<Rightarrow> addr" where
  "bus_base s = (if mcfg (acpiTable s) = 0 then 0
     else rd64 (mem s) (mcfg (acpiTable s) + offset_of acpi_MCFG_t ''pciebase'') mod 2 ^ 32)"

definition bus_there :: "(u8 \<Rightarrow> u8 \<Rightarrow> u8 \<Rightarrow> u8 \<Rightarrow> u32) \<Rightarrow> 'a dbus_scheme \<Rightarrow> bool" where
  "bus_there cfg s \<longleftrightarrow>
     (if mcfg (acpiTable s) = 0 then devbus_PCIeBase s = 0 \<and> pci_bus cfg (pio s) \<and> cfg 0 0 0 0 \<noteq> -1
      else bus_base s \<noteq> 0 \<and> pcie_window cfg (bus_base s) (mem s) \<and> (ucast (cfg 0 0 0 0) :: u16) \<noteq> 0xFFFF)"

lemma rd16_rd32: "rd16 m a = rd32 m a mod 65536"
proof -
  have "rd32 m a = rd16 m a + 65536 * (unat (m (a + 2)) + 256 * unat (m (a + 3)))" by (simp add: rd16_def rd32_def)
  moreover have "rd16 m a < 65536" using unat_le_255 [of "m a"] unat_le_255 [of "m (a + 1)"] unfolding rd16_def by linarith
  ultimately show ?thesis by (simp only: mod_mult_self2 mod_less)
qed

lemma devbus_init_scan:
  fixes s :: "'a dbus_scheme"
  assumes "\<not> devbus_InitLock s" "bus_there cfg s"
  obtains s2 where "devbus_init drv dev s = devbus_scan drv all_functions dev s2"
    "io_only (s\<lparr>devbus_InitLock := True, devbus_PCIeBase := bus_base s\<rparr>) s2" "bus_ready cfg s2"
proof (cases "mcfg (acpiTable s) = 0")
  case True
  let ?s = "s\<lparr>devbus_InitLock := True\<rparr>"
  have there: "devbus_PCIeBase s = 0" "pci_bus cfg (pio s)" "cfg 0 0 0 0 \<noteq> -1" "bus_base s = 0"
    using assms(2) True by (simp_all add: bus_there_def bus_base_def)
  have ready: "bus_ready cfg ?s" using there by (simp add: bus_ready_def)
  obtain v s2 where r: "devbus_read 0 0 0 0 ?s = (v, s2)" by fastforce
  have v: "v = cfg 0 0 0 0" "io_only ?s s2" using devbus_read_ready [OF ready, of 0 0 0 0] r by simp_all
  have "?s = s\<lparr>devbus_InitLock := True, devbus_PCIeBase := bus_base s\<rparr>" using there by simp
  with v(2) have io: "io_only (s\<lparr>devbus_InitLock := True, devbus_PCIeBase := bus_base s\<rparr>) s2" by simp
  have "devbus_PCIeBase s2 = 0" using v(2) there(1) by (auto simp: io_only_def)
  then have "s2\<lparr>devbus_PCIeBase := 0\<rparr> = s2" by simp
  then have "devbus_init drv dev s = devbus_scan drv all_functions dev s2"
    using assms(1) True r v(1) there(3) by (simp add: devbus_init_def Let_def)
  then show thesis by (rule that [OF _ io bus_ready_io [OF ready v(2)]])
next
  case False
  let ?s = "s\<lparr>devbus_InitLock := True, devbus_PCIeBase := bus_base s\<rparr>"
  have there: "bus_base s \<noteq> 0" "pcie_window cfg (bus_base s) (mem s)" "(ucast (cfg 0 0 0 0) :: u16) \<noteq> 0xFFFF"
    using assms(2) False by (simp_all add: bus_there_def)
  have "rd32 (mem s) (pcie_regs (bus_base s) 0 0 0 + 4 * unat (0 :: u8)) = unat (cfg 0 0 0 0)"
    by (rule there(2) [unfolded pcie_window_def, rule_format]) simp_all
  moreover have "pcie_regs (bus_base s) 0 0 0 = bus_base s"
    by (simp add: pcie_regs_def bus_base_def wrap32_def)
  moreover have "unat (ucast (cfg 0 0 0 0) :: u16) = unat (cfg 0 0 0 0) mod 65536"
    by (simp add: unsigned_ucast_eq take_bit_nat_def)
  ultimately have "rd16 (mem s) (bus_base s) = unat (ucast (cfg 0 0 0 0) :: u16)" by (simp add: rd16_rd32)
  moreover have "unat (ucast (cfg 0 0 0 0) :: u16) \<noteq> unat (0xFFFF :: u16)" using there(3) by (simp only: word_unat_eq_iff) simp
  ultimately have ne: "rd16 (mem s) (bus_base s) \<noteq> 0xFFFF" by simp
  have "devbus_init drv dev s = devbus_scan drv all_functions dev ?s"
    using assms(1) False ne by (simp add: devbus_init_def Let_def bus_base_def)
  then show thesis using that [of ?s] there by (simp add: bus_ready_def)
qed

lemma devbus_init_loads:
  fixes s :: "'a dbus_scheme"
  assumes quiet: "\<And>s s'. P s \<Longrightarrow> io_only s s' \<Longrightarrow> P s'" and start: "P (s\<lparr>devbus_InitLock := True, devbus_PCIeBase := bus_base s\<rparr>)"
    and drv: "\<And>d s r s'. d \<in> set (devices cfg) \<Longrightarrow> is_usb d \<Longrightarrow> P s \<Longrightarrow> bus_ready cfg s \<Longrightarrow> f d s = Inr (r, s') \<Longrightarrow> P s' \<and> bus_ready cfg s'"
    and "\<not> devbus_InitLock s" "bus_there cfg s"
  shows "loads io_only (drivers_load f) (devices cfg) (s\<lparr>devbus_InitLock := True, devbus_PCIeBase := bus_base s\<rparr>) (devbus_init f dev s)"
proof -
  obtain s2 where s2: "devbus_init f dev s = devbus_scan f all_functions dev s2"
    "io_only (s\<lparr>devbus_InitLock := True, devbus_PCIeBase := bus_base s\<rparr>) s2" "bus_ready cfg s2"
    by (rule devbus_init_scan [OF assms(4,5)])
  have lim: "\<forall>(b, sl, fn)\<in>set all_functions. b < 256 \<and> sl < 32 \<and> fn < 8" using all_functions_bounds by fast
  have "loads io_only (drivers_load f) (devices cfg) s2 (devbus_scan f all_functions dev s2)"
  proof (rule devbus_scan_loads [where P = "\<lambda>t. P t \<and> bus_ready cfg t", OF _ _ _ lim _ devices_def])
    show "P s2 \<and> bus_ready cfg s2" using quiet [OF start s2(2)] s2(3) by blast
    show "P t \<and> bus_ready cfg t \<Longrightarrow> io_only t u \<Longrightarrow> P u \<and> bus_ready cfg u" for t u using quiet bus_ready_io by blast
    show "d \<in> set (devices cfg) \<Longrightarrow> is_usb d \<Longrightarrow> P t \<and> bus_ready cfg t \<Longrightarrow> f d t = Inr (n, u) \<Longrightarrow> P u \<and> bus_ready cfg u" for d t n u
      using drv by blast
  qed blast
  then show ?thesis unfolding s2(1) by (rule loads_quiet [OF _ s2(2)])
qed

lemma devices_complete:
  "set (devices cfg) = {device_at cfg (b, sl, f) |b sl f. b < 256 \<and> sl < 32 \<and> f < 8 \<and>
     ucast (cfg (of_nat b) (of_nat sl) (of_nat f) 0) \<noteq> (0xFFFF :: u16)}"
proof -
  have all: "l \<in> set all_functions \<longleftrightarrow> (\<exists>b sl f. l = (b, sl, f) \<and> b < 256 \<and> sl < 32 \<and> f < 8)" for l
    unfolding all_functions_product by (cases l) (simp del: upt_Suc)
  have v: "vendor (device_at cfg (b, sl, f)) = ucast (cfg (of_nat b) (of_nat sl) (of_nat f) 0)" for b sl f
    by (simp add: device_at_def Let_def)
  have "d \<in> set (devices cfg) \<longleftrightarrow> (\<exists>l. l \<in> set all_functions \<and> d = device_at cfg l \<and> vendor (device_at cfg l) \<noteq> 0xFFFF)" for d
    unfolding devices_def set_filter set_map by blast
  then show ?thesis unfolding all set_eq_iff mem_Collect_eq v [symmetric] by blast
qed

text \<open>A bus with the host bridge and one USB controller.\<close>

definition cfg_demo :: "u8 \<Rightarrow> u8 \<Rightarrow> u8 \<Rightarrow> u8 \<Rightarrow> u32" where
  "cfg_demo b sl f r =
     (if b = 0 \<and> f = 0 \<and> (sl = 0 \<or> sl = 3)
      then if r = 0 then 0x12378086 else if r = 2 then (if sl = 3 then 0x0C033000 else 0x06000000) else 0 else -1)"

definition dbus_demo :: dbus where
  "dbus_demo = acpi.extend (acpi_demo\<lparr>pio := \<lparr>device = \<lambda>log w p. (case last log of POut _ _ a \<Rightarrow> pci_answer cfg_demo a | _ \<Rightarrow> 0),
     io_log = []\<rparr>\<rparr>) \<lparr>devbus_InitLock = False, devbus_PCIeBase = 0\<rparr>"

lemma dbus_demo_bus: "\<not> devbus_InitLock dbus_demo" "bus_there cfg_demo dbus_demo" "pci_bus cfg_demo (pio dbus_demo)"
  by (simp_all add: dbus_demo_def acpi.defs acpi_demo_def hw.defs pci_bus_def cfg_demo_def bus_there_def bus_base_def)

text \<open>Without a bus the local structure is handed to the drivers as it happened to be, once per location.\<close>

lemma devbus_scan_unlocked:
  assumes "\<not> devbus_InitLock s" "vendor dev \<noteq> 0xFFFF" "\<And>s. \<not> devbus_InitLock s \<Longrightarrow> \<exists>s'. drivers_load f dev s = Inr s' \<and> \<not> devbus_InitLock s'"
  shows "\<exists>s'. devbus_scan f locs dev s = Inr s' \<and> loads (=) (drivers_load f) (replicate (length locs) dev) s (Inr s')"
  using assms(1)
proof (induction locs arbitrary: s)
  case (Cons l locs)
  obtain b sl fn where l: "l = (b, sl, fn)" by (cases l)
  obtain s1 where s1: "drivers_load f dev s = Inr s1" "\<not> devbus_InitLock s1" using assms(3) [OF Cons.prems] by blast
  from Cons.IH [OF s1(2)] show ?case
    using Cons.prems assms(2) s1(1) by (auto simp: l devbus_get_def intro: loads_Cons)
qed (auto intro: loads_Nil)

end
