(* ===== verification/Keyboard.thy ===== *)
theory Keyboard
  imports Acpi
begin

text \<open>
  The key codes of \<open>include/drv/keyboard.h\<close> and the two scan code tables of \<open>source/hw/i8042.c\<close>. An
  enumerator is named by its string; its value is its position in the enumeration.
\<close>

unbundle bit_operations_syntax

definition key_enum :: "string list" where
  "key_enum =
     [''KEY_UNKNOWN'', ''KEY_ESC'', ''KEY_F1'', ''KEY_F2'', ''KEY_F3'', ''KEY_F4'', ''KEY_F5'', ''KEY_F6'',
      ''KEY_F7'', ''KEY_F8'', ''KEY_F9'', ''KEY_F10'', ''KEY_F11'', ''KEY_F12'', ''KEY_BACKTICK'', ''KEY_1'',
      ''KEY_2'', ''KEY_3'', ''KEY_4'', ''KEY_5'', ''KEY_6'', ''KEY_7'', ''KEY_8'', ''KEY_9'', ''KEY_0'',
      ''KEY_MINUS'', ''KEY_EQUAL'', ''KEY_BACKSPACE'', ''KEY_TAB'', ''KEY_Q'', ''KEY_W'', ''KEY_E'', ''KEY_R'',
      ''KEY_T'', ''KEY_Y'', ''KEY_U'', ''KEY_I'', ''KEY_O'', ''KEY_P'', ''KEY_OPENBRACKET'',
      ''KEY_CLOSEBRACKET'', ''KEY_ENTER'', ''KEY_CAPSLOCK'', ''KEY_A'', ''KEY_S'', ''KEY_D'', ''KEY_F'',
      ''KEY_G'', ''KEY_H'', ''KEY_J'', ''KEY_K'', ''KEY_L'', ''KEY_SEMICOLON'', ''KEY_QUOTE'',
      ''KEY_BACKSLASH'', ''KEY_SHIFT'', ''KEY_Z'', ''KEY_X'', ''KEY_C'', ''KEY_V'', ''KEY_B'', ''KEY_N'',
      ''KEY_M'', ''KEY_COMMA'', ''KEY_PERIOD'', ''KEY_SLASH'', ''KEY_CTRL'', ''KEY_META'', ''KEY_ALT'',
      ''KEY_SPACE'', ''KEY_ALTGR'', ''KEY_PRTSCRN'', ''KEY_SCROLLLOCK'', ''KEY_PAUSE'', ''KEY_INSERT'',
      ''KEY_DELETE'', ''KEY_HOME'', ''KEY_END'', ''KEY_PAGEUP'', ''KEY_PAGEDOWN'', ''KEY_ARROWUP'',
      ''KEY_ARROWDOWN'', ''KEY_ARROWLEFT'', ''KEY_ARROWRIGHT'', ''KEY_NUMLOCK'', ''KEY_NP_SLASH'',
      ''KEY_NP_ASTERISK'', ''KEY_NP_MINUS'', ''KEY_NP_PLUS'', ''KEY_NP_7'', ''KEY_NP_8'', ''KEY_NP_9'',
      ''KEY_NP_4'', ''KEY_NP_5'', ''KEY_NP_6'', ''KEY_NP_1'', ''KEY_NP_2'', ''KEY_NP_3'', ''KEY_NP_0'',
      ''KEY_NP_PERIOD'', ''KEY_NP_ENTER'']"

fun position :: "'a list \<Rightarrow> 'a \<Rightarrow> nat" where
  "position [] x = 0"
| "position (y # ys) x = (if x = y then 0 else Suc (position ys x))"

definition KEY :: "string \<Rightarrow> u8" where
  "KEY k = of_nat (position key_enum k)"

abbreviation (input) KEY_RELEASE :: u8 where "KEY_RELEASE \<equiv> 0x80"
abbreviation (input) KEY_CODE :: u8 where "KEY_CODE \<equiv> NOT KEY_RELEASE"

text \<open>A designated initializer: the entries listed, 0 elsewhere.\<close>

definition table_of :: "(u8 \<times> string) list \<Rightarrow> u8 \<Rightarrow> u8" where
  "table_of inits sc = (case map_of inits sc of None \<Rightarrow> 0 | Some k \<Rightarrow> KEY k)"

definition key_inits :: "(u8 \<times> string) list" where
  "key_inits =
     [(0x01, ''KEY_F9''), (0x03, ''KEY_F5''), (0x04, ''KEY_F3''), (0x05, ''KEY_F1''), (0x06, ''KEY_F2''),
      (0x07, ''KEY_F12''), (0x09, ''KEY_F10''), (0x0A, ''KEY_F8''), (0x0B, ''KEY_F6''), (0x0C, ''KEY_F4''),
      (0x0D, ''KEY_TAB''), (0x0E, ''KEY_BACKTICK''), (0x11, ''KEY_ALT''), (0x12, ''KEY_SHIFT''),
      (0x14, ''KEY_CTRL''), (0x15, ''KEY_Q''), (0x16, ''KEY_1''), (0x1A, ''KEY_Z''), (0x1B, ''KEY_S''),
      (0x1C, ''KEY_A''), (0x1D, ''KEY_W''), (0x1E, ''KEY_2''), (0x21, ''KEY_C''), (0x22, ''KEY_X''),
      (0x23, ''KEY_D''), (0x24, ''KEY_E''), (0x25, ''KEY_4''), (0x26, ''KEY_3''), (0x29, ''KEY_SPACE''),
      (0x2A, ''KEY_V''), (0x2B, ''KEY_F''), (0x2C, ''KEY_T''), (0x2D, ''KEY_R''), (0x2E, ''KEY_5''),
      (0x31, ''KEY_N''), (0x32, ''KEY_B''), (0x33, ''KEY_H''), (0x34, ''KEY_G''), (0x35, ''KEY_Y''),
      (0x36, ''KEY_6''), (0x3A, ''KEY_M''), (0x3B, ''KEY_J''), (0x3C, ''KEY_U''), (0x3D, ''KEY_7''),
      (0x3E, ''KEY_8''), (0x41, ''KEY_COMMA''), (0x42, ''KEY_K''), (0x43, ''KEY_I''), (0x44, ''KEY_O''),
      (0x45, ''KEY_0''), (0x46, ''KEY_9''), (0x49, ''KEY_PERIOD''), (0x4A, ''KEY_SLASH''), (0x4B, ''KEY_L''),
      (0x4C, ''KEY_SEMICOLON''), (0x4D, ''KEY_P''), (0x4E, ''KEY_MINUS''), (0x52, ''KEY_QUOTE''),
      (0x54, ''KEY_OPENBRACKET''), (0x55, ''KEY_EQUAL''), (0x58, ''KEY_CAPSLOCK''), (0x59, ''KEY_SHIFT''),
      (0x5A, ''KEY_ENTER''), (0x5B, ''KEY_CLOSEBRACKET''), (0x5D, ''KEY_BACKSLASH''),
      (0x66, ''KEY_BACKSPACE''), (0x69, ''KEY_NP_1''), (0x6B, ''KEY_NP_4''), (0x6C, ''KEY_NP_7''),
      (0x70, ''KEY_NP_0''), (0x71, ''KEY_NP_PERIOD''), (0x72, ''KEY_NP_2''), (0x73, ''KEY_NP_5''),
      (0x74, ''KEY_NP_6''), (0x75, ''KEY_NP_8''), (0x76, ''KEY_ESC''), (0x77, ''KEY_NUMLOCK''),
      (0x78, ''KEY_F11''), (0x79, ''KEY_NP_PLUS''), (0x7A, ''KEY_NP_3''), (0x7B, ''KEY_NP_MINUS''),
      (0x7C, ''KEY_NP_ASTERISK''), (0x7D, ''KEY_NP_9''), (0x7E, ''KEY_SCROLLLOCK''), (0x83, ''KEY_F7'')]"

definition ext_key_inits :: "(u8 \<times> string) list" where
  "ext_key_inits =
     [(0x11, ''KEY_ALTGR''), (0x14, ''KEY_CTRL''), (0x1F, ''KEY_META''), (0x27, ''KEY_META''),
      (0x4A, ''KEY_NP_SLASH''), (0x5A, ''KEY_NP_ENTER''), (0x69, ''KEY_END''), (0x6B, ''KEY_ARROWLEFT''),
      (0x6C, ''KEY_HOME''), (0x70, ''KEY_INSERT''), (0x71, ''KEY_DELETE''), (0x72, ''KEY_ARROWDOWN''),
      (0x74, ''KEY_ARROWRIGHT''), (0x75, ''KEY_ARROWUP''), (0x7A, ''KEY_PAGEDOWN''), (0x7D, ''KEY_PAGEUP'')]"

definition i8042_KeyTable :: "u8 \<Rightarrow> u8" where
  "i8042_KeyTable = table_of key_inits"

definition i8042_ExtKeyTable :: "u8 \<Rightarrow> u8" where
  "i8042_ExtKeyTable = table_of ext_key_inits"

section \<open>Facts about the tables\<close>

lemma key_enum_size: "length key_enum = 101"
  by (simp add: key_enum_def)

lemma position_le: "position xs x \<le> length xs"
  by (induction xs) auto

lemma key_small: "unat (KEY k) \<le> 101"
  using position_le [of key_enum k] by (simp add: KEY_def unat_of_nat key_enum_size)

lemma position_nth: "distinct xs \<Longrightarrow> i < length xs \<Longrightarrow> position xs (xs ! i) = i"
  by (induction xs arbitrary: i) (auto simp: nth_Cons split: nat.splits)

text \<open>Every enumerator is its own code, and the tables name enumerators only, one per scan code.\<close>

lemma key_enum_distinct: "distinct key_enum"
  by code_simp

lemma KEY_enum: "i < 101 \<Longrightarrow> KEY (key_enum ! i) = of_nat i"
  using position_nth [OF key_enum_distinct, of i] by (simp add: KEY_def key_enum_size)

lemma inits_named:
  "list_all (\<lambda>(c, k). List.member key_enum k \<and> k \<noteq> ''KEY_UNKNOWN'') key_inits"
  "list_all (\<lambda>(c, k). List.member key_enum k \<and> k \<noteq> ''KEY_UNKNOWN'') ext_key_inits"
  "distinct (map fst key_inits)" "distinct (map fst ext_key_inits)"
  by code_simp+

lemma table_small: "unat (table_of inits c) \<le> 101"
  using key_small by (auto simp: table_of_def split: option.splits)

text \<open>The release bit and the code do not overlap.\<close>

lemma release_bit:
  assumes "unat (k :: u8) \<le> 101"
  shows "k AND KEY_CODE = k" "(k OR KEY_RELEASE) AND KEY_CODE = k" "bit (k OR KEY_RELEASE) 7" "\<not> bit k 7"
proof -
  have "take_bit 7 (unat k) = unat k" using assms by (simp add: take_bit_nat_def)
  then have "unat (take_bit 7 k) = unat k" by (simp add: unsigned_take_bit_eq)
  then have t: "take_bit 7 k = k" by (simp only: word_unat_eq_iff)
  have p: "(0x80 :: int) = 2 ^ 7" by simp
  have r: "bit (0x80 :: int) n \<longleftrightarrow> n = 7" for n unfolding p bit_exp_iff by auto
  have b: "bit k n \<Longrightarrow> n < 7" for n using t by (metis bit_take_bit_iff)
  show "\<not> bit k 7" using b by auto
  show "bit (k OR KEY_RELEASE) 7" by (simp add: bit_simps r)
  show "k AND KEY_CODE = k" by (rule bit_word_eqI) (auto simp: bit_simps r dest: b)
  show "(k OR KEY_RELEASE) AND KEY_CODE = k" by (rule bit_word_eqI) (auto simp: bit_simps r dest: b)
qed

end
