(* ===== verification/I8042.thy ===== *)
theory I8042
  imports Drivers Keyboard
begin

text \<open>
  The PS/2 controller, \<open>source/hw/i8042.c\<close>: the poll that hands keys and mouse packets to the device files, and
  the initialization with its self test, port tests and device resets. \<open>timeout\<close> counters are words, as the
  counter of the first wait after a reset is used up by the second.
\<close>

unbundle bit_operations_syntax

section \<open>State\<close>

abbreviation (input) I8042_INDEXPORT :: u16 where "I8042_INDEXPORT \<equiv> 0x64"
abbreviation (input) I8042_DATAPORT :: u16 where "I8042_DATAPORT \<equiv> 0x60"
abbreviation (input) STS_OUTPUTFULL :: nat where "STS_OUTPUTFULL \<equiv> 0"
abbreviation (input) STS_INPUTFULL :: nat where "STS_INPUTFULL \<equiv> 1"
abbreviation (input) STS_2NDOUTFULL :: nat where "STS_2NDOUTFULL \<equiv> 5"

record kbc = dbus +
  i8042_InitLock :: bool
  i8042_1stPortSupport :: bool
  i8042_2ndPortSupport :: bool

definition i8042_PortErrorLog :: "string list" where
  "i8042_PortErrorLog =
     [''Test passed somehow'', ''Clock line stuck low'', ''Clock line stuck high'', ''Data line stuck low'',
      ''Data line stuck high'']"

text \<open>\<open>port_inb(I8042_INDEXPORT) & bit\<close>\<close>

definition status :: "nat \<Rightarrow> 'a kbc_scheme \<Rightarrow> bool \<times> 'a kbc_scheme" where
  "status n s = (let (v, s1) = inb I8042_INDEXPORT s in (bit v n, s1))"

section \<open>The poll\<close>

text \<open>\<open>while (!(status & full) && --timeout) { delay(1); }\<close>. The poll runs as part of a process, so \<open>delay\<close> may let \<open>others\<close>
  run (\<open>Multitask.in_stream\<close>).\<close>

fun proc_wait :: "('a kbc_scheme \<Rightarrow> 'a kbc_scheme res) \<Rightarrow> nat \<Rightarrow> 'a kbc_scheme \<Rightarrow> 'a kbc_scheme res" where
  "proc_wait others 0 s = Inr s"
| "proc_wait others (Suc t) s =
     (let (full, s1) = status STS_OUTPUTFULL s
      in if full \<or> t = 0 then Inr s1 else bindR (pause others 1 s1) (proc_wait others t))"

text \<open>The loop of \<open>goto rescan\<close>; the answer has the two flags and the code.\<close>

partial_function (option) rescan :: "('a kbc_scheme \<Rightarrow> 'a kbc_scheme res) \<Rightarrow> bool \<Rightarrow> bool \<Rightarrow> 'a kbc_scheme \<Rightarrow> (bool \<times> bool \<times> u8 \<times> 'a kbc_scheme) res option" where
  "rescan others extflag relflag s =
     (case pause others 1 s of
        Inl e \<Rightarrow> Some (Inl e)
      | Inr s1 \<Rightarrow>
          (let (code, s2) = inb I8042_DATAPORT s1
           in if code = 0xE0 then rescan others True relflag s2
              else if code = 0xF0 then rescan others extflag True s2
              else Some (Inr (extflag, relflag, code, s2))))"

definition proc_key :: "('a kbc_scheme \<Rightarrow> 'a kbc_scheme res) \<Rightarrow> addr \<Rightarrow> 'a kbc_scheme \<Rightarrow> 'a kbc_scheme res" where
  "proc_key others buf s =
     (case rescan others False False s of
        None \<Rightarrow> Inl Diverges
      | Some r \<Rightarrow> bindR r
          (\<lambda>(extflag, relflag, code, s1).
             let key = (if extflag then i8042_ExtKeyTable code else i8042_KeyTable code)
             in if key = KEY ''KEY_UNKNOWN'' then Inr s1
                else key_send buf (if relflag then key OR KEY_RELEASE else key) s1))"

definition proc_mouse :: "('a kbc_scheme \<Rightarrow> 'a kbc_scheme res) \<Rightarrow> addr \<Rightarrow> 'a kbc_scheme \<Rightarrow> 'a kbc_scheme res" where
  "proc_mouse others buf s =
     (let (st, s1) = inb I8042_DATAPORT s
      in bindR (proc_wait others 5 s1) (\<lambda>s2.
         let (full, s3) = status STS_OUTPUTFULL s2
         in if \<not> full then Inr s3
            else let (x, s4) = inb I8042_DATAPORT s3
                 in bindR (proc_wait others 5 s4) (\<lambda>s5.
                    let (full, s6) = status STS_OUTPUTFULL s5
                    in if \<not> full then Inr s6
                       else let (y, s7) = inb I8042_DATAPORT s6
                            in if bit st 3 \<and> drop_bit 6 st AND 3 = 0 then mouse_send buf st x y s7 else Inr s7)))"

definition i8042_proc :: "('a kbc_scheme \<Rightarrow> 'a kbc_scheme res) \<Rightarrow> addr \<Rightarrow> 'a kbc_scheme \<Rightarrow> 'a kbc_scheme res" where
  "i8042_proc others buf s =
     (if \<not> i8042_InitLock s then Inr s
      else let (full, s1) = status STS_OUTPUTFULL s
           in if \<not> full then Inr s1
              else let (second, s2) = status STS_2NDOUTFULL s1
                   in if second then proc_mouse others buf s2 else proc_key others buf s2)"

section \<open>The initialization\<close>

text \<open>\<open>while (bit n of the status is not as wanted && --timeout);\<close>\<close>

function wait_until :: "nat \<Rightarrow> bool \<Rightarrow> u32 \<Rightarrow> 'a kbc_scheme \<Rightarrow> u32 \<times> 'a kbc_scheme" where
  "wait_until n want timeout s =
     (let (b, s1) = status n s
      in if b = want then (timeout, s1)
         else if timeout - 1 = 0 then (0, s1) else wait_until n want (timeout - 1) s1)"
  by pat_completeness auto

text \<open>\<open>Some\<close> value returned; \<open>None\<close> when the end of the function is reached, where no value is returned.\<close>

type_synonym 'a init_res = "(int option \<times> 'a kbc_scheme) res"

definition i8042_fail :: "string \<Rightarrow> 'a kbc_scheme \<Rightarrow> 'a init_res" where
  "i8042_fail msg s = bindR (ERR ''i8042_init'' msg [] s) (\<lambda>s1. Inr (Some (-1), s1))"

text \<open>A wait followed by the test that returns -1; \<open>k\<close> is the code behind it.\<close>

definition await :: "nat \<Rightarrow> bool \<Rightarrow> string \<Rightarrow> ('a kbc_scheme \<Rightarrow> 'a init_res) \<Rightarrow> 'a kbc_scheme \<Rightarrow> 'a init_res" where
  "await n want msg k s =
     (let (t, s1) = wait_until n want 100000 s; (b, s2) = status n s1
      in if b = want then k s2 else i8042_fail msg s2)"

definition set_support :: "bool \<Rightarrow> bool \<Rightarrow> 'a kbc_scheme \<Rightarrow> 'a kbc_scheme" where
  "set_support second v s = (if second then s\<lparr>i8042_2ndPortSupport := v\<rparr> else s\<lparr>i8042_1stPortSupport := v\<rparr>)"

definition device_name :: "bool \<Rightarrow> string" where
  "device_name second = (if second then ''PS/2 pointing device'' else ''PS/2 keyboard'')"

text \<open>The interface test of one port.\<close>

definition port_test :: "bool \<Rightarrow> ('a kbc_scheme \<Rightarrow> 'a init_res) \<Rightarrow> 'a kbc_scheme \<Rightarrow> 'a init_res" where
  "port_test second k s =
     await STS_OUTPUTFULL True
       (if second then ''PS/2 controller initialization timed out (stage 5)'' else ''PS/2 controller initialization timed out (stage 4)'')
       (\<lambda>s1. let (result, s2) = inb I8042_DATAPORT s1
              in if result = 0 then k s2
                 else bindR
                   (if result > 4
                    then checkR (unat result < length i8042_PortErrorLog) OutOfBounds
                      (WARN ''i8042_init'' (device_name second @ '' test failed: %s'') [S (cstr (i8042_PortErrorLog ! unat result))] s2)
                    else WARN ''i8042_init'' (device_name second @ '' test failed: Unknown error'') [] s2)
                   (\<lambda>s3. k (set_support second False s3)))
       (outb I8042_INDEXPORT (if second then 0xA9 else 0xAB) s)"

text \<open>The reset of one device. The second wait goes on with what the first left of the counter.\<close>

definition not_connected :: "bool \<Rightarrow> ('a kbc_scheme \<Rightarrow> 'a init_res) \<Rightarrow> 'a kbc_scheme \<Rightarrow> 'a init_res" where
  "not_connected second k s =
     bindR (WARN ''i8042_init'' (device_name second @ '' not connected'') [] s) (\<lambda>s1. k (set_support second False s1))"

definition reset_result :: "bool \<Rightarrow> ('a kbc_scheme \<Rightarrow> 'a init_res) \<Rightarrow> 'a kbc_scheme \<Rightarrow> 'a init_res" where
  "reset_result second k s =
     (let (result, s1) = inb I8042_DATAPORT s
      in if result = 0xFC
         then bindR (WARN ''i8042_init'' (device_name second @ '' reset failed'') [] s1) (\<lambda>s2. k (set_support second False s2))
         else if result \<noteq> 0xAA
         then bindR (WARN ''i8042_init'' (device_name second @ '' reset response invalid. Ignoring ''
                @ (if second then ''pointing device'' else ''keyboard'')) [] s1) (\<lambda>s2. k (set_support second False s2))
         else k s1)"

definition device_reset :: "bool \<Rightarrow> ('a kbc_scheme \<Rightarrow> 'a init_res) \<Rightarrow> 'a kbc_scheme \<Rightarrow> 'a init_res" where
  "device_reset second k s =
     await STS_INPUTFULL False
       (if second then ''PS/2 controller initialization timed out (stage 7)'' else ''PS/2 controller initialization timed out (stage 6)'')
       (\<lambda>s1. let (t, s2) = wait_until STS_OUTPUTFULL True 50000000 (outb I8042_DATAPORT 0xFF s1);
                  (full, s3) = status STS_OUTPUTFULL s2
              in if \<not> full then not_connected second k s3
                 else let (ack, s4) = inb I8042_DATAPORT s3;
                          (t1, s5) = wait_until STS_OUTPUTFULL True t s4;
                          (full1, s6) = status STS_OUTPUTFULL s5
                      in if \<not> full1 then not_connected second k s6 else reset_result second k s6)
       (if second then outb I8042_INDEXPORT 0xD4 s else s)"

definition enable_reporting :: "'a kbc_scheme \<Rightarrow> 'a init_res" where
  "enable_reporting s =
     await STS_INPUTFULL False ''PS/2 controller initialization timed out (stage 8)''
       (\<lambda>s1. Inr (None, outb I8042_DATAPORT 0xF4 s1)) (outb I8042_INDEXPORT 0xD4 s)"

definition reset_devices :: "'a kbc_scheme \<Rightarrow> 'a init_res" where
  "reset_devices s =
     (let s1 = outb I8042_INDEXPORT 0xA8 (outb I8042_INDEXPORT 0xAE s);
          second = (\<lambda>s. if i8042_2ndPortSupport s then device_reset True enable_reporting s else Inr (None, s))
      in if i8042_1stPortSupport s1 then device_reset False second s1 else second s1)"

definition test_ports :: "'a kbc_scheme \<Rightarrow> 'a init_res" where
  "test_ports s =
     (let second = (\<lambda>s. if i8042_2ndPortSupport s then port_test True reset_devices s else reset_devices s)
      in if i8042_1stPortSupport s then port_test False second s else second s)"

definition find_channels :: "u8 \<Rightarrow> 'a kbc_scheme \<Rightarrow> 'a init_res" where
  "find_channels cfg s =
     (let (v, s1) = inb I8042_DATAPORT s
      in bindR (if bit v 5 then bindR (WARN ''i8042_init'' ''PS/2 pointing device not supported'' [] s1)
                    (\<lambda>s2. Inr (s2\<lparr>i8042_2ndPortSupport := False\<rparr>))
                else Inr (s1\<lparr>i8042_2ndPortSupport := True\<rparr>))
           (\<lambda>s3. test_ports (outb I8042_DATAPORT ((cfg AND NOT 0x02) AND NOT 0x20)
              (outb I8042_INDEXPORT 0x60 (outb I8042_INDEXPORT 0xA7 s3)))))"

definition self_test :: "u8 \<Rightarrow> 'a kbc_scheme \<Rightarrow> 'a init_res" where
  "self_test cfg s =
     (let (v, s1) = inb I8042_DATAPORT s
      in if v \<noteq> 0x55 then i8042_fail ''PS/2 self test failed'' s1
         else let cfg1 = ((cfg AND NOT 0x01) AND NOT 0x40) AND NOT 0x10
              in await STS_OUTPUTFULL True ''PS/2 controller initialization timed out (stage 3)'' (find_channels cfg1)
                   (outb I8042_INDEXPORT 0x20 (outb I8042_INDEXPORT 0xA8 (outb I8042_DATAPORT cfg1 (outb I8042_INDEXPORT 0x60 s1)))))"

definition read_config :: "'a kbc_scheme \<Rightarrow> 'a init_res" where
  "read_config s =
     (let (cfg, s1) = inb I8042_DATAPORT s
      in await STS_OUTPUTFULL True ''PS/2 controller initialization timed out (stage 2)'' (self_test cfg)
           (outb I8042_INDEXPORT 0xAA s1))"

definition i8042_absent :: "'a kbc_scheme \<Rightarrow> bool" where
  "i8042_absent s \<longleftrightarrow> support (acpiTable s) \<and> Revision (acpiTable s) > 0 \<and>
     \<not> bit (rd16 (mem s) (fadt (acpiTable s) + offset_of acpi_FADT_t ''BootArchitectureFlags'')) 1"

definition i8042_init :: "'a kbc_scheme \<Rightarrow> 'a init_res" where
  "i8042_init s =
     (if i8042_InitLock s then Inr (Some (-1), s)
      else let s1 = s\<lparr>i8042_InitLock := True\<rparr>
           in if i8042_absent s1
              then bindR (WARN ''i8042_init'' ''PS/2 Controller not supported'' [] s1) (\<lambda>s2. Inr (Some (-1), s2))
              else let s2 = outb I8042_INDEXPORT 0xA7 (outb I8042_INDEXPORT 0xAD (s1\<lparr>i8042_1stPortSupport := True\<rparr>));
                       (_, s3) = inb I8042_DATAPORT s2
                   in await STS_OUTPUTFULL True ''PS/2 controller initialization timed out (stage 1)'' read_config
                        (outb I8042_INDEXPORT 0x20 s3))"

section \<open>The waits end\<close>

lemma unat_minus_1_less:
  assumes "(t :: u32) \<noteq> 1"
  shows "unat (t - 2) < unat (t - 1)"
proof -
  have "t - 2 = (t - 1) - 1" "t - 1 \<noteq> 0" using assms by simp_all
  then show ?thesis by (metis measure_unat)
qed

termination wait_until
  by (relation "measure (\<lambda>(n, want, t, s). unat (t - 1))") (auto intro: unat_minus_1_less)

declare wait_until.simps [simp del]

section \<open>What the initialization touches\<close>

definition kbc_only :: "'a kbc_scheme \<Rightarrow> 'a kbc_scheme \<Rightarrow> bool" where
  "kbc_only s s' \<longleftrightarrow> (\<exists>p k t b c. s' = s\<lparr>pio := p, tsc_pos := k, tty := t, i8042_1stPortSupport := b, i8042_2ndPortSupport := c\<rparr>)"

lemma kbc_onlyI: "io_only s s' \<Longrightarrow> kbc_only s s'"
  unfolding io_only_def kbc_only_def
  by (elim exE conjE, rule_tac x = p in exI, rule_tac x = k in exI, rule_tac x = t in exI,
      rule exI [of _ "i8042_1stPortSupport s"], rule exI [of _ "i8042_2ndPortSupport s"]) simp

lemma kbc_only_trans [trans]: "kbc_only s t \<Longrightarrow> kbc_only t u \<Longrightarrow> kbc_only s u"
  unfolding kbc_only_def by (elim exE) (simp, blast)

lemma kbc_only_io: "kbc_only s t \<Longrightarrow> io_only t u \<Longrightarrow> kbc_only s u"
  using kbc_only_trans kbc_onlyI by blast

lemma kbc_only_support: "kbc_only s (set_support second v s)"
  unfolding kbc_only_def
  by (rule exI [of _ "pio s"], rule exI [of _ "tsc_pos s"], rule exI [of _ "tty s"],
      rule exI [of _ "if second then i8042_1stPortSupport s else v"], rule exI [of _ "if second then v else i8042_2ndPortSupport s"])
    (simp add: set_support_def)

lemma status_io: "status n s = (b, s') \<Longrightarrow> io_only s s'"
  unfolding status_def by (metis (no_types, lifting) io_only_in(1) prod.case_eq_if prod.sel(2) snd_conv Let_def)

lemma inb_io: "inb q s = (v, s') \<Longrightarrow> io_only s s'"
  by (metis io_only_in(1) snd_conv)

lemma wait_until_io: "wait_until n want t s = (t', s') \<Longrightarrow> io_only s s'"
proof (induction n want t s arbitrary: t' s' rule: wait_until.induct)
  case (1 n want t s)
  obtain b s1 where b: "status n s = (b, s1)" by fastforce
  note i = status_io [OF b]
  show ?case
  proof (cases "b \<noteq> want \<and> t - 1 \<noteq> 0")
    case True
    with 1(2) b have "wait_until n want (t - 1) s1 = (t', s')" by (simp add: wait_until.simps [of n want t s])
    with 1(1) [OF b [symmetric] refl] True have "io_only s1 s'" by blast
    then show ?thesis by (rule io_only_trans [OF i])
  next
    case False
    with 1(2) b i show ?thesis by (auto simp: wait_until.simps [of n want t s] split: if_splits)
  qed
qed

text \<open>The outcomes of the initialization from \<open>s0\<close> on.\<close>

definition fine :: "'a kbc_scheme \<Rightarrow> 'a init_res \<Rightarrow> bool" where
  "fine s0 r \<longleftrightarrow> (case r of Inl e \<Rightarrow> e = OutOfBounds | Inr (v, s') \<Rightarrow> (v = None \<or> v = Some (-1)) \<and> kbc_only s0 s')"

abbreviation (input) plain :: "string \<Rightarrow> bool" where "plain msg \<equiv> 37 \<notin> set (cstr msg)"

lemma fine_fail: "kbc_only s0 s \<Longrightarrow> plain msg \<Longrightarrow> fine s0 (i8042_fail msg s)"
  unfolding i8042_fail_def by (rule io_only_error [of msg "''i8042_init''" s]) (auto simp: fine_def intro: kbc_only_io)

lemma fine_warn:
  assumes "kbc_only s0 s" "plain msg" "\<And>s1. kbc_only s0 s1 \<Longrightarrow> fine s0 (k s1)"
  shows "fine s0 (bindR (WARN ''i8042_init'' msg [] s) k)"
  by (rule io_only_message [of msg "''i8042_init''" s]) (use assms in \<open>auto intro: kbc_only_io\<close>)

lemma fine_await:
  assumes "kbc_only s0 s" "plain msg" "\<And>s1. kbc_only s0 s1 \<Longrightarrow> fine s0 (k s1)"
  shows "fine s0 (await n want msg k s)"
proof -
  obtain t s1 where w: "wait_until n want 100000 s = (t, s1)" by fastforce
  obtain b s2 where b: "status n s1 = (b, s2)" by fastforce
  have "kbc_only s0 s2" using assms(1) wait_until_io [OF w] status_io [OF b] by (blast intro: kbc_only_io)
  then show ?thesis using assms(2,3) w b by (simp add: await_def fine_fail)
qed

lemma fine_then: "kbc_only s0 s \<Longrightarrow> (\<And>s1. kbc_only s0 s1 \<Longrightarrow> fine s0 (k s1)) \<Longrightarrow> fine s0 (k (set_support second v s))"
  using kbc_only_trans kbc_only_support by blast

lemma fine_port_test:
  assumes "kbc_only s0 s" "\<And>s1. kbc_only s0 s1 \<Longrightarrow> fine s0 (k s1)"
  shows "fine s0 (port_test second k s)"
  unfolding port_test_def
proof (rule fine_await)
  show "kbc_only s0 (outb I8042_INDEXPORT (if second then 0xA9 else 0xAB) s)" using assms(1) by (blast intro: kbc_only_io)
  show "plain (if second then ''PS/2 controller initialization timed out (stage 5)'' else ''PS/2 controller initialization timed out (stage 4)'')"
    by (cases second) (simp_all add: cstr_def)
next
  fix s1
  assume s1: "kbc_only s0 s1"
  obtain result s2 where r: "inb I8042_DATAPORT s1 = (result, s2)" by fastforce
  have s2: "kbc_only s0 s2" using s1 inb_io [OF r] by (rule kbc_only_io)
  have oob: "\<not> unat result < length i8042_PortErrorLog" if "result > 4"
    using that by (simp add: i8042_PortErrorLog_def word_less_nat_alt)
  have "plain (device_name second @ '' test failed: Unknown error'')" by (cases second) (simp_all add: device_name_def cstr_def)
  then have w: "fine s0 (bindR (WARN ''i8042_init'' (device_name second @ '' test failed: Unknown error'') [] s2) (\<lambda>s3. k (set_support second False s3)))"
    by (rule fine_warn [OF s2]) (rule fine_then [where k = k, OF _ assms(2)])
  show "fine s0 (let (result, s2) = inb I8042_DATAPORT s1
              in if result = 0 then k s2
                 else bindR
                   (if result > 4
                    then checkR (unat result < length i8042_PortErrorLog) OutOfBounds
                      (WARN ''i8042_init'' (device_name second @ '' test failed: %s'') [S (cstr (i8042_PortErrorLog ! unat result))] s2)
                    else WARN ''i8042_init'' (device_name second @ '' test failed: Unknown error'') [] s2)
                   (\<lambda>s3. k (set_support second False s3)))"
    using assms(2) [OF s2] w oob by (simp add: r) (simp add: fine_def)
qed

lemma fine_device_reset:
  assumes "kbc_only s0 s" "\<And>s1. kbc_only s0 s1 \<Longrightarrow> fine s0 (k s1)"
  shows "fine s0 (device_reset second k s)"
proof -
  have nc: "fine s0 (not_connected second k s1)" if "kbc_only s0 s1" for s1
  proof -
    have "plain (device_name second @ '' not connected'')" by (cases second) (simp_all add: device_name_def cstr_def)
    then show ?thesis unfolding not_connected_def by (rule fine_warn [OF that]) (rule fine_then [where k = k, OF _ assms(2)])
  qed
  have rr: "fine s0 (reset_result second k s1)" if "kbc_only s0 s1" for s1
  proof -
    obtain result s2 where r: "inb I8042_DATAPORT s1 = (result, s2)" by fastforce
    have s2: "kbc_only s0 s2" using that inb_io [OF r] by (rule kbc_only_io)
    have p: "plain (device_name second @ '' reset failed'')" "plain (device_name second @ '' reset response invalid. Ignoring ''
                @ (if second then ''pointing device'' else ''keyboard''))"
      by (cases second; simp add: device_name_def cstr_def)+
    have w1: "fine s0 (bindR (WARN ''i8042_init'' (device_name second @ '' reset failed'') [] s2) (\<lambda>s. k (set_support second False s)))"
      by (rule fine_warn [OF s2 p(1)]) (rule fine_then [where k = k, OF _ assms(2)])
    have w2: "fine s0 (bindR (WARN ''i8042_init'' (device_name second @ '' reset response invalid. Ignoring ''
                @ (if second then ''pointing device'' else ''keyboard'')) [] s2) (\<lambda>s. k (set_support second False s)))"
      by (rule fine_warn [OF s2 p(2)]) (rule fine_then [where k = k, OF _ assms(2)])
    consider "result = 0xFC" | "result \<noteq> 0xFC" "result \<noteq> 0xAA" | "result \<noteq> 0xFC" "result = 0xAA" by blast
    then show ?thesis
    proof cases
      case 1
      show ?thesis unfolding reset_result_def r Let_def prod.case using w1 by (simp only: 1 simp_thms if_True)
    next
      case 2
      show ?thesis unfolding reset_result_def r Let_def prod.case using w2 by (simp only: 2 simp_thms if_True if_False)
    next
      case 3
      then show ?thesis using assms(2) [OF s2] by (simp add: reset_result_def r)
    qed
  qed
  show ?thesis unfolding device_reset_def
  proof (rule fine_await)
    show "kbc_only s0 (if second then outb I8042_INDEXPORT 0xD4 s else s)" using assms(1) by (auto intro: kbc_only_io)
    show "plain (if second then ''PS/2 controller initialization timed out (stage 7)'' else ''PS/2 controller initialization timed out (stage 6)'')"
      by (cases second) (simp_all add: cstr_def)
  next
    fix s1
    assume s1: "kbc_only s0 s1"
    have s1': "kbc_only s0 (outb I8042_DATAPORT 0xFF s1)" using s1 by (blast intro: kbc_only_io)
    obtain t s2 where 2: "wait_until STS_OUTPUTFULL True 50000000 (outb I8042_DATAPORT 0xFF s1) = (t, s2)" by fastforce
    obtain full s3 where 3: "status STS_OUTPUTFULL s2 = (full, s3)" by fastforce
    obtain ack s4 where 4: "inb I8042_DATAPORT s3 = (ack, s4)" by fastforce
    obtain t1 s5 where 5: "wait_until STS_OUTPUTFULL True t s4 = (t1, s5)" by fastforce
    obtain full1 s6 where 6: "status STS_OUTPUTFULL s5 = (full1, s6)" by fastforce
    have s3: "kbc_only s0 s3" using s1' wait_until_io [OF 2] status_io [OF 3] by (blast intro: kbc_only_io)
    have s6: "kbc_only s0 s6" using s3 inb_io [OF 4] wait_until_io [OF 5] status_io [OF 6] by (blast intro: kbc_only_io)
    show "fine s0 (let (t, s2) = wait_until STS_OUTPUTFULL True 50000000 (outb I8042_DATAPORT 0xFF s1);
                  (full, s3) = status STS_OUTPUTFULL s2
              in if \<not> full then not_connected second k s3
                 else let (ack, s4) = inb I8042_DATAPORT s3;
                          (t1, s5) = wait_until STS_OUTPUTFULL True t s4;
                          (full1, s6) = status STS_OUTPUTFULL s5
                      in if \<not> full1 then not_connected second k s6 else reset_result second k s6)"
      using nc [OF s3] nc [OF s6] rr [OF s6] by (simp add: 2 3 4 5 6)
  qed
qed

lemma fine_init:
  assumes "\<not> i8042_InitLock s"
  shows "fine (s\<lparr>i8042_InitLock := True\<rparr>) (i8042_init s)"
proof -
  let ?s = "s\<lparr>i8042_InitLock := True\<rparr>"
  note io = kbc_only_io io_only_trans
  have refl: "kbc_only ?s ?s" by (rule kbc_onlyI) simp
  have ret: "fine ?s (Inr (None, t))" if "kbc_only ?s t" for t using that by (simp add: fine_def)
  have en: "fine ?s (enable_reporting t)" if "kbc_only ?s t" for t
    unfolding enable_reporting_def
    by (rule fine_await) (use that in \<open>auto simp: cstr_def intro: ret kbc_only_io\<close>)
  have second: "fine ?s (if i8042_2ndPortSupport t then device_reset True enable_reporting t else Inr (None, t))"
    if "kbc_only ?s t" for t
    using fine_device_reset [OF that en] ret [OF that] by simp
  have rd: "fine ?s (reset_devices t)" if "kbc_only ?s t" for t
  proof -
    let ?t = "outb I8042_INDEXPORT 0xA8 (outb I8042_INDEXPORT 0xAE t)"
    have t: "kbc_only ?s ?t" using that by (blast intro: kbc_only_io)
    show ?thesis unfolding reset_devices_def Let_def using fine_device_reset [OF t second] second [OF t] by simp
  qed
  have sec: "fine ?s (if i8042_2ndPortSupport t then port_test True reset_devices t else reset_devices t)" if "kbc_only ?s t" for t
    using fine_port_test [OF that rd] rd [OF that] by simp
  have tp: "fine ?s (test_ports t)" if "kbc_only ?s t" for t
    unfolding test_ports_def Let_def using fine_port_test [OF that sec] sec [OF that] by simp
  have fc: "fine ?s (find_channels cfg t)" if "kbc_only ?s t" for cfg t
  proof -
    obtain v s1 where r: "inb I8042_DATAPORT t = (v, s1)" by fastforce
    have s1: "kbc_only ?s s1" using that inb_io [OF r] by (rule kbc_only_io)
    let ?k = "\<lambda>s3. test_ports (outb I8042_DATAPORT ((cfg AND NOT 0x02) AND NOT 0x20) (outb I8042_INDEXPORT 0x60 (outb I8042_INDEXPORT 0xA7 s3)))"
    have k: "fine ?s (?k u)" if "kbc_only ?s u" for u
      by (rule tp) (rule kbc_only_io [OF that io_only_trans [OF io_only_trans [OF io_only_in(4) io_only_in(4)] io_only_in(4)]])
    have k': "fine ?s (?k (u\<lparr>i8042_2ndPortSupport := b\<rparr>))" if "kbc_only ?s u" for u b
      using k [OF kbc_only_trans [OF that kbc_only_support [of u True b]]] by (simp add: set_support_def)
    have p: "plain ''PS/2 pointing device not supported''" by (simp add: cstr_def)
    show ?thesis
    proof (cases "bit v 5")
      case True
      have "fine ?s (bindR (WARN ''i8042_init'' ''PS/2 pointing device not supported'' [] s1) (\<lambda>u. ?k (u\<lparr>i8042_2ndPortSupport := False\<rparr>)))"
        by (rule fine_warn [OF s1 p]) (rule k')
      then show ?thesis using True by (simp add: find_channels_def r bindR_assoc)
    next
      case False
      then show ?thesis using k' [OF s1, of True] by (simp add: find_channels_def r)
    qed
  qed
  have st: "fine ?s (self_test cfg t)" if "kbc_only ?s t" for cfg t
  proof -
    obtain v s1 where r: "inb I8042_DATAPORT t = (v, s1)" by fastforce
    have s1: "kbc_only ?s s1" using that inb_io [OF r] by (rule kbc_only_io)
    have p: "plain ''PS/2 self test failed''" "plain ''PS/2 controller initialization timed out (stage 3)''" by (simp_all add: cstr_def)
    have s2: "kbc_only ?s (outb I8042_INDEXPORT 0x20 (outb I8042_INDEXPORT 0xA8 (outb I8042_DATAPORT c (outb I8042_INDEXPORT 0x60 s1))))" for c
      by (rule kbc_only_io [OF s1 io_only_trans [OF io_only_trans [OF io_only_trans [OF io_only_in(4) io_only_in(4)] io_only_in(4)] io_only_in(4)]])
    show ?thesis unfolding self_test_def r Let_def prod.case
      using fine_fail [OF s1 p(1)] fine_await [OF s2 p(2) fc] by simp
  qed
  have rc: "fine ?s (read_config t)" if "kbc_only ?s t" for t
  proof -
    obtain v s1 where r: "inb I8042_DATAPORT t = (v, s1)" by fastforce
    have s1: "kbc_only ?s (outb I8042_INDEXPORT 0xAA s1)" using that inb_io [OF r] by (blast intro: kbc_only_io)
    have p: "plain ''PS/2 controller initialization timed out (stage 2)''" by (simp add: cstr_def)
    show ?thesis unfolding read_config_def r Let_def prod.case by (rule fine_await [OF s1 p st])
  qed
  show ?thesis
  proof (cases "i8042_absent ?s")
    case True
    have "plain ''PS/2 Controller not supported''" by (simp add: cstr_def)
    then have "fine ?s (bindR (WARN ''i8042_init'' ''PS/2 Controller not supported'' [] ?s) (\<lambda>s2. Inr (Some (-1), s2)))"
      by (rule fine_warn [OF refl]) (simp add: fine_def)
    then show ?thesis using assms True by (simp add: i8042_init_def Let_def)
  next
    case False
    obtain v s3 where r: "inb I8042_DATAPORT (outb I8042_INDEXPORT 0xA7 (outb I8042_INDEXPORT 0xAD (?s\<lparr>i8042_1stPortSupport := True\<rparr>))) = (v, s3)"
      by fastforce
    have "kbc_only ?s (?s\<lparr>i8042_1stPortSupport := True\<rparr>)" using kbc_only_support [of ?s False True] by (simp add: set_support_def)
    then have s3: "kbc_only ?s (outb I8042_INDEXPORT 0x20 s3)"
      by (rule kbc_only_io [OF _ io_only_trans [OF io_only_trans [OF io_only_trans [OF io_only_in(4) io_only_in(4)] inb_io [OF r]] io_only_in(4)]])
    have p: "plain ''PS/2 controller initialization timed out (stage 1)''" by (simp add: cstr_def)
    have "i8042_init s = await STS_OUTPUTFULL True ''PS/2 controller initialization timed out (stage 1)'' read_config (outb I8042_INDEXPORT 0x20 s3)"
      using assms False r by (simp add: i8042_init_def Let_def)
    then show ?thesis using fine_await [OF s3 p rc] by simp
  qed
qed

section \<open>A keyboard behind the data port\<close>

definition data_reads :: "port_event list \<Rightarrow> nat" where
  "data_reads log = length (filter (\<lambda>e. e = PIn W8 I8042_DATAPORT) log)"

text \<open>The next reads of the data port answer the bytes of the list.\<close>

definition feeds :: "u8 list \<Rightarrow> 'a kbc_scheme \<Rightarrow> bool" where
  "feeds bs s \<longleftrightarrow> (\<forall>log. data_reads (io_log (pio s)) \<le> data_reads log \<and> data_reads log - data_reads (io_log (pio s)) < length bs \<longrightarrow>
     device (pio s) log W8 I8042_DATAPORT = ucast (bs ! (data_reads log - data_reads (io_log (pio s)))))"

text \<open>The states a poll that began in \<open>s\<close> can be in: it reads ports and the time stamp counter, and lets others run.\<close>

inductive polling :: "('a kbc_scheme \<Rightarrow> 'a kbc_scheme res) \<Rightarrow> 'a kbc_scheme \<Rightarrow> 'a kbc_scheme \<Rightarrow> bool" for others s where
  poll_start: "polling others s s"
| poll_port: "polling others s t \<Longrightarrow> polling others s (snd (inb q t))"
| poll_clock: "polling others s t \<Longrightarrow> polling others s (t\<lparr>tsc_pos := k\<rparr>)"
| poll_turn: "polling others s t \<Longrightarrow> in_stream others t = Inr u \<Longrightarrow> polling others s u"

definition delay_returns :: "('a kbc_scheme \<Rightarrow> 'a kbc_scheme res) \<Rightarrow> 'a kbc_scheme \<Rightarrow> bool" where
  "delay_returns others s \<longleftrightarrow> (\<forall>t. polling others s t \<longrightarrow> (\<exists>u. pause others 1 t = Inr u))"

text \<open>The files, the lock of the descriptors and the bounds of the heap are the same.\<close>

definition files_kept :: "'a kbc_scheme \<Rightarrow> 'a kbc_scheme \<Rightarrow> bool" where
  "files_kept s t \<longleftrightarrow> fs_inv t = fs_inv s \<and> fs_view t = fs_view s \<and> fs_EntryV t = fs_EntryV s \<and> fs_ent t = fs_ent s \<and>
     fs_InitLock t = fs_InitLock s \<and> iocall_Initialized t = iocall_Initialized s \<and> memory_Space t = memory_Space s"

text \<open>The others, while they run, leave the files and the controller alone.\<close>

definition calm :: "'a kbc_scheme \<Rightarrow> 'a kbc_scheme \<Rightarrow> bool" where
  "calm s t \<longleftrightarrow> files_kept s t \<and> device (pio t) = device (pio s) \<and> data_reads (io_log (pio t)) = data_reads (io_log (pio s))"

definition calm_turns :: "('a kbc_scheme \<Rightarrow> 'a kbc_scheme res) \<Rightarrow> 'a kbc_scheme \<Rightarrow> bool" where
  "calm_turns others s \<longleftrightarrow> (\<forall>t u. polling others s t \<longrightarrow> in_stream others t = Inr u \<longrightarrow> calm t u)"

lemma files_kept_trans [trans]: "files_kept s t \<Longrightarrow> files_kept t u \<Longrightarrow> files_kept s u"
  by (simp add: files_kept_def)

lemma files_kept_io: "io_only s s' \<Longrightarrow> files_kept s s'"
proof -
  assume "io_only s s'"
  then obtain p k t where e: "s' = s\<lparr>pio := p, tsc_pos := k, tty := t\<rparr>" unfolding io_only_def by blast
  have m: "live s' = live s" "mm_inv s' = mm_inv s" by (simp_all add: e) (rule live_cong, simp_all, rule mm_inv_cong, simp_all)
  have "fs_inv s' = fs_inv s" by (rule fs_inv_cong) (simp_all add: m, simp_all add: e)
  moreover have "fs_view s' = fs_view s" by (rule fs_view_cong) (simp_all add: e)
  ultimately show ?thesis by (simp add: files_kept_def e)
qed

lemma calm_clock: "calm s (s\<lparr>tsc_pos := k\<rparr>)"
proof -
  have "io_only s (s\<lparr>tsc_pos := k\<rparr>)" unfolding io_only_def by (rule exI [of _ "pio s"], rule exI [of _ k], rule exI [of _ "tty s"]) simp
  then show ?thesis using files_kept_io by (auto simp: calm_def)
qed

lemma calm_trans [trans]: "calm s t \<Longrightarrow> calm t u \<Longrightarrow> calm s u"
  unfolding calm_def using files_kept_trans by auto

lemma feeds_calm: "feeds bs s \<Longrightarrow> calm s t \<Longrightarrow> feeds bs t"
  by (simp add: feeds_def calm_def)

text \<open>A delay in the poll.\<close>

lemma pause_poll:
  assumes "calm_turns others s" "delay_returns others s" "polling others s t"
  shows "\<exists>u. pause others 1 t = Inr u \<and> polling others s u \<and> calm t u"
proof -
  obtain u where u: "pause others 1 t = Inr u" using assms(2,3) unfolding delay_returns_def by blast
  have refl: "calm t t" using calm_clock [of t "tsc_pos t"] by simp
  have "polling others s u \<and> calm t u"
    by (rule pause_keeps [where P = "\<lambda>v. polling others s v \<and> calm t v", OF _ _ u])
      (use assms(1,3) refl in \<open>auto simp: calm_turns_def intro: poll_clock poll_turn calm_trans calm_clock\<close>)
  with u show ?thesis by blast
qed

text \<open>Outside the process stream nobody else runs.\<close>

lemma polling_alone:
  assumes "\<not> multitask_InStream s" "polling others s t"
  shows "io_only s t"
  using assms(2)
proof induction
  case (poll_port t q)
  from io_only_trans [OF poll_port.IH io_only_in(1)] show ?case .
next
  case (poll_clock t k)
  have "io_only t (t\<lparr>tsc_pos := k\<rparr>)" unfolding io_only_def
    by (rule exI [of _ "pio t"], rule exI [of _ k], rule exI [of _ "tty t"]) simp
  with poll_clock.IH show ?case by (rule io_only_trans)
next
  case (poll_turn t u)
  have "\<not> multitask_InStream t" using assms(1) io_only_stream [OF poll_turn.IH] by simp
  with poll_turn show ?case by simp
qed simp

lemma alone_calm: "\<not> multitask_InStream s \<Longrightarrow> calm_turns others s"
  unfolding calm_turns_def
proof (intro allI impI)
  fix t u assume s: "\<not> multitask_InStream s" "polling others s t" "in_stream others t = Inr u"
  have "\<not> multitask_InStream t" using s(1) io_only_stream [OF polling_alone [OF s(1,2)]] by simp
  then show "calm t u" using s(3) calm_clock [of t "tsc_pos t"] by simp
qed

lemma alone_delay: "\<not> multitask_InStream s \<Longrightarrow> has_tsc (kernel_CPUInfo s) = 0 \<Longrightarrow> delay_returns others s"
proof -
  assume s: "\<not> multitask_InStream s" "has_tsc (kernel_CPUInfo s) = 0"
  have "has_tsc (kernel_CPUInfo t) = 0" if "polling others s t" for t
    using polling_alone [OF s(1) that] s(2) by (auto simp: io_only_def)
  then show ?thesis by (simp add: delay_returns_def pause_def delay_def)
qed

lemma ucast_u8_u32: "ucast (ucast b :: u32) = (b :: u8)"
  by (rule bit_word_eqI) (auto simp: bit_simps)

lemma feeds_read:
  assumes "feeds (b # bs) s"
  shows "\<exists>s'. inb I8042_DATAPORT s = (b, s') \<and> feeds bs s' \<and> io_only s s'"
proof -
  let ?n = "data_reads (io_log (pio s))"
  have a: "device (pio s) log W8 I8042_DATAPORT = ucast ((b # bs) ! (data_reads log - ?n))"
    if "?n \<le> data_reads log" "data_reads log - ?n < length (b # bs)" for log
    using assms that unfolding feeds_def by blast
  define s' where "s' = s\<lparr>pio := (pio s)\<lparr>io_log := io_log (pio s) @ [PIn W8 I8042_DATAPORT]\<rparr>\<rparr>"
  have r: "inb I8042_DATAPORT s = (b, s')" using a [of "io_log (pio s)"] by (simp add: inb_def port_inb_eq s'_def ucast_u8_u32)
  have "data_reads (io_log (pio s')) = Suc ?n" by (simp add: data_reads_def s'_def)
  then have "feeds bs s'" unfolding feeds_def
    by (auto simp: s'_def a nth_Cons' Suc_diff_le)
  then show ?thesis using r inb_io [OF r] by blast
qed

lemma rescan_sequence:
  assumes "set ps \<subseteq> {0xE0, 0xF0}" "c \<notin> {0xE0, 0xF0}" "calm_turns others s0" "delay_returns others s0" "feeds (ps @ [c]) s" "polling others s0 s"
  shows "\<exists>s'. rescan others e r s = Some (Inr (e \<or> 0xE0 \<in> set ps, r \<or> 0xF0 \<in> set ps, c, s')) \<and> files_kept s s'"
  using assms(1,5,6)
proof (induction ps arbitrary: e r s)
  have step: "\<exists>s1 s2. pause others 1 s = Inr s1 \<and> inb I8042_DATAPORT s1 = (b, s2) \<and> feeds bs s2 \<and> polling others s0 s2 \<and> files_kept s s2"
    if f: "feeds (b # bs) s" "polling others s0 s" for b bs and s :: "'a kbc_scheme"
  proof -
    obtain s1 where s1: "pause others 1 s = Inr s1" "polling others s0 s1" "calm s s1"
      using pause_poll [OF assms(3,4) f(2)] by blast
    obtain s2 where s2: "inb I8042_DATAPORT s1 = (b, s2)" "feeds bs s2" "io_only s1 s2"
      using feeds_read [OF feeds_calm [OF f(1) s1(3)]] by blast
    have "polling others s0 s2" using poll_port [OF s1(2), of I8042_DATAPORT] s2(1) by simp
    moreover have "files_kept s s2" using s1(3) files_kept_io [OF s2(3)] unfolding calm_def by (blast intro: files_kept_trans)
    ultimately show ?thesis using s1(1) s2(1,2) by blast
  qed
  {
    case Nil
    from Nil(2) have f: "feeds (c # []) s" by simp
    from step [OF f Nil(3)] assms(2) show ?case by (auto simp: rescan.simps [of others e r s])
  next
    case (Cons b ps)
    from Cons.prems(2) have f: "feeds (b # (ps @ [c])) s" by simp
    from step [OF f Cons.prems(3)] obtain s1 s2 where s2: "pause others 1 s = Inr s1" "inb I8042_DATAPORT s1 = (b, s2)"
      "feeds (ps @ [c]) s2" "polling others s0 s2" "files_kept s s2" by blast
    have ps: "set ps \<subseteq> {0xE0, 0xF0}" and b: "b = 0xE0 \<or> b = 0xF0" using Cons.prems(1) by auto
    from b show ?case
    proof
      assume b: "b = 0xE0"
      from Cons.IH [OF ps s2(3,4), of True r] b s2 show ?thesis
        by (auto simp: rescan.simps [of others e r s] intro: files_kept_trans)
    next
      assume b: "b = 0xF0"
      from Cons.IH [OF ps s2(3,4), of e True] b s2 show ?thesis
        by (auto simp: rescan.simps [of others e r s] intro: files_kept_trans)
    qed
  }
qed

lemma table_codes: "unat (i8042_ExtKeyTable c) \<le> 101" "unat (i8042_KeyTable c) \<le> 101"
  by (simp_all add: i8042_ExtKeyTable_def i8042_KeyTable_def table_small)

lemma KEY_UNKNOWN: "KEY ''KEY_UNKNOWN'' = 0"
  by (simp add: KEY_def key_enum_def)

section \<open>Properties\<close>

text \<open>The poll turns every scan code sequence of the keyboard, any run of the two prefix bytes and then a code, into
  at most one key event: the table of extended keys decides after \<open>0xE0\<close>, the release bit is set exactly after
  \<open>0xF0\<close> and never disturbs the key code, unknown codes are dropped, and the files are as they were before the
  event is sent.\<close>

theorem scan_codes_translate:
  assumes "i8042_InitLock s" "\<And>log. bit (device (pio s) log W8 0x64) 0 \<and> \<not> bit (device (pio s) log W8 0x64) 5"
    and "set ps \<subseteq> {0xE0, 0xF0}" "c \<notin> {0xE0, 0xF0}" "feeds (ps @ [c]) s" "delay_returns others s" "calm_turns others s"
  shows "\<exists>s'. files_kept s s' \<and>
    (let key = (if 0xE0 \<in> set ps then i8042_ExtKeyTable c else i8042_KeyTable c);
         event = (if 0xF0 \<in> set ps then key OR KEY_RELEASE else key)
     in i8042_proc others buf s = (if key = 0 then Inr s' else key_send buf event s') \<and>
        event AND KEY_CODE = key \<and> (bit event 7 \<longleftrightarrow> 0xF0 \<in> set ps))"
proof -
  have st: "\<exists>s1. status n t = (bit (device (pio t) (io_log (pio t)) W8 0x64) n, s1) \<and> io_only t s1 \<and>
      device (pio s1) = device (pio t) \<and> (feeds bs t \<longrightarrow> feeds bs s1) \<and> (polling others s t \<longrightarrow> polling others s s1)"
    if "n < 8" for n bs and t :: "'a kbc_scheme"
  proof -
    define s1 where "s1 = t\<lparr>pio := (pio t)\<lparr>io_log := io_log (pio t) @ [PIn W8 0x64]\<rparr>\<rparr>"
    have i: "snd (inb 0x64 t) = s1" by (simp add: inb_def port_inb_eq s1_def)
    have r: "status n t = (bit (device (pio t) (io_log (pio t)) W8 0x64) n, s1)"
      using that by (simp add: status_def inb_def port_inb_eq s1_def bit_ucast_iff)
    have "data_reads (io_log (pio s1)) = data_reads (io_log (pio t))" by (simp add: data_reads_def s1_def)
    then have "feeds bs t \<longrightarrow> feeds bs s1" by (simp add: feeds_def s1_def)
    then show ?thesis using r status_io [OF r] poll_port [of others s t "0x64"] by (auto simp: i s1_def)
  qed
  obtain s1 where s1: "status 0 s = (True, s1)" "io_only s s1" "device (pio s1) = device (pio s)" "feeds (ps @ [c]) s1" "polling others s s1"
    using st [of 0 s "ps @ [c]"] assms(2,5) poll_start by auto
  obtain s2 where s2: "status 5 s1 = (False, s2)" "io_only s1 s2" "feeds (ps @ [c]) s2" "polling others s s2"
    using st [of 5 s1 "ps @ [c]"] assms(2) s1(3-5) by auto
  obtain s3 where s3: "rescan others False False s2 = Some (Inr (0xE0 \<in> set ps, 0xF0 \<in> set ps, c, s3))" "files_kept s2 s3"
    using rescan_sequence [OF assms(3,4,7,6) s2(3,4), of False False] by auto
  define key where "key = (if 0xE0 \<in> set ps then i8042_ExtKeyTable c else i8042_KeyTable c)"
  have k: "unat key \<le> 101" using table_codes by (simp add: key_def)
  have p: "i8042_proc others buf s = (if key = 0 then Inr s3 else key_send buf (if 0xF0 \<in> set ps then key OR KEY_RELEASE else key) s3)"
    using assms(1) s1(1) s2(1) s3(1) by (simp add: i8042_proc_def proc_key_def Let_def KEY_UNKNOWN key_def)
  have "files_kept s s3" using files_kept_trans [OF files_kept_io [OF io_only_trans [OF s1(2) s2(2)]] s3(2)] .
  then show ?thesis unfolding Let_def key_def [symmetric]
    using p release_bit [OF k] by (intro exI [of _ s3]) simp
qed

lemma io_only_device: "io_only s s' \<Longrightarrow> device (pio s') = device (pio s)"
  by (auto simp: io_only_def)

lemma status_value: "n < 8 \<Longrightarrow> fst (status n s) = bit (device (pio s) (io_log (pio s)) W8 0x64) n"
  by (simp add: status_def inb_def port_inb_eq bit_ucast_iff)

text \<open>A controller that never has output.\<close>

lemma i8042_silent:
  assumes "\<not> i8042_InitLock s" and dead: "\<forall>log. \<not> bit (device (pio s) log W8 0x64) 0"
  shows "\<exists>s'. i8042_init s = Inr (Some (-1), s')"
proof -
  let ?s = "s\<lparr>i8042_InitLock := True\<rparr>"
  have aw: "\<exists>s'. await 0 True msg k t = Inr (Some (-1), s')" if "device (pio t) = device (pio s)" "plain msg" for t msg k
  proof -
    obtain c t1 where w: "wait_until 0 True 100000 t = (c, t1)" by fastforce
    obtain b t2 where b: "status 0 t1 = (b, t2)" by fastforce
    have "device (pio t1) = device (pio s)" using io_only_device [OF wait_until_io [OF w]] that(1) by simp
    then have "\<not> b" using status_value [of 0 t1] dead b by simp
    moreover have "\<exists>s'. i8042_fail msg t2 = Inr (Some (-1), s')"
      unfolding i8042_fail_def by (rule io_only_error [OF that(2), of "''i8042_init''" t2]) auto
    ultimately show ?thesis using w b by (simp add: await_def)
  qed
  show "\<exists>s'. i8042_init s = Inr (Some (-1), s')"
  proof (cases "i8042_absent ?s")
    case True
    have "plain ''PS/2 Controller not supported''" by (simp add: cstr_def)
    then obtain s2 where "WARN ''i8042_init'' ''PS/2 Controller not supported'' [] ?s = Inr s2" by (rule io_only_message)
    then show ?thesis using assms(1) True by (simp add: i8042_init_def)
  next
    case False
    obtain v s3 where r: "inb 0x60 (outb 0x64 0xA7 (outb 0x64 0xAD (?s\<lparr>i8042_1stPortSupport := True\<rparr>))) = (v, s3)"
      by fastforce
    have "device (pio (outb 0x64 0x20 s3)) = device (pio s)"
      using io_only_device [OF inb_io [OF r]] by (simp add: outb_def)
    moreover have "plain ''PS/2 controller initialization timed out (stage 1)''" by (simp add: cstr_def)
    ultimately show ?thesis using aw assms(1) False r by (simp add: i8042_init_def)
  qed
qed

text \<open>C31.
  The initialization always ends, whatever the controller answers: with -1, without a value at the end of the
  function, or with the read outside the error log. It only uses the ports, the clock and the console and
  sets its own flags, it runs at most once, and a controller that never has output makes it return -1.\<close>

theorem i8042_init_outcomes:
  assumes "\<not> i8042_InitLock s"
  shows "(case i8042_init s of
       Inl e \<Rightarrow> e = OutOfBounds
     | Inr (v, s') \<Rightarrow> (v = None \<or> v = Some (-1)) \<and> kbc_only (s\<lparr>i8042_InitLock := True\<rparr>) s' \<and> i8042_init s' = Inr (Some (-1), s')) \<and>
    ((\<forall>log. \<not> bit (device (pio s) log W8 0x64) 0) \<longrightarrow> (\<exists>s'. i8042_init s = Inr (Some (-1), s')))"
proof (rule conjI)
  let ?s = "s\<lparr>i8042_InitLock := True\<rparr>"
  have "i8042_InitLock s'" if "kbc_only ?s s'" for s' using that by (auto simp: kbc_only_def)
  then show "case i8042_init s of Inl e \<Rightarrow> e = OutOfBounds
     | Inr (v, s') \<Rightarrow> (v = None \<or> v = Some (-1)) \<and> kbc_only ?s s' \<and> i8042_init s' = Inr (Some (-1), s')"
    using fine_init [OF assms] by (auto simp: fine_def i8042_init_def split: sum.splits)
  show "(\<forall>log. \<not> bit (device (pio s) log W8 0x64) 0) \<longrightarrow> (\<exists>s'. i8042_init s = Inr (Some (-1), s'))"
    using i8042_silent [OF assms] by blast
qed

text \<open>A test result above 4 is used as an index into the five error messages; the results 1 to 4 print none of them.\<close>

lemma port_test_overrun:
  assumes "\<And>log. bit (device (pio s) log W8 0x64) 0" "\<And>log. (ucast (device (pio s) log W8 0x60) :: u8) > 4"
  shows "port_test second k s = Inl OutOfBounds"
proof -
  let ?t = "outb 0x64 (if second then 0xA9 else 0xAB) s"
  have d: "device (pio ?t) = device (pio s)" by (simp add: outb_def)
  obtain c t1 where w: "wait_until 0 True 100000 ?t = (c, t1)" by fastforce
  obtain b t2 where b: "status 0 t1 = (b, t2)" by fastforce
  have d2: "device (pio t2) = device (pio s)" "device (pio t1) = device (pio s)"
    using io_only_device [OF wait_until_io [OF w]] io_only_device [OF status_io [OF b]] d by simp_all
  have "b" using status_value [of 0 t1] assms(1) b d2(2) by simp
  obtain r t3 where r: "inb 0x60 t2 = (r, t3)" by fastforce
  have "r > 4" using assms(2) [of "io_log (pio t2)"] r d2(1) by (simp add: inb_def port_inb_eq)
  moreover from this have "\<not> unat r < length i8042_PortErrorLog" "r \<noteq> 0"
    by (auto simp: i8042_PortErrorLog_def word_less_nat_alt)
  ultimately show ?thesis using w b \<open>b\<close> r by (simp add: port_test_def await_def)
qed

definition kbc_demo :: "u32 \<Rightarrow> kbc" where
  "kbc_demo st = dbus.extend (dbus_demo\<lparr>pio := \<lparr>device = \<lambda>log w p. if p = 0x64 then st
       else if data_reads log < 3 then ucast ([0xE0, 0xF0, 0x75 :: u8] ! data_reads log) else 0, io_log = []\<rparr>\<rparr>)
     \<lparr>i8042_InitLock = True, i8042_1stPortSupport = False, i8042_2ndPortSupport = False\<rparr>"

lemma kbc_demo_fields:
  "i8042_InitLock (kbc_demo st)" "device (pio (kbc_demo st)) log W8 0x64 = st" "io_log (pio (kbc_demo st)) = []"
  "device (pio (kbc_demo st)) log W8 0x60 = (if data_reads log < 3 then ucast ([0xE0, 0xF0, 0x75 :: u8] ! data_reads log) else 0)"
  "\<not> multitask_InStream (kbc_demo st)" "has_tsc (kernel_CPUInfo (kbc_demo st)) = 0"
  by (simp_all add: kbc_demo_def dbus.defs dbus_demo_def acpi.defs acpi_demo_def hw.defs hw_demo_def sysc.defs sysc_demo_stream)

text \<open>The release of the up arrow.\<close>

theorem scan_codes_translate_witness:
  "\<forall>others. \<exists>s'. i8042_proc others 4096 (kbc_demo 1) = key_send 4096 (KEY ''KEY_ARROWUP'' OR KEY_RELEASE) s'"
proof -
  have k: "i8042_ExtKeyTable 0x75 = KEY ''KEY_ARROWUP''" by (simp add: i8042_ExtKeyTable_def table_of_def ext_key_inits_def)
  have z: "KEY ''KEY_ARROWUP'' \<noteq> 0" by (simp add: KEY_def key_enum_def)
  have f: "feeds ([0xE0, 0xF0] @ [0x75]) (kbc_demo 1)" by (simp add: feeds_def kbc_demo_fields data_reads_def)
  have "\<exists>s'. i8042_proc others 4096 (kbc_demo 1) = key_send 4096 (KEY ''KEY_ARROWUP'' OR KEY_RELEASE) s'" for others
    using scan_codes_translate [of "kbc_demo 1" "[0xE0, 0xF0]" "0x75" others 4096, OF kbc_demo_fields(1) _ _ _ f
        alone_delay [OF kbc_demo_fields(5,6)] alone_calm [OF kbc_demo_fields(5)]]
    by (auto simp: kbc_demo_fields k z Let_def)
  then show ?thesis by blast
qed

theorem i8042_init_outcomes_witness:
  "\<exists>s'. i8042_init ((kbc_demo 0)\<lparr>i8042_InitLock := False\<rparr>) = Inr (Some (-1), s') \<and> i8042_init s' = Inr (Some (-1), s')"
proof -
  let ?s = "(kbc_demo 0)\<lparr>i8042_InitLock := False\<rparr>"
  have "\<not> i8042_InitLock ?s" "\<forall>log. \<not> bit (device (pio ?s) log W8 0x64) 0" by (simp_all add: kbc_demo_fields)
  with i8042_init_outcomes [of ?s] show ?thesis by auto
qed

end
