(* ===== verification/TarFs.thy ===== *)
theory TarFs
  imports CoreFs Layout
begin

text \<open>
  Mounting a \<open>tar\<close> archive, \<open>source/fs/tarfs.c\<close> and \<open>include/fs/tarfs.h\<close>: every member becomes a directory
  or a file of the core file system whose bytes stay in the archive, reached through a slot of the mount
  manager. The operating system module is mounted this way at start-up.
\<close>

section \<open>Archive members in memory\<close>

abbreviation (input) TARFS_TYPE_DIRECTORY :: int where "TARFS_TYPE_DIRECTORY \<equiv> 5"

definition tarfs_Entry_t :: "field list" where
  "tarfs_Entry_t =
     packed [Bytes ''name'' 100, Bytes ''mode'' 8, Bytes ''uid'' 8, Bytes ''gid'' 8, Bytes ''size'' 12, Bytes ''mtime'' 12,
       Bytes ''checksum'' 8, Bytes ''type'' 1, Bytes ''linkname'' 100, Bytes ''magic'' 6, Bytes ''version'' 2,
       Bytes ''uname'' 32, Bytes ''gname'' 32, Bytes ''devmajor'' 8, Bytes ''devminor'' 8, Bytes ''prefix'' 155,
       Bytes ''padding'' 12, Bytes ''data'' 0]"

definition ent_field :: "addr \<Rightarrow> nat \<Rightarrow> string \<Rightarrow> addr" where
  "ent_field base ofs f = wrap32 (base + ofs + offset_of tarfs_Entry_t f)"

text \<open>\<open>!ncompare(base + ofs + 257, "ustar", 5)\<close>.\<close>

definition is_ustar :: "mem \<Rightarrow> addr \<Rightarrow> nat \<Rightarrow> bool" where
  "is_ustar m base ofs \<longleftrightarrow> mread m (wrap32 (base + ofs + 257)) 5 = cstr ''ustar''"

text \<open>The members of the structure as the code reads them: \<open>name\<close> and \<open>type\<close> are read up to the next NUL,
  past the end of the field if there is none in it, \<open>size\<close> by a number of octal digits.\<close>

definition ent_string :: "mem \<Rightarrow> addr \<Rightarrow> cstring" where
  "ent_string m a = str_at m a (2 ^ 32 - a)"

definition ent_name :: "mem \<Rightarrow> addr \<Rightarrow> nat \<Rightarrow> cstring" where
  "ent_name m base ofs = ent_string m (ent_field base ofs ''name'')"

definition ent_type :: "mem \<Rightarrow> addr \<Rightarrow> nat \<Rightarrow> int" where
  "ent_type m base ofs = atoi (ent_string m (ent_field base ofs ''type''))"

definition ent_size :: "nat \<Rightarrow> mem \<Rightarrow> addr \<Rightarrow> nat \<Rightarrow> int" where
  "ent_size digits m base ofs = oct2bin (mread m (ent_field base ofs ''size'') 12) digits"

text \<open>\<open>ofs += (((n + 511) / 512) + 1) * 512\<close> with an \<open>int\<close> on the right.\<close>

definition next_ofs :: "int \<Rightarrow> nat \<Rightarrow> nat" where
  "next_ofs n ofs = nat ((int ofs + swrap32 (swrap32 (swrap32 (n + 511) sdiv 512 + 1) * 512)) mod 2 ^ 32)"

section \<open>Operations\<close>

partial_function (option) list_loop :: "addr \<Rightarrow> nat \<Rightarrow> nat \<Rightarrow> 'a mm_scheme \<Rightarrow> 'a mm_scheme res option" where
  "list_loop base sz ofs s =
     (if is_ustar (mem s) base ofs \<and> ofs < sz then
        case printf (cstr ''%s, %d, %d'' @ [10])
            [S (ent_name (mem s) base ofs), W (of_int (ent_type (mem s) base ofs)), W (of_nat ofs)] s of
          Inl e \<Rightarrow> Some (Inl e)
        | Inr s1 \<Rightarrow> list_loop base sz (next_ofs (ent_size 12 (mem s1) base ofs) ofs) s1
      else Some (Inr s))"

definition tarfs_list :: "addr \<Rightarrow> nat \<Rightarrow> 'a mm_scheme \<Rightarrow> (int \<times> 'a mm_scheme) res option" where
  "tarfs_list base sz s = map_option (\<lambda>r. bindR r (\<lambda>s1. Inr (0, s1))) (list_loop base sz 0 s)"

text \<open>\<open>ERR(...); return -1;\<close> inside the loop; the flag says whether the loop goes on.\<close>

definition tar_fail :: "string \<Rightarrow> cstring \<Rightarrow> 'a fs_scheme \<Rightarrow> (bool \<times> 'a fs_scheme) res" where
  "tar_fail msg arg s = bindR (ERR ''tarfs_mount'' msg [S arg] s) (\<lambda>s1. Inr (False, s1))"

definition mount_dir :: "cstring \<Rightarrow> 'a fs_scheme \<Rightarrow> (bool \<times> 'a fs_scheme) res" where
  "mount_dir pathbuf s =
     bindR (fs_createDir pathbuf s)
       (\<lambda>(sts, s1). if sts \<noteq> 0 then tar_fail ''Unable to mount directory at %s'' pathbuf s1 else Inr (True, s1))"

definition mount_file :: "cstring \<Rightarrow> addr \<Rightarrow> nat \<Rightarrow> 'a fs_scheme \<Rightarrow> (bool \<times> 'a fs_scheme) res" where
  "mount_file pathbuf base ofs s =
     bindR (fs_writeFile pathbuf 0 0 s)
       (\<lambda>(sts, s1). if sts \<noteq> 0 then tar_fail ''Unable to mount file at %s'' pathbuf s1
          else let fent = fs_stat pathbuf s1 in
            if fent = 0 then tar_fail ''File didn't mounted: %s'' pathbuf s1
            else bindR (mountmgr_getSlot (ent_field base ofs ''data'') s1)
              (\<lambda>(slot, s2). if slot = -1 then tar_fail ''Unable to mount data of tar:/%s'' (ent_name (mem s2) base ofs) s2
                 else Inr (True, set_ent fent (\<lambda>e. e\<lparr>ftype := FS_TYPE_MOUNTED, mountslot := slot,
                        fsize := nat (ent_size 11 (mem s2) base ofs mod 2 ^ 32)\<rparr>) s2)))"

text \<open>The path is built in the buffer, whose NUL-terminated content the calls then read.\<close>

definition mount_member :: "cstring \<Rightarrow> addr \<Rightarrow> addr \<Rightarrow> nat \<Rightarrow> 'a fs_scheme \<Rightarrow> (bool \<times> 'a fs_scheme) res" where
  "mount_member path pathbuf base ofs s =
     bindR (snprintf FS_MAX_PATHLEN (cstr ''%s%s'') [S path, S (ent_name (mem s) base ofs)])
       (\<lambda>p. let s1 = s\<lparr>mem := mwrite (mem s) pathbuf (p @ [0])\<rparr> in
          if ent_type (mem s1) base ofs = TARFS_TYPE_DIRECTORY then mount_dir p s1 else mount_file p base ofs s1)"

partial_function (option) mount_loop ::
  "cstring \<Rightarrow> addr \<Rightarrow> addr \<Rightarrow> nat \<Rightarrow> nat \<Rightarrow> 'a fs_scheme \<Rightarrow> (int \<times> 'a fs_scheme) res option" where
  "mount_loop path pathbuf base sz ofs s =
     (if is_ustar (mem s) base ofs \<and> ofs < sz then
        case mount_member path pathbuf base ofs s of
          Inl e \<Rightarrow> Some (Inl e)
        | Inr (ok, s1) \<Rightarrow>
            if ok then mount_loop path pathbuf base sz (next_ofs (ent_size 11 (mem s1) base ofs) ofs) s1
            else Some (Inr (-1, s1))
      else Some (Inr (0, s)))"

text \<open>A null path is \<open>None\<close>. The buffer is never freed.\<close>

definition tarfs_mount :: "cstring option \<Rightarrow> addr \<Rightarrow> nat \<Rightarrow> 'a fs_scheme \<Rightarrow> (int \<times> 'a fs_scheme) res option" where
  "tarfs_mount path base sz s =
     (case path of
        None \<Rightarrow> Some (Inr (-1, s))
      | Some p \<Rightarrow>
          let fail = (\<lambda>msg t. Some (bindR (ERR ''tarfs_mount'' msg [] t) (\<lambda>s1. Inr (-1, s1)))) in
          if base = 0 \<or> sz = 0 then Some (Inr (-1, s))
          else if fs_stat p s = 0 then fail ''Mount path not found'' s
          else if \<not> is_ustar (mem s) base 0 then fail ''Unknown archive format'' s
          else case malloc FS_MAX_PATHLEN s of
              Inl e \<Rightarrow> Some (Inl e)
            | Inr (pathbuf, s1) \<Rightarrow>
                if pathbuf = 0 then fail ''Out of memory'' s1 else mount_loop p pathbuf base sz 0 s1)"

section \<open>One member\<close>

text \<open>What the loop needs at every turn.\<close>

definition tar_ready :: "addr \<Rightarrow> 'a fs_scheme \<Rightarrow> bool" where
  "tar_ready buf s \<longleftrightarrow> fs_inv s \<and> mountmgr_InitLock s \<and> fits s MEMORY_BLKSIZE \<and> (\<exists>k\<ge>FS_MAX_PATHLEN. spare s buf k)"

text \<open>The fields that decide where the heap and the tables are.\<close>

definition same_place :: "'a fs_scheme \<Rightarrow> 'a fs_scheme \<Rightarrow> bool" where
  "same_place s s' \<longleftrightarrow> memory_Space s' = memory_Space s \<and> memory_Limit s' = memory_Limit s \<and>
     memory_BlockC s' = memory_BlockC s \<and> mountmgr_InitLock s' = mountmgr_InitLock s \<and> mountmgr_MountT s' = mountmgr_MountT s"

lemma same_place_fields: "fs_fields_only s s' \<Longrightarrow> same_place s s' \<and> mounted s' = mounted s"
  by (auto simp: fs_fields_only_def same_place_def mounted_def fun_eq_iff)

lemma tar_ready_frame [simp]:
  "fs_inv (s\<lparr>tty := t\<rparr>) = fs_inv s"
  "tar_ready buf (s\<lparr>tty := t\<rparr>) = tar_ready buf s" "fs_view (s\<lparr>tty := t\<rparr>) = fs_view s"
  "tar_ready buf (s\<lparr>mountmgr_MountV := v\<rparr>) = tar_ready buf s" "fs_view (s\<lparr>mountmgr_MountV := v\<rparr>) = fs_view s"
proof -
  have l: "live (s\<lparr>tty := t\<rparr>) = live s" "live (s\<lparr>mountmgr_MountV := v\<rparr>) = live s" by (rule live_cong; simp)+
  have m: "mm_inv (s\<lparr>tty := t\<rparr>) = mm_inv s" "mm_inv (s\<lparr>mountmgr_MountV := v\<rparr>) = mm_inv s" by (rule mm_inv_cong; simp)+
  show "fs_view (s\<lparr>tty := t\<rparr>) = fs_view s" "fs_view (s\<lparr>mountmgr_MountV := v\<rparr>) = fs_view s" by (rule fs_view_cong; simp)+
  show i: "fs_inv (s\<lparr>tty := t\<rparr>) = fs_inv s" by (rule fs_inv_cong; simp add: l m)
  have "fs_inv (s\<lparr>mountmgr_MountV := v\<rparr>) = fs_inv s" by (rule fs_inv_cong; simp add: l m)
  with i show "tar_ready buf (s\<lparr>tty := t\<rparr>) = tar_ready buf s" "tar_ready buf (s\<lparr>mountmgr_MountV := v\<rparr>) = tar_ready buf s"
    by (simp_all add: tar_ready_def spare_def fits_def in_use_def l)
qed

lemma tar_ready_step:
  assumes "tar_ready buf s" "fs_inv s'" "same_place s s'" "\<forall>r k. spare s r k \<longrightarrow> spare s' r k"
  shows "tar_ready buf s'"
  using assms by (auto simp: tar_ready_def same_place_def fits_def)

lemma tar_fail_eq:
  assumes "msg \<in> {''Unable to mount directory at %s'', ''Unable to mount file at %s'', ''File didn't mounted: %s'', ''Unable to mount data of tar:/%s''}"
  shows "\<exists>t. tar_fail msg arg s = Inr (False, s\<lparr>tty := t\<rparr>)"
proof -
  have "\<exists>t. ERR ''tarfs_mount'' msg [S arg] s = Inr (s\<lparr>tty := t\<rparr>)"
    using assms unfolding ERR_def
    by (elim insertE emptyE; simp only:; intro printf_message; simp add: cstr_def render.simps(2))
  then show ?thesis by (auto simp: tar_fail_def)
qed

lemma mount_dir_view:
  assumes rdy: "tar_ready buf s" and p: "is_cstr p"
  shows "\<exists>ok s'. mount_dir p s = Inr (ok, s') \<and> tar_ready buf s' \<and> same_place s s' \<and> mem s' = mem s \<and> mounted s' = mounted s \<and>
    (ok \<longrightarrow> fs_view s p = None \<and> (\<exists>e. fs_view s' = (fs_view s)(p \<mapsto> (e, [])) \<and> etype e = FS_TYPE_DIR))"
proof -
  have inv: "fs_inv s" "fits s MEMORY_BLKSIZE" using rdy by (simp_all add: tar_ready_def)
  from createDir_view [OF inv(1) p inv(2)] obtain st s1 where c: "fs_createDir p s = Inr (st, s1)" "fs_inv s1"
    "\<forall>r k. spare s r k \<longrightarrow> spare s1 r k"
    and st: "if st = FS_STS_SUCCESS then create_refusal s p = FS_STS_SUCCESS \<and>
       (\<exists>e. fs_view s1 = (fs_view s)(p \<mapsto> (e, [])) \<and> etype e = FS_TYPE_DIR \<and> name e = p \<and> perm e = 0x1FF)
     else (if create_refusal s p = FS_STS_SUCCESS then st = FS_STS_OUTOFMEMORY else st = create_refusal s p) \<and> s1 = s"
    by blast
  from createDir_frame [OF c(1)] have f: "same_place s s1" "mounted s1 = mounted s" "mem s1 = mem s"
    using same_place_fields by blast+
  have r1: "tar_ready buf s1" by (rule tar_ready_step [OF rdy c(2) f(1) c(3)])
  show ?thesis
  proof (cases "st = FS_STS_SUCCESS")
    case True
    then have "mount_dir p s = Inr (True, s1)" using c(1) by (simp add: mount_dir_def)
    moreover have "fs_view s p = None" if "create_refusal s p = FS_STS_SUCCESS"
      using that by (cases "fs_view s p") (auto simp: create_refusal_def split: if_splits)
    ultimately show ?thesis using st True r1 f by (intro exI [of _ True] exI [of _ s1]) auto
  next
    case False
    obtain t where "tar_fail ''Unable to mount directory at %s'' p s1 = Inr (False, s1\<lparr>tty := t\<rparr>)" using tar_fail_eq by blast
    then have "mount_dir p s = Inr (False, s1\<lparr>tty := t\<rparr>)" using c(1) False by (simp add: mount_dir_def)
    then show ?thesis using r1 f by (intro exI [of _ False] exI [of _ "s1\<lparr>tty := t\<rparr>"]) (simp add: same_place_def)
  qed
qed

text \<open>The entry of a mounted member.\<close>

definition mounted_entry :: "fs_Entry \<Rightarrow> nat \<Rightarrow> nat \<Rightarrow> bool" where
  "mounted_entry e i sz \<longleftrightarrow> etype e = FS_TYPE_FILE \<and> ftype e = FS_TYPE_MOUNTED \<and> mountslot e = int i \<and> fsize e = sz"

lemma mount_file_view:
  assumes rdy: "tar_ready buf s" and p: "is_cstr p" "length p < FS_MAX_PATHLEN"
  shows "\<exists>ok s'. mount_file p base ofs s = Inr (ok, s') \<and> tar_ready buf s' \<and> same_place s s' \<and>
    (fs_view s p = None \<longrightarrow> mem s' = mem s) \<and>
    (ok \<longrightarrow> (\<exists>e i. fs_view s' = (fs_view s)(p \<mapsto> (e, [])) \<and> i < MOUNTMGR_MOUNTLIMIT \<and>
        mounted_entry e i (nat (ent_size 11 (mem s') base ofs mod 2 ^ 32)) \<and>
        mounted s i = None \<and> mounted s' = (mounted s)(i \<mapsto> ent_field base ofs ''data'')))"
proof -
  let ?data = "ent_field base ofs ''data''"
  have inv: "fs_inv s" "fits s (MEMORY_BLKSIZE + 0)" and lock: "mountmgr_InitLock s" using rdy by (simp_all add: tar_ready_def)
  have "buf_ok s 0 0" by (simp add: buf_ok_def)
  from writeFile_view [OF inv(1) p inv(2) this] obtain st s1 where
    w: "fs_writeFile p 0 0 s = Inr (st, s1)" "fs_inv s1" "\<forall>r k. spare s r k \<longrightarrow> spare s1 r k" and
    st: "st = FS_STS_SUCCESS \<Longrightarrow> \<exists>e bs. fs_view s1 = (fs_view s)(p \<mapsto> (e, bs)) \<and> etype e = FS_TYPE_FILE \<and> name e = p"
    by (auto split: if_splits)
  have f: "same_place s s1" "mounted s1 = mounted s" using same_place_fields [OF writeFile_frame [OF w(1)]] by blast+
  have m1: "fs_view s p = None \<longrightarrow> mem s1 = mem s" using writeFile_mem [OF inv(1) p(1) _ w(1)] by blast
  have r1: "tar_ready buf s1" by (rule tar_ready_step [OF rdy w(2) f(1) w(3)])
  show ?thesis
  proof (cases "st = FS_STS_SUCCESS")
    case False
    obtain t where "tar_fail ''Unable to mount file at %s'' p s1 = Inr (False, s1\<lparr>tty := t\<rparr>)" using tar_fail_eq by blast
    then have "mount_file p base ofs s = Inr (False, s1\<lparr>tty := t\<rparr>)" using w(1) False by (simp add: mount_file_def)
    then show ?thesis using r1 f m1 by (intro exI [of _ False] exI [of _ "s1\<lparr>tty := t\<rparr>"]) (simp add: same_place_def)
  next
    case True
    from st [OF True] obtain e0 bs where e0: "fs_view s1 = (fs_view s)(p \<mapsto> (e0, bs))" "etype e0 = FS_TYPE_FILE" "name e0 = p" by blast
    then have "fs_view s1 p = Some (e0, bs)" by simp
    then obtain j where j: "in_use s1 j" "name (ent_at s1 j) = p" "e0 = ent_at s1 j" by (auto simp: fs_view_Some [OF w(2)])
    have stat: "fs_stat p s1 = fs_EntryV s1 j" "fs_stat p s1 \<noteq> 0"
      using fs_stat_in_use [OF w(2) j(1)] j(1,2) by (simp_all add: in_use_def)
    have mf: "mount_file p base ofs s = bindR (mountmgr_getSlot ?data s1)
        (\<lambda>(slot, s2). if slot = -1 then tar_fail ''Unable to mount data of tar:/%s'' (ent_name (mem s2) base ofs) s2
           else Inr (True, set_ent (fs_EntryV s1 j) (\<lambda>e. e\<lparr>ftype := FS_TYPE_MOUNTED, mountslot := slot,
              fsize := nat (ent_size 11 (mem s2) base ofs mod 2 ^ 32)\<rparr>) s2))"
      using w(1) True stat by (simp add: mount_file_def)
    have lock1: "mountmgr_InitLock s1" using r1 by (simp add: tar_ready_def)
    have no_slot: ?thesis if g: "mountmgr_getSlot ?data s1 = Inr (-1, s1\<lparr>tty := t1\<rparr>)" for t1
    proof -
      obtain t where t: "tar_fail ''Unable to mount data of tar:/%s'' (ent_name (mem s1) base ofs) (s1\<lparr>tty := t1\<rparr>) =
          Inr (False, s1\<lparr>tty := t1\<rparr>\<lparr>tty := t\<rparr>)" using tar_fail_eq by blast
      then have "mount_file p base ofs s = Inr (False, s1\<lparr>tty := t\<rparr>)" unfolding mf g by simp
      then show ?thesis using r1 f m1 by (intro exI [of _ False] exI [of _ "s1\<lparr>tty := t\<rparr>"]) (simp add: same_place_def)
    qed
    show ?thesis
    proof (cases "?data = 0")
      case True
      then have "mountmgr_getSlot ?data s1 = Inr (-1, s1\<lparr>tty := tty s1\<rparr>)" by (simp add: mountmgr_getSlot_def)
      then show ?thesis by (rule no_slot)
    next
      case False
      from lock1 False show ?thesis
      proof (cases rule: getSlot_eq)
        case (full t)
        then show ?thesis by (intro no_slot)
      next
        case (free_slot i)
        then have i: "i < MOUNTMGR_MOUNTLIMIT" "mountmgr_MountV s1 i = 0" by (simp_all add: scan_Some_iff)
        define s2 where "s2 = s1\<lparr>mountmgr_MountV := (mountmgr_MountV s1)(i := ?data)\<rparr>"
        let ?f = "\<lambda>e. e\<lparr>ftype := FS_TYPE_MOUNTED, mountslot := int i, fsize := nat (ent_size 11 (mem s2) base ofs mod 2 ^ 32)\<rparr>"
        define s' where "s' = set_ent (fs_EntryV s2 j) ?f s2"
        have mf': "mount_file p base ofs s = Inr (True, s')" unfolding mf free_slot(2) by (simp add: s'_def s2_def)
        have r2: "tar_ready buf s2" using r1 by (simp add: s2_def)
        have j2: "in_use s2 j" "ent_at s2 j = e0" "name (ent_at s2 j) = p" using j by (simp_all add: s2_def in_use_def ent_at_def)
        have own: "\<not> own_bytes (?f (ent_at s2 j))" by (simp add: own_bytes_def)
        have v: "fs_inv s' \<and> fs_view s' = (fs_view s2)(p \<mapsto> (?f e0, []))"
          using header_view [of s2 j ?f] r2 j2 own unfolding s'_def by (simp add: tar_ready_def)
        have "live s' = live s2" by (rule live_cong) (simp_all add: s'_def set_ent_def)
        then have "spare s' = spare s2" by (intro ext) (simp add: spare_def in_use_def s'_def set_ent_def)
        moreover have "same_place s2 s'" "mounted s' = mounted s2" "mem s' = mem s2"
          by (simp_all add: s'_def set_ent_def same_place_def mounted_def fun_eq_iff)
        moreover have "same_place s s2" "mem s2 = mem s1" using f(1) by (simp_all add: s2_def same_place_def)
        moreover have "mounted s1 i = None" "mounted s2 = (mounted s1)(i \<mapsto> ?data)"
          using i False by (auto simp: mounted_def s2_def fun_eq_iff)
        then have "mounted s i = None" "mounted s2 = (mounted s)(i \<mapsto> ?data)" using f(2) by simp_all
        moreover have "fs_view s2 = fs_view s1" by (simp add: s2_def)
        moreover have "mounted_entry (?f e0) i (nat (ent_size 11 (mem s2) base ofs mod 2 ^ 32))"
          using e0(2) by (simp add: mounted_entry_def)
        ultimately have "tar_ready buf s'" "same_place s s'" "mem s' = mem s1" "mounted s i = None"
          "mounted s' = (mounted s)(i \<mapsto> ?data)" "fs_view s' = (fs_view s)(p \<mapsto> (?f e0, []))"
          "mounted_entry (?f e0) i (nat (ent_size 11 (mem s') base ofs mod 2 ^ 32))"
          using v e0(1) tar_ready_step [OF r2, of s'] by (simp_all add: same_place_def)
        then show ?thesis
          using mf' m1 i(1) by (intro exI [of _ True] exI [of _ s'] conjI impI exI [of _ "?f e0"] exI [of _ i]) simp_all
      qed
    qed
  qed
qed

lemma mount_member_view:
  assumes rdy: "tar_ready buf s" and path: "is_cstr path"
    and p: "p = take (FS_MAX_PATHLEN - 1) (path @ ent_name (mem s) base ofs)" and m: "m = mwrite (mem s) buf (p @ [0])"
  shows "\<exists>ok s'. mount_member path buf base ofs s = Inr (ok, s') \<and> tar_ready buf s' \<and> same_place s s' \<and>
    (fs_view s p = None \<longrightarrow> mem s' = m) \<and>
    (ok \<longrightarrow> (if ent_type m base ofs = TARFS_TYPE_DIRECTORY
       then fs_view s p = None \<and> mounted s' = mounted s \<and> (\<exists>e. fs_view s' = (fs_view s)(p \<mapsto> (e, [])) \<and> etype e = FS_TYPE_DIR)
       else \<exists>e i. fs_view s' = (fs_view s)(p \<mapsto> (e, [])) \<and> i < MOUNTMGR_MOUNTLIMIT \<and>
         mounted_entry e i (nat (ent_size 11 (mem s') base ofs mod 2 ^ 32)) \<and>
         mounted s i = None \<and> mounted s' = (mounted s)(i \<mapsto> ent_field base ofs ''data'')))"
proof -
  let ?n = "ent_name (mem s) base ofs" and ?s1 = "s\<lparr>mem := m\<rparr>"
  have "render (cstr ''%s%s'') [S path, S ?n] = Inr (path @ ?n)" by (simp add: cstr_def render.simps(2))
  from snprintf_render [OF this, of FS_MAX_PATHLEN]
  have sn: "snprintf FS_MAX_PATHLEN (cstr ''%s%s'') [S path, S ?n] = Inr p" by (simp add: p)
  have "is_cstr ?n" by (simp add: ent_name_def ent_string_def str_at_cstr)
  then have c: "is_cstr p" "length p < FS_MAX_PATHLEN"
    using path unfolding p is_cstr_def by (auto dest: in_set_takeD)
  from rdy obtain k where k: "spare s buf k" "FS_MAX_PATHLEN \<le> k" "fs_inv s" by (auto simp: tar_ready_def)
  have "length (p @ [0]) \<le> k" using c(2) k(2) by simp
  note bw = buffer_write [OF k(3,1) this, folded m]
  have same: "same_place s ?s1" "mounted ?s1 = mounted s" by (simp_all add: same_place_def mounted_def fun_eq_iff)
  have r1: "tar_ready buf ?s1" by (rule tar_ready_step [OF rdy bw(1) same(1)]) (simp add: bw(3))
  show ?thesis
  proof (cases "ent_type m base ofs = TARFS_TYPE_DIRECTORY")
    case True
    then have mm: "mount_member path buf base ofs s = mount_dir p ?s1" by (simp add: mount_member_def sn m Let_def)
    from mount_dir_view [OF r1 c(1)] obtain ok s' where h: "mount_dir p ?s1 = Inr (ok, s')" "tar_ready buf s'"
      "same_place ?s1 s'" "mem s' = m" "mounted s' = mounted s"
      "ok \<longrightarrow> fs_view s p = None \<and> (\<exists>e. fs_view s' = (fs_view s)(p \<mapsto> (e, [])) \<and> etype e = FS_TYPE_DIR)"
      unfolding bw(2) same(2) by auto
    have "same_place s s'" using h(3) by (simp add: same_place_def)
    with h show ?thesis unfolding mm by (intro exI [of _ ok] exI [of _ s']) (simp add: True)
  next
    case False
    then have mm: "mount_member path buf base ofs s = mount_file p base ofs ?s1" by (simp add: mount_member_def sn m Let_def)
    from mount_file_view [OF r1 c, of base ofs] obtain ok s' where h: "mount_file p base ofs ?s1 = Inr (ok, s')"
      "tar_ready buf s'" "same_place ?s1 s'" "fs_view s p = None \<longrightarrow> mem s' = mem ?s1"
      "ok \<longrightarrow> (\<exists>e i. fs_view s' = (fs_view s)(p \<mapsto> (e, [])) \<and> i < MOUNTMGR_MOUNTLIMIT \<and>
         mounted_entry e i (nat (ent_size 11 (mem s') base ofs mod 2 ^ 32)) \<and>
         mounted s i = None \<and> mounted s' = (mounted s)(i \<mapsto> ent_field base ofs ''data''))"
      unfolding bw(2) same(2) by (elim exE conjE) (rule that; assumption)
    have "same_place s s'" using h(3) by (simp add: same_place_def)
    with h show ?thesis unfolding mm by (intro exI [of _ ok] exI [of _ s']) (simp add: False)
  qed
qed

section \<open>The loop ends\<close>

text \<open>Every member that is mounted takes a slot of the mount table or a new entry.\<close>

definition tar_room :: "'a fs_scheme \<Rightarrow> nat" where
  "tar_room s = (MOUNTMGR_MOUNTLIMIT - card (mt.used s)) + (FS_MAX_ENTCOUNT - card (dom (fs_view s)))"

lemma mount_member_room:
  assumes rdy: "tar_ready buf s" and path: "is_cstr path" and m: "mount_member path buf base ofs s = Inr (True, s')"
  shows "tar_room s' < tar_room s"
proof -
  define p where "p = take (FS_MAX_PATHLEN - 1) (path @ ent_name (mem s) base ofs)"
  from mount_member_view [OF rdy path p_def refl] m obtain e where
    rdy': "tar_ready buf s'" and v: "fs_view s' = (fs_view s)(p \<mapsto> (e, []))" and
    c: "fs_view s p = None \<and> mounted s' = mounted s \<or>
        (\<exists>i<MOUNTMGR_MOUNTLIMIT. mounted s i = None \<and> mounted s' = (mounted s)(i \<mapsto> ent_field base ofs ''data''))"
    by (auto split: if_splits)
  have d: "dom (fs_view s') = insert p (dom (fs_view s))" using v by simp
  have fin: "finite (dom (fs_view s))" "card (dom (fs_view s')) \<le> FS_MAX_ENTCOUNT"
    using view_card [of s] view_card [of s'] rdy rdy' by (simp_all add: tar_ready_def)
  have u: "card (mt.used s') \<le> MOUNTMGR_MOUNTLIMIT" using mt.used_bound [of s'] by simp
  from c show ?thesis
  proof
    assume "fs_view s p = None \<and> mounted s' = mounted s"
    moreover from this have "p \<notin> dom (fs_view s)" by auto
    ultimately have "card (dom (fs_view s')) = Suc (card (dom (fs_view s)))" "mt.used s' = mt.used s"
      using d fin(1) by (auto simp: mt.used_def)
    then show ?thesis using fin(2) by (simp add: tar_room_def)
  next
    assume "\<exists>i<MOUNTMGR_MOUNTLIMIT. mounted s i = None \<and> mounted s' = (mounted s)(i \<mapsto> ent_field base ofs ''data'')"
    then obtain i where i: "i < MOUNTMGR_MOUNTLIMIT" "mounted s i = None"
      "mounted s' = (mounted s)(i \<mapsto> ent_field base ofs ''data'')" by blast
    have "i \<notin> mt.used s" "mt.used s' = insert i (mt.used s)" using i by (auto simp: mt.used_def)
    then have "card (mt.used s') = Suc (card (mt.used s))" using mt.used_finite [of s] by simp
    moreover have "card (dom (fs_view s)) \<le> card (dom (fs_view s'))" using d fin(1) by (simp add: card_insert_le)
    ultimately show ?thesis using u by (simp add: tar_room_def)
  qed
qed

lemma mount_loop_returns:
  "tar_ready buf s \<Longrightarrow> is_cstr path \<Longrightarrow>
   \<exists>r s'. mount_loop path buf base sz ofs s = Some (Inr (r, s')) \<and> tar_ready buf s' \<and> (r = 0 \<or> r = -1)"
proof (induction "tar_room s" arbitrary: s ofs rule: less_induct)
  case less
  show ?case
  proof (cases "is_ustar (mem s) base ofs \<and> ofs < sz")
    case False
    then show ?thesis using less.prems by (subst mount_loop.simps) auto
  next
    case True
    obtain ok s1 where m: "mount_member path buf base ofs s = Inr (ok, s1)" and r1: "tar_ready buf s1"
      using mount_member_view [OF less.prems refl refl] by blast
    show ?thesis
    proof (cases ok)
      case False
      with m True r1 show ?thesis by (subst mount_loop.simps) simp
    next
      case ok: True
      with m have "tar_room s1 < tar_room s" using mount_member_room [OF less.prems] by simp
      from less.hyps [OF this r1 less.prems(2)] m ok True show ?thesis by (subst mount_loop.simps) simp
    qed
  qed
qed

section \<open>A well-formed archive\<close>

text \<open>What a member is bound to: its name in the archive, whether it is a directory, the address of its bytes and
  its size.\<close>

record tar_member =
  mname :: cstring
  mdir :: bool
  mdata :: addr
  msize :: nat

definition member_at :: "mem \<Rightarrow> addr \<Rightarrow> nat \<Rightarrow> tar_member" where
  "member_at m base ofs =
     \<lparr>mname = ent_name m base ofs, mdir = (ent_type m base ofs = TARFS_TYPE_DIRECTORY),
      mdata = ent_field base ofs ''data'', msize = nat (ent_size 11 m base ofs mod 2 ^ 32)\<rparr>"

text \<open>The members of the archive from \<open>ofs\<close> on. All headers, the one that ends the archive included, lie
  below \<open>lim\<close>, and the strings in a header end inside it.\<close>

inductive tar_archive :: "mem \<Rightarrow> addr \<Rightarrow> nat \<Rightarrow> nat \<Rightarrow> nat \<Rightarrow> tar_member list \<Rightarrow> bool" for m base lim sz where
  tar_end: "base + ofs + 512 \<le> lim \<Longrightarrow> \<not> (is_ustar m base ofs \<and> ofs < sz) \<Longrightarrow> tar_archive m base lim sz ofs []"
| tar_entry: "base + ofs + 512 \<le> lim \<Longrightarrow> is_ustar m base ofs \<Longrightarrow> ofs < sz \<Longrightarrow>
     0 \<in> set (mread m (base + ofs) 512) \<Longrightarrow> 0 \<in> set (mread m (base + ofs + 156) 356) \<Longrightarrow>
     tar_archive m base lim sz (next_ofs (ent_size 11 m base ofs) ofs) ms \<Longrightarrow>
     tar_archive m base lim sz ofs (member_at m base ofs # ms)"

lemma tar_offsets: "offset_of tarfs_Entry_t ''name'' = 0" "offset_of tarfs_Entry_t ''type'' = 156"
  "offset_of tarfs_Entry_t ''size'' = 124" "offset_of tarfs_Entry_t ''magic'' = 257" "offset_of tarfs_Entry_t ''data'' = 512"
  by (simp_all add: offset_of_def tarfs_Entry_t_def packed_def align_up_def)

lemma ent_fields:
  assumes "base + ofs + 512 \<le> lim" "lim < 4294967296"
  shows "ent_field base ofs ''name'' = base + ofs" "ent_field base ofs ''type'' = base + ofs + 156"
    "ent_field base ofs ''size'' = base + ofs + 124" "wrap32 (base + ofs + 257) = base + ofs + 257"
  using assms by (simp_all add: ent_field_def tar_offsets)

lemma header_cong:
  assumes lim: "base + ofs + 512 \<le> lim" "lim < 4294967296" and same: "\<And>a. a < lim \<Longrightarrow> m' a = m a"
  shows "is_ustar m' base ofs = is_ustar m base ofs" "ent_size k m' base ofs = ent_size k m base ofs"
    "0 \<in> set (mread m (base + ofs) 512) \<Longrightarrow> ent_name m' base ofs = ent_name m base ofs"
    "0 \<in> set (mread m (base + ofs + 156) 356) \<Longrightarrow> ent_type m' base ofs = ent_type m base ofs"
proof -
  note f = ent_fields [OF lim]
  have rd: "mread m' a n = mread m a n" if "a + n \<le> lim" for a n
    using that by (intro mread_cong same) simp
  show "is_ustar m' base ofs = is_ustar m base ofs" "ent_size k m' base ofs = ent_size k m base ofs"
    using lim by (simp_all add: is_ustar_def ent_size_def f rd)
  show "ent_name m' base ofs = ent_name m base ofs" if "0 \<in> set (mread m (base + ofs) 512)"
    unfolding ent_name_def ent_string_def f(1)
    by (rule str_at_cong [symmetric, OF that]) (use lim rd in simp_all)
  show "ent_type m' base ofs = ent_type m base ofs" if "0 \<in> set (mread m (base + ofs + 156) 356)"
    unfolding ent_type_def ent_string_def f(2)
    by (rule arg_cong [where f = atoi], rule str_at_cong [symmetric, OF that]) (use lim rd in simp_all)
qed

lemma name_length:
  assumes "0 \<in> set (mread m (base + ofs) 512)" "base + ofs + 512 \<le> lim" "lim < 4294967296"
  shows "length (ent_name m base ofs) < 512"
proof -
  have "0 \<in> set (mread m a n) \<Longrightarrow> n \<le> k \<Longrightarrow> length (str_at m a k) < n" for a n k
  proof (induction n arbitrary: a k)
    case (Suc n)
    then obtain k' where "k = Suc k'" "n \<le> k'" by (metis Suc_le_D Suc_le_mono)
    with Suc show ?case by (auto simp: mread_Suc)
  qed simp
  from this [OF assms(1)] show ?thesis using ent_fields(1) [OF assms(2,3)] assms(2,3)
    by (simp add: ent_name_def ent_string_def)
qed

text \<open>The file system binds the path of a member to the member.\<close>

definition bound :: "'a fs_scheme \<Rightarrow> cstring \<Rightarrow> tar_member \<Rightarrow> bool" where
  "bound s path mb \<longleftrightarrow>
     (\<exists>e. fs_view s (path @ mname mb) = Some (e, []) \<and>
        (if mdir mb then etype e = FS_TYPE_DIR
         else \<exists>i<MOUNTMGR_MOUNTLIMIT. mounted_entry e i (msize mb) \<and> mounted s i = Some (mdata mb)))"

lemma bound_mono:
  assumes "bound s path mb" "fs_view s' (path @ mname mb) = fs_view s (path @ mname mb)" "mounted s \<subseteq>\<^sub>m mounted s'"
  shows "bound s' path mb"
proof -
  have "mounted s' i = Some d" if "mounted s i = Some d" for i d
    using assms(3) that by (metis domI map_le_def)
  then show ?thesis using assms(1,2) unfolding bound_def by (auto split: if_splits)
qed

lemma mount_entry_binds:
  assumes rdy: "tar_ready buf s" and path: "is_cstr path" "length path + 512 < FS_MAX_PATHLEN"
    and hdr: "base + ofs + 512 \<le> lim" "0 \<in> set (mread m (base + ofs) 512)" "0 \<in> set (mread m (base + ofs + 156) 356)"
    and lim: "lim < 4294967296" "lim \<le> memory_Space s" and same: "\<And>a. a < lim \<Longrightarrow> mem s a = m a"
    and fresh: "fs_view s (path @ ent_name m base ofs) = None"
    and ok: "mount_member path buf base ofs s = Inr (True, s1)"
  shows "tar_ready buf s1 \<and> same_place s s1 \<and> (\<forall>a<lim. mem s1 a = m a) \<and> mounted s \<subseteq>\<^sub>m mounted s1 \<and>
    bound s1 path (member_at m base ofs) \<and>
    (\<forall>q. q \<noteq> path @ ent_name m base ofs \<longrightarrow> fs_view s1 q = fs_view s q)"
proof -
  define p where "p = path @ ent_name m base ofs"
  define m1 where "m1 = mwrite (mem s) buf (p @ [0])"
  have nm: "ent_name (mem s) base ofs = ent_name m base ofs"
    by (rule header_cong(3) [OF hdr(1) lim(1) same hdr(2)])
  have "length p < FS_MAX_PATHLEN" using name_length [OF hdr(2,1) lim(1)] path(2) by (simp add: p_def)
  then have p: "p = take (FS_MAX_PATHLEN - 1) (path @ ent_name (mem s) base ofs)" by (simp add: nm p_def)
  from rdy obtain k where "live s buf = Some k" "fs_inv s" by (auto simp: tar_ready_def spare_def)
  then have "memory_Space s \<le> buf" using live_bounds(1) [OF fs_invD(1)] by blast
  then have m1: "m1 a = m a" if "a < lim" for a
    using that lim(2) same [OF that] by (simp add: m1_def mwrite_outside)
  have fresh': "fs_view s p = None" using fresh by (simp add: p_def)
  have ty: "ent_type m1 base ofs = ent_type m base ofs" by (rule header_cong(4) [OF hdr(1) lim(1) m1 hdr(3)])
  from mount_member_view [OF rdy path(1) p m1_def] ok fresh' have
    h: "tar_ready buf s1" "same_place s s1" "mem s1 = m1" and
    v: "if ent_type m base ofs = TARFS_TYPE_DIRECTORY
       then mounted s1 = mounted s \<and> (\<exists>e. fs_view s1 = (fs_view s)(p \<mapsto> (e, [])) \<and> etype e = FS_TYPE_DIR)
       else \<exists>e i. fs_view s1 = (fs_view s)(p \<mapsto> (e, [])) \<and> i < MOUNTMGR_MOUNTLIMIT \<and>
         mounted_entry e i (nat (ent_size 11 (mem s1) base ofs mod 2 ^ 32)) \<and>
         mounted s i = None \<and> mounted s1 = (mounted s)(i \<mapsto> ent_field base ofs ''data'')"
    unfolding ty if_bool_eq_conj by auto
  have sz: "ent_size 11 (mem s1) base ofs = ent_size 11 m base ofs"
    unfolding h(3) by (rule header_cong(2) [OF hdr(1) lim(1) m1])
  have "mounted s \<subseteq>\<^sub>m mounted s1 \<and> bound s1 path (member_at m base ofs) \<and> (\<forall>q. q \<noteq> p \<longrightarrow> fs_view s1 q = fs_view s q)"
  proof (cases "ent_type m base ofs = TARFS_TYPE_DIRECTORY")
    case True
    with v obtain e where "mounted s1 = mounted s" "fs_view s1 = (fs_view s)(p \<mapsto> (e, []))" "etype e = FS_TYPE_DIR" by auto
    then show ?thesis using True by (simp add: bound_def member_at_def p_def)
  next
    case False
    with v obtain e i where "fs_view s1 = (fs_view s)(p \<mapsto> (e, []))" "i < MOUNTMGR_MOUNTLIMIT"
      "mounted_entry e i (nat (ent_size 11 m base ofs mod 2 ^ 32))" "mounted s i = None"
      "mounted s1 = (mounted s)(i \<mapsto> ent_field base ofs ''data'')" unfolding sz by auto
    then show ?thesis using False by (auto simp: bound_def member_at_def p_def map_le_def)
  qed
  then show ?thesis using h m1 by (simp add: p_def)
qed

lemma mount_loop_binds:
  assumes arch: "tar_archive m base lim sz ofs ms" and path: "is_cstr path" "length path + 512 < FS_MAX_PATHLEN"
    and lim: "lim < 4294967296"
  shows "tar_ready buf s \<Longrightarrow> lim \<le> memory_Space s \<Longrightarrow> \<forall>a<lim. mem s a = m a \<Longrightarrow> distinct (map mname ms) \<Longrightarrow>
    \<forall>mb\<in>set ms. fs_view s (path @ mname mb) = None \<Longrightarrow> mount_loop path buf base sz ofs s = Some (Inr (0, s')) \<Longrightarrow>
    same_place s s' \<and> mounted s \<subseteq>\<^sub>m mounted s' \<and> (\<forall>mb\<in>set ms. bound s' path mb) \<and>
    (\<forall>q. (\<forall>mb\<in>set ms. q \<noteq> path @ mname mb) \<longrightarrow> fs_view s' q = fs_view s q)"
  using arch
proof (induction arbitrary: s rule: tar_archive.induct)
  case (tar_end ofs)
  have "is_ustar (mem s) base ofs = is_ustar m base ofs"
    by (rule header_cong(1) [OF tar_end.hyps(1) lim]) (use tar_end.prems in simp)
  with tar_end have "s' = s" by (subst (asm) mount_loop.simps) auto
  then show ?case by (simp add: same_place_def)
next
  case (tar_entry ofs ms)
  note same = tar_entry.prems(3) [rule_format]
  have u: "is_ustar (mem s) base ofs" using header_cong(1) [OF tar_entry.hyps(1) lim same] tar_entry.hyps(2) by simp
  obtain ok s1 where mm: "mount_member path buf base ofs s = Inr (ok, s1)"
    using mount_member_view [OF tar_entry.prems(1) path(1) refl refl] by blast
  have loop: "mount_loop path buf base sz ofs s =
      (if ok then mount_loop path buf base sz (next_ofs (ent_size 11 (mem s1) base ofs) ofs) s1 else Some (Inr (-1, s1)))"
    using u tar_entry.hyps(3) mm by (subst mount_loop.simps) simp
  then have ok: ok using tar_entry.prems(6) by (simp split: if_splits)
  have fresh: "fs_view s (path @ ent_name m base ofs) = None"
    using tar_entry.prems(5) by (simp add: member_at_def)
  from mount_entry_binds [OF tar_entry.prems(1) path tar_entry.hyps(1,4,5) lim tar_entry.prems(2) same fresh] mm ok
  have h: "tar_ready buf s1" "same_place s s1" "\<forall>a<lim. mem s1 a = m a" "mounted s \<subseteq>\<^sub>m mounted s1"
    "bound s1 path (member_at m base ofs)" "\<And>q. q \<noteq> path @ ent_name m base ofs \<Longrightarrow> fs_view s1 q = fs_view s q"
    by auto
  have nx: "ent_size 11 (mem s1) base ofs = ent_size 11 m base ofs"
    by (rule header_cong(2) [OF tar_entry.hyps(1) lim]) (use h(3) in simp)
  have other: "path @ mname mb \<noteq> path @ ent_name m base ofs" if "mb \<in> set ms" for mb
    using tar_entry.prems(4) that by (simp add: member_at_def) (metis imageI)
  have rec: "same_place s1 s' \<and> mounted s1 \<subseteq>\<^sub>m mounted s' \<and> (\<forall>mb\<in>set ms. bound s' path mb) \<and>
    (\<forall>q. (\<forall>mb\<in>set ms. q \<noteq> path @ mname mb) \<longrightarrow> fs_view s' q = fs_view s1 q)"
  proof (rule tar_entry.IH)
    show "tar_ready buf s1" "\<forall>a<lim. mem s1 a = m a" by (rule h)+
    show "lim \<le> memory_Space s1" using h(2) tar_entry.prems(2) by (simp add: same_place_def)
    show "distinct (map mname ms)" using tar_entry.prems(4) by simp
    show "\<forall>mb\<in>set ms. fs_view s1 (path @ mname mb) = None" using tar_entry.prems(5) h(6) [OF other] by simp
    show "mount_loop path buf base sz (next_ofs (ent_size 11 m base ofs) ofs) s1 = Some (Inr (0, s'))"
      using tar_entry.prems(6) loop ok nx by simp
  qed
  have "fs_view s' (path @ ent_name m base ofs) = fs_view s1 (path @ ent_name m base ofs)"
    using rec other by metis
  then have "bound s' path (member_at m base ofs)"
    by (intro bound_mono [OF h(5)]) (use rec in \<open>simp_all add: member_at_def\<close>)
  moreover have "fs_view s' q = fs_view s q" if "\<forall>mb\<in>set (member_at m base ofs # ms). q \<noteq> path @ mname mb" for q
    using that rec h(6) [of q] by (simp add: member_at_def)
  ultimately show ?case using rec h(2,4) map_le_trans by (auto simp: same_place_def)
qed

text \<open>A size field that reads as -1024 leads back to the same header; the twelve digits that \<open>tarfs_list\<close> reads
  include the terminator of the field.\<close>

lemma next_ofs_stays: "ofs < 4294967296 \<Longrightarrow> next_ofs (-1024) ofs = ofs"
  by (simp add: next_ofs_def)

lemma size_digits:
  "oct2bin (cstr ''77777776000'') 11 = -1024"
  "oct2bin (cstr ''00000001000'' @ [0]) 11 = 512" "oct2bin (cstr ''00000001000'' @ [0]) 12 = 4048"
  by (simp_all only: cstr_def) code_simp+

section \<open>The whole call\<close>

lemma malloc_spare:
  assumes inv: "fs_inv s" and fit: "fits s n" and m: "malloc n s = Inr (p, s1)" and p: "p \<noteq> 0"
  shows "fs_inv s1 \<and> fs_view s1 = fs_view s \<and> spare s1 p (nblocks n * MEMORY_BLKSIZE) \<and> mem s1 = mem s \<and>
    same_place s s1 \<and> mounted s1 = mounted s"
proof -
  note mm = fs_invD(1) [OF inv]
  note ml = malloc_live [OF mm fit m p]
  obtain V where V: "s1 = s\<lparr>memory_BlockV := V\<rparr>" using malloc_frame [OF m] by blast
  have ne: "fs_EntryV s i \<noteq> p" if "in_use s i" for i
    using in_use_live [OF inv that] ml(1) by (metis option.distinct(1))
  have "fs_inv s1 \<and> fs_view s1 = fs_view s"
    by (rule fs_heap_change [OF inv ml(3)]) (use ml(2) ne in \<open>simp_all add: V\<close>)
  moreover have "spare s1 p (nblocks n * MEMORY_BLKSIZE)" using ml(2) ne by (simp add: spare_def in_use_def V)
  ultimately show ?thesis by (simp add: V same_place_def mounted_def fun_eq_iff)
qed

lemma mount_error:
  assumes "37 \<notin> set (cstr msg)"
  shows "\<exists>t. ERR ''tarfs_mount'' msg [] s = Inr (s\<lparr>tty := t\<rparr>)"
  using messages_print(3) [OF assms] .

text \<open>What \<open>tarfs_mount\<close> does: it refuses without a change other than a message, or it runs the loop on a state
  with the path buffer.\<close>

lemma tarfs_mount_cases:
  assumes inv: "fs_inv s" "mountmgr_InitLock s" "fits s MEMORY_BLKSIZE"
  obtains (refused) t where "tarfs_mount (Some path) base sz s = Some (Inr (-1, s\<lparr>tty := t\<rparr>))"
  | (loop) buf s1 where "tarfs_mount (Some path) base sz s = mount_loop path buf base sz 0 s1" "tar_ready buf s1"
      "fs_view s1 = fs_view s" "mem s1 = mem s" "same_place s s1" "mounted s1 = mounted s"
proof -
  have fit: "fits s FS_MAX_PATHLEN" using inv(3) by (simp add: fits_def)
  obtain buf s1 where m: "malloc FS_MAX_PATHLEN s = Inr (buf, s1)" using malloc_total [OF fs_invD(1) [OF inv(1)] fit] by blast
  have msg: "37 \<notin> set (cstr ''Mount path not found'')" "37 \<notin> set (cstr ''Unknown archive format'')"
    "37 \<notin> set (cstr ''Out of memory'')" by (simp_all add: cstr_def)
  consider "base = 0 \<or> sz = 0" | "\<not> (base = 0 \<or> sz = 0)" "fs_stat path s = 0"
    | "\<not> (base = 0 \<or> sz = 0)" "fs_stat path s \<noteq> 0" "\<not> is_ustar (mem s) base 0"
    | "\<not> (base = 0 \<or> sz = 0)" "fs_stat path s \<noteq> 0" "is_ustar (mem s) base 0" by blast
  then show thesis
  proof cases
    case 1
    then have "tarfs_mount (Some path) base sz s = Some (Inr (-1, s\<lparr>tty := tty s\<rparr>))" by (simp add: tarfs_mount_def)
    then show thesis by (rule refused)
  next
    case 2
    obtain t where "ERR ''tarfs_mount'' ''Mount path not found'' [] s = Inr (s\<lparr>tty := t\<rparr>)" using mount_error [OF msg(1)] by blast
    with 2 show thesis by (intro refused [of t]) (simp add: tarfs_mount_def)
  next
    case 3
    obtain t where "ERR ''tarfs_mount'' ''Unknown archive format'' [] s = Inr (s\<lparr>tty := t\<rparr>)" using mount_error [OF msg(2)] by blast
    with 3 show thesis by (intro refused [of t]) (simp add: tarfs_mount_def)
  next
    case 4
    show thesis
    proof (cases "buf = 0")
      case True
      then have s1: "s1 = s" using malloc_null(1) [OF fs_invD(1) [OF inv(1)] fit] m by simp
      obtain t where "ERR ''tarfs_mount'' ''Out of memory'' [] s = Inr (s\<lparr>tty := t\<rparr>)" using mount_error [OF msg(3)] by blast
      with 4 m True s1 show thesis by (intro refused [of t]) (simp add: tarfs_mount_def)
    next
      case False
      note sp = malloc_spare [OF inv(1) fit m False]
      have "nblocks FS_MAX_PATHLEN * MEMORY_BLKSIZE = MEMORY_BLKSIZE" by (simp add: nblocks_def)
      then have "\<exists>k\<ge>FS_MAX_PATHLEN. spare s1 buf k" using sp by (intro exI [of _ MEMORY_BLKSIZE]) simp
      then have "tar_ready buf s1" using sp inv by (simp add: tar_ready_def same_place_def fits_def)
      with 4 m False sp show thesis by (intro loop [of buf s1]) (simp_all add: tarfs_mount_def)
    qed
  qed
qed

lemma readFile_mounted:
  assumes inv: "fs_inv s" and v: "fs_view s path = Some (e, bs)" and e: "mounted_entry e i n" "i < MOUNTMGR_MOUNTLIMIT"
    and mt: "mountmgr_MountT s \<noteq> 0" "mounted s i = Some d"
  shows "\<exists>s'. fs_readFile path s = Inr (d, s')"
proof -
  from v obtain j where j: "in_use s j" "name (ent_at s j) = path" "e = ent_at s j" by (auto simp: fs_view_Some [OF inv])
  have path: "is_cstr path" using entry_okD(1) [OF fs_invD(3) [OF inv j(1)]] j(2) by simp
  have find: "find_entry s path = Some j" using j find_entry_Some [OF inv path] by simp
  have stat: "fs_stat path s = fs_EntryV s j" using find fs_invD(2) [OF inv] by (simp add: fs_stat_def)
  let ?s = "stamp (fs_EntryV s j) atime_update s"
  have f: "ftype (ent_at ?s j) = ftype e" "mountslot (ent_at ?s j) = mountslot e" "mountmgr_MountT ?s = mountmgr_MountT s"
    "mountmgr_MountV ?s = mountmgr_MountV s" using j(3) by (simp_all add: stamp_eq set_ent_def ent_at_def)
  have "mountmgr_MountV s i = d" using mt(2) by (simp add: mounted_def split: if_splits)
  then have "fs_readFile path s = Inr (d, ?s)"
    using fs_invD(2) [OF inv] find stat e mt(1) j(3) f by (simp add: fs_readFile_def Let_def mounted_entry_def)
  then show ?thesis by blast
qed

text \<open>C32.
  \<open>tarfs_mount\<close> comes back for every memory and every pair of base and size, however damaged the archive is, with 0
  or -1 and the invariant of the file system: a member either fails or takes a slot of the mount table or a
  new entry, so even an archive whose size fields lead back to its own headers is left in the end.\<close>

theorem tarfs_mount_returns:
  assumes "fs_inv s" "mountmgr_InitLock s" "fits s MEMORY_BLKSIZE" "is_cstr path"
  shows "\<exists>r s'. tarfs_mount (Some path) base sz s = Some (Inr (r, s')) \<and> fs_inv s' \<and> (r = 0 \<or> r = -1)"
  using assms(1-3)
proof (cases rule: tarfs_mount_cases [where path = path and base = base and sz = sz])
  case (refused t)
  with refused assms(1) show ?thesis by simp
next
  case (loop buf s1)
  from mount_loop_returns [OF loop(2) assms(4), of base sz 0] show ?thesis by (auto simp: loop(1) tar_ready_def)
qed

text \<open>C33.
  After an archive with distinct new member names has been mounted, every member is bound under the mount path
  and nothing else changes: a directory is a directory, a file is read by \<open>fs_readFile\<close> at the address of its
  bytes in the archive, with the size its header gives.\<close>

theorem tarfs_mount_binds:
  assumes "fs_inv s" "mountmgr_InitLock s" "mountmgr_MountT s \<noteq> 0" "fits s MEMORY_BLKSIZE"
    and "is_cstr path" "length path + 512 < FS_MAX_PATHLEN"
    and "tar_archive (mem s) base lim sz 0 ms" "lim \<le> memory_Space s" "distinct (map mname ms)"
    and "\<forall>mb\<in>set ms. fs_view s (path @ mname mb) = None"
    and "tarfs_mount (Some path) base sz s = Some (Inr (0, s'))"
  shows "(\<forall>mb\<in>set ms. \<exists>e. fs_view s' (path @ mname mb) = Some (e, []) \<and>
       (if mdir mb then etype e = FS_TYPE_DIR
        else fsize e = msize mb \<and> (\<exists>s2. fs_readFile (path @ mname mb) s' = Inr (mdata mb, s2)))) \<and>
     (\<forall>q. (\<forall>mb\<in>set ms. q \<noteq> path @ mname mb) \<longrightarrow> fs_view s' q = fs_view s q)"
  using assms(1,2,4)
proof (cases rule: tarfs_mount_cases [where path = path and base = base and sz = sz])
  case (refused t)
  with assms(11) show ?thesis by simp
next
  case (loop buf s1)
  have lim: "lim < 4294967296" using assms(8) fs_invD(1) [OF assms(1)] unfolding mm_inv_def by linarith
  have run: "mount_loop path buf base sz 0 s1 = Some (Inr (0, s'))" using assms(11) loop(1) by simp
  from mount_loop_binds [OF assms(7,5,6) lim loop(2) _ _ assms(9) _ run] assms(8,10) loop(3-5)
  have b: "same_place s1 s'" "\<forall>mb\<in>set ms. bound s' path mb"
    "\<forall>q. (\<forall>mb\<in>set ms. q \<noteq> path @ mname mb) \<longrightarrow> fs_view s' q = fs_view s q"
    by (simp_all add: same_place_def)
  have inv: "fs_inv s'" using mount_loop_returns [OF loop(2) assms(5), of base sz 0] run by (auto simp: tar_ready_def)
  have mt: "mountmgr_MountT s' \<noteq> 0" using b(1) loop(5) assms(3) by (simp add: same_place_def)
  have "\<exists>e. fs_view s' (path @ mname mb) = Some (e, []) \<and> (if mdir mb then etype e = FS_TYPE_DIR
        else fsize e = msize mb \<and> (\<exists>s2. fs_readFile (path @ mname mb) s' = Inr (mdata mb, s2)))" if "mb \<in> set ms" for mb
    using b(2) that readFile_mounted [OF inv _ _ _ mt] unfolding bound_def by (fastforce simp: mounted_entry_def)
  with b(3) show ?thesis by blast
qed

section \<open>A sample archive\<close>

text \<open>When a new file is mounted: its path is new and acceptable, and there is a free entry, a free block and a free
  slot.\<close>

lemma mount_file_succeeds:
  assumes rdy: "tar_ready buf s" and p: "is_cstr p" "length p < FS_MAX_PATHLEN" "fs_view s p = None"
    and ref: "write_refusal s p = FS_STS_SUCCESS" and slot: "free_slot s = Some k"
    and m: "malloc MEMORY_BLKSIZE s = Inr (a, s0)" "a \<noteq> 0" and mt: "mountmgr_MountV s 0 = 0" "ent_field base ofs ''data'' \<noteq> 0"
  shows "\<exists>s'. mount_file p base ofs s = Inr (True, s')"
proof -
  have inv: "fs_inv s" "fits s (MEMORY_BLKSIZE + 0)" using rdy by (simp_all add: tar_ready_def)
  have "buf_ok s 0 0" by (simp add: buf_ok_def)
  from writeFile_view [OF inv(1) p(1,2) inv(2) this] ref obtain st s1 where
    w: "fs_writeFile p 0 0 s = Inr (st, s1)" "fs_inv s1" "st = FS_STS_SUCCESS \<or> st = FS_STS_OUTOFMEMORY" and
    v: "st = FS_STS_SUCCESS \<Longrightarrow> \<exists>e bs. fs_view s1 p = Some (e, bs)"
    by (auto split: if_splits)
  have "st \<noteq> FS_STS_OUTOFMEMORY"
    using w(1) slot m find_entry_view [OF inv(1) p(1)] p(3)
    by (auto simp: fs_writeFile_def create_file_def copy_name_def bindR_eq_Inr checkR_def split: if_splits)
  then have st: "st = FS_STS_SUCCESS" using w(3) by simp
  then obtain e bs where "fs_view s1 p = Some (e, bs)" using v by blast
  then obtain j where "in_use s1 j" "name (ent_at s1 j) = p" by (auto simp: fs_view_Some [OF w(2)])
  then have stat: "fs_stat p s1 \<noteq> 0" using fs_stat_in_use [OF w(2), of j] by (auto simp: in_use_def)
  have f: "mountmgr_MountV s1 = mountmgr_MountV s" "mountmgr_InitLock s1 = mountmgr_InitLock s"
    using writeFile_frame [OF w(1)] by (auto simp: fs_fields_only_def)
  have "scan (\<lambda>i. mountmgr_MountV s1 i = 0) 0 MOUNTMGR_MOUNTLIMIT = Some 0" by (rule scan_SomeI) (simp_all add: f mt)
  then have "\<exists>s2. mountmgr_getSlot (ent_field base ofs ''data'') s1 = Inr (0, s2)"
    using mt(2) f rdy by (simp add: mountmgr_getSlot_def tar_ready_def)
  then show ?thesis using w(1) st stat by (auto simp: mount_file_def)
qed

lemma mread_mwrite_inside: "a + n \<le> length bs \<Longrightarrow> mread (mwrite m b bs) (b + a) n = take n (drop a bs)"
  by (rule nth_equalityI) (auto simp: mwrite_def)

lemma str_at_takeWhile: "0 \<in> set (mread m a n) \<Longrightarrow> n \<le> k \<Longrightarrow> str_at m a k = takeWhile (\<lambda>c. c \<noteq> 0) (mread m a n)"
proof (induction n arbitrary: a k)
  case (Suc n)
  then obtain k' where "k = Suc k'" "n \<le> k'" by (metis Suc_le_D Suc_le_mono)
  with Suc show ?case by (auto simp: mread_Suc)
qed simp

text \<open>An archive of one file \<open>d\<close> of three bytes, at address 1024.\<close>

definition tar_header :: "u8 list" where
  "tar_header = cstr ''d'' @ replicate 123 0 @ cstr ''00000000003'' @ replicate 21 0 @ cstr ''0'' @ replicate 100 0 @
     cstr ''ustar'' @ replicate 250 0"

definition tar_demo :: fs where
  "tar_demo = fs_demo\<lparr>mem := mwrite (mem fs_demo) 1024 tar_header\<rparr>"

lemma tar_header_at: "a + n \<le> 512 \<Longrightarrow> mread (mem tar_demo) (1024 + a) n = take n (drop a tar_header)"
  using mread_mwrite_inside [of a n tar_header "mem fs_demo" 1024] by (simp add: tar_demo_def tar_header_def cstr_def)

lemma tar_demo_header:
  "is_ustar (mem tar_demo) 1024 0" "ent_name (mem tar_demo) 1024 0 = cstr ''d''" "ent_type (mem tar_demo) 1024 0 = 0"
  "ent_size 11 (mem tar_demo) 1024 0 = 3" "0 \<in> set (mread (mem tar_demo) 1024 512)" "0 \<in> set (mread (mem tar_demo) 1180 356)"
proof -
  have f: "ent_field 1024 0 ''name'' = 1024 + 0" "ent_field 1024 0 ''type'' = 1024 + 156" "ent_field 1024 0 ''size'' = 1024 + 124"
    using ent_fields [of 1024 0 2000] by simp_all
  have u: "mread (mem tar_demo) (1024 + 257) 5 = cstr ''ustar''"
    by (subst tar_header_at) (simp_all add: tar_header_def cstr_def)
  then show "is_ustar (mem tar_demo) 1024 0" by (simp add: is_ustar_def)
  have n: "mread (mem tar_demo) (1024 + 0) 2 = [100, 0]" by (subst tar_header_at) (simp_all add: tar_header_def cstr_def numeral_2_eq_2)
  show "ent_name (mem tar_demo) 1024 0 = cstr ''d''"
    unfolding ent_name_def ent_string_def f using n by (subst str_at_takeWhile [where n = 2]) (simp_all add: cstr_def)
  have t: "mread (mem tar_demo) (1024 + 156) 2 = [48, 0]" by (subst tar_header_at) (simp_all add: tar_header_def cstr_def numeral_2_eq_2)
  have "ent_string (mem tar_demo) (1024 + 156) = [48]"
    unfolding ent_string_def using t by (subst str_at_takeWhile [where n = 2]) simp_all
  then show "ent_type (mem tar_demo) 1024 0 = 0" unfolding ent_type_def f by (simp add: atoi_def)
  have z: "mread (mem tar_demo) (1024 + 124) 12 = cstr ''00000000003'' @ [0]"
    by (subst tar_header_at) (simp_all add: tar_header_def cstr_def)
  show "ent_size 11 (mem tar_demo) 1024 0 = 3" unfolding ent_size_def f z by (simp only: cstr_def) code_simp
  show "0 \<in> set (mread (mem tar_demo) 1024 512)" using tar_header_at [of 0 512] by (simp add: tar_header_def cstr_def)
  show "0 \<in> set (mread (mem tar_demo) 1180 356)" using tar_header_at [of 156 356] by (simp add: tar_header_def cstr_def)
qed

lemma tar_demo_fs: "fs_inv tar_demo" "fs_view tar_demo = fs_view fs_demo" "fits tar_demo MEMORY_BLKSIZE"
  "mountmgr_InitLock tar_demo" "mountmgr_MountT tar_demo = 4096" "memory_Space tar_demo = 8192"
proof -
  have l: "live tar_demo = live fs_demo" by (rule live_cong) (simp_all add: tar_demo_def)
  have "fs_inv tar_demo \<and> fs_view tar_demo = fs_view fs_demo"
  proof (rule fs_heap_change [OF fs_demo_inv])
    show "mm_inv tar_demo" using fs_demo_mm mm_inv_cong [of tar_demo fs_demo] by (simp add: tar_demo_def)
    show "mread (mem tar_demo) (fs_EntryV fs_demo i) k = mread (mem fs_demo) (fs_EntryV fs_demo i) k" if "in_use fs_demo i" for i k
    proof -
      have "disj 1024 (length tar_header) (fs_EntryV fs_demo i) k"
        using that unfolding fs_demo_use
        by (elim disjE) (simp_all add: fs_demo_ent [simplified] tar_header_def cstr_def disj_def)
      then show ?thesis by (simp add: tar_demo_def mem_simps)
    qed
  qed (simp_all only: l, simp_all add: tar_demo_def)
  then show "fs_inv tar_demo" "fs_view tar_demo = fs_view fs_demo" by blast+
  show "fits tar_demo MEMORY_BLKSIZE" using fs_demo_fits [of MEMORY_BLKSIZE] by (simp add: fits_def tar_demo_def)
  show "mountmgr_InitLock tar_demo" "mountmgr_MountT tar_demo = 4096" "memory_Space tar_demo = 8192"
    by (simp_all add: tar_demo_def fs_demo_def)
qed

lemma next_ofs_demo: "next_ofs 3 0 = 1024"
  by (simp add: next_ofs_def)

lemma tar_demo_archive: "tar_archive (mem tar_demo) 1024 2560 1024 0 [member_at (mem tar_demo) 1024 0]"
proof (rule tar_archive.tar_entry)
  show "tar_archive (mem tar_demo) 1024 2560 1024 (next_ofs (ent_size 11 (mem tar_demo) 1024 0) 0) []"
    unfolding tar_demo_header(4) next_ofs_demo by (rule tar_archive.tar_end) simp_all
qed (use tar_demo_header in simp_all)

lemma tar_demo_blocks:
  "malloc FS_MAX_PATHLEN tar_demo = Inr (20480, tar_demo\<lparr>memory_BlockV := place (memory_BlockV fs_demo) 3 1\<rparr>)"
proof -
  have n: "nblocks FS_MAX_PATHLEN = 1" by (simp add: nblocks_def)
  have V: "memory_BlockV tar_demo = memory_BlockV fs_demo" "memory_BlockC tar_demo = 16" by (simp_all add: tar_demo_def fs_demo_def)
  have "free_run (memory_BlockV fs_demo) 3 1" by (auto simp: free_run_def fs_demo_def nth_place)
  moreover have "\<not> free_run (memory_BlockV fs_demo) j 1" if "j < 3" for j
  proof -
    have "j = 0 \<or> j = 1 \<or> j = 2" using that by auto
    then show ?thesis by (auto simp: free_run_def fs_demo_def nth_place)
  qed
  ultimately have "scan (\<lambda>i. free_run (memory_BlockV tar_demo) i 1) 0 (Suc (memory_BlockC tar_demo - 1)) = Some 3"
    unfolding V by (intro scan_SomeI) simp_all
  moreover have "fits tar_demo FS_MAX_PATHLEN" using tar_demo_fs(3) by (simp add: fits_def)
  ultimately show ?thesis
    using malloc_eq [OF fs_invD(1) [OF tar_demo_fs(1)], of FS_MAX_PATHLEN] by (simp add: n V tar_demo_fs(6) del: One_nat_def)
qed

lemma tar_demo_mount: "\<exists>s'. tarfs_mount (Some (cstr ''/'')) 1024 1024 tar_demo = Some (Inr (0, s'))"
proof -
  define s1 where "s1 = tar_demo\<lparr>memory_BlockV := place (memory_BlockV fs_demo) 3 1\<rparr>"
  define p where "p = cstr ''/d''"
  define m where "m = mwrite (mem tar_demo) 20480 (p @ [0])"
  let ?s2 = "s1\<lparr>mem := m\<rparr>"
  have fit: "fits tar_demo FS_MAX_PATHLEN" using tar_demo_fs(3) by (simp add: fits_def)
  note sp = malloc_spare [OF tar_demo_fs(1) fit tar_demo_blocks, folded s1_def, simplified]
  have "nblocks FS_MAX_PATHLEN * MEMORY_BLKSIZE = MEMORY_BLKSIZE" by (simp add: nblocks_def)
  then have "spare s1 20480 MEMORY_BLKSIZE" using sp by simp
  then have "\<exists>k\<ge>FS_MAX_PATHLEN. spare s1 20480 k" by (intro exI [of _ MEMORY_BLKSIZE]) simp
  then have r1: "tar_ready 20480 s1" using sp tar_demo_fs(3,4) by (simp add: tar_ready_def same_place_def fits_def)
  have hdr: "1024 + 0 + 512 \<le> (2560 :: nat)" "(2560 :: nat) < 4294967296" by simp_all
  have same: "a < 2560 \<Longrightarrow> m a = mem tar_demo a" for a by (simp add: m_def mwrite_outside)
  have pn: "p = take (FS_MAX_PATHLEN - 1) (cstr ''/'' @ ent_name (mem s1) 1024 0)"
    using tar_demo_header(2) by (simp add: p_def s1_def cstr_def)
  have ty: "ent_type m 1024 0 = 0" "ent_size 11 m 1024 0 = 3"
    using header_cong(2,4) [OF hdr same] tar_demo_header by simp_all
  have bw: "fs_inv ?s2" "fs_view ?s2 = fs_view fs_demo" "spare ?s2 = spare s1"
    using buffer_write [of s1 20480 MEMORY_BLKSIZE "p @ [0]"] sp \<open>spare s1 20480 MEMORY_BLKSIZE\<close> tar_demo_fs(2)
    by (simp_all add: m_def p_def cstr_def)
  have r2: "tar_ready 20480 ?s2" by (rule tar_ready_step [OF r1 bw(1)]) (simp_all add: bw(3) same_place_def)
  have none: "fs_view fs_demo q = None" if "q \<noteq> cstr ''/''" "q \<noteq> cstr ''/a''" for q
    using that by (auto simp: fs_view_None [OF fs_demo_inv] fs_demo_use fs_demo_ent [simplified] sample_entry_def)
  have p: "is_cstr p" "length p < FS_MAX_PATHLEN" "fs_view ?s2 p = None" "fs_view ?s2 (p @ [slash]) = None"
    unfolding bw(2) by (auto intro!: none simp: p_def cstr_def)
  have ref: "write_refusal ?s2 p = FS_STS_SUCCESS"
    using p by (simp add: write_refusal_def p_def ends_slash_def ancestors_def cstr_def pieces_def)
  have slot: "free_slot ?s2 = Some 2"
    unfolding free_slot_def by (rule scan_SomeI) (auto simp: s1_def tar_demo_def fs_demo_def)
  have V: "memory_BlockV ?s2 = place (memory_BlockV fs_demo) 3 1" "memory_BlockC ?s2 = 16" "memory_Space ?s2 = 8192"
    by (simp_all add: s1_def tar_demo_def fs_demo_def)
  have "free_run (memory_BlockV ?s2) 4 (nblocks MEMORY_BLKSIZE)"
    unfolding V by (auto simp: free_run_def nblocks_def fs_demo_def nth_place)
  moreover obtain a s3 where a: "malloc MEMORY_BLKSIZE ?s2 = Inr (a, s3)"
    using malloc_total [OF fs_invD(1) [OF bw(1)]] r2 unfolding tar_ready_def by blast
  ultimately have "a \<noteq> 0" using malloc_null(2) [OF fs_invD(1) [OF bw(1)], of MEMORY_BLKSIZE s3] r2 by (auto simp: tar_ready_def)
  have "ent_field 1024 0 ''data'' \<noteq> 0" by (simp add: ent_field_def tar_offsets)
  moreover have "mountmgr_MountV ?s2 0 = 0" by (simp add: s1_def tar_demo_def fs_demo_def)
  ultimately obtain s4 where f: "mount_file p 1024 0 ?s2 = Inr (True, s4)"
    using mount_file_succeeds [OF r2 p(1-3) ref slot a \<open>a \<noteq> 0\<close>] by blast
  have "render (cstr ''%s%s'') [S (cstr ''/''), S (cstr ''d'')] = Inr p" by (simp add: cstr_def render.simps(2) p_def)
  from snprintf_render [OF this, of FS_MAX_PATHLEN]
  have sn: "snprintf FS_MAX_PATHLEN (cstr ''%s%s'') [S (cstr ''/''), S (cstr ''d'')] = Inr p" by (simp add: p_def cstr_def)
  have m1: "mem s1 = mem tar_demo" using sp by simp
  have mm: "mount_member (cstr ''/'') 20480 1024 0 s1 = Inr (True, s4)"
    using f sn ty(1) tar_demo_header(2) by (simp add: mount_member_def m1 Let_def flip: m_def)
  have p1: "fs_view s1 p = None" using p(3) bw(2) sp tar_demo_fs(2) by simp
  have "mem s4 = m"
    using mount_member_view [OF r1 _ pn refl] mm p1 by (simp add: p_def [symmetric] m1 is_cstr_def cstr_def flip: m_def) (elim exE conjE)
  then have "mount_loop (cstr ''/'') 20480 1024 1024 0 s1 = Some (Inr (0, s4))"
    using tar_demo_header(1) mm ty(2) next_ofs_demo m1
    by (subst mount_loop.simps) (simp, subst mount_loop.simps, simp)
  moreover have "fs_stat (cstr ''/'') tar_demo \<noteq> 0"
    using fs_stat_in_use [OF tar_demo_fs(1), of 0] by (simp add: in_use_def ent_at_def tar_demo_def fs_demo_def sample_entry_def)
  ultimately have "tarfs_mount (Some (cstr ''/'')) 1024 1024 tar_demo = Some (Inr (0, s4))"
    using tar_demo_header(1) tar_demo_blocks by (simp add: tarfs_mount_def s1_def)
  then show ?thesis by blast
qed

theorem tarfs_mount_returns_witness:
  "\<exists>r s'. tarfs_mount (Some (cstr ''/'')) 1024 1024 tar_demo = Some (Inr (r, s')) \<and> fs_inv s' \<and> (r = 0 \<or> r = -1)"
  by (rule tarfs_mount_returns [OF tar_demo_fs(1,4,3)]) (simp add: cstr_def is_cstr_def)

theorem tarfs_mount_binds_witness:
  "\<exists>s' s2 e. tarfs_mount (Some (cstr ''/'')) 1024 1024 tar_demo = Some (Inr (0, s')) \<and>
     fs_readFile (cstr ''/d'') s' = Inr (1536, s2) \<and> fs_view s' (cstr ''/d'') = Some (e, []) \<and> fsize e = 3 \<and>
     fs_view s' (cstr ''/a'') = fs_view fs_demo (cstr ''/a'')"
proof -
  obtain s' where r: "tarfs_mount (Some (cstr ''/'')) 1024 1024 tar_demo = Some (Inr (0, s'))" using tar_demo_mount by blast
  have mb: "member_at (mem tar_demo) 1024 0 = \<lparr>mname = cstr ''d'', mdir = False, mdata = 1536, msize = 3\<rparr>"
    using tar_demo_header by (simp add: member_at_def ent_field_def tar_offsets)
  have new: "\<forall>mb\<in>set [member_at (mem tar_demo) 1024 0]. fs_view tar_demo (cstr ''/'' @ mname mb) = None"
    by (auto simp: mb tar_demo_fs(2) fs_view_None [OF fs_demo_inv] fs_demo_use fs_demo_ent [simplified] sample_entry_def cstr_def)
  from tarfs_mount_binds [OF tar_demo_fs(1,4) _ tar_demo_fs(3) _ _ tar_demo_archive _ _ new r]
  have "(\<exists>e. fs_view s' (cstr ''/'' @ cstr ''d'') = Some (e, []) \<and> fsize e = 3 \<and>
      (\<exists>s2. fs_readFile (cstr ''/'' @ cstr ''d'') s' = Inr (1536, s2))) \<and>
     (\<forall>q. q \<noteq> cstr ''/'' @ cstr ''d'' \<longrightarrow> fs_view s' q = fs_view tar_demo q)"
    by (simp add: tar_demo_fs mb is_cstr_def cstr_def)
  then show ?thesis using r tar_demo_fs(2) by (auto simp: cstr_def)
qed

end
