(* ===== verification/UsbRegs.thy ===== *)
theory UsbRegs
  imports Layout Protect
begin

text \<open>
  The register map and the structures of the USB host controller driver, the declarations of \<open>source/drv/usb.c\<close>:
  structures as field lists whose offsets are computed (\<open>Layout\<close>), bit masks as tables of named fields. The lemmas at the
  end check them against each other: offsets, sizes, and that the masks of a register do not overlap.
\<close>

unbundle bit_operations_syntax

section \<open>Registers\<close>

definition usb_Capregs_t :: "field list" where
  "usb_Capregs_t =
     packed [U8 ''CAPLENGTH'', U8 ''Rsvd'', U16 ''HCIVERSION'', U32 ''HCSPARAMS1'', U32 ''HCSPARAMS2'', U32 ''HCSPARAMS3'',
       U32 ''HCCPARAMS1'', U32 ''DBOFF'', U32 ''RTSOFF'', U32 ''HCCPARAMS2'', U32 ''VTIOSOFF'']"

definition usb_cap_masks :: "(string \<times> (string \<times> u32) list) list" where
  "usb_cap_masks =
     [(''HCSPARAMS1'', [(''MAXSLOTS'', 0xFF), (''MAXINTRS'', 0x7FF00), (''MAXPORTS'', 0xFF000000)]),
     (''HCSPARAMS2'', [(''IST'', 0xF), (''ERSTMAX'', 0xF0), (''MAXSPBHI'', 0x3E00000), (''SPR'', push_bit 26 1),
        (''MAXSPBLO'', 0xF8000000)]),
     (''HCSPARAMS3'', [(''U1EXITLT'', 0xFF), (''U2EXITLT'', 0xFF00)]),
     (''HCCPARAMS1'', [(''AC64'', 1), (''BNC'', push_bit 1 1), (''CSZ'', push_bit 2 1), (''PPC'', push_bit 3 1),
        (''PIND'', push_bit 4 1), (''LHRC'', push_bit 5 1), (''LTC'', push_bit 6 1), (''NSS'', push_bit 7 1),
        (''PAE'', push_bit 8 1), (''SPC'', push_bit 9 1), (''SEC'', push_bit 10 1), (''CFC'', push_bit 11 1),
        (''MAXPSA'', 0xF000), (''XECP'', 0xFFFF0000)]),
     (''DBOFF'', [(''DBOFF'', 0xFFFFFFFC)]),
     (''RTSOFF'', [(''RTSOFF'', 0xFFFFFFE0)]),
     (''HCCPARAMS2'', [(''U3C'', 1), (''CMC'', push_bit 1 1), (''FSC'', push_bit 2 1), (''CTC'', push_bit 3 1),
        (''LEC'', push_bit 4 1), (''CIC'', push_bit 5 1), (''ETC'', push_bit 6 1), (''TSC'', push_bit 7 1),
        (''GSC'', push_bit 8 1), (''VTC'', push_bit 9 1)]),
     (''VTIOSOFF'', [(''VTIOSOFF'', 0xFFFFF000)])]"

definition usb_Portregs_t :: "field list" where
  "usb_Portregs_t = packed [U32 ''PORTSC'', U32 ''PORTPMSC'', U32 ''PORTLI'', U32 ''PORTHLPMC'']"

definition usb_Opregs_t :: "field list" where
  "usb_Opregs_t =
     packed [U32 ''USBCMD'', U32 ''USBSTS'', U32 ''PAGESIZE'', Bytes ''RsvdZ1'' (0x14 - 0x0C), U32 ''DNCTRL'', U64 ''CRCR'',
       Bytes ''RsvdZ2'' (0x30 - 0x20), U64 ''DCBAAP'', U32 ''CONFIG'', Bytes ''RsvdZ3'' (0x400 - 0x3C),
       Bytes ''port'' (0x1400 - 0x400)]"

definition usb_op_masks :: "(string \<times> (string \<times> u32) list) list" where
  "usb_op_masks =
     [(''USBCMD'', [(''RS'', 1), (''HCRST'', push_bit 1 1), (''INTE'', push_bit 2 1), (''HSEE'', push_bit 3 1),
        (''RSVDP1'', 0x70), (''LHCRST'', push_bit 7 1), (''CSS'', push_bit 8 1), (''CRS'', push_bit 9 1),
        (''EWE'', push_bit 10 1), (''EU3S'', push_bit 11 1), (''RSVDP2'', push_bit 12 1), (''CME'', push_bit 13 1),
        (''ETE'', push_bit 14 1), (''TSCEN'', push_bit 15 1), (''VTIOEN'', push_bit 16 1), (''RSVDP3'', 0xFFFE0000)]),
     (''USBSTS'', [(''HCH'', 1), (''RSVDZ1'', push_bit 1 1), (''HSE'', push_bit 2 1), (''EINT'', push_bit 3 1),
        (''PCD'', push_bit 4 1), (''RSVDZ2'', 0xE0), (''SSS'', push_bit 8 1), (''RSS'', push_bit 9 1),
        (''SRE'', push_bit 10 1), (''CNR'', push_bit 11 1), (''HCE'', push_bit 12 1), (''RSVDZ3'', 0xFFFFE000)]),
     (''PAGESIZE'', [(''PAGESIZE'', 0xFFFF)]),
     (''DNCTRL'', [(''N0'', 1), (''N1'', push_bit 1 1), (''N2'', push_bit 2 1), (''N3'', push_bit 3 1),
        (''N4'', push_bit 4 1), (''N5'', push_bit 5 1), (''N6'', push_bit 6 1), (''N7'', push_bit 7 1),
        (''N8'', push_bit 8 1), (''N9'', push_bit 9 1), (''N10'', push_bit 10 1), (''N11'', push_bit 11 1),
        (''N12'', push_bit 12 1), (''N13'', push_bit 13 1), (''N14'', push_bit 14 1), (''N15'', push_bit 15 1),
        (''RSVDP'', 0xFFFF0000)]),
     (''CRCR'', [(''RCS'', 1), (''CS'', push_bit 1 1), (''CA'', push_bit 2 1), (''CRR'', push_bit 3 1),
        (''RSVDP'', push_bit 4 3), (''RINGPTRLO'', 0xFFFFFFC0)]),
     (''CRCR high'', [(''CRCR high'', 0xFFFFFFFF)]),
     (''DCBAAP'', [(''RSVDZ'', 0x3F), (''LOW'', 0xFFFFFFC0)]),
     (''DCBAAP high'', [(''DCBAAP high'', 0xFFFFFFFF)]),
     (''CONFIG'', [(''MAXSLOTSEN'', 0xFF), (''U3E'', push_bit 8 1), (''CIE'', push_bit 9 1), (''RSVDP'', 0xFFFFFC00)]),
     (''PORTSC'', [(''CCS'', 1), (''PED'', push_bit 1 1), (''RSVDZ1'', push_bit 2 1), (''OCA'', push_bit 3 1),
        (''PR'', push_bit 4 1), (''PLS'', push_bit 5 0xF), (''PP'', push_bit 9 1), (''SPEED'', push_bit 10 0xF),
        (''PIC'', push_bit 14 3), (''LWS'', push_bit 16 1), (''CSC'', push_bit 17 1), (''PEC'', push_bit 18 1),
        (''WRC'', push_bit 19 1), (''OCC'', push_bit 20 1), (''PRC'', push_bit 21 1), (''PLC'', push_bit 22 1),
        (''CEC'', push_bit 23 1), (''CAS'', push_bit 24 1), (''WCE'', push_bit 25 1), (''WDE'', push_bit 26 1),
        (''WOE'', push_bit 27 1), (''RSVDZ2'', push_bit 28 3), (''DR'', push_bit 30 1), (''WPR'', push_bit 31 1)]),
     (''PORTPMSC'', [(''L1S'', 7), (''RWE'', push_bit 3 1), (''BESL'', push_bit 4 0xF), (''L1SLOT'', push_bit 8 0xF),
        (''HLE'', push_bit 16 1), (''RSVDP'', 0xFFE0000), (''TEST'', push_bit 28 0xF)]),
     (''PORTLI'', [(''LIERRC'', 0xFFFF), (''RLC'', push_bit 16 0xF), (''TLC'', push_bit 20 0xF),
        (''RSVDP'', push_bit 24 0xFF)]),
     (''PORTEXSC USB3'', [(''LSERRC'', 0xFFFF), (''RSVDP'', push_bit 16 0xFFFF)]),
     (''PORTEXSC USB2'', [(''HIRDM'', 3), (''L1TOUT'', push_bit 2 0xFF), (''BESLD'', push_bit 10 0xFF),
        (''RSVDP'', 0xFFFFC000)]),
     (''PORTHLPMC'', [(''HIRDM'', 3), (''L1TOUT'', push_bit 2 0xFF), (''BESLD'', push_bit 10 0xF), (''RSVDP'', 0xFFFFC000)])]"

definition usb_IRset_t :: "field list" where
  "usb_IRset_t = packed [U32 ''IMAN'', U32 ''IMOD'', U32 ''ERSTSZ'', U32 ''RsvdP'', U64 ''ERSTBA'', U64 ''ERDP'']"

definition usb_ir_masks :: "(string \<times> (string \<times> u32) list) list" where
  "usb_ir_masks =
     [(''IMAN'', [(''IP'', 1), (''IE'', push_bit 1 1), (''RSVDP'', 0xFFFFFFFC)]),
     (''IMOD'', [(''INTERVAL'', 0xFFFF), (''COUNTER'', push_bit 16 0xFFFF)]),
     (''ERSTSZ'', [(''SIZE'', 0xFFFF), (''RSVDP'', push_bit 16 0xFFFF)]),
     (''ERSTBA'', [(''RSVDP'', 0x3F), (''LOW'', 0xFFFFFFC0)]),
     (''ERDP'', [(''DESI'', 7), (''EHB'', push_bit 3 1), (''LOW'', 0xFFFFFFF0)])]"

definition usb_RTregs_t :: "field list" where
  "usb_RTregs_t = packed [U32 ''MFINDEX'', Bytes ''RsvdZ'' (0x20 - 0x04), Bytes ''IR'' (1024 * size_of usb_IRset_t)]"

definition usb_rt_masks :: "(string \<times> (string \<times> u32) list) list" where
  "usb_rt_masks =
     [(''MFINDEX'', [(''MFINDEX_MFI'', 0x3FFF), (''MFINDEX_RSVDP'', 0xFFFFC000)])]"

definition usb_DBregs_t :: "field list" where
  "usb_DBregs_t = packed [U8 ''Target'', U8 ''RsvdZ'', U16 ''StreamID'']"

section \<open>Contexts and rings\<close>

definition usb_SlotCtx_t :: "field list" where
  "usb_SlotCtx_t =
     packed [U32 ''rsmhc'', U16 ''max_exit_lat'', U8 ''root_hub_port_num'', U8 ''num_ports'', U8 ''tthub_slotid'', U8 ''ttportnum'',
       U16 ''ttt_intrtarget'', U8 ''usbdevaddr'', Bytes ''rsvd'' 2, U8 ''slotstate'', Bytes ''rsvd2'' (4 * 4)]"

definition usb_EPCtx_t :: "field list" where
  "usb_EPCtx_t =
     packed [U8 ''ep_state'', U8 ''mml'', U8 ''interval'', U8 ''max_eist_pl_hi'', U8 ''ceh'', U8 ''max_burst'', U16 ''max_packet'',
       U64 ''tr_dq_ptr'', U16 ''avg_trb_len'', U16 ''max_eist_pl_lo'', Bytes ''rsvd'' (3 * 4)]"

definition usb_EPCtxIO_t :: "field list" where
  "usb_EPCtxIO_t = packed [Bytes ''OUT'' (size_of usb_EPCtx_t), Bytes ''IN'' (size_of usb_EPCtx_t)]"

definition usb_DeviceCtx_t :: "field list" where
  "usb_DeviceCtx_t =
     packed ([U32 ''SlotCtx'', U32 ''EPCtx0''] @ map (\<lambda>f. Bytes f (size_of usb_EPCtxIO_t))
       [''EPCtx1'', ''EPCtx2'', ''EPCtx3'', ''EPCtx4'', ''EPCtx5'', ''EPCtx6'', ''EPCtx7'', ''EPCtx8'', ''EPCtx9'', ''EPCtx10'',
        ''EPCtx11'', ''EPCtx12'', ''EPCtx13'', ''EPCtx14'', ''EPCtx15''])"

definition usb_TRB_t :: "field list" where
  "usb_TRB_t = packed [U64 ''prm'', U32 ''sts'', U32 ''ctrl'']"

definition usb_NormalTRB_t :: "field list" where
  "usb_NormalTRB_t = packed [U64 ''databuf'', U32 ''sts'', U16 ''ctrl'', U16 ''RsvdZ'']"

definition usb_normal_masks :: "(string \<times> (string \<times> u32) list) list" where
  "usb_normal_masks =
     [(''sts'', [(''TRLEN'', 0x1FFFF), (''TDSIZE'', push_bit 17 0x1F), (''INTTAR'', push_bit 22 0x3FF)]),
     (''ctrl'', [(''CYCLE'', 1), (''ENTRB'', push_bit 1 1), (''ISP'', push_bit 2 1), (''NS'', push_bit 3 1),
        (''CH'', push_bit 4 1), (''IOC'', push_bit 5 1), (''IDT'', push_bit 6 1), (''RSVDZ'', push_bit 7 3),
        (''BEI'', push_bit 9 1), (''TYPE'', push_bit 10 0x3F)])]"

definition usb_SetupTRB_t :: "field list" where
  "usb_SetupTRB_t =
     packed [U8 ''bmRequestType'', U8 ''bRequest'', U16 ''wValue'', U16 ''wIndex'', U16 ''wLength'', U32 ''sts'', U32 ''ctrl'']"

definition usb_setup_masks :: "(string \<times> (string \<times> u32) list) list" where
  "usb_setup_masks =
     [(''sts'', [(''TRLEN'', 0x1FFFF), (''RSVDZ'', push_bit 17 0x1F), (''INTTAR'', push_bit 22 0x3FF)]),
     (''ctrl'', [(''CYCLE'', 1), (''RSVDZ1'', push_bit 1 0xF), (''IOC'', push_bit 5 1), (''IDT'', push_bit 6 1),
        (''RSVDZ2'', push_bit 7 7), (''TYPE'', push_bit 10 0x3F), (''TRT'', push_bit 16 3),
        (''RSVDZ3'', push_bit 18 0x3FFF)])]"

definition usb_DataTRB_t :: "field list" where
  "usb_DataTRB_t = packed [U64 ''databuf'', U32 ''sts'', U32 ''ctrl'']"

definition usb_data_masks :: "(string \<times> (string \<times> u32) list) list" where
  "usb_data_masks =
     [(''sts'', [(''TRLEN'', 0x1FFFF), (''TDSIZE'', push_bit 17 0x1F), (''INTTAR'', push_bit 22 0x3FF)]),
     (''ctrl'', [(''CYCLE'', 1), (''ENTRB'', push_bit 1 1), (''ISP'', push_bit 2 1), (''NS'', push_bit 3 1),
        (''CH'', push_bit 4 1), (''IOC'', push_bit 5 1), (''IDT'', push_bit 6 1), (''RSVDZ1'', push_bit 7 7),
        (''TYPE'', push_bit 10 0x3F), (''DIR'', push_bit 16 1), (''RSVDZ2'', push_bit 17 0x7FFF)])]"

definition usb_StatusTRB_t :: "field list" where
  "usb_StatusTRB_t = packed [U64 ''RsvdZ'', U32 ''sts'', U32 ''ctrl'']"

definition usb_status_masks :: "(string \<times> (string \<times> u32) list) list" where
  "usb_status_masks =
     [(''sts'', [(''RSVDZ'', 0x3FFFFF), (''INTTAR'', push_bit 22 0x3FF)]),
     (''ctrl'', [(''CYCLE'', 1), (''ENTRB'', push_bit 1 1), (''RSVDZ1'', push_bit 2 3), (''CH'', push_bit 4 1),
        (''IOC'', push_bit 5 1), (''RSVDZ2'', push_bit 6 0xF), (''TYPE'', push_bit 10 0x3F), (''DIR'', push_bit 16 1),
        (''RSVDZ3'', push_bit 17 0x7FFF)])]"

definition usb_TREventTRB_t :: "field list" where
  "usb_TREventTRB_t = packed [U64 ''TRBptr'', U32 ''sts'', U32 ''ctrl'']"

definition usb_trevent_masks :: "(string \<times> (string \<times> u32) list) list" where
  "usb_trevent_masks =
     [(''sts'', [(''TRLEN'', 0xFFFFFF), (''CODE'', push_bit 24 0xFF)]),
     (''ctrl'', [(''CYCLE'', 1), (''RSVDZ1'', push_bit 1 1), (''ED'', push_bit 2 1), (''RSVDZ2'', push_bit 3 0x7F),
        (''TYPE'', push_bit 10 0x3F), (''ENDPID'', push_bit 16 0x1F), (''RSVDZ3'', push_bit 21 7),
        (''SLOTID'', push_bit 24 0xFF)])]"

definition usb_CMDEventTRB_t :: "field list" where
  "usb_CMDEventTRB_t = packed [U64 ''cmdTRBptr'', U32 ''sts'', U32 ''ctrl'']"

definition usb_cmdevent_masks :: "(string \<times> (string \<times> u32) list) list" where
  "usb_cmdevent_masks =
     [(''cmdTRBptr'', [(''RSVDZ'', 0xFF), (''LO'', 0xFFFFFF00)]),
     (''cmdTRBptr high'', [(''cmdTRBptr high'', 0xFFFFFFFF)]),
     (''sts'', [(''PARAM'', 0xFFFFFF), (''CODE'', push_bit 24 0xFF)]),
     (''ctrl'', [(''CYCLE'', 1), (''RSVDZ'', push_bit 1 0x1FF), (''TYPE'', push_bit 10 0x3F), (''VFID'', push_bit 16 0xFF),
        (''SLOTID'', push_bit 24 0xFF)])]"

definition usb_SlotCMDTRB_t :: "field list" where
  "usb_SlotCMDTRB_t = packed [U64 ''RsvdZ1'', U32 ''RsvdZ2'', U32 ''ctrl'']"

definition usb_slot_masks :: "(string \<times> (string \<times> u32) list) list" where
  "usb_slot_masks =
     [(''enable'', [(''CYCLE'', 1), (''RSVDZ1'', push_bit 1 0x1FF), (''TYPE'', push_bit 10 0x3F),
        (''SLOTTYPE'', push_bit 16 0x1F), (''RSVDZ2'', push_bit 21 0x7FF)]),
     (''disable'', [(''CYCLE'', 1), (''RSVDZ1'', push_bit 1 0x1FF), (''TYPE'', push_bit 10 0x3F),
        (''RSVDZ2'', push_bit 16 0xFF), (''SLOTID'', push_bit 24 0xFF)])]"

definition usb_inpctlctx_t :: "field list" where
  "usb_inpctlctx_t =
     [U32 ''drop_bits'', U32 ''add_bits'', (''rsvd'', 5 * 4, 4), U8 ''cfg'', U8 ''iface_num'', U8 ''alternate'', U8 ''rsvd2'']"

definition usb_inpctx_t :: "field list" where
  "usb_inpctx_t =
     [(''inpctl'', size_of usb_inpctlctx_t, 4), Bytes ''slotctx'' (size_of usb_SlotCtx_t), Bytes ''epctx'' (32 * size_of usb_EPCtx_t)]"

definition usb_LinkTRB_t :: "field list" where
  "usb_LinkTRB_t =
     [U64 ''ring_physaddr'', U16 ''rsvd'', U16 ''intrtarget'', U8 ''c_tc_ch_ioc'', U8 ''trb_type'', U16 ''rsvd2'']"

definition usb_trb_types :: "(string \<times> nat) list" where
  "usb_trb_types =
     [(''NORMAL'', 1), (''SETUP'', 2), (''DATA'', 3), (''STATUS'', 4), (''ISOCH'', 5), (''LINK'', 6),
      (''EVTDATA'', 7), (''NOOP'', 8), (''ENABLESLOTCMD'', 9), (''DISABLESLOTCMD'', 10), (''ADDRDEVCMD'', 11),
      (''CONFIGUREEPCMD'', 12), (''EVALCTXCMD'', 13), (''RESETEPCMD'', 14), (''STOPEPCMD'', 15),
      (''SETTRDEQPTRCMD'', 16), (''RESETDEVCMD'', 17), (''FORCEEVTCMD'', 18), (''NEGOBWCMD'', 19),
      (''SETLATTOLVALCMD'', 20), (''GETPORTBWCMD'', 21), (''FORCEHDRCMD'', 22), (''NOOPCMD'', 23),
      (''XFEREVT'', 32), (''CMDCOMPEVT'', 33), (''PORTSTSCHGEVT'', 34), (''BWREQEVT'', 35), (''DBEVT'', 36),
      (''HOSTCTLEVT'', 37), (''DEVNOTIFEVT'', 38), (''MFINDEXWRAPEVT'', 39)]"

definition usb_evtring_seg_t :: "field list" where
  "usb_evtring_seg_t = [U64 ''base'', U16 ''trb_count'', U16 ''resvd'', U32 ''resvd2'']"

definition usb_EventTRB_t :: "field list" where
  "usb_EventTRB_t = [(''data'', 12, 4), U16 ''flags'', U8 ''id'', U8 ''slotid'']"

definition usb_Port_t :: "field list" where
  "usb_Port_t = [U8 ''active'', U8 ''slot'', U8 ''speed'', U8 ''port'', U8 ''endpointCount'', U32 ''packsize'', U32 ''devctx'']"

section \<open>Checks\<close>

fun disjoint_masks :: "u32 list \<Rightarrow> bool" where
  "disjoint_masks [] \<longleftrightarrow> True"
| "disjoint_masks (m # ms) \<longleftrightarrow> list_all (\<lambda>m'. m AND m' = 0) ms \<and> disjoint_masks ms"

definition overlapping :: "(string \<times> (string \<times> u32) list) list \<Rightarrow> string list" where
  "overlapping tab = [r. (r, ms) \<leftarrow> tab, \<not> disjoint_masks (map snd ms)]"

definition incomplete :: "(string \<times> (string \<times> u32) list) list \<Rightarrow> string list" where
  "incomplete tab = [r. (r, ms) \<leftarrow> tab, fold (OR) (map snd ms) 0 \<noteq> (-1 :: u32)]"

text \<open>The masks of one register do not overlap, with one exception: \<open>USB_OPREG_PORTEXSC_USB2_BESLD\<close> has eight bits where
  \<open>USB_OPREG_PORTHLPMC_BESLD\<close>, for the same field, has four. The masks of an operational register name all its bits but in
  \<open>PAGESIZE\<close> and \<open>PORTPMSC\<close>, whose \<open>L1SLOT\<close> has four bits for the eight of a slot number.\<close>

lemma masks_disjoint:
  "overlapping usb_op_masks = [''PORTEXSC USB2'']"
  "overlapping (usb_cap_masks @ usb_ir_masks @ usb_rt_masks) = []"
  "overlapping (usb_normal_masks @ usb_setup_masks @ usb_data_masks @ usb_status_masks) = []"
  "overlapping (usb_trevent_masks @ usb_cmdevent_masks @ usb_slot_masks) = []"
  by code_simp+

lemma masks_complete:
  "incomplete usb_op_masks = [''PAGESIZE'', ''PORTPMSC'']"
  "incomplete (usb_ir_masks @ usb_rt_masks) = []"
  "incomplete (usb_setup_masks @ usb_data_masks @ usb_status_masks @ usb_trevent_masks @ usb_slot_masks) = []"
  by code_simp+

lemma trb_types_distinct: "distinct (map fst usb_trb_types)" "distinct (map snd usb_trb_types)" "\<forall>(f, n)\<in>set usb_trb_types. n < 64"
  by (simp_all add: usb_trb_types_def)

lemmas usb_layout_defs = usb_Capregs_t_def usb_Portregs_t_def usb_Opregs_t_def usb_IRset_t_def usb_RTregs_t_def usb_DBregs_t_def
  usb_SlotCtx_t_def usb_EPCtx_t_def usb_EPCtxIO_t_def usb_TRB_t_def usb_NormalTRB_t_def usb_SetupTRB_t_def usb_DataTRB_t_def
  usb_StatusTRB_t_def usb_TREventTRB_t_def usb_CMDEventTRB_t_def usb_SlotCMDTRB_t_def usb_LinkTRB_t_def usb_evtring_seg_t_def
  usb_EventTRB_t_def usb_Port_t_def

text \<open>The registers are where the controller has them, and everything on a ring has the size of one entry.\<close>

lemma usb_offsets:
  "offset_of usb_Capregs_t ''RTSOFF'' = 0x18" "offset_of usb_Capregs_t ''DBOFF'' = 0x14" "offset_of usb_Capregs_t ''HCSPARAMS1'' = 4"
  "offset_of usb_Opregs_t ''USBSTS'' = 4" "offset_of usb_Opregs_t ''CRCR'' = 0x18" "offset_of usb_Opregs_t ''DCBAAP'' = 0x30"
  "offset_of usb_Opregs_t ''CONFIG'' = 0x38" "offset_of usb_Opregs_t ''port'' = 0x400" "offset_of usb_RTregs_t ''IR'' = 0x20"
  "offset_of usb_IRset_t ''ERSTBA'' = 0x10" "offset_of usb_IRset_t ''ERDP'' = 0x18"
  by (simp_all add: offset_of_def usb_layout_defs packed_def align_up_def)

lemma usb_sizes:
  "size_of usb_Portregs_t = 16" "size_of usb_IRset_t = 32" "size_of usb_DBregs_t = 4" "size_of usb_TRB_t = 16"
  "size_of usb_NormalTRB_t = 16" "size_of usb_SetupTRB_t = 16" "size_of usb_DataTRB_t = 16" "size_of usb_StatusTRB_t = 16"
  "size_of usb_TREventTRB_t = 16" "size_of usb_CMDEventTRB_t = 16" "size_of usb_SlotCMDTRB_t = 16" "size_of usb_LinkTRB_t = 16"
  "size_of usb_evtring_seg_t = 16" "size_of usb_EventTRB_t = 16" "size_of usb_Port_t = 16" "size_of usb_SlotCtx_t = 32"
  "size_of usb_EPCtx_t = 32"
  by (simp_all add: size_of_def usb_layout_defs packed_def align_up_def)

text \<open>A device context is 32 contexts of 32 bytes; the structure of the driver has two words in the place of the first two.\<close>

lemma device_context_short: "size_of usb_DeviceCtx_t = 32 * size_of usb_EPCtx_t - 56" "size_of usb_inpctx_t = 34 * 32"
  by (simp_all add: size_of_def usb_DeviceCtx_t_def usb_inpctx_t_def usb_inpctlctx_t_def usb_layout_defs packed_def align_up_def)

end
