(* ===== verification/Usb.thy ===== *)
theory Usb
  imports I8042 UsbRegs
begin

text \<open>
  The USB host controller driver, \<open>source/drv/usb.c\<close>. The controller itself is not part of the program: it is the
  field \<open>xhc\<close>, an arbitrary function that may change memory, its own registers as well as the rings it shares with
  the driver, after every access to a register, depending on all the accesses so far (\<open>mmio_log\<close>).
\<close>

unbundle bit_operations_syntax

section \<open>Constants\<close>

abbreviation (input) USB_OPREG_CMD_RS :: u32 where "USB_OPREG_CMD_RS \<equiv> 1"
abbreviation (input) USB_OPREG_CMD_HCRST :: u32 where "USB_OPREG_CMD_HCRST \<equiv> 2"
abbreviation (input) USB_OPREG_STS_HCH :: u32 where "USB_OPREG_STS_HCH \<equiv> 1"
abbreviation (input) USB_OPREG_STS_HSE :: u32 where "USB_OPREG_STS_HSE \<equiv> 4"
abbreviation (input) USB_OPREG_STS_CNR :: u32 where "USB_OPREG_STS_CNR \<equiv> 0x800"
abbreviation (input) USB_MAXSLOTS :: u32 where "USB_MAXSLOTS \<equiv> 0xFF"
abbreviation (input) USB_OPREG_PORTSC_CCS :: u32 where "USB_OPREG_PORTSC_CCS \<equiv> 1"
abbreviation (input) USB_OPREG_PORTSC_PED :: u32 where "USB_OPREG_PORTSC_PED \<equiv> 2"
abbreviation (input) USB_OPREG_PORTSC_PR :: u32 where "USB_OPREG_PORTSC_PR \<equiv> 0x10"
abbreviation (input) USB_OPREG_PORTSC_SPEED :: u32 where "USB_OPREG_PORTSC_SPEED \<equiv> 0x3C00"
abbreviation (input) USB_OPREG_PORTSC_CSC :: u32 where "USB_OPREG_PORTSC_CSC \<equiv> 0x20000"
abbreviation (input) USB_OPREG_PORTSC_PRC :: u32 where "USB_OPREG_PORTSC_PRC \<equiv> 0x200000"
abbreviation (input) USB_EVENTRING_TRBCOUNT :: nat where "USB_EVENTRING_TRBCOUNT \<equiv> 16"
abbreviation (input) USB_TRBCOUNT :: nat where "USB_TRBCOUNT \<equiv> 256"
abbreviation (input) USB_TRB_TYPE_ENABLESLOTCMD :: nat where "USB_TRB_TYPE_ENABLESLOTCMD \<equiv> 9"

section \<open>State and register access\<close>

text \<open>Number of bytes, address, and the value written.\<close>

datatype mmio_event = MRead nat addr | MWrite nat addr nat

record xhci = kbc +
  xhc :: "mmio_event list \<Rightarrow> mem \<Rightarrow> mem"
  mmio_log :: "mmio_event list"
  usb_InitLock :: bool
  usb_Capregs :: addr
  usb_Opregs :: addr
  usb_RTregs :: addr
  usb_DBregs :: addr
  usb_CmdRing :: addr
  usb_ERSTent :: addr
  usb_EventRing :: addr
  usb_PortV :: addr

fun rdn :: "mem \<Rightarrow> addr \<Rightarrow> nat \<Rightarrow> nat" where
  "rdn m a 0 = 0"
| "rdn m a (Suc k) = unat (m a) + 256 * rdn m (a + 1) k"

definition wrn :: "mem \<Rightarrow> addr \<Rightarrow> nat \<Rightarrow> nat \<Rightarrow> mem" where
  "wrn m a n v = mwrite m a (map (\<lambda>i. of_nat (v div 256 ^ i)) [0..<n])"

definition mmio :: "mmio_event \<Rightarrow> 'a xhci_scheme \<Rightarrow> 'a xhci_scheme" where
  "mmio ev s = (let l = mmio_log s @ [ev] in s\<lparr>mmio_log := l, mem := xhc s l (mem s)\<rparr>)"

definition reg_read :: "nat \<Rightarrow> addr \<Rightarrow> 'a xhci_scheme \<Rightarrow> nat \<times> 'a xhci_scheme" where
  "reg_read n a s = (let s1 = mmio (MRead n a) s in (rdn (mem s1) a n, s1))"

definition reg_write :: "nat \<Rightarrow> addr \<Rightarrow> nat \<Rightarrow> 'a xhci_scheme \<Rightarrow> 'a xhci_scheme" where
  "reg_write n a v s = mmio (MWrite n a v) (s\<lparr>mem := wrn (mem s) a n v\<rparr>)"

text \<open>\<open>r |= x\<close> and \<open>r &= x\<close> on a 32-bit register; \<open>r & x\<close> as a condition.\<close>

definition reg_mod :: "addr \<Rightarrow> (u32 \<Rightarrow> u32) \<Rightarrow> 'a xhci_scheme \<Rightarrow> 'a xhci_scheme" where
  "reg_mod a f s = (let (v, s1) = reg_read 4 a s in reg_write 4 a (unat (f (of_nat v))) s1)"

definition reg_test :: "addr \<Rightarrow> u32 \<Rightarrow> 'a xhci_scheme \<Rightarrow> bool \<times> 'a xhci_scheme" where
  "reg_test a x s = (let (v, s1) = reg_read 4 a s in (of_nat v AND x \<noteq> 0, s1))"

definition cap_reg :: "string \<Rightarrow> 'a xhci_scheme \<Rightarrow> addr" where
  "cap_reg f s = wrap32 (usb_Capregs s + offset_of usb_Capregs_t f)"

definition op_reg :: "string \<Rightarrow> 'a xhci_scheme \<Rightarrow> addr" where
  "op_reg f s = wrap32 (usb_Opregs s + offset_of usb_Opregs_t f)"

definition port_reg :: "nat \<Rightarrow> 'a xhci_scheme \<Rightarrow> addr" where
  "port_reg i s = wrap32 (usb_Opregs s + offset_of usb_Opregs_t ''port'' + i * size_of usb_Portregs_t + offset_of usb_Portregs_t ''PORTSC'')"

definition ir_reg :: "string \<Rightarrow> 'a xhci_scheme \<Rightarrow> addr" where
  "ir_reg f s = wrap32 (usb_RTregs s + offset_of usb_RTregs_t ''IR'' + offset_of usb_IRset_t f)"

definition put_field :: "nat \<Rightarrow> addr \<Rightarrow> nat \<Rightarrow> 'a xhci_scheme \<Rightarrow> 'a xhci_scheme" where
  "put_field n a v s = s\<lparr>mem := wrn (mem s) a n v\<rparr>"

text \<open>\<open>usb_Opregs->CONFIG & USB_OPREG_CONFIG_MAXSLOTSEN\<close>\<close>

definition max_slots :: "'a xhci_scheme \<Rightarrow> nat \<times> 'a xhci_scheme" where
  "max_slots s = (let (v, s1) = reg_read 4 (op_reg ''CONFIG'' s) s in (unat (of_nat v AND USB_MAXSLOTS), s1))"

text \<open>\<open>while ((r & x) && --timeout);\<close>\<close>

fun reg_wait :: "addr \<Rightarrow> u32 \<Rightarrow> nat \<Rightarrow> 'a xhci_scheme \<Rightarrow> 'a xhci_scheme" where
  "reg_wait a x 0 s = s"
| "reg_wait a x (Suc t) s = (let (b, s1) = reg_test a x s in if b \<and> t \<noteq> 0 then reg_wait a x t s1 else s1)"

section \<open>Ports\<close>

definition usb_doorbell :: "u8 \<Rightarrow> u8 \<Rightarrow> 'a xhci_scheme \<Rightarrow> 'a xhci_scheme res" where
  "usb_doorbell slot ring s =
     (if \<not> usb_InitLock s then ERR ''usb_doorbell'' ''USB host controller not initialized'' [] s
      else let db = (\<lambda>f. wrap32 (usb_DBregs s + unat slot * size_of usb_DBregs_t + offset_of usb_DBregs_t f))
           in Inr (reg_write 2 (db ''StreamID'') 0 (reg_write 1 (db ''RsvdZ'') 0 (reg_write 1 (db ''Target'') (unat ring) s))))"

text \<open>The event ring, printed after the doorbell.\<close>

definition event_at :: "nat \<Rightarrow> string \<Rightarrow> 'a xhci_scheme \<Rightarrow> addr" where
  "event_at i f s = wrap32 (usb_EventRing s + i * size_of usb_EventTRB_t + offset_of usb_EventTRB_t f)"

definition show_event :: "nat \<Rightarrow> 'a xhci_scheme \<Rightarrow> 'a xhci_scheme res" where
  "show_event i s =
     (let d = (\<lambda>k. W (of_nat (rd32 (mem s) (event_at i ''data'' s + 4 * k))));
          b = (\<lambda>f. W (ucast (mem s (event_at i f s))));
          v = (\<lambda>k. printf (cstr ''0x%x'' @ [10]) [W (of_nat (rd32 (mem s) (event_at i ''data'' s + 4 * k)))])
      in bindR (printf (cstr ''i: %d, data[0]: 0x%x, data[1]: 0x%x, data[2]: 0x%x, flags: 0x%x, id: 0x%x, slotid: 0x%x'' @ [10])
             [W (of_nat i), d 0, d 1, d 2, W (of_nat (rd16 (mem s) (event_at i ''flags'' s))), b ''id'', b ''slotid''] s)
           (\<lambda>s1. bindR (v 0 s1) (\<lambda>s2. bindR (v 1 s2) (\<lambda>s3. bindR (v 2 s3) (v 3)))))"

fun show_events :: "nat \<Rightarrow> nat \<Rightarrow> 'a xhci_scheme \<Rightarrow> 'a xhci_scheme res" where
  "show_events i 0 s = Inr s"
| "show_events i (Suc k) s =
     bindR (if rd16 (mem s) (event_at i ''flags'' s) \<noteq> 0 then show_event i s else Inr s) (show_events (Suc i) k)"

definition port_field :: "string \<Rightarrow> 'a xhci_scheme \<Rightarrow> addr" where
  "port_field f s = wrap32 (usb_PortV s + offset_of usb_Port_t f)"

text \<open>The Enable Slot command in the first place of the command ring.\<close>

definition cmd_ctrl :: "'a xhci_scheme \<Rightarrow> addr" where
  "cmd_ctrl s = wrap32 (usb_CmdRing s + offset_of usb_SlotCMDTRB_t ''ctrl'')"

definition enable_slot :: "'a xhci_scheme \<Rightarrow> 'a xhci_scheme" where
  "enable_slot s =
     (let s1 = put_field 4 (cmd_ctrl s) 0 s;
          s2 = put_field 4 (cmd_ctrl s) (unat (of_nat (rd32 (mem s1) (cmd_ctrl s)) OR 1 :: u32)) s1
      in put_field 4 (cmd_ctrl s)
           (unat (of_nat (rd32 (mem s2) (cmd_ctrl s)) OR push_bit 10 (of_nat USB_TRB_TYPE_ENABLESLOTCMD) :: u32)) s2)"

definition usb_portInit :: "u8 \<Rightarrow> 'a xhci_scheme \<Rightarrow> (int \<times> 'a xhci_scheme) res" where
  "usb_portInit port s =
     (if \<not> usb_InitLock s then Inr (-1, s)
      else let sc = port_reg (unat port) s; (connected, s1) = reg_test sc USB_OPREG_PORTSC_CCS s
        in if \<not> connected then Inr (-1, s1)
           else let s2 = reg_mod sc (\<lambda>v. v OR USB_OPREG_PORTSC_PR) s1;
                    s3 = reg_wait sc USB_OPREG_PORTSC_PR 100000 s2;
                    s4 = reg_mod sc (\<lambda>v. v OR USB_OPREG_PORTSC_PRC) s3;
                    (enabled, s5) = reg_test sc USB_OPREG_PORTSC_PED s4
                in if \<not> enabled then Inr (1, s5)
                   else let s6 = put_field 1 (port_field ''active'' s5) 1 s5;
                            (v, s7) = reg_read 4 sc s6;
                            s8 = put_field 1 (port_field ''speed'' s7)
                              (unat (drop_bit 10 (of_nat v AND USB_OPREG_PORTSC_SPEED) :: u32)) s7;
                            s9 = put_field 1 (port_field ''port'' s8) (unat port) s8
                        in bindR (usb_doorbell 0 0 (enable_slot s9))
                          (\<lambda>s10. bindR (show_events 0 USB_EVENTRING_TRBCOUNT s10) (\<lambda>s11. Inr (0, s11))))"

definition port_report :: "string \<Rightarrow> nat \<Rightarrow> int \<Rightarrow> 'a xhci_scheme \<Rightarrow> 'a xhci_scheme res" where
  "port_report fn i sts s =
     (if sts = 0 then INFO fn ''Port %d: Connected successfully'' [W (of_nat i)] s
      else if sts = -1 then ERR fn ''Port %d: Unable to start device'' [W (of_nat i)] s
      else if sts = 1 then ERR fn ''Port %d: Device cannot start'' [W (of_nat i)] s
      else ERR fn ''Port %d: Unknown error'' [W (of_nat i)] s)"

text \<open>The loops over the ports; their bound is read from the controller at every turn. A counter of 256 turns is
  enough, since \<open>max_slots\<close> is at most 255.\<close>

definition process_port :: "nat \<Rightarrow> 'a xhci_scheme \<Rightarrow> 'a xhci_scheme res" where
  "process_port i s =
     (let (changed, s1) = reg_test (port_reg i s) USB_OPREG_PORTSC_CSC s
      in if \<not> changed then Inr s1
         else let (connected, s2) = reg_test (port_reg i s1) USB_OPREG_PORTSC_CCS s1
              in bindR (if connected then bindR (usb_portInit (of_nat i) s2) (\<lambda>(sts, s3). port_report ''usb_process'' i sts s3)
                        else INFO ''usb_process'' ''Port %d: Disconnected'' [W (of_nat i)] s2)
                   (\<lambda>s4. Inr (reg_mod (port_reg i s4) (\<lambda>v. v OR USB_OPREG_PORTSC_CSC) s4)))"

definition init_port :: "nat \<Rightarrow> 'a xhci_scheme \<Rightarrow> 'a xhci_scheme res" where
  "init_port i s =
     (let (connected, s1) = reg_test (port_reg i s) USB_OPREG_PORTSC_CCS s
      in if connected then bindR (usb_portInit (of_nat i) s1) (\<lambda>(sts, s2). port_report ''usb_init'' i sts s2) else Inr s1)"

fun slot_loop :: "(nat \<Rightarrow> 'a xhci_scheme \<Rightarrow> 'a xhci_scheme res) \<Rightarrow> nat \<Rightarrow> nat \<Rightarrow> 'a xhci_scheme \<Rightarrow> 'a xhci_scheme res" where
  "slot_loop f i 0 s = Inr s"
| "slot_loop f i (Suc k) s =
     (let (n, s1) = max_slots s in if i < n then bindR (f i s1) (slot_loop f (Suc i) k) else Inr s1)"

text \<open>One turn of the process, up to its \<open>yield\<close>; the flag says whether it goes on after it.\<close>

definition usb_stop :: "string \<Rightarrow> 'a xhci_scheme \<Rightarrow> (bool \<times> 'a xhci_scheme) res" where
  "usb_stop msg s = bindR (ERR ''usb_process'' msg [] s) (\<lambda>s1. bindR (exit_proc s1) (\<lambda>s2. Inr (False, s2)))"

definition usb_process :: "'a xhci_scheme \<Rightarrow> (bool \<times> 'a xhci_scheme) res" where
  "usb_process s =
     (if \<not> usb_InitLock s then usb_stop ''USB host controller not initialized'' s
      else let sts = op_reg ''USBSTS'' s; (hse, s1) = reg_test sts USB_OPREG_STS_HSE s
        in if hse then usb_stop ''USB host controller system error'' s1
           else let (hch, s2) = reg_test sts USB_OPREG_STS_HCH s1
                in if hch then usb_stop ''USB host controller in halt state'' s2
                   else let (cnr, s3) = reg_test sts USB_OPREG_STS_CNR s2
                        in if cnr then usb_stop ''USB host controller not ready'' s3
                           else bindR (slot_loop process_port 0 256 s3)
                             (\<lambda>s4. bindR (yield s4) (\<lambda>s5. Inr (True, s5))))"

section \<open>Initialization\<close>

text \<open>\<open>while (usb_Opregs->USBSTS & USB_OPREG_STS_CNR);\<close>\<close>

partial_function (option) ready_loop :: "addr \<Rightarrow> 'a xhci_scheme \<Rightarrow> 'a xhci_scheme option" where
  "ready_loop a s = (let (b, s1) = reg_test a USB_OPREG_STS_CNR s in if b then ready_loop a s1 else Some s1)"

text \<open>The lowest bit of \<open>PAGESIZE\<close>, which is read again for every bit; a shift is by its amount modulo 32, as the
  processor shifts.\<close>

fun page_loop :: "nat \<Rightarrow> nat \<Rightarrow> 'a xhci_scheme \<Rightarrow> nat \<times> 'a xhci_scheme" where
  "page_loop i 0 s = (0, s)"
| "page_loop i (Suc k) s =
     (let (b, s1) = reg_test (op_reg ''PAGESIZE'' s) (push_bit i 1) s
      in if b then (2 ^ ((12 + i) mod 32), s1) else page_loop (Suc i) k s1)"

text \<open>The error returns: the message, the reset bit, the regions given back.\<close>

fun free_all :: "addr list \<Rightarrow> 'a xhci_scheme \<Rightarrow> 'a xhci_scheme res" where
  "free_all [] s = Inr s"
| "free_all (p # ps) s = bindR (free p s) (free_all ps)"

definition usb_fail :: "string \<Rightarrow> addr list \<Rightarrow> 'a xhci_scheme \<Rightarrow> (int \<times> 'a xhci_scheme) res" where
  "usb_fail msg ps s =
     bindR (ERR ''usb_init'' msg [] s)
       (\<lambda>s1. bindR (free_all ps (reg_mod (op_reg ''USBCMD'' s1) (\<lambda>v. v OR USB_OPREG_CMD_HCRST) s1))
         (\<lambda>s2. Inr (-1, s2)))"

text \<open>\<open>calloc\<close> into a variable, with the test for null; \<open>aligned\<close> with the test that the region starts at a block.\<close>

definition usb_alloc :: "nat \<Rightarrow> nat \<Rightarrow> addr list \<Rightarrow> (addr \<Rightarrow> 'a xhci_scheme \<Rightarrow> 'a xhci_scheme) \<Rightarrow>
    (addr \<Rightarrow> 'a xhci_scheme \<Rightarrow> (int \<times> 'a xhci_scheme) res) \<Rightarrow> 'a xhci_scheme \<Rightarrow> (int \<times> 'a xhci_scheme) res" where
  "usb_alloc n sz ps store k s =
     bindR (calloc n sz s) (\<lambda>(p, s1). if p = 0 then usb_fail ''Out of memory'' ps (store p s1) else k p (store p s1))"

definition aligned :: "addr list \<Rightarrow> (addr \<Rightarrow> 'a xhci_scheme \<Rightarrow> (int \<times> 'a xhci_scheme) res) \<Rightarrow> addr \<Rightarrow>
    'a xhci_scheme \<Rightarrow> (int \<times> 'a xhci_scheme) res" where
  "aligned ps k p s = (if align_down p \<noteq> p then usb_fail ''Memory block not aligned'' ps s else k p s)"

fun context_loop :: "addr \<Rightarrow> addr \<Rightarrow> nat \<Rightarrow> nat \<Rightarrow> nat \<Rightarrow> 'a xhci_scheme \<Rightarrow> 'a xhci_scheme" where
  "context_loop dcbaa dcbase pagesize i 0 s = s"
| "context_loop dcbaa dcbase pagesize i (Suc k) s =
     (let (n, s1) = max_slots s
      in if i < n
         then context_loop dcbaa dcbase pagesize (Suc i) k (put_field 8 (dcbaa + 8 * i) (wrap32 (dcbase + i * pagesize)) s1)
         else s1)"

definition usb_start :: "addr \<Rightarrow> addr \<Rightarrow> addr \<Rightarrow> 'a xhci_scheme \<Rightarrow> (int \<times> 'a xhci_scheme) res" where
  "usb_start dcbaa dcbase ring s =
     (let sts = op_reg ''USBSTS'' s;
          s1 = reg_mod (op_reg ''USBCMD'' s) (\<lambda>v. v OR USB_OPREG_CMD_RS) s;
          (hch, s2) = reg_test sts USB_OPREG_STS_HCH (reg_wait sts USB_OPREG_STS_HCH 100000 s1)
      in if hch then usb_fail ''Host controller activation timed out'' [dcbaa, dcbase, ring] s2
         else bindR (INFO ''usb_init'' ''xHCI driver initialized'' [] s2)
           (\<lambda>s3. bindR (slot_loop init_port 0 256 (s3\<lparr>usb_InitLock := True\<rparr>)) (\<lambda>s4. Inr (0, s4))))"

text \<open>The event ring segment is described and the interrupter is told of it.\<close>

definition tell_events :: "addr \<Rightarrow> addr \<Rightarrow> 'a xhci_scheme \<Rightarrow> 'a xhci_scheme" where
  "tell_events erst evr s =
     (let s3 = put_field 8 (erst + offset_of usb_evtring_seg_t ''base'') evr s;
          s4 = put_field 2 (erst + offset_of usb_evtring_seg_t ''trb_count'') USB_EVENTRING_TRBCOUNT s3;
          s5 = reg_write 4 (ir_reg ''IMAN'' s4) 0 s4;
          s6 = reg_write 4 (ir_reg ''IMOD'' s5) 0 s5;
          s7 = reg_write 4 (ir_reg ''ERSTSZ'' s6) 1 s6;
          s8 = reg_write 8 (ir_reg ''ERSTBA'' s7) erst s7
      in reg_write 8 (ir_reg ''ERDP'' s8) evr s8)"

definition usb_events :: "addr \<Rightarrow> addr \<Rightarrow> addr \<Rightarrow> 'a xhci_scheme \<Rightarrow> (int \<times> 'a xhci_scheme) res" where
  "usb_events dcbaa dcbase ring =
     usb_alloc 1 (size_of usb_evtring_seg_t) [0, dcbaa, dcbase, ring] (\<lambda>p. usb_ERSTent_update (\<lambda>_. p))
       (\<lambda>erst. usb_alloc USB_EVENTRING_TRBCOUNT (size_of usb_EventTRB_t) [0, dcbaa, dcbase, ring] (\<lambda>p. usb_EventRing_update (\<lambda>_. p))
         (\<lambda>evr s2. usb_start dcbaa dcbase ring (tell_events erst evr s2)))"

definition usb_ports :: "addr \<Rightarrow> addr \<Rightarrow> addr \<Rightarrow> 'a xhci_scheme \<Rightarrow> (int \<times> 'a xhci_scheme) res" where
  "usb_ports dcbaa dcbase ring s =
     (let s1 = reg_write 8 (op_reg ''CRCR'' s) (unat ((of_nat ring AND NOT 0x3F) OR 1 :: u64)) s;
          (n, s2) = max_slots s1
      in usb_alloc n (size_of usb_Port_t) [dcbaa, dcbase, ring] (\<lambda>p. usb_PortV_update (\<lambda>_. p))
           (\<lambda>_. usb_events dcbaa dcbase ring) s2)"

definition usb_rings :: "addr \<Rightarrow> addr \<Rightarrow> 'a xhci_scheme \<Rightarrow> (int \<times> 'a xhci_scheme) res" where
  "usb_rings dcbaa dcbase =
     usb_alloc USB_TRBCOUNT (size_of usb_TRB_t) [dcbaa, dcbase] (\<lambda>p. usb_CmdRing_update (\<lambda>_. p))
       (\<lambda>ring. aligned [dcbaa, dcbase, ring] (usb_ports dcbaa dcbase) ring)"

definition usb_bases :: "nat \<Rightarrow> addr \<Rightarrow> 'a xhci_scheme \<Rightarrow> (int \<times> 'a xhci_scheme) res" where
  "usb_bases pagesize dcbaa s =
     (let (n, s1) = max_slots s
      in usb_alloc n pagesize [dcbaa] (\<lambda>_. id)
        (\<lambda>dcbase. aligned [dcbaa, dcbase]
          (\<lambda>dcbase s2. let s3 = context_loop dcbaa dcbase pagesize 0 256 s2
             in usb_rings dcbaa dcbase (reg_write 8 (op_reg ''DCBAAP'' s3) (unat (of_nat dcbaa AND NOT 0x3F :: u64)) s3))
          dcbase) s1)"

definition usb_contexts :: "nat \<Rightarrow> 'a xhci_scheme \<Rightarrow> (int \<times> 'a xhci_scheme) res" where
  "usb_contexts pagesize s =
     (let (n, s1) = max_slots s
      in usb_alloc n 8 [] (\<lambda>_. id) (\<lambda>dcbaa. aligned [dcbaa] (usb_bases pagesize) dcbaa) s1)"

text \<open>\<open>bar\<close> is the local structure, not initialised.\<close>

definition usb_map :: "addr \<Rightarrow> 'a xhci_scheme \<Rightarrow> 'a xhci_scheme res" where
  "usb_map base s =
     (let s1 = s\<lparr>usb_Capregs := base\<rparr>;
          (ver, s2) = reg_read 2 (cap_reg ''HCIVERSION'' s1) s1
      in bindR (INFO ''usb_init'' ''xHCI version: 0x%x'' [W (of_nat ver)] s2)
        (\<lambda>s3. let (len, s4) = reg_read 1 (cap_reg ''CAPLENGTH'' s3) s3;
                  (rts, s5) = reg_read 4 (cap_reg ''RTSOFF'' s4) s4;
                  (db, s6) = reg_read 4 (cap_reg ''DBOFF'' s5) s5
              in Inr (s6\<lparr>usb_Opregs := wrap32 (base + len),
                   usb_RTregs := wrap32 (base + unat (of_nat rts AND 0xFFFFFFE0 :: u32)),
                   usb_DBregs := wrap32 (base + unat (of_nat db AND 0xFFFFFFFC :: u32))\<rparr>)))"

definition usb_bring_up :: "'a xhci_scheme \<Rightarrow> (int \<times> 'a xhci_scheme) res" where
  "usb_bring_up s =
     (case ready_loop (op_reg ''USBSTS'' s) s of
        None \<Rightarrow> Inl Diverges
      | Some s1 \<Rightarrow>
          let cfg = op_reg ''CONFIG'' s1;
              s2 = reg_mod cfg (\<lambda>v. v AND NOT USB_MAXSLOTS) s1;
              (p1, s3) = reg_read 4 (cap_reg ''HCSPARAMS1'' s2) s2;
              s4 = reg_mod cfg (\<lambda>v. v OR (of_nat p1 AND USB_MAXSLOTS)) s3;
              (pagesize, s5) = page_loop 0 32 s4
          in usb_contexts pagesize s5)"

definition usb_init :: "devbus_BAR_t \<Rightarrow> devbus_Device_t \<Rightarrow> 'a xhci_scheme \<Rightarrow> (int \<times> 'a xhci_scheme) res" where
  "usb_init bar dev s =
     (let refuse = (\<lambda>msg t. bindR (ERR ''usb_init'' msg [] t) (\<lambda>t1. Inr (-1, t1)))
      in if usb_InitLock s then refuse ''Multiple USB hosts not supported'' s
         else if iface dev \<noteq> 0x30 then refuse ''Only xHCI is supported'' s
         else let (r, s1) = devbus_read (dev_bus dev) (dev_slot dev) (dev_func dev) 24 s
              in bindR (INFO ''usb_init'' ''xHCI release number: 0x%x'' [W (r AND 0xFF)] s1)
                (\<lambda>s2. case devbus_getBAR (Some bar) (dev_bus dev) (dev_slot dev) (dev_func dev) 0 s2 of
                    (Some b, s3) \<Rightarrow>
                      if bar_type b \<noteq> DEVBUS_BARTYPE_MM then refuse ''Device BAR is not memory-mapped'' s3
                      else bindR (usb_map (unat (bar_addr b)) s3) usb_bring_up
                  | (None, s3) \<Rightarrow> Inr (-1, s3)))"

section \<open>What the driver does to the machine\<close>

text \<open>The register writes of a stretch of the log, addresses and values.\<close>

definition writes :: "mmio_event list \<Rightarrow> (addr \<times> nat) list" where
  "writes l = concat (map (\<lambda>e. case e of MRead n a \<Rightarrow> [] | MWrite n a v \<Rightarrow> [(a, v)]) l)"

lemma writes_simps [simp]:
  "writes [] = []" "writes (l @ l') = writes l @ writes l'" "writes (MRead n a # l) = writes l"
  "writes (MWrite n a v # l) = (a, v) # writes l"
  by (simp_all add: writes_def)

text \<open>From \<open>s\<close> to \<open>s'\<close> the driver has written \<open>ws\<close>, whatever the controller did meanwhile, and given back no memory.\<close>

definition usb_path :: "(addr \<times> nat) list \<Rightarrow> 'a xhci_scheme \<Rightarrow> 'a xhci_scheme \<Rightarrow> bool" where
  "usb_path ws s s' \<longleftrightarrow> mm_inv s' \<and> live s \<subseteq>\<^sub>m live s' \<and> (\<exists>l. mmio_log s' = mmio_log s @ l \<and> writes l = ws) \<and>
     usb_InitLock s' = usb_InitLock s \<and> usb_Opregs s' = usb_Opregs s \<and> usb_RTregs s' = usb_RTregs s \<and>
     memory_BlockC s' = memory_BlockC s \<and> same_bus s s'"

lemma usb_path_refl: "mm_inv s \<Longrightarrow> usb_path [] s s"
  by (simp add: usb_path_def)

lemma usb_path_trans: "usb_path ws s t \<Longrightarrow> usb_path ws' t u \<Longrightarrow> usb_path (ws @ ws') s u"
  unfolding usb_path_def by (auto intro: map_le_trans)

lemma usb_path_inv: "usb_path ws s t \<Longrightarrow> mm_inv t"
  by (simp add: usb_path_def)

text \<open>Fields that are no part of the heap, the lock or the register bases.\<close>

lemma usb_path_fields:
  assumes "mm_inv s" "memory_InitLock s' = memory_InitLock s" "memory_Space s' = memory_Space s" "memory_Limit s' = memory_Limit s"
    "memory_BlockV s' = memory_BlockV s" "memory_BlockC s' = memory_BlockC s" "usb_InitLock s' = usb_InitLock s"
    "usb_Opregs s' = usb_Opregs s" "usb_RTregs s' = usb_RTregs s" "mmio_log s' = mmio_log s @ l" "same_bus s s'"
  shows "usb_path (writes l) s s'"
proof -
  have "live s' = live s" by (rule live_cong) (simp_all add: assms)
  moreover have "mm_inv s'" using assms(1) mm_inv_cong [of s' s] by (simp add: assms)
  ultimately show ?thesis using assms by (simp add: usb_path_def)
qed

lemma path_reg_read: "mm_inv s \<Longrightarrow> usb_path [] s (snd (reg_read n a s))"
  using usb_path_fields [of s "snd (reg_read n a s)" "[MRead n a]"] by (simp add: reg_read_def mmio_def Let_def)

lemma path_reg_write: "mm_inv s \<Longrightarrow> usb_path [(a, v)] s (reg_write n a v s)"
  using usb_path_fields [of s "reg_write n a v s" "[MWrite n a v]"] by (simp add: reg_write_def mmio_def Let_def)

lemma path_put_field: "mm_inv s \<Longrightarrow> usb_path [] s (put_field n a v s)"
  using usb_path_fields [of s "put_field n a v s" "[]"] by (simp add: put_field_def)

lemma path_tty: "mm_inv s \<Longrightarrow> usb_path [] s (s\<lparr>tty := t\<rparr>)"
  using usb_path_fields [of s "s\<lparr>tty := t\<rparr>" "[]"] by simp

lemma path_reg_test: "mm_inv s \<Longrightarrow> usb_path [] s (snd (reg_test a x s))"
  using path_reg_read [of s 4 a] by (simp add: reg_test_def split_beta)

lemma path_reg_mod: "mm_inv s \<Longrightarrow> \<exists>v. usb_path [(a, unat (f v))] s (reg_mod a f s)"
  using usb_path_trans [OF path_reg_read [of s 4 a] path_reg_write [of "snd (reg_read 4 a s)" a _ 4]]
    usb_path_inv [OF path_reg_read [of s 4 a]]
  by (auto simp: reg_mod_def split_beta)

lemma path_max_slots:
  assumes "mm_inv s"
  shows "usb_path [] s (snd (max_slots s))" "fst (max_slots s) \<le> 255"
proof -
  show "usb_path [] s (snd (max_slots s))" using path_reg_read [OF assms] by (simp add: max_slots_def split_beta)
  have "unat (x AND 0xFF) \<le> 255" for x :: u32
    unfolding mask_ands using unsigned_less [of "take_bit 8 x"]
    by (simp add: unsigned_take_bit_eq take_bit_nat_def)
  then show "fst (max_slots s) \<le> 255" by (simp add: max_slots_def split_beta)
qed

lemma path_reg_wait: "mm_inv s \<Longrightarrow> usb_path [] s (reg_wait a x t s)"
proof (induction t arbitrary: s)
  case (Suc t)
  note p = path_reg_test [OF Suc.prems, of a x]
  show ?case using usb_path_trans [OF p Suc.IH [OF usb_path_inv [OF p]]] p by (simp add: split_beta)
qed (simp add: usb_path_refl)

lemma path_page_loop: "mm_inv s \<Longrightarrow> usb_path [] s (snd (page_loop i k s))"
proof (induction k arbitrary: i s)
  case (Suc k)
  note p = path_reg_test [OF Suc.prems, of "op_reg ''PAGESIZE'' s" "push_bit i 1"]
  show ?case using usb_path_trans [OF p Suc.IH [OF usb_path_inv [OF p], of "Suc i"]] p by (simp add: split_beta)
qed (simp add: usb_path_refl)

lemma page_loop_power: "fst (page_loop i k s) = 0 \<or> (\<exists>n<32. fst (page_loop i k s) = 2 ^ n)"
proof (induction k arbitrary: i s)
  case (Suc k)
  then show ?case by (auto simp: split_beta intro: exI [of _ "(12 + i) mod 32"])
qed simp

lemma path_context_loop: "mm_inv s \<Longrightarrow> usb_path [] s (context_loop d b ps i k s)"
proof (induction k arbitrary: i s)
  case (Suc k)
  note p = path_max_slots(1) [OF Suc.prems]
  note q = usb_path_trans [OF p path_put_field [OF usb_path_inv [OF p], of 8 "d + 8 * i" "wrap32 (b + i * ps)"]]
  show ?case using usb_path_trans [OF q Suc.IH [OF usb_path_inv [OF q], of "Suc i"]] p by (simp add: split_beta)
qed (simp add: usb_path_refl)

text \<open>A step that always succeeds, writing some registers.\<close>

definition path_to :: "'a xhci_scheme \<Rightarrow> 'a xhci_scheme res \<Rightarrow> bool" where
  "path_to s r \<longleftrightarrow> (\<exists>ws s'. r = Inr s' \<and> usb_path ws s s')"

lemma path_to_bind: "path_to s r \<Longrightarrow> (\<And>t. mm_inv t \<Longrightarrow> path_to t (f t)) \<Longrightarrow> path_to s (bindR r f)"
  unfolding path_to_def using usb_path_trans usb_path_inv by fastforce

lemma path_to_after: "usb_path ws s t \<Longrightarrow> path_to t r \<Longrightarrow> path_to s r"
  unfolding path_to_def using usb_path_trans by blast

lemma path_to_Inr: "usb_path ws s t \<Longrightarrow> path_to s (Inr t)"
  by (auto simp: path_to_def)

lemma path_port_message:
  assumes "mm_inv s" "fmt \<in> {''Port %d: Connected successfully'', ''Port %d: Unable to start device'', ''Port %d: Device cannot start'', ''Port %d: Unknown error'', ''Port %d: Disconnected''}"
  shows "path_to s (INFO fn fmt [W n] s)" "path_to s (ERR fn fmt [W n] s)"
proof -
  have "\<exists>t. INFO fn fmt [W n] s = Inr (s\<lparr>tty := t\<rparr>)" using assms(2) unfolding INFO_def
    by (elim insertE emptyE; simp only:; intro message_accepts; simp add: cstr_def)
  then show "path_to s (INFO fn fmt [W n] s)" using path_tty [OF assms(1)] by (auto simp: path_to_def)
  have "\<exists>t. ERR fn fmt [W n] s = Inr (s\<lparr>tty := t\<rparr>)" using assms(2) unfolding ERR_def
    by (elim insertE emptyE; simp only:; intro message_accepts; simp add: cstr_def)
  then show "path_to s (ERR fn fmt [W n] s)" using path_tty [OF assms(1)] by (auto simp: path_to_def)
qed

lemma path_error:
  assumes "mm_inv s" "37 \<notin> set (cstr fmt)"
  obtains s' where "ERR fn fmt [] s = Inr s'" "usb_path [] s s'"
  using messages_print(3) [OF assms(2), of fn s] path_tty [OF assms(1)] by blast

lemma path_show_event: "mm_inv s \<Longrightarrow> path_to s (show_event i s)"
proof -
  assume inv: "mm_inv s"
  have p: "path_to t (printf fmt args t)" if "mm_inv t" "accepts fmt args" "printable fmt" for t :: "'a xhci_scheme" and fmt args
    using message_accepts [OF that(2,3), of t] path_tty [OF that(1)] by (auto simp: path_to_def)
  have v: "path_to t (printf (cstr ''0x%x'' @ [10]) [W n] t)" if "mm_inv t" for t :: "'a xhci_scheme" and n
    by (rule p [OF that]) (simp_all add: cstr_def)
  show ?thesis unfolding show_event_def Let_def
    by (intro path_to_bind p inv v) (simp_all add: cstr_def)
qed

lemma path_show_events: "mm_inv s \<Longrightarrow> path_to s (show_events i k s)"
proof (induction k arbitrary: i s)
  case (Suc k)
  then show ?case
    using path_show_event [OF Suc.prems] path_to_Inr [OF usb_path_refl [OF Suc.prems]]
    by (auto intro!: path_to_bind)
qed (auto intro: path_to_Inr usb_path_refl)

lemma path_doorbell: "mm_inv s \<Longrightarrow> path_to s (usb_doorbell a b s)"
proof -
  assume inv: "mm_inv s"
  show ?thesis
  proof (cases "usb_InitLock s")
    case True
    have "path_to s (Inr (reg_write 2 c 0 (reg_write 1 d 0 (reg_write 1 e f s))))" for c d e f
      using usb_path_trans [OF usb_path_trans [OF path_reg_write [OF inv] path_reg_write] path_reg_write]
        usb_path_inv [OF path_reg_write [OF inv]] usb_path_inv [OF path_reg_write]
      by (meson path_to_Inr)
    then show ?thesis using True by (simp add: usb_doorbell_def Let_def)
  next
    case False
    obtain s' where "ERR ''usb_doorbell'' ''USB host controller not initialized'' [] s = Inr s'" "usb_path [] s s'"
      using path_error [OF inv, of "''USB host controller not initialized''"] by (auto simp: cstr_def)
    then show ?thesis using False by (auto simp: usb_doorbell_def path_to_def)
  qed
qed


lemma path_enable_slot: "mm_inv s \<Longrightarrow> usb_path [] s (enable_slot s)"
proof -
  assume inv: "mm_inv s"
  have p: "usb_path [] s (put_field 4 c x (put_field 4 d y (put_field 4 e z s)))" for c d e x y z
    using usb_path_trans [OF usb_path_trans [OF path_put_field [OF inv] path_put_field] path_put_field]
      usb_path_inv [OF path_put_field [OF inv]] usb_path_inv [OF path_put_field]
    by (metis append_Nil)
  show ?thesis unfolding enable_slot_def Let_def by (rule p)
qed

lemma path_portInit: "mm_inv s \<Longrightarrow> \<exists>r s' ws. usb_portInit port s = Inr (r, s') \<and> usb_path ws s s'"
proof -
  assume inv: "mm_inv s"
  let ?sc = "port_reg (unat port) s"
  show ?thesis
  proof (cases "usb_InitLock s")
    case False
    then show ?thesis using usb_path_refl [OF inv] by (auto simp: usb_portInit_def)
  next
    case lock: True
    define s1 where "s1 = snd (reg_test ?sc 1 s)"
    define s2 where "s2 = reg_mod ?sc (\<lambda>v. v OR 0x10) s1"
    define s3 where "s3 = reg_wait ?sc 0x10 100000 s2"
    define s4 where "s4 = reg_mod ?sc (\<lambda>v. v OR 0x200000) s3"
    define s5 where "s5 = snd (reg_test ?sc 2 s4)"
    define s6 where "s6 = put_field 1 (port_field ''active'' s5) 1 s5"
    define s7 where "s7 = snd (reg_read 4 ?sc s6)"
    define v where "v = fst (reg_read 4 ?sc s6)"
    define s8 where "s8 = put_field 1 (port_field ''speed'' s7) (unat (drop_bit 10 (of_nat v AND 0x3C00) :: u32)) s7"
    define s9 where "s9 = enable_slot (put_field 1 (port_field ''port'' s8) (unat port) s8)"
    have p1: "usb_path [] s s1" unfolding s1_def by (rule path_reg_test [OF inv])
    obtain w2 where p2: "usb_path w2 s s2"
      using path_reg_mod [OF usb_path_inv [OF p1]] usb_path_trans [OF p1] unfolding s2_def by blast
    have p3: "usb_path w2 s s3" using usb_path_trans [OF p2 path_reg_wait [OF usb_path_inv [OF p2]]] by (simp add: s3_def)
    obtain w4 where p4: "usb_path w4 s s4"
      using path_reg_mod [OF usb_path_inv [OF p3]] usb_path_trans [OF p3] unfolding s4_def by blast
    have p5: "usb_path w4 s s5" using usb_path_trans [OF p4 path_reg_test [OF usb_path_inv [OF p4]]] by (simp add: s5_def)
    have p6: "usb_path w4 s s6" using usb_path_trans [OF p5 path_put_field [OF usb_path_inv [OF p5]]] by (simp add: s6_def)
    have p7: "usb_path w4 s s7" using usb_path_trans [OF p6 path_reg_read [OF usb_path_inv [OF p6]]] by (simp add: s7_def)
    have p8: "usb_path w4 s s8" using usb_path_trans [OF p7 path_put_field [OF usb_path_inv [OF p7]]] by (simp add: s8_def)
    let ?t = "put_field 1 (port_field ''port'' s8) (unat port) s8"
    have pt: "usb_path w4 s ?t" using usb_path_trans [OF p8 path_put_field [OF usb_path_inv [OF p8]]] by simp
    have p9: "usb_path w4 s s9" using usb_path_trans [OF pt path_enable_slot [OF usb_path_inv [OF pt]]] by (simp add: s9_def)
    have "path_to s9 (bindR (usb_doorbell 0 0 s9) (show_events 0 16))"
      by (intro path_to_bind path_doorbell path_show_events usb_path_inv [OF p9])
    then obtain ws s10 where d: "bindR (usb_doorbell 0 0 s9) (show_events 0 16) = Inr s10" "usb_path ws s9 s10"
      by (auto simp: path_to_def)
    let ?c = "fst (reg_test ?sc 1 s)" and ?e = "fst (reg_test ?sc 2 s4)"
    have "usb_portInit port s = (if \<not> ?c then Inr (-1, s1) else if \<not> ?e then Inr (1, s5) else
        bindR (bindR (usb_doorbell 0 0 s9) (show_events 0 16)) (\<lambda>s11. Inr (0, s11)))"
      using lock unfolding usb_portInit_def Let_def s9_def s8_def s7_def v_def s6_def s5_def s4_def s3_def s2_def s1_def
      by (simp add: split_beta bindR_assoc)
    then have "usb_portInit port s = (if \<not> ?c then Inr (-1, s1) else if \<not> ?e then Inr (1, s5) else Inr (0, s10))"
      using d(1) by simp
    then show ?thesis using p1 p5 usb_path_trans [OF p9 d(2)] by (cases ?c; cases ?e) auto
  qed
qed

lemma path_init_port: "mm_inv s \<Longrightarrow> path_to s (init_port i s)"
proof -
  assume inv: "mm_inv s"
  let ?s1 = "snd (reg_test (port_reg i s) 1 s)"
  note p = path_reg_test [OF inv, of "port_reg i s" 1]
  obtain r s2 ws where i: "usb_portInit (of_nat i) ?s1 = Inr (r, s2)" "usb_path ws ?s1 s2"
    using path_portInit [OF usb_path_inv [OF p]] by blast
  have "path_to s2 (port_report ''usb_init'' i r s2)"
    using usb_path_inv [OF i(2)] by (simp add: port_report_def path_port_message)
  then have "path_to s (port_report ''usb_init'' i r s2)" by (rule path_to_after [OF usb_path_trans [OF p i(2)]])
  then show ?thesis using p i(1) by (auto simp: init_port_def split_beta path_to_Inr)
qed

lemma path_slot_loop:
  assumes "\<And>i t. mm_inv t \<Longrightarrow> path_to t (f i t)" "mm_inv s"
  shows "path_to s (slot_loop f i k s)"
  using assms(2)
proof (induction k arbitrary: i s)
  case (Suc k)
  note p = path_max_slots(1) [OF Suc.prems]
  have "path_to (snd (max_slots s)) (bindR (f i (snd (max_slots s))) (slot_loop f (Suc i) k))"
    by (intro path_to_bind assms(1) usb_path_inv [OF p] Suc.IH)
  then show ?case using path_to_after [OF p] path_to_Inr [OF p] by (simp add: split_beta)
qed (auto intro: path_to_Inr usb_path_refl)

text \<open>Regions \<open>ps\<close> allocated on the way from \<open>s0\<close> to \<open>s\<close>.\<close>

definition owns :: "'a xhci_scheme \<Rightarrow> (addr \<times> nat) list \<Rightarrow> addr list \<Rightarrow> 'a xhci_scheme \<Rightarrow> bool" where
  "owns s0 ws ps s \<longleftrightarrow> usb_path ws s0 s \<and> distinct ps \<and>
     (\<forall>p\<in>set ps. p \<noteq> 0 \<and> p mod MEMORY_BLKSIZE = 0 \<and> live s0 p = None \<and> live s p \<noteq> None)"

lemma owns_inv: "owns s0 ws ps s \<Longrightarrow> mm_inv s"
  by (simp add: owns_def usb_path_def)

lemma owns_start: "mm_inv s \<Longrightarrow> owns s [] [] s"
  by (simp add: owns_def usb_path_refl)

lemma owns_path: "owns s0 ws ps s \<Longrightarrow> usb_path ws' s t \<Longrightarrow> owns s0 (ws @ ws') ps t"
  unfolding owns_def using usb_path_trans [of ws s0 s ws' t]
  by (auto simp: usb_path_def map_le_def dom_def)

lemma owns_read: "owns s0 ws ps s \<Longrightarrow> usb_path [] s t \<Longrightarrow> owns s0 ws ps t"
  using owns_path [of s0 ws ps s "[]" t] by simp

lemma owns_regs:
  assumes "owns s0 ws ps s"
  shows "op_reg f s = op_reg f s0" "ir_reg f s = ir_reg f s0" "usb_InitLock s = usb_InitLock s0"
  using assms by (simp_all add: owns_def usb_path_def op_reg_def ir_reg_def)

lemma owns_bound: "owns s0 ws ps s \<Longrightarrow> p \<in> set ps \<Longrightarrow> p < 4294967296"
proof -
  assume h: "owns s0 ws ps s" "p \<in> set ps"
  then obtain k where "live s p = Some k" by (auto simp: owns_def)
  from live_bounds [OF owns_inv [OF h(1)] this] owns_inv [OF h(1)] show ?thesis by (simp add: mm_inv_def)
qed

text \<open>The storing function only writes a variable of the driver.\<close>

definition plain_store :: "(addr \<Rightarrow> 'a xhci_scheme \<Rightarrow> 'a xhci_scheme) \<Rightarrow> bool" where
  "plain_store f \<longleftrightarrow> (\<forall>p s. mm_inv s \<longrightarrow> usb_path [] s (f p s))"

lemma plain_stores:
  "plain_store (\<lambda>_. id)" "plain_store (\<lambda>p. usb_CmdRing_update (\<lambda>_. p))" "plain_store (\<lambda>p. usb_PortV_update (\<lambda>_. p))"
  "plain_store (\<lambda>p. usb_ERSTent_update (\<lambda>_. p))" "plain_store (\<lambda>p. usb_EventRing_update (\<lambda>_. p))"
  unfolding plain_store_def
  by (auto simp: usb_path_refl intro: usb_path_fields [where l = "[]", simplified])

lemma owns_calloc:
  assumes "owns s0 ws ps s" "wrap32 (n * k) \<le> 4294963200" "plain_store f"
  shows "calloc n k s = Inl OutOfBounds \<or> calloc n k s = Inr (0, s) \<and> owns s0 ws ps (f 0 s) \<or>
    (\<exists>p s1. calloc n k s = Inr (p, s1) \<and> p \<noteq> 0 \<and> owns s0 ws (p # ps) (f p s1))"
  using calloc_outcome [OF owns_inv [OF assms(1)] assms(2)]
proof (elim disjE exE conjE)
  assume "calloc n k s = Inr (0, s)"
  then show ?thesis using assms(3) owns_inv [OF assms(1)] owns_read [OF assms(1)] by (auto simp: plain_store_def)
next
  fix p V m
  let ?t = "s\<lparr>memory_BlockV := V, mem := m\<rparr>"
  assume c: "calloc n k s = Inr (p, ?t)" "p \<noteq> 0" "p mod MEMORY_BLKSIZE = 0" "live s p = None"
    "live (s\<lparr>memory_BlockV := V\<rparr>) = (live s)(p \<mapsto> nblocks (wrap32 (n * k)) * MEMORY_BLKSIZE)" "mm_inv (s\<lparr>memory_BlockV := V\<rparr>)"
  have i: "mm_inv ?t" using c(6) mm_inv_cong [of ?t "s\<lparr>memory_BlockV := V\<rparr>"] by simp
  have "usb_path [] s ?t" using i c(4) by (auto simp: usb_path_def c(5) map_le_def)
  then have o: "owns s0 ws ps ?t" by (rule owns_read [OF assms(1)])
  have "live s0 \<subseteq>\<^sub>m live s" using assms(1) by (simp add: owns_def usb_path_def)
  then have "live s0 p = None" using c(4) unfolding map_le_def dom_def by (cases "live s0 p") auto
  moreover have "p \<notin> set ps" using c(4) assms(1) by (auto simp: owns_def)
  ultimately have "owns s0 ws (p # ps) ?t" using o c(2,3) by (simp add: owns_def c(5))
  moreover have "usb_path [] ?t (f p ?t)" by (rule assms(3) [unfolded plain_store_def, rule_format, OF i])
  ultimately have "owns s0 ws (p # ps) (f p ?t)" by (rule owns_read)
  then show ?thesis using c(1,2) by blast
qed simp

text \<open>The two ways an initialization ends.\<close>

definition usb_dead :: "'a xhci_scheme \<Rightarrow> 'a xhci_scheme \<Rightarrow> bool" where
  "usb_dead s0 s' \<longleftrightarrow> mm_inv s' \<and> live s0 \<subseteq>\<^sub>m live s' \<and> usb_InitLock s' = usb_InitLock s0 \<and> same_bus s0 s' \<and>
     (\<exists>l ws v. mmio_log s' = mmio_log s0 @ l \<and> writes l = ws @ [(op_reg ''USBCMD'' s0, v)] \<and> bit v 1)"

definition usb_running :: "'a xhci_scheme \<Rightarrow> 'a xhci_scheme \<Rightarrow> bool" where
  "usb_running s0 s' \<longleftrightarrow> mm_inv s' \<and> live s0 \<subseteq>\<^sub>m live s' \<and> usb_InitLock s' \<and> same_bus s0 s' \<and>
     (\<exists>l dcbaa dcbase ring pv erst evr c1 c2 cmd post.
        mmio_log s' = mmio_log s0 @ l \<and>
        writes l = [(op_reg ''CONFIG'' s0, c1), (op_reg ''CONFIG'' s0, c2), (op_reg ''DCBAAP'' s0, dcbaa), (op_reg ''CRCR'' s0, ring + 1),
          (ir_reg ''IMAN'' s0, 0), (ir_reg ''IMOD'' s0, 0), (ir_reg ''ERSTSZ'' s0, 1), (ir_reg ''ERSTBA'' s0, erst),
          (ir_reg ''ERDP'' s0, evr), (op_reg ''USBCMD'' s0, cmd)] @ post \<and>
        bit cmd 0 \<and> distinct [dcbaa, dcbase, ring, pv, erst, evr] \<and>
        (\<forall>p\<in>{dcbaa, dcbase, ring, pv, erst, evr}. p mod MEMORY_BLKSIZE = 0 \<and> live s0 p = None \<and> live s' p \<noteq> None))"

definition usb_ends :: "'a xhci_scheme \<Rightarrow> (int \<times> 'a xhci_scheme) res \<Rightarrow> bool" where
  "usb_ends s0 r \<longleftrightarrow> r = Inl OutOfBounds \<or> (\<exists>s'. r = Inr (-1, s') \<and> usb_dead s0 s') \<or> (\<exists>s'. r = Inr (0, s') \<and> usb_running s0 s')"

lemma free_all_keeps:
  assumes "mm_inv s" "distinct (filter (\<lambda>p. p \<noteq> 0) ps)" "\<forall>p\<in>set ps. p \<noteq> 0 \<longrightarrow> live s p \<noteq> None"
  shows "\<exists>V. free_all ps s = Inr (s\<lparr>memory_BlockV := V\<rparr>) \<and> mm_inv (s\<lparr>memory_BlockV := V\<rparr>) \<and>
    live (s\<lparr>memory_BlockV := V\<rparr>) = (\<lambda>a. if a \<in> set ps then None else live s a)"
  using assms
proof (induction ps arbitrary: s)
  case Nil
  then show ?case by (intro exI [of _ "memory_BlockV s"]) simp
next
  case (Cons p ps)
  show ?case
  proof (cases "p = 0")
    case True
    then have f: "free p s = Inr s" by (simp add: free_def bad_pointer_def)
    have "live s 0 = None" using live_bounds(4) [OF Cons.prems(1), of 0] by (cases "live s 0") auto
    then show ?thesis using Cons.IH [OF Cons.prems(1)] Cons.prems(2,3) f True by (auto simp: fun_eq_iff)
  next
    case False
    then obtain k where k: "live s p = Some k" using Cons.prems(3) by auto
    from free_live [OF Cons.prems(1) k] obtain V where V: "free p s = Inr (s\<lparr>memory_BlockV := V\<rparr>)" "mm_inv (s\<lparr>memory_BlockV := V\<rparr>)"
      "live (s\<lparr>memory_BlockV := V\<rparr>) = (live s)(p := None)" by blast
    have "p \<notin> set ps" using Cons.prems(2) False by auto
    then have "\<forall>q\<in>set ps. q \<noteq> 0 \<longrightarrow> live (s\<lparr>memory_BlockV := V\<rparr>) q \<noteq> None" using Cons.prems(3) by (auto simp: V(3))
    with Cons.IH [OF V(2)] Cons.prems(2) False obtain U where
      U: "free_all ps (s\<lparr>memory_BlockV := V\<rparr>) = Inr (s\<lparr>memory_BlockV := U\<rparr>)" "mm_inv (s\<lparr>memory_BlockV := U\<rparr>)"
      "live (s\<lparr>memory_BlockV := U\<rparr>) = (\<lambda>a. if a \<in> set ps then None else live (s\<lparr>memory_BlockV := V\<rparr>) a)" by auto
    show ?thesis using V U by (intro exI [of _ U]) (auto simp: fun_eq_iff)
  qed
qed


lemma fail_dead:
  assumes o: "owns s0 ws qs s" and ps: "set ps \<subseteq> insert 0 (set qs)" "distinct (filter (\<lambda>p. p \<noteq> 0) ps)"
    and msg: "37 \<notin> set (cstr msg)"
  shows "usb_ends s0 (usb_fail msg ps s)"
proof -
  obtain s1 where s1: "ERR ''usb_init'' msg [] s = Inr s1" "usb_path [] s s1" by (rule path_error [OF owns_inv [OF o] msg])
  have o1: "owns s0 ws qs s1" by (rule owns_read [OF o s1(2)])
  let ?a = "op_reg ''USBCMD'' s0"
  define s2 where "s2 = reg_mod ?a (\<lambda>v. v OR 2) s1"
  obtain x :: u32 where p2: "usb_path [(?a, unat (x OR 2))] s1 s2"
    using path_reg_mod [OF owns_inv [OF o1], of ?a "\<lambda>v. v OR 2"] unfolding s2_def by blast
  have o2: "owns s0 (ws @ [(?a, unat (x OR 2))]) qs s2" by (rule owns_path [OF o1 p2])
  have "\<forall>p\<in>set ps. p \<noteq> 0 \<longrightarrow> live s2 p \<noteq> None" using o2 ps(1) by (auto simp: owns_def)
  from free_all_keeps [OF owns_inv [OF o2] ps(2) this] obtain V where
    V: "free_all ps s2 = Inr (s2\<lparr>memory_BlockV := V\<rparr>)" "mm_inv (s2\<lparr>memory_BlockV := V\<rparr>)"
    "live (s2\<lparr>memory_BlockV := V\<rparr>) = (\<lambda>a. if a \<in> set ps then None else live s2 a)" by blast
  have r: "usb_fail msg ps s = Inr (-1, s2\<lparr>memory_BlockV := V\<rparr>)"
    using s1(1) V(1) owns_regs(1) [OF o1] by (simp add: usb_fail_def s2_def)
  have "live s0 \<subseteq>\<^sub>m live s2" using o2 by (simp add: owns_def usb_path_def)
  moreover have "a \<notin> set ps" if "a \<in> dom (live s0)" for a
    using that ps(1) o2 live_bounds(4) [of s2 a] owns_inv [OF o2] \<open>live s0 \<subseteq>\<^sub>m live s2\<close>
    by (auto simp: owns_def map_le_def dom_def)
  ultimately have "live s0 \<subseteq>\<^sub>m live (s2\<lparr>memory_BlockV := V\<rparr>)" by (auto simp: V(3) map_le_def)
  moreover obtain l where "mmio_log s2 = mmio_log s0 @ l" "writes l = ws @ [(?a, unat (x OR 2))]"
    using o2 by (auto simp: owns_def usb_path_def)
  moreover have "bit (unat (x OR 2)) 1"
    by (simp add: bit_unsigned_iff bit_or_iff)
  ultimately have "usb_dead s0 (s2\<lparr>memory_BlockV := V\<rparr>)"
    using V(2) owns_regs(3) [OF o2] o2 unfolding usb_dead_def by (simp add: owns_def usb_path_def)
  then show ?thesis using r by (auto simp: usb_ends_def)
qed

lemma aligned_skip: "p mod MEMORY_BLKSIZE = 0 \<Longrightarrow> aligned ps k p s = k p s"
  by (simp add: aligned_def align_down_def) (metis add.right_neutral div_mult_mod_eq mult.commute)

lemma owns_alloc:
  assumes "owns s0 ws qs s" "wrap32 (n * k) \<le> 4294963200" "plain_store f"
    and "set ps \<subseteq> insert 0 (set qs)" "distinct (filter (\<lambda>p. p \<noteq> 0) ps)"
    and "\<And>p t. owns s0 ws (p # qs) t \<Longrightarrow> usb_ends s0 (g p t)"
  shows "usb_ends s0 (usb_alloc n k ps f g s)"
  using owns_calloc [OF assms(1-3)]
proof (elim disjE exE conjE)
  assume "calloc n k s = Inl OutOfBounds"
  then show ?thesis by (simp add: usb_alloc_def usb_ends_def)
next
  assume c: "calloc n k s = Inr (0, s)" "owns s0 ws qs (f 0 s)"
  have "usb_ends s0 (usb_fail ''Out of memory'' ps (f 0 s))" by (rule fail_dead [OF c(2) assms(4,5)]) (simp add: cstr_def)
  then show ?thesis using c(1) by (simp add: usb_alloc_def)
next
  fix p s1 assume "calloc n k s = Inr (p, s1)" "p \<noteq> 0" "owns s0 ws (p # qs) (f p s1)"
  then show ?thesis using assms(6) by (simp add: usb_alloc_def)
qed

lemma owns_write: "owns s0 ws ps s \<Longrightarrow> owns s0 (ws @ [(a, v)]) ps (reg_write n a v s)"
  using owns_path path_reg_write owns_inv by blast

lemma pointer_bits:
  assumes "p mod MEMORY_BLKSIZE = 0" "p < 4294967296"
  shows "unat (of_nat p AND NOT 0x3F :: u64) = p" "unat ((of_nat p AND NOT 0x3F) OR 1 :: u64) = p + 1"
proof -
  let ?w = "of_nat p :: u64"
  obtain q where q: "p = q * 4096" using assms(1) by (metis dvdE mod_0_imp_dvd mult.commute)
  have u: "unat ?w = p" using assms(2) by (simp add: unat_of_nat)
  have b: "\<not> bit ?w i" if "i < 12" for i
  proof -
    have "p = push_bit 12 q" by (simp add: q push_bit_eq_mult)
    then show ?thesis using that by (simp add: bit_of_nat_iff bit_push_bit_iff)
  qed
  have m: "(0x3F :: u64) = mask 6" by (simp add: mask_eq_exp_minus_1)
  have a: "?w AND NOT 0x3F = ?w"
    unfolding m by (rule bit_word_eqI) (use b in \<open>auto simp: bit_simps\<close>)
  then show "unat (?w AND NOT 0x3F) = p" by (simp only: u)
  have "?w OR 1 = ?w + 1" using b [of 0] by (simp add: or_one_eq bit_0)
  moreover have "unat (?w + 1) = p + 1" using assms(2) u by (simp add: unat_word_ariths)
  ultimately show "unat ((?w AND NOT 0x3F) OR 1) = p + 1" by (simp only: a)
qed

text \<open>The writes of a run that succeeds, up to the one that starts the controller.\<close>

abbreviation (input) cfg_writes :: "'a xhci_scheme \<Rightarrow> nat \<Rightarrow> nat \<Rightarrow> (addr \<times> nat) list" where
  "cfg_writes s0 c1 c2 \<equiv> [(op_reg ''CONFIG'' s0, c1), (op_reg ''CONFIG'' s0, c2)]"

abbreviation (input) ir_writes :: "'a xhci_scheme \<Rightarrow> addr \<Rightarrow> addr \<Rightarrow> (addr \<times> nat) list" where
  "ir_writes s0 erst evr \<equiv> [(ir_reg ''IMAN'' s0, 0), (ir_reg ''IMOD'' s0, 0), (ir_reg ''ERSTSZ'' s0, 1), (ir_reg ''ERSTBA'' s0, erst),
     (ir_reg ''ERDP'' s0, evr)]"

lemma start_ends:
  assumes o: "owns s0 (cfg_writes s0 c1 c2 @ [(op_reg ''DCBAAP'' s0, dcbaa), (op_reg ''CRCR'' s0, ring + 1)] @ ir_writes s0 erst evr)
      [evr, erst, pv, ring, dcbase, dcbaa] s"
  shows "usb_ends s0 (usb_start dcbaa dcbase ring s)"
proof -
  let ?W = "cfg_writes s0 c1 c2 @ [(op_reg ''DCBAAP'' s0, dcbaa), (op_reg ''CRCR'' s0, ring + 1)] @ ir_writes s0 erst evr"
  let ?ps = "[evr, erst, pv, ring, dcbase, dcbaa]"
  let ?a = "op_reg ''USBCMD'' s0" and ?b = "op_reg ''USBSTS'' s0"
  note regs = owns_regs [OF o]
  define s1 where "s1 = reg_mod ?a (\<lambda>v. v OR 1) s"
  define s2 where "s2 = snd (reg_test ?b 1 (reg_wait ?b 1 100000 s1))"
  define hch where "hch = fst (reg_test ?b 1 (reg_wait ?b 1 100000 s1))"
  obtain x :: u32 where p1: "usb_path [(?a, unat (x OR 1))] s s1"
    using path_reg_mod [OF owns_inv [OF o], of ?a "\<lambda>v. v OR 1"] unfolding s1_def by blast
  have o1: "owns s0 (?W @ [(?a, unat (x OR 1))]) ?ps s1" by (rule owns_path [OF o p1])
  note pw = path_reg_wait [OF owns_inv [OF o1], of ?b 1 100000]
  have "owns s0 (?W @ [(?a, unat (x OR 1))]) ?ps (reg_wait ?b 1 100000 s1)" by (rule owns_read [OF o1 pw])
  then have o2: "owns s0 (?W @ [(?a, unat (x OR 1))]) ?ps s2"
    unfolding s2_def by (rule owns_read [OF _ path_reg_test [OF usb_path_inv [OF pw]]])
  have eq: "usb_start dcbaa dcbase ring s =
     (if hch then usb_fail ''Host controller activation timed out'' [dcbaa, dcbase, ring] s2
      else bindR (INFO ''usb_init'' ''xHCI driver initialized'' [] s2)
        (\<lambda>s3. bindR (slot_loop init_port 0 256 (s3\<lparr>usb_InitLock := True\<rparr>)) (\<lambda>s4. Inr (0, s4))))"
    unfolding usb_start_def Let_def regs hch_def s2_def s1_def by (simp add: split_beta)
  show ?thesis
  proof (cases hch)
    case True
    have "usb_ends s0 (usb_fail ''Host controller activation timed out'' [dcbaa, dcbase, ring] s2)"
      by (rule fail_dead [OF o2]) (use o in \<open>auto simp: owns_def cstr_def\<close>)
    then show ?thesis using True by (simp add: eq)
  next
    case False
    obtain t where t: "INFO ''usb_init'' ''xHCI driver initialized'' [] s2 = Inr (s2\<lparr>tty := t\<rparr>)"
      using messages_print(1) [of "''xHCI driver initialized''"] by (auto simp: cstr_def)
    let ?u = "s2\<lparr>tty := t, usb_InitLock := True\<rparr>"
    have ui: "mm_inv ?u" "live ?u = live s2"
      using owns_inv [OF o2] mm_inv_cong [of ?u s2] live_cong [of ?u s2] by simp_all
    have "path_to ?u (slot_loop init_port 0 256 ?u)" by (intro path_slot_loop path_init_port ui(1))
    then obtain post s4 where r: "slot_loop init_port 0 256 ?u = Inr s4" "usb_path post ?u s4" by (auto simp: path_to_def)
    obtain l l2 where l: "mmio_log s2 = mmio_log s0 @ l" "writes l = ?W @ [(?a, unat (x OR 1))]"
      "mmio_log s4 = mmio_log s2 @ l2" "writes l2 = post"
      using o2 r(2) by (auto simp: owns_def usb_path_def)
    have m: "live s0 \<subseteq>\<^sub>m live s2" "live s2 \<subseteq>\<^sub>m live s4" using o2 r(2) ui(2) by (simp_all add: owns_def usb_path_def)
    then have m4: "live s0 \<subseteq>\<^sub>m live s4" by (rule map_le_trans)
    have reg: "p mod MEMORY_BLKSIZE = 0 \<and> live s0 p = None \<and> live s4 p \<noteq> None" if "p \<in> set ?ps" for p
    proof -
      have "p mod MEMORY_BLKSIZE = 0" "live s0 p = None" "live s2 p \<noteq> None" using o2 that unfolding owns_def by blast+
      with m(2) show ?thesis unfolding map_le_def dom_def by force
    qed
    have f1: "bit (unat (x OR 1)) 0" by (simp add: bit_unsigned_iff bit_or_iff)
    have f2: "distinct [dcbaa, dcbase, ring, pv, erst, evr]" using o2 unfolding owns_def by (elim conjE) auto
    have f3: "usb_InitLock s4" "mm_inv s4" using r(2) by (simp_all add: usb_path_def)
    have bus: "same_bus s0 s4" using o2 r(2) by (simp add: owns_def usb_path_def)
    have f4: "mmio_log s4 = mmio_log s0 @ (l @ l2)" using l by simp
    have f5: "\<forall>p\<in>{dcbaa, dcbase, ring, pv, erst, evr}. p mod MEMORY_BLKSIZE = 0 \<and> live s0 p = None \<and> live s4 p \<noteq> None"
      by (rule ballI, rule reg) auto
    have w: "writes (l @ l2) = [(op_reg ''CONFIG'' s0, c1), (op_reg ''CONFIG'' s0, c2), (op_reg ''DCBAAP'' s0, dcbaa),
        (op_reg ''CRCR'' s0, ring + 1), (ir_reg ''IMAN'' s0, 0), (ir_reg ''IMOD'' s0, 0), (ir_reg ''ERSTSZ'' s0, 1),
        (ir_reg ''ERSTBA'' s0, erst), (ir_reg ''ERDP'' s0, evr), (op_reg ''USBCMD'' s0, unat (x OR 1))] @ post"
      using l by simp
    have "usb_running s0 s4"
      unfolding usb_running_def
      by (rule conjI, rule f3(2), rule conjI, rule m4, rule conjI, rule f3(1), rule conjI, rule bus, rule exI [of _ "l @ l2"], rule exI [of _ dcbaa],
          rule exI [of _ dcbase], rule exI [of _ ring], rule exI [of _ pv], rule exI [of _ erst], rule exI [of _ evr],
          rule exI [of _ c1], rule exI [of _ c2], rule exI [of _ "unat (x OR 1)"], rule exI [of _ post],
          rule conjI, rule f4, rule conjI, rule w, rule conjI, rule f1, rule conjI, rule f2, rule f5)
    then show ?thesis using False t r(1) by (auto simp: eq usb_ends_def)
  qed
qed

lemma small_request: "n \<le> 255 \<Longrightarrow> k \<le> 16 \<Longrightarrow> wrap32 (n * k) \<le> 4294963200"
proof -
  assume "n \<le> 255" "k \<le> 16"
  then have "n * k \<le> 255 * 16" by (rule mult_le_mono)
  then show ?thesis by (simp add: wrap32_def)
qed

lemma owns_tell:
  assumes "owns s0 ws ps s"
  shows "owns s0 (ws @ ir_writes s0 erst evr) ps (tell_events erst evr s)"
proof -
  define s3 where "s3 = put_field 8 (erst + offset_of usb_evtring_seg_t ''base'') evr s"
  define s4 where "s4 = put_field 2 (erst + offset_of usb_evtring_seg_t ''trb_count'') 16 s3"
  define s5 where "s5 = reg_write 4 (ir_reg ''IMAN'' s4) 0 s4"
  define s6 where "s6 = reg_write 4 (ir_reg ''IMOD'' s5) 0 s5"
  define s7 where "s7 = reg_write 4 (ir_reg ''ERSTSZ'' s6) 1 s6"
  define s8 where "s8 = reg_write 8 (ir_reg ''ERSTBA'' s7) erst s7"
  have o3: "owns s0 ws ps s3" unfolding s3_def by (rule owns_read [OF assms path_put_field [OF owns_inv [OF assms]]])
  have o4: "owns s0 ws ps s4" unfolding s4_def by (rule owns_read [OF o3 path_put_field [OF owns_inv [OF o3]]])
  note o5 = owns_write [OF o4, of "ir_reg ''IMAN'' s4" 0 4, folded s5_def, unfolded owns_regs [OF o4]]
  note o6 = owns_write [OF o5, of "ir_reg ''IMOD'' s5" 0 4, folded s6_def, unfolded owns_regs [OF o5]]
  note o7 = owns_write [OF o6, of "ir_reg ''ERSTSZ'' s6" 1 4, folded s7_def, unfolded owns_regs [OF o6]]
  note o8 = owns_write [OF o7, of "ir_reg ''ERSTBA'' s7" erst 8, folded s8_def, unfolded owns_regs [OF o7]]
  note o9 = owns_write [OF o8, of "ir_reg ''ERDP'' s8" evr 8]
  have "tell_events erst evr s = reg_write 8 (ir_reg ''ERDP'' s8) evr s8"
    by (simp only: tell_events_def Let_def s8_def s7_def s6_def s5_def s4_def s3_def)
  with o9 show ?thesis by (simp add: owns_regs [OF o8])
qed

lemma events_ends:
  assumes o: "owns s0 (cfg_writes s0 c1 c2 @ [(op_reg ''DCBAAP'' s0, dcbaa), (op_reg ''CRCR'' s0, ring + 1)])
      [pv, ring, dcbase, dcbaa] s"
  shows "usb_ends s0 (usb_events dcbaa dcbase ring s)"
  unfolding usb_events_def
proof (rule owns_alloc [OF o])
  fix erst t
  assume o1: "owns s0 (cfg_writes s0 c1 c2 @ [(op_reg ''DCBAAP'' s0, dcbaa), (op_reg ''CRCR'' s0, ring + 1)])
      [erst, pv, ring, dcbase, dcbaa] t"
  show "usb_ends s0 (usb_alloc 16 (size_of usb_EventTRB_t) [0, dcbaa, dcbase, ring] (\<lambda>p. usb_EventRing_update (\<lambda>_. p))
      (\<lambda>evr s2. usb_start dcbaa dcbase ring (tell_events erst evr s2)) t)"
  proof (rule owns_alloc [OF o1])
    fix evr t
    assume o2: "owns s0 (cfg_writes s0 c1 c2 @ [(op_reg ''DCBAAP'' s0, dcbaa), (op_reg ''CRCR'' s0, ring + 1)])
        [evr, erst, pv, ring, dcbase, dcbaa] t"
    show "usb_ends s0 (usb_start dcbaa dcbase ring (tell_events erst evr t))"
      by (rule start_ends [of s0 c1 c2 dcbaa ring erst evr pv dcbase]) (use owns_tell [OF o2, of erst evr] in simp)
  qed (use o1 in \<open>auto simp: usb_sizes small_request plain_stores owns_def\<close>)
qed (use o in \<open>auto simp: usb_sizes small_request plain_stores owns_def\<close>)

lemma ports_ends:
  assumes o: "owns s0 (cfg_writes s0 c1 c2 @ [(op_reg ''DCBAAP'' s0, dcbaa)]) [ring, dcbase, dcbaa] s"
  shows "usb_ends s0 (usb_ports dcbaa dcbase ring s)"
proof -
  let ?v = "unat ((of_nat ring AND NOT 0x3F) OR 1 :: u64)"
  define s1 where "s1 = reg_write 8 (op_reg ''CRCR'' s) ?v s"
  have "ring mod MEMORY_BLKSIZE = 0" "ring < 4294967296" using o owns_bound [OF o, of ring] by (simp_all add: owns_def)
  then have v: "?v = ring + 1" by (rule pointer_bits)
  have o1: "owns s0 (cfg_writes s0 c1 c2 @ [(op_reg ''DCBAAP'' s0, dcbaa), (op_reg ''CRCR'' s0, ring + 1)]) [ring, dcbase, dcbaa] s1"
    unfolding s1_def v owns_regs(1) [OF o] using owns_write [OF o, of "op_reg ''CRCR'' s0" "ring + 1" 8] by simp
  note ms = path_max_slots [OF owns_inv [OF o1]]
  have o2: "owns s0 (cfg_writes s0 c1 c2 @ [(op_reg ''DCBAAP'' s0, dcbaa), (op_reg ''CRCR'' s0, ring + 1)]) [ring, dcbase, dcbaa] (snd (max_slots s1))"
    by (rule owns_read [OF o1 ms(1)])
  have "usb_ends s0 (usb_alloc (fst (max_slots s1)) (size_of usb_Port_t) [dcbaa, dcbase, ring] (\<lambda>p. usb_PortV_update (\<lambda>_. p))
           (\<lambda>_. usb_events dcbaa dcbase ring) (snd (max_slots s1)))"
  proof (rule owns_alloc [OF o2])
    show "wrap32 (fst (max_slots s1) * size_of usb_Port_t) \<le> 4294963200" using ms(2) by (simp add: usb_sizes small_request)
    fix p t assume "owns s0 (cfg_writes s0 c1 c2 @ [(op_reg ''DCBAAP'' s0, dcbaa), (op_reg ''CRCR'' s0, ring + 1)]) (p # [ring, dcbase, dcbaa]) t"
    then show "usb_ends s0 (usb_events dcbaa dcbase ring t)" by (rule events_ends)
  qed (use o in \<open>auto simp: plain_stores owns_def\<close>)
  then show ?thesis by (simp add: usb_ports_def Let_def split_beta s1_def)
qed

lemma rings_ends:
  assumes o: "owns s0 (cfg_writes s0 c1 c2 @ [(op_reg ''DCBAAP'' s0, dcbaa)]) [dcbase, dcbaa] s"
  shows "usb_ends s0 (usb_rings dcbaa dcbase s)"
  unfolding usb_rings_def
proof (rule owns_alloc [OF o])
  fix ring t assume o1: "owns s0 (cfg_writes s0 c1 c2 @ [(op_reg ''DCBAAP'' s0, dcbaa)]) [ring, dcbase, dcbaa] t"
  then have "ring mod MEMORY_BLKSIZE = 0" by (simp add: owns_def)
  then show "usb_ends s0 (aligned [dcbaa, dcbase, ring] (usb_ports dcbaa dcbase) ring t)"
    using ports_ends [OF o1] by (simp add: aligned_skip)
next
  show "wrap32 (256 * size_of usb_TRB_t) \<le> 4294963200" by (simp add: usb_sizes wrap32_def)
qed (use o in \<open>auto simp: plain_stores owns_def\<close>)

text \<open>A page size is 0 or a power of two: the request cannot end in the last 4095 sizes.\<close>

lemma page_request:
  assumes "n \<le> 255" "k = 0 \<or> (\<exists>e<32. k = 2 ^ e)"
  shows "wrap32 (n * k) \<le> 4294963200"
proof -
  show ?thesis
  proof (cases "k = 0")
    case False
    then obtain e where e: "k = 2 ^ e" "e < 32" using assms(2) by blast
    show ?thesis
    proof (cases "e < 12")
      case True
      then have "(2 :: nat) ^ e \<le> 2 ^ 11" by (intro power_increasing) simp_all
      then have "n * k \<le> 255 * 2 ^ 11" unfolding e(1) by (rule mult_le_mono [OF assms(1)])
      then show ?thesis by (simp add: wrap32_def)
    next
      case False
      then have "k = 2 ^ (e - 12) * 4096" using power_add [of "2 :: nat" "e - 12" 12] by (simp add: e(1))
      then obtain q where q: "n * k = 4096 * q" by (metis mult.assoc mult.commute)
      have "wrap32 (n * k) = 4096 * (q mod 1048576)"
        using mult_mod_right [of 4096 q 1048576] by (simp add: wrap32_def q)
      moreover have "q mod 1048576 < 1048576" by simp
      ultimately show ?thesis by linarith
    qed
  qed (simp add: wrap32_def)
qed

lemma bases_ends:
  assumes o: "owns s0 (cfg_writes s0 c1 c2) [dcbaa] s" and k: "k = 0 \<or> (\<exists>e<32. k = 2 ^ e)"
  shows "usb_ends s0 (usb_bases k dcbaa s)"
proof -
  note ms = path_max_slots [OF owns_inv [OF o]]
  have o1: "owns s0 (cfg_writes s0 c1 c2) [dcbaa] (snd (max_slots s))" by (rule owns_read [OF o ms(1)])
  have "usb_ends s0 (usb_alloc (fst (max_slots s)) k [dcbaa] (\<lambda>_. id)
        (\<lambda>dcbase. aligned [dcbaa, dcbase]
          (\<lambda>dcbase s2. let s3 = context_loop dcbaa dcbase k 0 256 s2
             in usb_rings dcbaa dcbase (reg_write 8 (op_reg ''DCBAAP'' s3) (unat (of_nat dcbaa AND NOT 0x3F :: u64)) s3))
          dcbase) (snd (max_slots s)))"
  proof (rule owns_alloc [OF o1])
    show "wrap32 (fst (max_slots s) * k) \<le> 4294963200" by (rule page_request [OF ms(2) k])
  next
    fix dcbase t assume o2: "owns s0 (cfg_writes s0 c1 c2) [dcbase, dcbaa] t"
    define t3 where "t3 = context_loop dcbaa dcbase k 0 256 t"
    have o3: "owns s0 (cfg_writes s0 c1 c2) [dcbase, dcbaa] t3"
      unfolding t3_def by (rule owns_read [OF o2 path_context_loop [OF owns_inv [OF o2]]])
    have "dcbaa mod MEMORY_BLKSIZE = 0" "dcbaa < 4294967296" using o owns_bound [OF o, of dcbaa] by (simp_all add: owns_def)
    then have v: "unat (of_nat dcbaa AND NOT 0x3F :: u64) = dcbaa" by (rule pointer_bits)
    have "owns s0 (cfg_writes s0 c1 c2 @ [(op_reg ''DCBAAP'' s0, dcbaa)]) [dcbase, dcbaa] (reg_write 8 (op_reg ''DCBAAP'' s0) dcbaa t3)"
      by (rule owns_write [OF o3])
    then have "usb_ends s0 (usb_rings dcbaa dcbase (reg_write 8 (op_reg ''DCBAAP'' s0) dcbaa t3))" by (rule rings_ends)
    moreover have "dcbase mod MEMORY_BLKSIZE = 0" using o2 by (simp add: owns_def)
    ultimately show "usb_ends s0 (aligned [dcbaa, dcbase]
          (\<lambda>dcbase s2. let s3 = context_loop dcbaa dcbase k 0 256 s2
             in usb_rings dcbaa dcbase (reg_write 8 (op_reg ''DCBAAP'' s3) (unat (of_nat dcbaa AND NOT 0x3F :: u64)) s3))
          dcbase t)"
      unfolding v by (simp add: aligned_skip t3_def [symmetric] owns_regs [OF o3])
  qed (use o in \<open>auto simp: plain_stores owns_def\<close>)
  then show ?thesis by (simp add: usb_bases_def split_beta)
qed

lemma contexts_ends:
  assumes o: "owns s0 (cfg_writes s0 c1 c2) [] s" and k: "k = 0 \<or> (\<exists>e<32. k = 2 ^ e)"
  shows "usb_ends s0 (usb_contexts k s)"
proof -
  note ms = path_max_slots [OF owns_inv [OF o]]
  have o1: "owns s0 (cfg_writes s0 c1 c2) [] (snd (max_slots s))" by (rule owns_read [OF o ms(1)])
  have "usb_ends s0 (usb_alloc (fst (max_slots s)) 8 [] (\<lambda>_. id) (\<lambda>dcbaa. aligned [dcbaa] (usb_bases k) dcbaa) (snd (max_slots s)))"
  proof (rule owns_alloc [OF o1])
    fix dcbaa t assume o2: "owns s0 (cfg_writes s0 c1 c2) [dcbaa] t"
    then have "dcbaa mod MEMORY_BLKSIZE = 0" by (simp add: owns_def)
    then show "usb_ends s0 (aligned [dcbaa] (usb_bases k) dcbaa t)" using bases_ends [OF o2 k] by (simp add: aligned_skip)
  qed (use ms(2) in \<open>auto simp: plain_stores small_request\<close>)
  then show ?thesis by (simp add: usb_contexts_def split_beta)
qed

lemma ready_path: "ready_loop a s = Some t \<Longrightarrow> mm_inv s \<longrightarrow> usb_path [] s t"
proof (erule ready_loop.raw_induct [rotated, where P = "\<lambda>a s t. mm_inv s \<longrightarrow> usb_path [] s t"], rule impI)
  fix loop and a and s t :: "'a xhci_scheme"
  assume IH: "\<And>a s t. loop a s = Some t \<Longrightarrow> mm_inv s \<longrightarrow> usb_path [] s t"
    and eq: "(let (b, s1) = reg_test a 0x800 s in if b then loop a s1 else Some s1) = Some t" and inv: "mm_inv s"
  note p = path_reg_test [OF inv, of a "0x800"]
  show "usb_path [] s t"
  proof (cases "fst (reg_test a 0x800 s)")
    case True
    then have "loop a (snd (reg_test a 0x800 s)) = Some t" using eq by (simp add: split_beta)
    from IH [OF this] usb_path_inv [OF p] have "usb_path [] (snd (reg_test a 0x800 s)) t" by blast
    from usb_path_trans [OF p this] show ?thesis by simp
  next
    case False
    then show ?thesis using eq p by (simp add: split_beta)
  qed
qed

lemma bring_up_ends:
  assumes inv: "mm_inv s"
  shows "usb_bring_up s = Inl Diverges \<and> ready_loop (op_reg ''USBSTS'' s) s = None \<or> usb_ends s (usb_bring_up s)"
proof (cases "ready_loop (op_reg ''USBSTS'' s) s")
  case None
  then show ?thesis by (simp add: usb_bring_up_def)
next
  case (Some s1)
  let ?cfg = "op_reg ''CONFIG'' s"
  have o1: "owns s [] [] s1" using owns_read [OF owns_start [OF inv]] ready_path [OF Some] inv by blast
  define s2 where "s2 = reg_mod ?cfg (\<lambda>v. v AND NOT 0xFF) s1"
  define s3 where "s3 = snd (reg_read 4 (cap_reg ''HCSPARAMS1'' s2) s2)"
  define p1 where "p1 = fst (reg_read 4 (cap_reg ''HCSPARAMS1'' s2) s2)"
  define s4 where "s4 = reg_mod ?cfg (\<lambda>v. v OR (of_nat p1 AND 0xFF)) s3"
  define s5 where "s5 = snd (page_loop 0 32 s4)"
  obtain v where "usb_path [(?cfg, unat (v AND NOT 0xFF :: u32))] s1 s2"
    using path_reg_mod [OF owns_inv [OF o1], of ?cfg "\<lambda>v. v AND NOT 0xFF"] unfolding s2_def by blast
  then have o2: "owns s [(?cfg, unat (v AND NOT 0xFF :: u32))] [] s2" using owns_path [OF o1] by simp
  have o3: "owns s [(?cfg, unat (v AND NOT 0xFF :: u32))] [] s3"
    unfolding s3_def by (rule owns_read [OF o2 path_reg_read [OF owns_inv [OF o2]]])
  obtain w where "usb_path [(?cfg, unat (w OR (of_nat p1 AND 0xFF) :: u32))] s3 s4"
    using path_reg_mod [OF owns_inv [OF o3], of ?cfg "\<lambda>v. v OR (of_nat p1 AND 0xFF)"] unfolding s4_def by blast
  then have o4: "owns s (cfg_writes s (unat (v AND NOT 0xFF :: u32)) (unat (w OR (of_nat p1 AND 0xFF) :: u32))) [] s4"
    using owns_path [OF o3] by fastforce
  have o5: "owns s (cfg_writes s (unat (v AND NOT 0xFF :: u32)) (unat (w OR (of_nat p1 AND 0xFF) :: u32))) [] s5"
    unfolding s5_def by (rule owns_read [OF o4 path_page_loop [OF owns_inv [OF o4]]])
  have "usb_ends s (usb_contexts (fst (page_loop 0 32 s4)) s5)" by (rule contexts_ends [OF o5 page_loop_power])
  moreover have "usb_bring_up s = usb_contexts (fst (page_loop 0 32 s4)) s5"
    using Some owns_regs [OF o1] unfolding usb_bring_up_def Let_def s5_def s4_def s3_def p1_def s2_def by (simp add: split_beta)
  ultimately show ?thesis by simp
qed

text \<open>Nothing but reads of registers and messages.\<close>

definition usb_quiet :: "'a xhci_scheme \<Rightarrow> 'a xhci_scheme \<Rightarrow> bool" where
  "usb_quiet s s' \<longleftrightarrow> mm_inv s' \<and> live s' = live s \<and> usb_InitLock s' = usb_InitLock s \<and> same_bus s s' \<and>
     (\<exists>l. mmio_log s' = mmio_log s @ l \<and> writes l = [])"

lemma quiet_trans: "usb_quiet s t \<Longrightarrow> usb_quiet t u \<Longrightarrow> usb_quiet s u"
  by (auto simp: usb_quiet_def)

lemma quiet_io: "mm_inv s \<Longrightarrow> io_only s s' \<Longrightarrow> usb_quiet s s'"
  unfolding io_only_def usb_quiet_def
  by (elim exE conjE) (use mm_inv_cong [of s' s] live_cong [of s' s] in simp)

lemma quiet_fields:
  assumes "mm_inv s" "memory_InitLock s' = memory_InitLock s" "memory_Space s' = memory_Space s" "memory_Limit s' = memory_Limit s"
    "memory_BlockV s' = memory_BlockV s" "memory_BlockC s' = memory_BlockC s" "usb_InitLock s' = usb_InitLock s"
    "mmio_log s' = mmio_log s @ l" "writes l = []" "same_bus s s'"
  shows "usb_quiet s s'"
  using assms mm_inv_cong [of s' s] live_cong [of s' s] by (simp add: usb_quiet_def)

lemma io_devbus_read: "io_only s (snd (devbus_read b sl f r s))"
  using io_only_trans [OF io_only_in(5) io_only_in(3)] by (auto simp: devbus_read_def)

lemma io_getBAR: "\<exists>b. fst (devbus_getBAR (Some bar) bus sl f n s) = Some b" "io_only s (snd (devbus_getBAR (Some bar) bus sl f n s))"
proof -
  note r = io_devbus_read
  have r2: "io_only t (snd (devbus_read a b c d (snd (devbus_read e g h i t))))" for a b c d e g h i and t :: "'a dbus_scheme"
    by (rule io_only_trans [OF r r])
  have r3: "io_only t (snd (devbus_read a b c d (snd (devbus_read e g h i (snd (devbus_read j k l m t))))))"
    for a b c d e g h i j k l m and t :: "'a dbus_scheme" by (rule io_only_trans [OF r2 r])
  have r4: "io_only t (snd (devbus_read a b c d (snd (devbus_read e g h i (snd (devbus_read j k l m (snd (devbus_read n p q u t))))))))"
    for a b c d e g h i j k l m n p q u and t :: "'a dbus_scheme" by (rule io_only_trans [OF r3 r])
  show "\<exists>b. fst (devbus_getBAR (Some bar) bus sl f n s) = Some b"
    by (simp add: devbus_getBAR_def Let_def split_beta)
  show "io_only s (snd (devbus_getBAR (Some bar) bus sl f n s))"
    by (simp add: devbus_getBAR_def Let_def split_beta r r2 r3 r4)
qed

lemma quiet_map: "mm_inv s \<Longrightarrow> \<exists>s'. usb_map base s = Inr s' \<and> usb_quiet s s'"
proof -
  assume inv: "mm_inv s"
  let ?s1 = "s\<lparr>usb_Capregs := base\<rparr>"
  define s2 where "s2 = snd (reg_read 2 (cap_reg ''HCIVERSION'' ?s1) ?s1)"
  define ver where "ver = fst (reg_read 2 (cap_reg ''HCIVERSION'' ?s1) ?s1)"
  obtain t where t: "INFO ''usb_init'' ''xHCI version: 0x%x'' [W (of_nat ver)] s2 = Inr (s2\<lparr>tty := t\<rparr>)"
    using message_accepts [of "cstr ''%s: '' @ cstr ''xHCI version: 0x%x'' @ [10]" "[S (cstr ''usb_init''), W (of_nat ver)]" s2]
    unfolding INFO_def by (auto simp: cstr_def)
  let ?s3 = "s2\<lparr>tty := t\<rparr>"
  let ?s4 = "snd (reg_read 1 (cap_reg ''CAPLENGTH'' ?s3) ?s3)"
  let ?s5 = "snd (reg_read 4 (cap_reg ''RTSOFF'' ?s4) ?s4)"
  let ?s6 = "snd (reg_read 4 (cap_reg ''DBOFF'' ?s5) ?s5)"
  obtain a b c where m: "usb_map base s = Inr (?s6\<lparr>usb_Opregs := a, usb_RTregs := b, usb_DBregs := c\<rparr>)"
    using t unfolding usb_map_def Let_def s2_def ver_def by (simp add: split_beta)
  have "usb_quiet s (?s6\<lparr>usb_Opregs := a, usb_RTregs := b, usb_DBregs := c\<rparr>)"
    by (rule quiet_fields [where l = "[MRead 2 (cap_reg ''HCIVERSION'' ?s1), MRead 1 (cap_reg ''CAPLENGTH'' ?s3),
          MRead 4 (cap_reg ''RTSOFF'' ?s4), MRead 4 (cap_reg ''DBOFF'' ?s5)]", OF inv])
      (simp_all add: reg_read_def mmio_def Let_def s2_def)
  with m show ?thesis by blast
qed

lemma usb_refuses:
  assumes q: "usb_quiet s t" and pl: "37 \<notin> set (cstr msg)"
  shows "\<exists>t1. bindR (ERR ''usb_init'' msg [] t) (\<lambda>t1. Inr (-1 :: int, t1)) = Inr (-1, t1) \<and> usb_quiet s t1"
proof -
  obtain y where y: "ERR ''usb_init'' msg [] t = Inr (t\<lparr>tty := y\<rparr>)" using messages_print(3) [OF pl] by blast
  have "usb_quiet t (t\<lparr>tty := y\<rparr>)" by (rule quiet_fields [where l = "[]"]) (use q in \<open>simp_all add: usb_quiet_def\<close>)
  with y show ?thesis using quiet_trans [OF q] by auto
qed

lemma usb_init_ends:
  assumes "mm_inv s"
  shows "usb_init bar dev s \<in> {Inl Diverges, Inl OutOfBounds} \<or>
    (\<exists>s'. usb_init bar dev s = Inr (-1, s') \<and> usb_quiet s s') \<or>
    (\<exists>s0 s'. usb_init bar dev s = Inr (-1, s') \<and> usb_quiet s s0 \<and> usb_dead s0 s') \<or>
    (\<exists>s0 s'. usb_init bar dev s = Inr (0, s') \<and> \<not> usb_InitLock s \<and> iface dev = 0x30 \<and> usb_quiet s s0 \<and> usb_running s0 s')"
proof -
  have refl: "usb_quiet s s" by (rule quiet_fields [where l = "[]"]) (simp_all add: assms)
  consider "usb_InitLock s" | "\<not> usb_InitLock s" "iface dev \<noteq> 0x30" | "\<not> usb_InitLock s" "iface dev = 0x30" by blast
  then show ?thesis
  proof cases
    case 1
    then show ?thesis using usb_refuses [OF refl, of "''Multiple USB hosts not supported''"] by (auto simp: usb_init_def cstr_def)
  next
    case 2
    then show ?thesis using usb_refuses [OF refl, of "''Only xHCI is supported''"] by (auto simp: usb_init_def cstr_def)
  next
    case 3
    define r where "r = fst (devbus_read (dev_bus dev) (dev_slot dev) (dev_func dev) 24 s)"
    define s1 where "s1 = snd (devbus_read (dev_bus dev) (dev_slot dev) (dev_func dev) 24 s)"
    have q1: "usb_quiet s s1" unfolding s1_def by (rule quiet_io [OF assms io_devbus_read])
    obtain t where t: "INFO ''usb_init'' ''xHCI release number: 0x%x'' [W (r AND 0xFF)] s1 = Inr (s1\<lparr>tty := t\<rparr>)"
      using message_accepts [of "cstr ''%s: '' @ cstr ''xHCI release number: 0x%x'' @ [10]" "[S (cstr ''usb_init''), W (r AND 0xFF)]" s1]
      unfolding INFO_def by (auto simp: cstr_def)
    let ?s2 = "s1\<lparr>tty := t\<rparr>"
    have q2: "usb_quiet s ?s2" using q1 by (rule quiet_trans) (rule quiet_io [OF _ io_only_tty], use q1 in \<open>simp add: usb_quiet_def\<close>)
    define g where "g = devbus_getBAR (Some bar) (dev_bus dev) (dev_slot dev) (dev_func dev) 0 ?s2"
    obtain b s3 where b: "g = (Some b, s3)" using io_getBAR(1) unfolding g_def by (metis prod.collapse)
    have "io_only ?s2 s3" using io_getBAR(2) [of ?s2] b unfolding g_def by (metis snd_conv)
    then have q3: "usb_quiet s s3" using q2 quiet_trans quiet_io usb_quiet_def by blast
    have eq: "usb_init bar dev s = (if bar_type b \<noteq> 0 then bindR (ERR ''usb_init'' ''Device BAR is not memory-mapped'' [] s3) (\<lambda>t1. Inr (-1, t1))
        else bindR (usb_map (unat (bar_addr b)) s3) usb_bring_up)"
      using 3 t b unfolding usb_init_def Let_def g_def r_def s1_def by (simp add: split_beta)
    show ?thesis
    proof (cases "bar_type b = 0")
      case False
      then show ?thesis using usb_refuses [OF q3, of "''Device BAR is not memory-mapped''"] by (auto simp: eq cstr_def)
    next
      case True
      have "mm_inv s3" using q3 by (simp add: usb_quiet_def)
      then obtain s0 where m: "usb_map (unat (bar_addr b)) s3 = Inr s0" "usb_quiet s3 s0" using quiet_map by blast
      have q0: "usb_quiet s s0" by (rule quiet_trans [OF q3 m(2)])
      then have inv0: "mm_inv s0" by (simp add: usb_quiet_def)
      have "usb_init bar dev s = usb_bring_up s0" using True m(1) by (simp add: eq)
      then show ?thesis using bring_up_ends [OF inv0] q0 3 by (auto simp: usb_ends_def)
    qed
  qed
qed

text \<open>
  C34. \<open>usb_init\<close>, for every behaviour of the controller, ends in one of four ways: a waiting loop does not end or the
  computation runs off the block table; the function is refused (a second controller, another interface, a base address
  that is not memory mapped) with nothing written to a register and the heap as before; the start fails with everything
  that was allocated still in place and the reset of the controller as the last write; or it returns 0, the controller
  is marked as taken, the rings are six fresh page aligned allocations, and the registers were written in the order the
  driver promises: the number of slots, the array of contexts, the command ring, the event ring, and then the run bit,
  after which only the ports are brought up.
\<close>

theorem usb_init_programs:
  assumes "mm_inv s"
  shows "usb_init bar dev s \<in> {Inl Diverges, Inl OutOfBounds} \<or>
    (\<exists>s'. usb_init bar dev s = Inr (-1, s') \<and> usb_quiet s s') \<or>
    (\<exists>s0 s'. usb_init bar dev s = Inr (-1, s') \<and> usb_quiet s s0 \<and> usb_dead s0 s') \<or>
    (\<exists>s0 s'. usb_init bar dev s = Inr (0, s') \<and> \<not> usb_InitLock s \<and> iface dev = 0x30 \<and> usb_quiet s s0 \<and> usb_running s0 s')"
  by (rule usb_init_ends [OF assms])

text \<open>A function of class USB that is no xHCI controller.\<close>

definition usb_demo :: xhci where
  "usb_demo = kbc.extend (kbc_demo 0)
     \<lparr>xhc = \<lambda>l m. m, mmio_log = [], usb_InitLock = False, usb_Capregs = 0, usb_Opregs = 0, usb_RTregs = 0, usb_DBregs = 0,
      usb_CmdRing = 0, usb_ERSTent = 0, usb_EventRing = 0, usb_PortV = 0\<rparr>"

lemma usb_demo_mm: "mm_inv usb_demo"
proof -
  have "mm_inv usb_demo = mm_inv sysc_demo"
    by (rule mm_inv_cong) (simp_all add: usb_demo_def kbc.defs kbc_demo_def dbus.defs dbus_demo_def acpi.defs acpi_demo_def
      hw.defs hw_demo_def sysc.defs)
  also have "\<dots> = mm_inv multi_demo" by (rule mm_inv_cong) (simp_all only: sysc_demo_fields)
  finally show ?thesis by (simp add: multi_demo_heap)
qed

theorem usb_init_programs_witness:
  "mm_inv usb_demo \<and> (\<exists>s'. usb_init \<lparr>bar_addr = 0, bar_type = 0, prefetch = False\<rparr> ((device_at cfg_demo (0, 3, 0))\<lparr>iface := 0x20\<rparr>) usb_demo = Inr (-1, s') \<and>
     mm_inv s' \<and> live usb_demo \<subseteq>\<^sub>m live s')"
proof -
  let ?bar = "\<lparr>bar_addr = 0, bar_type = 0, prefetch = False\<rparr>"
  let ?d = "(device_at cfg_demo (0, 3, 0))\<lparr>iface := 0x20\<rparr>"
  obtain s' where s': "usb_init ?bar ?d usb_demo = Inr (-1, s')"
    using messages_print(3) [of "''Only xHCI is supported''" "''usb_init''" usb_demo]
    by (auto simp: usb_init_def usb_demo_def kbc.defs cstr_def)
  show ?thesis using usb_init_programs [OF usb_demo_mm, of ?bar ?d] s' usb_demo_mm
    by (auto simp: usb_quiet_def usb_dead_def)
qed

section \<open>The bus scan with the driver\<close>

text \<open>Whatever it answers, a run of \<open>usb_init\<close> that returns leaves the ports, the lock of the bus and its base address alone. For
  a device that is no xHCI controller it only prints.\<close>

lemma usb_init_bus:
  assumes "mm_inv s" "usb_init bar d s = Inr (r, s')"
  shows "mm_inv s' \<and> same_bus s s'"
  using usb_init_ends [OF assms(1), of bar d] assms(2) by (auto simp: usb_quiet_def usb_dead_def usb_running_def)

lemma usb_init_other:
  assumes "iface d \<noteq> 0x30"
  shows "\<exists>s'. usb_init bar d s = Inr (-1, s') \<and> io_only s s'"
proof -
  have p: "37 \<notin> set (cstr ''Multiple USB hosts not supported'')" "37 \<notin> set (cstr ''Only xHCI is supported'')" by (simp_all add: cstr_def)
  obtain s1 where s1: "ERR ''usb_init'' ''Multiple USB hosts not supported'' [] s = Inr s1" "io_only s s1" by (rule io_only_error [OF p(1)])
  obtain s2 where s2: "ERR ''usb_init'' ''Only xHCI is supported'' [] s = Inr s2" "io_only s s2" by (rule io_only_error [OF p(2)])
  show ?thesis using assms s1 s2 by (cases "usb_InitLock s") (simp_all add: usb_init_def)
qed

text \<open>The ends of the driver list for one device.\<close>

lemma usb_load_fault:
  assumes "mm_inv s" "drivers_load (usb_init bar) d s = Inl e"
  shows "is_usb d \<and> iface d = 0x30 \<and> e \<in> {Diverges, OutOfBounds}"
proof -
  have ok: "\<exists>t. ERR ''drivers_load'' ''Device %d:%d:%d (driver %d) initialization failed''
      [W (ucast (dev_bus d)), W (ucast (dev_slot d)), W (ucast (dev_func d)), W 0] u = Inr t" for u :: "'a xhci_scheme"
    using driver_error by blast
  have u: "is_usb d" "usb_init bar d s = Inl e"
    using assms(2) ok by (auto simp: drivers_load_cases split: if_splits sum.splits) (metis Inl_Inr_False)+
  then have "iface d = 0x30" using usb_init_other [of d bar s] by auto
  moreover have "e \<in> {Diverges, OutOfBounds}" using usb_init_ends [OF assms(1), of bar d] u(2) by auto
  ultimately show ?thesis using u(1) by blast
qed

text \<open>
  C30. \<open>devbus_init\<close>, with \<open>usb_init\<close> as the driver, on a bus that shows the configuration registers \<open>cfg\<close>, over a well-formed block table, either at the two
  ports (no table \<open>MCFG\<close>) or in the memory window the table names: the driver list runs once for every function that is
  present, in the order of bus, slot and function, with the identification read from that very function, and
  between two runs only the ports are used. It stops early only where \<open>usb_init\<close> does, at an xHCI controller whose
  waiting loop does not end or whose rings run off the block table; without an xHCI controller it returns. With the memory window this
  is stated for buses without an xHCI controller, whose registers and rings could lie in the window.
\<close>

theorem devbus_init_scans_all:
  fixes s :: "'a xhci_scheme"
  assumes "\<not> devbus_InitLock s" "mm_inv s" "bus_there cfg s"
    and "mcfg (acpiTable s) \<noteq> 0 \<longrightarrow> (\<forall>d\<in>set (devices cfg). is_usb d \<longrightarrow> iface d \<noteq> 0x30)"
  shows "loads io_only (drivers_load (usb_init bar)) (devices cfg) (s\<lparr>devbus_InitLock := True, devbus_PCIeBase := bus_base s\<rparr>)
      (devbus_init (usb_init bar) dev s) \<and>
    (\<forall>e. devbus_init (usb_init bar) dev s = Inl e \<longrightarrow>
       e \<in> {Diverges, OutOfBounds} \<and> (\<exists>d\<in>set (devices cfg). is_usb d \<and> iface d = 0x30)) \<and>
    set (devices cfg) = {device_at cfg (b, sl, f) |b sl f. b < 256 \<and> sl < 32 \<and> f < 8 \<and>
       ucast (cfg (of_nat b) (of_nat sl) (of_nat f) 0) \<noteq> (0xFFFF :: u16)} \<and>
    distinct (map (\<lambda>d. (dev_bus d, dev_slot d, dev_func d)) (devices cfg))"
proof -
  let ?s = "s\<lparr>devbus_InitLock := True, devbus_PCIeBase := bus_base s\<rparr>"
  define P where "P t \<longleftrightarrow> mm_inv t \<and> devbus_PCIeBase t = bus_base s" for t :: "'a xhci_scheme"
  have quiet: "P t \<Longrightarrow> io_only t u \<Longrightarrow> P u" for t u
    using quiet_io [of t u] by (auto simp: P_def usb_quiet_def)
  have start: "P ?s" using assms(2) mm_inv_cong [of ?s s] by (simp add: P_def)
  have drv: "P u \<and> bus_ready cfg u"
    if d: "d \<in> set (devices cfg)" "is_usb d" and t: "P t" "bus_ready cfg t" and r: "usb_init bar d t = Inr (n, u)" for d t n u
  proof (cases "iface d = 0x30")
    case False
    then show ?thesis using usb_init_other [OF False, of bar t] r quiet [OF t(1)] bus_ready_io [OF t(2)] by auto
  next
    case True
    then have "mcfg (acpiTable s) = 0" using assms(4) d by auto
    then show ?thesis using usb_init_bus [OF _ r] t by (auto simp: P_def bus_ready_def bus_base_def pci_bus_def)
  qed
  have run: "loads io_only (drivers_load (usb_init bar)) (devices cfg) ?s (devbus_init (usb_init bar) dev s)"
    by (rule devbus_init_loads [where P = P, OF quiet start drv assms(1,3)])
  have keep: "P u" if "P t" "usb_init bar d t = Inr (n, u)" for d t n u
    using usb_init_bus [OF _ that(2)] that(1) by (simp add: P_def)
  have fault: "\<exists>d\<in>set ds. \<exists>t. mm_inv t \<and> load d t = Inl e"
    if "loads io_only load ds t r" "r = Inl e" "P t" "load = drivers_load (usb_init bar)" "set ds \<subseteq> set (devices cfg)" for load ds t r e
    using that
  proof (induction ds t r rule: loads.induct)
    case (loads_Cons t t1 d t2 ds r)
    have "P t1" by (rule quiet [OF loads_Cons.prems(2) loads_Cons.hyps(1)])
    then have "P t2"
      using drivers_load_keeps [where P = P, OF _ _ loads_Cons.hyps(2) [unfolded loads_Cons.prems(3)]] quiet keep by blast
    then show ?case using loads_Cons by auto
  next
    case (loads_stop t t1 d e' ds)
    have "P t1" by (rule quiet [OF loads_stop.prems(2) loads_stop.hyps(1)])
    then show ?case using loads_stop by (auto simp: P_def)
  qed simp
  have "\<exists>d\<in>set (devices cfg). \<exists>t :: 'a xhci_scheme. mm_inv t \<and> drivers_load (usb_init bar) d t = Inl e"
    if "devbus_init (usb_init bar) dev s = Inl e" for e
    by (rule fault [OF run that start refl subset_refl])
  then have "e \<in> {Diverges, OutOfBounds} \<and> (\<exists>d\<in>set (devices cfg). is_usb d \<and> iface d = 0x30)"
    if "devbus_init (usb_init bar) dev s = Inl e" for e
    using that usb_load_fault by metis
  then show ?thesis using run devices_complete [of cfg] devices_distinct [of cfg] by blast
qed

text \<open>The sample bus: the host bridge and one xHCI controller.\<close>

theorem devbus_init_scans_all_witness:
  "\<forall>bar dev. (\<forall>e. devbus_init (usb_init bar) dev (usb_demo\<lparr>devbus_InitLock := False, pio := pio dbus_demo\<rparr>) = Inl e \<longrightarrow> e \<in> {Diverges, OutOfBounds}) \<and>
     \<lparr>dev_bus = 0, dev_slot = 3, dev_func = 0, vendor = 0x8086, dev_id = 0x1237, revision = 0, iface = 0x30,
      sub_class = 3, dclass = 0xC\<rparr> \<in> set (devices cfg_demo)"
proof (intro allI)
  fix bar dev
  let ?s = "usb_demo\<lparr>devbus_InitLock := False, pio := pio dbus_demo\<rparr>"
  have m: "mm_inv ?s" using usb_demo_mm mm_inv_cong [of ?s usb_demo] by simp
  have f: "mcfg (acpiTable usb_demo) = 0" "devbus_PCIeBase usb_demo = 0"
    by (simp_all add: usb_demo_def kbc.defs kbc_demo_def dbus.defs dbus_demo_def acpi.defs acpi_demo_def hw.defs)
  have "bus_there cfg_demo ?s" using dbus_demo_bus(3) f by (simp add: bus_there_def cfg_demo_def)
  from devbus_init_scans_all [OF _ m this, of bar dev] f(1) have
    a: "\<forall>e. devbus_init (usb_init bar) dev ?s = Inl e \<longrightarrow> e \<in> {Diverges, OutOfBounds}"
    and d: "set (devices cfg_demo) = {device_at cfg_demo (b, sl, f) |b sl f. b < 256 \<and> sl < 32 \<and> f < 8 \<and>
       ucast (cfg_demo (of_nat b) (of_nat sl) (of_nat f) 0) \<noteq> (0xFFFF :: u16)}" by auto
  have "device_at cfg_demo (0, 3, 0) \<in> set (devices cfg_demo)"
    unfolding d by (rule CollectI, rule exI [of _ 0], rule exI [of _ 3], rule exI [of _ 0]) (simp add: cfg_demo_def)
  moreover have "device_at cfg_demo (0, 3, 0) = \<lparr>dev_bus = 0, dev_slot = 3, dev_func = 0, vendor = 0x8086, dev_id = 0x1237,
      revision = 0, iface = 0x30, sub_class = 3, dclass = 0xC\<rparr>"
    by (simp add: device_at_def Let_def cfg_demo_def)
  ultimately show "(\<forall>e. devbus_init (usb_init bar) dev ?s = Inl e \<longrightarrow> e \<in> {Diverges, OutOfBounds}) \<and>
     \<lparr>dev_bus = 0, dev_slot = 3, dev_func = 0, vendor = 0x8086, dev_id = 0x1237, revision = 0, iface = 0x30,
      sub_class = 3, dclass = 0xC\<rparr> \<in> set (devices cfg_demo)" using a by auto
qed

end
