(* ===== verification/Kernel.thy ===== *)
theory Kernel
  imports Usb TarFs
begin

text \<open>
  The start of the kernel, \<open>source/kernel/kernel.c\<close>: what it takes from the boot loader (the structures of
  \<open>include/multiboot.h\<close>, read from memory), the processor description, the operating system module, the order in which
  the components are initialized, and \<open>kernel_main\<close> with its device files and its loop.
\<close>

unbundle bit_operations_syntax

section \<open>What the boot loader hands over\<close>

abbreviation (input) MULTIBOOT_BOOTLOADER_MAGIC :: nat where "MULTIBOOT_BOOTLOADER_MAGIC \<equiv> 0x2BADB002"
abbreviation (input) MULTIBOOT_MEMORY_AVAILABLE :: nat where "MULTIBOOT_MEMORY_AVAILABLE \<equiv> 1"

definition multiboot_aout_symbol_table :: "field list" where
  "multiboot_aout_symbol_table = [U32 ''tabsize'', U32 ''strsize'', U32 ''addr'', U32 ''reserved'']"

definition multiboot_elf_section_header_table :: "field list" where
  "multiboot_elf_section_header_table = [U32 ''num'', U32 ''size'', U32 ''addr'', U32 ''shndx'']"

text \<open>A union has the size of its largest member.\<close>

definition multiboot_info :: "field list" where
  "multiboot_info =
     [U32 ''flags'', U32 ''mem_lower'', U32 ''mem_upper'', U32 ''boot_device'', U32 ''cmdline'', U32 ''mods_count'', U32 ''mods_addr'',
      (''u'', max (size_of multiboot_aout_symbol_table) (size_of multiboot_elf_section_header_table), 4),
      U32 ''mmap_length'', U32 ''mmap_addr'', U32 ''drives_length'', U32 ''drives_addr'', U32 ''config_table'', U32 ''boot_loader_name'',
      U32 ''apm_table'', U32 ''vbe_control_info'', U32 ''vbe_mode_info'', U16 ''vbe_mode'', U16 ''vbe_interface_seg'',
      U16 ''vbe_interface_off'', U16 ''vbe_interface_len'', U64 ''framebuffer_addr'', U32 ''framebuffer_pitch'',
      U32 ''framebuffer_width'', U32 ''framebuffer_height'', U8 ''framebuffer_bpp'', U8 ''framebuffer_type'', (''framebuffer'', 8, 4)]"

definition multiboot_mmap_entry :: "field list" where
  "multiboot_mmap_entry = packed [U32 ''size'', U64 ''addr'', U64 ''len'', U32 ''type'']"

definition multiboot_mod_list :: "field list" where
  "multiboot_mod_list = [U32 ''mod_start'', U32 ''mod_end'', U32 ''cmdline'', U32 ''pad'']"

definition boot_field :: "mem \<Rightarrow> addr \<Rightarrow> string \<Rightarrow> nat" where
  "boot_field m info f = rd32 m (info + offset_of multiboot_info f)"

section \<open>State\<close>

record kern = xhci +
  kernel_PhysicalSize :: nat
  kernel_OSModuleSize :: nat
  kernel_MemorySize :: nat

text \<open>What the linker and the processor decide: the linker symbols, the addresses of the tables, of the assembly stubs,
  of \<open>kernel_idle\<close>, of the static buffer \<open>zero\<close> and of the locals whose address is taken.\<close>

record link_map =
  kernel_Base :: addr
  kernel_Limit :: addr
  gdt_at :: u32
  idt_at :: u32
  default_stub :: u32
  exception_stub :: "nat \<Rightarrow> u32"
  syscall_stub :: u32
  yield_stub :: u32
  idle_at :: addr
  zero_at :: addr
  scan_at :: addr
  data_at :: addr
  data2_at :: addr
  cr3_at_boot :: nat
  eflags_at_boot :: nat

record cpuid_regs =
  ra :: u32
  rb :: u32
  rc :: u32
  rd :: u32

section \<open>The processor\<close>

definition bytes32 :: "u32 \<Rightarrow> u8 list" where
  "bytes32 v = [ucast v, ucast (drop_bit 8 v), ucast (drop_bit 16 v), ucast (drop_bit 24 v)]"

definition cpu_vendor :: "(u32 \<Rightarrow> u32 \<Rightarrow> cpuid_regs) \<Rightarrow> cstring" where
  "cpu_vendor cpuid = (let r = cpuid 0 0 in c_string (bytes32 (rb r) @ bytes32 (rd r) @ bytes32 (rc r)))"

definition cpu_brand :: "(u32 \<Rightarrow> u32 \<Rightarrow> cpuid_regs) \<Rightarrow> cstring" where
  "cpu_brand cpuid =
     c_string (concat (map (\<lambda>i. let r = cpuid (0x80000002 + of_nat i) 0
                                 in bytes32 (ra r) @ bytes32 (rb r) @ bytes32 (rc r) @ bytes32 (rd r)) [0..<3]))"

definition cpu_info :: "(u32 \<Rightarrow> u32 \<Rightarrow> cpuid_regs) \<Rightarrow> nat \<Rightarrow> kernel_CPUInfo_t" where
  "cpu_info cpuid freq =
     (let r1 = cpuid 1 0;
          n = (drop_bit 26 (ra (cpuid 4 0)) AND 0x3F) + 1;
          n1 = (if n = 0 then 1 else n);
          t = drop_bit 16 (rb r1) AND 0xFF
      in \<lparr>vendor_name = cpu_vendor cpuid, brand = cpu_brand cpuid, frequency = freq, cores = n1,
          threads = (if t = 0 then n1 else t), has_tsc = drop_bit 8 (rd r1) AND 1, has_sse = drop_bit 25 (rd r1) AND 1,
          has_avx = drop_bit 28 (rc r1) AND 1, has_vtx = drop_bit 5 (rc r1) AND 1, has_aes = drop_bit 25 (rc r1) AND 1,
          has_x64 = of_bool (rd (cpuid 0x80000001 0) AND push_bit 29 1 \<noteq> 0)\<rparr>)"

definition set_frequency :: "nat \<Rightarrow> nat \<Rightarrow> 'a hw_scheme \<Rightarrow> 'a hw_scheme" where
  "set_frequency t1 t2 s = s\<lparr>kernel_CPUInfo := (kernel_CPUInfo s)\<lparr>frequency := nat ((int t2 - int t1) mod 2 ^ 64)\<rparr>\<rparr>"

text \<open>The block for a stable counter. \<open>others\<close> is what other processes do where \<open>sleep\<close> and \<open>delay\<close> let them run
  (\<open>Multitask.in_stream\<close>).\<close>

definition measure_tsc :: "('a kern_scheme \<Rightarrow> 'a kern_scheme res) \<Rightarrow> 'a kern_scheme \<Rightarrow> 'a kern_scheme res" where
  "measure_tsc others s =
     bindR (sleep_secs others 1 s) (\<lambda>s1.
       let (t1, s2) = utils_rdtsc s1
       in bindR (sleep_secs others 1 s2) (\<lambda>s3.
          let (t2, s4) = utils_rdtsc s3; s5 = set_frequency t1 t2 s4
          in Inr (s5\<lparr>kernel_CPUInfo := (kernel_CPUInfo s5)\<lparr>has_tsc := has_tsc (kernel_CPUInfo s5) OR 2\<rparr>\<rparr>)))"

definition detect_cpu :: "('a kern_scheme \<Rightarrow> 'a kern_scheme res) \<Rightarrow> (u32 \<Rightarrow> u32 \<Rightarrow> cpuid_regs) \<Rightarrow> 'a kern_scheme \<Rightarrow> 'a kern_scheme res" where
  "detect_cpu others cpuid s =
     (let s1 = s\<lparr>kernel_CPUInfo := cpu_info cpuid (frequency (kernel_CPUInfo s))\<rparr>;
          on = has_tsc (kernel_CPUInfo s1) \<noteq> 0
      in bindR (if on then Inr s1 else WARN ''kernel_init'' ''TSC not supported'' [] s1)
        (\<lambda>s2. if on \<and> bit (rd (cpuid 0x80000007 0)) 8
           then measure_tsc others s2
           else if on then WARN ''kernel_init'' ''TSC not stable'' [] s2 else Inr s2))"

section \<open>Memory field and operating system module\<close>

text \<open>The last available region that starts at the kernel wins. A length within one entry of \<open>2 ^ 32\<close>, where the
  counter of the code would wrap, is read as if it did not.\<close>

fun field_loop :: "mem \<Rightarrow> addr \<Rightarrow> addr \<Rightarrow> nat \<Rightarrow> nat \<Rightarrow> nat" where
  "field_loop m base mmmt 0 fieldSize = fieldSize"
| "field_loop m base mmmt (Suc k) fieldSize =
     field_loop m base (wrap32 (mmmt + size_of multiboot_mmap_entry)) k
       (if rd32 m (mmmt + offset_of multiboot_mmap_entry ''type'') = MULTIBOOT_MEMORY_AVAILABLE \<and>
           rd64 m (mmmt + offset_of multiboot_mmap_entry ''addr'') = base
        then rd64 m (mmmt + offset_of multiboot_mmap_entry ''len'') mod 2 ^ 32 else fieldSize)"

definition find_field :: "link_map \<Rightarrow> addr \<Rightarrow> mem \<Rightarrow> nat" where
  "find_field lk info m =
     (let sz = size_of multiboot_mmap_entry
      in field_loop m (kernel_Base lk) (boot_field m info ''mmap_addr'') ((boot_field m info ''mmap_length'' + sz - 1) div sz) 0)"

definition load_module :: "link_map \<Rightarrow> addr \<Rightarrow> nat \<Rightarrow> 'a kern_scheme \<Rightarrow> 'a kern_scheme res" where
  "load_module lk info fieldSize s =
     (let s1 = s\<lparr>kernel_OSModuleSize := 0\<rparr>
      in if boot_field (mem s1) info ''mods_count'' < 1 then WARN ''kernel_init'' ''No operating system module found'' [] s1
         else bindR (if boot_field (mem s1) info ''mods_count'' > 1
              then WARN ''kernel_init'' ''Multiple modules found, using the first module'' [] s1 else Inr s1)
           (\<lambda>s2. let md = boot_field (mem s2) info ''mods_addr'';
                     start = rd32 (mem s2) (md + offset_of multiboot_mod_list ''mod_start'');
                     sz = sub32 (rd32 (mem s2) (md + offset_of multiboot_mod_list ''mod_end'')) start;
                     s3 = s2\<lparr>kernel_OSModuleSize := sz\<rparr>
                 in if sub32 fieldSize (kernel_PhysicalSize s3) < sz then Inl (Panic ''Operating system module too large'')
                    else bindR (INFO ''kernel_init'' ''Loading OS module: %s''
                           [S (let c = rd32 (mem s3) (md + offset_of multiboot_mod_list ''cmdline'') in str_at (mem s3) c (2 ^ 32 - c))] s3)
                      (\<lambda>s4. let hash1 = fnv1ahash (mread (mem s4) start sz);
                                s5 = s4\<lparr>mem := ncopy (mem s4) (kernel_Limit lk) start sz\<rparr>;
                                hash2 = fnv1ahash (mread (mem s5) (kernel_Limit lk) sz)
                            in if hash1 \<noteq> hash2 then Inl (Panic ''Failed to load the operating system module'')
                               else bindR (unit_str sz)
                                 (\<lambda>u. INFO ''kernel_init'' ''OS module loaded successfully (%s)'' [S u] s5))))"

section \<open>The components\<close>

text \<open>\<open>bar\<close> and \<open>dev\<close> are the uninitialised locals of the drivers.\<close>

definition start_core :: "link_map \<Rightarrow> nat \<Rightarrow> 'a kern_scheme \<Rightarrow> 'a kern_scheme res" where
  "start_core lk fieldSize s =
     bindR (protect_init (gdt_at lk) s) (\<lambda>s1.
     bindR (memory_init (kernel_Limit lk) (kernel_OSModuleSize s1)
         (sub32 fieldSize (wrap32 (kernel_PhysicalSize s1 + kernel_OSModuleSize s1)))
         (interrupts_init (idt_at lk) (default_stub lk) (exception_stub lk) s1)) (\<lambda>s2.
     bindR (corefs_init s2) (\<lambda>(_, s3).
     bindR (multitask_init (cr3_at_boot lk) (eflags_at_boot lk) s3) (\<lambda>s4.
     bindR (mountmgr_init s4) (\<lambda>s5.
     Inr (syscall_init (default_stub lk) (syscall_stub lk) (yield_stub lk) s5))))))"

definition start_hardware :: "('a kern_scheme \<Rightarrow> 'a kern_scheme res) \<Rightarrow> devbus_BAR_t \<Rightarrow> devbus_Device_t \<Rightarrow> 'a kern_scheme \<Rightarrow> 'a kern_scheme res" where
  "start_hardware others bar dev s =
     bindR (acpi_init others s) (\<lambda>s1. bindR (devbus_init (usb_init bar) dev s1) (\<lambda>s2. bindR (i8042_init s2) (\<lambda>(_, s3). Inr s3)))"

section \<open>\<open>kernel_main\<close>\<close>

definition mount_module :: "link_map \<Rightarrow> 'a kern_scheme \<Rightarrow> 'a kern_scheme res" where
  "mount_module lk s =
     (if kernel_OSModuleSize s = 0 then Inr s
      else bindR (INFO ''kernel_main'' ''Mounting OS module at root directory...'' [] s)
        (\<lambda>s1. case tarfs_mount (Some (cstr ''/'')) (kernel_Limit lk) (kernel_OSModuleSize s1) s1 of
            None \<Rightarrow> Inl Diverges
          | Some r \<Rightarrow> bindR r
              (\<lambda>(sts, s2). if sts = -1 then Inl (Panic ''Operating system module mounting failed'')
                 else INFO ''kernel_main'' ''OS module mounted successfully'' [] s2)))"

fun list_entries :: "nat \<Rightarrow> nat \<Rightarrow> 'a fs_scheme \<Rightarrow> 'a fs_scheme res" where
  "list_entries i 0 s = Inr s"
| "list_entries i (Suc k) s =
     (if fs_RADirent s i = FS_DIRENTEND then Inr s
      else bindR (fs_dirent (fs_RADirent s i) s)
        (\<lambda>p. bindR
           (if p = 0 then printf (cstr ''dirent %d: FAILED'') [W (of_nat i)] s
            else let e = fs_ent s p
                 in bindR (unit_str (fsize e))
                   (\<lambda>u. printf (cstr '' - %s'' @ [9] @ cstr ''size: %s (%dB))'' @ [10]) [S (name e), S u, W (of_nat (fsize e))] s))
           (list_entries (Suc i) k)))"

definition list_root :: "'a fs_scheme \<Rightarrow> 'a fs_scheme res" where
  "list_root s =
     (case fs_readDir (cstr ''/'') s of
        (True, s1) \<Rightarrow> bindR (printf (cstr ''Entries under /:'' @ [10]) [] s1) (list_entries 0 FS_MAX_ENTCOUNT)
      | (False, s1) \<Rightarrow> printf (cstr ''ReadDir /: FAILED'' @ [10]) [] s1)"

definition make_device :: "link_map \<Rightarrow> string \<Rightarrow> 'a fs_scheme \<Rightarrow> 'a fs_scheme res" where
  "make_device lk path s =
     bindR (fs_writeFile (cstr path) MEMORY_BLKSIZE (zero_at lk) s)
       (\<lambda>(sts, s1). if sts \<noteq> FS_STS_SUCCESS then Inl (Panic (''Unable to create device file '' @ [CHR 0x27] @ path @ [CHR 0x27]))
          else let dev = fs_stat (cstr path) s1
               in if dev = 0 then Inl (Panic (''Unable to get device file '' @ [CHR 0x27] @ path @ [CHR 0x27]))
                  else Inr (set_ent dev (\<lambda>e. e\<lparr>ftype := FS_TYPE_CHARDEV, devperm := 1\<rparr>) s1))"

definition make_devices :: "link_map \<Rightarrow> 'a fs_scheme \<Rightarrow> 'a fs_scheme res" where
  "make_devices lk s =
     bindR (fs_createDir (cstr ''/dev/'') s)
       (\<lambda>(sts, s1). if sts \<noteq> FS_STS_SUCCESS then Inl (Panic (''Unable to create directory '' @ [CHR 0x27] @ ''/dev/'' @ [CHR 0x27]))
          else bindR (make_device lk ''/dev/keyboard'' s1) (make_device lk ''/dev/mouse''))"

definition start_processes :: "link_map \<Rightarrow> 'a kern_scheme \<Rightarrow> 'a kern_scheme res" where
  "start_processes lk s =
     bindR (spawn (Some (cstr ''kernel_idle'')) (idle_at lk) s)
       (\<lambda>(pid, s1). if pid = -1 then Inl (Panic ''Failed to start kernel idle task'')
          else bindR (exec (cstr ''/system/test.elf'') s1) (\<lambda>(_, s2). Inr s2))"

text \<open>Up to the loop.\<close>

definition kernel_main :: "link_map \<Rightarrow> 'a kern_scheme \<Rightarrow> 'a kern_scheme res" where
  "kernel_main lk s =
     bindR (mount_module lk (putchar 10 (puts (cstr ''Welcome!'' @ [10]) s)))
       (\<lambda>s1. bindR (list_root s1) (\<lambda>s2. bindR (make_devices lk s2) (start_processes lk)))"

text \<open>One turn of the loop, up to its \<open>yield\<close>. Characters are signed.\<close>

definition poll_keyboard :: "link_map \<Rightarrow> 'a kern_scheme \<Rightarrow> 'a kern_scheme res" where
  "poll_keyboard lk s =
     bindR (open_call (cstr ''/dev/keyboard'') O_RDONLY s)
       (\<lambda>(keyboard, s1). bindR (read_call keyboard (data_at lk) 1 s1)
         (\<lambda>(n, s2). if n = 1
            then let d = mem s2 (data_at lk)
                 in INFO ''kernel_main'' ''%s: 0x%x''
                      [S (cstr (if d AND KEY_RELEASE \<noteq> 0 then ''Released'' else ''Pressed'')), W (ucast (d AND KEY_CODE))] s2
            else Inr s2))"

definition poll_mouse :: "link_map \<Rightarrow> 'a kern_scheme \<Rightarrow> 'a kern_scheme res" where
  "poll_mouse lk s =
     bindR (open_call (cstr ''/dev/mouse'') O_RDONLY s)
       (\<lambda>(mouse, s1). bindR (read_call mouse (data2_at lk) 3 s1)
         (\<lambda>(n, s2). if n = 3
            then INFO ''kernel_main'' ''Mouse: Stat: 0x%x, Xmox: %d, Ymov: %d''
                   (map (\<lambda>i. W (scast (mem s2 (data2_at lk + i)))) [0..<3]) s2
            else Inr s2))"

definition kernel_turn :: "('a kern_scheme \<Rightarrow> 'a kern_scheme res) \<Rightarrow> link_map \<Rightarrow> 'a kern_scheme \<Rightarrow> 'a kern_scheme res" where
  "kernel_turn others lk s =
     bindR (i8042_proc others (scan_at lk) s) (\<lambda>s1. bindR (poll_keyboard lk s1) (\<lambda>s2. bindR (poll_mouse lk s2) yield))"

text \<open>One turn of \<open>kernel_idle\<close>.\<close>

definition kernel_idle :: "('a kern_scheme \<Rightarrow> 'a kern_scheme res) \<Rightarrow> 'a kern_scheme \<Rightarrow> 'a kern_scheme res" where
  "kernel_idle others s =
     bindR (if \<not> bit (has_tsc (kernel_CPUInfo s)) 1
        then let (t1, s1) = utils_rdtsc s
             in bindR (sleep_secs others 1 s1) (\<lambda>s2. let (t2, s3) = utils_rdtsc s2 in Inr (set_frequency t1 t2 s3))
        else Inr s) yield"

section \<open>\<open>kernel_init\<close>\<close>

definition kernel_init :: "('a kern_scheme \<Rightarrow> 'a kern_scheme res) \<Rightarrow> link_map \<Rightarrow> (u32 \<Rightarrow> u32 \<Rightarrow> cpuid_regs) \<Rightarrow> devbus_BAR_t \<Rightarrow> devbus_Device_t \<Rightarrow> addr \<Rightarrow> nat \<Rightarrow>
    'a kern_scheme \<Rightarrow> 'a kern_scheme res" where
  "kernel_init others lk cpuid bar dev info magic s =
     (if magic \<noteq> MULTIBOOT_BOOTLOADER_MAGIC then Inl (Panic ''Invalid multiboot magic number'')
      else if \<not> bit (boot_field (mem s) info ''flags'') 6 then Inl (Panic ''Invalid memory map given by bootloader'')
      else let s1 = s\<lparr>kernel_PhysicalSize := sub32 (kernel_Limit lk) (kernel_Base lk),
                 kernel_MemorySize := wrap32 (wrap32 (boot_field (mem s) info ''mem_lower'' * 1024) + wrap32 (boot_field (mem s) info ''mem_upper'' * 1024))\<rparr>
        in bindR (detect_cpu others cpuid s1)
          (\<lambda>s2. let fieldSize = find_field lk info (mem s2)
             in if fieldSize = 0 then Inl (Panic ''Kernel field not found'')
                else bindR (load_module lk info fieldSize s2) (\<lambda>s3.
                     bindR (start_core lk fieldSize s3) (\<lambda>s4.
                     bindR (start_hardware others bar dev s4) (\<lambda>s5.
                     bindR (printf (cstr ''Deputy the kernel: build %d, booted successfully.'' @ [10]) [W 32] (putchar 10 s5))
                       (kernel_main lk))))))"

section \<open>A heap that fills from its start\<close>

text \<open>Nothing is allocated from block \<open>k\<close> on.\<close>

definition room :: "'a mm_scheme \<Rightarrow> nat \<Rightarrow> bool" where
  "room s k \<longleftrightarrow> mm_inv s \<and> (\<forall>i. k \<le> i \<and> i < memory_BlockC s \<longrightarrow> \<not> allocated (memory_BlockV s ! i))"

lemma room_cong:
  "room s k \<Longrightarrow> memory_InitLock t = memory_InitLock s \<Longrightarrow> memory_Space t = memory_Space s \<Longrightarrow> memory_Limit t = memory_Limit s \<Longrightarrow>
   memory_BlockV t = memory_BlockV s \<Longrightarrow> memory_BlockC t = memory_BlockC s \<Longrightarrow> room t k"
  using mm_inv_cong [of t s] by (simp add: room_def)

lemma malloc_room:
  assumes "room s k" "0 < sz" "k + nblocks sz \<le> memory_BlockC s"
  obtains p V where "malloc sz s = Inr (p, s\<lparr>memory_BlockV := V\<rparr>)" "memory_Space s \<le> p" "0 < p" "p + sz \<le> memory_Limit s"
    "room (s\<lparr>memory_BlockV := V\<rparr>) (k + nblocks sz)" "live s p = None"
    "live (s\<lparr>memory_BlockV := V\<rparr>) = (live s)(p \<mapsto> nblocks sz * MEMORY_BLKSIZE)"
proof -
  have inv: "mm_inv s" using assms(1) by (simp add: room_def)
  have n: "sz \<le> nblocks sz * MEMORY_BLKSIZE" "0 < nblocks sz" using nblocks_ge nblocks_pos assms(2) by blast+
  have "nblocks sz * MEMORY_BLKSIZE \<le> memory_BlockC s * MEMORY_BLKSIZE" using assms(3) by (intro mult_le_mono1) simp
  then have fit: "fits s sz" using n(1) assms(2) by (simp add: fits_def)
  have len: "length (memory_BlockV s) = memory_BlockC s" by (rule mm_inv_length [OF inv])
  have run: "free_run (memory_BlockV s) k (nblocks sz)"
    using assms(1,3) by (auto simp: free_run_def room_def len)
  obtain p s' where m: "malloc sz s = Inr (p, s')" using malloc_total [OF inv fit] by blast
  have p: "p \<noteq> 0"
  proof
    assume z: "p = 0"
    have "malloc sz s = Inr (0, s')" using m z by simp
    from malloc_null(2) [OF inv fit this] run show False by blast
  qed
  obtain b where b: "p = memory_Space s + b * MEMORY_BLKSIZE" "s' = s\<lparr>memory_BlockV := place (memory_BlockV s) b (nblocks sz)\<rparr>"
    "free_run (memory_BlockV s) b (nblocks sz)" "\<And>j. j < b \<Longrightarrow> \<not> free_run (memory_BlockV s) j (nblocks sz)"
    using malloc_some [OF inv fit m p] by blast
  have bk: "b \<le> k" using b(4) [of k] run by (meson not_le)
  have bl: "b + nblocks sz \<le> memory_BlockC s" using b(3) by (simp add: free_run_def len)
  have "room s' (k + nblocks sz)"
    unfolding room_def
  proof (intro conjI allI impI)
    show "mm_inv s'" by (rule malloc_live(3) [OF inv fit m p])
    fix i assume i: "k + nblocks sz \<le> i \<and> i < memory_BlockC s'"
    then have "i < memory_BlockC s" "k \<le> i" "b + nblocks sz \<le> i" using bk by (auto simp: b(2))
    then show "\<not> allocated (memory_BlockV s' ! i)"
      using assms(1) nth_place [of b "nblocks sz" "memory_BlockV s" i] bl n(2) by (simp add: b(2) len room_def)
  qed
  moreover have "p + sz \<le> memory_Limit s"
  proof -
    have "(b + nblocks sz) * MEMORY_BLKSIZE \<le> memory_BlockC s * MEMORY_BLKSIZE" using bl by (rule mult_le_mono1)
    moreover have "memory_Space s + memory_BlockC s * MEMORY_BLKSIZE \<le> memory_Limit s" using inv by (simp add: mm_inv_def)
    ultimately show ?thesis using n(1) unfolding b(1) add_mult_distrib by linarith
  qed
  moreover have "0 < p" "memory_Space s \<le> p" using p b(1) by simp_all
  ultimately show thesis
    using that [of p "place (memory_BlockV s) b (nblocks sz)"] m malloc_live(1,2) [OF inv fit m p] unfolding b(2) by blast
qed

lemma calloc_room:
  assumes "room s k" "0 < n * c" "n * c < 4294967296" "k + nblocks (n * c) \<le> memory_BlockC s"
  obtains p V m where "calloc n c s = Inr (p, s\<lparr>memory_BlockV := V, mem := m\<rparr>)" "0 < p"
    "room (s\<lparr>memory_BlockV := V, mem := m\<rparr>) (k + nblocks (n * c))" "\<forall>a < memory_Space s. m a = mem s a"
    "live s p = None" "live (s\<lparr>memory_BlockV := V, mem := m\<rparr>) = (live s)(p \<mapsto> nblocks (n * c) * MEMORY_BLKSIZE)"
    "\<forall>q k. live s q = Some k \<longrightarrow> mread m q k = mread (mem s) q k"
proof -
  obtain p V where m: "malloc (n * c) s = Inr (p, s\<lparr>memory_BlockV := V\<rparr>)" "memory_Space s \<le> p" "0 < p" "p + n * c \<le> memory_Limit s"
    "room (s\<lparr>memory_BlockV := V\<rparr>) (k + nblocks (n * c))" "live s p = None"
    "live (s\<lparr>memory_BlockV := V\<rparr>) = (live s)(p \<mapsto> nblocks (n * c) * MEMORY_BLKSIZE)"
    by (rule malloc_room [OF assms(1,2,4)]) blast
  have "memory_InitLock s" using assms(1) mm_inv_lock by (auto simp: room_def)
  moreover have "\<not> n * c > 4294967295" "wrap32 (n * c) = n * c" using assms(3) by simp_all
  ultimately have "calloc n c s = Inr (p, s\<lparr>memory_BlockV := V, mem := fill (mem s) p 0 (n * c)\<rparr>)"
    using m(1,3) by (simp add: calloc_def Let_def)
  moreover have "room (s\<lparr>memory_BlockV := V, mem := fill (mem s) p 0 (n * c)\<rparr>) (k + nblocks (n * c))"
    by (rule room_cong [OF m(5)]) simp_all
  moreover have "\<forall>a < memory_Space s. fill (mem s) p 0 (n * c) a = mem s a" using m(2) by (auto simp: fill_outside)
  moreover have "mread (fill (mem s) p 0 (n * c)) q j = mread (mem s) q j" if q: "live s q = Some j" for q j
  proof -
    have inv: "mm_inv (s\<lparr>memory_BlockV := V\<rparr>)" using m(5) by (simp add: room_def)
    have ne: "q \<noteq> p" using q m(6) by auto
    then have "live (s\<lparr>memory_BlockV := V\<rparr>) q = Some j" using q by (simp add: m(7))
    from live_disjoint [OF inv this, of p] have "disj q j p (nblocks (n * c) * MEMORY_BLKSIZE)" using ne by (simp add: m(7))
    then have "fill (mem s) p 0 (n * c) (q + i) = mem s (q + i)" if "i < j" for i
      using nblocks_ge [OF assms(2)] that by (intro fill_outside) (auto simp: disj_def)
    then show ?thesis by (intro nth_equalityI) simp_all
  qed
  moreover have "live (s\<lparr>memory_BlockV := V, mem := fill (mem s) p 0 (n * c)\<rparr>) = (live s)(p \<mapsto> nblocks (n * c) * MEMORY_BLKSIZE)"
    using m(7) by simp
  ultimately show thesis using that m(3,6) by blast
qed

lemma corefs_init_room:
  assumes "room s k" "k + 34 \<le> memory_BlockC s" "\<not> fs_InitLock s"
  obtains V m t e d g h y where
    "corefs_init s = Inr (FS_STS_SUCCESS, s\<lparr>memory_BlockV := V, mem := m, ticks := t, fs_InitLock := True, fs_EntryT := e,
       fs_EntryV := (\<lambda>_. 0)(0 := d), fs_ent := y, fs_RADirentT := g, fs_RAPathT := h\<rparr>)"
    "room (s\<lparr>memory_BlockV := V\<rparr>) (k + 34)" "\<forall>a < memory_Space s. m a = mem s a"
proof -
  have nb: "nblocks 65536 = 16" "nblocks sizeof_Entry = 1" "nblocks FS_MAX_PATHLEN = 1" by (simp_all add: nblocks_def)
  have z: "(0::nat) < 16384 * 4" "(16384::nat) * 4 < 4294967296" "(0::nat) < 3888" "(0::nat) < 65536" "(0::nat) < 3840" by simp_all
  have b: "k + nblocks (16384 * 4) \<le> memory_BlockC s" using assms(2) by (simp add: nb)
  obtain v V1 m where c: "calloc 16384 4 s = Inr (v, s\<lparr>memory_BlockV := V1, mem := m\<rparr>)" "0 < v"
    "room (s\<lparr>memory_BlockV := V1, mem := m\<rparr>) (k + nblocks (16384 * 4))" "\<forall>a < memory_Space s. m a = mem s a"
    by (rule calloc_room [OF assms(1) z(1,2) b]) blast
  let ?s1 = "s\<lparr>memory_BlockV := V1, mem := m\<rparr>"
  have r1: "room ?s1 (k + 16)" using c(3) by (simp add: nb add.commute)
  have b1: "k + 16 + nblocks 3888 \<le> memory_BlockC ?s1" using assms(2) by (simp add: nb)
  obtain root V2 where r: "malloc 3888 ?s1 = Inr (root, ?s1\<lparr>memory_BlockV := V2\<rparr>)" "0 < root"
    "room (?s1\<lparr>memory_BlockV := V2\<rparr>) (k + 16 + nblocks 3888)"
    by (rule malloc_room [OF r1 z(3) b1]) blast
  let ?s2 = "?s1\<lparr>memory_BlockV := V2\<rparr>"
  have r2: "room ?s2 (k + 17)" using r(3) by (simp add: nb add.commute)
  have b2: "k + 17 + nblocks 65536 \<le> memory_BlockC ?s2" using assms(2) by (simp add: nb)
  obtain d V3 where d: "malloc 65536 ?s2 = Inr (d, ?s2\<lparr>memory_BlockV := V3\<rparr>)" "0 < d"
    "room (?s2\<lparr>memory_BlockV := V3\<rparr>) (k + 17 + nblocks 65536)"
    by (rule malloc_room [OF r2 z(4) b2]) blast
  let ?s3 = "?s2\<lparr>memory_BlockV := V3\<rparr>"
  have r3: "room ?s3 (k + 33)" using d(3) by (simp add: nb add.commute)
  have b3: "k + 33 + nblocks 3840 \<le> memory_BlockC ?s3" using assms(2) by (simp add: nb)
  obtain p V4 where p: "malloc 3840 ?s3 = Inr (p, ?s3\<lparr>memory_BlockV := V4\<rparr>)" "0 < p"
    "room (?s3\<lparr>memory_BlockV := V4\<rparr>) (k + 33 + nblocks 3840)"
    by (rule malloc_room [OF r3 z(5) b3]) blast
  let ?s4 = "?s3\<lparr>memory_BlockV := V4\<rparr>"
  have "k + 33 + nblocks 3840 = k + 34" by (simp add: nb)
  then have r4: "room ?s4 (k + 34)" using p(3) by (simp only:)
  let ?s5 = "?s4\<lparr>fs_EntryT := v, fs_EntryV := (\<lambda>_. 0)(0 := root), fs_RADirentT := d, fs_RAPathT := p\<rparr>"
  let ?s6 = "stamp_all root (set_ent root (\<lambda>e. e\<lparr>name := [slash], user := 0, group := 0\<rparr>) ?s5)"
  let ?s7 = "set_ent root (\<lambda>e. e\<lparr>perm := 0x1FF, etype := FS_TYPE_DIR\<rparr>) ?s6"
  have "corefs_init s = Inr (FS_STS_SUCCESS, ?s7\<lparr>fs_InitLock := True\<rparr>)"
    using assms(3) c(1,2) r(1,2) d(1,2) p(1,2) by (simp add: corefs_init_def alloc_or_panic_def Let_def)
  moreover have "?s7\<lparr>fs_InitLock := True\<rparr> = s\<lparr>memory_BlockV := V4, mem := m, ticks := ticks ?s7, fs_InitLock := True, fs_EntryT := v,
       fs_EntryV := (\<lambda>_. 0)(0 := root), fs_ent := fs_ent ?s7, fs_RADirentT := d, fs_RAPathT := p\<rparr>"
    by (simp add: ent_defs)
  moreover have "room (s\<lparr>memory_BlockV := V4\<rparr>) (k + 34)" by (rule room_cong [OF r4]) simp_all
  ultimately show thesis using that [where m = m and t = "ticks ?s7" and e = v and d = root and g = d and h = p and y = "fs_ent ?s7" and V = V4] c(4) by metis
qed

text \<open>The steps that follow, on the same heap.\<close>

lemma set_gates_only: "\<exists>t. set_gates d rs s = s\<lparr>interrupts_IDTEntry := t\<rparr>"
proof (induction d rs s rule: set_gates.induct)
  case (1 d s)
  show ?case by (rule exI [of _ "interrupts_IDTEntry s"]) simp
next
  case (2 d n h rs s)
  then show ?case by (auto simp: interrupts_setGate_def)
qed

lemma interrupts_init_only:
  assumes "\<not> interrupts_InitLock s"
  obtains t p q c where "interrupts_init a d stub s =
    s\<lparr>interrupts_InitLock := True, interrupts_IDTEntry := t, interrupts_IDTPointer := p, idtr := q, cr4 := c\<rparr>"
proof -
  let ?s = "s\<lparr>interrupts_InitLock := True\<rparr>"
  obtain t1 where t1: "set_gates d (map (\<lambda>i. (int i, d)) [0..<256]) ?s = ?s\<lparr>interrupts_IDTEntry := t1\<rparr>" using set_gates_only by blast
  obtain t2 where t2: "set_gates d (map (\<lambda>i. (int i, stub i)) [0..<32]) (?s\<lparr>interrupts_IDTEntry := t1\<rparr>) =
      ?s\<lparr>interrupts_IDTEntry := t1\<rparr>\<lparr>interrupts_IDTEntry := t2\<rparr>" using set_gates_only by blast
  show thesis
    by (rule that [where t = t2]) (simp add: assms interrupts_init_def interrupts_exceptionInterruptsInit_def Let_def t1 t2)
qed

lemma protect_init_only:
  assumes "\<not> protect_InitLock s" "length (protect_GDTEntry s) = 3"
  obtains t p where "protect_init g s =
    Inr (s\<lparr>protect_InitLock := True, protect_GDTPointer := p, protect_GDTEntry := t, gdtr := p, data_seg := 0x10, code_seg := 0x08\<rparr>)"
proof -
  from assms(2) obtain x y z where e: "protect_GDTEntry s = [x, y, z]" by (auto simp: length_Suc_conv numeral_eq_Suc)
  show thesis
    by (rule that [where p = "\<lparr>tlimit = 23, tbase = g\<rparr>" and
          t = "[gdt_entry 0 0 0 0, gdt_entry 0 0xFFFFFFFF 0x9A 0xCF, gdt_entry 0 0xFFFFFFFF 0x92 0xCF]"])
      (simp add: assms(1) protect_init_def protect_setGDTEntry_def protect_flush_def Let_def e)
qed

lemma mountmgr_init_room:
  assumes "room s k" "k + 1 \<le> memory_BlockC s" "\<not> mountmgr_InitLock s"
  obtains p V m where "mountmgr_init s =
      Inr (s\<lparr>mountmgr_InitLock := True, memory_BlockV := V, mem := m, mountmgr_MountT := p, mountmgr_MountV := \<lambda>_. 0\<rparr>)" "p \<noteq> 0"
    "room (s\<lparr>memory_BlockV := V\<rparr>) (k + 1)" "\<forall>a < memory_Space s. m a = mem s a"
    "live s p = None" "live (s\<lparr>memory_BlockV := V\<rparr>) = (live s)(p \<mapsto> MEMORY_BLKSIZE)"
    "\<forall>q k. live s q = Some k \<longrightarrow> mread m q k = mread (mem s) q k"
proof -
  let ?s = "s\<lparr>mountmgr_InitLock := True\<rparr>"
  have nb: "nblocks (1024 * 4) = 1" by (simp add: nblocks_def)
  have c: "(0::nat) < 1024 * 4" "(1024::nat) * 4 < 4294967296" "k + nblocks (1024 * 4) \<le> memory_BlockC ?s"
    unfolding nb using assms(2) by simp_all
  have r: "room ?s k" by (rule room_cong [OF assms(1)]) simp_all
  obtain p V m where m: "calloc 1024 4 ?s = Inr (p, ?s\<lparr>memory_BlockV := V, mem := m\<rparr>)" "0 < p"
    "room (?s\<lparr>memory_BlockV := V, mem := m\<rparr>) (k + nblocks (1024 * 4))" "\<forall>a < memory_Space ?s. m a = mem ?s a"
    "live ?s p = None" "live (?s\<lparr>memory_BlockV := V, mem := m\<rparr>) = (live ?s)(p \<mapsto> nblocks (1024 * 4) * MEMORY_BLKSIZE)"
    "\<forall>q k. live ?s q = Some k \<longrightarrow> mread m q k = mread (mem ?s) q k"
    by (rule calloc_room [OF r c]) blast
  have l: "live ?s = live s" "live (?s\<lparr>memory_BlockV := V, mem := m\<rparr>) = live (s\<lparr>memory_BlockV := V\<rparr>)"
    by (rule live_cong; simp)+
  have "mountmgr_init s =
      Inr (s\<lparr>mountmgr_InitLock := True, memory_BlockV := V, mem := m, mountmgr_MountT := p, mountmgr_MountV := \<lambda>_. 0\<rparr>)"
    using assms(3) m(1,2) by (simp add: mountmgr_init_def)
  moreover have "room (s\<lparr>memory_BlockV := V\<rparr>) (k + 1)" by (rule room_cong [OF m(3) [unfolded nb]]) simp_all
  ultimately show thesis using that [where p = p and V = V and m = m] m(2,4-7) unfolding l nb by simp
qed

lemma memory_init_only:
  assumes "memory_init kl os sz s = Inr s'" "\<not> memory_InitLock s"
  obtains a b where "s' = s\<lparr>memory_InitLock := True, memory_Space := a, memory_Limit := b,
      memory_BlockV := replicate (sz div 4104 - 1) \<lparr>count = 0, allocated = False\<rparr>, memory_BlockC := sz div 4104 - 1\<rparr>"
proof -
  have "sz div 4104 - (if sz div 4104 \<noteq> 0 then 1 else 0) = sz div 4104 - 1" by simp
  then show thesis using assms that unfolding memory_init_def Let_def by (auto split: if_splits)
qed

text \<open>What the core leaves alone.\<close>

definition above :: "'a kern_scheme \<Rightarrow> bool \<times> bool \<times> ports \<times> bool \<times> bool \<times> addr \<times> bool \<times> nat \<times> bool" where
  "above s = (iocall_Initialized s, iocall_ForceAccess s, pio s, acpi_InitLock s, devbus_InitLock s, devbus_PCIeBase s,
     i8042_InitLock s, kernel_OSModuleSize s, multitask_InStream s)"

text \<open>36 blocks are taken, and one entry of the file system, its first.\<close>

definition fresh_heap :: "'a fs_scheme \<Rightarrow> bool" where
  "fresh_heap s \<longleftrightarrow> room s 36 \<and> (\<exists>d. fs_EntryV s = (\<lambda>_. 0)(0 := d))"

text \<open>Core file system, processes and mount slots, on an empty heap of at least 36 blocks.\<close>

lemma services_start:
  assumes "room s 0" "36 \<le> memory_BlockC s" "\<not> fs_InitLock s" "\<not> multitask_InitLock s" "\<not> mountmgr_InitLock s"
  obtains s1 s2 s3 e where "corefs_init s = Inr (FS_STS_SUCCESS, s1)" "multitask_init cr3 fl s1 = Inr s2" "mountmgr_init s2 = Inr s3"
    "task_inv s3" "\<forall>j. pstack s3 j = None" "fs_view s3 = [[slash] \<mapsto> (e, [])]" "etype e = FS_TYPE_DIR" "mountmgr_InitLock s3" "mounted s3 = (\<lambda>_. None)"
    "\<forall>a < memory_Space s. mem s3 a = mem s a" "memory_Space s3 = memory_Space s" "memory_Limit s3 = memory_Limit s"
    "interrupts_InitLock s3 = interrupts_InitLock s" "interrupts_IDTEntry s3 = interrupts_IDTEntry s"
    "protect_GDTEntry s3 = protect_GDTEntry s" "syscall_Table s3 = syscall_Table s"
    "fresh_heap s3" "memory_BlockC s3 = memory_BlockC s" "above s3 = above s"
proof -
  have inv: "mm_inv s" using assms(1) by (simp add: room_def)
  have b0: "0 + 34 \<le> memory_BlockC s" using assms(2) by simp
  obtain V m t e d g h y where c0: "corefs_init s = Inr (FS_STS_SUCCESS, s\<lparr>memory_BlockV := V, mem := m, ticks := t, fs_InitLock := True,
       fs_EntryT := e, fs_EntryV := (\<lambda>_. 0)(0 := d), fs_ent := y, fs_RADirentT := g, fs_RAPathT := h\<rparr>)"
    "room (s\<lparr>memory_BlockV := V\<rparr>) (0 + 34)" "\<forall>a < memory_Space s. m a = mem s a"
    by (rule corefs_init_room [OF assms(1) b0 assms(3)]) blast
  define s1 where "s1 = s\<lparr>memory_BlockV := V, mem := m, ticks := t, fs_InitLock := True,
       fs_EntryT := e, fs_EntryV := (\<lambda>_. 0)(0 := d), fs_ent := y, fs_RADirentT := g, fs_RAPathT := h\<rparr>"
  have c: "corefs_init s = Inr (FS_STS_SUCCESS, s1)" unfolding s1_def by (rule c0(1))
  have r1: "room s1 34" by (rule room_cong [OF c0(2), simplified]) (simp_all add: s1_def)
  have "fits s 65536" using assms(2) by (simp add: fits_def)
  from corefs_init_view [OF inv assms(3) this] obtain ent where v: "fs_inv s1" "fs_view s1 = [[slash] \<mapsto> (ent, [])]" "etype ent = FS_TYPE_DIR"
    unfolding c by auto
  have nb: "nblocks (32 * 76) = 1" by (simp add: nblocks_def)
  have z: "0 < (32 * 76 :: nat)" "34 + nblocks (32 * 76) \<le> memory_BlockC s1" unfolding nb using assms(2) by (simp_all add: s1_def)
  obtain p W where w: "malloc (32 * 76) s1 = Inr (p, s1\<lparr>memory_BlockV := W\<rparr>)" "0 < p"
    "room (s1\<lparr>memory_BlockV := W\<rparr>) (34 + nblocks (32 * 76))"
    by (rule malloc_room [OF r1 z]) blast
  define s2 where "s2 = s1\<lparr>memory_BlockV := W, multitask_ProcT := p, multitask_ProcV := replicate 32 zero_proc,
      multitask_DefRegs := (multitask_DefRegs s1)\<lparr>CR3 := cr3, EFLAGS := fl\<rparr>, multitask_InitLock := True\<rparr>"
  have l1: "\<not> multitask_InitLock s1" using assms(4) by (simp add: s1_def)
  have m2: "multitask_init cr3 fl s1 = Inr s2" using l1 w(1,2) by (simp add: multitask_init_def s2_def)
  have "fits s1 (32 * 76)" using assms(2) by (simp add: fits_def s1_def)
  from multitask_init_inv [OF v(1) l1 this m2] have t2: "task_inv s2" "\<forall>j. pstack s2 j = None" "fs_view s2 = fs_view s1" by auto
  have r2: "room s2 35" by (rule room_cong [OF w(3) [unfolded nb], simplified]) (simp_all add: s2_def)
  have b2: "35 + 1 \<le> memory_BlockC s2" "\<not> mountmgr_InitLock s2" using assms(2,5) by (simp_all add: s2_def s1_def)
  obtain q X m' where q: "mountmgr_init s2 =
      Inr (s2\<lparr>mountmgr_InitLock := True, memory_BlockV := X, mem := m', mountmgr_MountT := q, mountmgr_MountV := \<lambda>_. 0\<rparr>)"
    "room (s2\<lparr>memory_BlockV := X\<rparr>) (35 + 1)" "\<forall>a < memory_Space s2. m' a = mem s2 a" "live s2 q = None"
    "live (s2\<lparr>memory_BlockV := X\<rparr>) = (live s2)(q \<mapsto> MEMORY_BLKSIZE)" "\<forall>a k. live s2 a = Some k \<longrightarrow> mread m' a k = mread (mem s2) a k"
    by (rule mountmgr_init_room [OF r2 b2]) blast
  define s3 where "s3 = s2\<lparr>mountmgr_InitLock := True, memory_BlockV := X, mem := m', mountmgr_MountT := q, mountmgr_MountV := \<lambda>_. 0\<rparr>"
  have l3: "live s3 = (live s2)(q \<mapsto> MEMORY_BLKSIZE)" unfolding q(5) [symmetric] by (rule live_cong) (simp_all add: s3_def)
  have i2: "fs_inv s2" by (rule task_invD(3) [OF t2(1)])
  have mm3: "mm_inv s3" using room_cong [OF q(2), of s3] by (simp add: room_def s3_def)
  have f3: "fs_inv s3 \<and> fs_view s3 = fs_view s2"
  proof (rule fs_heap_change [OF i2 mm3])
    fix i assume i: "in_use s2 i"
    show "live s3 (fs_EntryV s2 i) = live s2 (fs_EntryV s2 i)" using in_use_live [OF i2 i] q(4) by (auto simp: l3)
  qed (use q(6) in \<open>simp_all add: s3_def\<close>)
  have p3: "pstack s3 = pstack s2" by (simp add: pstack_def s3_def fun_eq_iff)
  have "task_inv s3" using t2(1,2) f3 unfolding task_inv_def p3 by (simp add: s3_def)
  moreover have "mountmgr_init s2 = Inr s3" using q(1) by (simp add: s3_def)
  moreover have "\<forall>a < memory_Space s. mem s3 a = mem s a" using c0(3) q(3) by (simp add: s3_def s2_def s1_def)
  moreover have "mounted s3 = (\<lambda>_. None)" by (simp add: mounted_def s3_def fun_eq_iff)
  moreover have "mountmgr_InitLock s3" "memory_Space s3 = memory_Space s" "memory_Limit s3 = memory_Limit s"
    "interrupts_InitLock s3 = interrupts_InitLock s" "interrupts_IDTEntry s3 = interrupts_IDTEntry s"
    "protect_GDTEntry s3 = protect_GDTEntry s" "syscall_Table s3 = syscall_Table s" "memory_BlockC s3 = memory_BlockC s"
    "above s3 = above s" by (simp_all add: s3_def s2_def s1_def above_def)
  moreover have "fresh_heap s3"
  proof -
    have "room s3 36" using room_cong [OF q(2), of s3] by (simp add: s3_def)
    then show ?thesis by (auto simp: fresh_heap_def s3_def s2_def s1_def)
  qed
  moreover have "fs_view s3 = [[slash] \<mapsto> (ent, [])]" using f3 t2(3) v(2) by simp
  moreover have "\<forall>j. pstack s3 j = None" using t2(2) by (simp add: p3)
  ultimately show thesis using v(3) by (intro that [OF c m2, of s3 ent])
qed

text \<open>Nothing initialized: the static variables as the boot loader leaves them.\<close>

definition cold :: "'a kern_scheme \<Rightarrow> bool" where
  "cold s \<longleftrightarrow> \<not> protect_InitLock s \<and> length (protect_GDTEntry s) = 3 \<and> \<not> interrupts_InitLock s \<and>
     length (interrupts_IDTEntry s) = 256 \<and> \<not> memory_InitLock s \<and> \<not> fs_InitLock s \<and> \<not> multitask_InitLock s \<and>
     \<not> mountmgr_InitLock s \<and> syscall_Table s = replicate 256 None"

text \<open>Everything the later components rely on.\<close>

definition booted :: "link_map \<Rightarrow> 'a kern_scheme \<Rightarrow> bool" where
  "booted lk s \<longleftrightarrow> task_inv s \<and> (\<forall>j. pstack s j = None) \<and>
     (\<exists>e. fs_view s = [[slash] \<mapsto> (e, [])] \<and> etype e = FS_TYPE_DIR) \<and>
     mountmgr_InitLock s \<and> mounted s = (\<lambda>_. None) \<and>
     (\<forall>n<256. syscall_Table s ! n = number_of n) \<and> interrupts_InitLock s \<and>
     (\<forall>v<256. gate_ok (interrupts_IDTEntry s ! v) \<and>
        gate_offset (interrupts_IDTEntry s ! v) = (if v < 32 then exception_stub lk v else if v = 0x80 then syscall_stub lk
          else if v = 0x9E then yield_stub lk else default_stub lk))"

lemma gate_idt_entry [simp]: "gate_ok (idt_entry a)"
  by (simp add: gate_ok_def idt_entry_def)

text \<open>The last step, the system calls.\<close>

lemma syscall_init_boots:
  assumes inv: "task_inv s" "\<forall>j. pstack s j = None" "fs_view s = [[slash] \<mapsto> (e, [])]" "etype e = FS_TYPE_DIR"
    "mountmgr_InitLock s" "mounted s = (\<lambda>_. None)" "interrupts_InitLock s" "length (interrupts_IDTEntry s) = 256"
    and gates: "\<And>n. n < 256 \<Longrightarrow> interrupts_IDTEntry s ! n = idt_entry (if n < 32 then exception_stub lk n else default_stub lk)"
    and tab: "syscall_Table s = replicate 256 None" and stubs: "syscall_stub lk \<noteq> 0" "yield_stub lk \<noteq> 0"
  defines "s' \<equiv> syscall_init (default_stub lk) (syscall_stub lk) (yield_stub lk) s"
  shows "booted lk s'" "mem s' = mem s" "memory_Space s' = memory_Space s" "memory_Limit s' = memory_Limit s"
    "fresh_heap s \<Longrightarrow> fresh_heap s'" "memory_BlockC s' = memory_BlockC s" "above s' = above s"
proof -
  have s': "s' = s\<lparr>syscall_Table := syscall_Table s', interrupts_IDTEntry :=
      (interrupts_IDTEntry s)[0x80 := idt_entry (syscall_stub lk), 0x9E := idt_entry (yield_stub lk)]\<rparr>"
    using inv(7) stubs by (simp add: s'_def syscall_init_def interrupts_setGate_def Let_def)
  have h: "same_heap s' s" by (subst s', rule same_heapI) simp_all
  show m: "mem s' = mem s" "memory_Space s' = memory_Space s" "memory_Limit s' = memory_Limit s" "memory_BlockC s' = memory_BlockC s"
    "above s' = above s" by (subst s', simp add: above_def)+
  have "room s' k" if "room s k" for k by (rule room_cong [OF that]; subst s'; simp)
  moreover have "fs_EntryV s' = fs_EntryV s" by (subst s', simp)
  ultimately show "fresh_heap s'" if "fresh_heap s" using that by (simp add: fresh_heap_def)
  have "task_inv s'"
    by (rule task_inv_same [OF inv(1) h]) (subst s', use task_invD(1,2) [OF inv(1)] in \<open>simp add: pstack_def\<close>)+
  moreover have "fs_view s' = fs_view s" by (rule fs_view_cong; subst s'; simp)
  moreover have "pstack s' = pstack s" "mounted s' = mounted s" by (subst s', simp add: pstack_def mounted_def fun_eq_iff)+
  moreover have "mountmgr_InitLock s'" "interrupts_InitLock s'" by (subst s', simp add: inv(5,7))+
  moreover have "\<forall>n<256. syscall_Table s' ! n = number_of n" using syscall_table_nth [OF tab] by (simp add: s'_def)
  moreover have "gate_ok (interrupts_IDTEntry s' ! n) \<and> gate_offset (interrupts_IDTEntry s' ! n) =
      (if n < 32 then exception_stub lk n else if n = 0x80 then syscall_stub lk else if n = 0x9E then yield_stub lk else default_stub lk)"
    if "n < 256" for n
    using that by (subst (1 2) s') (simp add: nth_list_update gates inv(8) gate_offset_entry)
  ultimately show "booted lk s'" using inv(2-4,6) unfolding booted_def by (simp, blast)
qed

text \<open>The first steps, down to the empty heap.\<close>

lemma core_begins:
  assumes cold: "cold s" and sz: "151848 \<le> sz" "kernel_Limit lk + kernel_OSModuleSize s + sz < 4294967296"
    and stubs: "default_stub lk \<noteq> 0" "\<forall>i<32. exception_stub lk i \<noteq> 0"
  obtains s1 s3 where "protect_init (gdt_at lk) s = Inr s1" "kernel_PhysicalSize s1 = kernel_PhysicalSize s" "kernel_OSModuleSize s1 = kernel_OSModuleSize s"
    "memory_init (kernel_Limit lk) (kernel_OSModuleSize s) sz (interrupts_init (idt_at lk) (default_stub lk) (exception_stub lk) s1) = Inr s3"
    "room s3 0" "36 \<le> memory_BlockC s3" "\<not> fs_InitLock s3" "\<not> multitask_InitLock s3" "\<not> mountmgr_InitLock s3"
    "kernel_Limit lk + kernel_OSModuleSize s \<le> memory_Space s3" "memory_Limit s3 \<le> kernel_Limit lk + kernel_OSModuleSize s + sz"
    "mem s3 = mem s" "syscall_Table s3 = replicate 256 None" "interrupts_InitLock s3" "length (interrupts_IDTEntry s3) = 256"
    "\<And>n. n < 256 \<Longrightarrow> interrupts_IDTEntry s3 ! n = idt_entry (if n < 32 then exception_stub lk n else default_stub lk)"
    "memory_BlockC s3 = sz div 4104 - 1" "above s3 = above s"
proof -
  have c: "\<not> protect_InitLock s" "length (protect_GDTEntry s) = 3" "\<not> interrupts_InitLock s" "length (interrupts_IDTEntry s) = 256"
    "\<not> memory_InitLock s" "\<not> fs_InitLock s" "\<not> multitask_InitLock s" "\<not> mountmgr_InitLock s" "syscall_Table s = replicate 256 None"
    using cold by (simp_all add: cold_def)
  obtain t p where p: "protect_init (gdt_at lk) s = Inr (s\<lparr>protect_InitLock := True, protect_GDTPointer := p,
      protect_GDTEntry := t, gdtr := p, data_seg := 0x10, code_seg := 0x08\<rparr>)" by (rule protect_init_only [OF c(1,2)])
  define s1 where "s1 = s\<lparr>protect_InitLock := True, protect_GDTPointer := p, protect_GDTEntry := t, gdtr := p,
      data_seg := 0x10, code_seg := 0x08\<rparr>"
  define s2 where "s2 = interrupts_init (idt_at lk) (default_stub lk) (exception_stub lk) s1"
  have l1: "\<not> interrupts_InitLock s1" "length (interrupts_IDTEntry s1) = 256" using c(3,4) by (simp_all add: s1_def)
  obtain t2 p2 q2 c2 where s2: "s2 = s1\<lparr>interrupts_InitLock := True, interrupts_IDTEntry := t2, interrupts_IDTPointer := p2,
      idtr := q2, cr4 := c2\<rparr>" unfolding s2_def by (rule interrupts_init_only [OF l1(1)])
  note gates = interrupts_init_gates [OF l1 stubs, where a = "idt_at lk", folded s2_def]
  have b: "\<not> memory_InitLock s2" "8208 \<le> sz" "kernel_Limit lk + kernel_OSModuleSize s + sz < 4294967296"
    using c(5) sz by (simp_all add: s2 s1_def)
  have "sz < 4294967296" using b(3) by linarith
  then obtain s3 where m: "memory_init (kernel_Limit lk) (kernel_OSModuleSize s) sz s2 = Inr s3" using memory_init_total [OF b(1,2)] by blast
  note lay = memory_init_layout [OF b m]
  obtain x y where s3: "s3 = s2\<lparr>memory_InitLock := True, memory_Space := x, memory_Limit := y,
      memory_BlockV := replicate (sz div 4104 - 1) \<lparr>count = 0, allocated = False\<rparr>, memory_BlockC := sz div 4104 - 1\<rparr>"
    by (rule memory_init_only [OF m b(1)])
  have "37 \<le> sz div 4104" using sz(1) by (simp add: less_eq_div_iff_mult_less_eq)
  then have bc: "36 \<le> memory_BlockC s3" by (simp add: s3)
  have r: "room s3 0" using lay(1) by (simp add: room_def) (simp add: s3)
  have f: "\<not> fs_InitLock s3" "\<not> multitask_InitLock s3" "\<not> mountmgr_InitLock s3" "mem s3 = mem s" "syscall_Table s3 = replicate 256 None"
    "interrupts_InitLock s3" "interrupts_IDTEntry s3 = interrupts_IDTEntry s2" using c(6-9) by (simp_all add: s3 s2 s1_def)
  have k: "kernel_PhysicalSize s1 = kernel_PhysicalSize s" "kernel_OSModuleSize s1 = kernel_OSModuleSize s" by (simp_all add: s1_def)
  show thesis
    by (rule that [OF p [folded s1_def] k m [unfolded s2_def] r bc f(1-3) _ lay(3) f(4-6)]) (use lay(2) gates(2,3) f(7) in \<open>simp_all add: s3 s2 s1_def above_def\<close>)
qed

lemma start_core_boots_with:
  assumes "cold s" "kernel_PhysicalSize s + kernel_OSModuleSize s + 151848 \<le> fieldSize"
    "kernel_Limit lk + fieldSize < 4294967296 + kernel_PhysicalSize s" "fieldSize < 4294967296"
    "default_stub lk \<noteq> 0" "\<forall>i<32. exception_stub lk i \<noteq> 0" "syscall_stub lk \<noteq> 0" "yield_stub lk \<noteq> 0"
  shows "\<exists>s'. start_core lk fieldSize s = Inr s' \<and> booted lk s' \<and>
    mread (mem s') (kernel_Limit lk) (kernel_OSModuleSize s) = mread (mem s) (kernel_Limit lk) (kernel_OSModuleSize s) \<and>
    kernel_Limit lk + kernel_OSModuleSize s \<le> memory_Space s' \<and>
    memory_Limit s' \<le> kernel_Limit lk + (fieldSize - kernel_PhysicalSize s) \<and>
    (\<forall>a < memory_Space s'. mem s' a = mem s a) \<and> fresh_heap s' \<and>
    memory_BlockC s' = (fieldSize - (kernel_PhysicalSize s + kernel_OSModuleSize s)) div 4104 - 1 \<and>
    above s' = above s"
proof -
  let ?os = "kernel_OSModuleSize s"
  define sz where "sz = fieldSize - (kernel_PhysicalSize s + ?os)"
  have b: "151848 \<le> sz" "kernel_Limit lk + ?os + sz < 4294967296" using assms(2,3) by (simp_all add: sz_def)
  have "kernel_PhysicalSize s + ?os < 4294967296" using assms(2,4) by linarith
  then have sub: "sub32 fieldSize (wrap32 (kernel_PhysicalSize s + ?os)) = sz"
    using assms(2,4) by (simp add: sz_def sub32_small)
  obtain s1 s3 where p: "protect_init (gdt_at lk) s = Inr s1" "kernel_PhysicalSize s1 = kernel_PhysicalSize s" "kernel_OSModuleSize s1 = ?os"
    "memory_init (kernel_Limit lk) ?os sz (interrupts_init (idt_at lk) (default_stub lk) (exception_stub lk) s1) = Inr s3"
    "room s3 0" "36 \<le> memory_BlockC s3" "\<not> fs_InitLock s3" "\<not> multitask_InitLock s3" "\<not> mountmgr_InitLock s3"
    "kernel_Limit lk + ?os \<le> memory_Space s3" "memory_Limit s3 \<le> kernel_Limit lk + ?os + sz"
    "mem s3 = mem s" "syscall_Table s3 = replicate 256 None" "interrupts_InitLock s3" "length (interrupts_IDTEntry s3) = 256"
    "\<And>n. n < 256 \<Longrightarrow> interrupts_IDTEntry s3 ! n = idt_entry (if n < 32 then exception_stub lk n else default_stub lk)"
    "memory_BlockC s3 = sz div 4104 - 1" "above s3 = above s"
    by (rule core_begins [OF assms(1) b assms(5,6)]) blast
  obtain s4 s5 s6 e where v: "corefs_init s3 = Inr (FS_STS_SUCCESS, s4)" "multitask_init (cr3_at_boot lk) (eflags_at_boot lk) s4 = Inr s5"
    "mountmgr_init s5 = Inr s6" "task_inv s6" "\<forall>j. pstack s6 j = None" "fs_view s6 = [[slash] \<mapsto> (e, [])]" "etype e = FS_TYPE_DIR"
    "mountmgr_InitLock s6" "mounted s6 = (\<lambda>_. None)"
    "\<forall>a < memory_Space s3. mem s6 a = mem s3 a" "memory_Space s6 = memory_Space s3" "memory_Limit s6 = memory_Limit s3"
    "interrupts_InitLock s6 = interrupts_InitLock s3" "interrupts_IDTEntry s6 = interrupts_IDTEntry s3"
    "protect_GDTEntry s6 = protect_GDTEntry s3" "syscall_Table s6 = syscall_Table s3"
    "fresh_heap s6" "memory_BlockC s6 = memory_BlockC s3" "above s6 = above s3"
    by (rule services_start [OF p(5-9)]) blast
  define s7 where "s7 = syscall_init (default_stub lk) (syscall_stub lk) (yield_stub lk) s6"
  have run: "start_core lk fieldSize s = Inr s7"
    using p(1-4) v(1-3) sub unfolding start_core_def s7_def by simp
  note last = syscall_init_boots [OF v(4-9) _ _ _ _ assms(7,8), unfolded v(13,14,16), OF p(14,15,16,13), folded s7_def]
  have "mread (mem s7) (kernel_Limit lk) ?os = mread (mem s) (kernel_Limit lk) ?os"
    using v(10) p(10,12) by (intro nth_equalityI) (simp_all add: last(2))
  moreover have "kernel_Limit lk + ?os + sz = kernel_Limit lk + (fieldSize - kernel_PhysicalSize s)"
    using assms(2) by (simp add: sz_def)
  moreover have "\<forall>a < memory_Space s7. mem s7 a = mem s a" using v(10,11) p(12) by (simp add: last(2,3))
  moreover have "memory_BlockC s7 = (fieldSize - (kernel_PhysicalSize s + ?os)) div 4104 - 1" "above s7 = above s"
    using v(18,19) p(17,18) by (simp_all add: last(6,7) sz_def)
  ultimately show ?thesis using run last(1,3,4) last(5) [OF _ v(17)] p(10,11) v(11,12) by (intro exI [of _ s7]) simp
qed

text \<open>C35. From the cold machine, on a memory field with at least 151848 bytes behind kernel and module, all
  initializers succeed in the order of \<open>kernel_init\<close>. Afterwards the process table is empty and well formed, the file
  system holds nothing but its root directory, no mount slot is taken, the call table holds the six calls, every gate of
  the interrupt table is a proper one that leads where it should (exceptions, system call, yield, default), and the heap
  lies behind the module and inside the field, so that the bytes of the module are still there.\<close>

theorem start_core_boots:
  assumes "cold s" "kernel_PhysicalSize s + kernel_OSModuleSize s + 151848 \<le> fieldSize"
    "kernel_Limit lk + fieldSize < 4294967296 + kernel_PhysicalSize s" "fieldSize < 4294967296"
    "default_stub lk \<noteq> 0" "\<forall>i<32. exception_stub lk i \<noteq> 0" "syscall_stub lk \<noteq> 0" "yield_stub lk \<noteq> 0"
  shows "\<exists>s'. start_core lk fieldSize s = Inr s' \<and> booted lk s' \<and>
    mread (mem s') (kernel_Limit lk) (kernel_OSModuleSize s) = mread (mem s) (kernel_Limit lk) (kernel_OSModuleSize s) \<and>
    kernel_Limit lk + kernel_OSModuleSize s \<le> memory_Space s' \<and>
    memory_Limit s' \<le> kernel_Limit lk + (fieldSize - kernel_PhysicalSize s)"
  using start_core_boots_with [OF assms] by blast

lemma unit_str_total: "\<exists>u. unit_str n = Inr u"
  by (auto simp: unit_str_def snprintf_def cstr_def sub32_def sn_loop.simps split: prod.split)

lemma module_messages:
  "\<exists>t. INFO ''kernel_init'' ''Loading OS module: %s'' [S c] s = Inr (s\<lparr>tty := t\<rparr>)"
  "\<exists>t. INFO ''kernel_init'' ''OS module loaded successfully (%s)'' [S c] s = Inr (s\<lparr>tty := t\<rparr>)"
  unfolding INFO_def by (rule message_accepts; simp add: cstr_def)+

lemma module_warnings:
  "\<exists>t. (if b then WARN ''kernel_init'' ''Multiple modules found, using the first module'' [] s else Inr s) = Inr (s\<lparr>tty := t\<rparr>)"
  "\<exists>t. WARN ''kernel_init'' ''No operating system module found'' [] s = Inr (s\<lparr>tty := t\<rparr>)"
proof -
  have "\<exists>t. Inr s = Inr (s\<lparr>tty := t\<rparr>)" by (rule exI [of _ "tty s"]) simp
  then show "\<exists>t. (if b then WARN ''kernel_init'' ''Multiple modules found, using the first module'' [] s else Inr s) = Inr (s\<lparr>tty := t\<rparr>)"
    using messages_print(2) [of "''Multiple modules found, using the first module''" "''kernel_init''" s] by (cases b) (auto simp: cstr_def)
  show "\<exists>t. WARN ''kernel_init'' ''No operating system module found'' [] s = Inr (s\<lparr>tty := t\<rparr>)"
    by (rule messages_print(2)) (simp add: cstr_def)
qed

text \<open>The module of the boot loader, unless it lies across the end of the kernel from below: without one only a
  warning is printed; one larger than the field behind the kernel stops the machine; otherwise exactly its bytes stand
  behind the kernel afterwards, the size is recorded and nothing else but the console changes. In particular the
  comparison of the two hashes never fails.\<close>

theorem load_module_loads:
  fixes s :: "'a kern_scheme" and lk fieldSize info
  defines "md \<equiv> boot_field (mem s) info ''mods_addr''"
  defines "start \<equiv> rd32 (mem s) (md + offset_of multiboot_mod_list ''mod_start'')"
  defines "sz \<equiv> sub32 (rd32 (mem s) (md + offset_of multiboot_mod_list ''mod_end'')) start"
  assumes "kernel_Limit lk \<le> start \<or> start + sz \<le> kernel_Limit lk"
  shows "if boot_field (mem s) info ''mods_count'' = 0 then \<exists>t. load_module lk info fieldSize s = Inr (s\<lparr>tty := t, kernel_OSModuleSize := 0\<rparr>)
    else if sub32 fieldSize (kernel_PhysicalSize s) < sz then load_module lk info fieldSize s = Inl (Panic ''Operating system module too large'')
    else \<exists>t. load_module lk info fieldSize s = Inr (s\<lparr>tty := t, kernel_OSModuleSize := sz,
           mem := mwrite (mem s) (kernel_Limit lk) (mread (mem s) start sz)\<rparr>)"
proof -
  let ?n = "boot_field (mem s) info ''mods_count''"
  let ?s1 = "s\<lparr>kernel_OSModuleSize := 0\<rparr>"
  obtain t1 where t1: "(if ?n > 1 then WARN ''kernel_init'' ''Multiple modules found, using the first module'' [] ?s1 else Inr ?s1) = Inr (?s1\<lparr>tty := t1\<rparr>)"
    using module_warnings(1) by blast
  let ?s3 = "?s1\<lparr>tty := t1, kernel_OSModuleSize := sz\<rparr>"
  let ?c = "rd32 (mem s) (md + offset_of multiboot_mod_list ''cmdline'')"
  obtain t2 where t2: "INFO ''kernel_init'' ''Loading OS module: %s'' [S (str_at (mem s) ?c (2 ^ 32 - ?c))] ?s3 = Inr (?s3\<lparr>tty := t2\<rparr>)"
    using module_messages(1) by blast
  have copy: "ncopy (mem s) (kernel_Limit lk) start sz = mwrite (mem s) (kernel_Limit lk) (mread (mem s) start sz)"
    by (rule ncopy_eq) (rule assms(4))
  let ?s5 = "?s3\<lparr>tty := t2, mem := mwrite (mem s) (kernel_Limit lk) (mread (mem s) start sz)\<rparr>"
  have same: "mread (mwrite (mem s) (kernel_Limit lk) (mread (mem s) start sz)) (kernel_Limit lk) sz = mread (mem s) start sz"
    by (intro nth_equalityI) (simp_all add: mwrite_def)
  obtain u where u: "unit_str sz = Inr u" using unit_str_total by blast
  obtain t3 where t3: "INFO ''kernel_init'' ''OS module loaded successfully (%s)'' [S u] ?s5 = Inr (?s5\<lparr>tty := t3\<rparr>)"
    using module_messages(2) by blast
  consider "?n = 0" | "?n > 0" "sub32 fieldSize (kernel_PhysicalSize s) < sz" | "?n > 0" "\<not> sub32 fieldSize (kernel_PhysicalSize s) < sz" by blast
  then show ?thesis
  proof cases
    case 1
    obtain t where "WARN ''kernel_init'' ''No operating system module found'' [] ?s1 = Inr (?s1\<lparr>tty := t\<rparr>)" using module_warnings(2) by blast
    with 1 have "load_module lk info fieldSize s = Inr (s\<lparr>tty := t, kernel_OSModuleSize := 0\<rparr>)" by (simp add: load_module_def)
    with 1 show ?thesis by auto
  next
    case 2
    have "load_module lk info fieldSize s = Inl (Panic ''Operating system module too large'')"
      using 2 t1 by (simp add: load_module_def Let_def md_def [symmetric] start_def [symmetric] sz_def [symmetric])
    with 2 show ?thesis by simp
  next
    case 3
    have "load_module lk info fieldSize s = Inr (?s5\<lparr>tty := t3\<rparr>)"
      using 3 t1 t2 t3 u copy same
      by (simp add: load_module_def Let_def md_def [symmetric] start_def [symmetric] sz_def [symmetric])
    moreover have "?s5\<lparr>tty := t3\<rparr> = s\<lparr>tty := t3, kernel_OSModuleSize := sz, mem := mwrite (mem s) (kernel_Limit lk) (mread (mem s) start sz)\<rparr>" by simp
    ultimately have e: "load_module lk info fieldSize s = Inr (s\<lparr>tty := t3, kernel_OSModuleSize := sz,
        mem := mwrite (mem s) (kernel_Limit lk) (mread (mem s) start sz)\<rparr>)" by (simp only:)
    from 3 have "?n \<noteq> 0" by simp
    with 3 show ?thesis by (simp only: if_False) (rule exI [of _ t3], rule e)
  qed
qed

text \<open>The entries of the memory map, and the one that is chosen: the last available one at the kernel's base.\<close>

definition map_entry :: "addr \<Rightarrow> nat \<Rightarrow> addr" where
  "map_entry a i = wrap32 (a + i * size_of multiboot_mmap_entry)"

definition kernel_region :: "mem \<Rightarrow> addr \<Rightarrow> addr \<Rightarrow> bool" where
  "kernel_region m base e \<longleftrightarrow> rd32 m (e + offset_of multiboot_mmap_entry ''type'') = MULTIBOOT_MEMORY_AVAILABLE \<and>
     rd64 m (e + offset_of multiboot_mmap_entry ''addr'') = base"

lemma field_loop_last:
  assumes "a < 4294967296"
  shows "field_loop m base a k f = (case filter (kernel_region m base) (map (map_entry a) [0..<k]) of
     [] \<Rightarrow> f | e # es \<Rightarrow> rd64 m (last (e # es) + offset_of multiboot_mmap_entry ''len'') mod 2 ^ 32)"
  using assms
proof (induction k arbitrary: a f)
  case (Suc k)
  let ?a = "wrap32 (a + size_of multiboot_mmap_entry)"
  have l: "map (map_entry a) [0..<Suc k] = a # map (map_entry ?a) [0..<k]"
  proof -
    have "map_entry a (Suc i) = map_entry ?a i" for i
      by (simp add: map_entry_def wrap32_def mod_add_left_eq add.assoc)
    moreover have "[0..<Suc k] = 0 # map Suc [0..<k]" by (simp add: map_Suc_upt upt_conv_Cons)
    ultimately show ?thesis using Suc.prems by (simp add: map_entry_def)
  qed
  have "?a < 4294967296" by (rule wrap32_less)
  from Suc.IH [OF this] show ?case unfolding l by (auto simp: kernel_region_def split: list.splits)
qed simp

text \<open>The memory field is the length, modulo \<open>2 ^ 32\<close>, of the last entry of the boot loader's memory map that is
  available and starts at the kernel, and 0 when there is none, after which \<open>kernel_init\<close> stops the machine.\<close>

theorem find_field_last:
  "find_field lk info m =
     (case filter (kernel_region m (kernel_Base lk)) (map (map_entry (boot_field m info ''mmap_addr'')) [0..<(boot_field m info ''mmap_length'' + 23) div 24]) of
        [] \<Rightarrow> 0
      | e # es \<Rightarrow> rd64 m (last (e # es) + offset_of multiboot_mmap_entry ''len'') mod 2 ^ 32)"
proof -
  have "size_of multiboot_mmap_entry = 24" by (simp add: size_of_def multiboot_mmap_entry_def packed_def align_up_def)
  then show ?thesis unfolding find_field_def Let_def by (subst field_loop_last) (simp_all add: boot_field_def rd32_less add.commute)
qed


section \<open>The device files\<close>

text \<open>The root directory has the first slot.\<close>

definition root_first :: "'a fs_scheme \<Rightarrow> bool" where
  "root_first s \<longleftrightarrow> in_use s 0 \<and> name (ent_at s 0) = [slash]"

lemma root_first_grow:
  fixes s s' :: "'a fs_scheme"
  assumes "root_first s" "fs_inv s'" "free_slot s = Some i" "fs_EntryV s' = (fs_EntryV s)(i := p)" "p \<noteq> 0"
    "\<forall>q. q \<noteq> p \<longrightarrow> name (fs_ent s' q) = name (fs_ent s q)"
  shows "root_first s'"
proof -
  have i: "i < FS_MAX_ENTCOUNT" "fs_EntryV s i = 0" using assms(3) by (simp_all add: free_slot_def scan_Some_iff)
  then have "i \<noteq> 0" using assms(1) by (cases "i = 0") (auto simp: root_first_def in_use_def)
  moreover from this have u: "in_use s' 0" "in_use s' i" using assms(1,4,5) i(1) by (auto simp: root_first_def in_use_def)
  ultimately have "fs_EntryV s' 0 \<noteq> fs_EntryV s' i" using assms(2) unfolding fs_inv_def by metis
  then show ?thesis using u(1) assms(1,4,6) \<open>i \<noteq> 0\<close> by (simp add: root_first_def ent_at_def)
qed

text \<open>With blocks and slots left, a directory and a file are granted.\<close>

lemma createDir_room:
  assumes inv: "fs_inv s" and path: "is_cstr path" and ok: "create_refusal s path = FS_STS_SUCCESS"
    and r: "room s k" "k + 1 \<le> memory_BlockC s" and slot: "free_slot s = Some i"
  obtains s' p e where "fs_createDir path s = Inr (FS_STS_SUCCESS, s')" "fs_inv s'"
    "fs_view s' = (fs_view s)(path \<mapsto> (e, []))" "etype e = FS_TYPE_DIR" "name e = path"
    "room s' (k + 1)" "fs_EntryV s' = (fs_EntryV s)(i := p)" "p \<noteq> 0" "mem s' = mem s"
    "memory_Space s' = memory_Space s" "memory_BlockC s' = memory_BlockC s" "root_first s \<Longrightarrow> root_first s'"
proof -
  have nb: "nblocks 4096 = 1" by (simp add: nblocks_def)
  have b: "k + nblocks 4096 \<le> memory_BlockC s" using r(2) by (simp add: nb)
  obtain p V where m: "malloc 4096 s = Inr (p, s\<lparr>memory_BlockV := V\<rparr>)" "0 < p" "room (s\<lparr>memory_BlockV := V\<rparr>) (k + 1)"
    by (rule malloc_room [OF r(1) _ b, unfolded nb]) auto
  have "fits s MEMORY_BLKSIZE" using r(2) by (simp add: fits_def)
  from createDir_view [OF inv path this] obtain st s' where c: "fs_createDir path s = Inr (st, s')" "fs_inv s'"
    "if st = FS_STS_SUCCESS then
       create_refusal s path = FS_STS_SUCCESS \<and>
       (\<exists>e. fs_view s' = (fs_view s)(path \<mapsto> (e, [])) \<and> etype e = FS_TYPE_DIR \<and> name e = path \<and> perm e = 0x1FF)
     else (if create_refusal s path = FS_STS_SUCCESS then st = FS_STS_OUTOFMEMORY else st = create_refusal s path) \<and> s' = s"
    by blast
  have "st \<noteq> FS_STS_OUTOFMEMORY"
  proof
    assume "st = FS_STS_OUTOFMEMORY"
    with c(1) slot m(1,2) show False by (auto simp: fs_createDir_def bindR_eq_Inr split: if_splits option.splits)
  qed
  then have st: "st = FS_STS_SUCCESS" using c(3) ok by (auto split: if_splits)
  have f: "memory_BlockV s' = V \<and> fs_EntryV s' = (fs_EntryV s)(i := p) \<and> mem s' = mem s \<and> memory_Space s' = memory_Space s \<and>
      memory_Limit s' = memory_Limit s \<and> memory_BlockC s' = memory_BlockC s \<and> memory_InitLock s' = memory_InitLock s \<and>
      (\<forall>q. q \<noteq> p \<longrightarrow> name (fs_ent s' q) = name (fs_ent s q))"
    using c(1) slot m(1,2) unfolding st
    by (auto simp: fs_createDir_def bindR_eq_Inr checkR_eq_Inr ent_defs split: if_splits option.splits)
  then have "room s' (k + 1)" by (intro room_cong [OF m(3)]) simp_all
  moreover have "root_first s' " if "root_first s" using root_first_grow [OF that c(2) slot] f m(2) by blast
  ultimately show thesis using that [OF _ c(2)] c(1,3) f m(2) unfolding st by auto
qed

lemma writeFile_room:
  assumes inv: "fs_inv s" and path: "is_cstr path" "length path < FS_MAX_PATHLEN" and ok: "write_refusal s path = FS_STS_SUCCESS"
    and fresh: "fs_view s path = None" and buf: "0 < buf" "buf + sz \<le> memory_Space s"
    and r: "room s k" "k + nblocks (4096 + sz) \<le> memory_BlockC s" and slot: "free_slot s = Some i"
  obtains s' p e where "fs_writeFile path sz buf s = Inr (FS_STS_SUCCESS, s')" "fs_inv s'"
    "fs_view s' = (fs_view s)(path \<mapsto> (e, mread (mem s) buf sz))" "fsize e = sz" "etype e = FS_TYPE_FILE" "name e = path"
    "ftype e = FS_TYPE_FILE" "room s' (k + nblocks (4096 + sz))" "fs_EntryV s' = (fs_EntryV s)(i := p)" "p \<noteq> 0"
    "\<forall>a < memory_Space s. mem s' a = mem s a"
    "memory_Space s' = memory_Space s" "memory_BlockC s' = memory_BlockC s" "root_first s \<Longrightarrow> root_first s'"
proof -
  obtain p V where m: "malloc (4096 + sz) s = Inr (p, s\<lparr>memory_BlockV := V\<rparr>)" "memory_Space s \<le> p" "0 < p" "p + (4096 + sz) \<le> memory_Limit s"
    "room (s\<lparr>memory_BlockV := V\<rparr>) (k + nblocks (4096 + sz))"
    by (rule malloc_room [OF r(1) _ r(2)]) (simp, blast)
  have "nblocks (4096 + sz) * MEMORY_BLKSIZE \<le> memory_BlockC s * MEMORY_BLKSIZE" using r(2) by (intro mult_le_mono1) simp
  then have fit: "fits s (MEMORY_BLKSIZE + sz)" using nblocks_ge [of "4096 + sz"] by (simp add: fits_def)
  have w: "wrap32 (4096 + sz) = 4096 + sz" by (rule room_no_wrap [OF fs_invD(1) [OF inv] fit])
  have "buf_ok s buf sz" using buf by (simp add: buf_ok_def)
  from writeFile_view [OF inv path fit this] obtain st s' where c: "fs_writeFile path sz buf s = Inr (st, s')" "fs_inv s'"
    "if st = FS_STS_SUCCESS then
       write_refusal s path = FS_STS_SUCCESS \<and>
       (\<exists>e. fs_view s' = (fs_view s)(path \<mapsto> (e, held e (mread (mem s) buf sz))) \<and>
         fsize e = sz \<and> etype e = FS_TYPE_FILE \<and> name e = path \<and>
         ftype e = (case fs_view s path of None \<Rightarrow> FS_TYPE_FILE | Some (old, _) \<Rightarrow> ftype old) \<and>
         perm e = (case fs_view s path of None \<Rightarrow> 0x1FF | Some (old, _) \<Rightarrow> perm old))
     else (if write_refusal s path = FS_STS_SUCCESS then st = FS_STS_OUTOFMEMORY else st = write_refusal s path) \<and> s' = s"
    by blast
  have none: "find_entry s path = None" using find_entry_view [OF inv path(1)] fresh by simp
  have "st \<noteq> FS_STS_OUTOFMEMORY"
  proof
    assume "st = FS_STS_OUTOFMEMORY"
    with c(1) slot m(1,3) w none show False
      by (auto simp: fs_writeFile_def create_file_def bindR_eq_Inr split: if_splits option.splits)
  qed
  then have st: "st = FS_STS_SUCCESS" using c(3) ok by (auto split: if_splits)
  have "p + 4096 < 4294967296" using m(4) fs_invD(1) [OF inv] unfolding mm_inv_def by linarith
  then have dp: "data_of p = p + 4096" by (simp add: data_of_def)
  have f: "memory_BlockV s' = V \<and> fs_EntryV s' = (fs_EntryV s)(i := p) \<and> mem s' = ncopy (mem s) (p + 4096) buf sz \<and>
      memory_Space s' = memory_Space s \<and> memory_Limit s' = memory_Limit s \<and> memory_BlockC s' = memory_BlockC s \<and>
      memory_InitLock s' = memory_InitLock s \<and> (\<forall>q. q \<noteq> p \<longrightarrow> name (fs_ent s' q) = name (fs_ent s q))"
    using c(1) slot m(1,3) w none dp unfolding st
    by (auto simp: fs_writeFile_def create_file_def bindR_eq_Inr checkR_eq_Inr ent_defs split: if_splits option.splits)
  then have "room s' (k + nblocks (4096 + sz))" by (intro room_cong [OF m(5)]) simp_all
  moreover have "\<forall>a < memory_Space s. mem s' a = mem s a" using f m(2) by (simp add: ncopy_outside)
  moreover obtain e where "fs_view s' = (fs_view s)(path \<mapsto> (e, held e (mread (mem s) buf sz)))"
    "fsize e = sz" "etype e = FS_TYPE_FILE" "name e = path" "ftype e = FS_TYPE_FILE"
    using c(3) unfolding st fresh by auto
  moreover have "root_first s'" if "root_first s" using root_first_grow [OF that c(2) slot] f m(3) by blast
  ultimately show thesis using that [of s' e p] c(1,2) f m(3) unfolding st by (simp add: held_def)
qed

definition slots_free :: "'a fs_scheme \<Rightarrow> nat \<Rightarrow> bool" where
  "slots_free s n \<longleftrightarrow> n \<le> card {i. i < FS_MAX_ENTCOUNT \<and> fs_EntryV s i = 0}"

lemma slots_freeE:
  fixes s :: "'a fs_scheme"
  assumes "slots_free s (Suc n)"
  obtains i where "free_slot s = Some i" "\<And>(t :: 'a fs_scheme) p. fs_EntryV t = (fs_EntryV s)(i := p) \<Longrightarrow> slots_free t n"
proof -
  let ?A = "\<lambda>v. {i. i < FS_MAX_ENTCOUNT \<and> v i = (0 :: nat)}"
  have fin: "finite (?A v)" for v by simp
  have "?A (fs_EntryV s) \<noteq> {}"
  proof
    assume "?A (fs_EntryV s) = {}"
    with assms show False unfolding slots_free_def by (simp only: card.empty)
  qed
  then have "free_slot s \<noteq> None" unfolding free_slot_def scan_None_iff by blast
  then obtain i where i: "free_slot s = Some i" by blast
  have "slots_free t n" if t: "fs_EntryV t = (fs_EntryV s)(i := p)" for t :: "'a fs_scheme" and p
  proof -
    have "?A (fs_EntryV s) - {i} \<subseteq> ?A (fs_EntryV t)" by (auto simp: t)
    then have "card (?A (fs_EntryV s) - {i}) \<le> card (?A (fs_EntryV t))" by (rule card_mono [OF fin])
    moreover have "card (?A (fs_EntryV s)) \<le> Suc (card (?A (fs_EntryV s) - {i}))" by (simp add: card_Diff_singleton_if, arith)
    ultimately show ?thesis using assms by (simp add: slots_free_def)
  qed
  with i show thesis by (rule that)
qed

text \<open>A character device, readable through \<open>open\<close>.\<close>

definition device_file :: "cstring \<Rightarrow> fs_Entry \<Rightarrow> bool" where
  "device_file path e \<longleftrightarrow> name e = path \<and> etype e = FS_TYPE_FILE \<and> ftype e = FS_TYPE_CHARDEV \<and> devperm e = 1 \<and> fsize e = MEMORY_BLKSIZE"

lemma make_device_room:
  fixes s :: "'a fs_scheme"
  assumes inv: "fs_inv s" and path: "is_cstr (cstr path)" "length (cstr path) < FS_MAX_PATHLEN"
    and ok: "write_refusal s (cstr path) = FS_STS_SUCCESS" and fresh: "fs_view s (cstr path) = None"
    and buf: "0 < zero_at lk" "zero_at lk + 4096 \<le> memory_Space s"
    and r: "room s k" "k + 2 \<le> memory_BlockC s" and slot: "slots_free s (Suc n)"
  obtains s' e where "make_device lk path s = Inr s'" "fs_inv s'"
    "fs_view s' = (fs_view s)(cstr path \<mapsto> (e, mread (mem s) (zero_at lk) 4096))" "device_file (cstr path) e"
    "room s' (k + 2)" "slots_free s' n" "\<forall>a < memory_Space s. mem s' a = mem s a"
    "memory_Space s' = memory_Space s" "memory_BlockC s' = memory_BlockC s" "root_first s \<Longrightarrow> root_first s'"
proof -
  have nb: "nblocks (4096 + 4096) = 2" by (simp add: nblocks_def)
  obtain i where i: "free_slot s = Some i" "\<And>(t :: 'a fs_scheme) p. fs_EntryV t = (fs_EntryV s)(i := p) \<Longrightarrow> slots_free t n" by (rule slots_freeE [OF slot]) blast
  have b: "k + nblocks (4096 + 4096) \<le> memory_BlockC s" using r(2) by (simp only: nb)
  obtain s1 p e where w: "fs_writeFile (cstr path) 4096 (zero_at lk) s = Inr (FS_STS_SUCCESS, s1)" "fs_inv s1"
    "fs_view s1 = (fs_view s)(cstr path \<mapsto> (e, mread (mem s) (zero_at lk) 4096))" "fsize e = 4096" "etype e = FS_TYPE_FILE" "name e = cstr path"
    "ftype e = FS_TYPE_FILE" "room s1 (k + nblocks (4096 + 4096))" "fs_EntryV s1 = (fs_EntryV s)(i := p)" "p \<noteq> 0"
    "\<forall>a < memory_Space s. mem s1 a = mem s a"
    "memory_Space s1 = memory_Space s" "memory_BlockC s1 = memory_BlockC s" "root_first s \<Longrightarrow> root_first s1"
    by (rule writeFile_room [OF inv path ok fresh buf r(1) b i(1)]) blast
  have "fs_view s1 (cstr path) = Some (e, mread (mem s) (zero_at lk) 4096)" by (simp add: w(3))
  then obtain j where j: "in_use s1 j" "name (ent_at s1 j) = cstr path" "e = ent_at s1 j" "mread (mem s) (zero_at lk) 4096 = bytes_at s1 j"
    using fs_view_Some [OF w(2)] by blast
  have st: "fs_stat (cstr path) s1 = fs_EntryV s1 j" "fs_EntryV s1 j \<noteq> 0"
    using fs_stat_in_use [OF w(2) j(1)] j(1,2) by (simp_all add: in_use_def)
  let ?f = "\<lambda>e. e\<lparr>ftype := FS_TYPE_CHARDEV, devperm := 1\<rparr>"
  define s' where "s' = set_ent (fs_EntryV s1 j) ?f s1"
  have own: "own_bytes e" "own_bytes (?f e)" using w(5,7) by (simp_all add: own_bytes_def)
  have h: "fs_inv s' \<and> fs_view s' = (fs_view s1)(name (ent_at s1 j) \<mapsto> (?f (ent_at s1 j), if own_bytes (?f (ent_at s1 j)) then bytes_at s1 j else []))"
    unfolding s'_def by (rule header_view [OF w(2) j(1)]) (use own j(3) in simp_all)
  then have v: "fs_view s' = (fs_view s)(cstr path \<mapsto> (?f e, mread (mem s) (zero_at lk) 4096))"
    using own(2) j by (simp add: w(3))
  have "make_device lk path s = Inr s'" using w(1) st by (simp add: make_device_def s'_def)
  moreover have "room s' (k + 2)" by (rule room_cong [OF w(8) [unfolded nb]]) (simp_all add: s'_def set_ent_def)
  moreover have "slots_free s' n" by (rule i(2)) (simp add: s'_def set_ent_def w(9))
  moreover have "device_file (cstr path) (?f e)" using w(4-6) by (simp add: device_file_def)
  moreover have "root_first s'" if "root_first s"
    using w(14) [OF that] by (auto simp: s'_def set_ent_def root_first_def in_use_def ent_at_def)
  ultimately show thesis using that [of s' "?f e"] h v w(11-13) by (simp add: s'_def set_ent_def)
qed

text \<open>Nothing is called \<open>/dev...\<close>.\<close>

definition no_dev :: "'a fs_scheme \<Rightarrow> bool" where
  "no_dev s \<longleftrightarrow> (\<forall>q. fs_view s q \<noteq> None \<longrightarrow> take 4 q \<noteq> cstr ''/dev'')"

lemma dev_names:
  defines "d \<equiv> cstr ''/dev/''" and "k \<equiv> cstr ''/dev/keyboard''" and "m \<equiv> cstr ''/dev/mouse''"
  shows "is_cstr d" "is_cstr k" "is_cstr m" "length k < FS_MAX_PATHLEN" "length m < FS_MAX_PATHLEN"
    "ancestors d = []" "ancestors k = [d]" "ancestors m = [d]"
    "d \<noteq> k" "d \<noteq> m" "k \<noteq> m" "k @ [slash] \<noteq> d" "m @ [slash] \<noteq> d" "m @ [slash] \<noteq> k"
    "\<not> ends_slash k" "\<not> ends_slash m" "k \<noteq> []" "m \<noteq> []"
  by (simp_all add: assms cstr_def ancestors_def pieces_def ends_slash_def)

lemma make_devices_files:
  fixes s :: "'a fs_scheme"
  assumes "fs_inv s" "no_dev s" "0 < zero_at lk" "zero_at lk + 4096 \<le> memory_Space s"
    "room s k" "k + 5 \<le> memory_BlockC s" "slots_free s 3"
  shows "\<exists>s' d e1 e2. make_devices lk s = Inr s' \<and> fs_inv s' \<and> etype d = FS_TYPE_DIR \<and>
    device_file (cstr ''/dev/keyboard'') e1 \<and> device_file (cstr ''/dev/mouse'') e2 \<and>
    fs_view s' = (fs_view s)(cstr ''/dev/'' \<mapsto> (d, []), cstr ''/dev/keyboard'' \<mapsto> (e1, mread (mem s) (zero_at lk) 4096),
      cstr ''/dev/mouse'' \<mapsto> (e2, mread (mem s) (zero_at lk) 4096)) \<and>
    room s' (k + 5) \<and> memory_BlockC s' = memory_BlockC s \<and> (root_first s \<longrightarrow> root_first s')"
proof -
  let ?d = "cstr ''/dev/''" and ?k = "cstr ''/dev/keyboard''" and ?m = "cstr ''/dev/mouse''"
  let ?z = "mread (mem s) (zero_at lk) 4096"
  note paths = dev_names(1-5) and anc = dev_names(6-8) and ne = dev_names(9-14) and sl = dev_names(15-18)
  have none: "fs_view s q = None" if "take 4 q = cstr ''/dev''" for q using assms(2) that unfolding no_dev_def by blast
  have n1: "fs_view s ?d = None" "fs_view s ?k = None" "fs_view s ?m = None" "fs_view s (?k @ [slash]) = None" "fs_view s (?m @ [slash]) = None"
    by (rule none, simp add: cstr_def)+
  have "create_refusal s ?d = FS_STS_SUCCESS"
  proof -
    have l: "length ?d - 1 = 4" "take 4 ?d = cstr ''/dev''" "?d \<noteq> []" "ends_slash ?d" "\<not> FS_MAX_PATHLEN \<le> length ?d"
      by (simp_all add: cstr_def ends_slash_def)
    have "\<nexists>q e bs. fs_view s q = Some (e, bs) \<and> etype e = FS_TYPE_FILE \<and> take 4 q = cstr ''/dev''" using none by fastforce
    then show ?thesis using n1(1) l(3-5) unfolding create_refusal_def anc l(1,2) by simp
  qed
  moreover have b1: "k + 1 \<le> memory_BlockC s" using assms(6) by simp
  obtain i where i: "free_slot s = Some i" "\<And>(t :: 'a fs_scheme) p. fs_EntryV t = (fs_EntryV s)(i := p) \<Longrightarrow> slots_free t 2"
    by (rule slots_freeE [of s 2]) (use assms(7) in \<open>simp_all add: numeral_3_eq_3\<close>)
  ultimately obtain s1 p d where c: "fs_createDir ?d s = Inr (FS_STS_SUCCESS, s1)" "fs_inv s1"
    "fs_view s1 = (fs_view s)(?d \<mapsto> (d, []))" "etype d = FS_TYPE_DIR" "name d = ?d"
    "room s1 (k + 1)" "fs_EntryV s1 = (fs_EntryV s)(i := p)" "mem s1 = mem s"
    "memory_Space s1 = memory_Space s" "memory_BlockC s1 = memory_BlockC s" "root_first s \<longrightarrow> root_first s1"
    using createDir_room [OF assms(1) paths(1) _ assms(5) b1 i(1)] by metis
  have dir1: "is_dir s1 ?d" using c(3,4) by (auto simp: is_dir_def)
  have w1: "write_refusal s1 ?k = FS_STS_SUCCESS"
    using n1 dir1 ne sl unfolding write_refusal_def anc by (simp add: c(3))
  have f1: "fs_view s1 ?k = None" "zero_at lk + 4096 \<le> memory_Space s1" "k + 1 + 2 \<le> memory_BlockC s1" "slots_free s1 (Suc 1)"
    using n1 ne assms(4,6) c i(2) [OF c(7)] by (simp_all add: numeral_2_eq_2)
  obtain s2 e1 where k: "make_device lk ''/dev/keyboard'' s1 = Inr s2" "fs_inv s2"
    "fs_view s2 = (fs_view s1)(?k \<mapsto> (e1, mread (mem s1) (zero_at lk) 4096))" "device_file ?k e1"
    "room s2 (k + 1 + 2)" "slots_free s2 1" "\<forall>a < memory_Space s1. mem s2 a = mem s1 a"
    "memory_Space s2 = memory_Space s1" "memory_BlockC s2 = memory_BlockC s1" "root_first s1 \<Longrightarrow> root_first s2"
    by (rule make_device_room [OF c(2) paths(2,4) w1 f1(1) assms(3) f1(2) c(6) f1(3,4)]) blast
  have v2: "fs_view s2 = (fs_view s)(?d \<mapsto> (d, []), ?k \<mapsto> (e1, ?z))" using k(3) c(3,8) by simp
  have dir2: "is_dir s2 ?d" using dir1 ne unfolding is_dir_def k(3) by auto
  have w2: "write_refusal s2 ?m = FS_STS_SUCCESS"
    using n1 dir2 ne sl unfolding write_refusal_def anc by (simp add: v2)
  have f2: "fs_view s2 ?m = None" "zero_at lk + 4096 \<le> memory_Space s2" "k + 1 + 2 + 2 \<le> memory_BlockC s2" "slots_free s2 (Suc 0)"
    using n1 ne f1(2) assms(6) c(10) k(6,8,9) by (simp_all add: v2)
  obtain s3 e2 where m: "make_device lk ''/dev/mouse'' s2 = Inr s3" "fs_inv s3"
    "fs_view s3 = (fs_view s2)(?m \<mapsto> (e2, mread (mem s2) (zero_at lk) 4096))" "device_file ?m e2"
    "room s3 (k + 1 + 2 + 2)" "memory_BlockC s3 = memory_BlockC s2" "root_first s2 \<Longrightarrow> root_first s3"
    by (rule make_device_room [OF k(2) paths(3,5) w2 f2(1) assms(3) f2(2) k(5) f2(3,4)]) blast
  have "mread (mem s2) (zero_at lk) 4096 = ?z"
    using k(7) f1(2) c(8) by (intro nth_equalityI) simp_all
  then have "fs_view s3 = (fs_view s)(?d \<mapsto> (d, []), ?k \<mapsto> (e1, ?z), ?m \<mapsto> (e2, ?z))" by (simp add: m(3) v2)
  moreover have "make_devices lk s = Inr s3" using c(1) k(1) m(1) by (simp add: make_devices_def)
  moreover have "k + 1 + 2 + 2 = k + 5" by simp
  then have "room s3 (k + 5)" using m(5) by (simp only:)
  moreover have "memory_BlockC s3 = memory_BlockC s" "root_first s \<longrightarrow> root_first s3" using m(6,7) k(9,10) c(10,11) by simp_all
  ultimately show ?thesis using m(2,4) k(4) c(4) by blast
qed

text \<open>On a file system without names that start with \<open>/dev\<close>, with five blocks and three slots left, the start of
  \<open>kernel_main\<close> creates the directory and the two device files: the view afterwards is the old one with exactly these
  three names, and both files are readable character devices of one block that holds the bytes of the static buffer.\<close>

theorem make_devices_ready:
  fixes s :: "'a fs_scheme"
  assumes "fs_inv s" "no_dev s" "0 < zero_at lk" "zero_at lk + 4096 \<le> memory_Space s"
    "room s k" "k + 5 \<le> memory_BlockC s" "slots_free s 3"
  shows "\<exists>s' d e1 e2. make_devices lk s = Inr s' \<and> fs_inv s' \<and> etype d = FS_TYPE_DIR \<and>
    device_file (cstr ''/dev/keyboard'') e1 \<and> device_file (cstr ''/dev/mouse'') e2 \<and>
    fs_view s' = (fs_view s)(cstr ''/dev/'' \<mapsto> (d, []), cstr ''/dev/keyboard'' \<mapsto> (e1, mread (mem s) (zero_at lk) 4096),
      cstr ''/dev/mouse'' \<mapsto> (e2, mread (mem s) (zero_at lk) 4096))"
  using make_devices_files [OF assms] by blast

section \<open>A machine\<close>

definition lk_demo :: link_map where
  "lk_demo = \<lparr>kernel_Base = 0x100000, kernel_Limit = 0x200000, gdt_at = 0x8000, idt_at = 0x9000, default_stub = 0x1000,
     exception_stub = (\<lambda>i. 0x2000 + of_nat i), syscall_stub = 0x3000, yield_stub = 0x3100, idle_at = 0x4000, zero_at = 100,
     scan_at = 0x5000, data_at = 0x5001, data2_at = 0x5002, cr3_at_boot = 0, eflags_at_boot = 2\<rparr>"

text \<open>Cold, with a module of sixteen bytes at three megabytes.\<close>

definition kern_demo :: kern where
  "kern_demo = (xhci.extend usb_demo \<lparr>kernel_PhysicalSize = 0x100000, kernel_OSModuleSize = 16, kernel_MemorySize = 0\<rparr>)
     \<lparr>protect_InitLock := False, protect_GDTEntry := replicate 3 (gdt_entry 0 0 0 0), interrupts_InitLock := False,
      interrupts_IDTEntry := replicate 256 (idt_entry 0), memory_InitLock := False, fs_InitLock := False, multitask_InitLock := False,
      mountmgr_InitLock := False, syscall_Table := replicate 256 None,
      mem := mwrite (mwrite (\<lambda>_. 7) 0x1014 [1, 0, 0, 0, 0, 0x50, 0, 0]) 0x5000 [0, 0, 0x30, 0, 16, 0, 0x30, 0]\<rparr>"

theorem start_core_boots_witness:
  "cold kern_demo \<and> (\<exists>s'. start_core lk_demo 0x200000 kern_demo = Inr s' \<and> booted lk_demo s' \<and> 0x200010 \<le> memory_Space s')"
proof -
  have c: "cold kern_demo" by (simp add: cold_def kern_demo_def)
  moreover have "exception_stub lk_demo i \<noteq> 0" if "i < 32" for i
  proof -
    have "unat (0x2000 + of_nat i :: u32) = 0x2000 + i" using that by (simp add: unat_word_ariths unat_of_nat)
    then show ?thesis by (auto simp: lk_demo_def)
  qed
  ultimately show ?thesis using start_core_boots [OF c, of "0x200000" lk_demo] by (auto simp: kern_demo_def xhci.defs lk_demo_def)
qed

theorem make_devices_ready_witness:
  "\<exists>s' e. make_devices lk_demo fs_demo = Inr s' \<and> fs_inv s' \<and> fs_view s' (cstr ''/dev/mouse'') = Some (e, mread (mem fs_demo) 100 4096) \<and>
     ftype e = FS_TYPE_CHARDEV"
proof -
  have "no_dev fs_demo"
    by (auto simp: no_dev_def fs_view_Some [OF fs_demo_inv] fs_demo_use fs_demo_ent [simplified] sample_entry_def cstr_def)
  moreover have "room fs_demo 3" using fs_demo_mm by (simp add: room_def) (auto simp: fs_demo_def nth_place)
  moreover have "slots_free fs_demo 3"
  proof -
    have "card {2, 3, 4 :: nat} \<le> card {i. i < FS_MAX_ENTCOUNT \<and> fs_EntryV fs_demo i = 0}"
      by (rule card_mono) (auto simp: fs_demo_def)
    then show ?thesis by (simp add: slots_free_def)
  qed
  moreover have "zero_at lk_demo = 100" "memory_Space fs_demo = 8192" "memory_BlockC fs_demo = 16" by (simp_all add: lk_demo_def fs_demo_def)
  ultimately show ?thesis using make_devices_ready [OF fs_demo_inv, of lk_demo 3] by (auto simp: device_file_def)
qed

theorem load_module_loads_witness:
  "\<exists>t. load_module lk_demo 0x1000 0x200000 kern_demo =
     Inr (kern_demo\<lparr>tty := t, kernel_OSModuleSize := 16, mem := mwrite (mem kern_demo) 0x200000 (replicate 16 7)\<rparr>)"
proof -
  have o: "offset_of multiboot_info ''mods_count'' = 20" "offset_of multiboot_info ''mods_addr'' = 24"
    "offset_of multiboot_mod_list ''mod_start'' = 0" "offset_of multiboot_mod_list ''mod_end'' = 4"
    by (simp_all add: offset_of_def multiboot_info_def multiboot_mod_list_def align_up_def size_of_def
      multiboot_aout_symbol_table_def multiboot_elf_section_header_table_def)
  let ?m = "mem kern_demo"
  have me: "?m = mwrite (mwrite (\<lambda>_. 7) 0x1014 [1, 0, 0, 0, 0, 0x50, 0, 0]) 0x5000 [0, 0, 0x30, 0, 16, 0, 0x30, 0]"
    by (simp add: kern_demo_def)
  have m: "boot_field ?m 0x1000 ''mods_count'' = 1" "boot_field ?m 0x1000 ''mods_addr'' = 0x5000"
    "rd32 ?m 0x5000 = 0x300000" "rd32 ?m (0x5000 + 4) = 0x300010"
    by (simp_all add: boot_field_def o me rd32_def mwrite_def)
  have r: "mread ?m 0x300000 16 = replicate 16 7"
    by (rule nth_equalityI) (simp_all only: me mread_def mwrite_def length_map length_upt length_replicate nth_map nth_upt nth_replicate, simp_all)
  have f: "kernel_Limit lk_demo = 0x200000" "kernel_PhysicalSize kern_demo = 0x100000" by (simp_all add: lk_demo_def kern_demo_def xhci.defs)
  have z: "sub32 0x300010 0x300000 = 16" "sub32 0x200000 0x100000 = 0x100000" by (simp_all add: sub32_def)
  show ?thesis
    using load_module_loads [where s = kern_demo and info = "0x1000" and lk = lk_demo and fieldSize = "0x200000",
        unfolded o f m(1,2) add_0_right m(3,4) z r]
    by simp
qed

end
