(* ===== verification/Input.thy ===== *)
theory Input
  imports Kernel
begin

text \<open>
  The way of an input event through the kernel: the drivers (\<open>key_send\<close>, \<open>mouse_send\<close>) append it to a device
  file, the main loop of \<open>kernel_main\<close> opens the file anew in every turn and takes it out. The device files are
  described by \<open>device_holds\<close>, over the path map of the file system; they are shown to be an instance of the
  contract \<open>bounded_queue\<close>, and the chain from the scan codes at the data port to the line on the console is
  put together at the end.
\<close>

unbundle bit_operations_syntax

section \<open>Device files\<close>

text \<open>The bytes that wait in a device file: its first word counts them.\<close>


definition waiting :: "u8 list \<Rightarrow> u8 list" where
  "waiting bs = take (rd32 (char_at bs) 0) (drop 4 bs)"

text \<open>The file of a device, outside the first slot (whose number \<open>open\<close> refuses), with the bytes \<open>q\<close> waiting.\<close>

definition device_holds :: "'a fs_scheme \<Rightarrow> cstring \<Rightarrow> u8 list \<Rightarrow> bool" where
  "device_holds s path q \<longleftrightarrow> 0 < fs_index path s \<and>
     (case fs_view s path of None \<Rightarrow> False
      | Some (e, bs) \<Rightarrow> device_file path e \<and> rd32 (char_at bs) 0 \<le> 4092 \<and> waiting bs = q)"

text \<open>The same in terms of the slot and the memory behind it.\<close>

abbreviation dev_mem :: "'a fs_scheme \<Rightarrow> nat \<Rightarrow> addr" where
  "dev_mem s i \<equiv> fs_EntryV s i + MEMORY_BLKSIZE"

definition device_slot :: "'a fs_scheme \<Rightarrow> cstring \<Rightarrow> nat \<Rightarrow> u8 list \<Rightarrow> bool" where
  "device_slot s path i q \<longleftrightarrow> 0 < i \<and> in_use s i \<and> device_file path (ent_at s i) \<and>
     chardev_ok (mem s) (dev_mem s i) MEMORY_BLKSIZE \<and> queue (mem s) (dev_mem s i) = q"

lemma rd32_list: "4 \<le> n \<Longrightarrow> rd32 (char_at (mread m a n)) 0 = rd32 m a"
  by (simp add: rd32_def char_at_def)

lemma waiting_mread:
  assumes "4 \<le> n" "rd32 m a \<le> n - 4"
  shows "waiting (mread m a n) = queue m a"
proof -
  have "drop 4 (mread m a n) = mread m (a + 4) (n - 4)" by (rule mread_drop [OF assms(1)])
  then show ?thesis using assms by (simp add: waiting_def rd32_list queue_def mread_take)
qed

lemma index_of_slot:
  assumes "fs_inv s" "in_use s i" "name (ent_at s i) = path"
  shows "is_cstr path" "find_entry s path = Some i" "fs_index path s = int i" "fs_stat path s = fs_EntryV s i"
proof -
  show path: "is_cstr path" using entry_okD(1) [OF fs_invD(3) [OF assms(1,2)]] assms(3) by simp
  show find: "find_entry s path = Some i" using assms(2,3) by (simp add: find_entry_Some [OF assms(1) path])
  show "fs_index path s = int i" "fs_stat path s = fs_EntryV s i"
    using find fs_invD(2) [OF assms(1)] by (simp_all add: fs_index_def fs_stat_def)
qed

lemma device_holds_slot:
  assumes "fs_inv s"
  shows "device_holds s path q \<longleftrightarrow> (\<exists>i. device_slot s path i q)"
proof
  assume h: "device_holds s path q"
  then obtain e bs where v: "fs_view s path = Some (e, bs)" "device_file path e" "rd32 (char_at bs) 0 \<le> 4092" "waiting bs = q"
    "0 < fs_index path s" by (auto simp: device_holds_def split: option.splits)
  from v(1) obtain i where i: "in_use s i" "name (ent_at s i) = path" "e = ent_at s i" "bs = bytes_at s i"
    by (auto simp: fs_view_Some [OF assms])
  have "fs_index path s = int i" by (rule index_of_slot(3) [OF assms i(1,2)])
  moreover have "bs = mread (mem s) (dev_mem s i) MEMORY_BLKSIZE"
    using i v(2) data_of_in_use [OF assms i(1)] by (simp add: bytes_at_def own_bytes_def device_file_def)
  ultimately show "\<exists>i. device_slot s path i q"
    using v i by (intro exI [of _ i]) (auto simp: device_slot_def chardev_ok_def rd32_list waiting_mread)
next
  assume "\<exists>i. device_slot s path i q"
  then obtain i where i: "0 < i" "in_use s i" "device_file path (ent_at s i)" "rd32 (mem s) (dev_mem s i) \<le> 4092"
    "queue (mem s) (dev_mem s i) = q" by (auto simp: device_slot_def chardev_ok_def)
  have nm: "name (ent_at s i) = path" using i(3) by (simp add: device_file_def)
  have "fs_index path s = int i" by (rule index_of_slot(3) [OF assms i(2) nm])
  moreover have "bytes_at s i = mread (mem s) (dev_mem s i) MEMORY_BLKSIZE"
    using i data_of_in_use [OF assms i(2)] by (simp add: bytes_at_def own_bytes_def device_file_def)
  ultimately show "device_holds s path q"
    using fs_viewI [OF assms i(2) nm] i by (simp add: device_holds_def rd32_list waiting_mread)
qed

text \<open>Memory that changes only below the heap and inside one file.\<close>

lemma file_memory_view:
  assumes inv: "fs_inv s" and i: "in_use s i"
    and m: "\<And>a. memory_Space s \<le> a \<Longrightarrow> a < dev_mem s i \<or> dev_mem s i + fsize (ent_at s i) \<le> a \<Longrightarrow> m a = mem s a"
    and own: "own_bytes (ent_at s i)"
  shows "fs_inv (s\<lparr>mem := m\<rparr>) \<and> (\<forall>q. q \<noteq> name (ent_at s i) \<longrightarrow> fs_view (s\<lparr>mem := m\<rparr>) q = fs_view s q)"
proof -
  let ?s = "s\<lparr>mem := m\<rparr>"
  have same: "in_use ?s = in_use s" "ent_at ?s = ent_at s" by (simp_all add: in_use_def ent_at_def fun_eq_iff)
  have inv': "fs_inv ?s" using fs_inv_cong [of ?s s] inv by simp
  have by': "bytes_at ?s j = bytes_at s j" if j: "in_use s j" "j \<noteq> i" for j
  proof -
    obtain k where k: "live s (fs_EntryV s j) = Some k" "own_bytes (ent_at s j) \<longrightarrow> MEMORY_BLKSIZE + fsize (ent_at s j) \<le> k"
      using in_use_live [OF inv j(1)] by blast
    obtain l where l: "live s (fs_EntryV s i) = Some l" "MEMORY_BLKSIZE + fsize (ent_at s i) \<le> l"
      using in_use_live [OF inv i] own by blast
    have "fs_EntryV s j \<noteq> fs_EntryV s i" using fs_invD(4) [OF inv j(1) i] j(2) by blast
    then have d: "disj (fs_EntryV s j) k (fs_EntryV s i) l" by (rule live_disjoint [OF fs_invD(1) [OF inv] k(1) l(1)])
    have sp: "memory_Space s \<le> fs_EntryV s j" by (rule live_bounds(1) [OF fs_invD(1) [OF inv] k(1)])
    have "mread m (dev_mem s j) (fsize (ent_at s j)) = mread (mem s) (dev_mem s j) (fsize (ent_at s j))" if "own_bytes (ent_at s j)"
      using that k(2) l(2) d sp by (intro mread_cong m) (auto simp: disj_def)
    then show ?thesis using data_of_in_use [OF inv j(1)] by (simp add: bytes_at_def same)
  qed
  show ?thesis
  proof (intro conjI allI impI inv')
    fix q assume "q \<noteq> name (ent_at s i)"
    then have "in_use s j \<Longrightarrow> name (ent_at s j) = q \<Longrightarrow> bytes_at ?s j = bytes_at s j" for j using by' by blast
    then show "fs_view ?s q = fs_view s q" by (intro fs_view_eqI [OF inv inv']) (simp_all add: same)
  qed
qed

lemma chardev_get_outside:
  assumes "chardev_ok m dev sz" "disj buf cnt dev sz" "a < dev \<or> dev + sz \<le> a" "a < buf \<or> buf + cnt \<le> a"
  shows "snd (chardev_get m dev sz buf cnt) a = m a"
proof -
  define n where "n = min cnt (rd32 m dev)"
  have ok: "4 \<le> sz" "sz < 4294967296" "rd32 m dev \<le> sz - 4" using assms(1) by (simp_all add: chardev_ok_def)
  have s4: "sub32 sz 4 = sz - 4" using ok by (simp add: sub32_small)
  have r: "rd32 (ncopy m buf (dev + 4) n) dev = rd32 m dev"
    using assms(2) ok by (intro rd32_ncopy_disj) (auto simp: disj_def n_def)
  have n: "(if rd32 m dev \<ge> cnt then cnt else rd32 m dev) = n" by (simp add: n_def)
  have sub: "sub32 (sz - 4) (rd32 m dev - n) = sz - 4 - (rd32 m dev - n)" using ok by (intro sub32_small) auto
  have o1: "ncopy m buf (dev + 4) n a = m a" using assms(4) by (intro ncopy_outside) (auto simp: n_def)
  show ?thesis
    unfolding chardev_get_def Let_def s4 n r sub
    using assms(3) ok by (auto simp: o1 wr32_def mwrite_outside fill_outside ncopy_outside)
qed

section \<open>Opening, writing and reading a device\<close>

lemma device_slotD:
  assumes "device_slot s path i q"
  shows "0 < i" "in_use s i" "name (ent_at s i) = path" "etype (ent_at s i) = FS_TYPE_FILE" "ftype (ent_at s i) = FS_TYPE_CHARDEV"
    "devperm (ent_at s i) = 1" "fsize (ent_at s i) = MEMORY_BLKSIZE" "chardev_ok (mem s) (dev_mem s i) MEMORY_BLKSIZE"
    "queue (mem s) (dev_mem s i) = q" "own_bytes (ent_at s i)" "i < FS_MAX_ENTCOUNT" "fs_ent s (fs_EntryV s i) = ent_at s i"
    "fs_EntryV s i \<noteq> 0"
  using assms by (simp_all add: device_slot_def device_file_def own_bytes_def in_use_def ent_at_def)

lemma io_parts [simp]:
  fixes s :: "'a io_scheme"
  shows "fs_inv (s\<lparr>iocall_FileDesc := f\<rparr>) = fs_inv s" "fs_inv (s\<lparr>iocall_ForceAccess := b\<rparr>) = fs_inv s" "fs_inv (s\<lparr>tty := x\<rparr>) = fs_inv s"
    "fs_view (s\<lparr>iocall_FileDesc := f\<rparr>) = fs_view s" "fs_view (s\<lparr>iocall_ForceAccess := b\<rparr>) = fs_view s" "fs_view (s\<lparr>tty := x\<rparr>) = fs_view s"
proof -
  have l: "live (s\<lparr>iocall_FileDesc := f\<rparr>) = live s" "live (s\<lparr>iocall_ForceAccess := b\<rparr>) = live s" "live (s\<lparr>tty := x\<rparr>) = live s"
    by (rule live_cong; simp)+
  have m: "mm_inv (s\<lparr>iocall_FileDesc := f\<rparr>) = mm_inv s" "mm_inv (s\<lparr>iocall_ForceAccess := b\<rparr>) = mm_inv s" "mm_inv (s\<lparr>tty := x\<rparr>) = mm_inv s"
    by (rule mm_inv_cong; simp)+
  show "fs_inv (s\<lparr>iocall_FileDesc := f\<rparr>) = fs_inv s" "fs_inv (s\<lparr>iocall_ForceAccess := b\<rparr>) = fs_inv s" "fs_inv (s\<lparr>tty := x\<rparr>) = fs_inv s"
    by (rule fs_inv_cong; simp add: l m)+
  show "fs_view (s\<lparr>iocall_FileDesc := f\<rparr>) = fs_view s" "fs_view (s\<lparr>iocall_ForceAccess := b\<rparr>) = fs_view s" "fs_view (s\<lparr>tty := x\<rparr>) = fs_view s"
    by (rule fs_view_cong; simp)+
qed

lemma device_slot_parts [simp]:
  fixes s :: "'a io_scheme"
  shows "device_slot (s\<lparr>iocall_FileDesc := f\<rparr>) = device_slot s" "device_slot (s\<lparr>iocall_ForceAccess := b\<rparr>) = device_slot s"
    "device_slot (s\<lparr>tty := x\<rparr>) = device_slot s"
  by (simp_all add: device_slot_def in_use_def ent_at_def fun_eq_iff)

lemma open_device:
  assumes inv: "fs_inv s" and d: "device_slot s path i q" and fresh: "\<not> iocall_Initialized s"
    and fl: "fl = O_RDONLY \<or> fl = O_WRONLY \<and> iocall_ForceAccess s"
  shows "open_call path fl s =
    Inr (3, s\<lparr>iocall_FileDesc := (replicate IOCALL_MAXFD closed_desc)[0 := closed_desc\<lparr>entry := int i, flags := fl\<rparr>]\<rparr>)"
proof -
  let ?t = "s\<lparr>iocall_FileDesc := replicate IOCALL_MAXFD closed_desc\<rparr>"
  note d = device_slotD [OF d]
  have r: "reset_descs s = ?t" using fresh by (simp add: reset_descs_def)
  have inv': "fs_inv ?t" using inv by simp
  have u: "in_use ?t i" "name (ent_at ?t i) = path" "ent_at ?t i = ent_at s i" using d(2,3) by (simp_all add: in_use_def ent_at_def)
  note x = index_of_slot(3,4) [OF inv' u(1,2)]
  have e: "fs_ent s (fs_stat path ?t) = ent_at s i" unfolding x(2) by (simp add: ent_at_def)
  have "open_index path fl ?t = Inr (Some (int i, False), ?t)" using d(1,11) by (simp add: open_index_def x(1) Let_def)
  moreover have "\<not> (\<not> iocall_ForceAccess ?t \<and> dev_refuses (ent_at s i) fl)"
    "\<not> has_flag fl O_EXCL" "\<not> has_flag fl O_TRUNC" "\<not> has_flag fl O_APPEND"
    using fl d(6) by (auto simp: dev_refuses_def has_flag_def)
  ultimately show ?thesis
    using d(4) take_desc_first [of ?t "int i" fl] by (auto simp: open_call_def r e Let_def)
qed

lemma read_device_file:
  assumes inv: "fs_inv s" and d: "device_slot s path i q"
  shows "fs_readFile path s = Inr (dev_mem s i, stamp (fs_EntryV s i) atime_update s)"
  using readFile_eq [OF inv, of i] device_slotD [OF d] by simp

lemma stamp_mem [simp]: "mem (stamp p u s) = mem s" "live (stamp p u s) = live s" "fs_EntryV (stamp p u s) = fs_EntryV s"
  "memory_Space (stamp p u s) = memory_Space s"
  by (simp_all add: stamp_eq set_ent_def)

text \<open>After the access: the entry's time and the file's bytes have changed.\<close>

lemma device_touched:
  assumes inv: "fs_inv s" and d: "device_slot s path i q"
    and m: "\<And>a. memory_Space s \<le> a \<Longrightarrow> a < dev_mem s i \<or> dev_mem s i + MEMORY_BLKSIZE \<le> a \<Longrightarrow> m a = mem s a"
    and q': "chardev_ok m (dev_mem s i) MEMORY_BLKSIZE" "queue m (dev_mem s i) = q'"
  defines "t \<equiv> (stamp (fs_EntryV s i) atime_update s)\<lparr>mem := m\<rparr>"
  shows "fs_inv t" "device_slot t path i q'" "\<And>x. x \<noteq> path \<Longrightarrow> fs_view t x = fs_view s x"
proof -
  let ?u = "stamp (fs_EntryV s i) atime_update s"
  note h = device_slotD [OF d]
  note st = stamp_view [OF inv h(2)]
  have u: "in_use ?u i" "ent_at ?u i = (ent_at s i)\<lparr>atime := fst (date s)\<rparr>"
    using h(2) by (simp_all add: in_use_def ent_at_def stamp_eq set_ent_def)
  have own: "own_bytes (ent_at ?u i)" using h(10) by (simp add: u(2) own_bytes_def)
  have m': "m a = mem ?u a" if "memory_Space ?u \<le> a" "a < dev_mem ?u i \<or> dev_mem ?u i + fsize (ent_at ?u i) \<le> a" for a
    using m [of a] that by (simp add: u(2) h(7))
  note v = file_memory_view [OF conjunct1 [OF st] u(1) m' own]
  show "fs_inv t" using v by (simp add: t_def)
  show "fs_view t x = fs_view s x" if "x \<noteq> path" for x
    using v st that by (simp add: t_def u(2) h(3))
  have "in_use t i" "ent_at t i = ent_at ?u i" "dev_mem t i = dev_mem s i" using u(1) by (simp_all add: t_def in_use_def ent_at_def)
  then show "device_slot t path i q'"
    using h q' by (simp add: device_slot_def device_file_def u(2)) (simp add: t_def)
qed

definition reads_at :: "nat \<Rightarrow> u32 \<Rightarrow> 'a io_scheme \<Rightarrow> bool" where
  "reads_at i fl s \<longleftrightarrow> iocall_FileDesc s = (replicate IOCALL_MAXFD closed_desc)[0 := closed_desc\<lparr>entry := int i, flags := fl\<rparr>]"

lemma write_device:
  assumes inv: "fs_inv s" and d: "device_slot s path i q" and fd: "reads_at i O_WRONLY s"
    and force: "iocall_ForceAccess s" and st: "at + n \<le> memory_Space s"
  shows "\<exists>m. write_call 3 at n s = Inr (min n (4092 - length q), (stamp (fs_EntryV s i) atime_update s)\<lparr>mem := m\<rparr>) \<and>
    chardev_ok m (dev_mem s i) MEMORY_BLKSIZE \<and>
    queue m (dev_mem s i) = q @ take (4092 - length q) (mread (mem s) at n) \<and>
    (\<forall>a. a < dev_mem s i \<or> dev_mem s i + MEMORY_BLKSIZE \<le> a \<longrightarrow> m a = mem s a)"
proof -
  note h = device_slotD [OF d]
  have ok: "rd32 (mem s) (dev_mem s i) \<le> 4092" "length q = rd32 (mem s) (dev_mem s i)"
    using h(8,9) by (auto simp: chardev_ok_def queue_def)
  obtain k where k: "live s (fs_EntryV s i) = Some k" using in_use_live [OF inv h(2)] by blast
  have "memory_Space s \<le> fs_EntryV s i" by (rule live_bounds(1) [OF fs_invD(1) [OF inv] k])
  then have dj: "disj at (0 + n) (dev_mem s i) (4 + 4092)" using st by (simp add: disj_def)
  obtain m where m: "chardev_put (mem s) (dev_mem s i) 4092 at 0 n 0 = (0 + min n (4092 - length q), m)"
    "queue m (dev_mem s i) = q @ take (4092 - length q) (mread (mem s) at n)" "rd32 m (dev_mem s i) \<le> 4092"
    "\<forall>a. a < dev_mem s i \<or> dev_mem s i + 4 + 4092 \<le> a \<longrightarrow> m a = mem s a"
    using chardev_put_eq [OF dj ok(1), of 0] h(9) ok(2) by auto
  have z: "sub32 4096 4 = 4092" by (simp add: sub32_def)
  have "write_chardev (ent_at s i) at n s = Inr (min n (4092 - length q), (stamp (fs_EntryV s i) atime_update s)\<lparr>mem := m\<rparr>)"
    using force h(3,7) m(1) by (simp add: write_chardev_def read_device_file [OF inv d] z)
  then have "write_call 3 at n s = Inr (min n (4092 - length q), (stamp (fs_EntryV s i) atime_update s)\<lparr>mem := m\<rparr>)"
    using fd force h by (simp add: write_call_def reads_at_def io_defs)
  then show ?thesis using m(2-4) by (intro exI [of _ m]) (simp add: chardev_ok_def)
qed

lemma read_device:
  assumes inv: "fs_inv s" and d: "device_slot s path i q" and fd: "reads_at i O_RDONLY s" and st: "buf + n \<le> memory_Space s"
  shows "\<exists>m. read_call 3 buf n s = Inr (min n (length q), (stamp (fs_EntryV s i) atime_update s)\<lparr>mem := m\<rparr>) \<and>
    chardev_ok m (dev_mem s i) MEMORY_BLKSIZE \<and> queue m (dev_mem s i) = drop n q \<and> mread m buf (min n (length q)) = take n q \<and>
    (\<forall>a. memory_Space s \<le> a \<longrightarrow> a < dev_mem s i \<or> dev_mem s i + MEMORY_BLKSIZE \<le> a \<longrightarrow> m a = mem s a)"
proof -
  note h = device_slotD [OF d]
  have len: "length q = rd32 (mem s) (dev_mem s i)" using h(9) by (auto simp: queue_def)
  obtain k where k: "live s (fs_EntryV s i) = Some k" using in_use_live [OF inv h(2)] by blast
  have "memory_Space s \<le> fs_EntryV s i" by (rule live_bounds(1) [OF fs_invD(1) [OF inv] k])
  then have dj: "disj buf n (dev_mem s i) MEMORY_BLKSIZE" using st by (simp add: disj_def)
  obtain m where m: "chardev_get (mem s) (dev_mem s i) MEMORY_BLKSIZE buf n = (min n (length q), m)"
    "mread m buf (min n (length q)) = take n q" "queue m (dev_mem s i) = drop n q" "chardev_ok m (dev_mem s i) MEMORY_BLKSIZE"
    using chardev_get_eq [OF h(8) dj] h(9) len by auto
  have out: "m a = mem s a" if "memory_Space s \<le> a" "a < dev_mem s i \<or> dev_mem s i + MEMORY_BLKSIZE \<le> a" for a
    using chardev_get_outside [OF h(8) dj that(2)] that(1) st m(1) by simp
  have "dev_allows (ent_at s i) O_RDONLY s"
    using h(3,6) index_of_slot(4) [OF inv h(2,3)] by (simp add: dev_allows_def h(12) has_flag_def)
  then have "read_chardev (ent_at s i) buf n s = Inr (min n (length q), (stamp (fs_EntryV s i) atime_update s)\<lparr>mem := m\<rparr>)"
    using h(3,7) m(1) by (simp add: read_chardev_def read_device_file [OF inv d])
  then have "read_call 3 buf n s = Inr (min n (length q), (stamp (fs_EntryV s i) atime_update s)\<lparr>mem := m\<rparr>)"
    using fd h by (simp add: read_call_def reads_at_def io_defs has_flag_def)
  then show ?thesis using m(2-4) out by (intro exI [of _ m]) simp
qed

section \<open>Sending and receiving\<close>

text \<open>What an access to a device leaves alone, and the other files.\<close>

definition device_access :: "cstring \<Rightarrow> 'a io_scheme \<Rightarrow> 'a io_scheme \<Rightarrow> bool" where
  "device_access path s s' \<longleftrightarrow> fs_inv s' \<and> (\<forall>x. x \<noteq> path \<longrightarrow> fs_view s' x = fs_view s x) \<and>
     (\<exists>m t e d. s' = s\<lparr>mem := m, ticks := t, fs_ent := e, iocall_FileDesc := d, iocall_ForceAccess := False\<rparr>)"

lemma slot_low_memory:
  assumes inv: "fs_inv s" and d: "device_slot s path i q" and m: "\<And>a. memory_Space s \<le> a \<Longrightarrow> m a = mem s a"
  shows "fs_inv (s\<lparr>mem := m\<rparr>)" "device_slot (s\<lparr>mem := m\<rparr>) path i q" "fs_view (s\<lparr>mem := m\<rparr>) = fs_view s"
proof -
  note h = device_slotD [OF d]
  note v = file_memory_view [OF inv h(2) _ h(10), of m]
  obtain k where k: "live s (fs_EntryV s i) = Some k" using in_use_live [OF inv h(2)] by blast
  have sp: "memory_Space s \<le> fs_EntryV s i" by (rule live_bounds(1) [OF fs_invD(1) [OF inv] k])
  have same: "m (dev_mem s i + j) = mem s (dev_mem s i + j)" for j using sp m by simp
  have r: "rd32 m (dev_mem s i) = rd32 (mem s) (dev_mem s i)" by (rule rd32_cong) (rule same)
  have "queue m (dev_mem s i) = queue (mem s) (dev_mem s i)"
    unfolding queue_def r using same [of "4 + j" for j] by (intro mread_cong) (simp add: add.assoc)
  then show u: "device_slot (s\<lparr>mem := m\<rparr>) path i q"
    using d by (simp add: device_slot_def in_use_def ent_at_def chardev_ok_def r)
  show inv': "fs_inv (s\<lparr>mem := m\<rparr>)" using v m by blast
  have "bytes_at (s\<lparr>mem := m\<rparr>) i = bytes_at s i"
    using same by (auto simp: bytes_at_def ent_at_def data_of_in_use [OF inv h(2)] intro!: mread_cong)
  then have "fs_view (s\<lparr>mem := m\<rparr>) path = fs_view s path"
    using fs_viewI [OF inv h(2,3)] fs_viewI [OF inv' device_slotD(2,3) [OF u]] by (simp add: ent_at_def)
  then show "fs_view (s\<lparr>mem := m\<rparr>) = fs_view s" using v m h(3) by (intro ext) metis
qed

lemma send_device:
  fixes s :: "'a io_scheme"
  assumes inv: "fs_inv s" and h: "device_holds s (cstr path) q" and fresh: "\<not> iocall_Initialized s"
    and at: "at + length data \<le> memory_Space s"
  shows "\<exists>s'. send_bytes fn path at data s = Inr s' \<and> device_access (cstr path) s s' \<and>
    device_holds s' (cstr path) (q @ take (4092 - length q) data)"
proof -
  obtain i where d: "device_slot s (cstr path) i q" using h device_holds_slot [OF inv] by blast
  let ?f = "(replicate IOCALL_MAXFD closed_desc)[0 := closed_desc\<lparr>entry := int i, flags := O_WRONLY\<rparr>]"
  let ?u0 = "s\<lparr>iocall_ForceAccess := True\<rparr>"
  let ?u1 = "?u0\<lparr>iocall_FileDesc := ?f\<rparr>"
  let ?u2 = "?u1\<lparr>mem := mwrite (mem ?u1) at data\<rparr>"
  have i0: "fs_inv ?u0" "device_slot ?u0 (cstr path) i q" "\<not> iocall_Initialized ?u0" using inv d fresh by simp_all
  have o: "open_call (cstr path) O_WRONLY ?u0 = Inr (3, ?u1)" by (rule open_device [OF i0]) simp
  have i1: "fs_inv ?u1" "device_slot ?u1 (cstr path) i q" using inv d by simp_all
  have low: "mwrite (mem ?u1) at data a = mem ?u1 a" if "memory_Space ?u1 \<le> a" for a
    using that at by (simp add: mwrite_outside)
  note i2 = slot_low_memory [OF i1 low]
  have fd: "reads_at i O_WRONLY ?u2" "iocall_ForceAccess ?u2" "at + length data \<le> memory_Space ?u2"
    using at by (simp_all add: reads_at_def)
  obtain m where w: "write_call 3 at (length data) ?u2 =
      Inr (min (length data) (4092 - length q), (stamp (fs_EntryV ?u2 i) atime_update ?u2)\<lparr>mem := m\<rparr>)"
    "chardev_ok m (dev_mem ?u2 i) MEMORY_BLKSIZE" "queue m (dev_mem ?u2 i) = q @ take (4092 - length q) (mread (mem ?u2) at (length data))"
    "\<forall>a. a < dev_mem ?u2 i \<or> dev_mem ?u2 i + MEMORY_BLKSIZE \<le> a \<longrightarrow> m a = mem ?u2 a"
    using write_device [OF i2(1,2) fd] by blast
  define t where "t = (stamp (fs_EntryV ?u2 i) atime_update ?u2)\<lparr>mem := m\<rparr>"
  have mr: "mread (mem ?u2) at (length data) = data" by simp
  note dt = device_touched [OF i2(1,2) _ w(2) w(3) [unfolded mr], folded t_def]
  have t: "fs_inv t" "device_slot t (cstr path) i (q @ take (4092 - length q) data)"
    "x \<noteq> cstr path \<Longrightarrow> fs_view t x = fs_view s x" for x
    using dt w(4) i2(3) by auto
  have c: "close_call 3 t = Inr (-1, t)"
    using close_index_fd [of 3 t] by (simp add: t_def stamp_eq set_ent_def closed_desc_def)
  have short: "min (length data) (4092 - length q) \<noteq> 4294967295" by linarith
  have "send_bytes fn path at data s = Inr (t\<lparr>iocall_ForceAccess := False\<rparr>)"
    using w(1) [folded t_def] c short by (simp add: send_bytes_def o)
  moreover have "fs_inv (t\<lparr>iocall_ForceAccess := False\<rparr>)" using t(1) by simp
  moreover from this have "device_holds (t\<lparr>iocall_ForceAccess := False\<rparr>) (cstr path) (q @ take (4092 - length q) data)"
    using t(2) device_holds_slot by fastforce
  moreover have "t\<lparr>iocall_ForceAccess := False\<rparr> = s\<lparr>mem := m, ticks := ticks t, fs_ent := fs_ent t, iocall_FileDesc := ?f, iocall_ForceAccess := False\<rparr>"
    by (simp add: t_def stamp_eq set_ent_def)
  ultimately show ?thesis
    unfolding device_access_def using t(3) by (metis io_parts(5))
qed

lemma receive_device:
  fixes s :: "'a io_scheme"
  assumes inv: "fs_inv s" and h: "device_holds s path q" and fresh: "\<not> iocall_Initialized s" "\<not> iocall_ForceAccess s"
    and at: "at + n \<le> memory_Space s"
  shows "\<exists>s1 s'. open_call path O_RDONLY s = Inr (3, s1) \<and> read_call 3 at n s1 = Inr (min n (length q), s') \<and>
    device_access path s s' \<and> device_holds s' path (drop n q) \<and> mread (mem s') at (min n (length q)) = take n q"
proof -
  obtain i where d: "device_slot s path i q" using h device_holds_slot [OF inv] by blast
  let ?f = "(replicate IOCALL_MAXFD closed_desc)[0 := closed_desc\<lparr>entry := int i, flags := O_RDONLY\<rparr>]"
  let ?u1 = "s\<lparr>iocall_FileDesc := ?f\<rparr>"
  have o: "open_call path O_RDONLY s = Inr (3, ?u1)" by (rule open_device [OF inv d fresh(1)]) simp
  have i1: "fs_inv ?u1" "device_slot ?u1 path i q" "reads_at i O_RDONLY ?u1" "at + n \<le> memory_Space ?u1"
    using inv d at by (simp_all add: reads_at_def)
  obtain m where r: "read_call 3 at n ?u1 = Inr (min n (length q), (stamp (fs_EntryV ?u1 i) atime_update ?u1)\<lparr>mem := m\<rparr>)"
    "chardev_ok m (dev_mem ?u1 i) MEMORY_BLKSIZE" "queue m (dev_mem ?u1 i) = drop n q" "mread m at (min n (length q)) = take n q"
    "\<forall>a. memory_Space ?u1 \<le> a \<longrightarrow> a < dev_mem ?u1 i \<or> dev_mem ?u1 i + MEMORY_BLKSIZE \<le> a \<longrightarrow> m a = mem ?u1 a"
    using read_device [OF i1] by blast
  define t where "t = (stamp (fs_EntryV ?u1 i) atime_update ?u1)\<lparr>mem := m\<rparr>"
  note dt = device_touched [OF i1(1,2) _ r(2,3), folded t_def]
  have t: "fs_inv t" "device_slot t path i (drop n q)" "x \<noteq> path \<Longrightarrow> fs_view t x = fs_view s x" for x
    using dt r(5) by auto
  have "t = s\<lparr>mem := m, ticks := ticks t, fs_ent := fs_ent t, iocall_FileDesc := ?f, iocall_ForceAccess := False\<rparr>"
    using fresh(2) by (simp add: t_def stamp_eq set_ent_def)
  moreover have "device_holds t path (drop n q)" using t(2) device_holds_slot [OF t(1)] by blast
  moreover have "read_call 3 at n ?u1 = Inr (min n (length q), t)" "mread (mem t) at (min n (length q)) = take n q"
    using r(1,4) by (simp_all add: t_def)
  ultimately show ?thesis unfolding device_access_def using o t(1,3) by blast
qed

section \<open>The contract\<close>

lemma device_access_keeps:
  fixes s :: "'a io_scheme"
  assumes "device_access path s s'"
  shows "fs_inv s'" "memory_Space s' = memory_Space s" "iocall_Initialized s' = iocall_Initialized s" "\<not> iocall_ForceAccess s'"
    "tty s' = tty s" "x \<noteq> path \<Longrightarrow> fs_view s' x = fs_view s x"
  using assms by (auto simp: device_access_def)

text \<open>What \<open>kernel_main\<close> does to read a device: open it, and read from the descriptor it got.\<close>

definition take_input :: "cstring \<Rightarrow> addr \<Rightarrow> nat \<Rightarrow> 'a io_scheme \<Rightarrow> (u8 list \<times> 'a io_scheme) res" where
  "take_input path at n s =
     bindR (open_call path O_RDONLY s) (\<lambda>(fd, s1). bindR (read_call fd at n s1) (\<lambda>(k, s2). Inr (mread (mem s2) at k, s2)))"

definition device_ready :: "cstring \<Rightarrow> addr \<Rightarrow> nat \<Rightarrow> 'a io_scheme \<Rightarrow> bool" where
  "device_ready path at k s \<longleftrightarrow> fs_inv s \<and> (\<exists>q. device_holds s path q) \<and> \<not> iocall_Initialized s \<and> \<not> iocall_ForceAccess s \<and>
     at + k \<le> memory_Space s"

definition device_contents :: "cstring \<Rightarrow> 'a fs_scheme \<Rightarrow> u8 list" where
  "device_contents path s = (case fs_view s path of None \<Rightarrow> [] | Some (e, bs) \<Rightarrow> waiting bs)"

lemma device_contents_holds: "device_holds s path q \<Longrightarrow> device_contents path s = q"
  by (auto simp: device_holds_def device_contents_def split: option.splits)

lemma device_access_ready:
  assumes "device_access path s s'" "device_ready path at k s" "device_holds s' path q"
  shows "device_ready path at k s'"
  using device_access_keeps [OF assms(1)] assms(2,3) by (auto simp: device_ready_def)

interpretation device: bounded_queue "device_ready (cstr path) at k" "device_contents (cstr path)" 4092 k
  "send_bytes fn path at" "take_input (cstr path) at"
proof
  fix s :: "'a io_scheme" and xs :: "u8 list"
  assume r: "device_ready (cstr path) at k s" "length xs \<le> k"
  then obtain q where q: "fs_inv s" "device_holds s (cstr path) q" "\<not> iocall_Initialized s" "at + length xs \<le> memory_Space s"
    by (auto simp: device_ready_def)
  obtain s' where s': "send_bytes fn path at xs s = Inr s'" "device_access (cstr path) s s'"
    "device_holds s' (cstr path) (q @ take (4092 - length q) xs)"
    using send_device [OF q] by blast
  then show "\<exists>s'. send_bytes fn path at xs s = Inr s' \<and> device_ready (cstr path) at k s' \<and>
      device_contents (cstr path) s' = device_contents (cstr path) s @ take (4092 - length (device_contents (cstr path) s)) xs"
    using device_access_ready [OF s'(2) r(1) s'(3)] device_contents_holds [OF q(2)] device_contents_holds [OF s'(3)] by simp
next
  fix s :: "'a io_scheme" and n :: nat
  assume r: "device_ready (cstr path) at k s" "n \<le> k"
  then obtain q where q: "fs_inv s" "device_holds s (cstr path) q" "\<not> iocall_Initialized s" "\<not> iocall_ForceAccess s"
    "at + n \<le> memory_Space s" by (auto simp: device_ready_def)
  obtain s1 s' where s': "open_call (cstr path) O_RDONLY s = Inr (3, s1)" "read_call 3 at n s1 = Inr (min n (length q), s')"
    "device_access (cstr path) s s'" "device_holds s' (cstr path) (drop n q)" "mread (mem s') at (min n (length q)) = take n q"
    using receive_device [OF q] by blast
  then have "take_input (cstr path) at n s = Inr (take n q, s')" by (simp add: take_input_def)
  then show "\<exists>s'. take_input (cstr path) at n s = Inr (take n (device_contents (cstr path) s), s') \<and> device_ready (cstr path) at k s' \<and>
      device_contents (cstr path) s' = drop n (device_contents (cstr path) s)"
    using device_access_ready [OF s'(3) r(1) s'(4)] device_contents_holds [OF q(2)] device_contents_holds [OF s'(4)] by simp
qed


section \<open>The main loop\<close>

lemma hexs_no_nul: "0 \<notin> set (hexs n)"
proof (induction n rule: hexs.induct)
  case (1 n)
  have "hexdigit d \<noteq> 0" if "d < 16" for d using nat_less_16 [OF that] by (auto simp: hexdigit_def)
  then show ?case using 1 by (subst hexs.simps) auto
qed

text \<open>The line the main loop prints for a key event.\<close>

definition key_message :: "u8 \<Rightarrow> cstring" where
  "key_message event =
     cstr (''kernel_main: '' @ (if bit event 7 then ''Released'' else ''Pressed'') @ '': 0x'') @
     hexs (unat (event AND KEY_CODE)) @ [10]"

lemma key_message_clean: "filter (\<lambda>c. c \<noteq> 0) (key_message b) = key_message b"
proof -
  have "c \<noteq> 0" if "c \<in> set (key_message b)" for c
    using that hexs_no_nul by (auto simp: key_message_def cstr_def split: if_splits)
  then show ?thesis by (simp add: filter_id_conv)
qed

lemma key_text:
  "INFO ''kernel_main'' ''%s: 0x%x'' [S (cstr w), W x] s =
     Inr (s\<lparr>tty := tty s @ filter (\<lambda>c. c \<noteq> 0) (cstr (''kernel_main: '' @ w @ '': 0x'') @ hexs (unat x) @ [10])\<rparr>)"
proof -
  have "render (cstr ''%s: '' @ cstr ''%s: 0x%x'' @ [10]) [S (cstr ''kernel_main''), S (cstr w), W x] =
      Inr (cstr (''kernel_main: '' @ w @ '': 0x'') @ hexs (unat x) @ [10])"
    by (simp add: cstr_def render.simps(2) xtoa_eq)
  moreover have "printable (cstr ''%s: '' @ cstr ''%s: 0x%x'' @ [10])" by (simp add: cstr_def)
  ultimately show ?thesis using printf_render [of _ _ _ s] by (simp only: INFO_def puts_eq)
qed

lemma key_line:
  "INFO ''kernel_main'' ''%s: 0x%x''
     [S (cstr (if b AND KEY_RELEASE \<noteq> 0 then ''Released'' else ''Pressed'')), W (ucast (b AND KEY_CODE))] s =
   Inr (s\<lparr>tty := tty s @ key_message b\<rparr>)"
proof -
  have rel: "b AND KEY_RELEASE \<noteq> 0 \<longleftrightarrow> bit b 7" using and_exp_eq_0_iff_not_bit [of b 7] by simp
  have u: "unat (ucast (b AND KEY_CODE) :: u32) = unat (b AND KEY_CODE)"
    using unat_u8_less [of "b AND KEY_CODE"] by (simp add: unsigned_ucast_eq take_bit_nat_eq_self)
  show ?thesis unfolding key_text rel u key_message_def [symmetric] key_message_clean ..
qed

lemma device_holds_cong:
  fixes s t :: "'a fs_scheme"
  assumes "fs_EntryV s = fs_EntryV t" "fs_ent s = fs_ent t" "fs_InitLock s = fs_InitLock t" "fs_view s = fs_view t"
  shows "device_holds s = device_holds t"
proof -
  have "ent_at s = ent_at t" by (rule ext) (simp only: ent_at_def assms)
  then have "named s = named t" by (intro ext) (simp only: named_def assms)
  then have "fs_index x s = fs_index x t" for x by (simp only: fs_index_def find_entry_def assms)
  then show ?thesis by (simp add: device_holds_def fun_eq_iff assms(4))
qed

lemma poll_prints:
  fixes s :: "'a kern_scheme"
  assumes "fs_inv s" "device_holds s (cstr ''/dev/keyboard'') q" "\<not> iocall_Initialized s" "\<not> iocall_ForceAccess s"
    "data_at lk < memory_Space s"
  shows "\<exists>s'. poll_keyboard lk s = Inr s' \<and> fs_inv s' \<and> device_holds s' (cstr ''/dev/keyboard'') (tl q) \<and>
    (\<forall>x. x \<noteq> cstr ''/dev/keyboard'' \<longrightarrow> fs_view s' x = fs_view s x) \<and>
    tty s' = tty s @ (case q of [] \<Rightarrow> [] | b # _ \<Rightarrow> key_message b)"
proof -
  obtain s1 s2 where r: "open_call (cstr ''/dev/keyboard'') O_RDONLY s = Inr (3, s1)"
    "read_call 3 (data_at lk) 1 s1 = Inr (min 1 (length q), s2)" "device_access (cstr ''/dev/keyboard'') s s2"
    "device_holds s2 (cstr ''/dev/keyboard'') (drop 1 q)" "mread (mem s2) (data_at lk) (min 1 (length q)) = take 1 q"
    using receive_device [OF assms(1-4), of "data_at lk" 1] assms(5) by auto
  note k = device_access_keeps [OF r(3)]
  show ?thesis
  proof (cases q)
    case Nil
    then show ?thesis using r k by (intro exI [of _ s2]) (simp add: poll_keyboard_def)
  next
    case (Cons b q')
    then have b: "mem s2 (data_at lk) = b" using r(5) by (simp add: mread_Suc)
    let ?s = "s2\<lparr>tty := tty s2 @ key_message b\<rparr>"
    have "poll_keyboard lk s = Inr ?s"
      using r(1,2) Cons key_line [of b s2] by (simp add: poll_keyboard_def b)
    moreover have "device_holds ?s = device_holds s2"
  proof -
    have "fs_view ?s = fs_view s2" by (rule fs_view_cong) simp_all
    then show ?thesis by (intro device_holds_cong) simp_all
  qed
    ultimately show ?thesis using k r(4) Cons by (intro exI [of _ ?s]) simp
  qed
qed

lemma files_kept_devices:
  fixes s :: "'a kbc_scheme"
  shows "files_kept s s' \<Longrightarrow> device_holds s' = device_holds s"
  by (rule device_holds_cong) (simp_all add: files_kept_def)

section \<open>A machine with a device file\<close>

definition input_demo :: "string \<Rightarrow> kern" where
  "input_demo path = kern_demo
     \<lparr>mem := (\<lambda>_. 0), memory_InitLock := True, memory_Space := memory_Space fs_demo, memory_Limit := memory_Limit fs_demo,
      memory_BlockV := memory_BlockV fs_demo, memory_BlockC := memory_BlockC fs_demo, fs_InitLock := True,
      fs_EntryV := (\<lambda>_. 0)(0 := 8192, 1 := 12288),
      fs_ent := (\<lambda>_. (sample_entry (cstr path) 4096 FS_TYPE_FILE)\<lparr>ftype := FS_TYPE_CHARDEV, devperm := 1\<rparr>)
        (8192 := sample_entry (cstr ''/'') 0 FS_TYPE_DIR),
      iocall_Initialized := False, iocall_ForceAccess := False, pio := pio (kbc_demo 1), i8042_InitLock := True\<rparr>"

lemma input_demo_inv:
  assumes "path = ''/dev/keyboard'' \<or> path = ''/dev/mouse''"
  shows "fs_inv (input_demo path)" "device_holds (input_demo path) (cstr path) []"
proof -
  have p: "is_cstr (cstr path)" "cstr path \<noteq> []" "length (cstr path) < 3840" "\<not> ends_slash (cstr path)" "cstr path \<noteq> cstr ''/''"
    using assms by (auto simp: is_cstr_def cstr_def ends_slash_def)
  have l: "live (input_demo path) = live fs_demo" by (rule live_cong) (simp_all add: input_demo_def)
  have m: "mm_inv (input_demo path) = mm_inv fs_demo" by (rule mm_inv_cong) (simp_all add: input_demo_def, simp add: fs_demo_def)
  have u: "in_use (input_demo path) i \<longleftrightarrow> i = 0 \<or> i = 1" for i by (auto simp: in_use_def input_demo_def)
  have e: "ent_at (input_demo path) 0 = sample_entry (cstr ''/'') 0 FS_TYPE_DIR" "fs_EntryV (input_demo path) 0 = 8192"
    "ent_at (input_demo path) 1 = (sample_entry (cstr path) 4096 FS_TYPE_FILE)\<lparr>ftype := FS_TYPE_CHARDEV, devperm := 1\<rparr>"
    "fs_EntryV (input_demo path) 1 = 12288"
    by (simp_all add: ent_at_def input_demo_def)
  show inv: "fs_inv (input_demo path)"
    unfolding fs_inv_def u
  proof (intro conjI allI impI)
    show "mm_inv (input_demo path)" by (simp add: m fs_demo_mm)
    show "fs_InitLock (input_demo path)" by (simp add: input_demo_def)
  next
    fix i :: nat assume "i = 0 \<or> i = 1"
    then show "entry_ok (ent_at (input_demo path) i) (live (input_demo path) (fs_EntryV (input_demo path) i))"
      by (elim disjE) (simp_all add: e [simplified] l fs_demo_live entry_ok_def sample_entry_def p, simp_all add: is_cstr_def cstr_def ends_slash_def)
  next
    fix i j :: nat assume "i = 0 \<or> i = 1" "j = 0 \<or> j = 1"
      "fs_EntryV (input_demo path) i = fs_EntryV (input_demo path) j \<or> name (ent_at (input_demo path) i) = name (ent_at (input_demo path) j)"
    then show "i = j" by (elim disjE) (simp_all add: e [simplified] sample_entry_def p p(5) [symmetric])
  qed
  have z: "mem (input_demo path) = (\<lambda>_. 0)" by (simp add: input_demo_def)
  have "device_slot (input_demo path) (cstr path) 1 []"
    using u unfolding device_slot_def e z by (simp add: device_file_def sample_entry_def chardev_ok_def queue_def rd32_def)
  then show "device_holds (input_demo path) (cstr path) []" using device_holds_slot [OF inv] by blast
qed

section \<open>Properties\<close>

text \<open>C36.
  A key reaches the output stream: a scan code sequence at the data port (any run of the two prefix bytes, then a code of a
  known key) makes \<open>i8042_proc\<close> queue one event in \<open>/dev/keyboard\<close>, with the code of the key and the release
  bit of the sequence, and the next turn of the main loop writes exactly the line of that event to the output stream \<open>tty\<close>, leaving the
  queue empty and every other file as it was. Other processes may run during the delays of the poll: then the
  delays must return and the others must leave the files and the controller alone; outside the process stream
  the latter is no condition (\<open>alone_calm\<close>).\<close>

theorem key_reaches_console:
  fixes s :: "'a kern_scheme"
  assumes "i8042_InitLock s" "\<And>log. bit (device (pio s) log W8 0x64) 0 \<and> \<not> bit (device (pio s) log W8 0x64) 5"
    and "set ps \<subseteq> {0xE0, 0xF0}" "c \<notin> {0xE0, 0xF0}" "feeds (ps @ [c]) s" "delay_returns others s" "calm_turns others s"
    and "fs_inv s" "device_holds s (cstr ''/dev/keyboard'') []" "\<not> iocall_Initialized s"
    and "scan_at lk < memory_Space s" "data_at lk < memory_Space s"
  defines "key \<equiv> if 0xE0 \<in> set ps then i8042_ExtKeyTable c else i8042_KeyTable c"
  assumes "key \<noteq> 0"
  shows "\<exists>s1 s2 event. i8042_proc others (scan_at lk) s = Inr s1 \<and> device_holds s1 (cstr ''/dev/keyboard'') [event] \<and>
    poll_keyboard lk s1 = Inr s2 \<and> device_holds s2 (cstr ''/dev/keyboard'') [] \<and> tty s2 = tty s1 @ key_message event \<and>
    event AND KEY_CODE = key \<and> (bit event 7 \<longleftrightarrow> 0xF0 \<in> set ps) \<and>
    fs_inv s2 \<and> (\<forall>x. x \<noteq> cstr ''/dev/keyboard'' \<longrightarrow> fs_view s2 x = fs_view s x)"
proof -
  let ?k = "cstr ''/dev/keyboard''"
  obtain t event where t: "files_kept s t" "i8042_proc others (scan_at lk) s = key_send (scan_at lk) event t"
    "event AND KEY_CODE = key" "bit event 7 \<longleftrightarrow> 0xF0 \<in> set ps"
    using scan_codes_translate [OF assms(1-7), of "scan_at lk"] assms(14) unfolding key_def Let_def by auto
  note f = t(1) [unfolded files_kept_def] files_kept_devices [OF t(1)]
  have h: "fs_inv t" "device_holds t ?k []" "\<not> iocall_Initialized t" "scan_at lk + length [event] \<le> memory_Space t"
    using assms(8-11) by (simp_all add: f)
  obtain s1 where s1: "key_send (scan_at lk) event t = Inr s1" "device_access ?k t s1" "device_holds s1 ?k [event]"
    using send_device [OF h, of "''key_send''"] unfolding key_send_def by auto
  note a = device_access_keeps [OF s1(2)]
  have h1: "\<not> iocall_Initialized s1" "data_at lk < memory_Space s1" using h(3) assms(12) by (simp_all add: a(2,3) f)
  obtain s2 where s2: "poll_keyboard lk s1 = Inr s2" "fs_inv s2" "device_holds s2 ?k []"
    "\<forall>x. x \<noteq> ?k \<longrightarrow> fs_view s2 x = fs_view s1 x" "tty s2 = tty s1 @ key_message event"
    using poll_prints [OF a(1) s1(3) h1(1) a(4) h1(2)] by auto
  show ?thesis using t(2-4) s1 s2 a(6) f by auto
qed

theorem key_reaches_console_witness:
  "\<forall>others. \<exists>s1 s2. i8042_proc others 0x1000 (input_demo ''/dev/keyboard'') = Inr s1 \<and> poll_keyboard (lk_demo\<lparr>scan_at := 0x1000, data_at := 0x1001\<rparr>) s1 = Inr s2 \<and>
     tty s2 = tty s1 @ cstr ''kernel_main: Released: 0x'' @ hexs (unat (KEY ''KEY_ARROWUP'')) @ [10]"
proof (rule allI)
  fix others
  let ?s = "input_demo ''/dev/keyboard''"
  let ?lk = "lk_demo\<lparr>scan_at := 0x1000, data_at := 0x1001\<rparr>"
  have k: "i8042_ExtKeyTable 0x75 = KEY ''KEY_ARROWUP''" by (simp add: i8042_ExtKeyTable_def table_of_def ext_key_inits_def)
  have z: "KEY ''KEY_ARROWUP'' \<noteq> 0" by (simp add: KEY_def key_enum_def)
  have p: "pio ?s = pio (kbc_demo 1)" by (simp add: input_demo_def)
  have f: "feeds ([0xE0, 0xF0] @ [0x75]) ?s" by (simp add: feeds_def p kbc_demo_fields data_reads_def)
  have st0: "\<not> multitask_InStream ?s" "has_tsc (kernel_CPUInfo ?s) = 0"
    by (simp_all add: input_demo_def kern_demo_def xhci.defs usb_demo_def kbc.defs kbc_demo_def dbus.defs dbus_demo_def acpi.defs acpi_demo_def
      hw.defs hw_demo_def sysc.defs sysc_demo_stream)
  note d = alone_delay [OF st0, of others] alone_calm [OF st0(1), of others]
  have st: "bit (device (pio ?s) log W8 0x64) 0 \<and> \<not> bit (device (pio ?s) log W8 0x64) 5" for log
    by (simp add: p kbc_demo_fields)
  have v: "i8042_InitLock ?s" "\<not> iocall_Initialized ?s" "scan_at ?lk < memory_Space ?s" "data_at ?lk < memory_Space ?s"
    by (simp_all add: input_demo_def fs_demo_def)
  have i: "fs_inv ?s" "device_holds ?s (cstr ''/dev/keyboard'') []" by (rule input_demo_inv; simp)+
  obtain s1 s2 event where r: "i8042_proc others (scan_at ?lk) ?s = Inr s1" "poll_keyboard ?lk s1 = Inr s2"
    "tty s2 = tty s1 @ key_message event" "event AND KEY_CODE = KEY ''KEY_ARROWUP''" "bit event 7"
    using key_reaches_console [of ?s "[0xE0, 0xF0]" "0x75" others ?lk, OF v(1) st _ _ f d(1) d(2) i v(2-4)] k z by auto
  have "key_message event = cstr ''kernel_main: Released: 0x'' @ hexs (unat (KEY ''KEY_ARROWUP'')) @ [10]"
    unfolding key_message_def r(4) using r(5) by simp
  then show "\<exists>s1 s2. i8042_proc others 0x1000 ?s = Inr s1 \<and> poll_keyboard ?lk s1 = Inr s2 \<and>
     tty s2 = tty s1 @ cstr ''kernel_main: Released: 0x'' @ hexs (unat (KEY ''KEY_ARROWUP'')) @ [10]" using r by auto
qed

text \<open>C37.
  Mouse packets come out in the order they went in: after any number of calls of \<open>mouse_send\<close> that fit the
  device file, reading three bytes at a time, with the file opened anew each time, yields the same packets, with
  the button bits only in the first byte, and leaves the file empty.\<close>

theorem mouse_packets_in_order:
  assumes "fs_inv s" "device_holds s (cstr ''/dev/mouse'') []" "\<not> iocall_Initialized s" "\<not> iocall_ForceAccess s"
    "at + 3 \<le> memory_Space s" "length ms \<le> 1364"
  shows "\<exists>s1 s2. run_all (\<lambda>(st, x, y). mouse_send at st x y) ms s = Inr s1 \<and>
     gather (length ms) (take_input (cstr ''/dev/mouse'') at 3) s1 = Inr (map (\<lambda>(st, x, y). [st AND 7, x, y]) ms, s2) \<and>
     device_contents (cstr ''/dev/mouse'') s2 = [] \<and> fs_inv s2"
proof -
  let ?ps = "map (\<lambda>(st, x, y). [st AND 7, x, y]) ms"
  have ready: "device_ready (cstr ''/dev/mouse'') at 3 s" using assms by (auto simp: device_ready_def)
  have run: "run_all (send_bytes ''mouse_send'' ''/dev/mouse'' at) (map (\<lambda>(st, x, y). [st AND 7, x, y]) ms) t =
      run_all (\<lambda>(st, x, y). mouse_send at st x y) ms t" for t :: "'a io_scheme" and ms
    by (induction ms arbitrary: t) (auto simp: mouse_send_def fun_eq_iff intro: bindR_cong)
  have lens: "\<forall>p \<in> set ?ps. length p = 3" "3 * length ?ps \<le> 4092" using assms(6) by auto
  have e: "device_contents (cstr ''/dev/mouse'') s = []" by (rule device_contents_holds [OF assms(2)])
  from device.in_order [OF ready e lens(1) order_refl lens(2), of "''mouse_send''"] show ?thesis
    unfolding run by (auto simp: device_ready_def)
qed

theorem mouse_packets_in_order_witness:
  "\<exists>s1 s2. run_all (\<lambda>(st, x, y). mouse_send 0x1000 st x y) [(9, 1, 2), (8, 255, 0)] (input_demo ''/dev/mouse'') = Inr s1 \<and>
     gather 2 (take_input (cstr ''/dev/mouse'') 0x1000 3) s1 = Inr ([[1, 1, 2], [0, 255, 0]], s2)"
proof -
  let ?s = "input_demo ''/dev/mouse''"
  have i: "fs_inv ?s" "device_holds ?s (cstr ''/dev/mouse'') []" by (rule input_demo_inv; simp)+
  have v: "\<not> iocall_Initialized ?s" "\<not> iocall_ForceAccess ?s" "0x1000 + 3 \<le> memory_Space ?s" "length [(9, 1, 2), (8, 255, 0 :: u8)] \<le> 1364"
    by (simp_all add: input_demo_def fs_demo_def)
  from mouse_packets_in_order [OF i v(1-3), of "[(9, 1, 2), (8, 255, 0)]"] show ?thesis by (auto simp: numeral_2_eq_2)
qed

end
