(* ===== verification/Boot.thy ===== *)
theory Boot
  imports Input
begin

text \<open>
  The whole of \<open>kernel_init\<close> of \<open>source/kernel/kernel.c\<close> in one run, for a boot without a module: processor, memory
  field, core, hardware and \<open>kernel_main\<close> up to its loop.
\<close>

unbundle bit_operations_syntax

section \<open>Around the core\<close>

text \<open>What is not of the core may change: ports, clock, console, processor data, the flags of the hardware
  components and the answer of \<open>fs_readDir\<close>.\<close>

definition edge_only :: "'a kern_scheme \<Rightarrow> 'a kern_scheme \<Rightarrow> bool" where
  "edge_only s s' \<longleftrightarrow> (\<exists>p k t a tb d i b c r. s' = s\<lparr>pio := p, tsc_pos := k, tty := t, acpi_InitLock := a,
     acpiTable := tb, devbus_InitLock := d, i8042_InitLock := i, i8042_1stPortSupport := b, i8042_2ndPortSupport := c, fs_RADirent := r\<rparr>)"

lemma edge_only_trans [trans]: "edge_only s t \<Longrightarrow> edge_only t u \<Longrightarrow> edge_only s u"
  unfolding edge_only_def by (elim exE) (simp, blast)

lemma edge_onlyI:
  "s' = s\<lparr>pio := p, tsc_pos := k, tty := t, acpi_InitLock := a, acpiTable := tb, devbus_InitLock := d, i8042_InitLock := i,
     i8042_1stPortSupport := b, i8042_2ndPortSupport := c, fs_RADirent := r\<rparr> \<Longrightarrow> edge_only s s'"
  unfolding edge_only_def by blast

lemma edge_only_kbc: "kbc_only s s' \<Longrightarrow> edge_only s s'"
  unfolding kbc_only_def
  by (elim exE, rule edge_onlyI [where a = "acpi_InitLock s" and tb = "acpiTable s" and d = "devbus_InitLock s" and
        i = "i8042_InitLock s" and r = "fs_RADirent s"]) simp

lemma edge_only_single [simp]:
  "edge_only s (s\<lparr>tty := x\<rparr>)" "edge_only s (s\<lparr>fs_RADirent := f\<rparr>)" "edge_only s (s\<lparr>i8042_InitLock := l\<rparr>)"
  "edge_only s (s\<lparr>devbus_InitLock := l\<rparr>)" "edge_only s (s\<lparr>acpi_InitLock := l, acpiTable := y\<rparr>)"
  by (rule edge_onlyI [where p = "pio s" and k = "tsc_pos s" and t = x and a = "acpi_InitLock s" and tb = "acpiTable s" and
        d = "devbus_InitLock s" and i = "i8042_InitLock s" and b = "i8042_1stPortSupport s" and c = "i8042_2ndPortSupport s" and
        r = "fs_RADirent s"], simp)
    (rule edge_onlyI [where p = "pio s" and k = "tsc_pos s" and t = "tty s" and a = "acpi_InitLock s" and tb = "acpiTable s" and
        d = "devbus_InitLock s" and i = "i8042_InitLock s" and b = "i8042_1stPortSupport s" and c = "i8042_2ndPortSupport s" and
        r = f], simp,
     rule edge_onlyI [where p = "pio s" and k = "tsc_pos s" and t = "tty s" and a = "acpi_InitLock s" and tb = "acpiTable s" and
        d = "devbus_InitLock s" and i = l and b = "i8042_1stPortSupport s" and c = "i8042_2ndPortSupport s" and
        r = "fs_RADirent s"], simp,
     rule edge_onlyI [where p = "pio s" and k = "tsc_pos s" and t = "tty s" and a = "acpi_InitLock s" and tb = "acpiTable s" and
        d = l and i = "i8042_InitLock s" and b = "i8042_1stPortSupport s" and c = "i8042_2ndPortSupport s" and
        r = "fs_RADirent s"], simp,
     rule edge_onlyI [where p = "pio s" and k = "tsc_pos s" and t = "tty s" and a = l and tb = y and
        d = "devbus_InitLock s" and i = "i8042_InitLock s" and b = "i8042_1stPortSupport s" and c = "i8042_2ndPortSupport s" and
        r = "fs_RADirent s"], simp)

lemma edge_only_refl [simp]: "edge_only s s"
  using edge_only_single(1) [of s "tty s"] by simp

lemma edge_only_io: "edge_only s t \<Longrightarrow> io_only t u \<Longrightarrow> edge_only s u"
  using edge_only_trans edge_only_kbc kbc_onlyI by blast

lemma edge_only_keeps:
  fixes s s' :: "'a kern_scheme"
  assumes "edge_only s s'"
  shows "same_heap s' s" "fs_view s' = fs_view s" "pstack s' = pstack s" "room s' n = room s n" "fs_EntryV s' = fs_EntryV s"
    "fs_ent s' = fs_ent s" "mem s' = mem s" "memory_Space s' = memory_Space s" "memory_BlockC s' = memory_BlockC s"
    "iocall_Initialized s' = iocall_Initialized s" "iocall_ForceAccess s' = iocall_ForceAccess s"
    "kernel_OSModuleSize s' = kernel_OSModuleSize s" "multitask_InitLock s' = multitask_InitLock s"
    "multitask_ProcV s' = multitask_ProcV s"
proof -
  obtain p k t a tb d i b c r where e: "s' = s\<lparr>pio := p, tsc_pos := k, tty := t, acpi_InitLock := a, acpiTable := tb,
      devbus_InitLock := d, i8042_InitLock := i, i8042_1stPortSupport := b, i8042_2ndPortSupport := c, fs_RADirent := r\<rparr>"
    using assms unfolding edge_only_def by blast
  show "fs_EntryV s' = fs_EntryV s" "fs_ent s' = fs_ent s" "mem s' = mem s" "memory_Space s' = memory_Space s"
    "memory_BlockC s' = memory_BlockC s" "iocall_Initialized s' = iocall_Initialized s"
    "iocall_ForceAccess s' = iocall_ForceAccess s" "kernel_OSModuleSize s' = kernel_OSModuleSize s"
    "multitask_InitLock s' = multitask_InitLock s" "multitask_ProcV s' = multitask_ProcV s" by (simp_all add: e)
  show "same_heap s' s" by (rule same_heapI) (simp_all add: e)
  show "fs_view s' = fs_view s" by (rule fs_view_cong) (simp_all add: e)
  show "pstack s' = pstack s" by (simp add: e pstack_def fun_eq_iff)
  have "mm_inv s' = mm_inv s" by (rule mm_inv_cong) (simp_all add: e)
  then show "room s' n = room s n" by (simp add: room_def e)
qed

lemma edge_only_inv:
  assumes "edge_only s s'"
  shows "fs_inv s' = fs_inv s" "task_inv s \<Longrightarrow> task_inv s'" "root_first s' = root_first s"
proof -
  note k = edge_only_keeps [OF assms]
  show "fs_inv s' = fs_inv s" by (rule same_heapD(1) [OF k(1)])
  show "task_inv s'" if "task_inv s" by (rule task_inv_same [OF that k(1)]) (use task_invD(1,2) [OF that] in \<open>simp_all add: k\<close>)
  show "root_first s' = root_first s" by (simp add: root_first_def in_use_def ent_at_def k)
qed

section \<open>Before the core\<close>

text \<open>A processor with a stable time stamp counter is timed with two sleeps of a second; nothing else of the detection waits.\<close>

definition stable_tsc :: "(u32 \<Rightarrow> u32 \<Rightarrow> cpuid_regs) \<Rightarrow> bool" where
  "stable_tsc cpuid \<longleftrightarrow> bit (rd (cpuid 1 0)) 8 \<and> bit (rd (cpuid 0x80000007 0)) 8"

definition two_naps :: "'a mm_scheme \<Rightarrow> bool" where
  "two_naps s \<longleftrightarrow> (\<exists>t u. sleep Inr 1 s = Some (Inr t) \<and> sleep Inr 1 t = Some (Inr u))"

lemma naps_cong: "rtc s = rtc t \<Longrightarrow> naps s = naps t"
proof -
  assume "rtc s = rtc t"
  then have "secs_at s = secs_at t" by (intro ext) (simp add: secs_at_def)
  then show ?thesis by (intro ext) (simp only: naps_def)
qed

lemma two_naps_eq: "two_naps s \<longleftrightarrow> (\<exists>b c. naps s (ticks s) b \<and> naps s b c)"
proof -
  have n: "naps (s\<lparr>ticks := b\<rparr>) = naps s" for b by (rule naps_cong) simp
  have sl: "sleep Inr 1 t = Some r \<longleftrightarrow> (\<exists>b. naps t (ticks t) b \<and> r = Inr (t\<lparr>ticks := b\<rparr>))" for t :: "'a mm_scheme" and r
    by (rule sleep_still) simp
  show ?thesis unfolding two_naps_def sl by (fastforce simp: n)
qed

lemma detect_cpu_warns:
  assumes "\<not> stable_tsc cpuid"
  shows "\<exists>c t. detect_cpu others cpuid s = Inr (s\<lparr>kernel_CPUInfo := c, tty := t\<rparr>)"
proof -
  let ?s = "s\<lparr>kernel_CPUInfo := cpu_info cpuid (frequency (kernel_CPUInfo s))\<rparr>"
  have tsc: "has_tsc (kernel_CPUInfo ?s) \<noteq> 0 \<longleftrightarrow> bit (rd (cpuid 1 0)) 8"
  proof -
    have "drop_bit 8 x AND 1 \<noteq> 0 \<longleftrightarrow> bit x 8" for x :: u32
      by (simp add: and_one_eq bit_iff_odd_drop_bit mod2_eq_if)
    then show ?thesis by (simp add: cpu_info_def Let_def)
  qed
  have plain: "37 \<notin> set (cstr ''TSC not supported'')" "37 \<notin> set (cstr ''TSC not stable'')" by (simp_all add: cstr_def)
  obtain t where t: "WARN ''kernel_init'' ''TSC not supported'' [] ?s = Inr (?s\<lparr>tty := t\<rparr>)" using messages_print(2) [OF plain(1)] by blast
  obtain u where u: "WARN ''kernel_init'' ''TSC not stable'' [] ?s = Inr (?s\<lparr>tty := u\<rparr>)" using messages_print(2) [OF plain(2)] by blast
  show ?thesis
  proof (cases "bit (rd (cpuid 1 0)) 8")
    case True
    with assms [unfolded stable_tsc_def] tsc u have "detect_cpu others cpuid s = Inr (?s\<lparr>tty := u\<rparr>)" by (simp add: detect_cpu_def Let_def)
    then show ?thesis by (intro exI [of _ "cpu_info cpuid (frequency (kernel_CPUInfo s))"] exI [of _ u]) simp
  next
    case False
    with tsc t have "detect_cpu others cpuid s = Inr (?s\<lparr>tty := t\<rparr>)" by (simp add: detect_cpu_def Let_def)
    then show ?thesis by (intro exI [of _ "cpu_info cpuid (frequency (kernel_CPUInfo s))"] exI [of _ t]) simp
  qed
qed

lemma sleep_secs_still:
  assumes "\<not> multitask_InStream s"
  shows "sleep_secs others 1 s = Inr t \<longleftrightarrow> (\<exists>b. naps s (ticks s) b \<and> t = s\<lparr>ticks := b\<rparr>)"
    "sleep_secs others 1 s = Inl e \<longleftrightarrow> e = Diverges \<and> (\<nexists>b. naps s (ticks s) b)"
proof -
  have "in_stream others (s\<lparr>ticks := k\<rparr>) = Inr (s\<lparr>ticks := k\<rparr>)" for k using assms by simp
  from sleep_still [OF this] have
    iff: "\<And>r. sleep (in_stream others) 1 s = Some r \<longleftrightarrow> (\<exists>b. naps s (ticks s) b \<and> r = Inr (s\<lparr>ticks := b\<rparr>))" .
  then have none: "sleep (in_stream others) 1 s = None \<longleftrightarrow> (\<nexists>b. naps s (ticks s) b)"
    by (metis not_Some_eq option.distinct(1))
  show "sleep_secs others 1 s = Inr t \<longleftrightarrow> (\<exists>b. naps s (ticks s) b \<and> t = s\<lparr>ticks := b\<rparr>)"
    unfolding sleep_secs_def using iff none by (cases "sleep (in_stream others) 1 s") auto
  show "sleep_secs others 1 s = Inl e \<longleftrightarrow> e = Diverges \<and> (\<nexists>b. naps s (ticks s) b)"
    unfolding sleep_secs_def using iff none by (cases "sleep (in_stream others) 1 s") auto
qed

text \<open>The detection returns, or it hangs in one of the two sleeps.\<close>

lemma measure_tsc_ends:
  assumes "\<not> multitask_InStream s"
  obtains (hangs) "\<not> two_naps s" "measure_tsc others s = Inl Diverges"
  | (returns) i k j where "two_naps s" "measure_tsc others s = Inr (s\<lparr>kernel_CPUInfo := i, ticks := k, tsc_pos := j\<rparr>)"
proof (cases "\<exists>b. naps s (ticks s) b")
  case False
  then have "sleep_secs others 1 s = Inl Diverges" using sleep_secs_still(2) [OF assms] by simp
  then show thesis using hangs False by (simp add: two_naps_eq measure_tsc_def)
next
  case True
  then obtain b where b: "naps s (ticks s) b" by blast
  have only: "b' = b" if "naps s (ticks s) b'" for b'
  proof -
    have "sleep_secs others 1 s = Inr (s\<lparr>ticks := b\<rparr>)" "sleep_secs others 1 s = Inr (s\<lparr>ticks := b'\<rparr>)"
      using sleep_secs_still(1) [OF assms] b that by blast+
    then have "ticks (s\<lparr>ticks := b'\<rparr>) = ticks (s\<lparr>ticks := b\<rparr>)" by (metis Inr_inject)
    then show ?thesis by simp
  qed
  obtain t1 j where t1: "utils_rdtsc (s\<lparr>ticks := b\<rparr>) = (t1, s\<lparr>ticks := b, tsc_pos := j\<rparr>)" by (simp add: utils_rdtsc_def split_beta)
  define u where "u = s\<lparr>ticks := b, tsc_pos := j\<rparr>"
  have "sleep_secs others 1 s = Inr (s\<lparr>ticks := b\<rparr>)" using sleep_secs_still(1) [OF assms] b by blast
  then have run: "measure_tsc others s = bindR (sleep_secs others 1 u) (\<lambda>s3.
      let (t2, s4) = utils_rdtsc s3; s5 = set_frequency t1 t2 s4
      in Inr (s5\<lparr>kernel_CPUInfo := (kernel_CPUInfo s5)\<lparr>has_tsc := has_tsc (kernel_CPUInfo s5) OR 2\<rparr>\<rparr>))"
    unfolding measure_tsc_def by (simp only: bindR_Inr t1 u_def Let_def prod.case)
  have st: "\<not> multitask_InStream u" "ticks u = b" "naps u = naps s" using assms naps_cong [of u s] by (simp_all add: u_def)
  show thesis
  proof (cases "\<exists>c. naps s b c")
    case False
    then have "\<not> two_naps s" using only by (auto simp: two_naps_eq)
    moreover have "sleep_secs others 1 u = Inl Diverges" using sleep_secs_still(2) [OF st(1)] False st(2,3) by simp
    ultimately show thesis using hangs run by simp
  next
    case True
    then obtain c where c: "naps s b c" by blast
    then have s3: "sleep_secs others 1 u = Inr (u\<lparr>ticks := c\<rparr>)" using sleep_secs_still(1) [OF st(1)] st(2,3) by auto
    obtain t2 l where t2: "utils_rdtsc (u\<lparr>ticks := c\<rparr>) = (t2, s\<lparr>ticks := c, tsc_pos := l\<rparr>)"
      by (simp add: utils_rdtsc_def split_beta u_def)
    have "two_naps s" using b c by (auto simp: two_naps_eq)
    moreover have "measure_tsc others s = Inr (s\<lparr>kernel_CPUInfo := (kernel_CPUInfo s)\<lparr>frequency := nat ((int t2 - int t1) mod 2 ^ 64),
        has_tsc := has_tsc (kernel_CPUInfo s) OR 2\<rparr>, ticks := c, tsc_pos := l\<rparr>)"
      unfolding run s3 bindR_Inr t2 Let_def prod.case by (simp add: set_frequency_def)
    ultimately show thesis by (rule returns)
  qed
qed

lemma detect_cpu_ends:
  assumes "\<not> multitask_InStream s"
  obtains (hangs) "stable_tsc cpuid" "\<not> two_naps s" "detect_cpu others cpuid s = Inl Diverges"
  | (returns) c t k j where "stable_tsc cpuid \<longrightarrow> two_naps s"
      "detect_cpu others cpuid s = Inr (s\<lparr>kernel_CPUInfo := c, tty := t, ticks := k, tsc_pos := j\<rparr>)"
proof (cases "stable_tsc cpuid")
  case False
  obtain c t where "detect_cpu others cpuid s = Inr (s\<lparr>kernel_CPUInfo := c, tty := t\<rparr>)" using detect_cpu_warns [OF False] by blast
  then show thesis using returns [where c = c and t = t and k = "ticks s" and j = "tsc_pos s"] False by simp
next
  case True
  define u where "u = s\<lparr>kernel_CPUInfo := cpu_info cpuid (frequency (kernel_CPUInfo s))\<rparr>"
  have "drop_bit 8 x AND 1 \<noteq> 0 \<longleftrightarrow> bit x 8" for x :: u32
    by (simp add: and_one_eq bit_iff_odd_drop_bit mod2_eq_if)
  then have on: "has_tsc (kernel_CPUInfo u) \<noteq> 0" using True by (simp add: u_def cpu_info_def Let_def stable_tsc_def)
  have d: "detect_cpu others cpuid s = measure_tsc others u"
    using on True by (simp add: detect_cpu_def Let_def stable_tsc_def u_def)
  have u: "\<not> multitask_InStream u" "two_naps u = two_naps s"
    using assms naps_cong [of u s] by (simp_all add: u_def two_naps_eq)
  show thesis
  proof (cases rule: measure_tsc_ends [OF u(1), of others])
    case 1
    then show thesis using hangs True d u(2) by simp
  next
    case (2 i k j)
    then have "detect_cpu others cpuid s = Inr (s\<lparr>kernel_CPUInfo := i, tty := tty s, ticks := k, tsc_pos := j\<rparr>)"
      by (simp add: d u_def)
    then show thesis using returns 2(1) u(2) by blast
  qed
qed

lemma load_module_none:
  assumes "boot_field (mem s) info ''mods_count'' = 0"
  shows "\<exists>t. load_module lk info fieldSize s = Inr (s\<lparr>kernel_OSModuleSize := 0, tty := t\<rparr>)"
proof -
  have "37 \<notin> set (cstr ''No operating system module found'')" by (simp add: cstr_def)
  from messages_print(2) [OF this, of "''kernel_init''" "s\<lparr>kernel_OSModuleSize := 0\<rparr>"] show ?thesis
    using assms by (auto simp: load_module_def)
qed

lemma find_field_less: "find_field lk info m < 4294967296"
proof -
  have "field_loop m base a n f < 4294967296" if "f < 4294967296" for base a n f
    using that by (induction m base a n f rule: field_loop.induct) simp_all
  then show ?thesis by (simp add: find_field_def Let_def)
qed

section \<open>The hardware\<close>

lemma acpi_init_none:
  assumes "\<not> acpi_InitLock s" "rsdp_search (mem s) = None"
  obtains tb s' where "acpi_init others s = Inr s'" "io_only (s\<lparr>acpi_InitLock := True, acpiTable := tb\<rparr>) s'" "mcfg tb = 0"
proof -
  let ?t = "\<lparr>OEMID = cstr ''UNCFG'' @ [0], Revision = -1, support = False, fadt = 0, mcfg = 0\<rparr>"
  let ?s = "s\<lparr>acpi_InitLock := True, acpiTable := ?t\<rparr>"
  have "37 \<notin> set (cstr ''ACPI not supported'')" by (simp add: cstr_def)
  then obtain s' where "WARN ''acpi_init'' ''ACPI not supported'' [] ?s = Inr s'" "io_only ?s s'" by (rule io_only_message)
  then show thesis using assms by (intro that [of s' ?t]) (simp_all add: acpi_init_def)
qed

text \<open>A bus without a USB controller: no driver runs.\<close>

definition no_usb :: "(u8 \<Rightarrow> u8 \<Rightarrow> u8 \<Rightarrow> u8 \<Rightarrow> u32) \<Rightarrow> bool" where
  "no_usb cfg \<longleftrightarrow> (\<forall>d \<in> set (devices cfg). dclass d \<noteq> 0x0C \<or> sub_class d \<noteq> 0x03)"

lemma drivers_load_none: "dclass d \<noteq> 0x0C \<or> sub_class d \<noteq> 0x03 \<Longrightarrow> drivers_load f d s = Inr s"
  by (auto simp: drivers_load_def drivers_List_def driver_matches_def)

lemma devbus_scan_quiet:
  assumes "\<forall>(b, sl, fn)\<in>set locs. b < 256 \<and> sl < 32 \<and> fn < 8" "bus_ready cfg s"
    and "\<forall>l\<in>set locs. vendor (device_at cfg l) \<noteq> 0xFFFF \<longrightarrow> dclass (device_at cfg l) \<noteq> 0x0C \<or> sub_class (device_at cfg l) \<noteq> 0x03"
  shows "\<exists>s'. devbus_scan f locs dev s = Inr s' \<and> io_only s s'"
  using assms
proof (induction locs arbitrary: dev s)
  case (Cons l locs)
  obtain b sl fn where l: "l = (b, sl, fn)" by (cases l)
  have lim: "b < 256" "sl < 32" "fn < 8" using Cons.prems(1) by (simp_all add: l)
  obtain s1 where g: "devbus_get (Some dev) (of_nat b) (of_nat sl) (of_nat fn) s = (Some (device_at cfg (b, sl, fn)), s1)" "io_only s s1"
    by (rule devbus_get_ready [OF Cons.prems(2) lim])
  have "\<exists>s'. devbus_scan f locs (device_at cfg (b, sl, fn)) s1 = Inr s' \<and> io_only s1 s'" "\<exists>s'. devbus_scan f locs dev s1 = Inr s' \<and> io_only s1 s'"
    using Cons.prems by (intro Cons.IH bus_ready_io [OF Cons.prems(2) g(2)]; simp)+
  then show ?case
    using g Cons.prems(3) drivers_load_none [of "device_at cfg (b, sl, fn)" f s1] by (auto simp: l intro: io_only_trans)
qed simp

lemma devbus_init_quiet:
  assumes "\<not> devbus_InitLock s" "devbus_PCIeBase s = 0" "mcfg (acpiTable s) = 0"
    and "pci_bus cfg (pio s)" "cfg 0 0 0 0 \<noteq> -1" "no_usb cfg"
  obtains s' where "devbus_init drv dev s = Inr s'" "io_only (s\<lparr>devbus_InitLock := True\<rparr>) s'"
proof -
  have there: "bus_there cfg s" "bus_base s = 0" using assms(2-5) by (simp_all add: bus_there_def bus_base_def)
  obtain s2 where s2: "devbus_init drv dev s = devbus_scan drv all_functions dev s2"
    "io_only (s\<lparr>devbus_InitLock := True, devbus_PCIeBase := bus_base s\<rparr>) s2" "bus_ready cfg s2"
    by (rule devbus_init_scan [OF assms(1) there(1)])
  have e: "s\<lparr>devbus_InitLock := True, devbus_PCIeBase := bus_base s\<rparr> = s\<lparr>devbus_InitLock := True\<rparr>"
    using assms(2) there(2) by simp
  have "\<forall>l\<in>set all_functions. vendor (device_at cfg l) \<noteq> 0xFFFF \<longrightarrow> dclass (device_at cfg l) \<noteq> 0x0C \<or> sub_class (device_at cfg l) \<noteq> 0x03"
    using assms(6) by (auto simp: no_usb_def devices_def)
  moreover have "\<forall>(b, sl, fn)\<in>set all_functions. b < 256 \<and> sl < 32 \<and> fn < 8" using all_functions_bounds by fast
  ultimately obtain s' where "devbus_scan drv all_functions dev s2 = Inr s'" "io_only s2 s'"
    using devbus_scan_quiet s2(3) by blast
  then show thesis using that s2(1) io_only_trans [OF s2(2)] unfolding e by metis
qed

text \<open>Nothing of the hardware is initialized.\<close>

definition hardware_off :: "'a kern_scheme \<Rightarrow> bool" where
  "hardware_off s \<longleftrightarrow> \<not> acpi_InitLock s \<and> \<not> devbus_InitLock s \<and> devbus_PCIeBase s = 0 \<and> \<not> i8042_InitLock s"

text \<open>No output is ever waiting in the controller.\<close>

definition kbc_silent :: "ports \<Rightarrow> bool" where
  "kbc_silent p \<longleftrightarrow> (\<forall>log. \<not> bit (device p log W8 0x64) 0)"

lemma start_hardware_quiet:
  fixes s :: "'a kern_scheme"
  assumes "hardware_off s" "rsdp_search (mem s) = None" "pci_bus cfg (pio s)" "cfg 0 0 0 0 \<noteq> -1" "no_usb cfg"
  shows "case start_hardware others bar dev s of Inl e \<Rightarrow> e = OutOfBounds | Inr s' \<Rightarrow> edge_only s s' \<and> i8042_InitLock s'"
    and "kbc_silent (pio s) \<Longrightarrow> \<exists>s'. start_hardware others bar dev s = Inr s'"
proof -
  note o = assms(1) [unfolded hardware_off_def]
  obtain tb s1 where a: "acpi_init others s = Inr s1" "io_only (s\<lparr>acpi_InitLock := True, acpiTable := tb\<rparr>) s1" "mcfg tb = 0"
    by (rule acpi_init_none [OF o [THEN conjunct1] assms(2)])
  have e1: "edge_only s s1" by (rule edge_only_io [OF _ a(2)]) simp
  have f1: "\<not> devbus_InitLock s1" "devbus_PCIeBase s1 = 0" "mcfg (acpiTable s1) = 0" "\<not> i8042_InitLock s1" "device (pio s1) = device (pio s)"
    using o a(2,3) by (auto simp: io_only_def)
  have p1: "pci_bus cfg (pio s1)" using assms(3) by (simp add: pci_bus_def f1(5))
  obtain s2 where d: "devbus_init (usb_init bar) dev s1 = Inr s2" "io_only (s1\<lparr>devbus_InitLock := True\<rparr>) s2"
    by (rule devbus_init_quiet [OF f1(1-3) p1 assms(4,5)])
  have e2: "edge_only s s2" by (rule edge_only_trans [OF e1 edge_only_io [OF _ d(2)]]) simp
  have l2: "\<not> i8042_InitLock s2" "device (pio s2) = device (pio s)" using f1(4,5) d(2) by (auto simp: io_only_def)
  note k = fine_init [OF l2(1)]
  have run: "start_hardware others bar dev s = bindR (i8042_init s2) (\<lambda>(_, s3). Inr s3)" using a(1) d(1) by (simp add: start_hardware_def)
  have e3: "edge_only s s3" if "kbc_only (s2\<lparr>i8042_InitLock := True\<rparr>) s3" for s3
    by (rule edge_only_trans [OF edge_only_trans [OF e2] edge_only_kbc [OF that]]) simp
  have "i8042_InitLock s3" if "kbc_only (s2\<lparr>i8042_InitLock := True\<rparr>) s3" for s3 using that by (auto simp: kbc_only_def)
  with k e3 show "case start_hardware others bar dev s of Inl e \<Rightarrow> e = OutOfBounds | Inr s' \<Rightarrow> edge_only s s' \<and> i8042_InitLock s'"
    unfolding run by (auto simp: fine_def split: sum.splits)
  show "\<exists>s'. start_hardware others bar dev s = Inr s'" if "kbc_silent (pio s)"
    using i8042_silent [OF l2(1)] that l2(2) unfolding run kbc_silent_def by auto
qed

section \<open>\<open>kernel_main\<close>\<close>

lemma list_entries_only:
  assumes "fs_InitLock s" "\<forall>j. fs_RADirent s j = FS_DIRENTEND \<or> 0 \<le> fs_RADirent s j \<and> fs_RADirent s j < int FS_MAX_ENTCOUNT"
  shows "\<exists>t. list_entries i k s = Inr (s\<lparr>tty := t\<rparr>)"
  using assms
proof (induction k arbitrary: i s)
  case 0
  have "s = s\<lparr>tty := tty s\<rparr>" by simp
  then show ?case unfolding list_entries.simps by metis
next
  case (Suc k)
  show ?case
  proof (cases "fs_RADirent s i = FS_DIRENTEND")
    case True
    have "s = s\<lparr>tty := tty s\<rparr>" by simp
    then show ?thesis using True unfolding list_entries.simps by (metis (no_types))
  next
    case False
    then have r: "0 \<le> fs_RADirent s i" "fs_RADirent s i < int FS_MAX_ENTCOUNT" using Suc.prems(2) by blast+
    then obtain p where p: "fs_dirent (fs_RADirent s i) s = Inr p" using Suc.prems(1) by (simp add: fs_dirent_def)
    have go: "\<exists>t. bindR (Inr (s\<lparr>tty := x\<rparr>)) (list_entries (Suc i) k) = Inr (s\<lparr>tty := t\<rparr>)" for x
      using Suc.IH [of "s\<lparr>tty := x\<rparr>" "Suc i"] Suc.prems by simp
    obtain u where u: "unit_str (fsize (fs_ent s p)) = Inr u" using unit_str_total by blast
    have "\<exists>x. printf (cstr ''dirent %d: FAILED'') [W (of_nat i)] s = Inr (s\<lparr>tty := x\<rparr>)"
      by (rule message_accepts) (simp_all add: cstr_def)
    moreover have "\<exists>x. printf (cstr '' - %s'' @ [9] @ cstr ''size: %s (%dB))'' @ [10]) [S (name (fs_ent s p)), S u, W (of_nat (fsize (fs_ent s p)))] s =
        Inr (s\<lparr>tty := x\<rparr>)" by (rule message_accepts) (simp_all add: cstr_def)
    ultimately show ?thesis using False p u go by (auto simp: Let_def)
  qed
qed

lemma list_root_only:
  fixes s :: "'a kern_scheme"
  assumes "fs_inv s"
  obtains s' where "list_root s = Inr s'" "edge_only s s'" "i8042_InitLock s' = i8042_InitLock s"
proof -
  have c: "is_cstr (cstr ''/'')" by (simp add: cstr_def is_cstr_def)
  define r where "r = fst (dirent_fill (under s (cstr ''/'') (length (cstr ''/''))))"
  have rd: "fs_readDir (cstr ''/'') s = (True, s\<lparr>fs_RADirent := r\<rparr>)"
    using fs_invD(2) [OF assms] sncompare_eq_0 [OF c, of "cstr ''/''" 1] c
    by (simp add: fs_readDir_def r_def Let_def cstr_def)
  obtain x where x: "printf (cstr ''Entries under /:'' @ [10]) [] (s\<lparr>fs_RADirent := r\<rparr>) = Inr (s\<lparr>fs_RADirent := r, tty := x\<rparr>)"
    using message_accepts [of "cstr ''Entries under /:'' @ [10]" "[]" "s\<lparr>fs_RADirent := r\<rparr>"] by (auto simp: cstr_def)
  let ?s = "s\<lparr>fs_RADirent := r, tty := x\<rparr>"
  have "r = (\<lambda>k. if k < length (listing s (cstr ''/'')) then int (listing s (cstr ''/'') ! k) else FS_DIRENTEND)"
    unfolding r_def by (rule dirent_listing [OF assms c])
  moreover have "listing s (cstr ''/'') ! k < FS_MAX_ENTCOUNT" if "k < length (listing s (cstr ''/''))" for k
    using nth_mem [OF that] by (simp add: listing_def)
  ultimately have "\<forall>j. r j = FS_DIRENTEND \<or> 0 \<le> r j \<and> r j < int FS_MAX_ENTCOUNT" by simp
  then obtain t where "list_entries 0 FS_MAX_ENTCOUNT ?s = Inr (?s\<lparr>tty := t\<rparr>)"
    using list_entries_only [of ?s 0 FS_MAX_ENTCOUNT] fs_invD(2) [OF assms] by auto
  then have "list_root s = Inr (s\<lparr>fs_RADirent := r, tty := t\<rparr>)" using rd x by (simp add: list_root_def del: list_entries.simps)
  moreover have "edge_only s (s\<lparr>fs_RADirent := r, tty := t\<rparr>)"
    by (rule edge_only_trans [OF edge_only_single(2) edge_only_single(1)])
  ultimately show thesis using that by fastforce
qed

section \<open>Frames of the file operations\<close>

lemma fs_fields_only_trans [trans]: "fs_fields_only s t \<Longrightarrow> fs_fields_only t u \<Longrightarrow> fs_fields_only s u"
  unfolding fs_fields_only_def by (elim exE) (simp, blast)

lemma set_ent_fields: "fs_fields_only s (set_ent p f s)"
  by (rule fs_fields_onlyI [where m = "mem s" and t = "ticks s" and V = "memory_BlockV s" and ev = "fs_EntryV s" and
        e = "fs_ent (set_ent p f s)"]) (simp add: set_ent_def)

lemma make_device_frame: "make_device lk path s = Inr s' \<Longrightarrow> fs_fields_only s s'"
  by (auto simp: make_device_def bindR_eq_Inr Let_def split: if_splits
      intro: fs_fields_only_trans [OF _ set_ent_fields] dest!: writeFile_frame)

lemma make_devices_frame: "make_devices lk s = Inr s' \<Longrightarrow> fs_fields_only s s'"
  by (auto simp: make_devices_def bindR_eq_Inr split: if_splits
      intro: fs_fields_only_trans dest!: createDir_frame make_device_frame)

lemma fs_fields_task:
  fixes s s' :: "'a multi_scheme"
  assumes "fs_fields_only s s'" "task_inv s" "\<forall>j. pstack s j = None" "fs_inv s'"
  shows "task_inv s'" "pstack s' = pstack s"
proof -
  show p: "pstack s' = pstack s" using assms(1) by (auto simp: fs_fields_only_def pstack_def fun_eq_iff)
  have "multitask_InitLock s' = multitask_InitLock s" "multitask_ProcV s' = multitask_ProcV s" "memory_BlockC s' = memory_BlockC s"
    using assms(1) by (auto simp: fs_fields_only_def)
  then show "task_inv s'" using assms(2-4) by (simp add: task_inv_def p)
qed

section \<open>Ready for input\<close>

text \<open>A readable device file full of zeros, not in the first slot, is an empty queue.\<close>

lemma zero_device:
  assumes "fs_inv s" "root_first s" "fs_view s path = Some (e, replicate 4096 0)" "device_file path e" "path \<noteq> [slash]"
  shows "device_holds s path []"
proof -
  obtain i where i: "in_use s i" "name (ent_at s i) = path" using assms(3) by (auto simp: fs_view_Some [OF assms(1)])
  have "i \<noteq> 0" using i(2) assms(2,5) by (cases "i = 0") (auto simp: root_first_def)
  then have "0 < fs_index path s" using index_of_slot(3) [OF assms(1) i] by simp
  moreover have "rd32 (char_at (replicate 4096 0)) 0 = 0" by (simp add: rd32_def char_at_def)
  ultimately show ?thesis using assms(3,4) by (simp add: device_holds_def waiting_def)
qed

text \<open>The idle process is the only one; there are the root, the device directory and the two devices, both empty.\<close>

definition up :: "link_map \<Rightarrow> 'a kern_scheme \<Rightarrow> bool" where
  "up lk s \<longleftrightarrow> task_inv s \<and> (\<exists>st. pstack s = [1 \<mapsto> st]) \<and> EIP (regs (multitask_ProcV s ! 1)) = idle_at lk \<and>
     dom (fs_view s) = {cstr ''/'', cstr ''/dev/'', cstr ''/dev/keyboard'', cstr ''/dev/mouse''} \<and>
     device_holds s (cstr ''/dev/keyboard'') [] \<and> device_holds s (cstr ''/dev/mouse'') []"

lemma first_slot: "\<forall>j. pstack s j = None \<Longrightarrow> proc_slot s = Some 1"
proof -
  assume n: "\<forall>j. pstack s j = None"
  then have "proc_slot s \<noteq> None" unfolding proc_slot_None by (intro notI) (auto dest: spec [of _ 1])
  then obtain i where i: "proc_slot s = Some i" by blast
  then have "i = 1" using proc_slot_Some [OF i] n by (metis le_eq_less_or_eq order_refl)
  with i show ?thesis by simp
qed

lemma start_processes_runs:
  fixes s :: "'a kern_scheme"
  assumes "task_inv s" "\<forall>j. pstack s j = None" "room s k" "k + 1 \<le> memory_BlockC s" "idle_at lk \<noteq> 0"
    "fs_view s (cstr ''/system/test.elf'') = None"
  shows "\<exists>s' st V P. start_processes lk s = Inr s' \<and> task_inv s' \<and> pstack s' = [1 \<mapsto> st] \<and>
    EIP (regs (multitask_ProcV s' ! 1)) = idle_at lk \<and> s' = s\<lparr>memory_BlockV := V, multitask_ProcV := P\<rparr>"
proof -
  have nb: "nblocks 4096 = 1" by (simp add: nblocks_def)
  have b: "k + nblocks 4096 \<le> memory_BlockC s" using assms(4) by (simp only: nb)
  obtain p V where m: "malloc 4096 s = Inr (p, s\<lparr>memory_BlockV := V\<rparr>)" "0 < p"
    by (rule malloc_room [OF assms(3) _ b]) (simp, blast)
  note slot = first_slot [OF assms(2)]
  define s' where "s' = set_proc (int 1) (new_proc (Some (cstr ''kernel_idle'')) (idle_at lk) p (multitask_DefRegs s)) (s\<lparr>memory_BlockV := V\<rparr>)"
  have "p \<noteq> 0" using m(2) by simp
  note st = started_inv [OF assms(1) task_invD(6) [OF assms(1)] slot m(1) this s'_def]
  have sp: "spawn (Some (cstr ''kernel_idle'')) (idle_at lk) s = Inr (1, s')"
    using slot m assms(5) task_invD(1) [OF assms(1)] by (simp add: spawn_def proc_slot_def s'_def)
  have path: "is_cstr (cstr ''/system/test.elf'')" "cstr ''/system/test.elf'' \<noteq> []" by (simp_all add: cstr_def is_cstr_def)
  have "find_entry s' (cstr ''/system/test.elf'') = None"
    using find_entry_view [OF task_invD(3) [OF st(1)] path(1)] assms(6) by (simp add: st(5))
  then have "exec (cstr ''/system/test.elf'') s' = Inr (-1, s')" by (simp add: exec_def fs_stat_def)
  then have "start_processes lk s = Inr s'" using sp by (simp add: start_processes_def)
  moreover have "pstack s' = [1 \<mapsto> p]" using st(2) assms(2) by (simp add: fun_eq_iff)
  moreover have "EIP (regs (multitask_ProcV s' ! 1)) = idle_at lk" using st(6) by (simp add: new_proc_def)
  moreover have "s' = s\<lparr>memory_BlockV := V, multitask_ProcV := multitask_ProcV s'\<rparr>" by (simp add: s'_def set_proc_def)
  ultimately show ?thesis using st(1) by blast
qed

text \<open>The file system as the core leaves it: the root directory first, room for the devices, nothing called like them.\<close>

lemma fresh_files:
  fixes s :: "'a fs_scheme"
  assumes "fs_inv s" "fs_view s = [[slash] \<mapsto> (e, [])]" "fresh_heap s"
  shows "root_first s" "no_dev s" "slots_free s 3" "room s 36"
proof -
  obtain d where h: "room s 36" "fs_EntryV s = (\<lambda>_. 0)(0 := d)" using assms(3) by (auto simp: fresh_heap_def)
  have "fs_view s [slash] = Some (e, [])" using assms(2) by simp
  then obtain i where i: "in_use s i" "name (ent_at s i) = [slash]" by (auto simp: fs_view_Some [OF assms(1)])
  then have "i = 0" using h(2) by (auto simp: in_use_def split: if_splits)
  with i show "root_first s" by (simp add: root_first_def)
  show "no_dev s" using assms(2) by (auto simp: no_dev_def cstr_def split: if_splits)
  have "card {1, 2, 3 :: nat} \<le> card {i. i < FS_MAX_ENTCOUNT \<and> fs_EntryV s i = 0}" by (rule card_mono) (auto simp: h(2))
  then show "slots_free s 3" by (simp add: slots_free_def)
  show "room s 36" by (rule h(1))
qed

text \<open>The device files are made, and are empty queues.\<close>

lemma devices_come_up:
  fixes s :: "'a multi_scheme"
  assumes "task_inv s" "\<forall>j. pstack s j = None" "fs_view s = [[slash] \<mapsto> (e, [])]" "fresh_heap s" "42 \<le> memory_BlockC s"
    "0 < zero_at lk" "zero_at lk + 4096 \<le> memory_Space s" "mread (mem s) (zero_at lk) 4096 = replicate 4096 0"
  obtains s' where "make_devices lk s = Inr s'" "fs_fields_only s s'" "task_inv s'" "\<forall>j. pstack s' j = None" "room s' 41" "42 \<le> memory_BlockC s'"
    "dom (fs_view s') = {cstr ''/'', cstr ''/dev/'', cstr ''/dev/keyboard'', cstr ''/dev/mouse''}"
    "device_holds s' (cstr ''/dev/keyboard'') []" "device_holds s' (cstr ''/dev/mouse'') []"
proof -
  let ?d = "cstr ''/dev/''" and ?k = "cstr ''/dev/keyboard''" and ?m = "cstr ''/dev/mouse''"
  note i = task_invD(3) [OF assms(1)]
  note ff = fresh_files [OF i assms(3,4)]
  have "36 + 5 \<le> memory_BlockC s" using assms(5) by simp
  then obtain s' d e1 e2 where m: "make_devices lk s = Inr s'" "fs_inv s'" "device_file ?k e1" "device_file ?m e2"
    "fs_view s' = (fs_view s)(?d \<mapsto> (d, []), ?k \<mapsto> (e1, mread (mem s) (zero_at lk) 4096), ?m \<mapsto> (e2, mread (mem s) (zero_at lk) 4096))"
    "room s' (36 + 5)" "memory_BlockC s' = memory_BlockC s" "root_first s'"
    using make_devices_files [OF i ff(2) assms(6,7) ff(4) _ ff(3)] ff(1) by blast
  note f = make_devices_frame [OF m(1)] note t = fs_fields_task [OF f assms(1,2) m(2)]
  have q: "?k \<noteq> [slash]" "?m \<noteq> [slash]" "?k \<noteq> ?m" by (simp_all add: cstr_def)
  have g: "fs_view s' = [[slash] \<mapsto> (e, []), ?d \<mapsto> (d, []), ?k \<mapsto> (e1, replicate 4096 0), ?m \<mapsto> (e2, replicate 4096 0)]"
    unfolding m(5) assms(8) assms(3) ..
  have w: "fs_view s' ?k = Some (e1, replicate 4096 0)" "fs_view s' ?m = Some (e2, replicate 4096 0)"
    using q unfolding g by (simp_all only: fun_upd_apply if_True if_False simp_thms)
  have "dom (fs_view s') = {cstr ''/'', ?d, ?k, ?m}" unfolding g by (auto simp: cstr_def)
  moreover have "device_holds s' ?k []" "device_holds s' ?m []"
    by (rule zero_device [OF m(2,8) w(1) m(3) q(1)], rule zero_device [OF m(2,8) w(2) m(4) q(2)])
  ultimately show thesis using that m(1,6,7) f t assms(2,5) by simp
qed

text \<open>\<open>kernel_main\<close> on the machine as the core leaves it.\<close>

lemma kernel_main_runs:
  fixes s :: "'a kern_scheme"
  assumes "task_inv s" "\<forall>j. pstack s j = None" "fs_view s = [[slash] \<mapsto> (e, [])]" "fresh_heap s" "42 \<le> memory_BlockC s"
    "0 < zero_at lk" "zero_at lk + 4096 \<le> memory_Space s" "mread (mem s) (zero_at lk) 4096 = replicate 4096 0"
    "kernel_OSModuleSize s = 0" "idle_at lk \<noteq> 0"
  shows "\<exists>s'. kernel_main lk s = Inr s' \<and> up lk s' \<and> iocall_Initialized s' = iocall_Initialized s \<and>
    iocall_ForceAccess s' = iocall_ForceAccess s \<and> i8042_InitLock s' = i8042_InitLock s"
proof -
  obtain x where x: "putchar 10 (puts (cstr ''Welcome!'' @ [10]) s) = s\<lparr>tty := x\<rparr>"
    using puts_extends [of "(cstr ''Welcome!'' @ [10]) @ [10]" s] by (auto simp: puts_append)
  have mnt: "mount_module lk (s\<lparr>tty := x\<rparr>) = Inr (s\<lparr>tty := x\<rparr>)" using assms(9) by (simp add: mount_module_def)
  have i1: "fs_inv (s\<lparr>tty := x\<rparr>)" by (simp add: task_invD(3) [OF assms(1)])
  obtain s1 where l: "list_root (s\<lparr>tty := x\<rparr>) = Inr s1" "edge_only (s\<lparr>tty := x\<rparr>) s1" "i8042_InitLock s1 = i8042_InitLock (s\<lparr>tty := x\<rparr>)"
    by (rule list_root_only [OF i1])
  have e1: "edge_only s s1" by (rule edge_only_trans [OF edge_only_single(1) l(2)])
  note k = edge_only_keeps [OF e1]
  have h1: "task_inv s1" "\<forall>j. pstack s1 j = None" "fs_view s1 = [[slash] \<mapsto> (e, [])]" "fresh_heap s1" "42 \<le> memory_BlockC s1"
    "zero_at lk + 4096 \<le> memory_Space s1" "mread (mem s1) (zero_at lk) 4096 = replicate 4096 0"
    using edge_only_inv(2) [OF e1 assms(1)] assms(2-5,7,8) by (simp_all add: k fresh_heap_def)
  obtain s2 where m: "make_devices lk s1 = Inr s2" "fs_fields_only s1 s2" "task_inv s2" "\<forall>j. pstack s2 j = None" "room s2 41" "42 \<le> memory_BlockC s2"
    "dom (fs_view s2) = {cstr ''/'', cstr ''/dev/'', cstr ''/dev/keyboard'', cstr ''/dev/mouse''}"
    "device_holds s2 (cstr ''/dev/keyboard'') []" "device_holds s2 (cstr ''/dev/mouse'') []"
    by (rule devices_come_up [OF h1(1-5) assms(6) h1(6,7)])
  have "cstr ''/system/test.elf'' \<notin> dom (fs_view s2)" unfolding m(7) by (simp add: cstr_def)
  then have n: "fs_view s2 (cstr ''/system/test.elf'') = None" by blast
  have b: "41 + 1 \<le> memory_BlockC s2" using m(6) by simp
  obtain s3 st V P where r: "start_processes lk s2 = Inr s3" "task_inv s3" "pstack s3 = [1 \<mapsto> st]"
    "EIP (regs (multitask_ProcV s3 ! 1)) = idle_at lk" "s3 = s2\<lparr>memory_BlockV := V, multitask_ProcV := P\<rparr>"
    using start_processes_runs [OF m(3,4,5) b assms(10) n] by blast
  have "device_holds s3 = device_holds s2" "fs_view s3 = fs_view s2" by (rule device_holds_cong fs_view_cong; simp add: r(5))+
  moreover have "\<exists>st. pstack s3 = [1 \<mapsto> st]" using r(3) by blast
  ultimately have "up lk s3" using r(2,4) m(7-9) unfolding up_def by simp
  moreover have "kernel_main lk s = Inr s3" using mnt l(1) m(1) r(1) by (simp add: kernel_main_def x)
  moreover have "iocall_Initialized s3 = iocall_Initialized s" "iocall_ForceAccess s3 = iocall_ForceAccess s" "i8042_InitLock s3 = i8042_InitLock s"
    using m(2) k(10,11) l(3) by (auto simp: r(5) fs_fields_only_def)
  ultimately show ?thesis by blast
qed

section \<open>The whole boot\<close>

text \<open>What the linker promises: the kernel above the first megabyte, stubs and code that are not null, and the static
  buffer of zeros below the end of the kernel.\<close>

definition linked :: "link_map \<Rightarrow> mem \<Rightarrow> bool" where
  "linked lk m \<longleftrightarrow> kernel_Base lk \<le> kernel_Limit lk \<and> kernel_Limit lk < 2 ^ 32 \<and> 0x100007 \<le> kernel_Limit lk \<and>
     default_stub lk \<noteq> 0 \<and> (\<forall>i<32. exception_stub lk i \<noteq> 0) \<and> syscall_stub lk \<noteq> 0 \<and> yield_stub lk \<noteq> 0 \<and> idle_at lk \<noteq> 0 \<and>
     0 < zero_at lk \<and> zero_at lk + 4096 \<le> kernel_Limit lk \<and> mread m (zero_at lk) 4096 = replicate 4096 0"

text \<open>A bootloader that loaded no module and left \<open>fieldSize\<close> bytes at the kernel, 42 blocks of them for the heap.\<close>

definition loaded :: "link_map \<Rightarrow> addr \<Rightarrow> nat \<Rightarrow> nat \<Rightarrow> mem \<Rightarrow> bool" where
  "loaded lk info magic fieldSize m \<longleftrightarrow> magic = MULTIBOOT_BOOTLOADER_MAGIC \<and> bit (boot_field m info ''flags'') 6 \<and>
     boot_field m info ''mods_count'' = 0 \<and> find_field lk info m = fieldSize \<and>
     kernel_Limit lk - kernel_Base lk + 176472 \<le> fieldSize \<and> kernel_Base lk + fieldSize < 2 ^ 32"

lemma rsdp_search_cong: "\<forall>a < 0x100007. m' a = m a \<Longrightarrow> rsdp_search m' = rsdp_search m"
proof -
  assume m: "\<forall>a < 0x100007. m' a = m a"
  have "sig m' i c = sig m i c" if "i < 0xFFFFF" "length (cstr c) \<le> 8" for i c
  proof -
    have "mread m' i (length c) = mread m i (length c)" by (rule mread_cong) (use that m in \<open>auto simp: cstr_def\<close>)
    then show ?thesis by (simp add: sig_def)
  qed
  then show ?thesis unfolding rsdp_search_def by (intro scan_cong refl) (simp_all add: cstr_def)
qed

text \<open>The start of the core on a machine without a module.\<close>

lemma core_comes_up:
  fixes s :: "'a kern_scheme"
  assumes "cold s" "hardware_off s" "linked lk (mem s)" "kernel_PhysicalSize s = kernel_Limit lk - kernel_Base lk" "kernel_OSModuleSize s = 0"
    "kernel_Limit lk - kernel_Base lk + 176472 \<le> fieldSize" "kernel_Base lk + fieldSize < 2 ^ 32"
  obtains s' e where "start_core lk fieldSize s = Inr s'" "task_inv s'" "\<forall>j. pstack s' j = None" "fs_view s' = [[slash] \<mapsto> (e, [])]"
    "fresh_heap s'" "42 \<le> memory_BlockC s'" "above s' = above s" "kernel_Limit lk \<le> memory_Space s'" "\<forall>a < kernel_Limit lk. mem s' a = mem s a"
proof -
  note l = assms(3) [unfolded linked_def]
  have c: "kernel_PhysicalSize s + kernel_OSModuleSize s + 151848 \<le> fieldSize" "kernel_Limit lk + fieldSize < 4294967296 + kernel_PhysicalSize s"
    "fieldSize < 4294967296" using assms(4-7) l by auto
  obtain s' where r: "start_core lk fieldSize s = Inr s'" "booted lk s'" "kernel_Limit lk + kernel_OSModuleSize s \<le> memory_Space s'"
    "\<forall>a < memory_Space s'. mem s' a = mem s a" "fresh_heap s'" "above s' = above s"
    "memory_BlockC s' = (fieldSize - (kernel_PhysicalSize s + kernel_OSModuleSize s)) div 4104 - 1"
    using start_core_boots_with [OF assms(1) c] l by blast
  have "176472 \<le> fieldSize - (kernel_PhysicalSize s + kernel_OSModuleSize s)" using assms(4-6) by simp
  then have "43 \<le> (fieldSize - (kernel_PhysicalSize s + kernel_OSModuleSize s)) div 4104" by (simp add: less_eq_div_iff_mult_less_eq)
  then have "42 \<le> memory_BlockC s'" unfolding r(7) by linarith
  moreover have "\<forall>a < kernel_Limit lk. mem s' a = mem s a" "kernel_Limit lk \<le> memory_Space s'" using r(3,4) assms(5) by simp_all
  ultimately show thesis using r that unfolding booted_def by blast
qed

text \<open>The state after the core has started.\<close>

definition core_up :: "link_map \<Rightarrow> 'a kern_scheme \<Rightarrow> bool" where
  "core_up lk s \<longleftrightarrow> task_inv s \<and> (\<forall>j. pstack s j = None) \<and> (\<exists>e. fs_view s = [[slash] \<mapsto> (e, [])]) \<and> fresh_heap s \<and>
     42 \<le> memory_BlockC s \<and> zero_at lk + 4096 \<le> memory_Space s \<and> mread (mem s) (zero_at lk) 4096 = replicate 4096 0 \<and>
     kernel_OSModuleSize s = 0 \<and> \<not> iocall_Initialized s \<and> \<not> iocall_ForceAccess s"

text \<open>From the hardware on.\<close>

definition finish :: "('a kern_scheme \<Rightarrow> 'a kern_scheme res) \<Rightarrow> link_map \<Rightarrow> devbus_BAR_t \<Rightarrow> devbus_Device_t \<Rightarrow> 'a kern_scheme \<Rightarrow> 'a kern_scheme res" where
  "finish others lk bar dev s = bindR (start_hardware others bar dev s) (\<lambda>s1.
     bindR (printf (cstr ''Deputy the kernel: build %d, booted successfully.'' @ [10]) [W 32] (putchar 10 s1)) (kernel_main lk))"

lemma kernel_init_core:
  fixes s :: "'a kern_scheme"
  assumes "cold s" "hardware_off s" "\<not> iocall_Initialized s" "\<not> iocall_ForceAccess s"
    and "linked lk (mem s)" "loaded lk info magic fieldSize (mem s)" "\<not> multitask_InStream s"
  obtains (hangs) "stable_tsc cpuid" "\<not> two_naps s" "kernel_init others lk cpuid bar dev info magic s = Inl Diverges"
  | (starts) s' where "stable_tsc cpuid \<longrightarrow> two_naps s" "kernel_init others lk cpuid bar dev info magic s = finish others lk bar dev s'" "core_up lk s'" "hardware_off s'" "pio s' = pio s"
    "\<forall>a < kernel_Limit lk. mem s' a = mem s a"
proof -
  note l = assms(5) [unfolded linked_def] and b = assms(6) [unfolded loaded_def]
  define s1 where "s1 = s\<lparr>kernel_PhysicalSize := sub32 (kernel_Limit lk) (kernel_Base lk),
      kernel_MemorySize := wrap32 (wrap32 (boot_field (mem s) info ''mem_lower'' * 1024) + wrap32 (boot_field (mem s) info ''mem_upper'' * 1024))\<rparr>"
  have n1: "two_naps s1 = two_naps s" "\<not> multitask_InStream s1"
    using naps_cong [of s1 s] assms(7) by (simp_all add: two_naps_eq s1_def)
  have go: "kernel_init others lk cpuid bar dev info magic s = bindR (detect_cpu others cpuid s1)
      (\<lambda>s2. let fieldSize = find_field lk info (mem s2)
             in if fieldSize = 0 then Inl (Panic ''Kernel field not found'')
                else bindR (load_module lk info fieldSize s2) (\<lambda>s3. bindR (start_core lk fieldSize s3) (finish others lk bar dev)))"
  proof -
    have fin: "finish others lk bar dev = (\<lambda>s4. bindR (start_hardware others bar dev s4) (\<lambda>s5.
        bindR (printf (cstr ''Deputy the kernel: build %d, booted successfully.'' @ [10]) [W 32] (putchar 10 s5)) (kernel_main lk)))"
      by (rule ext) (simp only: finish_def)
    show ?thesis using b unfolding fin by (simp add: kernel_init_def s1_def)
  qed
  show thesis
  proof (cases rule: detect_cpu_ends [OF n1(2), of cpuid others])
    case 1
    then show thesis using hangs n1(1) go by simp
  next
    case d: (2 c t k j)
    define s2 where "s2 = s1\<lparr>kernel_CPUInfo := c, tty := t, ticks := k, tsc_pos := j\<rparr>"
    have m2: "mem s2 = mem s" by (simp add: s2_def s1_def)
    then obtain u where md: "load_module lk info fieldSize s2 = Inr (s2\<lparr>kernel_OSModuleSize := 0, tty := u\<rparr>)"
      using load_module_none [of s2 info lk fieldSize] b by auto
    define s3 where "s3 = s2\<lparr>kernel_OSModuleSize := 0, tty := u\<rparr>"
    have ph: "sub32 (kernel_Limit lk) (kernel_Base lk) = kernel_Limit lk - kernel_Base lk" using l by (simp add: sub32_small)
    have f3: "cold s3" "hardware_off s3" "linked lk (mem s3)" "kernel_PhysicalSize s3 = kernel_Limit lk - kernel_Base lk" "kernel_OSModuleSize s3 = 0"
      "\<not> iocall_Initialized s3" "\<not> iocall_ForceAccess s3" "mem s3 = mem s" "pio s3 = pio s"
      using assms(1-5) by (simp_all add: s3_def s2_def s1_def cold_def hardware_off_def ph)
    obtain s4 e where r: "start_core lk fieldSize s3 = Inr s4" "task_inv s4" "\<forall>j. pstack s4 j = None" "fs_view s4 = [[slash] \<mapsto> (e, [])]"
      "fresh_heap s4" "42 \<le> memory_BlockC s4" "above s4 = above s3" "kernel_Limit lk \<le> memory_Space s4" "\<forall>a < kernel_Limit lk. mem s4 a = mem s3 a"
      by (rule core_comes_up [OF f3(1-5), of fieldSize]) (use b in auto)
    have a4: "hardware_off s4" "\<not> iocall_Initialized s4" "\<not> iocall_ForceAccess s4" "pio s4 = pio s" "kernel_OSModuleSize s4 = 0"
      using r(7) f3 by (simp_all add: above_def hardware_off_def)
    have "mread (mem s4) (zero_at lk) 4096 = replicate 4096 0"
      using mread_cong [of 4096 "mem s4" "zero_at lk" "mem s"] l r(9) f3(8) by simp
    then have "core_up lk s4" using r(2-6,8) a4 l unfolding core_up_def by auto
    moreover have "kernel_init others lk cpuid bar dev info magic s = finish others lk bar dev s4"
      unfolding go d(2) bindR_Inr s2_def [symmetric] using b md r(1) by (simp add: m2 s3_def [symmetric])
    ultimately show thesis using starts n1(1) d(1) a4(1,4) r(9) f3(8) by simp
  qed
qed

lemma kernel_main_after:
  fixes s s1 :: "'a kern_scheme"
  assumes "core_up lk s" "linked lk m" "edge_only s s1" "i8042_InitLock s1"
  shows "\<exists>s'. bindR (printf (cstr ''Deputy the kernel: build %d, booted successfully.'' @ [10]) [W 32] (putchar 10 s1)) (kernel_main lk) = Inr s' \<and>
    up lk s' \<and> i8042_InitLock s' \<and> \<not> iocall_Initialized s' \<and> \<not> iocall_ForceAccess s'"
proof -
  obtain x where x: "printf (cstr ''Deputy the kernel: build %d, booted successfully.'' @ [10]) [W 32] (putchar 10 s1) = Inr (s1\<lparr>tty := x\<rparr>)"
    using message_accepts [of "cstr ''Deputy the kernel: build %d, booted successfully.'' @ [10]" "[W 32]" "putchar 10 s1"]
    by (auto simp: cstr_def putchar_def)
  define t where "t = s1\<lparr>tty := x\<rparr>"
  have e: "edge_only s t" unfolding t_def by (rule edge_only_trans [OF assms(3)]) simp
  note k = edge_only_keeps [OF e] and l = assms(2) [unfolded linked_def]
  obtain r where c: "task_inv s" "\<forall>j. pstack s j = None" "fs_view s = [[slash] \<mapsto> (r, [])]" "fresh_heap s" "42 \<le> memory_BlockC s"
    "zero_at lk + 4096 \<le> memory_Space s" "mread (mem s) (zero_at lk) 4096 = replicate 4096 0" "kernel_OSModuleSize s = 0"
    "\<not> iocall_Initialized s" "\<not> iocall_ForceAccess s" using assms(1) unfolding core_up_def by blast
  have "\<exists>s'. kernel_main lk t = Inr s' \<and> up lk s' \<and> iocall_Initialized s' = iocall_Initialized t \<and>
      iocall_ForceAccess s' = iocall_ForceAccess t \<and> i8042_InitLock s' = i8042_InitLock t"
    using edge_only_inv(2) [OF e c(1)] c(2-8) l by (intro kernel_main_runs [where e = r]) (simp_all add: k fresh_heap_def)
  moreover have "i8042_InitLock t" using assms(4) by (simp add: t_def)
  ultimately show ?thesis using c(9,10) unfolding x t_def [symmetric] bindR_Inr by (auto simp: k)
qed

text \<open>C1.
  From the bootloader to the main loop, before any process runs, on a cold machine with these properties: the memory map gives the kernel a
  region for at least 42 blocks of heap; there is no module and no ACPI root pointer; the bus answers at the two ports and has
  no USB controller. Then \<open>kernel_init\<close> returns with the idle process running, exactly the root, \<open>/dev/\<close> and the two
  device files in the file system, both devices empty queues, the descriptors untouched and the PS/2 driver started, which
  is what the theorems about input assume; or it stops at the read outside the error log of the PS/2 driver; or, only with a
  stable time stamp counter, it hangs in one of the two calls of \<open>sleep(1)\<close> that time it, when the clock never shows a
  later second of the month. If those calls return and the PS/2 controller never has output, it returns.\<close>

theorem kernel_comes_up:
  fixes s :: "'a kern_scheme"
  assumes "cold s" "hardware_off s" "\<not> iocall_Initialized s" "\<not> iocall_ForceAccess s"
    and "linked lk (mem s)" "loaded lk info magic fieldSize (mem s)" "\<not> multitask_InStream s"
    and "rsdp_search (mem s) = None" "pci_bus cfg (pio s)" "cfg 0 0 0 0 \<noteq> -1" "no_usb cfg"
  shows "(case kernel_init others lk cpuid bar dev info magic s of
       Inl e \<Rightarrow> e = OutOfBounds \<or> e = Diverges \<and> stable_tsc cpuid \<and> \<not> two_naps s
     | Inr s' \<Rightarrow> up lk s' \<and> i8042_InitLock s' \<and> \<not> iocall_Initialized s' \<and> \<not> iocall_ForceAccess s') \<and>
    (kbc_silent (pio s) \<and> (stable_tsc cpuid \<longrightarrow> two_naps s) \<longrightarrow>
       (\<exists>s'. kernel_init others lk cpuid bar dev info magic s = Inr s'))"
proof (cases rule: kernel_init_core [where cpuid = cpuid, OF assms(1-7), of others bar dev])
  case 1
  then show ?thesis by simp
next
  case k: (2 s4)
  have "0x100007 \<le> kernel_Limit lk" using assms(5) by (simp add: linked_def)
  then have "rsdp_search (mem s4) = None" using rsdp_search_cong [of "mem s4" "mem s"] k(6) assms(8) by simp
  note hw = start_hardware_quiet [OF k(4) this, unfolded k(5), OF assms(9-11), of others bar dev]
  show ?thesis
  proof (cases "start_hardware others bar dev s4")
    case (Inl e)
    then show ?thesis using hw unfolding k(2) finish_def by auto
  next
    case (Inr s5)
    then have "edge_only s4 s5" "i8042_InitLock s5" using hw(1) by simp_all
    from kernel_main_after [OF k(3) assms(5) this] show ?thesis unfolding k(2) finish_def Inr bindR_Inr by auto
  qed
qed

section \<open>A machine\<close>

text \<open>One region of two megabytes at the kernel, the host bridge alone on the bus, a controller without output.\<close>

definition bridge_only :: "u8 \<Rightarrow> u8 \<Rightarrow> u8 \<Rightarrow> u8 \<Rightarrow> u32" where
  "bridge_only b sl f r = (if b = 0 \<and> sl = 0 \<and> f = 0 then if r = 0 then 0x12378086 else if r = 2 then 0x06000000 else 0 else 0xFFFFFFFF)"

definition boot_demo :: kern where
  "boot_demo = kern_demo
     \<lparr>mem := mwrite (mwrite (mwrite (\<lambda>_. 0) 0x6000 [0x40]) 0x602C [24, 0, 0, 0, 0, 0x50, 0, 0])
        0x5000 [20, 0, 0, 0, 0, 0, 0x10, 0, 0, 0, 0, 0, 0, 0, 0x20, 0, 0, 0, 0, 0, 1, 0, 0, 0],
      iocall_Initialized := False, iocall_ForceAccess := False, acpi_InitLock := False, devbus_InitLock := False, devbus_PCIeBase := 0,
      i8042_InitLock := False,
      pio := \<lparr>device = \<lambda>log w p. if p = 0xCFC then (case last log of POut _ _ a \<Rightarrow> pci_answer bridge_only a | _ \<Rightarrow> 0) else 0, io_log = []\<rparr>\<rparr>"

lemma boot_demo_mem: "mem boot_demo = mwrite (mwrite (mwrite (\<lambda>_. 0) 0x6000 [0x40]) 0x602C [24, 0, 0, 0, 0, 0x50, 0, 0])
        0x5000 [20, 0, 0, 0, 0, 0, 0x10, 0, 0, 0, 0, 0, 0, 0, 0x20, 0, 0, 0, 0, 0, 1, 0, 0, 0]"
  by (simp add: boot_demo_def)

lemma boot_demo_loaded: "loaded lk_demo 0x6000 0x2BADB002 0x200000 (mem boot_demo)"
proof -
  have o: "offset_of multiboot_info ''flags'' = 0" "offset_of multiboot_info ''mods_count'' = 20"
    "offset_of multiboot_info ''mmap_length'' = 44" "offset_of multiboot_info ''mmap_addr'' = 48"
    by (simp_all add: offset_of_def multiboot_info_def align_up_def size_of_def multiboot_aout_symbol_table_def multiboot_elf_section_header_table_def)
  have e: "offset_of multiboot_mmap_entry ''type'' = 20" "offset_of multiboot_mmap_entry ''addr'' = 4" "offset_of multiboot_mmap_entry ''len'' = 12"
    "size_of multiboot_mmap_entry = 24"
    by (simp_all add: offset_of_def size_of_def multiboot_mmap_entry_def packed_def align_up_def)
  have f: "boot_field (mem boot_demo) 0x6000 ''flags'' = 64" "boot_field (mem boot_demo) 0x6000 ''mods_count'' = 0"
    "boot_field (mem boot_demo) 0x6000 ''mmap_length'' = 24" "boot_field (mem boot_demo) 0x6000 ''mmap_addr'' = 0x5000"
    by (simp_all add: boot_field_def o boot_demo_mem rd32_def mwrite_def)
  have r: "rd32 (mem boot_demo) 0x5014 = 1" "rd64 (mem boot_demo) 0x5004 = 0x100000" "rd64 (mem boot_demo) 0x500C = 0x200000"
    by (simp_all add: boot_demo_mem rd64_def rd32_def mwrite_def)
  have "find_field lk_demo 0x6000 (mem boot_demo) = 0x200000"
    by (simp add: find_field_def f e r lk_demo_def)
  moreover have "bit (64 :: nat) 6" by (simp add: bit_iff_odd)
  ultimately show ?thesis by (simp add: loaded_def f lk_demo_def)
qed

theorem kernel_comes_up_witness:
  "\<forall>others bar dev. \<exists>s'. kernel_init others lk_demo (\<lambda>_ _. \<lparr>ra = 0, rb = 0, rc = 0, rd = 0\<rparr>) bar dev 0x6000 0x2BADB002 boot_demo = Inr s' \<and> up lk_demo s'"
proof (intro allI)
  fix others bar dev
  have c: "cold boot_demo" "hardware_off boot_demo" "\<not> iocall_Initialized boot_demo" "\<not> iocall_ForceAccess boot_demo"
    by (simp_all add: cold_def hardware_off_def boot_demo_def kern_demo_def)
  have st: "\<not> multitask_InStream boot_demo"
    by (simp add: boot_demo_def kern_demo_def xhci.defs usb_demo_def kbc.defs kbc_demo_def dbus.defs dbus_demo_def acpi.defs acpi_demo_def
      hw.defs hw_demo_def sysc.defs sysc_demo_stream)
  have ex: "exception_stub lk_demo i \<noteq> 0" if "i < 32" for i
  proof -
    have "unat (0x2000 + of_nat i :: u32) = 0x2000 + i" using that by (simp add: unat_word_ariths unat_of_nat)
    then show ?thesis by (auto simp: lk_demo_def)
  qed
  have z: "mread (mem boot_demo) 100 4096 = replicate 4096 0"
    by (rule nth_equalityI) (simp_all add: boot_demo_mem mwrite_def)
  have "linked lk_demo (mem boot_demo)" using ex z by (simp add: linked_def lk_demo_def)
  moreover have "rsdp_search (mem boot_demo) = None"
    unfolding rsdp_search_def scan_None_iff by (auto simp: sig_def boot_demo_mem mread_def mwrite_def cstr_def upt_conv_Cons)
  moreover have "pci_bus bridge_only (pio boot_demo)" "kbc_silent (pio boot_demo)" "bridge_only 0 0 0 0 \<noteq> -1"
    by (simp_all add: pci_bus_def kbc_silent_def boot_demo_def bridge_only_def)
  moreover have "no_usb bridge_only"
    by (auto simp: no_usb_def devices_def device_at_def bridge_only_def Let_def split: if_splits)
  ultimately show "\<exists>s'. kernel_init others lk_demo (\<lambda>_ _. \<lparr>ra = 0, rb = 0, rc = 0, rd = 0\<rparr>) bar dev 0x6000 0x2BADB002 boot_demo = Inr s' \<and> up lk_demo s'"
    using kernel_comes_up [OF c, where lk = lk_demo and info = "0x6000" and magic = "0x2BADB002" and fieldSize = "0x200000" and cfg = bridge_only
        and cpuid = "\<lambda>_ _. \<lparr>ra = 0, rb = 0, rc = 0, rd = 0\<rparr>" and others = others and bar = bar and dev = dev]
      boot_demo_loaded st by (auto simp: stable_tsc_def)
qed

end
