(* ===== verification/SelfTest.thy ===== *)
theory SelfTest
  imports Kernel
begin

text \<open>
  The parts of \<open>kernel.c\<close> that nothing runs: the blocks under \<open>if (false)\<close>, which report on the machine, test the memory
  manager and the file system and list the devices on the bus, and the example tasks. Strings in memory are read up to
  the end of the address space. Of the endless tasks one turn is a definition, up to \<open>yield\<close>, and what they do when they
  are resumed another.
\<close>

section \<open>The tests\<close>

definition text_at :: "mem \<Rightarrow> addr \<Rightarrow> cstring" where
  "text_at m a = str_at m a (4294967296 - a)"

definition say_available :: "'a mm_scheme \<Rightarrow> 'a mm_scheme res" where
  "say_available s = printf (cstr ''Available memory: %dKB'' @ [10]) [W (of_nat (mavail s div 1024))] s"

definition memory_test :: "'a mm_scheme \<Rightarrow> 'a mm_scheme res" where
  "memory_test s =
     bindR (say_available (puts (cstr ''---- Memory Test Started ----'' @ [10]) s)) (\<lambda>s1.
     bindR (malloc (9 * 1024) s1) (\<lambda>(my_data, s2).
       if my_data = 0 then Inl (Panic ''Memory test error: Allocated memory is null'')
       else bindR (printf (cstr ''Allocated a memory block.'' @ [10]) [] s2) (\<lambda>s3.
       bindR (snprintf MEMORY_BLKSIZE (cstr ''Hello, %s!'') [S (cstr ''World'')]) (\<lambda>text.
       let s4 = s3\<lparr>mem := mwrite (mem s3) my_data (text @ [0])\<rparr> in
       bindR (printf (cstr ''Writed data to allocated memory block.'' @ [10]) [] s4) (\<lambda>s5.
       bindR (printf (cstr ''My data: %s'' @ [10]) [S (text_at (mem s5) my_data)] s5) (\<lambda>s6.
       bindR (say_available s6) (\<lambda>s7.
       bindR (Memory.free my_data s7) (\<lambda>s8.
       bindR (printf (cstr ''Allocated memory freed.'' @ [10]) [] s8) (\<lambda>s9.
       bindR (say_available s9) (\<lambda>s10.
       Inr (putchar 10 (puts (cstr ''---- Memory Test Ended ----'' @ [10]) s10))))))))))))"

text \<open>The listing ends at an index of 0, but the list ends in \<open>FS_DIRENTEND\<close>.\<close>

fun show_entries :: "nat \<Rightarrow> nat \<Rightarrow> 'a fs_scheme \<Rightarrow> 'a fs_scheme res" where
  "show_entries i 0 s = Inr s"
| "show_entries i (Suc k) s =
     (if fs_RADirent s i = 0 then Inr s
      else bindR (fs_dirent (fs_RADirent s i) s) (\<lambda>p.
        bindR (if p = 0 then Inr s
               else printf (cstr '' - %s (%d)'' @ [10]) [S (name (fs_ent s p)), W (of_nat (etype (fs_ent s p)))] s)
          (show_entries (Suc i) k)))"

definition say_status :: "string \<Rightarrow> int \<Rightarrow> 'a mm_scheme \<Rightarrow> 'a mm_scheme res" where
  "say_status what sts = printf (cstr what @ cstr '': %d'' @ [10]) [W (of_int sts)]"

text \<open>A call and the line with its status.\<close>

definition tell :: "string \<Rightarrow> ('a fs_scheme \<Rightarrow> (int \<times> 'a fs_scheme) res) \<Rightarrow> 'a fs_scheme \<Rightarrow> 'a fs_scheme res" where
  "tell what call s = bindR (call s) (\<lambda>(sts, s1). say_status what sts s1)"

definition show_file :: "'a fs_scheme \<Rightarrow> 'a fs_scheme res" where
  "show_file s =
     bindR (fs_readFile (cstr ''/home/user/test.txt'') s) (\<lambda>(data, s1).
       if data \<noteq> 0 then printf (cstr ''Read /home/user/test.txt: %s'' @ [10]) [S (text_at (mem s1) data)] s1
       else printf (cstr ''Read /home/user/test.txt: FAILED'' @ [10]) [] s1)"

definition show_dir :: "'a fs_scheme \<Rightarrow> 'a fs_scheme res" where
  "show_dir s =
     (case fs_readDir (cstr ''/home/user/'') s of
        (True, s1) \<Rightarrow> bindR (printf (cstr ''Entries under /home/user/:'' @ [10]) [] s1) (show_entries 0 FS_MAX_ENTCOUNT)
      | (False, s1) \<Rightarrow> printf (cstr ''ReadDir /home/user/: FAILED'' @ [10]) [] s1)"

definition show_removed :: "'a fs_scheme \<Rightarrow> 'a fs_scheme res" where
  "show_removed s =
     bindR (fs_readFile (cstr ''/home/user/test.txt'') s) (\<lambda>(data, s1).
       if data \<noteq> 0 then printf (cstr ''Unexpected Read: %s'' @ [10]) [S (text_at (mem s1) data)] s1
       else printf (cstr ''Read deleted file: Correctly failed'' @ [10]) [] s1)"

text \<open>\<open>content\<close> is the address of the text to write, of which 15 bytes are taken.\<close>

definition fs_test :: "addr \<Rightarrow> 'a fs_scheme \<Rightarrow> 'a fs_scheme res" where
  "fs_test content s =
     bindR (tell ''Create /home/'' (fs_createDir (cstr ''/home/'')) (puts (cstr ''---- File system test started ----'' @ [10]) s)) (\<lambda>s1.
     bindR (tell ''Create /home/user/'' (fs_createDir (cstr ''/home/user/'')) s1) (\<lambda>s2.
     bindR (tell ''Write /home/user/test.txt'' (fs_writeFile (cstr ''/home/user/test.txt'') 15 content) s2) (\<lambda>s3.
     bindR (show_file s3) (\<lambda>s4.
     bindR (show_dir s4) (\<lambda>s5.
     bindR (tell ''Remove /home/user/test.txt'' (fs_remove (cstr ''/home/user/test.txt'')) s5) (\<lambda>s6.
     bindR (show_removed s6) (\<lambda>s7.
     bindR (tell ''Try remove /home/'' (fs_remove (cstr ''/home/'')) s7) (\<lambda>s8.
     bindR (tell ''Remove /home/user/'' (fs_remove (cstr ''/home/user/'')) s8) (\<lambda>s9.
     bindR (tell ''Remove /home/'' (fs_remove (cstr ''/home/'')) s9) (\<lambda>s10.
     bindR (tell ''Remove root (/)'' (fs_remove (cstr ''/'')) s10) (\<lambda>s11.
     Inr (putchar 10 (puts (cstr ''---- File system test ended ----'' @ [10]) s11)))))))))))))"

text \<open>The variable \<open>devinfo\<close> keeps its value when \<open>devbus_get\<close> leaves it alone.\<close>

definition show_device :: "u8 \<times> u8 \<times> u8 \<Rightarrow> devbus_Device_t \<times> 'a dbus_scheme \<Rightarrow> (devbus_Device_t \<times> 'a dbus_scheme) res" where
  "show_device at = (\<lambda>(devinfo, s).
     case at of (b, sl, f) \<Rightarrow>
       (case devbus_get (Some devinfo) b sl f s of
          (None, s1) \<Rightarrow> Inr (devinfo, s1)
        | (Some d, s1) \<Rightarrow>
            if vendor d \<noteq> 0xFFFF
            then bindR (printf (cstr ''0x%x'' @ [9] @ cstr ''0x%x'' @ [9] @ cstr ''0x%x'' @ [9] @ cstr ''0x%x'' @ [9] @ cstr ''0x%x'' @ [9] @ cstr ''0x%x'' @ [10])
                [W (ucast (vendor d)), W (ucast (dev_id d)), W (ucast (revision d)), W (ucast (iface d)), W (ucast (sub_class d)), W (ucast (dclass d))] s1)
              (\<lambda>s2. Inr (d, s2))
            else Inr (d, s1)))"

definition pci_list :: "devbus_Device_t \<Rightarrow> 'a dbus_scheme \<Rightarrow> (devbus_Device_t \<times> 'a dbus_scheme) res" where
  "pci_list devinfo s =
     bindR (printf (cstr ''PCI/PCIe Device list:'' @ [10]) [] s) (\<lambda>s1.
     bindR (printf (cstr ''VENDOR'' @ [9] @ cstr ''DEVICE'' @ [9] @ cstr ''REV'' @ [9] @ cstr ''IF'' @ [9] @ cstr ''SUBC'' @ [9] @ cstr ''CLASS'' @ [10]) [] s1) (\<lambda>s2.
     run_all show_device (map (\<lambda>(b, sl, f). (of_nat b, of_nat sl, of_nat f)) all_functions) (devinfo, s2)))"

section \<open>The report\<close>

definition say_unit :: "string \<Rightarrow> nat \<Rightarrow> 'a mm_scheme \<Rightarrow> 'a mm_scheme res" where
  "say_unit what n s = bindR (unit_str n) (\<lambda>u. printf (cstr what @ cstr '': %s'' @ [10]) [S u] s)"

definition yes_no :: "u32 \<Rightarrow> vararg" where
  "yes_no flag = S (if flag \<noteq> 0 then cstr ''Yes'' else cstr ''No'')"

definition say_time :: "'a mm_scheme \<Rightarrow> 'a mm_scheme res" where
  "say_time s =
     (let (d, s1) = date s
      in printf (cstr ''Time and date: %d:%d:%d %d/%d/%d'' @ [10])
           [W (ucast (hour d)), W (ucast (mins d)), W (ucast (sec d)), W (ucast (day d)), W (ucast (mon d)), W (ucast (year d))] s1)"

definition say_cpu :: "'a hw_scheme \<Rightarrow> 'a hw_scheme res" where
  "say_cpu s =
     (let i = kernel_CPUInfo s in
      bindR (printf (cstr ''CPU Information:'' @ [10]) [] s) (\<lambda>s1.
      bindR (printf ([9] @ cstr ''Vendor: %s'' @ [10]) [S (vendor_name i)] s1) (\<lambda>s2.
      bindR (printf ([9] @ cstr ''Brand: %s'' @ [10]) [S (brand i)] s2) (\<lambda>s3.
      bindR (printf ([9] @ cstr ''Cores'' @ [9] @ cstr ''Threads'' @ [9] @ cstr ''SSE'' @ [9] @ cstr ''AVX'' @ [9] @ cstr ''VT-x'' @ [9] @
          cstr ''AES'' @ [9] @ cstr ''x64'' @ [10]) [] s3) (\<lambda>s4.
      printf ([9] @ cstr ''%d'' @ [9] @ cstr ''%d'' @ concat (replicate 5 ([9] @ cstr ''%s'')) @ [10])
        [W (cores i), W (threads i), yes_no (has_sse i), yes_no (has_avx i), yes_no (has_vtx i), yes_no (has_aes i), yes_no (has_x64 i)] s4)))))"

definition print_info :: "nat \<Rightarrow> 'a kern_scheme \<Rightarrow> 'a kern_scheme res" where
  "print_info fieldSize s =
     bindR (say_unit ''Kernel size'' (kernel_PhysicalSize s) (putchar 10 s)) (\<lambda>s1.
     bindR (say_unit ''Memory size'' (kernel_MemorySize s1) s1) (\<lambda>s2.
     bindR (say_unit ''Field size'' fieldSize s2) (\<lambda>s3.
     bindR (say_unit ''Free memory'' (mavail s3) s3) (\<lambda>s4.
     bindR (say_time s4) say_cpu))))"

section \<open>Example tasks\<close>

definition test_task :: "'a multi_scheme \<Rightarrow> 'a multi_scheme res" where
  "test_task s = bindR (printf (cstr ''Merhaba, dunya!'' @ [10]) [] s) exit_proc"

definition example_turn :: "('a hw_scheme \<Rightarrow> 'a hw_scheme res) \<Rightarrow> string \<Rightarrow> nat \<Rightarrow> 'a hw_scheme \<Rightarrow> 'a hw_scheme res" where
  "example_turn others text secs s = bindR (printf (cstr text @ [10]) [] s) (\<lambda>s1. bindR (sleep_secs others secs s1) yield)"

definition example_resumed :: "nat \<Rightarrow> 'a mm_scheme \<Rightarrow> 'a mm_scheme res" where
  "example_resumed n = printf (cstr ''Returned to example task '' @ itoa (int n) @ [10]) []"

definition test1 :: "('a hw_scheme \<Rightarrow> 'a hw_scheme res) \<Rightarrow> 'a hw_scheme \<Rightarrow> 'a hw_scheme res" where "test1 others = example_turn others ''Example task 1 running...'' 1"
definition test2 :: "('a hw_scheme \<Rightarrow> 'a hw_scheme res) \<Rightarrow> 'a hw_scheme \<Rightarrow> 'a hw_scheme res" where "test2 others = example_turn others ''Example task 2 working...'' 5"
definition test3 :: "('a hw_scheme \<Rightarrow> 'a hw_scheme res) \<Rightarrow> 'a hw_scheme \<Rightarrow> 'a hw_scheme res" where "test3 others = example_turn others ''Example task 3 in focus...'' 10"

section \<open>Properties\<close>

lemma printf_says:
  assumes "render f args = Inr out" "printable f" "is_cstr out"
  shows "printf f args s = Inr (s\<lparr>tty := tty s @ out\<rparr>)"
proof -
  have "filter (\<lambda>c. c \<noteq> 0) out = out" using assms(3) by (auto simp: is_cstr_def filter_id_conv)
  then show ?thesis using printf_render [OF assms(1,2), of s] by (simp add: puts_eq)
qed

lemma itoa_cstr: "is_cstr (itoa n)"
  by (auto simp: itoa_def Let_def c_string_def is_cstr_def dest: set_takeWhileD)

definition available :: "nat \<Rightarrow> cstring" where
  "available k = cstr ''Available memory: '' @ itoa (int k) @ cstr ''KB'' @ [10]"

lemma say_available_eq:
  assumes "mavail s < 4294967296"
  shows "say_available s = Inr (s\<lparr>tty := tty s @ available (mavail s div 1024)\<rparr>)"
proof -
  have "mavail s div 1024 < 4194304" using assms by simp
  then have "sint (of_nat (mavail s div 1024) :: u32) = int (mavail s div 1024)"
    by (simp add: signed_of_nat signed_take_bit_int_eq_self)
  then have "render (cstr ''Available memory: %dKB'' @ [10]) [W (of_nat (mavail s div 1024))] = Inr (available (mavail s div 1024))"
    by (simp add: cstr_def render.simps(2) available_def)
  moreover have "is_cstr (available (mavail s div 1024))" using itoa_cstr by (simp add: available_def cstr_def is_cstr_def)
  ultimately show ?thesis unfolding say_available_def by (intro printf_says) (simp_all add: cstr_def)
qed

text \<open>The heap does not look at the text memory or the screen.\<close>

lemma malloc_tty: "malloc n (s\<lparr>tty := t\<rparr>) = bindR (malloc n s) (\<lambda>(p, s'). Inr (p, s'\<lparr>tty := t\<rparr>))"
  by (simp add: malloc_def Let_def bindR_def checkR_def split: sum.split option.split)

lemma free_mem_tty: "Memory.free p (s\<lparr>mem := m, tty := t\<rparr>) = bindR (Memory.free p s) (\<lambda>s'. Inr (s'\<lparr>mem := m, tty := t\<rparr>))"
  by (simp add: Memory.free_def bad_pointer_def Let_def bindR_def checkR_def)

lemma mavail_mem_tty: "mavail (s\<lparr>mem := m\<rparr>) = mavail s" "mavail (s\<lparr>tty := t\<rparr>) = mavail s"
  by (simp_all add: mavail_def)

lemma str_at_text: "is_cstr t \<Longrightarrow> mread m a (Suc (length t)) = t @ [0] \<Longrightarrow> length t < n \<Longrightarrow> str_at m a n = t"
proof (induction t arbitrary: a n)
  case Nil
  then show ?case by (cases n) (simp_all add: mread_Suc)
next
  case (Cons c t)
  then obtain k where "n = Suc k" by (cases n) auto
  then show ?case using Cons.prems Cons.IH [of "Suc a" k] by (simp add: mread_Suc is_cstr_def)
qed

text \<open>The text of the test, \<open>k\<close> kilobytes being free before and \<open>j\<close> during the test.\<close>

definition memory_transcript :: "nat \<Rightarrow> nat \<Rightarrow> cstring" where
  "memory_transcript k j =
     cstr ''---- Memory Test Started ----'' @ [10] @ available k @ cstr ''Allocated a memory block.'' @ [10] @
     cstr ''Writed data to allocated memory block.'' @ [10] @ cstr ''My data: Hello, World!'' @ [10] @ available j @
     cstr ''Allocated memory freed.'' @ [10] @ available k @ cstr ''---- Memory Test Ended ----'' @ [10, 10]"

text \<open>The self-test of the memory manager, on a heap with room for its block: it prints its twelve kilobytes missing while
  it holds the block and back afterwards, reads back the text it formatted into the block, and leaves the machine as it
  was but for the screen and the 14 bytes of that text.\<close>

theorem memory_test_passes:
  assumes "mm_inv s" "fits s 9216" "malloc 9216 s = Inr (p, s')" "p \<noteq> 0"
  shows "memory_test s = Inr (s\<lparr>mem := mwrite (mem s) p (cstr ''Hello, World!'' @ [0]),
    tty := tty s @ memory_transcript (mavail s div 1024) (mavail s div 1024 - 12)\<rparr>)"
proof -
  obtain b where "s' = s\<lparr>memory_BlockV := place (memory_BlockV s) b (nblocks 9216)\<rparr>" using malloc_some [OF assms] by metis
  then have same: "mem s' = mem s" by simp
  note f = free_malloc [OF assms]
  note l = malloc_live [OF assms]
  have av: "mavail s < 4294967296"
  proof -
    have "card {i. i < memory_BlockC s \<and> \<not> allocated (memory_BlockV s ! i)} \<le> card {..<memory_BlockC s}" by (rule card_mono) auto
    then show ?thesis using mavail_eq [OF assms(1)] mm_inv_room [OF assms(1)] by simp
  qed
  have "mavail s' + 12288 = mavail s" using f by (simp add: nblocks_def)
  then have av': "mavail s' < 4294967296" "mavail s' div 1024 = mavail s div 1024 - 12" using av by linarith+
  have p: "p + 9216 \<le> 4294967296"
  proof -
    have "memory_Limit s' < 4294967296" using l(3) by (simp add: mm_inv_def)
    moreover have "live s' p = Some 12288" using l(2) by (simp add: nblocks_def)
    ultimately show ?thesis using live_bounds [OF l(3), of p 12288] by linarith
  qed
  have sn: "snprintf MEMORY_BLKSIZE (cstr ''Hello, %s!'') [S (cstr ''World'')] = Inr (cstr ''Hello, World!'')"
    by (rule trans [OF snprintf_render [of _ _ "cstr ''Hello, World!''"]]) (simp_all add: cstr_def render.simps(2))
  have tx: "text_at (mwrite m p (cstr ''Hello, World!'' @ [0])) p = cstr ''Hello, World!''" for m
    unfolding text_at_def using p by (intro str_at_text) (simp_all add: cstr_def is_cstr_def)
  have plain: "printf (f @ [10]) [] t = Inr (t\<lparr>tty := tty t @ f @ [10]\<rparr>)" if "37 \<notin> set f" "is_cstr f" for f and t :: "'a mm_scheme"
    using that by (intro printf_says render_undirected printable_plain) (simp_all add: is_cstr_def)
  have line: "printf (cstr ''My data: %s'' @ [10]) [S (cstr ''Hello, World!'')] t = Inr (t\<lparr>tty := tty t @ cstr ''My data: Hello, World!'' @ [10]\<rparr>)"
    for t :: "'a mm_scheme" by (rule printf_says) (simp_all add: cstr_def render.simps(2) is_cstr_def)
  have out: "puts (f @ [10]) t = t\<lparr>tty := tty t @ f @ [10]\<rparr>" if "is_cstr f" for f and t :: "'a mm_scheme"
  proof -
    have "filter (\<lambda>c. c \<noteq> 0) f = f" using that by (auto simp: is_cstr_def filter_id_conv)
    then show ?thesis by (simp add: puts_eq)
  qed
  have st: "is_cstr (cstr ''---- Memory Test Started ----'')" "is_cstr (cstr ''---- Memory Test Ended ----'')"
    "is_cstr (cstr ''Allocated a memory block.'')" "37 \<notin> set (cstr ''Allocated a memory block.'')"
    "is_cstr (cstr ''Writed data to allocated memory block.'')" "37 \<notin> set (cstr ''Writed data to allocated memory block.'')"
    "is_cstr (cstr ''Allocated memory freed.'')" "37 \<notin> set (cstr ''Allocated memory freed.'')"
    by (simp_all add: cstr_def is_cstr_def)
  show ?thesis
    using conjunct1 [OF f] av'(2) assms(4) st
    by (simp add: av av'(1) memory_test_def out plain line say_available_eq mavail_mem_tty malloc_tty assms(3) sn tx free_mem_tty putchar_def
        memory_transcript_def same)
qed

text \<open>The heap of four blocks of the memory manager's examples.\<close>

theorem memory_test_passes_witness:
  "\<exists>t. memory_test mm_demo = Inr (mm_demo\<lparr>mem := mwrite (\<lambda>_. 0) 8192 (cstr ''Hello, World!'' @ [0]), tty := t\<rparr>)"
proof -
  have f: "fits mm_demo 9216" by (simp add: fits_def mm_demo_def)
  have n: "nblocks 9216 = 3" by (simp add: nblocks_def)
  have "scan (\<lambda>i. free_run (memory_BlockV mm_demo) i 3) 0 (Suc (memory_BlockC mm_demo - 3)) = Some 0"
    by (rule scan_SomeI) (simp_all add: mm_demo_run)
  then obtain s' where m: "malloc 9216 mm_demo = Inr (8192, s')"
    using malloc_eq [OF mm_demo_inv f] by (simp add: n) (simp add: mm_demo_def)
  from memory_test_passes [OF mm_demo_inv f m] show ?thesis by (simp add: mm_demo_def)
qed

text \<open>The listing of the file system's self-test does not notice the end of the list.\<close>

lemma show_entries_runs_off:
  assumes "fs_InitLock s" "fs_RADirent s i = FS_DIRENTEND"
  shows "show_entries i (Suc k) s = Inl OutOfBounds"
  using assms by (simp add: fs_dirent_def)

text \<open>The report writes on the screen and reads the clock once, nothing more.\<close>

lemma say_unit_prints: "37 \<notin> set (cstr what) \<Longrightarrow> \<exists>t. say_unit what n s = Inr (s\<lparr>tty := t\<rparr>)"
proof -
  assume w: "37 \<notin> set (cstr what)"
  obtain u where u: "unit_str n = Inr u" using unit_str_total by blast
  have "render (f @ g) a = bindR (render g a) (\<lambda>r. Inr (f @ r))" if "37 \<notin> set f" for f g and a :: "vararg list"
    using that by (induction f) (auto simp: render.simps(2) bindR_assoc bindR_def split: sum.split)
  moreover have "printable (f @ g) = printable g" if "37 \<notin> set f" for f g
    using that by (induction f rule: printable.induct) auto
  ultimately have "\<exists>t. printf (cstr what @ cstr '': %s'' @ [10]) [S u] s = Inr (s\<lparr>tty := t\<rparr>)"
    using w by (intro printf_message [where out = "cstr what @ cstr '': '' @ u @ [10]"]) (simp_all add: cstr_def render.simps(2))
  then show ?thesis by (simp add: say_unit_def u)
qed

lemma bind_prints:
  fixes s :: "'a mm_scheme"
  assumes "\<exists>t. m = Inr (s\<lparr>tty := t\<rparr>)" "\<And>t. \<exists>u. f (s\<lparr>tty := t\<rparr>) = Inr (s\<lparr>tty := u\<rparr>)"
  shows "\<exists>u. bindR m f = Inr (s\<lparr>tty := u\<rparr>)"
  using assms by auto

lemma print_info_prints: "\<exists>t. print_info n s = Inr (s\<lparr>ticks := ticks s + 6, tty := t\<rparr>)"
proof -
  have u: "\<exists>t. say_unit ''Kernel size'' k s = Inr (s\<lparr>tty := t\<rparr>)" "\<exists>t. say_unit ''Memory size'' k s = Inr (s\<lparr>tty := t\<rparr>)"
    "\<exists>t. say_unit ''Field size'' k s = Inr (s\<lparr>tty := t\<rparr>)" "\<exists>t. say_unit ''Free memory'' k s = Inr (s\<lparr>tty := t\<rparr>)" for k and s :: "'a kern_scheme"
    by (rule say_unit_prints, simp add: cstr_def)+
  have time: "\<exists>t. say_time s = Inr (s\<lparr>ticks := ticks s + 6, tty := t\<rparr>)" for s :: "'a kern_scheme"
    using message_accepts [of "cstr ''Time and date: %d:%d:%d %d/%d/%d'' @ [10]" _ "snd (date s)"]
    by (simp add: say_time_def date_def cstr_def)
  have pr: "\<exists>u. printf f a (s\<lparr>tty := t\<rparr>) = Inr (s\<lparr>tty := u\<rparr>)" if "accepts f a" "printable f" for f a t and s :: "'a kern_scheme"
    using message_accepts [OF that, of "s\<lparr>tty := t\<rparr>"] by simp
  have cpu: "\<exists>u. say_cpu (s\<lparr>tty := t\<rparr>) = Inr (s\<lparr>tty := u\<rparr>)" for s :: "'a kern_scheme" and t
  proof -
    have five: "replicate 5 x = [x, x, x, x, x]" for x :: cstring by (simp add: numeral_eq_Suc)
    show ?thesis unfolding say_cpu_def Let_def five by (intro bind_prints pr) (simp_all add: cstr_def yes_no_def)
  qed
  let ?k = "kernel_PhysicalSize s" and ?m = "kernel_MemorySize s"
  obtain t1 where 1: "say_unit ''Kernel size'' ?k (putchar 10 s) = Inr (s\<lparr>tty := t1\<rparr>)"
    using u(1) [where s = "putchar 10 s" and k = ?k] by (auto simp: putchar_def)
  obtain t2 where 2: "say_unit ''Memory size'' ?m (s\<lparr>tty := t1\<rparr>) = Inr (s\<lparr>tty := t2\<rparr>)" using u(2) [of ?m "s\<lparr>tty := t1\<rparr>"] by auto
  obtain t3 where 3: "say_unit ''Field size'' n (s\<lparr>tty := t2\<rparr>) = Inr (s\<lparr>tty := t3\<rparr>)" using u(3) [of n "s\<lparr>tty := t2\<rparr>"] by auto
  obtain t4 where 4: "say_unit ''Free memory'' (mavail (s\<lparr>tty := t3\<rparr>)) (s\<lparr>tty := t3\<rparr>) = Inr (s\<lparr>tty := t4\<rparr>)"
    using u(4) [of "mavail (s\<lparr>tty := t3\<rparr>)" "s\<lparr>tty := t3\<rparr>"] by auto
  obtain t5 where 5: "say_time (s\<lparr>tty := t4\<rparr>) = Inr (s\<lparr>ticks := ticks s + 6, tty := t5\<rparr>)" using time [of "s\<lparr>tty := t4\<rparr>"] by auto
  obtain t6 where 6: "say_cpu (s\<lparr>ticks := ticks s + 6, tty := t5\<rparr>) = Inr (s\<lparr>ticks := ticks s + 6, tty := t6\<rparr>)"
    using cpu [where s = "s\<lparr>ticks := ticks s + 6\<rparr>" and t = t5] by auto
  show ?thesis using 1 2 3 4 5 6 by (intro exI [of _ t6]) (simp add: print_info_def)
qed

end
