(* ===== verification/RamDisk.thy ===== *)
theory RamDisk
  imports Memory
begin

text \<open>
  The RAM disk, \<open>source/drv/ramdisk.c\<close>: blocks of one size in a region of the heap. A pointer to a disk is an
  option, the null pointer being \<open>None\<close>. The abstract view is \<open>sector\<close>, the bytes of every block; a history of
  requests that stay on the disk acts on it as on an array of blocks.
\<close>

section \<open>State and operations\<close>

record ramdisk_t =
  storage :: addr
  blimit :: nat
  bsize :: nat

definition ramdisk_create :: "ramdisk_t option \<Rightarrow> nat \<Rightarrow> nat \<Rightarrow> 'a mm_scheme \<Rightarrow> (int \<times> ramdisk_t option \<times> 'a mm_scheme) res" where
  "ramdisk_create disk lim bsz s =
     (case disk of
        None \<Rightarrow> Inr (-1, None, s)
      | Some d \<Rightarrow>
          if lim = 0 \<or> bsz = 0 then Inr (-1, Some d, s)
          else bindR (calloc lim bsz s)
            (\<lambda>(p, s1). Inr (if p = 0 then -1 else 0, Some \<lparr>storage = p, blimit = lim, bsize = bsz\<rparr>, s1)))"

definition ramdisk_read :: "ramdisk_t option \<Rightarrow> nat \<Rightarrow> addr \<Rightarrow> nat \<Rightarrow> 'a mm_scheme \<Rightarrow> int \<times> 'a mm_scheme" where
  "ramdisk_read disk lba buf num s =
     (case disk of
        None \<Rightarrow> (-1, s)
      | Some d \<Rightarrow>
          if buf = 0 then (-1, s)
          else if wrap32 (lba + num) > blimit d then (-1, s)
          else let off = wrap32 (lba * bsize d); len = wrap32 (num * bsize d)
               in (0, s\<lparr>mem := ncopy (mem s) buf (wrap32 (storage d + off)) len\<rparr>))"

definition ramdisk_write :: "ramdisk_t option \<Rightarrow> nat \<Rightarrow> addr \<Rightarrow> nat \<Rightarrow> 'a mm_scheme \<Rightarrow> int \<times> 'a mm_scheme" where
  "ramdisk_write disk lba buf num s =
     (case disk of
        None \<Rightarrow> (-1, s)
      | Some d \<Rightarrow>
          if buf = 0 then (-1, s)
          else if wrap32 (lba + num) > blimit d then (-1, s)
          else let off = wrap32 (lba * bsize d); len = wrap32 (num * bsize d)
               in (0, s\<lparr>mem := ncopy (mem s) (wrap32 (storage d + off)) buf len\<rparr>))"

definition ramdisk_remove :: "ramdisk_t option \<Rightarrow> 'a mm_scheme \<Rightarrow> (int \<times> ramdisk_t option \<times> 'a mm_scheme) res" where
  "ramdisk_remove disk s =
     (case disk of
        None \<Rightarrow> Inr (-1, None, s)
      | Some d \<Rightarrow>
          if storage d = 0 then Inr (-1, Some d, s)
          else bindR (Memory.free (storage d) s) (\<lambda>s1. Inr (0, Some \<lparr>storage = 0, blimit = 0, bsize = 0\<rparr>, s1)))"

section \<open>Blocks\<close>

text \<open>The address and the bytes of block \<open>i\<close>; a disk lies in one region of the heap.\<close>

definition sector_at :: "ramdisk_t \<Rightarrow> nat \<Rightarrow> addr" where
  "sector_at d i = storage d + i * bsize d"

definition sector :: "ramdisk_t \<Rightarrow> 'a mm_scheme \<Rightarrow> nat \<Rightarrow> u8 list" where
  "sector d s i = mread (mem s) (sector_at d i) (bsize d)"

definition disk_ok :: "ramdisk_t \<Rightarrow> 'a mm_scheme \<Rightarrow> bool" where
  "disk_ok d s \<longleftrightarrow> mm_inv s \<and> 0 < bsize d \<and> (\<exists>k. live s (storage d) = Some k \<and> blimit d * bsize d \<le> k)"

text \<open>The bytes of \<open>n\<close> blocks from \<open>i\<close> on are those of the region they take.\<close>

lemma mread_blocks: "mread m a (n * k) = concat (map (\<lambda>i. mread m (a + i * k) k) [0..<n])"
proof (induction n)
  case (Suc n)
  have "mread m a (Suc n * k) = mread m a (n * k + k)" by (simp add: add.commute)
  then show ?case using Suc by (simp add: mread_append)
qed simp

lemma disk_room:
  assumes "disk_ok d s"
  shows "storage d + blimit d * bsize d < 4294967296" "memory_Space s \<le> storage d" "0 < storage d"
proof -
  obtain k where k: "mm_inv s" "live s (storage d) = Some k" "blimit d * bsize d \<le> k" using assms by (auto simp: disk_ok_def)
  have "memory_Limit s < 4294967296" using k(1) by (simp add: mm_inv_def)
  with live_bounds [OF k(1,2)] k(3) show "storage d + blimit d * bsize d < 4294967296" "memory_Space s \<le> storage d" "0 < storage d"
    by linarith+
qed

lemma transfer_place:
  assumes "disk_ok d s" "lba + num \<le> blimit d"
  shows "wrap32 (lba + num) = lba + num" "wrap32 (storage d + wrap32 (lba * bsize d)) = sector_at d lba"
    "wrap32 (num * bsize d) = num * bsize d" "sector_at d lba + num * bsize d \<le> storage d + blimit d * bsize d"
proof -
  have b: "0 < bsize d" using assms(1) by (simp add: disk_ok_def)
  note r = disk_room(1) [OF assms(1)]
  have m: "lba * bsize d + num * bsize d \<le> blimit d * bsize d"
    using mult_le_mono1 [OF assms(2), of "bsize d"] by (simp add: add_mult_distrib)
  have "blimit d \<le> blimit d * bsize d" using b by simp
  then show "wrap32 (lba + num) = lba + num" using assms(2) r by (intro wrap32_small) linarith
  have "wrap32 (lba * bsize d) = lba * bsize d" "wrap32 (storage d + lba * bsize d) = storage d + lba * bsize d"
    using m r by (auto intro!: wrap32_small)
  then show "wrap32 (storage d + wrap32 (lba * bsize d)) = sector_at d lba" by (simp add: sector_at_def)
  show "wrap32 (num * bsize d) = num * bsize d" using m r by (intro wrap32_small) linarith
  show "sector_at d lba + num * bsize d \<le> storage d + blimit d * bsize d" using m by (simp add: sector_at_def)
qed

text \<open>Two blocks do not meet.\<close>

lemma sector_apart: "i < j \<Longrightarrow> sector_at d i + bsize d \<le> sector_at d j"
proof -
  assume "i < j"
  then have "Suc i * bsize d \<le> j * bsize d" by (intro mult_le_mono1) simp
  then show ?thesis by (simp add: sector_at_def)
qed

lemma ramdisk_read_blocks:
  assumes ok: "disk_ok d s" and on: "lba + num \<le> blimit d" and buf: "0 < buf" "disj buf (num * bsize d) (storage d) (blimit d * bsize d)"
  shows "\<exists>s'. ramdisk_read (Some d) lba buf num s = (0, s') \<and> s' = s\<lparr>mem := mwrite (mem s) buf (concat (map (sector d s) [lba..<lba + num]))\<rparr> \<and>
    disk_ok d s' \<and> (\<forall>i < blimit d. sector d s' i = sector d s i)"
proof -
  note t = transfer_place [OF ok on]
  have dj: "disj buf (num * bsize d) (sector_at d lba) (num * bsize d)"
    using buf(2) t(4) by (auto simp: disj_def sector_at_def)
  have src: "mread (mem s) (sector_at d lba) (num * bsize d) = concat (map (sector d s) [lba..<lba + num])"
  proof -
    have "map (sector d s) [lba..<lba + num] = map (\<lambda>i. mread (mem s) (sector_at d lba + i * bsize d) (bsize d)) [0..<num]"
      by (rule nth_equalityI) (simp_all add: sector_def sector_at_def add_mult_distrib add.assoc)
    then show ?thesis by (simp add: mread_blocks)
  qed
  have c: "ncopy (mem s) buf (sector_at d lba) (num * bsize d) = mwrite (mem s) buf (mread (mem s) (sector_at d lba) (num * bsize d))"
    using dj by (intro ncopy_eq) (auto simp: disj_def)
  let ?s = "s\<lparr>mem := mwrite (mem s) buf (concat (map (sector d s) [lba..<lba + num]))\<rparr>"
  have rd: "ramdisk_read (Some d) lba buf num s = (0, ?s)"
    using on buf(1) t by (simp add: ramdisk_read_def Let_def c src)
  have same: "sector d ?s i = sector d s i" if i: "i < blimit d" for i
  proof -
    have "Suc i * bsize d \<le> blimit d * bsize d" using i by (intro mult_le_mono1) simp
    then have "disj buf (num * bsize d) (sector_at d i) (bsize d)" using buf(2) by (auto simp: disj_def sector_at_def)
    moreover have "length (concat (map (sector d s) [lba..<lba + num])) = num * bsize d" by (simp add: src [symmetric])
    ultimately show ?thesis by (simp add: sector_def mread_mwrite_disj)
  qed
  have "disk_ok d ?s" using ok by (simp add: disk_ok_def)
  then show ?thesis using rd same by blast
qed


lemma ramdisk_write_blocks:
  assumes ok: "disk_ok d s" and on: "lba + num \<le> blimit d" and buf: "0 < buf" "disj buf (num * bsize d) (storage d) (blimit d * bsize d)"
  shows "\<exists>m. ramdisk_write (Some d) lba buf num s = (0, s\<lparr>mem := m\<rparr>) \<and> disk_ok d (s\<lparr>mem := m\<rparr>) \<and>
    (\<forall>i < blimit d. sector d (s\<lparr>mem := m\<rparr>) i = put_blocks (bsize d) lba (mread (mem s) buf (num * bsize d)) (sector d s) i) \<and>
    (\<forall>a. a < storage d \<or> storage d + blimit d * bsize d \<le> a \<longrightarrow> m a = mem s a)"
proof -
  note t = transfer_place [OF ok on]
  have k: "0 < bsize d" using ok by (simp add: disk_ok_def)
  let ?n = "num * bsize d" and ?a = "sector_at d lba"
  let ?data = "mread (mem s) buf ?n"
  have "disj buf ?n ?a ?n" using buf(2) t(4) by (auto simp: disj_def sector_at_def)
  then have c: "ncopy (mem s) ?a buf ?n = mwrite (mem s) ?a ?data" by (intro ncopy_eq) (auto simp: disj_def)
  let ?m = "mwrite (mem s) ?a ?data"
  have w: "ramdisk_write (Some d) lba buf num s = (0, s\<lparr>mem := ?m\<rparr>)"
    using on buf(1) t by (simp add: ramdisk_write_def Let_def c)
  have "sector d (s\<lparr>mem := ?m\<rparr>) i = put_blocks (bsize d) lba ?data (sector d s) i" if i: "i < blimit d" for i
  proof -
    consider "i < lba" | "lba + num \<le> i" | "lba \<le> i" "i < lba + num" by linarith
    then show ?thesis
    proof cases
      case 1
      then have "sector_at d i + bsize d \<le> ?a" by (rule sector_apart)
      with 1 show ?thesis by (auto simp: sector_def put_blocks_def mwrite_outside intro!: mread_cong)
    next
      case 2
      then have "?a + ?n \<le> sector_at d i" using mult_le_mono1 [OF 2, of "bsize d"] by (simp add: sector_at_def add_mult_distrib)
      with 2 k show ?thesis by (auto simp: sector_def put_blocks_def mwrite_outside intro!: mread_cong)
    next
      case 3
      let ?j = "i - lba"
      have e: "sector_at d i = ?a + ?j * bsize d" using 3(1) by (simp add: sector_at_def diff_mult_distrib)
      have "Suc ?j * bsize d \<le> ?n" using 3 by (intro mult_le_mono1) simp
      then have l: "?j * bsize d + bsize d \<le> ?n" by simp
      have l2: "?j * bsize d \<le> ?n" using 3 by (intro mult_le_mono1) simp
      have "mread ?m (sector_at d i) (bsize d) = take (bsize d) (drop (?j * bsize d) ?data)"
        using l l2 by (intro nth_equalityI) (simp_all add: e mwrite_def add.assoc del: mult_le_cancel2)
      then show ?thesis using 3 k by (simp add: sector_def put_blocks_def)
    qed
  qed
  moreover have "disk_ok d (s\<lparr>mem := ?m\<rparr>)" using ok by (simp add: disk_ok_def)
  moreover have "?m a = mem s a" if "a < storage d \<or> storage d + blimit d * bsize d \<le> a" for a
    using that t(4) by (intro mwrite_outside) (auto simp: sector_at_def)
  ultimately show ?thesis using w by blast
qed

text \<open>Off the end of the disk, as long as the sum of the two numbers is a 32-bit number.\<close>

lemma ramdisk_refuses:
  assumes "blimit d < lba + num" "lba + num < 4294967296"
  shows "ramdisk_read (Some d) lba buf num s = (-1, s)" "ramdisk_write (Some d) lba buf num s = (-1, s)"
  using assms by (simp_all add: ramdisk_read_def ramdisk_write_def)

text \<open>A sum that wraps passes the test: block \<open>2 ^ 32 - 1\<close> is the one in front of the disk.\<close>

lemma ramdisk_write_before:
  assumes "disk_ok d s" "0 < buf" "bsize d \<le> storage d"
  shows "ramdisk_write (Some d) 4294967295 buf 1 s = (0, s\<lparr>mem := ncopy (mem s) (storage d - bsize d) buf (bsize d)\<rparr>)"
proof -
  have k: "0 < bsize d" using assms(1) by (simp add: disk_ok_def)
  have st: "storage d < 4294967296" using disk_room(1) [OF assms(1)] by linarith
  then have "bsize d < 4294967296" using assms(3) by linarith
  have e: "4294967295 * bsize d = (bsize d - 1) * 4294967296 + (4294967296 - bsize d)"
    using k \<open>bsize d < 4294967296\<close> by (simp add: diff_mult_distrib2 diff_mult_distrib)
  then have w: "wrap32 (4294967295 * bsize d) = 4294967296 - bsize d"
    unfolding wrap32_def e mod_mult_self3 using k by simp
  have e2: "storage d + (4294967296 - bsize d) = storage d - bsize d + 4294967296" using assms(3) \<open>bsize d < 4294967296\<close> by simp
  then have "wrap32 (storage d + (4294967296 - bsize d)) = storage d - bsize d"
    unfolding wrap32_def e2 mod_add_self2 using st by simp
  moreover have "wrap32 (4294967295 + 1) = 0" by (simp add: wrap32_def)
  ultimately show ?thesis using assms(2) \<open>bsize d < 4294967296\<close> w by (simp add: ramdisk_write_def Let_def)
qed


section \<open>Creating and removing\<close>

lemma ramdisk_create_fresh:
  assumes "mm_inv s" "0 < lim" "0 < bsz" "fits s (lim * bsz)"
    and "ramdisk_create (Some d0) lim bsz s = Inr (r, d, s')"
  shows "r = -1 \<and> d = Some \<lparr>storage = 0, blimit = lim, bsize = bsz\<rparr> \<and> s' = s \<or>
    (\<exists>e. r = 0 \<and> d = Some e \<and> blimit e = lim \<and> bsize e = bsz \<and> live s (storage e) = None \<and> disk_ok e s' \<and>
       (\<forall>i < lim. sector e s' i = replicate bsz 0))"
proof -
  have sz: "lim * bsz < 4294967296"
  proof -
    have "memory_BlockC s * MEMORY_BLKSIZE < 4294967296" using assms(1) by (simp add: mm_inv_def)
    then show ?thesis using assms(4) by (simp add: fits_def)
  qed
  have c: "calloc lim bsz s = bindR (malloc (lim * bsz) s) (\<lambda>(blk, s1). if blk = 0 then Inr (0, s1)
      else Inr (blk, s1\<lparr>mem := fill (mem s1) blk 0 (lim * bsz)\<rparr>))"
    using sz mm_inv_lock [OF assms(1)] by (simp add: calloc_def Let_def)
  obtain p s1 where m: "malloc (lim * bsz) s = Inr (p, s1)" using malloc_total [OF assms(1,4)] by blast
  show ?thesis
  proof (cases "p = 0")
    case True
    then show ?thesis using assms(2,3,5) m malloc_null(1) [OF assms(1,4)] by (auto simp: ramdisk_create_def c)
  next
    case False
    note l = malloc_live [OF assms(1,4) m False]
    let ?e = "\<lparr>storage = p, blimit = lim, bsize = bsz\<rparr>"
    have s': "r = 0" "d = Some ?e" "s' = s1\<lparr>mem := fill (mem s1) p 0 (lim * bsz)\<rparr>"
      using assms(2,3,5) m False by (auto simp: ramdisk_create_def c)
    have "lim * bsz \<le> nblocks (lim * bsz) * MEMORY_BLKSIZE" using assms(4) by (intro nblocks_ge) (simp add: fits_def)
    then have "disk_ok ?e s'" using l assms(3) by (simp add: disk_ok_def s')
    moreover have "sector ?e s' i = replicate bsz 0" if i: "i < lim" for i
    proof -
      have "Suc i * bsz \<le> lim * bsz" using i by (intro mult_le_mono1) simp
      then show ?thesis
        by (intro nth_equalityI) (simp_all add: sector_def sector_at_def s' fill_eq mwrite_def add.assoc)
    qed
    ultimately show ?thesis using s'(1,2) l(1) by auto
  qed
qed

lemma ramdisk_remove_frees:
  assumes "disk_ok d s"
  shows "\<exists>s'. ramdisk_remove (Some d) s = Inr (0, Some \<lparr>storage = 0, blimit = 0, bsize = 0\<rparr>, s') \<and> mm_inv s' \<and>
    live s' = (live s)(storage d := None)"
proof -
  obtain k where k: "mm_inv s" "live s (storage d) = Some k" using assms by (auto simp: disk_ok_def)
  from free_live [OF k] disk_room(3) [OF assms] show ?thesis by (auto simp: ramdisk_remove_def)
qed

section \<open>The contract\<close>

text \<open>A client's requests: it fills its buffer and writes, or reads and looks at its buffer. \<open>window\<close> is the size of the
  buffer in blocks.\<close>

definition disk_put :: "ramdisk_t \<Rightarrow> addr \<Rightarrow> nat \<Rightarrow> u8 list \<Rightarrow> 'a mm_scheme \<Rightarrow> 'a mm_scheme res" where
  "disk_put d buf lba data s =
     (let (r, s') = ramdisk_write (Some d) lba buf (length data div bsize d) (s\<lparr>mem := mwrite (mem s) buf data\<rparr>)
      in if r = 0 then Inr s' else Inl OutOfBounds)"

definition disk_get :: "ramdisk_t \<Rightarrow> addr \<Rightarrow> nat \<Rightarrow> nat \<Rightarrow> 'a mm_scheme \<Rightarrow> (u8 list \<times> 'a mm_scheme) res" where
  "disk_get d buf lba num s =
     (let (r, s') = ramdisk_read (Some d) lba buf num s
      in if r = 0 then Inr (mread (mem s') buf (num * bsize d), s') else Inl OutOfBounds)"

definition disk_ready :: "ramdisk_t \<Rightarrow> addr \<Rightarrow> nat \<Rightarrow> 'a mm_scheme \<Rightarrow> bool" where
  "disk_ready d buf window s \<longleftrightarrow> disk_ok d s \<and> 0 < buf \<and> disj buf (window * bsize d) (storage d) (blimit d * bsize d)"

lemma part_disj: "disj a n b k \<Longrightarrow> m \<le> n \<Longrightarrow> disj a m b k"
  by (auto simp: disj_def)

interpretation disk: block_device "disk_ready d buf window" "sector d" "blimit d" "bsize d" window "disk_put d buf" "disk_get d buf"
proof
  fix s :: "'a mm_scheme" and data :: "u8 list" and n lba
  assume r: "disk_ready d buf window s" and l: "length data = n * bsize d" "n \<le> window" "lba + n \<le> blimit d"
  let ?s = "s\<lparr>mem := mwrite (mem s) buf data\<rparr>"
  have k: "0 < bsize d" "0 < buf" using r by (simp_all add: disk_ready_def disk_ok_def)
  have le: "n * bsize d \<le> window * bsize d" using l(2) by (rule mult_le_mono1)
  have "disj buf (window * bsize d) (storage d) (blimit d * bsize d)" using r by (simp add: disk_ready_def)
  then have dj: "disj buf (n * bsize d) (storage d) (blimit d * bsize d)" using le by (rule part_disj)
  have ok: "disk_ok d ?s" using r by (simp add: disk_ready_def disk_ok_def)
  have same: "sector d ?s i = sector d s i" if "i < blimit d" for i
  proof -
    have "Suc i * bsize d \<le> blimit d * bsize d" using that by (intro mult_le_mono1) simp
    then have "disj buf (n * bsize d) (sector_at d i) (bsize d)" using dj by (auto simp: disj_def sector_at_def)
    then show ?thesis using l(1) by (simp add: sector_def mread_mwrite_disj)
  qed
  obtain m where w: "ramdisk_write (Some d) lba buf n ?s = (0, ?s\<lparr>mem := m\<rparr>)" "disk_ok d (?s\<lparr>mem := m\<rparr>)"
    "\<forall>i < blimit d. sector d (?s\<lparr>mem := m\<rparr>) i = put_blocks (bsize d) lba (mread (mem ?s) buf (n * bsize d)) (sector d ?s) i"
    using ramdisk_write_blocks [OF ok l(3) k(2) dj] by blast
  have "mread (mem ?s) buf (n * bsize d) = data" using l(1) by simp
  then have "sector d (?s\<lparr>mem := m\<rparr>) i = put_blocks (bsize d) lba data (sector d s) i" if "i < blimit d" for i
    using w(3) that same by (simp add: put_blocks_def)
  then show "\<exists>s'. disk_put d buf lba data s = Inr s' \<and> disk_ready d buf window s' \<and>
      (\<forall>i < blimit d. sector d s' i = put_blocks (bsize d) lba data (sector d s) i)"
    using w(1,2) l(1) k(1) r by (intro exI [of _ "?s\<lparr>mem := m\<rparr>"]) (simp add: disk_put_def disk_ready_def)
next
  fix s :: "'a mm_scheme" and n lba
  assume r: "disk_ready d buf window s" and l: "n \<le> window" "lba + n \<le> blimit d"
  have le: "n * bsize d \<le> window * bsize d" using l(1) by (rule mult_le_mono1)
  have "disj buf (window * bsize d) (storage d) (blimit d * bsize d)" using r by (simp add: disk_ready_def)
  then have dj: "disj buf (n * bsize d) (storage d) (blimit d * bsize d)" using le by (rule part_disj)
  have ok: "disk_ok d s" "0 < buf" using r by (simp_all add: disk_ready_def)
  let ?c = "concat (map (sector d s) [lba..<lba + n])"
  have "length ?c = n * bsize d" by (induction n) (simp_all add: sector_def)
  then show "\<exists>s'. disk_get d buf lba n s = Inr (?c, s') \<and> disk_ready d buf window s' \<and> (\<forall>i < blimit d. sector d s' i = sector d s i)"
    using ramdisk_read_blocks [OF ok(1) l(2) ok(2) dj] r by (auto simp: disk_get_def disk_ready_def)
qed

text \<open>C38.
  A disk keeps what is written to it: after any sequence of writes through a buffer outside the disk, each on the disk
  and no longer than the buffer, a read gives the bytes the same sequence leaves in an array of blocks that started with
  the bytes of the disk.\<close>

theorem ramdisk_history:
  assumes "disk_ok d s" "0 < buf" "disj buf (window * bsize d) (storage d) (blimit d * bsize d)"
    and "\<forall>(lba, data) \<in> set ws. \<exists>n. length data = n * bsize d \<and> n \<le> window \<and> lba + n \<le> blimit d"
    and "n \<le> window" "lba + n \<le> blimit d"
  shows "\<exists>s1 s2. run_all (\<lambda>(lba, data). disk_put d buf lba data) ws s = Inr s1 \<and>
    disk_get d buf lba n s1 =
      Inr (concat (map (fold (\<lambda>(lba, data). put_blocks (bsize d) lba data) ws (sector d s)) [lba..<lba + n]), s2)"
  using disk.history [of d buf window s ws n lba] assms by (auto simp: disk_ready_def)

text \<open>Two writes that overlap, and a read over both blocks.\<close>

theorem ramdisk_history_witness:
  "\<exists>s1 s2. run_all (\<lambda>(lba, data). disk_put \<lparr>storage = 8192, blimit = 4, bsize = 2\<rparr> 100 lba data) [(0, [1, 2, 3, 4]), (1, [5, 6])] mm_demo1 = Inr s1 \<and>
     disk_get \<lparr>storage = 8192, blimit = 4, bsize = 2\<rparr> 100 0 2 s1 = Inr ([1, 2, 5, 6], s2)"
proof -
  let ?d = "\<lparr>storage = 8192, blimit = 4, bsize = 2\<rparr>" and ?ws = "[(0, [1, 2, 3, 4]), (1, [5, 6])] :: (nat \<times> u8 list) list"
  have ok: "disk_ok ?d mm_demo1" using mm_demo1_inv mm_demo1_live by (simp add: disk_ok_def)
  have ws: "\<forall>(lba, data) \<in> set ?ws. \<exists>n. length data = n * bsize ?d \<and> n \<le> 2 \<and> lba + n \<le> blimit ?d" by (auto; presburger)
  from ramdisk_history [OF ok _ _ ws, of 100 2 0] show ?thesis by (simp add: disj_def put_blocks_def upt_conv_Cons)
qed

end
