(* ===== verification/OldMemory.thy ===== *)
theory OldMemory
  imports Memory
begin

text \<open>
  The first memory manager, \<open>source/kernel/memory_old.c\<close>, over the state of its successor, which has the same
  variables, and the proof that the two serve every request alike except for the number of blocks: \<open>old_malloc\<close> is
  \<open>malloc\<close> of as many whole blocks as it counts.
\<close>

section \<open>Operations\<close>

text \<open>The inner loop counts free blocks from \<open>i\<close> on, in \<open>found\<close>; the early return of \<open>malloc\<close> inside it is \<open>None\<close>.\<close>

fun old_run :: "memory_Block_t list \<Rightarrow> nat \<Rightarrow> nat \<Rightarrow> nat \<Rightarrow> nat \<Rightarrow> nat \<Rightarrow> nat option res" where
  "old_run V c i j 0 found = Inr (Some found)"
| "old_run V c i j (Suc k) found =
     (if i + j \<ge> c then Inr None
      else checkR (i + j < length V) OutOfBounds
        (if allocated (V ! (i + j)) then Inr (Some 0) else old_run V c i (Suc j) k (Suc found)))"

function old_find :: "memory_Block_t list \<Rightarrow> nat \<Rightarrow> nat \<Rightarrow> nat \<Rightarrow> nat option res" where
  "old_find V c n i =
     (if i < c then
        checkR (i < length V) OutOfBounds
          (bindR (if \<not> allocated (V ! i) then old_run V c i 0 n 0 else Inr (Some 0))
            (\<lambda>r. case r of None \<Rightarrow> Inr None
               | Some found \<Rightarrow> if found \<ge> n then Inr (Some i) else old_find V c n (Suc i)))
      else Inr None)"
  by pat_completeness auto
termination
  by (relation "measure (\<lambda>(V, c, n, i). c - i)") auto

declare old_find.simps [simp del]

fun old_mark :: "memory_Block_t list \<Rightarrow> nat \<Rightarrow> nat \<Rightarrow> memory_Block_t list" where
  "old_mark V b 0 = V"
| "old_mark V b (Suc k) = old_mark (V[b := (V ! b)\<lparr>allocated := True\<rparr>]) (Suc b) k"

definition old_count :: "nat \<Rightarrow> nat" where
  "old_count sz = (if sz \<le> MEMORY_BLKSIZE then 1 else sz div MEMORY_BLKSIZE + 1)"

text \<open>In \<open>old_malloc\<close> the owner keeps its count; the other blocks of the run keep the count they had.\<close>

definition old_malloc :: "nat \<Rightarrow> 'a mm_scheme \<Rightarrow> (addr \<times> 'a mm_scheme) res" where
  "old_malloc sz s =
     (if \<not> memory_InitLock s then Inr (0, s)
      else if sz = 0 then Inr (0, s)
      else let n = old_count sz in
        bindR (old_find (memory_BlockV s) (memory_BlockC s) n 0)
          (\<lambda>r. case r of
               None \<Rightarrow> Inr (0, s)
             | Some base \<Rightarrow>
                 let V1 = old_mark (memory_BlockV s) base n;
                     V2 = V1[base := (V1 ! base)\<lparr>count := n\<rparr>]
                 in Inr (wrap32 (memory_Space s + base * MEMORY_BLKSIZE), s\<lparr>memory_BlockV := V2\<rparr>)))"

definition old_calloc :: "nat \<Rightarrow> nat \<Rightarrow> 'a mm_scheme \<Rightarrow> (addr \<times> 'a mm_scheme) res" where
  "old_calloc nmemb sz s =
     (if \<not> memory_InitLock s then Inr (0, s)
      else let n = wrap32 (nmemb * sz) in
        if n > 4294967295 then Inr (0, s)
        else bindR (old_malloc n s)
          (\<lambda>(blk, s1). if blk = 0 then Inr (0, s1) else Inr (blk, s1\<lparr>mem := fill (mem s1) blk 0 n\<rparr>)))"

text \<open>Here the loop of \<open>free\<close> runs for a count of 0 as well, without an effect.\<close>

definition old_free :: "addr \<Rightarrow> 'a mm_scheme \<Rightarrow> 'a mm_scheme res" where
  "old_free blk s =
     (if bad_pointer blk s then Inr s
      else let num = (blk - memory_Space s) div MEMORY_BLKSIZE in
        checkR (num < length (memory_BlockV s)) OutOfBounds
          (let n = count (memory_BlockV s ! num) in
           checkR (num + n \<le> length (memory_BlockV s)) OutOfBounds
             (Inr (s\<lparr>memory_BlockV := mark_blocks (memory_BlockV s) num n False\<rparr>))))"

definition old_realloc :: "addr \<Rightarrow> nat \<Rightarrow> 'a mm_scheme \<Rightarrow> (addr \<times> 'a mm_scheme) res" where
  "old_realloc blk sz s =
     (if bad_pointer blk s then Inr (0, s)
      else bindR (old_malloc sz s)
        (\<lambda>(newblk, s1). if newblk = 0 then Inr (0, s1)
           else bindR (old_free blk (s1\<lparr>mem := ncopy (mem s1) newblk blk sz\<rparr>)) (\<lambda>s2. Inr (newblk, s2))))"

definition old_mavail :: "'a mm_scheme \<Rightarrow> nat" where
  "old_mavail s = (if \<not> memory_InitLock s then 0 else mavail_loop (take (memory_BlockC s) (memory_BlockV s)) 0)"

text \<open>No module is set aside behind the kernel.\<close>

definition old_memory_init :: "addr \<Rightarrow> nat \<Rightarrow> 'a mm_scheme \<Rightarrow> 'a mm_scheme res" where
  "old_memory_init kernel_Limit sz s =
     (if memory_InitLock s then Inr s
      else if sz > 4294967295 then Inl (Panic ''64-bit addressing not supported'')
      else let c = sz div (MEMORY_BLKSIZE + sizeof_Block);
               supblkc = c - (if c \<noteq> 0 then 1 else 0) in
        if supblkc = 0 then Inl (Panic ''Not enough memory detected'')
        else let space0 = wrap32 (kernel_Limit + supblkc * sizeof_Block);
                 space = align_down (wrap32 (space0 + MEMORY_BLKSIZE));
                 limit = wrap32 (space + supblkc * MEMORY_BLKSIZE)
             in Inr (s\<lparr>memory_InitLock := True, memory_Space := space, memory_Limit := limit,
                      memory_BlockV := replicate supblkc \<lparr>count = 0, allocated = False\<rparr>, memory_BlockC := supblkc\<rparr>))"

section \<open>The search\<close>

lemma old_run_eq:
  assumes "i + j \<le> length V"
  shows "old_run V (length V) i j k found = Inr (case scan (\<lambda>x. x \<ge> length V \<or> allocated (V ! x)) (i + j) (i + j + k) of
     None \<Rightarrow> Some (found + k) | Some x \<Rightarrow> if x \<ge> length V then None else Some 0)"
  using assms
proof (induction k arbitrary: j found)
  case 0
  then show ?case by (simp add: scan_def)
next
  case (Suc k)
  let ?P = "\<lambda>x. x \<ge> length V \<or> allocated (V ! x)"
  have st: "scan ?P (i + j) (i + j + Suc k) = (if ?P (i + j) then Some (i + j) else scan ?P (i + Suc j) (i + Suc j + k))"
    by (simp add: scan_def upt_rec)
  show ?case
  proof (cases "?P (i + j)")
    case True
    then show ?thesis unfolding st using Suc.prems by auto
  next
    case False
    then show ?thesis unfolding st using Suc.IH [of "Suc j" "Suc found"] by (simp split: option.split)
  qed
qed

lemma old_find_eq:
  assumes "0 < n"
  shows "old_find V (length V) n i = Inr (scan (\<lambda>i. free_run V i n) i (length V))"
proof (induction "length V - i" arbitrary: i)
  case 0
  then show ?case by (simp add: old_find.simps [of V _ n i] scan_def)
next
  case (Suc m)
  then have i: "i < length V" by simp
  have IH: "old_find V (length V) n (Suc i) = Inr (scan (\<lambda>i. free_run V i n) (Suc i) (length V))" using Suc by simp
  have st: "scan (\<lambda>i. free_run V i n) i (length V) = (if free_run V i n then Some i else scan (\<lambda>i. free_run V i n) (Suc i) (length V))"
    using i by (simp add: scan_def upt_rec)
  let ?P = "\<lambda>x. x \<ge> length V \<or> allocated (V ! x)"
  show ?case
  proof (cases "allocated (V ! i)")
    case True
    then have "\<not> free_run V i n" using assms by (auto simp: free_run_def)
    then show ?thesis using i True IH assms by (simp add: old_find.simps [of V _ n i] st)
  next
    case False
    have r: "old_run V (length V) i 0 n 0 = Inr (case scan ?P i (i + n) of
        None \<Rightarrow> Some n | Some x \<Rightarrow> if x \<ge> length V then None else Some 0)"
      using old_run_eq [of i 0 V n 0] i by (simp split: option.split)
    show ?thesis
    proof (cases "scan ?P i (i + n)")
      case None
      then have all: "\<not> ?P x" if "i \<le> x" "x < i + n" for x using that by (auto simp: scan_None_iff)
      have "i \<le> i + n - 1" "i + n - 1 < i + n" using assms by simp_all
      from all [OF this] have "i + n \<le> length V" using assms by linarith
      with all have "free_run V i n" by (auto simp: free_run_def)
      then show ?thesis using i False None by (simp add: old_find.simps [of V _ n i] st r)
    next
      case (Some x)
      then have x: "i \<le> x" "x < i + n" "?P x" "\<And>y. i \<le> y \<Longrightarrow> y < x \<Longrightarrow> \<not> ?P y" by (auto simp: scan_Some_iff)
      have nf: "\<not> free_run V i n" using x(1-3) by (auto simp: free_run_def)
      show ?thesis
      proof (cases "x \<ge> length V")
        case True
        then have "scan (\<lambda>i. free_run V i n) (Suc i) (length V) = None" using x(2) by (auto simp: scan_None_iff free_run_def)
        then show ?thesis using i False Some True nf by (simp add: old_find.simps [of V _ n i] st r)
      next
        case False
        then show ?thesis using i \<open>\<not> allocated (V ! i)\<close> Some IH nf assms by (simp add: old_find.simps [of V _ n i] st r)
      qed
    qed
  qed
qed

lemma length_old_mark [simp]: "length (old_mark V b k) = length V"
  by (induction V b k rule: old_mark.induct) simp_all

lemma nth_old_mark:
  "b + k \<le> length V \<Longrightarrow> old_mark V b k ! i = (if b \<le> i \<and> i < b + k then (V ! i)\<lparr>allocated := True\<rparr> else V ! i)"
  by (induction V b k rule: old_mark.induct) (auto simp: nth_list_update)

lemma old_place:
  assumes "wf_blocks V" "free_run V b n" "0 < n"
  shows "(let V1 = old_mark V b n in V1[b := (V1 ! b)\<lparr>count := n\<rparr>]) = place V b n"
proof (rule nth_equalityI)
  fix i assume "i < length (let V1 = old_mark V b n in V1[b := (V1 ! b)\<lparr>count := n\<rparr>])"
  then have i: "i < length V" by (simp add: Let_def)
  have b: "b + n \<le> length V" using assms(2) by (simp add: free_run_def)
  have z: "count (V ! i) = 0" if "b \<le> i" "i < b + n"
  proof -
    have "\<not> allocated (V ! i)" using assms(2) that by (simp add: free_run_def)
    then show ?thesis using wf_blocks_alloc [OF assms(1)] i by (force simp: heads_def split: if_splits)
  qed
  show "(let V1 = old_mark V b n in V1[b := (V1 ! b)\<lparr>count := n\<rparr>]) ! i = place V b n ! i"
    using i b z assms(3) by (auto simp: Let_def nth_list_update nth_old_mark nth_place)
qed (simp add: Let_def)


lemma nblocks_split: "nblocks sz = sz div 4096 + (if sz mod 4096 = 0 then 0 else 1)"
proof -
  have r: "sz mod 4096 < 4096" by simp
  have "nblocks sz = (sz mod 4096 + 4095 + sz div 4096 * 4096) div 4096"
    unfolding nblocks_def by (subst (1) mod_mult_div_eq [of sz 4096, symmetric]) (simp add: ac_simps)
  also have "\<dots> = (sz mod 4096 + 4095) div 4096 + sz div 4096" by (simp only: div_mult_self1)
  also have "(sz mod 4096 + 4095) div 4096 = (if sz mod 4096 = 0 then 0 else 1)"
    using r by (simp add: div_if)
  finally show ?thesis by simp
qed

lemma old_count_nblocks:
  assumes "0 < sz"
  shows "old_count sz = (if 4096 < sz \<and> sz mod 4096 = 0 then nblocks sz + 1 else nblocks sz)"
proof (cases "sz < 4096")
  case True
  then show ?thesis using assms by (simp add: old_count_def nblocks_split)
next
  case False
  then show ?thesis by (cases "sz = 4096") (auto simp: old_count_def nblocks_split)
qed

lemma old_count_blocks: "0 < sz \<Longrightarrow> nblocks (old_count sz * MEMORY_BLKSIZE) = old_count sz" "0 < old_count sz"
  by (simp_all add: nblocks_def old_count_def)

section \<open>Equivalence\<close>

text \<open>C39.
  The first memory manager answers every request as \<open>malloc\<close> answers the request for the number of blocks it counts,
  in the same state, or null when there are not that many blocks at all; the number is that of \<open>malloc\<close> except for the
  multiples of the block size above one block, where it is one more.\<close>

theorem old_malloc_same:
  assumes "mm_inv s" "0 < sz"
  shows "old_malloc sz s = (if old_count sz \<le> memory_BlockC s then malloc (old_count sz * MEMORY_BLKSIZE) s else Inr (0, s)) \<and>
    old_count sz = (if 4096 < sz \<and> sz mod 4096 = 0 then nblocks sz + 1 else nblocks sz)"
proof -
  let ?n = "old_count sz" and ?V = "memory_BlockV s"
  have n: "0 < ?n" by (rule old_count_blocks(2))
  have len: "memory_BlockC s = length ?V" using mm_inv_length [OF assms(1)] by simp
  have lock: "memory_InitLock s" by (rule mm_inv_lock [OF assms(1)])
  have old: "old_malloc sz s = (case scan (\<lambda>i. free_run ?V i ?n) 0 (length ?V) of
      None \<Rightarrow> Inr (0, s)
    | Some b \<Rightarrow> Inr (memory_Space s + b * MEMORY_BLKSIZE, s\<lparr>memory_BlockV := place ?V b ?n\<rparr>))"
  proof (cases "scan (\<lambda>i. free_run ?V i ?n) 0 (length ?V)")
    case None
    then show ?thesis using assms(2) lock by (simp add: old_malloc_def len old_find_eq [OF n])
  next
    case (Some b)
    then have b: "free_run ?V b ?n" by (simp add: scan_Some_iff)
    then have "b + ?n \<le> memory_BlockC s" by (simp add: free_run_def len)
    then have "b * MEMORY_BLKSIZE \<le> memory_BlockC s * MEMORY_BLKSIZE" by simp
    then have "wrap32 (memory_Space s + b * MEMORY_BLKSIZE) = memory_Space s + b * MEMORY_BLKSIZE"
      using assms(1) unfolding mm_inv_def by (intro wrap32_small) linarith
    then show ?thesis
      using assms(2) lock Some old_place [OF mm_inv_wf [OF assms(1)] b n] by (simp add: old_malloc_def len old_find_eq [OF n] Let_def)
  qed
  have same: "old_malloc sz s = malloc (?n * MEMORY_BLKSIZE) s" if le: "?n \<le> memory_BlockC s"
  proof -
    have f: "fits s (?n * MEMORY_BLKSIZE)" using le n by (simp add: fits_def)
    have "scan (\<lambda>i. free_run ?V i ?n) 0 (length ?V) = scan (\<lambda>i. free_run ?V i ?n) 0 (Suc (memory_BlockC s - ?n))"
      using le n by (intro scan_limit) (auto simp: len free_run_def)
    then show ?thesis unfolding old malloc_eq [OF assms(1) f] old_count_blocks(1) [OF assms(2)] by simp
  qed
  have none: "old_malloc sz s = Inr (0, s)" if gt: "\<not> ?n \<le> memory_BlockC s"
  proof -
    have "scan (\<lambda>i. free_run ?V i ?n) 0 (length ?V) = None" using gt by (auto simp: scan_None_iff free_run_def len)
    then show ?thesis by (simp add: old)
  qed
  show ?thesis using same none old_count_nblocks [OF assms(2)] by auto
qed

text \<open>Two blocks are counted as three.\<close>

theorem old_malloc_same_witness: "old_malloc 8192 mm_demo = malloc 12288 mm_demo"
  using old_malloc_same [OF mm_demo_inv, of 8192] by (simp add: old_count_def) (simp add: mm_demo_def)

section \<open>The other operations\<close>

lemma old_free_same: "old_free p s = Memory.free p s"
  by (cases "(p - memory_Space s) div MEMORY_BLKSIZE < length (memory_BlockV s)") (simp_all add: old_free_def free_def Let_def)

lemma old_memory_init_same: "kernel_Limit < 4294967296 \<Longrightarrow> old_memory_init kernel_Limit sz s = memory_init kernel_Limit 0 sz s"
  by (simp add: old_memory_init_def memory_init_def Let_def)

end
