(* ===== verification/Loader.thy ===== *)
theory Loader
  imports Multitask
begin

text \<open>
  The first program loader, \<open>source/kernel/program.c\<close>: segments go to a fixed address instead of a region of the
  heap. It shares the file format with \<open>exec\<close> of the multitasking theory, and its copying is shown to be that of
  \<open>exec\<close> with the base fixed and nothing subtracted.
\<close>

abbreviation PROGRAM_BASE :: nat where "PROGRAM_BASE \<equiv> 0x4000000"

section \<open>Operations\<close>

definition place_seg :: "mem \<Rightarrow> addr \<Rightarrow> multitask_ProgELF32PH \<Rightarrow> mem" where
  "place_seg m data ph =
     (let src = wrap32 (data + p_offset ph);
          dst = wrap32 (PROGRAM_BASE + p_vaddr ph);
          m1 = ncopy m dst src (p_filesz ph)
      in fill m1 (wrap32 (dst + p_filesz ph)) 0 (sub32 (p_memsz ph) (p_filesz ph)))"

text \<open>The message of a segment reads the header again, after the copy.\<close>

definition report_seg :: "addr \<Rightarrow> nat \<Rightarrow> nat \<Rightarrow> 'a mm_scheme \<Rightarrow> 'a mm_scheme res" where
  "report_seg data phoff i s =
     (let ph = ph_at (mem s) data phoff i
      in printf (cstr ''Segment %d: vaddr=0x%x, filesz=%d, memsz=%d, dst=0x%x'' @ [10])
           [W (of_nat i), W (of_nat (p_vaddr ph)), W (of_nat (p_filesz ph)), W (of_nat (p_memsz ph)),
            W (of_nat (PROGRAM_BASE + p_vaddr ph))] s)"

function program_segs :: "addr \<Rightarrow> nat \<Rightarrow> nat \<Rightarrow> 'a mm_scheme \<Rightarrow> 'a mm_scheme res" where
  "program_segs data phoff i s =
     (if i < e_phnum (read_eh (mem s) data) then
        let ph = ph_at (mem s) data phoff i in
        if p_type ph \<noteq> MULTITASK_PROGPTLOAD then program_segs data phoff (Suc i) s
        else bindR (report_seg data phoff i (s\<lparr>mem := place_seg (mem s) data ph\<rparr>)) (program_segs data phoff (Suc i))
      else Inr s)"
  by pat_completeness auto
termination
proof -
  have b: "i < 65536" if "i < e_phnum (read_eh m data)" for i data m
    using that rd16_less [of m "data + 44"] by (simp add: read_eh_def)
  then show ?thesis by (relation "measure (\<lambda>(data, phoff, i, s). 65536 - i)") (auto dest!: b)
qed

declare program_segs.simps [simp del]

definition program_exec :: "cstring option \<Rightarrow> 'a multi_scheme \<Rightarrow> (int \<times> 'a multi_scheme) res" where
  "program_exec path s =
     (case path of
        None \<Rightarrow> Inr (-1, s)
      | Some p \<Rightarrow>
          if fs_stat p s = 0
          then bindR (ERR ''program_exec'' ''Program path not exists: %s'' [S p] s) (\<lambda>s1. Inr (-1, s1))
          else bindR (fs_readFile p s) (\<lambda>(data, s1).
            if data = 0
            then bindR (ERR ''program_exec'' ''Unable to read program: %s'' [S p] s1) (\<lambda>s2. Inr (-1, s2))
            else if rd32 (mem s1) data \<noteq> MULTITASK_PROGMAGIC
            then bindR (ERR ''program_exec'' ''Invalid magic: %s'' [S p] s1) (\<lambda>s2. Inr (-1, s2))
            else bindR (program_segs data (e_phoff (read_eh (mem s1) data)) 0 s1) (\<lambda>s2.
              let start = wrap32 (PROGRAM_BASE + e_entry (read_eh (mem s2) data))
              in bindR (INFO ''program_exec'' ''0x%x'' [W (of_nat start)] s2) (\<lambda>s3.
                 bindR (spawn (Some p) start s3) (\<lambda>(pid, s4). Inr (0, s4))))))"

section \<open>What it loads\<close>

lemma place_seg_load: "place_seg m data ph = load_seg m data PROGRAM_BASE 0 ph"
proof -
  have "sub32 (wrap32 x) 0 = wrap32 x" for x by (simp add: sub32_def wrap32_def)
  then show ?thesis by (simp add: place_seg_def load_seg_def Let_def)
qed

lemma report_seg_tty: "\<exists>t. report_seg data phoff i s = Inr (s\<lparr>tty := t\<rparr>)"
  unfolding report_seg_def Let_def by (rule message_accepts) (simp_all add: cstr_def)

lemma program_segs_load:
  "\<exists>t. program_segs data phoff i s = Inr (s\<lparr>mem := load_segs (mem s) data phoff PROGRAM_BASE 0 i, tty := t\<rparr>)"
proof (induction "65536 - i" arbitrary: i s)
  case 0
  then have "\<not> i < e_phnum (read_eh (mem s) data)" using rd16_less [of "mem s" "data + 44"] by (simp add: read_eh_def)
  then show ?case by (intro exI [of _ "tty s"]) (simp add: program_segs.simps [of data phoff i s] load_segs.simps [of "mem s"])
next
  case (Suc n)
  have n: "n = 65536 - Suc i" using Suc(2) by simp
  let ?ph = "ph_at (mem s) data phoff i"
  show ?case
  proof (cases "i < e_phnum (read_eh (mem s) data)")
    case False
    then show ?thesis by (intro exI [of _ "tty s"]) (simp add: program_segs.simps [of data phoff i s] load_segs.simps [of "mem s"])
  next
    case True
    show ?thesis
    proof (cases "p_type ?ph = MULTITASK_PROGPTLOAD")
      case False
      then show ?thesis using Suc(1) [OF n, of s] True
        by (simp add: program_segs.simps [of data phoff i s] load_segs.simps [of "mem s"] Let_def)
    next
      case t: True
      obtain t where r: "report_seg data phoff i (s\<lparr>mem := place_seg (mem s) data ?ph\<rparr>) = Inr (s\<lparr>mem := place_seg (mem s) data ?ph, tty := t\<rparr>)"
        using report_seg_tty [of data phoff i "s\<lparr>mem := place_seg (mem s) data ?ph\<rparr>"] by auto
      show ?thesis using Suc(1) [OF n, of "s\<lparr>mem := place_seg (mem s) data ?ph, tty := t\<rparr>"] True t r
        by (simp add: program_segs.simps [of data phoff i s] load_segs.simps [of "mem s"] Let_def place_seg_load)
    qed
  qed
qed


text \<open>\<open>spawn\<close> answers, and takes at most one region of the heap.\<close>

lemma spawn_answers:
  assumes "mm_inv s" "fits s MULTITASK_STACKSIZE"
  shows "\<exists>pid s' stk. spawn nm prog s = Inr (pid, s') \<and> mem s' = mem s \<and> (live s' = live s \<or> live s stk = None \<and> live s' = (live s)(stk \<mapsto> 4096))"
proof (cases "\<not> multitask_InitLock s \<or> prog = 0 \<or> scan (\<lambda>i. \<not> active (multitask_ProcV s ! i)) 1 MULTITASK_PROCLIMIT = None")
  case True
  then show ?thesis by (auto simp: spawn_def)
next
  case False
  then obtain i where i: "scan (\<lambda>i. \<not> active (multitask_ProcV s ! i)) 1 MULTITASK_PROCLIMIT = Some i" by auto
  obtain p s1 where m: "malloc MULTITASK_STACKSIZE s = Inr (p, s1)" using malloc_total [OF assms] by blast
  obtain V where V: "s1 = s\<lparr>memory_BlockV := V\<rparr>" using malloc_frame [OF m] by blast
  have l: "live (set_proc j f t) = live t" "mem (set_proc j f t) = mem t" for j f and t :: "'a multi_scheme"
    by (rule live_cong, simp_all add: set_proc_def)
  show ?thesis
  proof (cases "p = 0")
    case True
    then have "spawn nm prog s = Inr (-1, set_proc (int i) (stack_update (\<lambda>_. 0)) s1)" using False i m by (simp add: spawn_def)
    moreover have "s1 = s" using malloc_null(1) [OF assms] m True by simp
    ultimately show ?thesis by (auto simp: l)
  next
    case False
    then have "spawn nm prog s = Inr (int i, set_proc (int i) (new_proc nm prog p (multitask_DefRegs s1)) s1)"
      using \<open>\<not> (\<not> _ \<or> _)\<close> i m by (simp add: spawn_def)
    moreover have "live s p = None" "live s1 = (live s)(p \<mapsto> 4096)"
      using malloc_live(1,2) [OF assms m False] by (simp_all add: nblocks_def)
    ultimately show ?thesis using V by (auto simp: l)
  qed
qed

section \<open>Properties\<close>

text \<open>\<open>program_exec\<close> puts every loadable segment of a well-formed program at the fixed base plus its address, clears its
  tail and changes no other byte; it answers 0 whatever \<open>spawn\<close> answered, and it reserves nothing of the heap but the
  stack of the process, although the addresses it writes to may belong to the heap.\<close>

theorem program_exec_loads:
  assumes "fs_inv s" "in_use s i" "etype (ent_at s i) = FS_TYPE_FILE" "ftype (ent_at s i) \<noteq> FS_TYPE_MOUNTED"
    and "data = fs_EntryV s i + MEMORY_BLKSIZE" "eh = read_eh (mem s) data" "rd32 (mem s) data = MULTITASK_PROGMAGIC"
    and "loadable (mem s) data (fsize (ent_at s i)) 0 len" "PROGRAM_BASE + len < 4294967296"
    and "disj PROGRAM_BASE len data (fsize (ent_at s i))" "fits s MULTITASK_STACKSIZE"
  shows "\<exists>s' stk. program_exec (Some (name (ent_at s i))) s = Inr (0, s') \<and>
    (\<forall>j < e_phnum eh. p_type (ph_at (mem s) data (e_phoff eh) j) = MULTITASK_PROGPTLOAD \<longrightarrow>
       seg_loaded (mem s') (mem s) data PROGRAM_BASE 0 (ph_at (mem s) data (e_phoff eh) j)) \<and>
    (\<forall>a. a < PROGRAM_BASE \<or> PROGRAM_BASE + len \<le> a \<longrightarrow> mem s' a = mem s a) \<and>
    (live s' = live s \<or> live s stk = None \<and> live s' = (live s)(stk \<mapsto> 4096))"
proof -
  let ?p = "name (ent_at s i)" and ?u = "stamp (fs_EntryV s i) atime_update s"
  have path: "is_cstr ?p" using entry_okD(1) [OF fs_invD(3) [OF assms(1,2)]] .
  have "find_entry s ?p = Some i" using assms(2) find_entry_Some [OF assms(1) path] by simp
  then have st: "fs_stat ?p s \<noteq> 0" using fs_invD(2) [OF assms(1)] assms(2) by (simp add: fs_stat_def in_use_def)
  have rd: "fs_readFile ?p s = Inr (data, ?u)" using readFile_eq [OF assms(1-4)] by (simp add: assms(5))
  have u1: "mem ?u = mem s" "fits ?u MULTITASK_STACKSIZE" "live ?u = live s"
    using assms(11) by (simp_all add: stamp_eq set_ent_def fits_def)
  note u = u1(1) fs_invD(1) [OF conjunct1 [OF stamp_view [OF assms(1,2)]]] u1(2,3)
  have nz: "data \<noteq> 0" by (simp add: assms(5))
  obtain t where t: "program_segs data (e_phoff eh) 0 ?u = Inr (?u\<lparr>mem := load_segs (mem s) data (e_phoff eh) PROGRAM_BASE 0 0, tty := t\<rparr>)"
    using program_segs_load [of data "e_phoff eh" 0 ?u] by (auto simp: u(1))
  let ?v = "?u\<lparr>mem := load_segs (mem s) data (e_phoff eh) PROGRAM_BASE 0 0, tty := t\<rparr>"
  note ld = load_segs_eq [OF assms(8,9,10) refl, of 0, folded assms(6)]
  let ?w = "W (of_nat (wrap32 (PROGRAM_BASE + e_entry (read_eh (mem ?v) data))))"
  obtain t2 where i2: "INFO ''program_exec'' ''0x%x'' [?w] ?v = Inr (?v\<lparr>tty := t2\<rparr>)"
    using message_accepts [of "cstr ''%s: '' @ cstr ''0x%x'' @ [10]" "[S (cstr ''program_exec''), ?w]" ?v]
    by (auto simp: INFO_def cstr_def)
  have l: "live (?v\<lparr>tty := t2\<rparr>) = live s" "mm_inv (?v\<lparr>tty := t2\<rparr>)"
    using u(2,4) by simp_all
  have f: "fits (?v\<lparr>tty := t2\<rparr>) MULTITASK_STACKSIZE" using u(3) by (simp add: fits_def)
  obtain pid s' stk where sp: "spawn (Some ?p) (wrap32 (PROGRAM_BASE + e_entry (read_eh (mem ?v) data))) (?v\<lparr>tty := t2\<rparr>) = Inr (pid, s')"
    "mem s' = mem ?v" "live s' = live s \<or> live s stk = None \<and> live s' = (live s)(stk \<mapsto> 4096)"
    using spawn_answers [OF l(2) f, of "Some ?p"] unfolding l(1) by fastforce
  have "program_exec (Some ?p) s = Inr (0, s')"
    using st rd nz t i2 sp(1) assms(7) by (simp add: program_exec_def u(1) assms(6) [symmetric] Let_def)
  then show ?thesis using ld sp(2,3) by auto
qed


text \<open>The sample program of \<open>exec\<close>, at the fixed address.\<close>

theorem program_exec_loads_witness:
  "\<exists>s'. program_exec (Some (cstr ''/a'')) multi_demo = Inr (0, s') \<and>
     mread (mem s') PROGRAM_BASE 8 = [0x90, 0x90, 0xEB, 0xFE, 0, 0, 0, 0]"
proof -
  have i: "in_use multi_demo 1" "etype (ent_at multi_demo 1) = FS_TYPE_FILE" "ftype (ent_at multi_demo 1) \<noteq> FS_TYPE_MOUNTED"
    "16384 = fs_EntryV multi_demo 1 + MEMORY_BLKSIZE" "fsize (ent_at multi_demo 1) = 88" "name (ent_at multi_demo 1) = cstr ''/a''"
    unfolding multi_demo_use multi_demo_ent by (simp_all add: sample_entry_def)
  have ok: "loadable (mem multi_demo) 16384 (fsize (ent_at multi_demo 1)) 0 4096"
    using elf_demo_facts i(5) by (simp add: loadable_def seg_fits_def del: multi_demo_fields)
  have d: "PROGRAM_BASE + 4096 < 4294967296" "disj PROGRAM_BASE 4096 16384 (fsize (ent_at multi_demo 1))"
    using i(5) by (simp_all add: disj_def)
  have b: "mread (mem multi_demo) (16384 + 84) 4 = [0x90, 0x90, 0xEB, 0xFE]"
    using elf_demo_at [of 84] elf_demo_at [of 85] elf_demo_at [of 86] elf_demo_at [of 87]
    by (simp add: mread_def upt_conv_Cons del: multi_demo_fields) (simp add: elf_demo_def)
  from program_exec_loads [OF multi_demo_fs i(1-4) refl elf_demo_facts(3) ok d multi_demo_heap(3)] obtain s' where
    r: "program_exec (Some (cstr ''/a'')) multi_demo = Inr (0, s')"
    "seg_loaded (mem s') (mem multi_demo) 16384 PROGRAM_BASE 0 (ph_at (mem multi_demo) 16384 52 0)"
    using elf_demo_facts i(6) by (auto simp del: multi_demo_fields)
  have "mread (mem s') (PROGRAM_BASE + (0 - 0)) 8 = mread (mem multi_demo) (16384 + 84) 4 @ replicate (8 - 4) 0"
    using r(2) unfolding seg_loaded_def seg_target_def elf_demo_facts(2) by (simp only: multitask_ProgELF32PH.select_convs)
  moreover have "replicate (8 - 4) 0 = [0, 0, 0, 0 :: u8]" by (simp add: numeral_eq_Suc)
  ultimately have "mread (mem s') PROGRAM_BASE 8 = [0x90, 0x90, 0xEB, 0xFE, 0, 0, 0, 0]" unfolding b by simp
  then show ?thesis using r(1) by blast
qed

end
