(* ===== verification/Fat32.thy ===== *)
theory Fat32
  imports RamDisk Layout Utils
begin

text \<open>
  The unfinished FAT32 reader, \<open>source/fs/fat32.c\<close>, over the RAM disk. The boot sector is a static structure at the
  address \<open>bs\<close> and is read where the code reads it; \<open>buf\<close> is the address of the array on the stack that holds a
  cluster. A function that reaches its end without a \<open>return\<close> answers \<open>None\<close>.
\<close>

unbundle bit_operations_syntax

section \<open>State\<close>

abbreviation (input) FAT32_CLUSTYPE_EOF_MIN :: nat where "FAT32_CLUSTYPE_EOF_MIN \<equiv> 0x0FFFFFF8"
abbreviation (input) FAT32_DIRENT_DELETED :: u8 where "FAT32_DIRENT_DELETED \<equiv> 0xE5"
abbreviation (input) FAT32_DIRENT_EMPTY :: u8 where "FAT32_DIRENT_EMPTY \<equiv> 0"
abbreviation (input) FAT32_ATTR_DIRECTORY :: u8 where "FAT32_ATTR_DIRECTORY \<equiv> 0x10"
abbreviation (input) FAT32_ATTR_LONGNAME :: u8 where "FAT32_ATTR_LONGNAME \<equiv> 0x0F"
abbreviation (input) FAT32_MAX_LFNLEN :: nat where "FAT32_MAX_LFNLEN \<equiv> 256"

record fat = mm +
  fat32_Disk :: ramdisk_t
  fat32_LBAStart :: nat
  fat32_DataSecLBA :: nat
  fat32_DataSecCnt :: nat
  fat32_DataClucCnt :: nat
  fat32_SecBuf :: addr
  fat32_LFNBuf :: addr
  fat32_FNameBuf :: addr

definition fat32_Bootsec_t :: "field list" where
  "fat32_Bootsec_t = packed
     [Bytes ''jmpBoot'' 3, Bytes ''OEMName'' 8, U16 ''bytesPerSector'', U8 ''sectorsPerCluster'', U16 ''reservedSectorCount'',
      U8 ''numFATs'', U16 ''rootEntryCount'', U16 ''totalSectors16'', U8 ''media'', U16 ''FATSize16'', U16 ''sectorsPerTrack'',
      U16 ''numHeads'', U32 ''hiddenSectors'', U32 ''totalSectors32'', U32 ''FATSize32'', U16 ''extFlags'', U16 ''FSVersion'',
      U32 ''rootCluster'', U16 ''FSInfo'', U16 ''backupBootSector'', Bytes ''reserved'' 12, U8 ''driveNumber'', U8 ''reserved1'',
      U8 ''bootSignature'', U32 ''volumeID'', Bytes ''volumeLabel'' 11, Bytes ''fileSystemType'' 8]"

definition fat32_Dirent_t :: "field list" where
  "fat32_Dirent_t = packed
     [Bytes ''name'' 11, U8 ''attr'', U8 ''NTReserved'', U8 ''creationTimeTenths'', U16 ''creationTime'', U16 ''creationDate'',
      U16 ''lastAccessDate'', U16 ''firstClusterHigh'', U16 ''writeTime'', U16 ''writeDate'', U16 ''firstClusterLow'', U32 ''fileSize'']"

definition fat32_LongDirent_t :: "field list" where
  "fat32_LongDirent_t = packed
     [U8 ''order'', Bytes ''name1'' 10, U8 ''attr'', U8 ''type'', U8 ''checksum'', Bytes ''name2'' 12, U16 ''firstClusterLow'',
      Bytes ''name3'' 4]"

text \<open>The fields of the boot sector that the code reads.\<close>

definition bytes_per_sector :: "addr \<Rightarrow> 'a mm_scheme \<Rightarrow> nat" where
  "bytes_per_sector bs s = rd16 (mem s) (bs + offset_of fat32_Bootsec_t ''bytesPerSector'')"

definition sectors_per_cluster :: "addr \<Rightarrow> 'a mm_scheme \<Rightarrow> nat" where
  "sectors_per_cluster bs s = unat (mem s (bs + offset_of fat32_Bootsec_t ''sectorsPerCluster''))"

definition cluster_size :: "addr \<Rightarrow> 'a mm_scheme \<Rightarrow> nat" where
  "cluster_size bs s = sectors_per_cluster bs s * bytes_per_sector bs s"

section \<open>Clusters\<close>

definition fat32_getClusLBA :: "addr \<Rightarrow> nat \<Rightarrow> 'a fat_scheme \<Rightarrow> nat" where
  "fat32_getClusLBA bs clus s = wrap32 (fat32_DataSecLBA s + wrap32 (sub32 clus 2 * sectors_per_cluster bs s))"

definition fat32_getFATEntAddr :: "nat \<Rightarrow> 'a fat_scheme \<Rightarrow> nat" where
  "fat32_getFATEntAddr clus s = wrap32 (fat32_LBAStart s + wrap32 (clus * 4))"

text \<open>The word is read from the array at \<open>arr\<close>, which has \<open>sz\<close> bytes.\<close>

definition fat32_getNextClusNum :: "addr \<Rightarrow> nat \<Rightarrow> addr \<Rightarrow> nat \<Rightarrow> 'a fat_scheme \<Rightarrow> nat res" where
  "fat32_getNextClusNum bs clus arr sz s =
     checkR (bytes_per_sector bs s \<noteq> 0) DivByZero
       (let ofs = fat32_getFATEntAddr clus s mod bytes_per_sector bs s
        in checkR (ofs + 4 \<le> sz) OutOfBounds (Inr (rd32 (mem s) (arr + ofs) mod 2 ^ 28)))"

fun checksum_loop :: "nat \<Rightarrow> u8 list \<Rightarrow> u8 \<Rightarrow> u8 res" where
  "checksum_loop 0 str acc = Inr acc"
| "checksum_loop (Suc len) [] acc = Inl OutOfBounds"
| "checksum_loop (Suc len) (c # str) acc = checksum_loop len str ((if bit acc 0 then 0x80 else 0) + drop_bit 1 acc + c)"

definition fat32_checksum :: "u8 list \<Rightarrow> u8 res" where
  "fat32_checksum str = checksum_loop 11 str 0"

section \<open>Names\<close>

text \<open>The addresses of the characters of a long name entry at \<open>e\<close>; 0 and \<open>0xFFFF\<close> are no characters, of the others the
  low byte is kept.\<close>

definition lfn_units :: "addr \<Rightarrow> addr list" where
  "lfn_units e =
     map (\<lambda>i. e + offset_of fat32_LongDirent_t ''name1'' + 2 * i) [0..<5] @
     map (\<lambda>i. e + offset_of fat32_LongDirent_t ''name2'' + 2 * i) [0..<6] @
     map (\<lambda>i. e + offset_of fat32_LongDirent_t ''name3'' + 2 * i) [0..<2]"

definition lfn_chars :: "mem \<Rightarrow> addr \<Rightarrow> u8 list" where
  "lfn_chars m e = map m (filter (\<lambda>a. rd16 m a \<noteq> 0xFFFF \<and> rd16 m a \<noteq> 0) (lfn_units e))"

definition short_name :: "u8 list \<Rightarrow> u8 list" where
  "short_name nm =
     takeWhile (\<lambda>c. c \<noteq> 32) (take 8 nm) @
     (if nm ! 8 \<noteq> 32 then 46 # takeWhile (\<lambda>c. c \<noteq> 32) (take 3 (drop 8 nm)) else [])"

text \<open>What \<open>filename\<close> holds: the collected long name if there is one. Both are read up to their first NUL.\<close>

definition entry_name :: "mem \<Rightarrow> addr \<Rightarrow> u8 list \<Rightarrow> cstring res" where
  "entry_name m e lfn =
     (if lfn \<noteq> [] then checkR (length lfn < FAT32_MAX_LFNLEN) Overrun (Inr (c_string lfn))
      else Inr (c_string (short_name (mread m e 11))))"

section \<open>The tree\<close>

text \<open>The inner loop of \<open>fat32_loadTree\<close> over the array of \<open>sz\<close> bytes at \<open>buf\<close>; \<open>lfn\<close> are the characters collected.\<close>

function scan_entries :: "addr \<Rightarrow> nat \<Rightarrow> nat \<Rightarrow> u8 list \<Rightarrow> 'a mm_scheme \<Rightarrow> 'a mm_scheme res" where
  "scan_entries buf sz ofs lfn s =
     (if \<not> ofs < sz then Inr s
      else if mem s (buf + ofs) = FAT32_DIRENT_EMPTY then Inr s
      else if mem s (buf + ofs) = FAT32_DIRENT_DELETED then scan_entries buf sz (Suc ofs) lfn s
      else checkR (ofs + offset_of fat32_Dirent_t ''attr'' < sz) OutOfBounds
        (if mem s (buf + ofs + offset_of fat32_Dirent_t ''attr'') AND FAT32_ATTR_LONGNAME = FAT32_ATTR_LONGNAME
         then checkR (ofs + 32 \<le> sz) OutOfBounds
           (let lfn' = lfn @ lfn_chars (mem s) (buf + ofs)
            in checkR (length lfn' \<le> FAT32_MAX_LFNLEN) Overrun (scan_entries buf sz (Suc ofs) lfn' s))
         else bindR (entry_name (mem s) (buf + ofs) lfn) (\<lambda>filename.
              bindR (INFO ''fat32_loadTree'' ''%s'' [S filename] s) (scan_entries buf sz (Suc ofs) []))))"
  by pat_completeness auto
termination
  by (relation "measure (\<lambda>(buf, sz, ofs, lfn, s). sz - ofs)") auto

declare scan_entries.simps [simp del]

text \<open>The loop over the sectors of a cluster: each is read, and then the whole array is scanned. \<open>False\<close> stands for the
  early return. A sector that does not fit the array is an overrun.\<close>

function load_sectors :: "addr \<Rightarrow> addr \<Rightarrow> nat \<Rightarrow> nat \<Rightarrow> nat \<Rightarrow> 'a fat_scheme \<Rightarrow> (bool \<times> 'a fat_scheme) res" where
  "load_sectors bs buf sz cluster k s =
     (if \<not> k < sectors_per_cluster bs s then Inr (True, s)
      else let at = k * bytes_per_sector bs s;
               (r, s1) = ramdisk_read (Some (fat32_Disk s)) (wrap32 (fat32_getClusLBA bs cluster s + k)) (buf + at) 1 s
           in if r \<noteq> 0 then bindR (ERR ''fat32_loadTree'' ''Unable to read sector from disk'' [] s1) (\<lambda>s2. Inr (False, s2))
              else checkR (at + wrap32 (bsize (fat32_Disk s)) \<le> sz) Overrun
                (bindR (scan_entries buf (cluster_size bs s1) 0 [] s1) (load_sectors bs buf sz cluster (Suc k))))"
  by pat_completeness auto
termination
proof -
  have b: "k < 256" if "k < sectors_per_cluster bs s" for k bs and s :: "'a fat_scheme"
    using that unat_u8_less less_trans unfolding sectors_per_cluster_def by blast
  show ?thesis by (relation "measure (\<lambda>(bs, buf, sz, cluster, k, s). 256 - k)") (auto dest!: b)
qed

declare load_sectors.simps [simp del]

fun load_tree :: "addr \<Rightarrow> addr \<Rightarrow> nat \<Rightarrow> nat \<Rightarrow> 'a fat_scheme \<Rightarrow> (int option \<times> 'a fat_scheme) res" where
  "load_tree bs buf cluster 0 s =
     bindR (ERR ''fat32_loadTree'' ''Cluster chain too long or corrupted'' [] s) (\<lambda>s1. Inr (Some (-1), s1))"
| "load_tree bs buf cluster (Suc timeout) s =
     (if \<not> cluster < FAT32_CLUSTYPE_EOF_MIN then Inr (None, s)
      else bindR (load_sectors bs buf (cluster_size bs s) cluster 0 s) (\<lambda>(ok, s1).
        if \<not> ok then Inr (Some (-1), s1)
        else bindR (fat32_getNextClusNum bs cluster buf (cluster_size bs s1) s1) (\<lambda>next.
          load_tree bs buf next timeout s1)))"

definition fat32_loadTree :: "addr \<Rightarrow> addr \<Rightarrow> nat \<Rightarrow> 'a fat_scheme \<Rightarrow> (int option \<times> 'a fat_scheme) res" where
  "fat32_loadTree bs buf clus s = load_tree bs buf clus (fat32_DataClucCnt s) s"

section \<open>Mounting\<close>

text \<open>The numbers computed from the boot sector.\<close>

definition set_geometry :: "addr \<Rightarrow> nat \<Rightarrow> 'a fat_scheme \<Rightarrow> 'a fat_scheme res" where
  "set_geometry bs lba s =
     (let f16 = (\<lambda>f. rd16 (mem s) (bs + offset_of fat32_Bootsec_t f));
          f32 = (\<lambda>f. rd32 (mem s) (bs + offset_of fat32_Bootsec_t f));
          fats = wrap32 (unat (mem s (bs + offset_of fat32_Bootsec_t ''numFATs'')) * f32 ''FATSize32'');
          start = wrap32 (lba + f16 ''reservedSectorCount'');
          cnt = sub32 (f32 ''totalSectors32'') (wrap32 (f16 ''reservedSectorCount'' + fats))
      in checkR (sectors_per_cluster bs s \<noteq> 0) DivByZero
        (Inr (s\<lparr>fat32_LBAStart := start, fat32_DataSecLBA := wrap32 (start + fats), fat32_DataSecCnt := cnt,
           fat32_DataClucCnt := cnt div sectors_per_cluster bs s\<rparr>)))"

text \<open>\<open>eax\<close> is what the caller finds as the answer of a function that returned none.\<close>

definition fat32_mount :: "addr \<Rightarrow> addr \<Rightarrow> int \<Rightarrow> nat \<Rightarrow> 'a fat_scheme \<Rightarrow> (int option \<times> 'a fat_scheme) res" where
  "fat32_mount bs buf eax lba s =
     (let (r, s1) = ramdisk_read (Some (fat32_Disk s)) lba bs 1 s
      in if r \<noteq> 0 then bindR (ERR ''fat32_mount'' ''Unable to read disk'' [] s1) (\<lambda>s2. Inr (Some (-1), s2))
         else checkR (wrap32 (bsize (fat32_Disk s)) \<le> size_of fat32_Bootsec_t) Overrun
           (bindR (set_geometry bs lba s1) (\<lambda>s2.
              if fat32_DataClucCnt s2 < 65525
              then bindR (ERR ''fat32_mount'' ''Volume format not supported or corrupted.'' [] s2) (\<lambda>s3. Inr (Some (-1), s3))
              else bindR (malloc (cluster_size bs s2) s2) (\<lambda>(p1, s3).
                bindR (malloc FAT32_MAX_LFNLEN (s3\<lparr>fat32_SecBuf := p1\<rparr>)) (\<lambda>(p2, s4).
                bindR (malloc FAT32_MAX_LFNLEN (s4\<lparr>fat32_LFNBuf := p2\<rparr>)) (\<lambda>(p3, s5).
                  let s6 = s5\<lparr>fat32_FNameBuf := p3\<rparr>
                  in if p1 = 0 \<or> p2 = 0 \<or> p3 = 0
                     then bindR (ERR ''fat32_mount'' ''Out of memory'' [] s6) (\<lambda>s7. Inr (Some (-1), s7))
                     else bindR (fat32_loadTree bs buf (rd32 (mem s6) (bs + offset_of fat32_Bootsec_t ''rootCluster'')) s6) (\<lambda>(v, s7).
                       if (case v of None \<Rightarrow> eax | Some v \<Rightarrow> v) \<noteq> 0
                       then bindR (ERR ''fat32_mount'' ''File system loading failed'' [] s7) (\<lambda>s8. Inr (Some (-1), s8))
                       else bindR (INFO ''fat32_mount'' ''Volume mounted'' [] s7) (\<lambda>s8. Inr (None, s8)))))))))"

section \<open>Facts\<close>

lemma bootsec_layout: "size_of fat32_Bootsec_t = 90" "offset_of fat32_Bootsec_t ''bytesPerSector'' = 11"
  "offset_of fat32_Bootsec_t ''sectorsPerCluster'' = 13" "offset_of fat32_Bootsec_t ''reservedSectorCount'' = 14"
  "offset_of fat32_Bootsec_t ''numFATs'' = 16" "offset_of fat32_Bootsec_t ''totalSectors32'' = 32"
  "offset_of fat32_Bootsec_t ''FATSize32'' = 36" "offset_of fat32_Bootsec_t ''rootCluster'' = 44"
  by (simp_all add: fat32_Bootsec_t_def packed_def offset_of_def size_of_def align_up_def)

lemma dirent_layout: "size_of fat32_Dirent_t = 32" "size_of fat32_LongDirent_t = 32" "offset_of fat32_Dirent_t ''attr'' = 11"
  "offset_of fat32_LongDirent_t ''attr'' = 11" "offset_of fat32_LongDirent_t ''name1'' = 1" "offset_of fat32_LongDirent_t ''name2'' = 14"
  "offset_of fat32_LongDirent_t ''name3'' = 28" "offset_of fat32_Dirent_t ''firstClusterHigh'' = 20"
  "offset_of fat32_Dirent_t ''firstClusterLow'' = 26" "offset_of fat32_Dirent_t ''fileSize'' = 28"
  by (simp_all add: fat32_Dirent_t_def fat32_LongDirent_t_def packed_def offset_of_def size_of_def align_up_def)

lemma fat32_checksum_rotates:
  assumes "11 \<le> length str"
  shows "fat32_checksum str = Inr (fold (\<lambda>c acc. word_rotr 1 acc + c) (take 11 str) 0)"
proof -
  have rot: "(if bit x 0 then 0x80 else 0) + drop_bit 1 x = word_rotr 1 x" for x :: u8
  proof -
    have "(0x80 :: int) = push_bit 7 1" by simp
    then have h: "bit (0x80 :: int) n \<longleftrightarrow> n = 7" for n by (simp only: bit_push_bit_iff bit_1_iff) auto
    have "(if bit x 0 then 0x80 else 0) AND drop_bit 1 x = 0"
      by (rule bit_word_eqI) (auto simp: bit_simps h dest: bit_imp_le_length)
    then have "(if bit x 0 then 0x80 else 0) + drop_bit 1 x = (if bit x 0 then 0x80 else 0) OR drop_bit 1 x"
      by (simp add: disjunctive_add_eq_or)
    also have "\<dots> = word_rotr 1 x"
    proof (rule bit_word_eqI)
      fix n assume "n < LENGTH(8)"
      then show "bit ((if bit x 0 then 0x80 else 0) OR drop_bit 1 x) n = bit (word_rotr 1 x) n"
        by (cases "n = 7") (auto simp: bit_simps h dest: bit_imp_le_length)
    qed
    finally show ?thesis .
  qed
  have "checksum_loop n str acc = Inr (fold (\<lambda>c acc. word_rotr 1 acc + c) (take n str) acc)" if "n \<le> length str" for n acc str
    using that
  proof (induction n str acc rule: checksum_loop.induct)
    case (3 len c str acc)
    then show ?case unfolding rot [symmetric] by simp
  qed simp_all
  then show ?thesis using assms by (simp add: fat32_checksum_def)
qed

lemma takeWhile_pad: "x \<notin> set b \<Longrightarrow> takeWhile (\<lambda>c. c \<noteq> x) (b @ replicate n x) = b"
proof -
  assume x: "x \<notin> set b"
  have "takeWhile (\<lambda>c. c \<noteq> x) (replicate n x) = []" by (cases n) simp_all
  then show ?thesis using x by (subst takeWhile_append2) auto
qed

lemma short_name_padded:
  assumes "length b \<le> 8" "length x \<le> 3" "32 \<notin> set b" "32 \<notin> set x"
  shows "short_name (b @ replicate (8 - length b) 32 @ x @ replicate (3 - length x) 32) = b @ (if x = [] then [] else 46 # x)"
proof -
  let ?nm = "b @ replicate (8 - length b) 32 @ x @ replicate (3 - length x) 32"
  have t: "take 8 ?nm = b @ replicate (8 - length b) 32" using assms(1) by simp
  have d: "drop 8 ?nm = x @ replicate (3 - length x) 32" using assms(1) by simp
  have "?nm ! 8 = (x @ replicate (3 - length x) 32) ! 0" using assms(1) by (simp add: nth_append)
  also have "\<dots> = (if x = [] then 32 else hd x)" by (cases x) auto
  finally have n: "?nm ! 8 \<noteq> 32 \<longleftrightarrow> x \<noteq> []" using assms(4) by (cases x) auto
  show ?thesis unfolding short_name_def t d n
    using takeWhile_pad [OF assms(3)] takeWhile_pad [OF assms(4)] assms(2) by (simp add: min_def)
qed

text \<open>How a long name of at most 13 characters is written: a terminator, if it is shorter, and a filling.\<close>

definition long_units :: "cstring \<Rightarrow> nat list" where
  "long_units cs = take 13 (map unat cs @ 0 # replicate 12 0xFFFF)"

lemma lfn_chars_units:
  assumes "length cs \<le> 13" "0 \<notin> set cs" "map (rd16 m) (lfn_units e) = long_units cs"
  shows "lfn_chars m e = cs"
proof -
  let ?P = "\<lambda>v. v \<noteq> 0xFFFF \<and> v \<noteq> (0 :: nat)"
  have "(256 :: u8) = 0" by simp
  then have "256 * b = 0" for b :: u8 by (metis mult_zero_left)
  then have low: "of_nat (rd16 m a) = m a" for a by (simp add: rd16_def)
  have "lfn_chars m e = map of_nat (filter ?P (map (rd16 m) (lfn_units e)))"
    by (simp add: lfn_chars_def filter_map low comp_def)
  also have "\<dots> = map of_nat (filter ?P (map unat cs) @ filter ?P (take (13 - length cs) (0 # replicate 12 0xFFFF)))"
    using assms(1) by (simp add: assms(3) long_units_def)
  also have "filter ?P (map unat cs) = map unat cs"
  proof -
    have "?P (unat c)" if "c \<in> set cs" for c
      using that assms(2) unat_u8_less [of c] by (auto simp: unat_eq_0)
    then show ?thesis by (auto simp: filter_id_conv)
  qed
  also have "filter ?P (take (13 - length cs) (0 # replicate 12 0xFFFF)) = []"
    by (auto simp: filter_empty_conv dest!: in_set_takeD)
  finally show ?thesis by (simp add: comp_def)
qed

section \<open>Properties\<close>

text \<open>The names of directory entries are read as they are written: of a short entry, base and extension without the
  filling, with a dot between them if there is an extension; of a long entry with at most 13 characters, these
  characters.\<close>

theorem entry_name_roundtrip:
  assumes "length b \<le> 8" "length x \<le> 3" "32 \<notin> set (b @ x)" "is_cstr (b @ x)"
    and "mread m e 11 = b @ replicate (8 - length b) 32 @ x @ replicate (3 - length x) 32"
    and "cs \<noteq> []" "length cs \<le> 13" "is_cstr cs" "map (rd16 m) (lfn_units l) = long_units cs"
  shows "entry_name m e [] = Inr (b @ (if x = [] then [] else 46 # x)) \<and> entry_name m e (lfn_chars m l) = Inr cs"
proof -
  have c: "c_string t = t" if "0 \<notin> set t" for t using that unfolding c_string_def by (auto simp: takeWhile_eq_all_conv)
  have n: "short_name (mread m e 11) = b @ (if x = [] then [] else 46 # x)"
    unfolding assms(5) using assms(1-3) by (intro short_name_padded) auto
  have "0 \<notin> set (b @ (if x = [] then [] else 46 # x))" using assms(4) by (auto simp: is_cstr_def)
  moreover have "lfn_chars m l = cs" using assms(7-9) by (intro lfn_chars_units) (auto simp: is_cstr_def)
  ultimately show ?thesis using assms(6-8) c unfolding entry_name_def n by (auto simp: is_cstr_def)
qed

text \<open>\<open>README.TXT\<close> with the long name \<open>read me\<close>.\<close>

definition name_demo :: mem where
  "name_demo = mwrite (mwrite (\<lambda>_. 0) 0 (cstr ''README  TXT''))
     32 ([0x41] @ concat (map (\<lambda>c. [c, 0]) (cstr ''read '')) @ [0x0F, 0, 0] @ concat (map (\<lambda>c. [c, 0]) (cstr ''me'')) @
       [0, 0, 0xFF, 0xFF, 0xFF, 0xFF, 0xFF, 0xFF, 0, 0, 0xFF, 0xFF, 0xFF, 0xFF])"

theorem entry_name_roundtrip_witness:
  "entry_name name_demo 0 [] = Inr (cstr ''README.TXT'') \<and> entry_name name_demo 0 (lfn_chars name_demo 32) = Inr (cstr ''read me'')"
proof -
  have r: "replicate 12 x = [x, x, x, x, x, x, x, x, x, x, x, x]" "replicate 2 x = [x, x]" for x :: 'x by (simp_all add: numeral_eq_Suc)
  have m: "mread name_demo 0 11 = cstr ''README'' @ replicate 2 32 @ cstr ''TXT'' @ replicate 0 32"
    by (simp add: name_demo_def mread_def mwrite_def cstr_def upt_conv_Cons r)
  have "map (rd16 name_demo) (lfn_units 32) = long_units (cstr ''read me'')"
    by (simp add: cstr_def upt_conv_Cons lfn_units_def long_units_def dirent_layout r)
      (simp add: rd16_def name_demo_def mwrite_def cstr_def)
  from entry_name_roundtrip [OF _ _ _ _ _ _ _ _ this, of "cstr ''README''" "cstr ''TXT''" 0] m
  show ?thesis by (simp add: cstr_def is_cstr_def)
qed

text \<open>Mounting with a disk that was never created, and with a disk of the usual block size.\<close>

lemma fat32_mount_no_disk:
  assumes "blimit (fat32_Disk s) = 0" "lba < 4294967295"
  shows "\<exists>t. fat32_mount bs buf eax lba s = Inr (Some (-1), s\<lparr>tty := t\<rparr>)"
proof -
  have r: "ramdisk_read (Some (fat32_Disk s)) lba bs 1 s = (-1, s)"
    using assms by (cases "bs = 0") (simp_all add: ramdisk_read_def)
  obtain t where "ERR ''fat32_mount'' ''Unable to read disk'' [] s = Inr (s\<lparr>tty := t\<rparr>)"
    using message_accepts [of "cstr ''%s: Error: '' @ cstr ''Unable to read disk'' @ [10]" "[S (cstr ''fat32_mount'')]" s]
    by (auto simp: ERR_def cstr_def)
  then show ?thesis using r by (auto simp: fat32_mount_def)
qed

lemma fat32_mount_overruns:
  assumes "disk_ok (fat32_Disk s) s" "size_of fat32_Bootsec_t < bsize (fat32_Disk s)" "lba < blimit (fat32_Disk s)" "0 < bs"
  shows "fat32_mount bs buf eax lba s = Inl Overrun"
proof -
  have "lba + 1 \<le> blimit (fat32_Disk s)" using assms(3) by simp
  note t = transfer_place [OF assms(1) this]
  have "wrap32 (bsize (fat32_Disk s)) = bsize (fat32_Disk s)" using t(3) by simp
  moreover have "fst (ramdisk_read (Some (fat32_Disk s)) lba bs 1 s) = 0"
    using assms(3,4) t(1) by (simp add: ramdisk_read_def Let_def)
  ultimately show ?thesis using assms(2)
    by (cases "ramdisk_read (Some (fat32_Disk s)) lba bs 1 s") (simp add: fat32_mount_def)
qed

end
