(* ===== verification/FatReaders.thy ===== *)
theory FatReaders
  imports Fat32
begin

text \<open>
  The two samples the FAT32 reader was written after. \<open>source/fs/fat32_example2.c\<close> has the geometry, the cluster
  arithmetic and the variables of \<open>fat32.c\<close>, reads files and lists directories recursively; the arrays it keeps on the
  stack are arguments, the one of a directory at depth \<open>l\<close> at \<open>stk l\<close>. \<open>source/fs/fat32_example.c\<close> has variables of its own
  and lists the root directory; it is the only one of the three that looks up the next cluster in the allocation table.
\<close>

unbundle bit_operations_syntax

section \<open>Reading a file\<close>

text \<open>All sectors of a cluster into an array of \<open>sz\<close> bytes; \<open>False\<close> stands for the early return of \<open>fn\<close>.\<close>

function read_cluster :: "string \<Rightarrow> addr \<Rightarrow> addr \<Rightarrow> nat \<Rightarrow> nat \<Rightarrow> nat \<Rightarrow> 'a fat_scheme \<Rightarrow> (bool \<times> 'a fat_scheme) res" where
  "read_cluster fn bs buf sz cluster k s =
     (if \<not> k < sectors_per_cluster bs s then Inr (True, s)
      else let at = k * bytes_per_sector bs s;
               (r, s1) = ramdisk_read (Some (fat32_Disk s)) (wrap32 (fat32_getClusLBA bs cluster s + k)) (buf + at) 1 s
           in if r \<noteq> 0 then bindR (ERR fn ''Unable to read cluster sector'' [] s1) (\<lambda>s2. Inr (False, s2))
              else checkR (at + wrap32 (bsize (fat32_Disk s)) \<le> sz) Overrun (read_cluster fn bs buf sz cluster (Suc k) s1))"
  by pat_completeness auto
termination
proof -
  have b: "k < 256" if "k < sectors_per_cluster bs s" for k bs and s :: "'a fat_scheme"
    using that unat_u8_less less_trans unfolding sectors_per_cluster_def by blast
  show ?thesis by (relation "measure (\<lambda>(fn, bs, buf, sz, cluster, k, s). 256 - k)") (auto dest!: b)
qed

declare read_cluster.simps [simp del]

definition first_cluster :: "mem \<Rightarrow> addr \<Rightarrow> nat" where
  "first_cluster m e =
     rd16 m (e + offset_of fat32_Dirent_t ''firstClusterHigh'') * 65536 + rd16 m (e + offset_of fat32_Dirent_t ''firstClusterLow'')"

definition file_size :: "mem \<Rightarrow> addr \<Rightarrow> nat" where
  "file_size m e = rd32 m (e + offset_of fat32_Dirent_t ''fileSize'')"

text \<open>The loop of \<open>fat32_read_file\<close>; an array of no bytes is undefined behaviour.\<close>

function read_file_loop :: "addr \<Rightarrow> addr \<Rightarrow> nat \<Rightarrow> addr \<Rightarrow> nat \<Rightarrow> nat \<Rightarrow> 'a fat_scheme \<Rightarrow> (int \<times> 'a fat_scheme) res" where
  "read_file_loop bs buf sz buffer cluster remaining s =
     (if \<not> (cluster < FAT32_CLUSTYPE_EOF_MIN \<and> 0 < remaining) then Inr (0, s)
      else if sz = 0 then Inl OutOfBounds
      else bindR (read_cluster ''fat32_read_file'' bs buf sz cluster 0 s) (\<lambda>(ok, s1).
        if \<not> ok then Inr (-1, s1)
        else let copySize = min remaining sz;
                 s2 = s1\<lparr>mem := ncopy (mem s1) buffer buf copySize\<rparr>
             in bindR (fat32_getNextClusNum bs cluster buf sz s2) (\<lambda>next.
               read_file_loop bs buf sz (wrap32 (buffer + copySize)) next (remaining - copySize) s2)))"
  by pat_completeness auto
termination
  by (relation "measure (\<lambda>(bs, buf, sz, buffer, cluster, remaining, s). remaining)") auto

declare read_file_loop.simps [simp del]

definition fat32_read_file :: "addr \<Rightarrow> addr \<Rightarrow> addr \<Rightarrow> addr \<Rightarrow> 'a fat_scheme \<Rightarrow> (int \<times> 'a fat_scheme) res" where
  "fat32_read_file bs buf e buffer s =
     read_file_loop bs buf (cluster_size bs s) buffer (first_cluster (mem s) e) (file_size (mem s) e) s"

section \<open>Listing directories\<close>

text \<open>An entry that is neither free nor part of a long name; \<open>child\<close> lists a directory one level below.\<close>

definition list_dir_entry :: "(nat \<Rightarrow> 'a fat_scheme \<Rightarrow> 'a fat_scheme res) \<Rightarrow> addr \<Rightarrow> addr \<Rightarrow> nat \<Rightarrow> addr \<Rightarrow> cstring \<Rightarrow> 'a fat_scheme \<Rightarrow>
    'a fat_scheme res" where
  "list_dir_entry child bs fbuf level e filename s =
     (let s1 = puts (concat (replicate level (cstr ''  ''))) s in
      if mem s1 (e + offset_of fat32_Dirent_t ''attr'') AND FAT32_ATTR_DIRECTORY \<noteq> 0
      then bindR (printf (cstr ''[DIR]  %s'' @ [10]) [S filename] s1) (\<lambda>s2.
        let c = first_cluster (mem s2) e
        in if compare filename (cstr ''.'') \<noteq> 0 \<and> compare filename (cstr ''..'') \<noteq> 0 \<and> c \<ge> 2 \<and> c < FAT32_CLUSTYPE_EOF_MIN
           then child c s2 else Inr s2)
      else bindR (printf (cstr ''[FILE] %s (%d bytes)'' @ [10]) [S filename, W (of_nat (file_size (mem s1) e))] s1) (\<lambda>s2.
        bindR (calloc 1 (file_size (mem s2) e) s2) (\<lambda>(p, s3).
        bindR (fat32_read_file bs fbuf e p s3) (\<lambda>(_, s4).
        nputs (mread (mem s4) p (file_size (mem s4) e)) (file_size (mem s4) e) s4))))"

function list_dir_entries :: "(nat \<Rightarrow> 'a fat_scheme \<Rightarrow> 'a fat_scheme res) \<Rightarrow> addr \<Rightarrow> addr \<Rightarrow> addr \<Rightarrow> nat \<Rightarrow> nat \<Rightarrow> nat \<Rightarrow> u8 list \<Rightarrow>
    'a fat_scheme \<Rightarrow> 'a fat_scheme res" where
  "list_dir_entries child bs buf fbuf level sz off lfn s =
     (if \<not> off < sz then Inr s
      else if mem s (buf + off) = FAT32_DIRENT_EMPTY then Inr s
      else if mem s (buf + off) = FAT32_DIRENT_DELETED then list_dir_entries child bs buf fbuf level sz (off + 32) lfn s
      else checkR (off + size_of fat32_Dirent_t \<le> sz) OutOfBounds
        (if mem s (buf + off + offset_of fat32_Dirent_t ''attr'') AND FAT32_ATTR_LONGNAME = FAT32_ATTR_LONGNAME
         then let lfn' = lfn @ lfn_chars (mem s) (buf + off)
              in checkR (length lfn' \<le> FAT32_MAX_LFNLEN) Overrun (list_dir_entries child bs buf fbuf level sz (off + 32) lfn' s)
         else bindR (entry_name (mem s) (buf + off) lfn) (\<lambda>filename.
              bindR (list_dir_entry child bs fbuf level (buf + off) filename s) (list_dir_entries child bs buf fbuf level sz (off + 32) []))))"
  by pat_completeness auto
termination
  by (relation "measure (\<lambda>(child, bs, buf, fbuf, level, sz, off, lfn, s). sz - off)") auto

declare list_dir_entries.simps [simp del]

text \<open>A chain of clusters and a tree of directories may be cyclic: \<open>fuel\<close> bounds the clusters visited along a path.\<close>

fun fat32_list_dir_recursive :: "nat \<Rightarrow> addr \<Rightarrow> (nat \<Rightarrow> addr) \<Rightarrow> (nat \<Rightarrow> addr) \<Rightarrow> nat \<Rightarrow> nat \<Rightarrow> 'a fat_scheme \<Rightarrow> 'a fat_scheme res" where
  "fat32_list_dir_recursive 0 bs stk fstk cluster level s = Inl Diverges"
| "fat32_list_dir_recursive (Suc fuel) bs stk fstk cluster level s =
     (if \<not> cluster < FAT32_CLUSTYPE_EOF_MIN then Inr s
      else bindR (read_cluster ''fat32_list_dir_recursive'' bs (stk level) (cluster_size bs s) cluster 0 s) (\<lambda>(ok, s1).
        if \<not> ok then Inr s1
        else bindR (list_dir_entries (\<lambda>child. fat32_list_dir_recursive fuel bs stk fstk child (Suc level)) bs (stk level) (fstk level) level
            (cluster_size bs s) 0 [] s1) (\<lambda>s2.
          bindR (fat32_getNextClusNum bs cluster (stk level) (cluster_size bs s) s2) (\<lambda>next.
            fat32_list_dir_recursive fuel bs stk fstk next level s2))))"

definition fat32_mount_list :: "nat \<Rightarrow> addr \<Rightarrow> (nat \<Rightarrow> addr) \<Rightarrow> (nat \<Rightarrow> addr) \<Rightarrow> nat \<Rightarrow> 'a fat_scheme \<Rightarrow> (int option \<times> 'a fat_scheme) res" where
  "fat32_mount_list fuel bs stk fstk lba s =
     (let (r, s1) = ramdisk_read (Some (fat32_Disk s)) lba bs 1 s
      in if r \<noteq> 0 then bindR (ERR ''fat32_mount'' ''Unable to read disk'' [] s1) (\<lambda>s2. Inr (Some (-1), s2))
         else checkR (wrap32 (bsize (fat32_Disk s)) \<le> size_of fat32_Bootsec_t) Overrun
           (bindR (set_geometry bs lba s1) (\<lambda>s2.
              if fat32_DataClucCnt s2 < 65525
              then bindR (ERR ''fat32_mount'' ''Volume format not supported or corrupted.'' [] s2) (\<lambda>s3. Inr (Some (-1), s3))
              else bindR (fat32_list_dir_recursive fuel bs stk fstk (rd32 (mem s2) (bs + offset_of fat32_Bootsec_t ''rootCluster'')) 0 s2)
                (\<lambda>s3. Inr (None, s3)))))"

section \<open>The other sample\<close>

record fatex = mm +
  fdisk :: ramdisk_t
  FATStart :: nat
  DataStart :: nat
  bytesPerCluster :: nat

definition cluster_to_lba :: "addr \<Rightarrow> nat \<Rightarrow> 'a fatex_scheme \<Rightarrow> nat" where
  "cluster_to_lba bs cluster s = wrap32 (DataStart s + wrap32 (sub32 cluster 2 * sectors_per_cluster bs s))"

text \<open>The result of the read is not looked at; \<open>buf\<close> has 512 bytes.\<close>

definition get_fat_entry :: "addr \<Rightarrow> addr \<Rightarrow> nat \<Rightarrow> 'a fatex_scheme \<Rightarrow> (nat \<times> 'a fatex_scheme) res" where
  "get_fat_entry bs buf cluster s =
     (let fatOffset = wrap32 (cluster * 4)
      in checkR (bytes_per_sector bs s \<noteq> 0) DivByZero
        (let (r, s1) = ramdisk_read (Some (fdisk s)) (wrap32 (FATStart s + fatOffset div bytes_per_sector bs s)) buf 1 s
         in checkR (r = 0 \<longrightarrow> wrap32 (bsize (fdisk s)) \<le> 512) Overrun
           (checkR (bytes_per_sector bs s1 \<noteq> 0) DivByZero
             (checkR (fatOffset mod bytes_per_sector bs s1 + 4 \<le> 512) OutOfBounds
               (Inr (rd32 (mem s1) (buf + fatOffset mod bytes_per_sector bs s1) mod 2 ^ 28, s1))))))"

definition fat32_mount_root :: "addr \<Rightarrow> nat \<Rightarrow> 'a fatex_scheme \<Rightarrow> (int \<times> 'a fatex_scheme) res" where
  "fat32_mount_root bs lba_start s =
     (let (r, s1) = ramdisk_read (Some (fdisk s)) lba_start bs 1 s
      in if r \<noteq> 0 then Inr (-1, s1)
         else checkR (wrap32 (bsize (fdisk s)) \<le> size_of fat32_Bootsec_t) Overrun
           (let start = wrap32 (lba_start + rd16 (mem s1) (bs + offset_of fat32_Bootsec_t ''reservedSectorCount''));
                fats = wrap32 (unat (mem s1 (bs + offset_of fat32_Bootsec_t ''numFATs'')) * rd32 (mem s1) (bs + offset_of fat32_Bootsec_t ''FATSize32''))
            in Inr (0, s1\<lparr>FATStart := start, DataStart := wrap32 (start + fats),
                 bytesPerCluster := bytes_per_sector bs s1 * sectors_per_cluster bs s1\<rparr>)))"

text \<open>The entries of a sector, \<open>k\<close> of them left; \<open>True\<close> stands for the return at the first one never used. The name of 11
  bytes is printed up to its first NUL.\<close>

fun root_entries :: "addr \<Rightarrow> nat \<Rightarrow> nat \<Rightarrow> 'a fatex_scheme \<Rightarrow> (bool \<times> 'a fatex_scheme) res" where
  "root_entries buf i 0 s = Inr (False, s)"
| "root_entries buf i (Suc k) s =
     (let e = buf + i * 32 in
      checkR (i * 32 + 32 \<le> 4096) OutOfBounds
        (if mem s e = FAT32_DIRENT_EMPTY then Inr (True, s)
         else if mem s (e + offset_of fat32_Dirent_t ''attr'') AND 0x0F = 0x0F \<or> mem s e = FAT32_DIRENT_DELETED
         then root_entries buf (Suc i) k s
         else bindR (printf (cstr ''File: %s Size: %d'' @ [10]) [S (c_string (mread (mem s) e 11)), W (of_nat (file_size (mem s) e))] s)
           (root_entries buf (Suc i) k)))"

function root_sectors :: "addr \<Rightarrow> addr \<Rightarrow> nat \<Rightarrow> nat \<Rightarrow> 'a fatex_scheme \<Rightarrow> (bool \<times> 'a fatex_scheme) res" where
  "root_sectors bs buf cluster k s =
     (if \<not> k < sectors_per_cluster bs s then Inr (False, s)
      else let (r, s1) = ramdisk_read (Some (fdisk s)) (wrap32 (cluster_to_lba bs cluster s + k)) buf 1 s
           in checkR (r = 0 \<longrightarrow> wrap32 (bsize (fdisk s)) \<le> 4096) Overrun
             (bindR (root_entries buf 0 (bytes_per_sector bs s1 div size_of fat32_Dirent_t) s1)
               (\<lambda>(stop, s2). if stop then Inr (True, s2) else root_sectors bs buf cluster (Suc k) s2)))"
  by pat_completeness auto
termination
proof -
  have b: "k < 256" if "k < sectors_per_cluster bs s" for k bs and s :: "'a fatex_scheme"
    using that unat_u8_less less_trans unfolding sectors_per_cluster_def by blast
  show ?thesis by (relation "measure (\<lambda>(bs, buf, cluster, k, s). 256 - k)") (auto dest!: b)
qed

declare root_sectors.simps [simp del]

fun list_root_loop :: "nat \<Rightarrow> addr \<Rightarrow> addr \<Rightarrow> addr \<Rightarrow> nat \<Rightarrow> 'a fatex_scheme \<Rightarrow> 'a fatex_scheme res" where
  "list_root_loop 0 bs buf fbuf cluster s = Inl Diverges"
| "list_root_loop (Suc fuel) bs buf fbuf cluster s =
     bindR (root_sectors bs buf cluster 0 s) (\<lambda>(stop, s1).
       if stop then Inr s1
       else bindR (get_fat_entry bs fbuf cluster s1) (\<lambda>(next, s2).
         if next < FAT32_CLUSTYPE_EOF_MIN then list_root_loop fuel bs buf fbuf next s2 else Inr s2))"

definition fat32_list_root :: "nat \<Rightarrow> addr \<Rightarrow> addr \<Rightarrow> addr \<Rightarrow> 'a fatex_scheme \<Rightarrow> 'a fatex_scheme res" where
  "fat32_list_root fuel bs buf fbuf s =
     list_root_loop fuel bs buf fbuf (rd32 (mem s) (bs + offset_of fat32_Bootsec_t ''rootCluster'')) s"

section \<open>What is read\<close>

lemma boot_fields_cong:
  assumes "\<And>a. bs \<le> a \<Longrightarrow> a < bs + 90 \<Longrightarrow> mem t a = mem s a"
  shows "bytes_per_sector bs t = bytes_per_sector bs s" "sectors_per_cluster bs t = sectors_per_cluster bs s"
proof -
  show "bytes_per_sector bs t = bytes_per_sector bs s"
    unfolding bytes_per_sector_def bootsec_layout by (intro rd16_cong) (auto intro!: assms)
  show "sectors_per_cluster bs t = sectors_per_cluster bs s"
    using assms [of "bs + 13"] by (simp add: sectors_per_cluster_def bootsec_layout)
qed

text \<open>An array on the stack for a cluster: it fits, and meets neither the disk nor the boot sector.\<close>

definition cluster_array :: "addr \<Rightarrow> addr \<Rightarrow> nat \<Rightarrow> ramdisk_t \<Rightarrow> bool" where
  "cluster_array bs buf sz d \<longleftrightarrow> 0 < buf \<and> disj buf sz (storage d) (blimit d * bsize d) \<and> disj buf sz bs 90"

lemma read_cluster_eq:
  assumes "disk_ok (fat32_Disk s) s" "bytes_per_sector bs s = bsize (fat32_Disk s)"
    and "fat32_getClusLBA bs cluster s + sectors_per_cluster bs s \<le> blimit (fat32_Disk s)"
    and "cluster_array bs buf (cluster_size bs s) (fat32_Disk s)" "k \<le> sectors_per_cluster bs s"
  shows "read_cluster fn bs buf (cluster_size bs s) cluster k s = Inr (True, s\<lparr>mem := mwrite (mem s) (buf + k * bsize (fat32_Disk s))
    (concat (map (sector (fat32_Disk s) s) [fat32_getClusLBA bs cluster s + k..<fat32_getClusLBA bs cluster s + sectors_per_cluster bs s]))\<rparr>)"
  using assms
proof (induction "sectors_per_cluster bs s - k" arbitrary: k s)
  case 0
  then show ?case by (simp add: read_cluster.simps)
next
  case (Suc n)
  let ?d = "fat32_Disk s" and ?lba = "fat32_getClusLBA bs cluster s" and ?c = "sectors_per_cluster bs s"
  let ?a = "buf + k * bsize ?d" and ?S = "sector (fat32_Disk s) s"
  have k: "k < ?c" using Suc.hyps(2) by simp
  have "Suc k * bsize ?d \<le> ?c * bsize ?d" using k by (intro mult_le_mono1) simp
  then have le: "k * bsize ?d + bsize ?d \<le> cluster_size bs s" using Suc.prems(2) by (simp add: cluster_size_def)
  have at: "disj ?a (1 * bsize ?d) (storage ?d) (blimit ?d * bsize ?d)" "disj ?a (bsize ?d) bs 90" "0 < ?a"
    using Suc.prems(4) le by (auto simp: cluster_array_def disj_def)
  have on: "?lba + k + 1 \<le> blimit ?d" using Suc.prems(3) k by simp
  from disk_room(1) [OF Suc.prems(1)] have room: "storage ?d + blimit ?d * bsize ?d < 4294967296" .
  note t = transfer_place [OF Suc.prems(1) on]
  have w: "wrap32 (?lba + k) = ?lba + k" "wrap32 (bsize ?d) = bsize ?d"
    using t(1,3) by (simp_all add: wrap32_def)
  let ?t = "s\<lparr>mem := mwrite (mem s) ?a (?S (?lba + k))\<rparr>"
  from ramdisk_read_blocks [OF Suc.prems(1) on at(3,1)] have
    rd: "ramdisk_read (Some ?d) (?lba + k) ?a 1 s = (0, ?t)" and ok: "disk_ok ?d ?t" and same: "\<forall>i < blimit ?d. sector ?d ?t i = ?S i"
    by auto
  have bf: "bytes_per_sector bs ?t = bytes_per_sector bs s" "sectors_per_cluster bs ?t = ?c"
    using at(2) by (auto intro!: boot_fields_cong mwrite_outside simp: disj_def sector_def)
  then have g: "fat32_getClusLBA bs cluster ?t = ?lba" "cluster_size bs ?t = cluster_size bs s"
    by (simp_all add: fat32_getClusLBA_def cluster_size_def)
  have mp: "map (sector ?d ?t) [?lba + Suc k..<?lba + ?c] = map ?S [?lba + Suc k..<?lba + ?c]" using same Suc.prems(3) by auto
  have "read_cluster fn bs buf (cluster_size bs ?t) cluster (Suc k) ?t = Inr (True, ?t\<lparr>mem := mwrite (mem ?t) (buf + Suc k * bsize ?d)
      (concat (map ?S [?lba + Suc k..<?lba + ?c]))\<rparr>)"
    unfolding mp [symmetric] using Suc.hyps(1) [of ?t "Suc k"] Suc.hyps(2) Suc.prems ok k unfolding bf g by simp
  moreover have "mwrite (mwrite (mem s) ?a (?S (?lba + k))) (buf + Suc k * bsize ?d) x = mwrite (mem s) ?a (?S (?lba + k) @ x)" for x
    using mwrite_append [of "mem s" ?a "?S (?lba + k)" x] by (simp add: sector_def ac_simps)
  moreover have "[?lba + k..<?lba + ?c] = (?lba + k) # [?lba + Suc k..<?lba + ?c]" using k by (simp add: upt_conv_Cons)
  ultimately show ?case
    using k rd le w by (simp add: read_cluster.simps [of fn bs buf "cluster_size bs s" cluster k s] Suc.prems(2) g Let_def)
qed

text \<open>C40.
  \<open>fat32_read_file\<close> on a file of at most one cluster, on a disk whose blocks are the sectors of the volume: it answers 0,
  the caller's buffer holds the bytes of the file, those at the start of its cluster, and no other memory has changed
  but the array for the cluster. (The word it looks at afterwards must lie in that array.)\<close>

theorem fat32_read_file_reads:
  assumes "disk_ok (fat32_Disk s) s" "bytes_per_sector bs s = bsize (fat32_Disk s)" "c = first_cluster (mem s) e" "c < 0x0FFFFFF8"
    and "lba = fat32_getClusLBA bs c s" "lba + sectors_per_cluster bs s \<le> blimit (fat32_Disk s)"
    and "n = file_size (mem s) e" "n \<le> cluster_size bs s" "cluster_array bs buf (cluster_size bs s) (fat32_Disk s)"
    and "disj buffer n buf n" "disj buffer n bs 90"
    and "fat32_getFATEntAddr c s mod bytes_per_sector bs s + 4 \<le> cluster_size bs s"
  shows "\<exists>s'. fat32_read_file bs buf e buffer s = Inr (0, s') \<and>
    mread (mem s') buffer n = take n (concat (map (sector (fat32_Disk s) s) [lba..<lba + sectors_per_cluster bs s])) \<and>
    (\<forall>a. a \<notin> {buf..<buf + cluster_size bs s} \<union> {buffer..<buffer + n} \<longrightarrow> mem s' a = mem s a)"
proof (cases "n = 0")
  case True
  then show ?thesis using assms(7) by (simp add: fat32_read_file_def read_file_loop.simps)
next
  case False
  let ?d = "fat32_Disk s" and ?sz = "cluster_size bs s"
  let ?data = "concat (map (sector ?d s) [lba..<lba + sectors_per_cluster bs s])"
  let ?s1 = "s\<lparr>mem := mwrite (mem s) buf ?data\<rparr>"
  let ?s2 = "?s1\<lparr>mem := ncopy (mem ?s1) buffer buf n\<rparr>"
  have rc: "read_cluster ''fat32_read_file'' bs buf ?sz c 0 s = Inr (True, ?s1)"
    using read_cluster_eq [of s bs c buf 0 "''fat32_read_file''"] assms(1,2,5,6,9) by simp
  have len: "length ?data = ?sz" using assms(2) by (simp add: length_concat comp_def sector_def cluster_size_def sum_list_triv)
  have out: "mem ?s2 a = mem s a" if "a \<notin> {buf..<buf + ?sz} \<union> {buffer..<buffer + n}" for a
  proof -
    have "a < buffer \<or> buffer + n \<le> a" "a < buf \<or> buf + length ?data \<le> a" using that unfolding len by auto
    then show ?thesis using ncopy_outside [of a buffer n "mwrite (mem s) buf ?data" buf] mwrite_outside [of a buf ?data "mem s"] by simp
  qed
  have cp: "mread (mem ?s2) buffer n = take n ?data"
    using mread_ncopy_self [OF assms(10), of "mem ?s1"] mread_take [of n ?sz "mem ?s1" buf] assms(8) len by simp
  have b: "bytes_per_sector bs ?s2 = bytes_per_sector bs s"
    using assms(9,11) by (intro boot_fields_cong out) (auto simp: cluster_array_def disj_def)
  have nz: "bytes_per_sector bs s \<noteq> 0" using assms(1,2) by (simp add: disk_ok_def)
  have f: "fat32_getFATEntAddr c ?s2 = fat32_getFATEntAddr c s" by (simp add: fat32_getFATEntAddr_def)
  obtain v where nx: "fat32_getNextClusNum bs c buf ?sz ?s2 = Inr v"
    using nz assms(12) unfolding fat32_getNextClusNum_def b f by (simp add: Let_def)
  have "fat32_read_file bs buf e buffer s = Inr (0, ?s2)"
    using False assms(4,8) rc nx
    by (simp add: fat32_read_file_def assms(3,7) [symmetric] read_file_loop.simps [of bs buf ?sz buffer c n s] Let_def)
      (simp add: read_file_loop.simps)
  then show ?thesis using cp out by blast
qed

text \<open>A volume of eight sectors of 512 bytes in the first block of the heap, with one sector per cluster and its second
  sector the first of the data; the boot sector stands at 100, an entry for a file of five bytes at 300.\<close>

definition fat_demo :: fat where
  "fat_demo = mm.extend (mm_demo1\<lparr>mem := mwrite (mwrite (mwrite (\<lambda>_. 0) 111 [0, 2, 1]) 326 [2, 0, 5]) 8704 (cstr ''Hello'')\<rparr>)
     \<lparr>fat32_Disk = \<lparr>storage = 8192, blimit = 8, bsize = 512\<rparr>, fat32_LBAStart = 0, fat32_DataSecLBA = 1, fat32_DataSecCnt = 7,
      fat32_DataClucCnt = 7, fat32_SecBuf = 0, fat32_LFNBuf = 0, fat32_FNameBuf = 0\<rparr>"

lemma fat_demo_fields [simp]: "fat32_Disk fat_demo = \<lparr>storage = 8192, blimit = 8, bsize = 512\<rparr>" "fat32_LBAStart fat_demo = 0"
  "fat32_DataSecLBA fat_demo = 1"
  "mem fat_demo = mwrite (mwrite (mwrite (\<lambda>_. 0) 111 [0, 2, 1]) 326 [2, 0, 5]) 8704 (cstr ''Hello'')"
  by (simp_all add: fat_demo_def mm.defs)

lemma fat_demo_ok: "disk_ok \<lparr>storage = 8192, blimit = 8, bsize = 512\<rparr> fat_demo"
proof -
  have "mm_inv fat_demo = mm_inv mm_demo1" by (rule mm_inv_cong) (simp_all add: fat_demo_def mm.defs)
  moreover have "live fat_demo = live mm_demo1" by (rule live_cong) (simp_all add: fat_demo_def mm.defs)
  ultimately show ?thesis using mm_demo1_inv mm_demo1_live by (simp add: disk_ok_def)
qed

theorem fat32_read_file_reads_witness:
  "\<exists>s'. fat32_read_file 100 1000 300 2000 fat_demo = Inr (0, s') \<and> mread (mem s') 2000 5 = cstr ''Hello''"
proof -
  have f: "bytes_per_sector 100 fat_demo = 512" "sectors_per_cluster 100 fat_demo = 1" "first_cluster (mem fat_demo) 300 = 2"
    "file_size (mem fat_demo) 300 = 5"
    by (simp_all add: bytes_per_sector_def sectors_per_cluster_def first_cluster_def file_size_def bootsec_layout dirent_layout
        rd16_def rd32_def mwrite_def cstr_def)
  then have g: "cluster_size 100 fat_demo = 512" "fat32_getClusLBA 100 2 fat_demo = 1" "fat32_getFATEntAddr 2 fat_demo = 8"
    by (simp_all add: cluster_size_def fat32_getClusLBA_def fat32_getFATEntAddr_def sub32_def wrap32_def)
  have a: "cluster_array 100 1000 512 \<lparr>storage = 8192, blimit = 8, bsize = 512\<rparr>" by (simp add: cluster_array_def disj_def)
  have "take 5 (sector (fat32_Disk fat_demo) fat_demo 1) = cstr ''Hello''"
    by (simp add: sector_def sector_at_def mread_take) (simp add: mread_def mwrite_def cstr_def upt_conv_Cons)
  then show ?thesis
    using fat32_read_file_reads [of fat_demo 100 2 300 1 5 1000 2000] fat_demo_ok a f g by (simp add: disj_def) blast
qed

text \<open>In the sample that looks up the allocation table, the table is the region of the disk from its first sector on.\<close>

lemma get_fat_entry_looks_up:
  assumes "disk_ok (fdisk s) s" "bsize (fdisk s) = 512" "bytes_per_sector bs s = 512" "cluster < 1073741824"
    and "FATStart s + cluster div 128 < blimit (fdisk s)" "cluster_array bs buf 512 (fdisk s)"
  shows "\<exists>s'. get_fat_entry bs buf cluster s = Inr (rd32 (mem s) (storage (fdisk s) + FATStart s * 512 + cluster * 4) mod 2 ^ 28, s')"
proof -
  let ?d = "fdisk s" and ?l = "FATStart s + cluster div 128"
  have on: "?l + 1 \<le> blimit ?d" using assms(5) by simp
  have buf: "0 < buf" "disj buf (1 * bsize ?d) (storage ?d) (blimit ?d * bsize ?d)" using assms(2,6) by (simp_all add: cluster_array_def)
  let ?t = "s\<lparr>mem := mwrite (mem s) buf (sector ?d s ?l)\<rparr>"
  from ramdisk_read_blocks [OF assms(1) on buf] have rd: "ramdisk_read (Some ?d) ?l buf 1 s = (0, ?t)" by auto
  have "?l < 4294967296" using transfer_place(1) [OF assms(1) on] by (simp add: wrap32_def) 
  moreover have q: "cluster * 4 div 512 = cluster div 128" "cluster * 4 mod 512 = cluster mod 128 * 4"
    using div_mult_mult2 [of 4 cluster 128] mult_mod_left [of cluster 128 4] by simp_all
  ultimately have w: "wrap32 (FATStart s + wrap32 (cluster * 4) div 512) = ?l" "wrap32 (cluster * 4) = cluster * 4"
    using assms(4) by (simp_all add: wrap32_small)
  have bt: "bytes_per_sector bs ?t = 512"
    using boot_fields_cong(1) [of bs ?t s] assms(2,3,6) by (auto simp: cluster_array_def disj_def mwrite_outside sector_def)
  let ?o = "cluster mod 128 * 4"
  have o: "?o + 4 \<le> 512" using mod_less_divisor [of 128 cluster] by linarith
  have place: "sector_at ?d ?l + ?o = storage ?d + FATStart s * 512 + cluster * 4"
  proof -
    have "c * 4 = q * 512 + r * 4" if "q * 128 + r = c" for c q r :: nat using that by linarith
    from this [OF div_mult_mod_eq [of cluster 128]] show ?thesis using assms(2) by (simp add: sector_at_def add_mult_distrib)
  qed
  have "rd32 (mem ?t) (buf + ?o) = rd32 (\<lambda>a. mem s (a - buf + sector_at ?d ?l)) (buf + ?o)"
    using o assms(2) by (intro rd32_cong) (simp add: mwrite_def sector_def ac_simps)
  also have "\<dots> = rd32 (mem s) (sector_at ?d ?l + ?o)" by (simp add: rd32_def ac_simps)
  finally have "rd32 (mem ?t) (buf + ?o) = rd32 (mem s) (storage ?d + FATStart s * 512 + cluster * 4)" unfolding place .
  then show ?thesis using rd w o q bt assms(2,3) by (simp add: get_fat_entry_def Let_def)
qed

end
