(* ===== verification/Spec2Isabelle.thy ===== *)
theory Spec2Isabelle
  imports Memory MountMgr CoreFs IoCall Utils Multitask PortIO Console Protect Syscall Machine
    Acpi DevBus Drivers Keyboard I8042 Layout TarFs UsbRegs Usb Kernel Input Boot SelfTest RamDisk OldMemory Loader
    Fat32 FatReaders
begin

text \<open>
  Deputy, a small 32-bit x86 kernel, as functions over an explicit machine state, with the theorems that make its
  parts correct. The code is C, compiled for i386 without paging; every definition is translated from a function,
  a structure or a table under \<open>src/\<close>, and \<open>PROJECT.json\<close> names the lines.

  \<^bold>\<open>The program.\<close> The boot loader hands over a memory map and one module, a tar archive. \<open>kernel_init\<close> reads both, copies
  the module behind the kernel and starts the components in order: segments, interrupts, memory manager, core file system,
  multitasking, mount manager, system calls, ACPI, device bus (which runs the driver list, hence the USB driver), PS/2
  controller. \<open>kernel_main\<close> mounts the archive at the root, creates the device files \<open>/dev/keyboard\<close> and \<open>/dev/mouse\<close>,
  starts the idle process and a program from the archive, and polls the controller for ever, yielding in between.
  Programs call the kernel through vector \<open>0x80\<close>; descriptors lead to entries of the file system, entries are blocks of
  the memory manager, device files are queues the PS/2 driver fills through the descriptor calls.

  \<^bold>\<open>The state\<close> is one record that grows with the components, each of which adds the static variables of its file:
  \<open>mm\<close> (Memory), \<open>mnt\<close> (MountMgr), \<open>fs\<close> (CoreFs), \<open>io\<close> (IoCall), \<open>multi\<close> (Multitask), \<open>prot\<close> (Protect), \<open>sysc\<close> (Syscall),
  \<open>hw\<close> (Machine), \<open>acpi\<close> (Acpi), \<open>dbus\<close> (DevBus), \<open>kbc\<close> (I8042), \<open>xhci\<close> (Usb), \<open>kern\<close> (Kernel). Operations of a component are
  defined over every extension of its record, so that later components call them as they are. Memory is a function
  from addresses to bytes; tables the kernel only reaches by index (the block table, the process table, the entries
  of the file system, the descriptors, the cells of the screen) are fields of their own, beside the address they
  stand at. A C function that can panic or index a table out of bounds returns \<open>res\<close>, a sum
  whose left side is \<open>Panic\<close> with its message, \<open>OutOfBounds\<close>, \<open>Overrun\<close>, \<open>BadVarArg\<close> or \<open>Diverges\<close>.

  \<^bold>\<open>The theories.\<close>
  \<^item> Prelude: machine arithmetic (\<open>wrap32\<close>, \<open>sub32\<close>), results, memory, C strings, the searches through tables.
    Interfaces: the contracts as locales, \<open>allocator\<close> (interpreted on \<open>malloc\<close> and \<open>free\<close>, used by the file system and the
    process table), \<open>slot_table\<close> (interpreted on the mount slots and on the process table), \<open>bounded_queue\<close> (interpreted on the
    device files) and \<open>block_device\<close> (interpreted on the RAM disk). Layout: how the compiler lays out structures read from foreign memory.
  \<^item> Memory, \<open>source/kernel/memory.c\<close>: \<open>malloc\<close>, \<open>calloc\<close>, \<open>realloc\<close>, \<open>free\<close>, \<open>mavail\<close>, \<open>memory_init\<close>. The invariant \<open>mm_inv\<close>
    says that the regions of the block table are disjoint and that every allocated block has an owner; \<open>live\<close> is the
    abstract heap, a map from addresses to sizes, which every operation updates at one point.
  \<^item> MountMgr, \<open>source/kernel/mountmgr.c\<close>: the table of mounted data.
  \<^item> CoreFs, \<open>source/kernel/corefs.c\<close>: every function of the file system. \<open>fs_inv\<close> is its invariant, \<open>fs_view\<close> the abstract
    specification: a map from paths to header and bytes. Each operation is shown to refine an update of the map, or to
    leave it alone and answer the documented status.
  \<^item> IoCall, \<open>source/kernel/iocall.c\<close>, \<open>source/drv/keyboard.c\<close>, \<open>source/drv/mouse.c\<close>: descriptors, \<open>open\<close>, \<open>read\<close>, \<open>write\<close>,
    \<open>close\<close>; reading and writing at a position, device files as bounded queues.
  \<^item> Utils, \<open>source/kernel/utils.c\<close>: numbers and text, \<open>printf\<close> and \<open>snprintf\<close> against one reference rendering, splitting, hashes,
    ciphers, the clock and \<open>sleep\<close>. A date is six readings of the clock, which may tear; the accesses to the two ports of the
    clock are counted by \<open>ticks\<close> and are not in the log of the other ports. \<open>putchar\<close> appends to the output stream \<open>tty\<close>.
  \<^item> Multitask, \<open>source/kernel/multitask.c\<close> and \<open>multitask_swi.s\<close>: \<open>spawn\<close>, \<open>kill\<close>, \<open>exec\<close> with its ELF loader, \<open>yield\<close>. \<open>task_inv\<close>
    gives every process a stack of its own; round robin is fair, a process resumes with the registers it left with. \<open>multitask_swi\<close> is
    the exchange of the registers; the words it pushes below the stack pointer of the process that yields, which nothing reads back,
    are not written to memory.
  \<^item> PortIO, Machine: \<open>source/hw/port.c\<close>; the devices are an arbitrary function of the history of port accesses. Machine also
    has \<open>delay\<close> of \<open>source/kernel/utils.c\<close>, which needs the time stamp counter, and the calls of \<open>delay\<close> and \<open>sleep\<close>.
  \<^item> Console, \<open>source/kernel/console.c\<close>: against a terminal of 80 by 25 cells. Its record stands beside the kernel state and is
    not connected to it: theorems about messages of the kernel are about the stream \<open>tty\<close>, which the console is given byte by byte.
  \<^item> Protect, \<open>source/hw/protect_init.c\<close>, \<open>source/hw/interrupts.c\<close>: the two descriptor tables as the processor reads them.
    Syscall, \<open>source/kernel/syscall.c\<close>: table, handler, the router of \<open>yield\<close> on the stack. The handler is the C function it is:
    it leaves two words of the interrupt frame on the stack, and what it leaves in \<open>EAX\<close>, \<open>ECX\<close> and \<open>EDX\<close> otherwise is the parameter \<open>leftovers\<close>.
  \<^item> Acpi, \<open>source/hw/acpi.c\<close>; DevBus and Drivers, \<open>source/hw/devbus.c\<close>, \<open>source/kernel/drivers.c\<close>; Keyboard and I8042,
    \<open>source/hw/i8042.c\<close> with the key codes of \<open>include/drv/keyboard.h\<close>. Drivers has the scan of the bus with the driver as an
    argument and \<open>loads\<close>, the runs of the driver list one after the other; Usb puts in \<open>usb_init\<close> (\<open>devbus_init_scans_all\<close>).
  \<^item> TarFs, \<open>source/fs/tarfs.c\<close>: mounting ends for every archive and binds exactly its members.
  \<^item> UsbRegs, Usb, \<open>source/drv/usb.c\<close>: the structures and masks, and the driver against an arbitrary controller: a function
    that may change memory after every register access. One theorem covers every outcome of the initialization.
  \<^item> Kernel, \<open>source/kernel/kernel.c\<close>, \<open>include/multiboot.h\<close>: the start. \<open>start_core_boots\<close> composes the initializers: from
    the cold machine they establish the invariants that the theorems of the other theories assume; \<open>make_devices_ready\<close>
    does the same for the device files; \<open>load_module_loads\<close> and \<open>find_field_last\<close> are about what the boot loader hands over.
    Boot: all of \<open>kernel_init\<close> in one run, for a boot without a module, without ACPI and USB controller, from the cold machine to
    the state the main loop needs; with a stable counter the two calls of \<open>sleep(1)\<close> may hang (\<open>two_naps\<close>).
  \<^item> Input: the way of an event from the drivers through the device files to the main loop, over PS/2 controller,
    descriptors, file system and console.

  \<^bold>\<open>Code beside the kernel.\<close> Files that are not in the list of objects of the Makefile, over the same state:
  \<^item> OldMemory, \<open>source/kernel/memory_old.c\<close>: the first memory manager, shown to be the present one up to the number of
    blocks it counts. Loader, \<open>source/kernel/program.c\<close>: the first loader, shown to load like \<open>exec\<close>, at a fixed address.
  \<^item> RamDisk, \<open>source/drv/ramdisk.c\<close>: an array of blocks in the heap; any sequence of requests on the disk acts as on an array.
  \<^item> Fat32, \<open>source/fs/fat32.c\<close>, and FatReaders, \<open>source/fs/fat32_example2.c\<close> and \<open>fat32_example.c\<close>: an unfinished reader and the
    two samples it was written after. What they do right is shown (names, files of one cluster, the lookup in the allocation
    table), and that mounting fails on a disk that was never created and with blocks larger than the boot sector structure.
  \<^item> SelfTest: the parts of \<open>kernel.c\<close> nothing runs, the blocks under \<open>if (false)\<close> and the example tasks.

  \<^bold>\<open>Loops and bounds.\<close> A loop over a table is a recursion over a counter that starts at the size of the table. Loops that
  wait for a device or the clock are \<open>partial_function (option)\<close>: not returning is the value \<open>None\<close>, reported as \<open>Diverges\<close>
  (\<open>copy\<close>, \<open>sleep\<close>, \<open>delay\<close>, the waits of the PS/2 poll, the mounting loop, the wait for the USB controller); where such a loop does end, that is a theorem
  (\<open>sleep_returns_iff\<close>, \<open>tarfs_mount_returns\<close>, \<open>copy_returns\<close>). Waits with a counter in the code keep that counter. The loops over USB ports
  have a counter of 256 turns, enough because their bound is the low byte of a register. The chains of clusters and the
  directories of a FAT32 volume may be cyclic, and listing them may not end: those recursions carry fuel, and no theorem
  is about a run that needs more. Of endless loops (\<open>kernel_main\<close>,
  \<open>kernel_idle\<close>, \<open>usb_process\<close>) one turn is a definition. C strings read from foreign memory are read up to the end of the
  address space.

  \<^bold>\<open>Parameters.\<close> Linker symbols, addresses of tables and assembly stubs, and uninitialised locals whose value reaches
  behaviour are arguments (\<open>link_map\<close>, \<open>bar\<close>, \<open>dev\<close>). The processor's answers to \<open>cpuid\<close>, the time stamp counter, the clock
  and the devices are functions in the state or arguments. The waiting loops of the kernel yield inside the process stream: what the
  other processes do until the scheduler is back is the argument \<open>others\<close> (\<open>in_stream\<close>), an arbitrary function on the state
  that may also fault or not come back; before the first process runs it is never called. No theorem fixes any of these beyond its stated hypotheses.

  \<^bold>\<open>Not modelled.\<close> The interrupt stubs, the entry code and the context switch are assembly; the context switch is modelled
  from \<open>multitask_swi.s\<close>, the others only by the addresses they stand at. Preemption does not exist: interrupts other than
  system calls only stop the machine. Of the files outside the list of objects, \<open>fallbackmem_old.c\<close>,
  \<open>accounts_canceled.c\<close> and \<open>console_canceled.c\<close> are cancelled plans that do not compile, \<open>program_example.c\<close> and
  \<open>program_example2.c\<close> are samples for a hosted C library; \<open>system/test.c\<close> is a user program, inline assembly around system
  calls.
\<close>

end
